(* ===== verification/Prelude.thy ===== *)
theory Prelude
  imports Main "HOL-Library.Word" "HOL-Library.Option_ord"
begin

text \<open>
  Shared vocabulary of the development: the machine types of the program, the fragments of the
  Rust standard library the sources call (checked and saturating arithmetic, conversions between
  integer widths, little-endian bytes, ASCII classification, decimal parsing and printing) and the
  result type with its sequencing operator.

  Sizes and indices (\<open>usize\<close>) are natural numbers with the 64-bit bound written out where the
  code checks it; \<open>u8\<close>, \<open>u16\<close>, \<open>u32\<close>, \<open>u64\<close> and
  \<open>i64\<close> are machine words, \<open>i64\<close> read with \<^const>\<open>sint\<close>;
  \<open>i128\<close> accumulators are integers. A \<open>str\<close> is the list of its UTF-8 bytes, and the
  type \<^typ>\<open>char\<close> is such a byte.
\<close>

unbundle bit_operations_syntax

section \<open>Types\<close>

type_synonym u8 = "8 word"
type_synonym u16 = "16 word"
type_synonym u32 = "32 word"
type_synonym u64 = "64 word"
type_synonym i64 = "64 word"
type_synonym usize = nat
type_synonym nullable_i64 = "i64 option"

text \<open>The facts that take results of fallible operations apart.\<close>

named_theorems result_simps

section \<open>Results\<close>

text \<open>\<open>Result<T, E>\<close> is \<open>'e + 'a\<close>: \<open>Inl\<close> holds the error. The
  operator \<open>?\<close> is \<open>res_bind\<close>, \<open>map_err\<close> and \<open>ok_or\<close> are the
  methods of the same name.\<close>

fun res_bind :: "'e + 'a \<Rightarrow> ('a \<Rightarrow> 'e + 'b) \<Rightarrow> 'e + 'b" where
  "res_bind (Inl e) f = Inl e"
| "res_bind (Inr x) f = f x"

fun map_err :: "('e \<Rightarrow> 'f) \<Rightarrow> 'e + 'a \<Rightarrow> 'f + 'a" where
  "map_err g (Inl e) = Inl (g e)"
| "map_err g (Inr x) = Inr x"

fun ok_or :: "'a option \<Rightarrow> 'e \<Rightarrow> 'e + 'a" where
  "ok_or None e = Inl e"
| "ok_or (Some x) e = Inr x"

fun is_ok :: "'e + 'a \<Rightarrow> bool" where
  "is_ok (Inl _) = False"
| "is_ok (Inr _) = True"

lemma res_bind_Inr_iff [result_simps]:
  "res_bind m f = Inr y \<longleftrightarrow> (\<exists>x. m = Inr x \<and> f x = Inr y)"
  by (cases m) auto

lemma res_bind_Inl_iff [result_simps]:
  "res_bind m f = Inl e \<longleftrightarrow> m = Inl e \<or> (\<exists>x. m = Inr x \<and> f x = Inl e)"
  by (cases m) auto

lemma map_err_Inr_iff [result_simps]: "map_err g m = Inr y \<longleftrightarrow> m = Inr y"
  by (cases m) auto

lemma map_err_Inl_iff [result_simps]: "map_err g m = Inl e \<longleftrightarrow> (\<exists>e'. m = Inl e' \<and> e = g e')"
  by (cases m) auto

lemma ok_or_Inr_iff [result_simps]: "ok_or m e = Inr y \<longleftrightarrow> m = Some y"
  by (cases m) auto

lemma ok_or_Inl_iff [result_simps]: "ok_or m e = Inl e' \<longleftrightarrow> m = None \<and> e' = e"
  by (cases m) auto

lemma is_ok_iff: "is_ok m \<longleftrightarrow> (\<exists>x. m = Inr x)"
  by (cases m) auto

section \<open>Sizes\<close>

definition usize_max :: usize where
  "usize_max = 18446744073709551615"

definition checked_add :: "usize \<Rightarrow> usize \<Rightarrow> usize option" where
  "checked_add a b = (if a + b \<le> usize_max then Some (a + b) else None)"

definition checked_mul :: "usize \<Rightarrow> usize \<Rightarrow> usize option" where
  "checked_mul a b = (if a * b \<le> usize_max then Some (a * b) else None)"

definition saturating_add :: "usize \<Rightarrow> usize \<Rightarrow> usize" where
  "saturating_add a b = min (a + b) usize_max"

definition saturating_sub :: "usize \<Rightarrow> usize \<Rightarrow> usize" where
  "saturating_sub a b = (if b \<le> a then a - b else 0)"

definition saturating_mul :: "usize \<Rightarrow> usize \<Rightarrow> usize" where
  "saturating_mul a b = min (a * b) usize_max"

definition div_ceil :: "usize \<Rightarrow> usize \<Rightarrow> usize" where
  "div_ceil a b = (if a mod b = 0 then a div b else a div b + 1)"

lemma div_ceil_pos: "0 < a \<Longrightarrow> 0 < b \<Longrightarrow> 0 < div_ceil a b"
  by (auto simp: div_ceil_def dvd_def mod_eq_0_iff_dvd)

text \<open>\<open>u64::try_from(usize)\<close> and \<open>usize::try_from(u64)\<close> on a 64-bit target.\<close>

definition u64_of_usize :: "usize \<Rightarrow> u64 option" where
  "u64_of_usize n = (if n \<le> usize_max then Some (of_nat n) else None)"

definition usize_of_u64 :: "u64 \<Rightarrow> usize option" where
  "usize_of_u64 w = (if unat w \<le> usize_max then Some (unat w) else None)"

lemma usize_max_eq: "usize_max = 2 ^ 64 - 1"
  by (simp add: usize_max_def)

lemma unat_u64_le_usize_max [simp]: "unat (w :: u64) \<le> usize_max"
proof -
  have "unat w < 2 ^ LENGTH(64)" by (rule unsigned_less)
  then show ?thesis by (simp add: usize_max_def)
qed

lemma usize_of_u64_eq [simp]: "usize_of_u64 w = Some (unat w)"
  by (simp add: usize_of_u64_def)

lemma unat_of_nat_u64 [simp]: "n \<le> usize_max \<Longrightarrow> unat (of_nat n :: u64) = n"
  by (simp add: usize_max_def unat_of_nat)

lemma u64_of_usize_eq: "n \<le> usize_max \<Longrightarrow> u64_of_usize n = Some (of_nat n)"
  by (simp add: u64_of_usize_def)

lemma u64_of_usize_Some_iff [result_simps]:
  "u64_of_usize n = Some w \<longleftrightarrow> n \<le> usize_max \<and> w = of_nat n"
  by (auto simp: u64_of_usize_def)

lemma checked_add_Some_iff [result_simps]:
  "checked_add a b = Some c \<longleftrightarrow> a + b \<le> usize_max \<and> c = a + b"
  by (auto simp: checked_add_def)

lemma checked_mul_Some_iff [result_simps]:
  "checked_mul a b = Some c \<longleftrightarrow> a * b \<le> usize_max \<and> c = a * b"
  by (auto simp: checked_mul_def)

lemma saturating_add_id: "a + b \<le> usize_max \<Longrightarrow> saturating_add a b = a + b"
  by (simp add: saturating_add_def)

lemma saturating_sub_eq [simp]: "saturating_sub a b = a - b"
  by (simp add: saturating_sub_def)

section \<open>Signed 64-bit values\<close>

definition i64_min :: int where
  "i64_min = -9223372036854775808"

definition i64_max :: int where
  "i64_max = 9223372036854775807"

text \<open>\<open>i64::try_from(i128)\<close>.\<close>

definition i64_of_int :: "int \<Rightarrow> i64 option" where
  "i64_of_int z = (if i64_min \<le> z \<and> z \<le> i64_max then Some (word_of_int z) else None)"

lemma sint_i64_bounds: "i64_min \<le> sint (v :: i64) \<and> sint v \<le> i64_max"
  using sint_ge [of v] sint_lt [of v] by (simp add: i64_min_def i64_max_def)

lemma sint_word_of_int_i64:
  assumes "i64_min \<le> z" and "z \<le> i64_max"
  shows "sint (word_of_int z :: i64) = z"
proof -
  have "signed_take_bit 63 z = z"
    using assms by (intro signed_take_bit_int_eq_self) (simp_all add: i64_min_def i64_max_def)
  then show ?thesis by (simp add: sint_sbintrunc')
qed

lemma i64_of_int_sint [simp]: "i64_of_int (sint v) = Some v"
  using sint_i64_bounds [of v] by (simp add: i64_of_int_def)

lemma i64_of_int_Some_iff [result_simps]: "i64_of_int z = Some v \<longleftrightarrow> z = sint v"
  using sint_i64_bounds [of v] by (auto simp: i64_of_int_def sint_word_of_int_i64)

lemma i64_of_int_None_iff [result_simps]:
  "i64_of_int z = None \<longleftrightarrow> z < i64_min \<or> i64_max < z"
  by (auto simp: i64_of_int_def)

lemma sint_inj_i64: "inj (sint :: i64 \<Rightarrow> int)"
  by (rule injI) (rule signed_word_eqI)

text \<open>The derived order of \<open>Option<i64>\<close> puts \<open>None\<close> first and compares values as
  signed integers: it is the order of the keys below.\<close>

text \<open>Flipping the sign bit shifts the signed to the unsigned order; the complement reverses it.\<close>

lemma flip_sign_bit_add: "w XOR 9223372036854775808 = w + (9223372036854775808 :: u64)"
proof -
  have "w XOR 9223372036854775808 = flip_bit 63 w" by (simp add: flip_bit_eq_xor)
  moreover have "w - 9223372036854775808 = w + (9223372036854775808 :: u64)"
    by (simp add: diff_eq_eq)
  ultimately show ?thesis
    by (cases "bit w 63") (simp_all add: flip_bit_eq_if unset_bit_eq set_bit_eq)
qed

lemma uint_flip_sign: "uint (w XOR (9223372036854775808 :: u64)) = sint w + 9223372036854775808"
proof -
  have "sint w = signed_take_bit 63 (uint w)" by (simp add: sint_uint)
  also have "\<dots> = take_bit 64 (uint w + 2 ^ 63) - 2 ^ 63"
    by (simp add: signed_take_bit_eq_take_bit_shift)
  also have "take_bit 64 (uint w + 2 ^ 63) = uint (w + 9223372036854775808)"
    by (simp add: uint_word_ariths take_bit_eq_mod)
  finally show ?thesis by (simp add: flip_sign_bit_add)
qed

lemma uint_not: "uint (NOT (x :: u64)) = mask 64 - uint x"
proof -
  have "take_bit 64 (uint x) = uint x"
    using uint_lt2p [of x] by (simp add: take_bit_int_eq_self)
  then show ?thesis by (simp add: unsigned_not_eq take_bit_not_eq_mask_diff)
qed

definition nkey :: "nullable_i64 \<Rightarrow> int option" where
  "nkey v = map_option sint v"

lemma nkey_inj: "inj nkey"
  using sint_inj_i64 by (auto simp: nkey_def inj_def map_option_case split: option.splits)

lemma nkey_eq_iff [simp]: "nkey a = nkey b \<longleftrightarrow> a = b"
  using nkey_inj by (auto dest: injD)

section \<open>Little-endian bytes\<close>

text \<open>\<open>to_le_bytes\<close> and \<open>from_le_bytes\<close>, for every width.\<close>

fun to_le :: "nat \<Rightarrow> 'a::len word \<Rightarrow> u8 list" where
  "to_le 0 w = []"
| "to_le (Suc n) w = ucast w # to_le n (drop_bit 8 w)"

fun from_le :: "u8 list \<Rightarrow> 'a::len word" where
  "from_le [] = 0"
| "from_le (b # bs) = ucast b OR push_bit 8 (from_le bs)"

lemma length_to_le [simp]: "length (to_le n w) = n"
  by (induction n arbitrary: w) auto

lemma take_bit_split_byte:
  fixes w :: "'a::len word"
  shows "ucast (ucast w :: u8) OR push_bit 8 (take_bit n (drop_bit 8 w)) = take_bit (8 + n) w"
  by (rule bit_word_eqI)
    (auto simp: bit_or_iff bit_push_bit_iff bit_take_bit_iff bit_drop_bit_eq bit_unsigned_iff)

lemma from_le_to_le: "from_le (to_le n w) = take_bit (8 * n) (w :: 'a::len word)"
  by (induction n arbitrary: w) (simp_all add: take_bit_split_byte [symmetric])

lemma from_le_to_le_u64 [simp]: "from_le (to_le 8 w) = (w :: u64)"
  by (simp add: from_le_to_le take_bit_word_eq_self)

lemma from_le_to_le_u32 [simp]: "from_le (to_le 4 w) = (w :: u32)"
  by (simp add: from_le_to_le take_bit_word_eq_self)

lemma from_le_to_le_u16 [simp]: "from_le (to_le 2 w) = (w :: u16)"
  by (simp add: from_le_to_le take_bit_word_eq_self)

text \<open>Conversely, reading a byte list of the right length and writing it again gives it back:
  an encoding is canonical.\<close>

lemma low_byte_of_split:
  fixes w :: "'a::len word"
  assumes "8 \<le> LENGTH('a)"
  shows "(ucast (ucast (b :: u8) OR push_bit 8 w) :: u8) = b"
  using assms
  by (intro bit_word_eqI)
    (auto simp: bit_or_iff bit_push_bit_iff bit_unsigned_iff)

lemma high_bytes_of_split:
  fixes w :: "'a::len word"
  assumes "8 \<le> LENGTH('a)" and "\<And>i. LENGTH('a) - 8 \<le> i \<Longrightarrow> \<not> bit w i"
  shows "drop_bit 8 (ucast (b :: u8) OR push_bit 8 w) = w"
proof (rule bit_word_eqI)
  fix i assume i: "i < LENGTH('a)"
  show "bit (drop_bit 8 (ucast b OR push_bit 8 w)) i = bit w i"
  proof (cases "8 + i < LENGTH('a)")
    case True
    then show ?thesis
      by (auto simp: bit_drop_bit_eq bit_or_iff bit_push_bit_iff bit_unsigned_iff
          dest: bit_imp_le_length)
  next
    case False
    then have "\<not> bit w i" using assms(2) [of i] by simp
    with False show ?thesis
      using bit_imp_le_length [of "ucast b OR push_bit 8 w" "8 + i"]
      by (simp only: bit_drop_bit_eq comp_def) blast
  qed
qed

lemma bit_from_le_bound: "bit (from_le bs :: 'a::len word) i \<Longrightarrow> i < 8 * length bs"
proof (induction bs arbitrary: i)
  case Nil
  then show ?case by simp
next
  case (Cons b bs)
  then consider "bit (ucast b :: 'a word) i" | "8 \<le> i" "bit (from_le bs :: 'a word) (i - 8)"
    by (auto simp: bit_or_iff bit_push_bit_iff)
  then show ?case
  proof cases
    case 1
    then have "i < 8" by (auto simp: bit_unsigned_iff dest: bit_imp_le_length)
    then show ?thesis by simp
  next
    case 2
    from Cons.IH [OF 2(2)] show ?thesis using 2(1) by simp
  qed
qed

lemma to_le_from_le:
  "8 * length bs \<le> LENGTH('a) \<Longrightarrow> to_le (length bs) (from_le bs :: 'a::len word) = bs"
proof (induction bs)
  case Nil
  then show ?case by simp
next
  case (Cons b bs)
  have high: "\<not> bit (from_le bs :: 'a word) i" if "LENGTH('a) - 8 \<le> i" for i
    using bit_from_le_bound [of bs i] that Cons.prems by fastforce
  have "drop_bit 8 (ucast b OR push_bit 8 (from_le bs)) = (from_le bs :: 'a word)"
    using Cons.prems high by (intro high_bytes_of_split) auto
  moreover have "(ucast (ucast b OR push_bit 8 (from_le bs :: 'a word)) :: u8) = b"
    using Cons.prems by (intro low_byte_of_split) auto
  ultimately show ?case using Cons by simp
qed

section \<open>ASCII text\<close>

text \<open>The methods \<open>is_ascii_digit\<close>, \<open>is_ascii_alphabetic\<close>,
  \<open>is_ascii_alphanumeric\<close>, \<open>is_ascii_whitespace\<close>, \<open>to_ascii_lowercase\<close> and
  \<open>eq_ignore_ascii_case\<close> of bytes and byte strings.\<close>

definition is_ascii_digit :: "char \<Rightarrow> bool" where
  "is_ascii_digit c \<longleftrightarrow> 48 \<le> (of_char c :: nat) \<and> (of_char c :: nat) \<le> 57"

definition is_ascii_uppercase :: "char \<Rightarrow> bool" where
  "is_ascii_uppercase c \<longleftrightarrow> 65 \<le> (of_char c :: nat) \<and> (of_char c :: nat) \<le> 90"

definition is_ascii_lowercase :: "char \<Rightarrow> bool" where
  "is_ascii_lowercase c \<longleftrightarrow> 97 \<le> (of_char c :: nat) \<and> (of_char c :: nat) \<le> 122"

definition is_ascii_alphabetic :: "char \<Rightarrow> bool" where
  "is_ascii_alphabetic c \<longleftrightarrow> is_ascii_uppercase c \<or> is_ascii_lowercase c"

definition is_ascii_alphanumeric :: "char \<Rightarrow> bool" where
  "is_ascii_alphanumeric c \<longleftrightarrow> is_ascii_alphabetic c \<or> is_ascii_digit c"

definition is_ascii_whitespace :: "char \<Rightarrow> bool" where
  "is_ascii_whitespace c \<longleftrightarrow> (of_char c :: nat) \<in> {9, 10, 12, 13, 32}"

definition to_ascii_lowercase :: "char \<Rightarrow> char" where
  "to_ascii_lowercase c = (if is_ascii_uppercase c then char_of (of_char c + 32 :: nat) else c)"

definition eq_ignore_ascii_case :: "string \<Rightarrow> string \<Rightarrow> bool" where
  "eq_ignore_ascii_case a b \<longleftrightarrow> map to_ascii_lowercase a = map to_ascii_lowercase b"

lemmas ascii_defs =
  is_ascii_digit_def is_ascii_uppercase_def is_ascii_lowercase_def is_ascii_alphabetic_def
  is_ascii_alphanumeric_def is_ascii_whitespace_def

lemma eq_ignore_ascii_case_refl [simp]: "eq_ignore_ascii_case a a"
  by (simp add: eq_ignore_ascii_case_def)

lemma eq_ignore_ascii_case_sym: "eq_ignore_ascii_case a b \<longleftrightarrow> eq_ignore_ascii_case b a"
  by (auto simp: eq_ignore_ascii_case_def)

lemma eq_ignore_ascii_case_length: "eq_ignore_ascii_case a b \<Longrightarrow> length a = length b"
  unfolding eq_ignore_ascii_case_def by (metis length_map)

lemma digit_not_whitespace: "is_ascii_digit c \<Longrightarrow> \<not> is_ascii_whitespace c"
  by (auto simp: ascii_defs)

section \<open>Decimal numbers\<close>

definition digit_val :: "char \<Rightarrow> nat" where
  "digit_val c = of_char c - 48"

definition digit_char :: "nat \<Rightarrow> char" where
  "digit_char d = char_of (d + 48)"

definition decimal_value :: "string \<Rightarrow> nat" where
  "decimal_value = foldl (\<lambda>acc c. 10 * acc + digit_val c) 0"

text \<open>\<open>str::parse::<i64>\<close> and \<open>str::parse::<usize>\<close>: one optional sign, at
  least one digit, and the value in range; \<open>None\<close> is the parse error, whose kind no caller
  reads. \<open>i64_display\<close> and \<open>usize_display\<close> are the \<open>Display\<close> texts.\<close>

definition digits_value :: "string \<Rightarrow> nat option" where
  "digits_value ds = (if ds \<noteq> [] \<and> list_all is_ascii_digit ds then Some (decimal_value ds) else None)"

definition i64_from_str :: "string \<Rightarrow> i64 option" where
  "i64_from_str s =
     (case s of
        [] \<Rightarrow> None
      | c # ds \<Rightarrow>
          if c = CHR ''-'' then Option.bind (digits_value ds) (\<lambda>n. i64_of_int (- int n))
          else if c = CHR ''+'' then Option.bind (digits_value ds) (\<lambda>n. i64_of_int (int n))
          else Option.bind (digits_value s) (\<lambda>n. i64_of_int (int n)))"

definition usize_from_str :: "string \<Rightarrow> usize option" where
  "usize_from_str s =
     (case s of
        [] \<Rightarrow> None
      | c # ds \<Rightarrow>
          Option.bind (if c = CHR ''+'' then digits_value ds else digits_value s)
            (\<lambda>n. if n \<le> usize_max then Some n else None))"

fun usize_display :: "usize \<Rightarrow> string" where
  "usize_display n =
     (if n < 10 then [digit_char n] else usize_display (n div 10) @ [digit_char (n mod 10)])"

declare usize_display.simps [simp del]

definition i64_display :: "i64 \<Rightarrow> string" where
  "i64_display v = (if sint v < 0 then CHR ''-'' # usize_display (nat (- sint v)) else usize_display (nat (sint v)))"

lemma digit_char_props:
  assumes "d < 10"
  shows "is_ascii_digit (digit_char d)" and "digit_val (digit_char d) = d"
  using assms by (simp_all add: is_ascii_digit_def digit_char_def digit_val_def of_char_of)

lemma usize_display_digits: "list_all is_ascii_digit (usize_display n)"
proof (induction n rule: usize_display.induct)
  case (1 n)
  then show ?case
    by (subst usize_display.simps) (simp add: digit_char_props)
qed

lemma usize_display_nonempty [simp]: "usize_display n \<noteq> []"
  by (subst usize_display.simps) simp

lemma decimal_value_display [simp]: "decimal_value (usize_display n) = n"
proof (induction n rule: usize_display.induct)
  case (1 n)
  show ?case
  proof (cases "n < 10")
    case True
    then show ?thesis
      by (subst usize_display.simps) (simp add: decimal_value_def digit_char_props)
  next
    case False
    have "decimal_value (usize_display (n div 10) @ [digit_char (n mod 10)]) =
        10 * decimal_value (usize_display (n div 10)) + n mod 10"
      by (simp add: decimal_value_def digit_char_props)
    also have "\<dots> = n" using False 1 by simp
    finally show ?thesis using False by (subst usize_display.simps) simp
  qed
qed

lemma digits_value_display [simp]: "digits_value (usize_display n) = Some n"
  by (simp add: digits_value_def usize_display_digits)

lemma usize_display_Cons:
  obtains c cs where "usize_display n = c # cs" and "is_ascii_digit c"
  using usize_display_digits [of n] by (cases "usize_display n") auto

lemma usize_from_str_display: "n \<le> usize_max \<Longrightarrow> usize_from_str (usize_display n) = Some n"
proof -
  assume n: "n \<le> usize_max"
  obtain c cs where c: "usize_display n = c # cs" "is_ascii_digit c"
    by (rule usize_display_Cons)
  then have "c \<noteq> CHR ''+''" by (auto simp: is_ascii_digit_def)
  with n c(1) digits_value_display [of n] show ?thesis
    by (simp add: usize_from_str_def)
qed

lemma i64_from_str_display [simp]: "i64_from_str (i64_display v) = Some v"
proof (cases "sint v < 0")
  case True
  then show ?thesis by (simp add: i64_from_str_def i64_display_def)
next
  case False
  obtain c cs where c: "usize_display (nat (sint v)) = c # cs" "is_ascii_digit c"
    by (rule usize_display_Cons)
  then have "c \<noteq> CHR ''+''" "c \<noteq> CHR ''-''" by (auto simp: is_ascii_digit_def)
  with False c(1) digits_value_display [of "nat (sint v)"] show ?thesis
    by (simp add: i64_from_str_def i64_display_def)
qed

text \<open>The printed form of an \<open>i64\<close>: an optional minus sign and digits.\<close>

lemma i64_display_shape:
  obtains "sint v < 0" "i64_display v = CHR ''-'' # usize_display (nat (- sint v))"
  | "0 \<le> sint v" "i64_display v = usize_display (nat (sint v))"
  by (cases "sint v < 0") (simp_all add: i64_display_def)

lemma i64_display_nonempty [simp]: "i64_display v \<noteq> []"
  by (simp add: i64_display_def)

section \<open>Lists\<close>

text \<open>A scanning loop over bytes: the first index from \<open>pos\<close> on at which the test
  fails.\<close>

function scan_while :: "('a \<Rightarrow> bool) \<Rightarrow> 'a list \<Rightarrow> usize \<Rightarrow> usize" where
  "scan_while p bs pos =
     (if pos < length bs \<and> p (bs ! pos) then scan_while p bs (Suc pos) else pos)"
  by pat_completeness auto
termination
  by (relation "measure (\<lambda>(p, bs, pos). length bs - pos)") auto

declare scan_while.simps [simp del]

lemma scan_while_takeWhile:
  "scan_while p bs pos = pos + length (takeWhile p (drop pos bs))"
proof (induction p bs pos rule: scan_while.induct)
  case (1 p bs pos)
  show ?case
  proof (cases "pos < length bs \<and> p (bs ! pos)")
    case True
    then have "drop pos bs = bs ! pos # drop (Suc pos) bs"
      by (simp add: Cons_nth_drop_Suc)
    with True 1 show ?thesis by (simp add: scan_while.simps [of p bs pos])
  next
    case False
    then have "takeWhile p (drop pos bs) = []"
      by (cases "pos < length bs") (auto simp: takeWhile_eq_Nil_iff hd_drop_conv_nth)
    with False show ?thesis by (subst scan_while.simps) auto
  qed
qed

lemma scan_while_ge: "pos \<le> scan_while p bs pos"
  by (simp add: scan_while_takeWhile)

lemma scan_while_le: "pos \<le> length bs \<Longrightarrow> scan_while p bs pos \<le> length bs"
  using length_takeWhile_le [of p "drop pos bs"] by (simp add: scan_while_takeWhile)

lemma takeWhile_append_stop:
  "list_all p xs \<Longrightarrow> ys = [] \<or> \<not> p (hd ys) \<Longrightarrow> takeWhile p (xs @ ys) = xs"
  by (induction xs) (auto simp: takeWhile_eq_Nil_iff)

text \<open>\<open>slice.get(i)\<close>: out of range is \<open>None\<close>.\<close>

definition slice_get :: "'a list \<Rightarrow> usize \<Rightarrow> 'a option" where
  "slice_get xs i = (if i < length xs then Some (xs ! i) else None)"

lemma slice_get_Some_iff [result_simps]:
  "slice_get xs i = Some x \<longleftrightarrow> i < length xs \<and> xs ! i = x"
  by (auto simp: slice_get_def)

lemma slice_get_None_iff [result_simps]: "slice_get xs i = None \<longleftrightarrow> length xs \<le> i"
  by (auto simp: slice_get_def)

lemma slice_get_drop: "slice_get xs i = (case drop i xs of [] \<Rightarrow> None | x # _ \<Rightarrow> Some x)"
proof (cases "i < length xs")
  case True
  then have "drop i xs = xs ! i # drop (Suc i) xs" by (simp add: Cons_nth_drop_Suc)
  with True show ?thesis by (simp add: slice_get_def)
qed (simp add: slice_get_def)

lemma xor_cancel: "a XOR c = b XOR c \<longleftrightarrow> a = (b :: 'a::len word)"
  by (metis xor.assoc xor.right_neutral xor_self_eq)

section \<open>Readers\<close>

text \<open>A reader is the sequence of the answers it gives to successive reads: a chunk of bytes (an
  empty chunk is the end of the input) or an I/O error. \<open>take_read_to_end\<close> is
  \<open>reader.take(limit).read_to_end\<close>: once the limit is used up the reader is not asked again.\<close>

datatype ('b, 'io) read_event = ReadChunk "'b list" | ReadFail 'io

fun take_read_to_end :: "nat \<Rightarrow> ('b, 'io) read_event list \<Rightarrow> 'io + 'b list" where
  "take_read_to_end n [] = Inr []"
| "take_read_to_end n (ev # evs) =
     (if n = 0 then Inr []
      else case ev of
        ReadFail e \<Rightarrow> Inl e
      | ReadChunk bs \<Rightarrow>
          if bs = [] then Inr []
          else if n \<le> length bs then Inr (take n bs)
          else res_bind (take_read_to_end (n - length bs) evs) (\<lambda>rest. Inr (bs @ rest)))"

fun reader_bytes :: "('b, 'io) read_event list \<Rightarrow> 'b list option" where
  "reader_bytes [] = Some []"
| "reader_bytes (ReadFail e # evs) = None"
| "reader_bytes (ReadChunk bs # evs) =
     (if bs = [] then Some [] else map_option (append bs) (reader_bytes evs))"

lemma take_read_to_end_bytes:
  "reader_bytes evs = Some s \<Longrightarrow> take_read_to_end n evs = Inr (take n s)"
proof (induction n evs arbitrary: s rule: take_read_to_end.induct)
  case (2 n ev evs)
  then show ?case by (cases ev) (auto split: if_splits)
qed simp

end
