(* ===== verification/Scan.thy ===== *)
theory Scan
  imports Prelude
begin

text \<open>
  The bounded predicate scans of \<^verbatim>\<open>src/scan.rs\<close>: comparison and nullness
  predicates, the scanning loop with its early exit, and the agreement of the loop with the list of
  matching row indices.
\<close>

section \<open>Predicates and limits\<close>

datatype comparison_operator = Eq | Ne | Lt | Le | Gt | Ge

fun comparison_matches :: "comparison_operator \<Rightarrow> i64 \<Rightarrow> i64 \<Rightarrow> bool" where
  "comparison_matches Eq l r \<longleftrightarrow> l = r"
| "comparison_matches Ne l r \<longleftrightarrow> l \<noteq> r"
| "comparison_matches Lt l r \<longleftrightarrow> sint l < sint r"
| "comparison_matches Le l r \<longleftrightarrow> sint l \<le> sint r"
| "comparison_matches Gt l r \<longleftrightarrow> sint l > sint r"
| "comparison_matches Ge l r \<longleftrightarrow> sint l \<ge> sint r"

datatype null_predicate = IsNull | IsNotNull

fun null_matches :: "null_predicate \<Rightarrow> nullable_i64 \<Rightarrow> bool" where
  "null_matches IsNull v \<longleftrightarrow> v = None"
| "null_matches IsNotNull v \<longleftrightarrow> v \<noteq> None"

record scan_limits =
  scan_max_input_rows :: usize
  scan_max_result_rows :: usize

definition scan_limits_new :: "usize \<Rightarrow> usize \<Rightarrow> scan_limits" where
  "scan_limits_new i r = \<lparr>scan_max_input_rows = i, scan_max_result_rows = r\<rparr>"

datatype scan_error =
  ScanInputLimitExceeded usize usize
| ScanResultLimitExceeded usize usize

section \<open>The scanning loop\<close>

text \<open>One iteration per row: \<open>i\<close> is the row index, \<open>acc\<close> the vector
  \<open>matching_rows\<close>.\<close>

fun scan_loop ::
  "usize \<Rightarrow> (nullable_i64 \<Rightarrow> bool) \<Rightarrow> usize \<Rightarrow> nullable_i64 list \<Rightarrow> usize list \<Rightarrow> scan_error + usize list"
where
  "scan_loop max_rows m i [] acc = Inr acc"
| "scan_loop max_rows m i (v # vs) acc =
     (if m v then
        if length acc = max_rows
        then Inl (ScanResultLimitExceeded (saturating_add (length acc) 1) max_rows)
        else scan_loop max_rows m (Suc i) vs (acc @ [i])
      else scan_loop max_rows m (Suc i) vs acc)"

definition scan_matching_rows ::
  "nullable_i64 list \<Rightarrow> scan_limits \<Rightarrow> (nullable_i64 \<Rightarrow> bool) \<Rightarrow> scan_error + usize list" where
  "scan_matching_rows values limits m =
     (if length values > scan_max_input_rows limits
      then Inl (ScanInputLimitExceeded (length values) (scan_max_input_rows limits))
      else scan_loop (scan_max_result_rows limits) m 0 values [])"

definition scan_nullable_i64 ::
  "nullable_i64 list \<Rightarrow> comparison_operator \<Rightarrow> i64 \<Rightarrow> scan_limits \<Rightarrow> scan_error + usize list" where
  "scan_nullable_i64 values op k limits =
     scan_matching_rows values limits
       (\<lambda>value. case value of None \<Rightarrow> False | Some v \<Rightarrow> comparison_matches op v k)"

definition scan_nullable_i64_nullness ::
  "nullable_i64 list \<Rightarrow> null_predicate \<Rightarrow> scan_limits \<Rightarrow> scan_error + usize list" where
  "scan_nullable_i64_nullness values p limits = scan_matching_rows values limits (null_matches p)"

section \<open>Specification: the matching rows in source order\<close>

definition rows_where :: "('a \<Rightarrow> bool) \<Rightarrow> 'a list \<Rightarrow> usize list" where
  "rows_where m vs = filter (\<lambda>i. m (vs ! i)) [0..<length vs]"

lemma enumerate_0_map: "enumerate 0 vs = map (\<lambda>i. (i, vs ! i)) [0..<length vs]"
  by (rule nth_equalityI) (simp_all add: nth_enumerate_eq)

lemma rows_where_enumerate: "rows_where m vs = map fst (filter (m \<circ> snd) (enumerate 0 vs))"
  by (simp add: rows_where_def enumerate_0_map filter_map comp_def)

lemma values_at_rows_where: "map (\<lambda>i. vs ! i) (rows_where m vs) = filter m vs"
proof -
  have "map (\<lambda>i. vs ! i) (rows_where m vs) = filter m (map (\<lambda>i. vs ! i) [0..<length vs])"
    by (simp add: rows_where_def filter_map comp_def)
  then show ?thesis by (simp add: map_nth)
qed

lemma length_rows_where: "length (rows_where m vs) = length (filter m vs)"
  using values_at_rows_where [of vs m] by (metis length_map)

lemma set_rows_where: "set (rows_where m vs) = {i. i < length vs \<and> m (vs ! i)}"
  by (auto simp: rows_where_def)

lemma sorted_rows_where: "sorted_wrt (<) (rows_where m vs)"
  by (simp add: rows_where_def sorted_wrt_filter)

section \<open>The loop computes it\<close>

lemma scan_loop_eq:
  assumes "length acc \<le> max_rows"
  shows "scan_loop max_rows m i vs acc =
     (let r = acc @ map fst (filter (m \<circ> snd) (enumerate i vs))
      in if length r \<le> max_rows then Inr r
         else Inl (ScanResultLimitExceeded (saturating_add max_rows 1) max_rows))"
  using assms
proof (induction vs arbitrary: i acc)
  case Nil
  then show ?case by (simp add: Let_def)
next
  case (Cons v vs)
  show ?case
  proof (cases "m v \<and> length acc \<noteq> max_rows")
    case True
    then have "length (acc @ [i]) \<le> max_rows" using Cons.prems by simp
    from Cons.IH [OF this, of "Suc i"] True show ?thesis by (simp add: Let_def)
  next
    case False
    with Cons show ?thesis by (auto simp: Let_def)
  qed
qed

lemma scan_matching_rows_eq:
  "scan_matching_rows vs limits m =
     (if length vs > scan_max_input_rows limits
      then Inl (ScanInputLimitExceeded (length vs) (scan_max_input_rows limits))
      else if length (filter m vs) > scan_max_result_rows limits
      then Inl (ScanResultLimitExceeded (saturating_add (scan_max_result_rows limits) 1)
                 (scan_max_result_rows limits))
      else Inr (rows_where m vs))"
  by (auto simp: scan_matching_rows_def scan_loop_eq Let_def rows_where_enumerate [symmetric]
      length_rows_where)

lemma scan_matching_rows_Inr_iff:
  "scan_matching_rows vs limits m = Inr rows \<longleftrightarrow>
     length vs \<le> scan_max_input_rows limits \<and>
     length (filter m vs) \<le> scan_max_result_rows limits \<and> rows = rows_where m vs"
  by (auto simp: scan_matching_rows_eq)

text \<open>The SQL comparison: \<open>NULL\<close> matches nothing.\<close>

definition sql_compare :: "comparison_operator \<Rightarrow> i64 \<Rightarrow> nullable_i64 \<Rightarrow> bool" where
  "sql_compare op k v = (case v of None \<Rightarrow> False | Some x \<Rightarrow> comparison_matches op x k)"

lemma scan_nullable_i64_alt:
  "scan_nullable_i64 vs op k limits = scan_matching_rows vs limits (sql_compare op k)"
  by (simp add: scan_nullable_i64_def sql_compare_def [abs_def])

text \<open>A comparison scan returns, in ascending order, exactly the indices of the non-null rows
  that satisfy the comparison as signed integers; it fails exactly when the input or the number of
  matches exceeds its bound, the input bound being checked first, and never returns a partial
  result.\<close>

theorem scan_nullable_i64_correct:
  "scan_nullable_i64 vs op k limits =
     (if length vs > scan_max_input_rows limits
      then Inl (ScanInputLimitExceeded (length vs) (scan_max_input_rows limits))
      else if length (rows_where (sql_compare op k) vs) > scan_max_result_rows limits
      then Inl (ScanResultLimitExceeded (saturating_add (scan_max_result_rows limits) 1)
                 (scan_max_result_rows limits))
      else Inr (rows_where (sql_compare op k) vs))"
  by (simp add: scan_nullable_i64_alt scan_matching_rows_eq length_rows_where)

end
