(* ===== verification/Top_K.thy ===== *)
theory Top_K
  imports Prelude "HOL-Library.Multiset"
begin

text \<open>
  The bounded \<open>ORDER BY ... LIMIT\<close> of \<^verbatim>\<open>src/order.rs\<close>: the sort key that
  packs null placement, value and source index into unsigned ranks, the selection loop over a
  max-heap, and its agreement with the first rows of the stable SQL order. The heap of the standard
  library is described by the locale \<open>max_heap\<close>.
\<close>

section \<open>Keys\<close>

datatype order_direction = Asc | Desc

datatype null_order = NullsFirst | NullsLast

record order_limits =
  order_max_input_rows :: usize
  order_max_limit :: usize

definition order_limits_new :: "usize \<Rightarrow> usize \<Rightarrow> order_limits" where
  "order_limits_new i l = \<lparr>order_max_input_rows = i, order_max_limit = l\<rparr>"

datatype order_error =
  OrderInputLimitExceeded usize usize
| OrderLimitExceeded usize usize

text \<open>\<open>derive(PartialOrd, Ord)\<close> compares the fields in order.\<close>

datatype order_key = OrderKey (null_rank: u8) (value_rank: u64) (source_index: usize)

instantiation order_key :: linorder
begin

definition less_order_key :: "order_key \<Rightarrow> order_key \<Rightarrow> bool" where
  "less_order_key a b \<longleftrightarrow>
     null_rank a < null_rank b \<or> null_rank a = null_rank b \<and>
       (value_rank a < value_rank b \<or> value_rank a = value_rank b \<and> source_index a < source_index b)"

definition less_eq_order_key :: "order_key \<Rightarrow> order_key \<Rightarrow> bool" where
  "less_eq_order_key a b \<longleftrightarrow> a = b \<or> a < b"

instance
  by standard
    (auto simp: less_order_key_def less_eq_order_key_def intro: order_key.expand dest: less_trans)

end

definition sign_bit :: u64 where
  "sign_bit = push_bit 63 1"

definition order_key_new :: "nullable_i64 \<Rightarrow> usize \<Rightarrow> order_direction \<Rightarrow> null_order \<Rightarrow> order_key" where
  "order_key_new v i direction nulls =
     OrderKey
       (case (v, nulls) of
          (None, NullsFirst) \<Rightarrow> 0 | (Some _, NullsLast) \<Rightarrow> 0
        | (Some _, NullsFirst) \<Rightarrow> 1 | (None, NullsLast) \<Rightarrow> 1)
       (case v of
          None \<Rightarrow> 0
        | Some w \<Rightarrow>
            let ascending_rank = w XOR sign_bit in
            (case direction of Asc \<Rightarrow> ascending_rank | Desc \<Rightarrow> NOT ascending_rank))
       i"

section \<open>The heap\<close>

text \<open>\<open>BinaryHeap\<close> as the bag of its elements: \<open>push\<close>, \<open>peek\<close>, the
  assignment through \<open>peek_mut\<close>, and \<open>into_sorted_vec\<close>.\<close>

type_synonym heap = "order_key list"

definition heap_push :: "order_key \<Rightarrow> heap \<Rightarrow> heap" where
  "heap_push k h = k # h"

definition heap_peek :: "heap \<Rightarrow> order_key option" where
  "heap_peek h = (case h of [] \<Rightarrow> None | k # ks \<Rightarrow> Some (foldl max k ks))"

definition heap_replace_max :: "order_key \<Rightarrow> heap \<Rightarrow> heap" where
  "heap_replace_max k h = (case heap_peek h of None \<Rightarrow> h | Some w \<Rightarrow> k # remove1 w h)"

definition heap_into_sorted_vec :: "heap \<Rightarrow> order_key list" where
  "heap_into_sorted_vec h = sort h"

section \<open>The operation\<close>

definition heap_offer :: "usize \<Rightarrow> order_key \<Rightarrow> heap \<Rightarrow> heap" where
  "heap_offer retained candidate h =
     (if length h < retained then heap_push candidate h
      else case heap_peek h of
        None \<Rightarrow> h
      | Some worst \<Rightarrow> if candidate < worst then heap_replace_max candidate h else h)"

fun order_loop ::
  "usize \<Rightarrow> order_direction \<Rightarrow> null_order \<Rightarrow> usize \<Rightarrow> nullable_i64 list \<Rightarrow> heap \<Rightarrow> heap" where
  "order_loop retained d n i [] h = h"
| "order_loop retained d n i (v # vs) h =
     order_loop retained d n (Suc i) vs (heap_offer retained (order_key_new v i d n) h)"

definition order_nullable_i64 ::
  "nullable_i64 list \<Rightarrow> order_direction \<Rightarrow> null_order \<Rightarrow> usize \<Rightarrow> order_limits \<Rightarrow> order_error + usize list"
where
  "order_nullable_i64 values d n limit limits =
     (if length values > order_max_input_rows limits
      then Inl (OrderInputLimitExceeded (length values) (order_max_input_rows limits))
      else if limit > order_max_limit limits
      then Inl (OrderLimitExceeded limit (order_max_limit limits))
      else if limit = 0 \<or> values = [] then Inr []
      else Inr (map source_index
        (heap_into_sorted_vec (order_loop (min limit (length values)) d n 0 values []))))"

section \<open>What a bounded max-heap computes\<close>

lemma sorted_eq_by_mset: "sorted xs \<Longrightarrow> sorted ys \<Longrightarrow> mset xs = mset ys \<Longrightarrow> xs = ys"
  for xs :: "'a::linorder list"
  by (metis properties_for_sort)

definition k_smallest :: "nat \<Rightarrow> 'a::linorder multiset \<Rightarrow> 'a list" where
  "k_smallest k M = take k (sorted_list_of_multiset M)"

lemma sorted_k_smallest [simp]: "sorted (k_smallest k M)"
  by (simp add: k_smallest_def sorted_wrt_take)

lemma length_k_smallest: "length (k_smallest k M) = min k (size M)"
  by (metis k_smallest_def length_take min.commute mset_sorted_list_of_multiset size_mset)

lemma k_smallest_mset: "k_smallest k (mset xs) = take k (sort xs)"
  by (simp add: k_smallest_def)

lemma k_smallest_add_small:
  assumes "size M < k"
  shows "k_smallest k (add_mset x M) = insort x (k_smallest k M)"
proof -
  have len: "length (sorted_list_of_multiset M) = size M"
    by (metis mset_sorted_list_of_multiset size_mset)
  show ?thesis using assms by (simp add: k_smallest_def len)
qed

lemma k_smallest_add_worse:
  assumes "k \<le> size M" and "\<And>y. y \<in> set (k_smallest k M) \<Longrightarrow> y \<le> x"
  shows "k_smallest k (add_mset x M) = k_smallest k M"
proof -
  let ?xs = "sorted_list_of_multiset M"
  let ?ys = "take k ?xs" and ?zs = "drop k ?xs"
  have len: "length ?xs = size M" by (metis mset_sorted_list_of_multiset size_mset)
  have "sorted (?ys @ ?zs)" by simp
  then have "sorted ?ys" "sorted ?zs" "\<forall>y\<in>set ?ys. \<forall>z\<in>set ?zs. y \<le> z"
    unfolding sorted_append by blast+
  then have "sorted (?ys @ insort x ?zs)"
    using assms(2) by (auto simp: sorted_append sorted_insort set_insort_key k_smallest_def)
  moreover have "mset (?ys @ insort x ?zs) = mset (insort x ?xs)"
    by (metis append_take_drop_id mset_append mset_insort union_mset_add_mset_right)
  ultimately have "insort x ?xs = ?ys @ insort x ?zs"
    by (intro sorted_eq_by_mset) (simp_all add: sorted_insort)
  then show ?thesis using assms(1) len by (simp add: k_smallest_def)
qed

lemma k_smallest_add_better:
  assumes "k_smallest k M = ys @ [w]" and "x < w" and "k \<le> size M"
  shows "k_smallest k (add_mset x M) = insort x ys"
proof -
  let ?xs = "sorted_list_of_multiset M"
  let ?zs = "drop k ?xs"
  have len: "length ?xs = size M" by (metis mset_sorted_list_of_multiset size_mset)
  have xs: "?xs = ys @ w # ?zs"
    using assms(1) append_take_drop_id [of k ?xs] by (simp add: k_smallest_def)
  have k: "k = Suc (length ys)"
    using arg_cong [OF assms(1), of length] assms(3) by (simp add: length_k_smallest)
  have "sorted (ys @ w # ?zs)" by (subst xs [symmetric]) simp
  then have "sorted ys" "sorted (w # ?zs)" "\<forall>y\<in>set ys. \<forall>z\<in>set (w # ?zs). y \<le> z"
    unfolding sorted_append by blast+
  then have "sorted (insort x ys @ w # ?zs)"
    using assms(2) by (auto simp: sorted_append sorted_insort set_insort_key)
  moreover have "mset (insort x ys @ w # ?zs) = mset (insort x ?xs)"
    by (subst xs) simp
  ultimately have "insort x ?xs = insort x ys @ w # ?zs"
    by (intro sorted_eq_by_mset) (simp_all add: sorted_insort)
  then show ?thesis by (simp add: k_smallest_def k)
qed

locale max_heap =
  fixes push :: "'a::linorder \<Rightarrow> 'h \<Rightarrow> 'h"
    and len :: "'h \<Rightarrow> nat"
    and peek :: "'h \<Rightarrow> 'a option"
    and replace_max :: "'a \<Rightarrow> 'h \<Rightarrow> 'h"
    and into_sorted :: "'h \<Rightarrow> 'a list"
    and elems :: "'h \<Rightarrow> 'a multiset"
  assumes len_elems: "len h = size (elems h)"
    and push_elems: "elems (push x h) = add_mset x (elems h)"
    and peek_empty: "elems h = {#} \<Longrightarrow> peek h = None"
    and peek_max: "elems h \<noteq> {#} \<Longrightarrow> \<exists>w. peek h = Some w \<and> w \<in># elems h \<and> (\<forall>y\<in>#elems h. y \<le> w)"
    and replace_elems: "peek h = Some w \<Longrightarrow> elems (replace_max x h) = add_mset x (elems h - {#w#})"
    and into_sorted_eq: "into_sorted h = sorted_list_of_multiset (elems h)"
begin

definition offer :: "nat \<Rightarrow> 'a \<Rightarrow> 'h \<Rightarrow> 'h" where
  "offer k x h =
     (if len h < k then push x h
      else case peek h of None \<Rightarrow> h | Some w \<Rightarrow> if x < w then replace_max x h else h)"

lemma offer_keeps_k_smallest:
  assumes "elems h = mset (k_smallest k M)" and "0 < k"
  shows "elems (offer k x h) = mset (k_smallest k (add_mset x M))"
proof (cases "size M < k")
  case True
  then show ?thesis
    using assms
    by (simp add: offer_def len_elems length_k_smallest push_elems k_smallest_add_small)
next
  case False
  then have full: "\<not> len h < k" using assms by (simp add: len_elems length_k_smallest)
  have ne: "k_smallest k M \<noteq> []"
    using False assms(2) length_k_smallest [of k M] by fastforce
  with assms(1) have "elems h \<noteq> {#}" by simp
  then obtain w where w: "peek h = Some w" "w \<in># elems h" "\<forall>y\<in>#elems h. y \<le> w"
    using peek_max by blast
  let ?ys = "butlast (k_smallest k M)"
  have split: "k_smallest k M = ?ys @ [last (k_smallest k M)]" using ne by simp
  have "\<forall>y\<in>set (k_smallest k M). y \<le> last (k_smallest k M)"
    using sorted_k_smallest [of k M] split by (metis UnE empty_iff empty_set last_in_set
      list.set(2) ne order_refl set_append singletonD sorted_append snoc_eq_iff_butlast list.set_intros(1))
  then have last: "last (k_smallest k M) = w"
    using w(2,3) assms(1) ne by (simp add: antisym)
  show ?thesis
  proof (cases "x < w")
    case True
    then have "k_smallest k (add_mset x M) = insort x ?ys"
      using False split last by (intro k_smallest_add_better) auto
    moreover have "mset (k_smallest k M) = add_mset w (mset ?ys)"
      using split last by (metis add.commute add_mset_add_single mset.simps(1) mset.simps(2) mset_append)
    ultimately show ?thesis
      using True full w(1) assms(1) by (simp add: offer_def replace_elems)
  next
    case notless: False
    have "y \<le> x" if "y \<in> set (k_smallest k M)" for y
      using that w(3) assms(1) notless by (auto intro: order_trans)
    then have "k_smallest k (add_mset x M) = k_smallest k M"
      using False by (intro k_smallest_add_worse) auto
    then show ?thesis using notless full w(1) assms(1) by (simp add: offer_def)
  qed
qed

end

lemma foldl_max_mem: "foldl max k ks \<in> set (k # ks)" for k :: "'a::linorder"
proof (induction ks arbitrary: k)
  case (Cons x xs)
  have "max k x = k \<or> max k x = x" by (simp add: max_def)
  with Cons [of "max k x"] show ?case by auto
qed simp

lemma foldl_max_ge: "y \<in> set (k # ks) \<Longrightarrow> y \<le> foldl max k ks" for k :: "'a::linorder"
proof (induction ks arbitrary: k y)
  case (Cons x xs)
  have "max k x \<le> foldl max (max k x) xs" by (rule Cons.IH) simp
  with Cons show ?case by (auto intro: order_trans)
qed simp

interpretation binary_heap: max_heap heap_push length heap_peek heap_replace_max heap_into_sorted_vec mset
proof (unfold_locales, goal_cases)
  case (4 h)
  then obtain k ks where h: "h = k # ks" by (cases h) auto
  then show ?case using foldl_max_mem [of k ks] foldl_max_ge [of _ k ks] by (auto simp: heap_peek_def)
qed (auto simp: heap_push_def heap_peek_def heap_replace_max_def heap_into_sorted_vec_def
    split: list.splits)

lemma heap_offer_eq: "heap_offer = binary_heap.offer"
  by (simp add: fun_eq_iff heap_offer_def binary_heap.offer_def)

section \<open>The order the keys encode\<close>

text \<open>Rows are ordered by null placement, then by signed value in the requested direction, then
  by source row.\<close>

definition row_before :: "order_direction \<Rightarrow> null_order \<Rightarrow> nullable_i64 list \<Rightarrow> usize \<Rightarrow> usize \<Rightarrow> bool" where
  "row_before d n vs i j \<longleftrightarrow>
     (case (vs ! i, vs ! j) of
        (None, None) \<Rightarrow> i < j
      | (None, Some _) \<Rightarrow> n = NullsFirst
      | (Some _, None) \<Rightarrow> n = NullsLast
      | (Some v, Some w) \<Rightarrow>
          v \<noteq> w \<and> (case d of Asc \<Rightarrow> sint v < sint w | Desc \<Rightarrow> sint w < sint v) \<or> v = w \<and> i < j)"

lemma sign_bit_eq: "sign_bit = 9223372036854775808"
  by (simp add: sign_bit_def)

lemma ascending_rank_less: "v XOR sign_bit < w XOR sign_bit \<longleftrightarrow> sint v < sint w"
  by (simp only: word_less_def sign_bit_eq uint_flip_sign) simp

lemma not_less_reverse: "NOT a < NOT (b :: u64) \<longleftrightarrow> b < a"
  by (simp only: word_less_def uint_not) simp

lemma order_key_less_iff:
  "order_key_new (vs ! i) i d n < order_key_new (vs ! j) j d n \<longleftrightarrow> row_before d n vs i j"
  by (cases d; cases n; cases "vs ! i"; cases "vs ! j")
    (auto simp: less_order_key_def order_key_new_def row_before_def ascending_rank_less
      not_less_reverse xor_cancel Let_def)

section \<open>Correctness\<close>

abbreviation keys_of :: "nullable_i64 list \<Rightarrow> order_direction \<Rightarrow> null_order \<Rightarrow> usize list \<Rightarrow> order_key list" where
  "keys_of vs d n \<equiv> map (\<lambda>i. order_key_new (vs ! i) i d n)"

lemma source_index_new [simp]: "source_index (order_key_new v i d n) = i"
  by (simp add: order_key_new_def)

lemma order_loop_k_smallest:
  assumes "0 < k" and "mset h = mset (k_smallest k M)"
  shows "mset (order_loop k d n i vs h) =
     mset (k_smallest k (M + mset (map (\<lambda>(j, v). order_key_new v j d n) (enumerate i vs))))"
  using assms(2)
proof (induction vs arbitrary: i h M)
  case (Cons v vs)
  then have "mset (heap_offer k (order_key_new v i d n) h) =
      mset (k_smallest k (add_mset (order_key_new v i d n) M))"
    using assms(1) by (simp add: heap_offer_eq binary_heap.offer_keeps_k_smallest)
  from Cons.IH [OF this] show ?case by simp
qed simp

lemma enumerate_keys:
  "map (\<lambda>(j, v). order_key_new v j d n) (enumerate 0 vs) = keys_of vs d n [0..<length vs]"
  by (rule nth_equalityI) (simp_all add: nth_enumerate_eq)

definition top_rows :: "usize \<Rightarrow> order_direction \<Rightarrow> null_order \<Rightarrow> nullable_i64 list \<Rightarrow> usize list" where
  "top_rows k d n vs = map source_index (take k (sort (keys_of vs d n [0..<length vs])))"

lemma order_nullable_i64_top_rows:
  "order_nullable_i64 vs d n limit limits =
     (if length vs > order_max_input_rows limits
      then Inl (OrderInputLimitExceeded (length vs) (order_max_input_rows limits))
      else if limit > order_max_limit limits
      then Inl (OrderLimitExceeded limit (order_max_limit limits))
      else Inr (top_rows limit d n vs))"
proof (cases "limit = 0 \<or> vs = []")
  case True
  then show ?thesis by (auto simp: order_nullable_i64_def top_rows_def)
next
  case False
  let ?k = "min limit (length vs)" and ?keys = "keys_of vs d n [0..<length vs]"
  have k: "0 < ?k" using False by (cases vs) auto
  have "mset (order_loop ?k d n 0 vs []) = mset (k_smallest ?k (mset ?keys))"
    using order_loop_k_smallest [OF k, of "[]" "{#}" d n 0 vs]
    by (simp add: k_smallest_def enumerate_keys)
  then have "heap_into_sorted_vec (order_loop ?k d n 0 vs []) = k_smallest ?k (mset ?keys)"
    by (intro sorted_eq_by_mset) (simp_all add: heap_into_sorted_vec_def)
  also have "\<dots> = take limit (sort ?keys)"
    unfolding k_smallest_mset by (simp add: min_def)
  finally show ?thesis using False
    by (auto simp: order_nullable_i64_def top_rows_def)
qed

lemma sort_keys_eq:
  "sort (keys_of vs d n [0..<length vs]) = keys_of vs d n (map source_index (sort (keys_of vs d n [0..<length vs])))"
proof -
  have "map (\<lambda>k. order_key_new (vs ! source_index k) (source_index k) d n)
      (sort (keys_of vs d n [0..<length vs])) = sort (keys_of vs d n [0..<length vs])"
    by (rule map_idI) auto
  then show ?thesis by (simp add: comp_def)
qed

lemma all_rows_sorted:
  fixes vs d n
  defines "rows \<equiv> map source_index (sort (keys_of vs d n [0..<length vs]))"
  shows "distinct rows" and "set rows = {..<length vs}" and "sorted_wrt (row_before d n vs) rows"
proof -
  have "mset rows = mset [0..<length vs]"
    unfolding rows_def by (simp add: multiset.map_comp comp_def)
  note same = this
  from mset_eq_setD [OF same] show "set rows = {..<length vs}" by (simp add: lessThan_atLeast0)
  from mset_eq_imp_distinct_iff [OF same] show dist: "distinct rows" by simp
  have "sorted (keys_of vs d n rows)" unfolding rows_def by (subst sort_keys_eq [symmetric]) simp
  moreover have "distinct (keys_of vs d n rows)"
    using dist by (auto simp: distinct_map inj_on_def dest: arg_cong [where f = source_index])
  ultimately have "sorted_wrt (<) (keys_of vs d n rows)" by (simp add: strict_sorted_iff)
  then show "sorted_wrt (row_before d n vs) rows"
    by (simp add: sorted_wrt_map order_key_less_iff)
qed

text \<open>C19: Within its limits, \<open>ORDER BY ... LIMIT\<close> returns the first rows of the stable SQL
  order: at most \<open>limit\<close> distinct source rows, in order, each before every row that is left
  out; the limits are rejected before any row is read.\<close>

theorem order_nullable_i64_correct:
  "case order_nullable_i64 vs d n limit limits of
     Inl e \<Rightarrow>
       length vs > order_max_input_rows limits \<and>
         e = OrderInputLimitExceeded (length vs) (order_max_input_rows limits) \<or>
       length vs \<le> order_max_input_rows limits \<and> limit > order_max_limit limits \<and>
         e = OrderLimitExceeded limit (order_max_limit limits)
   | Inr rows \<Rightarrow>
       length vs \<le> order_max_input_rows limits \<and> limit \<le> order_max_limit limits \<and>
       length rows = min limit (length vs) \<and> distinct rows \<and> set rows \<subseteq> {..<length vs} \<and>
       sorted_wrt (row_before d n vs) rows \<and>
       (\<forall>i\<in>set rows. \<forall>j<length vs. j \<notin> set rows \<longrightarrow> row_before d n vs i j)"
proof -
  let ?all = "map source_index (sort (keys_of vs d n [0..<length vs]))"
  let ?rows = "top_rows limit d n vs"
  have rows: "?rows = take limit ?all" by (simp add: top_rows_def take_map)
  have split: "?all = ?rows @ drop limit ?all" by (simp add: rows)
  have "sorted_wrt (row_before d n vs) (?rows @ drop limit ?all)" "distinct (?rows @ drop limit ?all)"
    using all_rows_sorted [where vs = vs and d = d and n = n] by (simp_all only: split [symmetric])
  then have *: "sorted_wrt (row_before d n vs) ?rows" "distinct ?rows"
    "\<forall>i\<in>set ?rows. \<forall>j\<in>set (drop limit ?all). row_before d n vs i j"
    by (auto simp: sorted_wrt_append)
  have set: "set ?rows \<union> set (drop limit ?all) = {..<length vs}"
    using all_rows_sorted(2) [where vs = vs and d = d and n = n] split by (metis set_append)
  have left: "\<forall>i\<in>set ?rows. \<forall>j<length vs. j \<notin> set ?rows \<longrightarrow> row_before d n vs i j"
    using *(3) set by blast
  have len: "length ?rows = min limit (length vs)" by (simp add: rows min.commute)
  show ?thesis
    using * left set len by (auto simp: order_nullable_i64_top_rows)
qed

theorem order_nullable_i64_correct_witness:
  "\<exists>rows. order_nullable_i64 [Some 4, None, Some 9, Some 4] Desc NullsLast 3 (order_limits_new 4 3) = Inr rows
     \<and> length rows = 3 \<and> sorted_wrt (row_before Desc NullsLast [Some 4, None, Some 9, Some 4]) rows"
  using order_nullable_i64_correct
    [where vs = "[Some 4, None, Some 9, Some 4]" and d = Desc and n = NullsLast and limit = 3
      and limits = "order_limits_new 4 3"]
  by (auto simp: order_limits_new_def split: sum.splits)

end
