(* ===== verification/Storage.thy ===== *)
theory Storage
  imports Prelude
begin

text \<open>
  The one-column table of \<^verbatim>\<open>src/storage.rs\<close>: its schema, its append operations with
  the row cap and nullability checks, and the invariant they keep. A method taking
  \<open>&mut self\<close> returns its result together with the table after the call, on every path.
\<close>

section \<open>Schema and table\<close>

datatype data_type = Int64

record column_schema =
  col_name :: string
  col_data_type :: data_type
  col_nullable :: bool

record schema =
  schema_column :: column_schema

definition schema_int64 :: "string \<Rightarrow> bool \<Rightarrow> schema" where
  "schema_int64 name nullable =
     \<lparr>schema_column = \<lparr>col_name = name, col_data_type = Int64, col_nullable = nullable\<rparr>\<rparr>"

definition schema_columns :: "schema \<Rightarrow> column_schema list" where
  "schema_columns s = [schema_column s]"

datatype insert_error =
  NullNotAllowed string
| RowCapExceeded (row_cap_of: usize) (current_rows: usize) (incoming_rows: usize)

record int64_table =
  table_schema :: schema
  table_values :: "nullable_i64 list"
  table_row_cap :: usize

abbreviation column_of :: "int64_table \<Rightarrow> string" where
  "column_of t \<equiv> col_name (schema_column (table_schema t))"

abbreviation nullable_of :: "int64_table \<Rightarrow> bool" where
  "nullable_of t \<equiv> col_nullable (schema_column (table_schema t))"

definition table_new :: "schema \<Rightarrow> usize \<Rightarrow> int64_table" where
  "table_new s cap = \<lparr>table_schema = s, table_values = [], table_row_cap = cap\<rparr>"

definition table_row_count :: "int64_table \<Rightarrow> usize" where
  "table_row_count t = length (table_values t)"

definition table_is_empty :: "int64_table \<Rightarrow> bool" where
  "table_is_empty t \<longleftrightarrow> table_values t = []"

definition validate_append :: "int64_table \<Rightarrow> nullable_i64 list \<Rightarrow> insert_error + unit" where
  "validate_append t values =
     (if saturating_sub (table_row_cap t) (length (table_values t)) < length values
      then Inl (RowCapExceeded (table_row_cap t) (length (table_values t)) (length values))
      else if \<not> nullable_of t \<and> list_ex Option.is_none values
      then Inl (NullNotAllowed (column_of t))
      else Inr ())"

definition table_append ::
  "int64_table \<Rightarrow> nullable_i64 \<Rightarrow> (insert_error + unit) \<times> int64_table" where
  "table_append t v =
     (case validate_append t [v] of
        Inl e \<Rightarrow> (Inl e, t)
      | Inr _ \<Rightarrow> (Inr (), t\<lparr>table_values := table_values t @ [v]\<rparr>))"

definition table_append_batch ::
  "int64_table \<Rightarrow> nullable_i64 list \<Rightarrow> (insert_error + unit) \<times> int64_table" where
  "table_append_batch t values =
     (case validate_append t values of
        Inl e \<Rightarrow> (Inl e, t)
      | Inr _ \<Rightarrow> (Inr (), t\<lparr>table_values := table_values t @ values\<rparr>))"

section \<open>The table invariant\<close>

definition table_wf :: "int64_table \<Rightarrow> bool" where
  "table_wf t \<longleftrightarrow>
     length (table_values t) \<le> table_row_cap t \<and> (nullable_of t \<or> None \<notin> set (table_values t))"

text \<open>What a table accepts: the batch fits under the cap and respects nullability.\<close>

definition table_admits :: "int64_table \<Rightarrow> nullable_i64 list \<Rightarrow> bool" where
  "table_admits t vs \<longleftrightarrow>
     length (table_values t) + length vs \<le> table_row_cap t \<and> (nullable_of t \<or> None \<notin> set vs)"

lemma list_ex_is_none: "list_ex Option.is_none vs \<longleftrightarrow> None \<in> set vs"
  by (force simp: list_ex_iff Option.is_none_def)

lemma validate_append_ok_iff:
  "table_wf t \<Longrightarrow> validate_append t vs = Inr () \<longleftrightarrow> table_admits t vs"
  by (auto simp: validate_append_def table_admits_def table_wf_def list_ex_is_none)

lemma append_as_batch: "table_append t v = table_append_batch t [v]"
  by (simp add: table_append_def table_append_batch_def)

lemma append_batch_admitted:
  assumes "table_wf t" and "table_admits t vs"
  shows "table_append_batch t vs = (Inr (), t\<lparr>table_values := table_values t @ vs\<rparr>)"
  using assms validate_append_ok_iff [of t vs] by (simp add: table_append_batch_def)

lemma append_batch_rejected:
  assumes "table_wf t" and "\<not> table_admits t vs"
  obtains e where "table_append_batch t vs = (Inl e, t)"
  using assms validate_append_ok_iff [of t vs]
  by (cases "validate_append t vs") (auto simp: table_append_batch_def)

lemma table_new_wf [simp]: "table_wf (table_new s cap)"
  by (simp add: table_wf_def table_new_def)

lemma append_batch_wf: "table_wf t \<Longrightarrow> table_wf (snd (table_append_batch t vs))"
  by (auto simp: table_append_batch_def validate_append_def table_wf_def list_ex_is_none
      split: sum.split)

lemma append_batch_frame [simp]:
  "table_schema (snd (table_append_batch t vs)) = table_schema t"
  "table_row_cap (snd (table_append_batch t vs)) = table_row_cap t"
  by (auto simp: table_append_batch_def split: sum.split)

section \<open>The contract of a row sink\<close>

text \<open>
  What the batch clients of a table (CSV ingestion, snapshot restore) rely on: a batch is
  appended whole or not at all, and accepting a batch amounts to accepting its parts in order.
\<close>

locale row_sink =
  fixes append :: "'t \<Rightarrow> 'v list \<Rightarrow> ('e + unit) \<times> 't"
    and rows :: "'t \<Rightarrow> 'v list"
    and inv :: "'t \<Rightarrow> bool"
    and admits :: "'t \<Rightarrow> 'v list \<Rightarrow> bool"
  assumes append_accepts: "inv t \<Longrightarrow> admits t vs \<Longrightarrow> fst (append t vs) = Inr ()"
    and append_rows: "inv t \<Longrightarrow> admits t vs \<Longrightarrow> rows (snd (append t vs)) = rows t @ vs"
    and append_rejects: "inv t \<Longrightarrow> \<not> admits t vs \<Longrightarrow> \<exists>e. append t vs = (Inl e, t)"
    and append_inv: "inv t \<Longrightarrow> inv (snd (append t vs))"
    and append_parts: "inv t \<Longrightarrow> admits t (vs @ ws) \<longleftrightarrow> admits t vs \<and> admits (snd (append t vs)) ws"
    and append_append: "inv t \<Longrightarrow> admits t (vs @ ws) \<Longrightarrow>
          append (snd (append t vs)) ws = append t (vs @ ws)"
    and append_nothing: "inv t \<Longrightarrow> admits t [] \<and> append t [] = (Inr (), t)"
begin

text \<open>Rows appended one at a time, stopping at the first rejected row.\<close>

fun append_each :: "'t \<Rightarrow> 'v list \<Rightarrow> ('e + unit) \<times> 't" where
  "append_each t [] = (Inr (), t)"
| "append_each t (v # vs) =
     (case append t [v] of
        (Inl e, t') \<Rightarrow> (Inl e, t')
      | (Inr _, t') \<Rightarrow> append_each t' vs)"

lemma append_atomic: "inv t \<Longrightarrow> append t vs = (Inl e, t') \<Longrightarrow> t' = t"
  using append_accepts [of t vs] append_rejects [of t vs] by fastforce

lemma append_result_iff: "inv t \<Longrightarrow> fst (append t vs) = Inr () \<longleftrightarrow> admits t vs"
  using append_accepts [of t vs] append_rejects [of t vs] by fastforce

lemma append_each_admitted:
  "inv t \<Longrightarrow> admits t vs \<Longrightarrow> append_each t vs = append t vs"
proof (induction vs arbitrary: t)
  case Nil
  then show ?case by (simp add: append_nothing)
next
  case (Cons v vs)
  have parts: "admits t [v]" "admits (snd (append t [v])) vs"
    using append_parts [of t "[v]" vs] Cons.prems by simp_all
  obtain t' where t': "append t [v] = (Inr (), t')"
    using append_accepts [OF Cons.prems(1) parts(1)] by (cases "append t [v]") auto
  then have "append_each t (v # vs) = append_each (snd (append t [v])) vs" by simp
  also have "\<dots> = append (snd (append t [v])) vs"
    using Cons.prems append_inv parts by (intro Cons.IH) auto
  also have "\<dots> = append t (v # vs)"
    using append_append [of t "[v]" vs] Cons.prems by simp
  finally show ?case .
qed

lemma append_each_ok_iff: "inv t \<Longrightarrow> fst (append_each t vs) = Inr () \<longleftrightarrow> admits t vs"
proof (induction vs arbitrary: t)
  case Nil
  then show ?case by (simp add: append_nothing)
next
  case (Cons v vs)
  show ?case
  proof (cases "admits t [v]")
    case True
    then obtain t' where "append t [v] = (Inr (), t')"
      using append_accepts [OF Cons.prems True] by (cases "append t [v]") auto
    then have "append_each t (v # vs) = append_each (snd (append t [v])) vs" by simp
    moreover have "inv (snd (append t [v]))" using Cons.prems by (rule append_inv)
    ultimately show ?thesis
      using Cons.IH append_parts [of t "[v]" vs] Cons.prems True by simp
  next
    case False
    with append_rejects [of t "[v]"] Cons.prems obtain e where "append t [v] = (Inl e, t)" by blast
    moreover have "\<not> admits t (v # vs)"
      using append_parts [of t "[v]" vs] Cons.prems False by simp
    ultimately show ?thesis by simp
  qed
qed

end

interpretation table_sink: row_sink table_append_batch table_values table_wf table_admits
proof (unfold_locales, goal_cases)
  case (1 t vs)
  then show ?case by (simp add: append_batch_admitted)
next
  case (2 t vs)
  then show ?case by (simp add: append_batch_admitted)
next
  case (3 t vs)
  then show ?case by (meson append_batch_rejected)
next
  case (4 t vs)
  then show ?case by (rule append_batch_wf)
next
  case (5 t vs ws)
  then show ?case
  proof (cases "table_admits t vs")
    case True
    with 5 show ?thesis by (auto simp: append_batch_admitted) (auto simp: table_admits_def)
  next
    case False
    then show ?thesis by (auto simp: table_admits_def)
  qed
next
  case (6 t vs ws)
  then have vs: "table_admits t vs" by (auto simp: table_admits_def)
  let ?t = "t\<lparr>table_values := table_values t @ vs\<rparr>"
  have "table_wf ?t" using append_batch_wf [of t vs] 6(1) vs by (simp add: append_batch_admitted)
  moreover have "table_admits ?t ws" using 6(2) by (auto simp: table_admits_def)
  ultimately show ?case using 6 vs by (simp add: append_batch_admitted)
next
  case (7 t)
  then show ?case
    by (auto simp: table_admits_def table_wf_def append_batch_admitted table_append_batch_def
        validate_append_def)
qed

section \<open>Correctness of the appends\<close>

text \<open>C20: A batch append reports success exactly when the batch fits under the row cap and
  respects the column's nullability; then the rows are the old rows followed by the batch, and
  otherwise the table is unchanged. The invariant holds after either outcome.\<close>

theorem append_batch_correct:
  assumes "table_wf t"
  shows "(fst (table_append_batch t vs) = Inr () \<longleftrightarrow>
            length (table_values t) + length vs \<le> table_row_cap t \<and> (nullable_of t \<or> None \<notin> set vs))
       \<and> snd (table_append_batch t vs) =
           (if fst (table_append_batch t vs) = Inr ()
            then t\<lparr>table_values := table_values t @ vs\<rparr> else t)
       \<and> table_wf (snd (table_append_batch t vs))"
proof (cases "table_admits t vs")
  case True
  with assms show ?thesis
    using append_batch_wf [OF assms, of vs]
    by (simp add: append_batch_admitted) (simp add: table_admits_def)
next
  case False
  with assms obtain e where "table_append_batch t vs = (Inl e, t)" by (rule append_batch_rejected)
  with assms False show ?thesis by (auto simp: table_admits_def)
qed

theorem append_batch_correct_witness:
  "table_append_batch (table_new (schema_int64 ''v'' False) 2) [Some 7] =
     (Inr (), (table_new (schema_int64 ''v'' False) 2)\<lparr>table_values := [Some 7]\<rparr>)
   \<and> table_wf (snd (table_append_batch (table_new (schema_int64 ''v'' False) 2) [Some 7]))"
  using append_batch_correct [of "table_new (schema_int64 ''v'' False) 2" "[Some 7]"]
  by (auto simp: table_new_def schema_int64_def table_append_batch_def validate_append_def table_wf_def)

text \<open>Appending a batch is appending its rows one by one, when every single append succeeds;
  and the batch is accepted exactly when all of the single appends are.\<close>

theorem append_batch_is_append_each:
  assumes "table_wf t"
  shows "(fst (table_append_batch t vs) = Inr () \<longleftrightarrow> fst (table_sink.append_each t vs) = Inr ())
       \<and> (fst (table_append_batch t vs) = Inr () \<longrightarrow>
            table_append_batch t vs = table_sink.append_each t vs)"
  using table_sink.append_result_iff [OF assms] table_sink.append_each_ok_iff [OF assms]
    table_sink.append_each_admitted [OF assms]
  by simp

theorem append_batch_is_append_each_witness:
  "table_append_batch (table_new (schema_int64 ''v'' True) 2) [Some 7, None] =
     table_sink.append_each (table_new (schema_int64 ''v'' True) 2) [Some 7, None]"
  using append_batch_is_append_each [of "table_new (schema_int64 ''v'' True) 2" "[Some 7, None]"]
  by (simp add: table_new_def schema_int64_def table_append_batch_def validate_append_def table_wf_def)

end
