(* ===== verification/Sql_Parser.thy ===== *)
theory Sql_Parser
  imports Scan Top_K Storage
begin

text \<open>
  The bounded SQL parser of \<^verbatim>\<open>src/parser.rs\<close>: its statements, its errors, the token
  methods of \<open>Parser\<close> and the statement parsers. A method of \<open>Parser\<close> is a function
  from the parser state to an error or a value with the state after it; the state after an error is
  not kept, since every caller returns the error at once. The theory \<open>Sql_Grammar\<close> gives
  the accepted language of each statement.
\<close>

section \<open>Limits, statements and errors\<close>

definition default_max_statement_bytes :: usize where
  "default_max_statement_bytes = 4 * 1024"

definition default_max_identifier_bytes :: usize where
  "default_max_identifier_bytes = 128"

record parse_limits =
  max_statement_bytes :: usize
  max_identifier_bytes :: usize

definition parse_limits_new :: "usize \<Rightarrow> usize \<Rightarrow> parse_limits" where
  "parse_limits_new s i = \<lparr>max_statement_bytes = s, max_identifier_bytes = i\<rparr>"

definition parse_limits_default :: parse_limits where
  "parse_limits_default = parse_limits_new default_max_statement_bytes default_max_identifier_bytes"

type_synonym ident = string

record column_definition =
  cd_name :: ident
  cd_data_type :: data_type
  cd_nullable :: bool

record create_table_statement =
  create_table_name :: ident
  create_column :: column_definition
  if_not_exists :: bool

record insert_statement =
  insert_table_name :: ident
  insert_value :: nullable_i64

record comparison_predicate =
  cp_column_name :: ident
  cp_operator :: comparison_operator
  cp_value :: i64

record nullness_predicate =
  np_column_name :: ident
  np_predicate :: null_predicate

datatype select_predicate =
  Comparison comparison_predicate
| Nullness nullness_predicate

fun predicate_column_name :: "select_predicate \<Rightarrow> ident" where
  "predicate_column_name (Comparison p) = cp_column_name p"
| "predicate_column_name (Nullness p) = np_column_name p"

record order_by_clause =
  ob_column_name :: ident
  ob_direction :: order_direction
  ob_null_order :: null_order

record select_statement =
  select_column_name :: ident
  select_table_name :: ident
  select_predicate :: "select_predicate option"
  select_order_by :: "order_by_clause option"
  select_limit :: "usize option"

definition select_comparison :: "select_statement \<Rightarrow> comparison_predicate option" where
  "select_comparison s =
     (case select_predicate s of Some (Comparison p) \<Rightarrow> Some p | _ \<Rightarrow> None)"

definition select_nullness :: "select_statement \<Rightarrow> nullness_predicate option" where
  "select_nullness s =
     (case select_predicate s of Some (Nullness p) \<Rightarrow> Some p | _ \<Rightarrow> None)"

record inner_join_statement =
  ij_projected_column_name :: ident
  ij_left_table_name :: ident
  ij_right_table_name :: ident
  ij_left_column_name :: ident
  ij_right_column_name :: ident

record left_join_statement =
  lj_projected_column_name :: ident
  lj_left_table_name :: ident
  lj_right_table_name :: ident
  lj_left_column_name :: ident
  lj_right_column_name :: ident

datatype scalar_count_argument = Star | Column ident

definition count_column_name :: "scalar_count_argument \<Rightarrow> ident option" where
  "count_column_name a = (case a of Star \<Rightarrow> None | Column c \<Rightarrow> Some c)"

record scalar_count_statement =
  count_argument :: scalar_count_argument
  count_table_name :: ident
  count_predicate :: "comparison_predicate option"

record scalar_sum_statement =
  sum_column_name :: ident
  sum_table_name :: ident
  sum_predicate :: "comparison_predicate option"

record scalar_min_statement =
  min_column_name :: ident
  min_table_name :: ident

record select_distinct_statement =
  distinct_column_name :: ident
  distinct_table_name :: ident

datatype parse_error =
  StatementTooLong usize usize
| IdentifierTooLong usize usize usize
| UnexpectedInput usize string
| InvalidInt64 usize
| Int64Overflow usize
| InvalidLimit usize
| LimitOverflow usize
| ExtraRows usize
| TrailingInput usize

section \<open>Byte classes\<close>

definition is_identifier_start :: "char \<Rightarrow> bool" where
  "is_identifier_start b \<longleftrightarrow> is_ascii_alphabetic b \<or> b = CHR ''_''"

definition is_identifier_continue :: "char \<Rightarrow> bool" where
  "is_identifier_continue b \<longleftrightarrow> is_ascii_alphanumeric b \<or> b = CHR ''_''"

definition is_comparison_operator_byte :: "char \<Rightarrow> bool" where
  "is_comparison_operator_byte b \<longleftrightarrow> b \<in> set ''=!<>''"

section \<open>The parser state and its primitive methods\<close>

record parser =
  input :: string
  position :: usize
  parser_max_identifier_bytes :: usize

type_synonym 'a step = "parser \<Rightarrow> parse_error + 'a \<times> parser"

definition parser_new :: "string \<Rightarrow> usize \<Rightarrow> parser" where
  "parser_new inp m = \<lparr>input = inp, position = 0, parser_max_identifier_bytes = m\<rparr>"

text \<open>\<open>st_bind m k\<close> runs \<open>m\<close>, returns its error as \<open>?\<close> does, and continues
  with its value; \<open>st_seq\<close> runs the statements of a block; \<open>st_fail\<close> returns an error
  computed from the current state.\<close>

definition st_return :: "'a \<Rightarrow> 'a step" where
  "st_return x = (\<lambda>p. Inr (x, p))"

definition st_bind :: "'a step \<Rightarrow> ('a \<Rightarrow> 'b step) \<Rightarrow> 'b step" where
  "st_bind m k = (\<lambda>p. res_bind (m p) (\<lambda>(x, q). k x q))"

definition st_then :: "unit step \<Rightarrow> 'b step \<Rightarrow> 'b step" where
  "st_then m k = st_bind m (\<lambda>_. k)"

definition st_seq :: "unit step list \<Rightarrow> 'b step \<Rightarrow> 'b step" where
  "st_seq ms k = foldr st_then ms k"

definition st_if :: "(parser \<Rightarrow> bool) \<Rightarrow> 'a step \<Rightarrow> 'a step \<Rightarrow> 'a step" where
  "st_if c a b = (\<lambda>p. if c p then a p else b p)"

definition st_fail :: "(parser \<Rightarrow> parse_error) \<Rightarrow> 'a step" where
  "st_fail e = (\<lambda>p. Inl (e p))"

definition peek :: "parser \<Rightarrow> char option" where
  "peek p = slice_get (input p) (position p)"

definition peek_is :: "(char \<Rightarrow> bool) \<Rightarrow> parser \<Rightarrow> bool" where
  "peek_is f p = (case peek p of None \<Rightarrow> False | Some b \<Rightarrow> f b)"

definition unexpected :: "string \<Rightarrow> parser \<Rightarrow> parse_error" where
  "unexpected expected p = UnexpectedInput (position p) expected"

definition advance_while :: "(char \<Rightarrow> bool) \<Rightarrow> parser \<Rightarrow> parser" where
  "advance_while f p = p\<lparr>position := scan_while f (input p) (position p)\<rparr>"

definition advance :: "usize \<Rightarrow> parser \<Rightarrow> parser" where
  "advance n p = p\<lparr>position := position p + n\<rparr>"

definition bump :: "unit step" where
  "bump p = Inr ((), advance 1 p)"

definition slice_from :: "usize \<Rightarrow> parser \<Rightarrow> string" where
  "slice_from start p = take (position p - start) (drop start (input p))"

definition expect_byte :: "char \<Rightarrow> string \<Rightarrow> unit step" where
  "expect_byte byte expected p =
     (if peek p \<noteq> Some byte then Inl (unexpected expected p) else Inr ((), advance 1 p))"

definition skip_whitespace :: "unit step" where
  "skip_whitespace p = Inr ((), advance_while is_ascii_whitespace p)"

definition require_whitespace :: "string \<Rightarrow> unit step" where
  "require_whitespace expected p =
     (let q = advance_while is_ascii_whitespace p
      in if position q = position p then Inl (unexpected expected q) else Inr ((), q))"

section \<open>Words\<close>

definition word_end :: "string \<Rightarrow> usize \<Rightarrow> usize option" where
  "word_end bytes start =
     (case slice_get bytes start of
        None \<Rightarrow> None
      | Some b \<Rightarrow>
          if \<not> is_identifier_start b then None
          else Some (scan_while is_identifier_continue bytes (start + 1)))"

definition word_is :: "string \<Rightarrow> usize \<Rightarrow> string \<Rightarrow> bool" where
  "word_is bytes start keyword =
     (case word_end bytes start of
        None \<Rightarrow> False
      | Some e \<Rightarrow> eq_ignore_ascii_case (take (e - start) (drop start bytes)) keyword)"

definition keyword_at_position :: "string \<Rightarrow> parser \<Rightarrow> bool" where
  "keyword_at_position keyword p = word_is (input p) (position p) keyword"

definition keyword_follows_current_word :: "string \<Rightarrow> parser \<Rightarrow> bool" where
  "keyword_follows_current_word keyword p =
     (case word_end (input p) (position p) of
        None \<Rightarrow> False
      | Some current_end \<Rightarrow>
          let next_start = scan_while is_ascii_whitespace (input p) current_end
          in if next_start = current_end then False else word_is (input p) next_start keyword)"

definition expect_keyword :: "string \<Rightarrow> unit step" where
  "expect_keyword keyword p =
     (case word_end (input p) (position p) of
        None \<Rightarrow> Inl (unexpected keyword p)
      | Some e \<Rightarrow>
          if \<not> eq_ignore_ascii_case (take (e - position p) (drop (position p) (input p))) keyword
          then Inl (unexpected keyword p)
          else Inr ((), p\<lparr>position := e\<rparr>))"

definition parse_identifier :: "ident step" where
  "parse_identifier p =
     (let start = position p
      in if \<not> peek_is is_identifier_start p then Inl (unexpected ''identifier'' p)
         else
           let q = advance_while is_identifier_continue (advance 1 p);
               bytes = position q - start
           in if bytes > parser_max_identifier_bytes p
              then Inl (IdentifierTooLong start bytes (parser_max_identifier_bytes p))
              else Inr (slice_from start q, q))"

section \<open>Literals and operators\<close>

text \<open>The expected elements are reported as the sources spell them: a byte in quotes.\<close>

definition quoted :: "char \<Rightarrow> string" where
  "quoted b = [CHR 0x27, b, CHR 0x27]"

definition parse_comparison_operator :: "comparison_operator step" where
  "parse_comparison_operator p =
     (let next = slice_get (input p) (position p + 1);
          op =
            (if peek p = Some CHR ''='' then Some (1, Eq)
             else if peek p = Some CHR ''!'' \<and> next = Some CHR ''='' then Some (2, Ne)
             else if peek p = Some CHR ''<'' \<and> next = Some CHR ''>'' then Some (2, Ne)
             else if peek p = Some CHR ''<'' \<and> next = Some CHR ''='' then Some (2, Le)
             else if peek p = Some CHR ''<'' then Some (1, Lt)
             else if peek p = Some CHR ''>'' \<and> next = Some CHR ''='' then Some (2, Ge)
             else if peek p = Some CHR ''>'' then Some (1, Gt)
             else None)
      in case op of
           None \<Rightarrow> Inl (unexpected ''comparison operator'' p)
         | Some (width, operator) \<Rightarrow>
             let q = advance width p
             in if peek_is is_comparison_operator_byte q
                then Inl (unexpected ''comparison operator'' (q\<lparr>position := position p\<rparr>))
                else Inr (operator, q))"

text \<open>The optional sign and the digits both integer literals start with.\<close>

definition scan_sign :: "parser \<Rightarrow> parser" where
  "scan_sign p = (if peek p = Some CHR ''+'' \<or> peek p = Some CHR ''-'' then advance 1 p else p)"

definition ends_literal :: "char \<Rightarrow> bool" where
  "ends_literal b \<longleftrightarrow> is_ascii_whitespace b \<or> b = CHR '';''"

definition parse_where_int64 :: "i64 step" where
  "parse_where_int64 p =
     (let start = position p;
          digits = scan_sign p;
          q = advance_while is_ascii_digit digits
      in if position q = position digits then Inl (InvalidInt64 start)
         else if peek_is (\<lambda>b. \<not> ends_literal b) q then Inl (InvalidInt64 (position q))
         else case i64_from_str (slice_from start q) of
                None \<Rightarrow> Inl (Int64Overflow start)
              | Some v \<Rightarrow> Inr (v, q))"

definition parse_limit :: "usize step" where
  "parse_limit p =
     (let start = position p;
          q = advance_while (\<lambda>b. \<not> ends_literal b) p;
          literal = slice_from start q
      in if literal = [] \<or> \<not> list_all is_ascii_digit literal then Inl (InvalidLimit start)
         else case usize_from_str literal of
                None \<Rightarrow> Inl (LimitOverflow start)
              | Some n \<Rightarrow> Inr (n, q))"

definition parse_int64_value :: "nullable_i64 step" where
  "parse_int64_value p =
     (let start = position p
      in if keyword_at_position ''NULL'' p
         then st_then (expect_keyword ''NULL'') (st_return None) p
         else
           let digits = scan_sign p;
               e = advance_while is_ascii_digit digits;
               q = advance_while is_ascii_whitespace e
           in if position e = position digits then Inl (InvalidInt64 start)
              else case peek q of
                None \<Rightarrow> Inl (unexpected (quoted CHR '')'') q)
              | Some b \<Rightarrow>
                  if b \<noteq> CHR '')'' then Inl (InvalidInt64 (position q))
                  else case i64_from_str (slice_from start e) of
                         None \<Rightarrow> Inl (Int64Overflow start)
                       | Some v \<Rightarrow> Inr (Some v, q))"

definition parse_nullability :: "bool step" where
  "parse_nullability =
     st_then skip_whitespace
     (st_if (\<lambda>p. peek p = Some CHR '')'') (st_return True)
     (st_if (keyword_at_position ''NULL'') (st_then (expect_keyword ''NULL'') (st_return True))
     (st_if (keyword_at_position ''NOT'')
        (st_seq [expect_keyword ''NOT'', require_whitespace ''whitespace after NOT'',
                 expect_keyword ''NULL'']
          (st_return False))
     (st_fail (unexpected (''NULL, NOT NULL, or '' @ quoted CHR '')''))))))"

definition parse_optional_comparison_predicate :: "comparison_predicate option step" where
  "parse_optional_comparison_predicate =
     st_if (\<lambda>p. \<not> keyword_at_position ''WHERE'' p) (st_return None)
       (st_seq [expect_keyword ''WHERE'', require_whitespace ''whitespace after WHERE'']
        (st_bind parse_identifier (\<lambda>column_name.
         st_then skip_whitespace
        (st_bind parse_comparison_operator (\<lambda>operator.
         st_then skip_whitespace
        (st_bind parse_where_int64 (\<lambda>v.
         st_then skip_whitespace
        (st_return (Some \<lparr>cp_column_name = column_name, cp_operator = operator,
                          cp_value = v\<rparr>)))))))))"

section \<open>Statements\<close>

text \<open>The optional semicolon and the end of the input, with which the statements finish.\<close>

definition at_end :: "'a \<Rightarrow> 'a step" where
  "at_end x p =
     (if position p \<noteq> length (input p) then Inl (TrailingInput (position p)) else Inr (x, p))"

definition optional_semicolon :: "unit step" where
  "optional_semicolon =
     st_if (\<lambda>p. peek p = Some CHR '';'') (st_then bump skip_whitespace) (st_return ())"

text \<open>The blocks of \<open>CREATE TABLE\<close> that compute \<open>if_not_exists\<close> and \<open>nullable\<close>, and the
  optional engine.\<close>

definition create_if_not_exists :: "bool step" where
  "create_if_not_exists =
     st_if (\<lambda>p. keyword_at_position ''IF'' p \<and> keyword_follows_current_word ''NOT'' p)
       (st_seq [expect_keyword ''IF'', require_whitespace ''whitespace after IF'',
                expect_keyword ''NOT'', require_whitespace ''whitespace after NOT'',
                expect_keyword ''EXISTS'', require_whitespace ''whitespace after EXISTS'']
         (st_return True))
       (st_return False)"

definition create_nullable :: "bool step" where
  "create_nullable =
     st_if (keyword_at_position ''Nullable'')
       (st_seq [expect_keyword ''Nullable'', skip_whitespace,
                expect_byte CHR ''('' (quoted CHR ''('' @ '' after Nullable''), skip_whitespace,
                expect_keyword ''Int64'', skip_whitespace,
                expect_byte CHR '')'' (quoted CHR '')'' @ '' after Nullable(Int64)'')]
         (st_return True))
       (st_then (expect_keyword ''Int64'') parse_nullability)"

definition create_engine :: "unit step" where
  "create_engine =
     st_if (keyword_at_position ''ENGINE'')
       (st_seq [expect_keyword ''ENGINE'', skip_whitespace,
                expect_byte CHR ''='' (quoted CHR ''=''), skip_whitespace,
                expect_keyword ''Memory'', skip_whitespace]
         (st_return ()))
       (st_return ())"

definition statement_create_table :: "create_table_statement step" where
  "statement_create_table =
     st_seq [skip_whitespace, expect_keyword ''CREATE'', require_whitespace ''whitespace after CREATE'',
             expect_keyword ''TABLE'', require_whitespace ''whitespace after TABLE'']
     (st_bind create_if_not_exists (\<lambda>if_not_exists.
      st_bind parse_identifier (\<lambda>table_name.
      st_seq [skip_whitespace, expect_byte CHR ''('' (quoted CHR ''(''), skip_whitespace]
     (st_bind parse_identifier (\<lambda>column_name.
      st_then (require_whitespace ''whitespace before Int64 or Nullable(Int64)'')
     (st_bind create_nullable (\<lambda>nullable.
      st_seq [skip_whitespace, expect_byte CHR '')'' (quoted CHR '')''), skip_whitespace, create_engine]
     (at_end \<lparr>create_table_name = table_name,
              create_column = \<lparr>cd_name = column_name, cd_data_type = Int64, cd_nullable = nullable\<rparr>,
              if_not_exists = if_not_exists\<rparr>))))))))"

definition statement_insert :: "insert_statement step" where
  "statement_insert =
     st_seq [skip_whitespace, expect_keyword ''INSERT'', require_whitespace ''whitespace after INSERT'',
             expect_keyword ''INTO'', require_whitespace ''whitespace after INTO'']
     (st_bind parse_identifier (\<lambda>table_name.
      st_seq [require_whitespace ''whitespace before VALUES'', expect_keyword ''VALUES'',
              skip_whitespace, expect_byte CHR ''('' (quoted CHR ''(''), skip_whitespace]
     (st_bind parse_int64_value (\<lambda>v.
      st_then skip_whitespace
     (st_then
       (\<lambda>p. case peek p of
          None \<Rightarrow> Inl (unexpected (quoted CHR '')'') p)
        | Some b \<Rightarrow> if b = CHR '')'' then bump p else Inl (InvalidInt64 (position p)))
     (st_then skip_whitespace
     (st_if (\<lambda>p. peek p = Some CHR '','') (st_fail (\<lambda>p. ExtraRows (position p)))
     (at_end \<lparr>insert_table_name = table_name, insert_value = v\<rparr>))))))))"

definition select_where_clause :: "select_predicate step" where
  "select_where_clause =
     st_seq [expect_keyword ''WHERE'', require_whitespace ''whitespace after WHERE'']
     (st_bind parse_identifier (\<lambda>column_name.
      st_then skip_whitespace
     (st_bind
       (st_if (keyword_at_position ''IS'')
         (st_seq [expect_keyword ''IS'', require_whitespace ''whitespace after IS'']
         (st_bind
           (st_if (keyword_at_position ''NOT'')
             (st_seq [expect_keyword ''NOT'', require_whitespace ''whitespace after NOT'']
               (st_return IsNotNull))
             (st_return IsNull)) (\<lambda>predicate.
          st_then (expect_keyword ''NULL'')
         (st_return (Nullness \<lparr>np_column_name = column_name, np_predicate = predicate\<rparr>)))))
         (st_bind parse_comparison_operator (\<lambda>operator.
          st_then skip_whitespace
         (st_bind parse_where_int64 (\<lambda>v.
          st_return (Comparison \<lparr>cp_column_name = column_name, cp_operator = operator,
                                 cp_value = v\<rparr>)))))) (\<lambda>predicate.
      st_then skip_whitespace (st_return predicate)))))"

definition select_order_clause :: "order_by_clause step" where
  "select_order_clause =
     st_seq [expect_keyword ''ORDER'', require_whitespace ''whitespace after ORDER'',
             expect_keyword ''BY'', require_whitespace ''whitespace after BY'']
     (st_bind parse_identifier (\<lambda>column_name.
      st_then (require_whitespace ''whitespace before ASC or DESC'')
     (st_bind
       (st_if (keyword_at_position ''ASC'') (st_then (expect_keyword ''ASC'') (st_return Asc))
       (st_if (keyword_at_position ''DESC'') (st_then (expect_keyword ''DESC'') (st_return Desc))
       (st_fail (unexpected ''ASC or DESC'')))) (\<lambda>direction.
      st_seq [require_whitespace ''whitespace before NULLS'', expect_keyword ''NULLS'',
              require_whitespace ''whitespace after NULLS'']
     (st_bind
       (st_if (keyword_at_position ''FIRST'') (st_then (expect_keyword ''FIRST'') (st_return NullsFirst))
       (st_if (keyword_at_position ''LAST'') (st_then (expect_keyword ''LAST'') (st_return NullsLast))
       (st_fail (unexpected ''FIRST or LAST'')))) (\<lambda>null_order.
      st_then skip_whitespace
     (st_return \<lparr>ob_column_name = column_name, ob_direction = direction,
                 ob_null_order = null_order\<rparr>)))))))"

definition select_limit_clause :: "usize step" where
  "select_limit_clause =
     st_seq [expect_keyword ''LIMIT'', require_whitespace ''whitespace after LIMIT'']
     (st_bind parse_limit (\<lambda>limit. st_then skip_whitespace (st_return limit)))"

text \<open>An optional clause, present when its keyword is next.\<close>

definition optional_clause :: "string \<Rightarrow> 'a step \<Rightarrow> 'a option step" where
  "optional_clause keyword clause =
     st_if (keyword_at_position keyword) (st_bind clause (\<lambda>x. st_return (Some x))) (st_return None)"

definition statement_select :: "select_statement step" where
  "statement_select =
     st_seq [skip_whitespace, expect_keyword ''SELECT'', require_whitespace ''whitespace after SELECT'']
     (st_if (\<lambda>p. keyword_at_position ''FROM'' p \<and> \<not> keyword_follows_current_word ''FROM'' p)
        (st_fail (unexpected ''identifier''))
     (st_bind parse_identifier (\<lambda>column_name.
      st_seq [require_whitespace ''whitespace before FROM'', expect_keyword ''FROM'',
              require_whitespace ''whitespace after FROM'']
     (st_bind parse_identifier (\<lambda>table_name.
      st_then skip_whitespace
     (st_bind (optional_clause ''WHERE'' select_where_clause) (\<lambda>predicate.
      st_bind (optional_clause ''ORDER'' select_order_clause) (\<lambda>order_by.
      st_bind (optional_clause ''LIMIT'' select_limit_clause) (\<lambda>limit.
      st_if (\<lambda>p. order_by \<noteq> None \<and> limit = None) (st_fail (unexpected ''LIMIT''))
     (st_then optional_semicolon
     (at_end \<lparr>select_column_name = column_name, select_table_name = table_name,
              select_predicate = predicate, select_order_by = order_by,
              select_limit = limit\<rparr>)))))))))))"

definition statement_inner_join :: "inner_join_statement step" where
  "statement_inner_join =
     st_seq [skip_whitespace, expect_keyword ''SELECT'', require_whitespace ''whitespace after SELECT'']
     (st_bind parse_identifier (\<lambda>projected.
      st_seq [require_whitespace ''whitespace before FROM'', expect_keyword ''FROM'',
              require_whitespace ''whitespace after FROM'']
     (st_bind parse_identifier (\<lambda>left_table.
      st_seq [require_whitespace ''whitespace before INNER'', expect_keyword ''INNER'',
              require_whitespace ''whitespace after INNER'', expect_keyword ''JOIN'',
              require_whitespace ''whitespace after JOIN'']
     (st_bind parse_identifier (\<lambda>right_table.
      st_seq [require_whitespace ''whitespace before ON'', expect_keyword ''ON'',
              require_whitespace ''whitespace after ON'']
     (st_bind parse_identifier (\<lambda>left_column.
      st_seq [skip_whitespace, expect_byte CHR ''='' (quoted CHR ''=''), skip_whitespace]
     (st_bind parse_identifier (\<lambda>right_column.
      st_seq [skip_whitespace, optional_semicolon]
     (at_end \<lparr>ij_projected_column_name = projected, ij_left_table_name = left_table,
              ij_right_table_name = right_table, ij_left_column_name = left_column,
              ij_right_column_name = right_column\<rparr>)))))))))))"

definition statement_left_join :: "left_join_statement step" where
  "statement_left_join =
     st_seq [skip_whitespace, expect_keyword ''SELECT'', require_whitespace ''whitespace after SELECT'']
     (st_bind parse_identifier (\<lambda>projected.
      st_seq [require_whitespace ''whitespace before FROM'', expect_keyword ''FROM'',
              require_whitespace ''whitespace after FROM'']
     (st_bind parse_identifier (\<lambda>left_table.
      st_seq [require_whitespace ''whitespace before LEFT'', expect_keyword ''LEFT'',
              require_whitespace ''whitespace after LEFT'', expect_keyword ''JOIN'',
              require_whitespace ''whitespace after JOIN'']
     (st_bind parse_identifier (\<lambda>right_table.
      st_seq [require_whitespace ''whitespace before ON'', expect_keyword ''ON'',
              require_whitespace ''whitespace after ON'']
     (st_bind parse_identifier (\<lambda>left_column.
      st_seq [skip_whitespace, expect_byte CHR ''='' (quoted CHR ''=''), skip_whitespace]
     (st_bind parse_identifier (\<lambda>right_column.
      st_seq [skip_whitespace, optional_semicolon]
     (at_end \<lparr>lj_projected_column_name = projected, lj_left_table_name = left_table,
              lj_right_table_name = right_table, lj_left_column_name = left_column,
              lj_right_column_name = right_column\<rparr>)))))))))))"

definition statement_scalar_count :: "scalar_count_statement step" where
  "statement_scalar_count =
     st_seq [skip_whitespace, expect_keyword ''SELECT'', require_whitespace ''whitespace after SELECT'',
             expect_keyword ''COUNT'', skip_whitespace,
             expect_byte CHR ''('' (quoted CHR ''(''), skip_whitespace]
     (st_bind
       (st_if (\<lambda>p. peek p = Some CHR ''*'') (st_then bump (st_return Star))
         (st_bind parse_identifier (\<lambda>c. st_return (Column c)))) (\<lambda>argument.
      st_seq [skip_whitespace, expect_byte CHR '')'' (quoted CHR '')''),
              require_whitespace ''whitespace before FROM'', expect_keyword ''FROM'',
              require_whitespace ''whitespace after FROM'']
     (st_bind parse_identifier (\<lambda>table_name.
      st_then skip_whitespace
     (st_bind parse_optional_comparison_predicate (\<lambda>predicate.
      st_then optional_semicolon
     (at_end \<lparr>count_argument = argument, count_table_name = table_name,
              count_predicate = predicate\<rparr>)))))))"

definition statement_scalar_sum :: "scalar_sum_statement step" where
  "statement_scalar_sum =
     st_seq [skip_whitespace, expect_keyword ''SELECT'', require_whitespace ''whitespace after SELECT'',
             expect_keyword ''SUM'', skip_whitespace,
             expect_byte CHR ''('' (quoted CHR ''(''), skip_whitespace]
     (st_bind parse_identifier (\<lambda>column_name.
      st_seq [skip_whitespace, expect_byte CHR '')'' (quoted CHR '')''),
              require_whitespace ''whitespace before FROM'', expect_keyword ''FROM'',
              require_whitespace ''whitespace after FROM'']
     (st_bind parse_identifier (\<lambda>table_name.
      st_then skip_whitespace
     (st_bind parse_optional_comparison_predicate (\<lambda>predicate.
      st_then optional_semicolon
     (at_end \<lparr>sum_column_name = column_name, sum_table_name = table_name,
              sum_predicate = predicate\<rparr>)))))))"

definition statement_scalar_min :: "scalar_min_statement step" where
  "statement_scalar_min =
     st_seq [skip_whitespace, expect_keyword ''SELECT'', require_whitespace ''whitespace after SELECT'',
             expect_keyword ''MIN'', skip_whitespace,
             expect_byte CHR ''('' (quoted CHR ''(''), skip_whitespace]
     (st_bind parse_identifier (\<lambda>column_name.
      st_seq [skip_whitespace, expect_byte CHR '')'' (quoted CHR '')''),
              require_whitespace ''whitespace before FROM'', expect_keyword ''FROM'',
              require_whitespace ''whitespace after FROM'']
     (st_bind parse_identifier (\<lambda>table_name.
      st_seq [skip_whitespace, optional_semicolon]
     (at_end \<lparr>min_column_name = column_name, min_table_name = table_name\<rparr>)))))"

definition statement_select_distinct :: "select_distinct_statement step" where
  "statement_select_distinct =
     st_seq [skip_whitespace, expect_keyword ''SELECT'', require_whitespace ''whitespace after SELECT'',
             expect_keyword ''DISTINCT'', require_whitespace ''whitespace after DISTINCT'']
     (st_if (\<lambda>p. keyword_at_position ''FROM'' p \<and> \<not> keyword_follows_current_word ''FROM'' p)
        (st_fail (unexpected ''identifier''))
     (st_bind parse_identifier (\<lambda>column_name.
      st_seq [require_whitespace ''whitespace before FROM'', expect_keyword ''FROM'',
              require_whitespace ''whitespace after FROM'']
     (st_bind parse_identifier (\<lambda>table_name.
      st_seq [skip_whitespace, optional_semicolon]
     (at_end \<lparr>distinct_column_name = column_name, distinct_table_name = table_name\<rparr>))))))"

section \<open>Entry points\<close>

definition validate_statement_length :: "string \<Rightarrow> parse_limits \<Rightarrow> parse_error + unit" where
  "validate_statement_length inp limits =
     (if length inp > max_statement_bytes limits
      then Inl (StatementTooLong (length inp) (max_statement_bytes limits))
      else Inr ())"

definition run_statement :: "'a step \<Rightarrow> string \<Rightarrow> parse_limits \<Rightarrow> parse_error + 'a" where
  "run_statement m inp limits =
     res_bind (validate_statement_length inp limits) (\<lambda>_.
     res_bind (m (parser_new inp (max_identifier_bytes limits))) (\<lambda>(x, _). Inr x))"

definition parse_create_table :: "string \<Rightarrow> parse_limits \<Rightarrow> parse_error + create_table_statement" where
  "parse_create_table = run_statement statement_create_table"

definition parse_insert :: "string \<Rightarrow> parse_limits \<Rightarrow> parse_error + insert_statement" where
  "parse_insert = run_statement statement_insert"

definition parse_select :: "string \<Rightarrow> parse_limits \<Rightarrow> parse_error + select_statement" where
  "parse_select = run_statement statement_select"

definition parse_inner_join :: "string \<Rightarrow> parse_limits \<Rightarrow> parse_error + inner_join_statement" where
  "parse_inner_join = run_statement statement_inner_join"

definition parse_left_join :: "string \<Rightarrow> parse_limits \<Rightarrow> parse_error + left_join_statement" where
  "parse_left_join = run_statement statement_left_join"

definition parse_scalar_count :: "string \<Rightarrow> parse_limits \<Rightarrow> parse_error + scalar_count_statement" where
  "parse_scalar_count = run_statement statement_scalar_count"

definition parse_scalar_sum :: "string \<Rightarrow> parse_limits \<Rightarrow> parse_error + scalar_sum_statement" where
  "parse_scalar_sum = run_statement statement_scalar_sum"

definition parse_scalar_min :: "string \<Rightarrow> parse_limits \<Rightarrow> parse_error + scalar_min_statement" where
  "parse_scalar_min = run_statement statement_scalar_min"

definition parse_select_distinct :: "string \<Rightarrow> parse_limits \<Rightarrow> parse_error + select_distinct_statement" where
  "parse_select_distinct = run_statement statement_select_distinct"

end
