(* ===== verification/Aggregate.thy ===== *)
theory Aggregate
  imports Scan
begin

text \<open>
  The bounded aggregates of \<^verbatim>\<open>src/aggregate.rs\<close> over a nullable column: the
  validation of limits and of an explicit row selection, \<open>COUNT\<close>, \<open>MIN\<close> and
  \<open>SUM\<close> with its exact 128-bit accumulation, and the agreement of each with the plain
  aggregate of the selected values.
\<close>

section \<open>Selections, limits and results\<close>

datatype row_selection = AllRows | Indices "usize list"

fun selection_row_count :: "row_selection \<Rightarrow> usize \<Rightarrow> usize" where
  "selection_row_count AllRows n = n"
| "selection_row_count (Indices is) n = length is"

record aggregate_limits =
  agg_max_input_rows :: usize
  agg_max_selected_rows :: usize

definition aggregate_limits_new :: "usize \<Rightarrow> usize \<Rightarrow> aggregate_limits" where
  "aggregate_limits_new i s = \<lparr>agg_max_input_rows = i, agg_max_selected_rows = s\<rparr>"

record nullable_i64_counts =
  counts_star :: u64
  counts_column :: u64

record nullable_i64_aggregates =
  aggs_count_star :: u64
  aggs_count_column :: u64
  aggs_sum :: nullable_i64

datatype aggregate_error =
  AggInputLimitExceeded usize usize
| AggSelectionLimitExceeded usize usize
| SelectionIndexOutOfBounds usize usize usize
| SelectionNotStrictlyIncreasing usize usize usize
| SumOverflow int

section \<open>Validation\<close>

fun validate_selection_loop ::
  "usize option \<Rightarrow> usize \<Rightarrow> usize list \<Rightarrow> usize \<Rightarrow> aggregate_error + unit" where
  "validate_selection_loop previous pos [] input_rows = Inr ()"
| "validate_selection_loop previous pos (i # is) input_rows =
     (if i \<ge> input_rows then Inl (SelectionIndexOutOfBounds pos i input_rows)
      else case previous of
        Some p \<Rightarrow>
          if i \<le> p then Inl (SelectionNotStrictlyIncreasing pos p i)
          else validate_selection_loop (Some i) (Suc pos) is input_rows
      | None \<Rightarrow> validate_selection_loop (Some i) (Suc pos) is input_rows)"

definition validate_selection :: "usize list \<Rightarrow> usize \<Rightarrow> aggregate_error + unit" where
  "validate_selection is input_rows = validate_selection_loop None 0 is input_rows"

definition validate_aggregate_input ::
  "usize \<Rightarrow> row_selection \<Rightarrow> aggregate_limits \<Rightarrow> aggregate_error + usize" where
  "validate_aggregate_input input_rows selection limits =
     (if input_rows > agg_max_input_rows limits
      then Inl (AggInputLimitExceeded input_rows (agg_max_input_rows limits))
      else let selected_rows = selection_row_count selection input_rows in
        if selected_rows > agg_max_selected_rows limits
        then Inl (AggSelectionLimitExceeded selected_rows (agg_max_selected_rows limits))
        else case selection of
          Indices is \<Rightarrow> res_bind (validate_selection is input_rows) (\<lambda>_. Inr selected_rows)
        | AllRows \<Rightarrow> Inr selected_rows)"

section \<open>The aggregates\<close>

text \<open>\<open>flatten\<close> on an iterator of options, and \<open>Iterator::min\<close> on
  \<open>i64\<close>.\<close>

fun presents :: "nullable_i64 list \<Rightarrow> i64 list" where
  "presents [] = []"
| "presents (None # vs) = presents vs"
| "presents (Some v # vs) = v # presents vs"

definition min_i64 :: "i64 \<Rightarrow> i64 \<Rightarrow> i64" where
  "min_i64 a b = (if sint b < sint a then b else a)"

fun iter_min :: "i64 list \<Rightarrow> i64 option" where
  "iter_min [] = None"
| "iter_min (x # xs) = Some (foldl min_i64 x xs)"

definition count_nullable_i64 ::
  "nullable_i64 list \<Rightarrow> row_selection \<Rightarrow> aggregate_limits \<Rightarrow> aggregate_error + nullable_i64_counts" where
  "count_nullable_i64 values selection limits =
     res_bind (validate_aggregate_input (length values) selection limits) (\<lambda>selected_rows.
       let count_column =
         (case selection of
            AllRows \<Rightarrow> length (filter (\<lambda>v. v \<noteq> None) values)
          | Indices is \<Rightarrow> length (filter (\<lambda>i. values ! i \<noteq> None) is))
       in Inr \<lparr>counts_star = of_nat selected_rows, counts_column = of_nat count_column\<rparr>)"

definition min_nullable_i64 ::
  "nullable_i64 list \<Rightarrow> row_selection \<Rightarrow> aggregate_limits \<Rightarrow> aggregate_error + nullable_i64" where
  "min_nullable_i64 values selection limits =
     res_bind (validate_aggregate_input (length values) selection limits) (\<lambda>_.
       Inr (case selection of
              AllRows \<Rightarrow> iter_min (presents values)
            | Indices is \<Rightarrow> iter_min (presents (map (\<lambda>i. values ! i) is))))"

text \<open>The summing loop: a \<open>u64\<close> count and an \<open>i128\<close> sum.\<close>

fun aggregate_values_loop :: "i64 list \<Rightarrow> u64 \<Rightarrow> int \<Rightarrow> u64 \<times> int" where
  "aggregate_values_loop [] count_column tot = (count_column, tot)"
| "aggregate_values_loop (v # vs) count_column tot =
     aggregate_values_loop vs (count_column + 1) (tot + sint v)"

definition aggregate_values ::
  "nullable_i64 list \<Rightarrow> u64 \<Rightarrow> aggregate_error + nullable_i64_aggregates" where
  "aggregate_values values count_star =
     (case aggregate_values_loop (presents values) 0 0 of
        (count_column, tot) \<Rightarrow>
          res_bind
            (if count_column = 0 then Inr None
             else case i64_of_int tot of None \<Rightarrow> Inl (SumOverflow tot) | Some s \<Rightarrow> Inr (Some s))
            (\<lambda>s. Inr \<lparr>aggs_count_star = count_star, aggs_count_column = count_column,
                        aggs_sum = s\<rparr>))"

definition aggregate_nullable_i64 ::
  "nullable_i64 list \<Rightarrow> row_selection \<Rightarrow> aggregate_limits \<Rightarrow> aggregate_error + nullable_i64_aggregates" where
  "aggregate_nullable_i64 values selection limits =
     res_bind (validate_aggregate_input (length values) selection limits) (\<lambda>selected_rows.
       let count_star = of_nat selected_rows in
       case selection of
         AllRows \<Rightarrow> aggregate_values values count_star
       | Indices is \<Rightarrow> aggregate_values (map (\<lambda>i. values ! i) is) count_star)"

section \<open>Validation accepts exactly the strictly increasing in-range selections\<close>

lemma validate_selection_loop_ok_iff:
  "validate_selection_loop previous pos is n = Inr () \<longleftrightarrow>
     (\<forall>i\<in>set is. i < n) \<and> sorted_wrt (<) is \<and>
     (case (previous, is) of (Some p, i # _) \<Rightarrow> p < i | _ \<Rightarrow> True)"
proof (induction previous pos "is" n rule: validate_selection_loop.induct)
  case (1 previous pos input_rows)
  then show ?case by (simp split: option.split)
next
  case (2 previous pos i "is" n)
  then show ?case
    by (cases "is") (auto split: option.split dest: less_trans)
qed

lemma validate_selection_ok_iff:
  "validate_selection is n = Inr () \<longleftrightarrow> (\<forall>i\<in>set is. i < n) \<and> sorted_wrt (<) is"
  by (simp add: validate_selection_def validate_selection_loop_ok_iff split: list.split)

definition selection_ok :: "usize \<Rightarrow> row_selection \<Rightarrow> aggregate_limits \<Rightarrow> bool" where
  "selection_ok n selection limits \<longleftrightarrow>
     n \<le> agg_max_input_rows limits \<and> selection_row_count selection n \<le> agg_max_selected_rows limits \<and>
     (case selection of AllRows \<Rightarrow> True | Indices is \<Rightarrow> (\<forall>i\<in>set is. i < n) \<and> sorted_wrt (<) is)"

lemma validate_aggregate_input_Inr_iff:
  "validate_aggregate_input n selection limits = Inr r \<longleftrightarrow>
     selection_ok n selection limits \<and> r = selection_row_count selection n"
  using validate_selection_ok_iff
  by (auto simp: validate_aggregate_input_def selection_ok_def Let_def result_simps
      split: row_selection.split)

lemma validate_aggregate_input_ok:
  "selection_ok n selection limits \<Longrightarrow>
     validate_aggregate_input n selection limits = Inr (selection_row_count selection n)"
  by (simp add: validate_aggregate_input_Inr_iff)

text \<open>The values an operation aggregates.\<close>

fun selected_values :: "'a list \<Rightarrow> row_selection \<Rightarrow> 'a list" where
  "selected_values vs AllRows = vs"
| "selected_values vs (Indices is) = map (\<lambda>i. vs ! i) is"

lemma length_selected_values: "length (selected_values vs sel) = selection_row_count sel (length vs)"
  by (cases sel) auto

text \<open>Rows found by a scan form a valid selection.\<close>

lemma rows_where_selection_ok:
  "length vs \<le> agg_max_input_rows limits \<Longrightarrow>
   length (filter m vs) \<le> agg_max_selected_rows limits \<Longrightarrow>
     selection_ok (length vs) (Indices (rows_where m vs)) limits"
  by (simp add: selection_ok_def set_rows_where sorted_rows_where length_rows_where)

lemma selected_rows_where: "selected_values vs (Indices (rows_where m vs)) = filter m vs"
  by (simp add: values_at_rows_where)

section \<open>The aggregates of the selected values\<close>

lemma length_presents: "length (presents vs) = length (filter (\<lambda>v. v \<noteq> None) vs)"
  by (induction vs rule: presents.induct) auto

lemma set_presents: "set (presents vs) = {v. Some v \<in> set vs}"
  by (induction vs rule: presents.induct) auto

lemma length_presents_le: "length (presents vs) \<le> length vs"
  by (simp add: length_presents)

lemma aggregate_values_loop_eq:
  "aggregate_values_loop vs c s = (c + of_nat (length vs), s + sum_list (map sint vs))"
  by (induction vs arbitrary: c s) (simp_all add: algebra_simps)

lemma iter_min_fold_mem: "foldl min_i64 x xs \<in> set (x # xs)"
proof (induction xs arbitrary: x)
  case (Cons y ys)
  have "min_i64 x y = x \<or> min_i64 x y = y" by (simp add: min_i64_def)
  with Cons [of "min_i64 x y"] show ?case by auto
qed simp

lemma iter_min_fold_least: "w \<in> set (x # xs) \<Longrightarrow> sint (foldl min_i64 x xs) \<le> sint w"
proof (induction xs arbitrary: x w)
  case (Cons y ys)
  have step: "sint (min_i64 x y) \<le> sint x" "sint (min_i64 x y) \<le> sint y"
    by (simp_all add: min_i64_def)
  have head: "sint (foldl min_i64 (min_i64 x y) ys) \<le> sint (min_i64 x y)"
    by (rule Cons.IH) simp
  from Cons.prems consider "w = x \<or> w = y" | "w \<in> set ys" by auto
  then show ?case
  proof cases
    case 1
    with head step show ?thesis by auto
  next
    case 2
    then show ?thesis using Cons.IH [of w "min_i64 x y"] by simp
  qed
qed simp

lemma iter_min_None_iff: "iter_min vs = None \<longleftrightarrow> vs = []"
  by (cases vs) auto

lemma iter_min_Some:
  "iter_min vs = Some m \<Longrightarrow> m \<in> set vs \<and> (\<forall>w\<in>set vs. sint m \<le> sint w)"
  using iter_min_fold_mem iter_min_fold_least by (cases vs) auto

lemma selection_ok_length:
  assumes "selection_ok n sel limits"
  shows "selection_row_count sel n \<le> n"
proof (cases sel)
  case AllRows
  then show ?thesis by simp
next
  case (Indices "is")
  with assms have "sorted_wrt (<) is" "set is \<subseteq> {..<n}" by (auto simp: selection_ok_def)
  then have "distinct is" by (simp add: strict_sorted_iff)
  moreover have "card (set is) \<le> n"
    using card_mono [OF finite_lessThan \<open>set is \<subseteq> {..<n}\<close>] by simp
  ultimately show ?thesis using Indices by (simp add: distinct_card)
qed

lemma of_nat_u64_zero_iff: "n \<le> usize_max \<Longrightarrow> (of_nat n :: u64) = 0 \<longleftrightarrow> n = 0"
proof -
  assume "n \<le> usize_max"
  then have "unat (of_nat n :: u64) = n" by simp
  then show ?thesis by (simp only: unat_eq_zero [symmetric])
qed

definition selected_sum :: "nullable_i64 list \<Rightarrow> row_selection \<Rightarrow> int" where
  "selected_sum vs sel = sum_list (map sint (presents (selected_values vs sel)))"

lemma aggregate_values_eq:
  assumes "length vs \<le> usize_max"
  shows "aggregate_values vs n =
    (let ps = presents vs; tot = sum_list (map sint ps) in
     if ps = [] then Inr \<lparr>aggs_count_star = n, aggs_count_column = 0, aggs_sum = None\<rparr>
     else case i64_of_int tot of
       None \<Rightarrow> Inl (SumOverflow tot)
     | Some s \<Rightarrow> Inr \<lparr>aggs_count_star = n, aggs_count_column = of_nat (length ps), aggs_sum = Some s\<rparr>)"
proof -
  have "length (presents vs) \<le> usize_max" using assms length_presents_le [of vs] by linarith
  then show ?thesis
    by (auto simp: aggregate_values_def aggregate_values_loop_eq Let_def of_nat_u64_zero_iff
        split: option.split)
qed

lemma aggregate_nullable_i64_selected:
  assumes "selection_ok (length vs) sel limits"
  shows "aggregate_nullable_i64 vs sel limits =
     aggregate_values (selected_values vs sel) (of_nat (selection_row_count sel (length vs)))"
  using assms
  by (simp add: aggregate_nullable_i64_def validate_aggregate_input_ok Let_def split: row_selection.split)

section \<open>Properties\<close>

text \<open>C35: On a valid selection the sum is the exact sum of the selected non-null values, absent
  when there is none and an overflow error when it does not fit an \<open>i64\<close>; the counts are the
  numbers of selected rows and of selected non-null rows.\<close>

theorem aggregate_nullable_i64_correct:
  assumes "length vs \<le> usize_max" and "selection_ok (length vs) sel limits"
  shows "aggregate_nullable_i64 vs sel limits =
    (let ps = presents (selected_values vs sel); star = of_nat (length (selected_values vs sel)) in
     if ps = [] then Inr \<lparr>aggs_count_star = star, aggs_count_column = 0, aggs_sum = None\<rparr>
     else if selected_sum vs sel < i64_min \<or> i64_max < selected_sum vs sel
     then Inl (SumOverflow (selected_sum vs sel))
     else Inr \<lparr>aggs_count_star = star, aggs_count_column = of_nat (length ps),
               aggs_sum = Some (word_of_int (selected_sum vs sel))\<rparr>)"
proof -
  have "length (selected_values vs sel) \<le> usize_max"
    using selection_ok_length [OF assms(2)] assms(1) by (simp add: length_selected_values)
  then show ?thesis
    by (auto simp: aggregate_nullable_i64_selected [OF assms(2)] aggregate_values_eq
        length_selected_values selected_sum_def Let_def i64_of_int_def)
qed

theorem aggregate_nullable_i64_correct_witness:
  "aggregate_nullable_i64 [Some 4, None, Some 9, Some 4] (Indices [0, 1, 3]) (aggregate_limits_new 4 3) =
     Inr \<lparr>aggs_count_star = 3, aggs_count_column = 2, aggs_sum = Some 8\<rparr>"
  by (subst aggregate_nullable_i64_correct)
    (simp_all add: usize_max_def selection_ok_def aggregate_limits_new_def Let_def selected_sum_def
      i64_min_def i64_max_def numeral_3_eq_3)

text \<open>No partial sum of the accumulation loop leaves the \<open>i128\<close> range, for any column a
  vector can hold: the exact integer sum is what the machine computes.\<close>

theorem sum_accumulator_fits_i128:
  assumes "length vs \<le> usize_max" and "ps @ qs = presents vs"
  shows "- (2 ^ 127) \<le> snd (aggregate_values_loop ps 0 0) \<and> snd (aggregate_values_loop ps 0 0) < 2 ^ 127"
proof -
  have bound: "- (2 ^ 63) * int (length ws) \<le> sum_list (map sint ws)
      \<and> sum_list (map sint ws) \<le> (2 ^ 63 - 1) * int (length ws)" for ws :: "i64 list"
  proof (induction ws)
    case (Cons w ws)
    then show ?case using sint_i64_bounds [of w] by (simp add: i64_min_def i64_max_def algebra_simps)
  qed simp
  have "length ps \<le> length vs"
    using assms(2) length_presents_le [of vs] by (metis length_append le_trans le_add1)
  then have "int (length ps) \<le> 2 ^ 64 - 1"
    using assms(1) by (simp add: usize_max_def)
  then show ?thesis using bound [of ps] by (simp add: aggregate_values_loop_eq)
qed

theorem sum_accumulator_fits_i128_witness:
  "snd (aggregate_values_loop [5] 0 0) < 2 ^ 127"
  using sum_accumulator_fits_i128 [of "[Some 5, None, Some (- 7)]" "[5]" "[- 7]"]
  by (simp add: usize_max_def)

lemma count_nullable_i64_selected:
  assumes "selection_ok (length vs) sel limits"
  shows "count_nullable_i64 vs sel limits =
    Inr \<lparr>counts_star = of_nat (length (selected_values vs sel)),
         counts_column = of_nat (length (filter (\<lambda>v. v \<noteq> None) (selected_values vs sel)))\<rparr>"
  using assms
  by (cases sel) (simp_all add: count_nullable_i64_def validate_aggregate_input_ok filter_map comp_def)

lemma min_nullable_i64_selected:
  assumes "selection_ok (length vs) sel limits"
  shows "min_nullable_i64 vs sel limits = Inr (iter_min (presents (selected_values vs sel)))"
  using assms by (cases sel) (simp_all add: min_nullable_i64_def validate_aggregate_input_ok)

text \<open>\<open>COUNT\<close> and \<open>MIN\<close> of a valid selection: the row counts, and a least selected
  non-null value, absent exactly when every selected value is null.\<close>

theorem count_min_nullable_i64_correct:
  assumes "selection_ok (length vs) sel limits"
  shows "count_nullable_i64 vs sel limits =
           Inr \<lparr>counts_star = of_nat (length (selected_values vs sel)),
                counts_column = of_nat (length (presents (selected_values vs sel)))\<rparr>
       \<and> (\<exists>m. min_nullable_i64 vs sel limits = Inr m
            \<and> (m = None \<longleftrightarrow> (\<forall>v\<in>set (selected_values vs sel). v = None))
            \<and> (\<forall>v. m = Some v \<longrightarrow> Some v \<in> set (selected_values vs sel)
                 \<and> (\<forall>w. Some w \<in> set (selected_values vs sel) \<longrightarrow> sint v \<le> sint w)))"
proof -
  let ?ps = "presents (selected_values vs sel)"
  note count_nullable_i64_selected [OF assms] min_nullable_i64_selected [OF assms]
  moreover have "?ps = [] \<longleftrightarrow> (\<forall>v\<in>set (selected_values vs sel). v = None)"
    using length_presents [of "selected_values vs sel"] by (auto simp: filter_empty_conv)
  ultimately show ?thesis
    by (auto simp: length_presents iter_min_None_iff dest!: iter_min_Some simp: set_presents)
qed

theorem count_min_nullable_i64_correct_witness:
  "count_nullable_i64 [Some 4, None, Some (- 2)] AllRows (aggregate_limits_new 3 3) =
     Inr \<lparr>counts_star = 3, counts_column = 2\<rparr>"
  using count_min_nullable_i64_correct [of "[Some 4, None, Some (- 2)]" AllRows "aggregate_limits_new 3 3"]
  by (simp add: selection_ok_def aggregate_limits_new_def numeral_3_eq_3)

end
