(* ===== verification/Join.thy ===== *)
theory Join
  imports Prelude
begin

text \<open>
  Bounded equi-joins of two nullable columns (\<^verbatim>\<open>src/join.rs\<close>): a hash index of the right
  column, a pass that counts the output against its bound, and the pass that emits the pairs. Both
  joins are shown equal to a nested loop over the two columns.
\<close>

section \<open>Types\<close>

record join_limits =
  join_max_input_rows :: usize
  join_max_output_pairs :: usize

definition join_limits_new :: "usize \<Rightarrow> usize \<Rightarrow> join_limits" where
  "join_limits_new i p = \<lparr>join_max_input_rows = i, join_max_output_pairs = p\<rparr>"

record join_row_pair =
  left_row :: usize
  right_row :: usize

definition join_row_pair_new :: "usize \<Rightarrow> usize \<Rightarrow> join_row_pair" where
  "join_row_pair_new l r = \<lparr>left_row = l, right_row = r\<rparr>"

definition into_pair :: "join_row_pair \<Rightarrow> usize \<times> usize" where
  "into_pair p = (left_row p, right_row p)"

record left_outer_join_row_pair =
  outer_left_row :: usize
  outer_right_row :: "usize option"

definition left_outer_join_row_pair_new :: "usize \<Rightarrow> usize option \<Rightarrow> left_outer_join_row_pair" where
  "left_outer_join_row_pair_new l r = \<lparr>outer_left_row = l, outer_right_row = r\<rparr>"

definition outer_into_pair :: "left_outer_join_row_pair \<Rightarrow> usize \<times> usize option" where
  "outer_into_pair p = (outer_left_row p, outer_right_row p)"

datatype join_error =
  LeftInputLimitExceeded usize usize
| RightInputLimitExceeded usize usize
| OutputLimitExceeded usize usize

section \<open>The hash index of the right column\<close>

type_synonym right_index = "i64 \<rightharpoonup> usize list"

text \<open>\<open>entry(value).or_default().push(row)\<close>\<close>

definition entry_push :: "i64 \<Rightarrow> usize \<Rightarrow> right_index \<Rightarrow> right_index" where
  "entry_push v row m = m(v \<mapsto> (case m v of None \<Rightarrow> [] | Some rows \<Rightarrow> rows) @ [row])"

fun index_right_rows_loop :: "usize \<Rightarrow> nullable_i64 list \<Rightarrow> right_index \<Rightarrow> right_index" where
  "index_right_rows_loop row [] m = m"
| "index_right_rows_loop row (None # vs) m = index_right_rows_loop (Suc row) vs m"
| "index_right_rows_loop row (Some v # vs) m =
     index_right_rows_loop (Suc row) vs (entry_push v row m)"

definition index_right_rows :: "nullable_i64 list \<Rightarrow> right_index" where
  "index_right_rows right = index_right_rows_loop 0 right Map.empty"

text \<open>\<open>value.and_then(|value| index.get(&value))\<close>\<close>

definition lookup_rows :: "right_index \<Rightarrow> nullable_i64 \<Rightarrow> usize list option" where
  "lookup_rows m v = Option.bind v m"

section \<open>Bounds\<close>

definition validate_input_limits :: "usize \<Rightarrow> usize \<Rightarrow> usize \<Rightarrow> join_error + unit" where
  "validate_input_limits left_rows right_rows max_input_rows =
     (if left_rows > max_input_rows then Inl (LeftInputLimitExceeded left_rows max_input_rows)
      else if right_rows > max_input_rows
      then Inl (RightInputLimitExceeded right_rows max_input_rows)
      else Inr ())"

fun count_output_pairs_loop ::
  "nullable_i64 list \<Rightarrow> right_index \<Rightarrow> usize \<Rightarrow> usize \<Rightarrow> join_error + usize" where
  "count_output_pairs_loop [] m max_pairs n = Inr n"
| "count_output_pairs_loop (None # vs) m max_pairs n = count_output_pairs_loop vs m max_pairs n"
| "count_output_pairs_loop (Some v # vs) m max_pairs n =
     (let matching_rows = (case m v of None \<Rightarrow> 0 | Some rows \<Rightarrow> length rows)
      in if matching_rows > max_pairs - n
         then Inl (OutputLimitExceeded (saturating_add max_pairs 1) max_pairs)
         else count_output_pairs_loop vs m max_pairs (n + matching_rows))"

definition count_output_pairs :: "nullable_i64 list \<Rightarrow> right_index \<Rightarrow> usize \<Rightarrow> join_error + usize" where
  "count_output_pairs left m max_pairs = count_output_pairs_loop left m max_pairs 0"

fun count_left_outer_loop ::
  "nullable_i64 list \<Rightarrow> right_index \<Rightarrow> usize \<Rightarrow> usize \<Rightarrow> join_error + usize" where
  "count_left_outer_loop [] m max_pairs n = Inr n"
| "count_left_outer_loop (v # vs) m max_pairs n =
     (let matching_rows = (case lookup_rows m v of None \<Rightarrow> 1 | Some rows \<Rightarrow> length rows)
      in if matching_rows > max_pairs - n
         then Inl (OutputLimitExceeded (saturating_add max_pairs 1) max_pairs)
         else count_left_outer_loop vs m max_pairs (n + matching_rows))"

definition count_left_outer_output_pairs ::
  "nullable_i64 list \<Rightarrow> right_index \<Rightarrow> usize \<Rightarrow> join_error + usize" where
  "count_left_outer_output_pairs left m max_pairs = count_left_outer_loop left m max_pairs 0"

section \<open>The joins\<close>

fun inner_join_rows :: "right_index \<Rightarrow> usize \<Rightarrow> nullable_i64 list \<Rightarrow> join_row_pair list" where
  "inner_join_rows m row [] = []"
| "inner_join_rows m row (v # vs) =
     (case lookup_rows m v of
        None \<Rightarrow> inner_join_rows m (Suc row) vs
      | Some rows \<Rightarrow> map (join_row_pair_new row) rows @ inner_join_rows m (Suc row) vs)"

definition inner_equi_join_nullable_i64 ::
  "nullable_i64 list \<Rightarrow> nullable_i64 list \<Rightarrow> join_limits \<Rightarrow> join_error + join_row_pair list" where
  "inner_equi_join_nullable_i64 left right limits =
     res_bind (validate_input_limits (length left) (length right) (join_max_input_rows limits)) (\<lambda>_.
       let right_rows_by_value = index_right_rows right
       in res_bind (count_output_pairs left right_rows_by_value (join_max_output_pairs limits)) (\<lambda>_.
            Inr (inner_join_rows right_rows_by_value 0 left)))"

fun left_outer_join_rows ::
  "right_index \<Rightarrow> usize \<Rightarrow> nullable_i64 list \<Rightarrow> left_outer_join_row_pair list" where
  "left_outer_join_rows m row [] = []"
| "left_outer_join_rows m row (v # vs) =
     (case lookup_rows m v of
        None \<Rightarrow> left_outer_join_row_pair_new row None # left_outer_join_rows m (Suc row) vs
      | Some rows \<Rightarrow>
          map (\<lambda>r. left_outer_join_row_pair_new row (Some r)) rows @
          left_outer_join_rows m (Suc row) vs)"

definition left_outer_equi_join_nullable_i64 ::
  "nullable_i64 list \<Rightarrow> nullable_i64 list \<Rightarrow> join_limits \<Rightarrow>
     join_error + left_outer_join_row_pair list" where
  "left_outer_equi_join_nullable_i64 left right limits =
     res_bind (validate_input_limits (length left) (length right) (join_max_input_rows limits)) (\<lambda>_.
       let right_rows_by_value = index_right_rows right
       in res_bind (count_left_outer_output_pairs left right_rows_by_value
            (join_max_output_pairs limits)) (\<lambda>_.
            Inr (left_outer_join_rows right_rows_by_value 0 left)))"

section \<open>Specification: a nested loop\<close>

text \<open>The right rows, ascending, that equal a value; \<open>NULL\<close> equals nothing.\<close>

definition matching_rows :: "nullable_i64 list \<Rightarrow> nullable_i64 \<Rightarrow> usize list" where
  "matching_rows right v = filter (\<lambda>j. v \<noteq> None \<and> right ! j = v) [0..<length right]"

definition nested_loop_join :: "nullable_i64 list \<Rightarrow> nullable_i64 list \<Rightarrow> (usize \<times> usize) list" where
  "nested_loop_join left right =
     concat (map (\<lambda>i. map (Pair i) (matching_rows right (left ! i))) [0..<length left])"

definition nested_loop_outer_join ::
  "nullable_i64 list \<Rightarrow> nullable_i64 list \<Rightarrow> (usize \<times> usize option) list" where
  "nested_loop_outer_join left right =
     concat (map (\<lambda>i. case matching_rows right (left ! i) of
         [] \<Rightarrow> [(i, None)]
       | js \<Rightarrow> map (\<lambda>j. (i, Some j)) js) [0..<length left])"

section \<open>The index holds the matching rows\<close>

definition rows_at :: "usize \<Rightarrow> nullable_i64 list \<Rightarrow> i64 \<Rightarrow> usize list" where
  "rows_at k vs v = map fst (filter (\<lambda>(j, w). w = Some v) (List.enumerate k vs))"

lemma rows_at_simps [simp]:
  "rows_at k [] v = []"
  "rows_at k (None # vs) v = rows_at (Suc k) vs v"
  "rows_at k (Some w # vs) v = (if w = v then k # rows_at (Suc k) vs v else rows_at (Suc k) vs v)"
  by (simp_all add: rows_at_def)

lemma entry_push_apply:
  "entry_push w row m v =
     (if w = v then Some ((case m v of None \<Rightarrow> [] | Some rows \<Rightarrow> rows) @ [row]) else m v)"
  by (simp add: entry_push_def)

lemma index_right_rows_loop_eq:
  "index_right_rows_loop k vs m v =
     (if rows_at k vs v = [] then m v
      else Some ((case m v of None \<Rightarrow> [] | Some rows \<Rightarrow> rows) @ rows_at k vs v))"
proof (induction k vs m rule: index_right_rows_loop.induct)
  case (3 row w vs m)
  show ?case
    unfolding index_right_rows_loop.simps "3.IH" entry_push_apply [of w row m v]
    by (auto split: option.splits)
qed simp_all

lemma rows_at_matching: "rows_at 0 vs v = matching_rows vs (Some v)"
proof -
  have "List.enumerate 0 vs = map (\<lambda>j. (j, vs ! j)) [0..<length vs]"
    by (rule nth_equalityI) (simp_all add: nth_enumerate_eq)
  then show ?thesis by (simp add: rows_at_def matching_rows_def filter_map comp_def)
qed

lemma lookup_index_right_rows:
  "lookup_rows (index_right_rows right) v =
     (if matching_rows right v = [] then None else Some (matching_rows right v))"
  by (cases v)
    (simp_all add: lookup_rows_def index_right_rows_def index_right_rows_loop_eq rows_at_matching
      matching_rows_def)

section \<open>Counting against the bound\<close>

locale pair_counter =
  fixes count :: "'v list \<Rightarrow> nat \<Rightarrow> nat \<Rightarrow> join_error + nat"
    and cost :: "'v \<Rightarrow> nat"
  assumes count_Nil: "count [] m n = Inr n"
    and count_Cons: "count (v # vs) m n =
      (if cost v > m - n then Inl (OutputLimitExceeded (saturating_add m 1) m)
       else count vs m (n + cost v))"
begin

lemma count_eq:
  assumes "n \<le> m"
  shows "count vs m n =
    (if n + sum_list (map cost vs) \<le> m then Inr (n + sum_list (map cost vs))
     else Inl (OutputLimitExceeded (saturating_add m 1) m))"
  using assms
proof (induction vs arbitrary: n)
  case (Cons v vs)
  show ?case
  proof (cases "cost v > m - n")
    case False
    then have "n + cost v \<le> m" using Cons.prems by simp
    from Cons.IH [OF this] False show ?thesis by (simp add: count_Cons add.assoc)
  qed (use Cons.prems in \<open>simp add: count_Cons\<close>)
qed (simp add: count_Nil)

end

definition inner_cost :: "right_index \<Rightarrow> nullable_i64 \<Rightarrow> nat" where
  "inner_cost m v = (case lookup_rows m v of None \<Rightarrow> 0 | Some rows \<Rightarrow> length rows)"

definition outer_cost :: "right_index \<Rightarrow> nullable_i64 \<Rightarrow> nat" where
  "outer_cost m v = (case lookup_rows m v of None \<Rightarrow> 1 | Some rows \<Rightarrow> length rows)"

interpretation inner_counter: pair_counter "\<lambda>vs. count_output_pairs_loop vs m" "inner_cost m" for m
proof
  show "count_output_pairs_loop (v # vs) m k n =
      (if inner_cost m v > k - n then Inl (OutputLimitExceeded (saturating_add k 1) k)
       else count_output_pairs_loop vs m k (n + inner_cost m v))" for v vs k n
    by (cases v) (auto simp: inner_cost_def lookup_rows_def)
qed simp

interpretation outer_counter: pair_counter "\<lambda>vs. count_left_outer_loop vs m" "outer_cost m" for m
  by unfold_locales (simp_all add: outer_cost_def)

section \<open>Correctness\<close>

lemma length_nested_loop_join:
  "sum_list (map (inner_cost (index_right_rows right)) left) = length (nested_loop_join left right)"
proof -
  have "sum_list (map (inner_cost (index_right_rows right)) (map ((!) left) [0..<length left])) =
      length (nested_loop_join left right)"
    by (simp add: nested_loop_join_def length_concat comp_def inner_cost_def lookup_index_right_rows
        split: if_splits cong: map_cong)
      (rule arg_cong [where f = sum_list], auto)
  then show ?thesis by (simp add: map_nth)
qed

lemma length_nested_loop_outer_join:
  "sum_list (map (outer_cost (index_right_rows right)) left) = length (nested_loop_outer_join left right)"
proof -
  have "sum_list (map (outer_cost (index_right_rows right)) (map ((!) left) [0..<length left])) =
      length (nested_loop_outer_join left right)"
    by (simp add: nested_loop_outer_join_def length_concat comp_def outer_cost_def
        lookup_index_right_rows)
      (rule arg_cong [where f = sum_list], auto split: list.split)
  then show ?thesis by (simp add: map_nth)
qed

lemma into_pair_new [simp]: "into_pair (join_row_pair_new l r) = (l, r)"
  by (simp add: into_pair_def join_row_pair_new_def)

lemma outer_into_pair_new [simp]: "outer_into_pair (left_outer_join_row_pair_new l r) = (l, r)"
  by (simp add: outer_into_pair_def left_outer_join_row_pair_new_def)

lemma upt_shift_concat:
  "concat (map f [k..<k + length (v # vs)]) = f k @ concat (map f [Suc k..<Suc k + length vs])"
  by (simp add: upt_rec)

lemma inner_join_rows_eq:
  "map into_pair (inner_join_rows (index_right_rows right) k left) =
     concat (map (\<lambda>i. map (Pair i) (matching_rows right (left ! (i - k)))) [k..<k + length left])"
proof (induction left arbitrary: k)
  case (Cons v vs)
  have "map (\<lambda>i. map (Pair i) (matching_rows right ((v # vs) ! (i - k)))) [Suc k..<Suc k + length vs] =
      map (\<lambda>i. map (Pair i) (matching_rows right (vs ! (i - Suc k)))) [Suc k..<Suc k + length vs]"
    by (rule map_cong) (auto simp: nth_Cons' Suc_le_eq)
  with Cons.IH [of "Suc k"] show ?case
    by (simp only: upt_shift_concat) (simp add: lookup_index_right_rows comp_def)
qed simp

lemma left_outer_join_rows_eq:
  "map outer_into_pair (left_outer_join_rows (index_right_rows right) k left) =
     concat (map (\<lambda>i. case matching_rows right (left ! (i - k)) of
         [] \<Rightarrow> [(i, None)] | js \<Rightarrow> map (\<lambda>j. (i, Some j)) js) [k..<k + length left])"
proof (induction left arbitrary: k)
  case (Cons v vs)
  let ?f = "\<lambda>i l. case matching_rows right l of [] \<Rightarrow> [(i, None)] | js \<Rightarrow> map (\<lambda>j. (i, Some j)) js"
  have "map (\<lambda>i. ?f i ((v # vs) ! (i - k))) [Suc k..<Suc k + length vs] =
      map (\<lambda>i. ?f i (vs ! (i - Suc k))) [Suc k..<Suc k + length vs]"
    by (rule map_cong) (auto simp: nth_Cons' Suc_le_eq)
  with Cons.IH [of "Suc k"] show ?case
    by (simp only: upt_shift_concat)
      (simp add: lookup_index_right_rows comp_def split: list.split)
qed simp

lemma set_nested_loop_join:
  "(i, j) \<in> set (nested_loop_join left right) \<longleftrightarrow>
     i < length left \<and> j < length right \<and> left ! i \<noteq> None \<and> right ! j = left ! i"
  by (auto simp: nested_loop_join_def matching_rows_def image_iff)

text \<open>The emitting pass runs only when the nested loop is within the output bound.\<close>

lemma inner_equi_join_eq:
  "inner_equi_join_nullable_i64 left right limits =
     (if length left > join_max_input_rows limits
      then Inl (LeftInputLimitExceeded (length left) (join_max_input_rows limits))
      else if length right > join_max_input_rows limits
      then Inl (RightInputLimitExceeded (length right) (join_max_input_rows limits))
      else if length (nested_loop_join left right) > join_max_output_pairs limits
      then Inl (OutputLimitExceeded (saturating_add (join_max_output_pairs limits) 1)
                  (join_max_output_pairs limits))
      else Inr (inner_join_rows (index_right_rows right) 0 left))"
  by (simp add: inner_equi_join_nullable_i64_def validate_input_limits_def count_output_pairs_def
      inner_counter.count_eq length_nested_loop_join Let_def)

lemma left_outer_equi_join_eq:
  "left_outer_equi_join_nullable_i64 left right limits =
     (if length left > join_max_input_rows limits
      then Inl (LeftInputLimitExceeded (length left) (join_max_input_rows limits))
      else if length right > join_max_input_rows limits
      then Inl (RightInputLimitExceeded (length right) (join_max_input_rows limits))
      else if length (nested_loop_outer_join left right) > join_max_output_pairs limits
      then Inl (OutputLimitExceeded (saturating_add (join_max_output_pairs limits) 1)
                  (join_max_output_pairs limits))
      else Inr (left_outer_join_rows (index_right_rows right) 0 left))"
  by (simp add: left_outer_equi_join_nullable_i64_def validate_input_limits_def
      count_left_outer_output_pairs_def outer_counter.count_eq length_nested_loop_outer_join Let_def)

lemma inner_join_is_nested_loop:
  "res_bind (inner_equi_join_nullable_i64 left right limits) (\<lambda>pairs. Inr (map into_pair pairs)) =
     (if length left > join_max_input_rows limits
      then Inl (LeftInputLimitExceeded (length left) (join_max_input_rows limits))
      else if length right > join_max_input_rows limits
      then Inl (RightInputLimitExceeded (length right) (join_max_input_rows limits))
      else if length (nested_loop_join left right) > join_max_output_pairs limits
      then Inl (OutputLimitExceeded (saturating_add (join_max_output_pairs limits) 1)
                  (join_max_output_pairs limits))
      else Inr (nested_loop_join left right))"
  by (simp add: inner_equi_join_eq inner_join_rows_eq nested_loop_join_def)

lemma left_outer_join_is_nested_loop:
  "res_bind (left_outer_equi_join_nullable_i64 left right limits)
       (\<lambda>rows. Inr (map outer_into_pair rows)) =
     (if length left > join_max_input_rows limits
      then Inl (LeftInputLimitExceeded (length left) (join_max_input_rows limits))
      else if length right > join_max_input_rows limits
      then Inl (RightInputLimitExceeded (length right) (join_max_input_rows limits))
      else if length (nested_loop_outer_join left right) > join_max_output_pairs limits
      then Inl (OutputLimitExceeded (saturating_add (join_max_output_pairs limits) 1)
                  (join_max_output_pairs limits))
      else Inr (nested_loop_outer_join left right))"
  by (simp add: left_outer_equi_join_eq left_outer_join_rows_eq nested_loop_outer_join_def)

text \<open>C34: Within their bounds the joins are nested loops over both columns. The inner join pairs every
  left row with every right row of the same value, in left-row and then right-row order, a \<open>NULL\<close>
  matching nothing; the left outer join also keeps each left row that has no match, once and with no
  right row. They fail exactly when an input or the whole output exceeds its bound, and then return
  nothing.\<close>

theorem equi_joins_are_nested_loops:
  "res_bind (inner_equi_join_nullable_i64 left right limits) (\<lambda>pairs. Inr (map into_pair pairs)) =
     (if length left > join_max_input_rows limits
      then Inl (LeftInputLimitExceeded (length left) (join_max_input_rows limits))
      else if length right > join_max_input_rows limits
      then Inl (RightInputLimitExceeded (length right) (join_max_input_rows limits))
      else if length (nested_loop_join left right) > join_max_output_pairs limits
      then Inl (OutputLimitExceeded (saturating_add (join_max_output_pairs limits) 1)
                  (join_max_output_pairs limits))
      else Inr (nested_loop_join left right)) \<and>
   res_bind (left_outer_equi_join_nullable_i64 left right limits)
       (\<lambda>rows. Inr (map outer_into_pair rows)) =
     (if length left > join_max_input_rows limits
      then Inl (LeftInputLimitExceeded (length left) (join_max_input_rows limits))
      else if length right > join_max_input_rows limits
      then Inl (RightInputLimitExceeded (length right) (join_max_input_rows limits))
      else if length (nested_loop_outer_join left right) > join_max_output_pairs limits
      then Inl (OutputLimitExceeded (saturating_add (join_max_output_pairs limits) 1)
                  (join_max_output_pairs limits))
      else Inr (nested_loop_outer_join left right))"
  by (simp add: inner_join_is_nested_loop left_outer_join_is_nested_loop)

end
