(* ===== verification/Distinct_Group.thy ===== *)
theory Distinct_Group
  imports Prelude
begin

text \<open>
  \<open>SELECT DISTINCT\<close> and grouped counts over a nullable column
  (\<^verbatim>\<open>src/distinct.rs\<close> and \<^verbatim>\<open>src/grouping.rs\<close>). Both run one loop that
  looks a key up in an ordered index and admits a bounded number of new keys; the locale
  \<open>bounded_index\<close> states what they need of the index and proves the loop once.
\<close>

section \<open>The ordered index and its loop\<close>

locale bounded_index =
  fixes has :: "'k \<Rightarrow> 's \<Rightarrow> bool"
    and add :: "'k \<Rightarrow> 's \<Rightarrow> 's"
    and touch :: "'k \<Rightarrow> 's \<Rightarrow> 's"
    and size :: "'s \<Rightarrow> nat"
    and keys :: "'s \<Rightarrow> 'k list"
    and rank :: "'k \<Rightarrow> 'o::linorder"
  assumes rank_inj: "inj rank"
    and has_iff: "has k s \<longleftrightarrow> k \<in> set (keys s)"
    and size_keys: "size s = length (keys s)"
    and keys_add: "\<not> has k s \<Longrightarrow> keys (add k s) = insort_key rank k (keys s)"
    and keys_touch: "has k s \<Longrightarrow> keys (touch k s) = keys s"
begin

definition step :: "'k \<Rightarrow> 's \<Rightarrow> 's" where
  "step k s = (if has k s then touch k s else add k s)"

fun loop :: "nat \<Rightarrow> 'e \<Rightarrow> 'k list \<Rightarrow> 's \<Rightarrow> 'e + 's" where
  "loop max_keys err [] s = Inr s"
| "loop max_keys err (k # ks) s =
     (if has k s then loop max_keys err ks (touch k s)
      else if size s = max_keys then Inl err
      else loop max_keys err ks (add k s))"

definition ordered :: "'k list \<Rightarrow> bool" where
  "ordered ks \<longleftrightarrow> sorted_wrt (\<lambda>a b. rank a < rank b) ks"

lemma ordered_iff: "ordered ks \<longleftrightarrow> sorted (map rank ks) \<and> distinct ks"
proof -
  have "ordered ks \<longleftrightarrow> sorted_wrt (<) (map rank ks)"
    by (simp add: ordered_def sorted_wrt_map)
  also have "\<dots> \<longleftrightarrow> sorted (map rank ks) \<and> distinct (map rank ks)"
    by (rule strict_sorted_iff)
  also have "distinct (map rank ks) \<longleftrightarrow> distinct ks"
    using rank_inj by (auto simp: distinct_map intro: inj_on_subset)
  finally show ?thesis .
qed

lemma set_keys_step: "set (keys (step k s)) = insert k (set (keys s))"
  by (auto simp: step_def keys_add keys_touch has_iff set_insort_key)

lemma ordered_step: "ordered (keys s) \<Longrightarrow> ordered (keys (step k s))"
  by (auto simp: step_def keys_add keys_touch has_iff ordered_iff sorted_insort_key distinct_insort)

lemma set_keys_fold: "set (keys (fold step ks s)) = set ks \<union> set (keys s)"
  by (induction ks arbitrary: s) (auto simp: set_keys_step)

lemma ordered_fold: "ordered (keys s) \<Longrightarrow> ordered (keys (fold step ks s))"
  by (induction ks arbitrary: s) (auto simp: ordered_step)

lemma touch_facts:
  assumes "has k s"
  shows "keys (touch k s) = keys s" and "size (touch k s) = size s" and "k \<in> set (keys s)"
  using assms by (simp_all add: size_keys keys_touch has_iff)

lemma add_facts:
  assumes "\<not> has k s"
  shows "set (keys (add k s)) = insert k (set (keys s))" and "size (add k s) = Suc (size s)"
    and "distinct (keys s) \<Longrightarrow> distinct (keys (add k s))" and "k \<notin> set (keys s)"
  using assms by (simp_all add: size_keys keys_add has_iff set_insort_key distinct_insort)

lemma step_old: "has k s \<Longrightarrow> step k s = touch k s"
  by (simp add: step_def)

lemma step_new: "\<not> has k s \<Longrightarrow> step k s = add k s"
  by (simp add: step_def)

lemma loop_eq:
  assumes "distinct (keys s)" and "size s \<le> max_keys"
  shows "loop max_keys err ks s =
     (if card (set ks \<union> set (keys s)) \<le> max_keys then Inr (fold step ks s) else Inl err)"
  using assms
proof (induction ks arbitrary: s)
  case Nil
  then have "card (set (keys s)) \<le> max_keys" by (simp add: distinct_card size_keys)
  then show ?case by simp
next
  case (Cons k ks)
  consider (old) "has k s" | (full) "\<not> has k s" "size s = max_keys" | (new) "\<not> has k s" "size s < max_keys"
    using Cons.prems(2) by linarith
  then show ?case
  proof cases
    case old
    with Cons.prems Cons.IH [of "touch k s"] show ?thesis
      by (simp add: step_old touch_facts insert_absorb)
  next
    case full
    have "Suc max_keys = card (insert k (set (keys s)))"
      using full Cons.prems(1) by (simp add: add_facts(4) distinct_card size_keys [symmetric])
    also have "\<dots> \<le> card (insert k (set ks \<union> set (keys s)))" by (intro card_mono) auto
    finally show ?thesis using full by simp
  next
    case new
    with Cons.prems Cons.IH [of "add k s"] show ?thesis
      by (simp add: step_new add_facts)
  qed
qed

lemma loop_from_empty:
  assumes "keys s = []"
  shows "loop max_keys err ks s =
     (if card (set ks) \<le> max_keys then Inr (fold step ks s) else Inl err)"
proof -
  have "size s = 0" using assms by (simp add: size_keys)
  with assms loop_eq [of s max_keys err ks] show ?thesis by simp
qed

end

section \<open>Distinct values\<close>

record distinct_limits =
  distinct_max_input_rows :: usize
  distinct_max_values :: usize

definition distinct_limits_new :: "usize \<Rightarrow> usize \<Rightarrow> distinct_limits" where
  "distinct_limits_new i d = \<lparr>distinct_max_input_rows = i, distinct_max_values = d\<rparr>"

datatype distinct_error =
  DistinctInputLimitExceeded usize usize
| DistinctValueLimitExceeded usize usize

text \<open>\<open>BTreeSet<Option<i64>>\<close> as the strictly ordered list of its elements.\<close>

type_synonym btree_set = "nullable_i64 list"

definition btree_set_contains :: "nullable_i64 \<Rightarrow> btree_set \<Rightarrow> bool" where
  "btree_set_contains v s \<longleftrightarrow> v \<in> set s"

definition btree_set_insert :: "nullable_i64 \<Rightarrow> btree_set \<Rightarrow> btree_set" where
  "btree_set_insert v s = insort_insert_key nkey v s"

fun distinct_loop :: "usize \<Rightarrow> nullable_i64 list \<Rightarrow> btree_set \<Rightarrow> distinct_error + btree_set" where
  "distinct_loop max_values [] s = Inr s"
| "distinct_loop max_values (v # vs) s =
     (if btree_set_contains v s then distinct_loop max_values vs s
      else if length s = max_values
      then Inl (DistinctValueLimitExceeded (saturating_add (length s) 1) max_values)
      else distinct_loop max_values vs (btree_set_insert v s))"

definition distinct_nullable_i64 ::
  "nullable_i64 list \<Rightarrow> distinct_limits \<Rightarrow> distinct_error + nullable_i64 list" where
  "distinct_nullable_i64 values limits =
     (if length values > distinct_max_input_rows limits
      then Inl (DistinctInputLimitExceeded (length values) (distinct_max_input_rows limits))
      else distinct_loop (distinct_max_values limits) values [])"

interpretation distinct_index:
  bounded_index btree_set_contains btree_set_insert "\<lambda>_ s. s" length "\<lambda>s. s" nkey
  by unfold_locales
    (auto simp: btree_set_contains_def btree_set_insert_def insort_insert_key_def nkey_inj)

lemma distinct_loop_eq:
  "distinct_loop m vs s = distinct_index.loop m (DistinctValueLimitExceeded (saturating_add m 1) m) vs s"
  by (induction m vs s rule: distinct_loop.induct) auto

text \<open>The order of the result: \<open>NULL\<close> first, then ascending signed integers.\<close>

definition null_first_ascending :: "nullable_i64 list \<Rightarrow> bool" where
  "null_first_ascending vs \<longleftrightarrow> sorted_wrt (\<lambda>a b. nkey a < nkey b) vs"

lemma null_first_ascending_iff:
  "null_first_ascending vs \<longleftrightarrow>
     sorted_wrt (\<lambda>a b. case (a, b) of
       (None, Some _) \<Rightarrow> True | (Some v, Some w) \<Rightarrow> sint v < sint w | _ \<Rightarrow> False) vs"
proof -
  have "(nkey a < nkey b) = (case (a, b) of
       (None, Some _) \<Rightarrow> True | (Some v, Some w) \<Rightarrow> sint v < sint w | _ \<Rightarrow> False)" for a b
    by (simp add: nkey_def split: option.split)
  then show ?thesis by (simp add: null_first_ascending_def)
qed

lemma distinct_nullable_i64_correct:
  "case distinct_nullable_i64 vs limits of
     Inl e \<Rightarrow>
       length vs > distinct_max_input_rows limits \<and>
         e = DistinctInputLimitExceeded (length vs) (distinct_max_input_rows limits) \<or>
       length vs \<le> distinct_max_input_rows limits \<and> card (set vs) > distinct_max_values limits \<and>
         e = DistinctValueLimitExceeded (saturating_add (distinct_max_values limits) 1)
               (distinct_max_values limits)
   | Inr r \<Rightarrow>
       length vs \<le> distinct_max_input_rows limits \<and> card (set vs) \<le> distinct_max_values limits \<and>
       set r = set vs \<and> distinct r \<and> null_first_ascending r"
proof -
  let ?r = "fold distinct_index.step vs []"
  have "distinct_index.ordered ?r"
    using distinct_index.ordered_fold [of "[]" vs] by (simp add: distinct_index.ordered_def)
  moreover from this have "distinct ?r" by (simp add: distinct_index.ordered_iff)
  moreover have "set ?r = set vs" using distinct_index.set_keys_fold [of vs "[]"] by simp
  ultimately show ?thesis
    by (auto simp: distinct_nullable_i64_def distinct_loop_eq distinct_index.loop_from_empty
        distinct_index.ordered_def null_first_ascending_def)
qed

section \<open>Grouped counts\<close>

record grouped_count_limits =
  group_max_input_rows :: usize
  group_max_groups :: usize

definition grouped_count_limits_new :: "usize \<Rightarrow> usize \<Rightarrow> grouped_count_limits" where
  "grouped_count_limits_new i g = \<lparr>group_max_input_rows = i, group_max_groups = g\<rparr>"

datatype grouped_count_error =
  GroupInputLimitExceeded usize usize
| DistinctGroupLimitExceeded usize usize

text \<open>\<open>BTreeMap<Option<i64>, u64>\<close> as the list of its entries in key order.\<close>

type_synonym btree_map = "(nullable_i64 \<times> u64) list"

definition btree_map_contains :: "nullable_i64 \<Rightarrow> btree_map \<Rightarrow> bool" where
  "btree_map_contains k m \<longleftrightarrow> k \<in> set (map fst m)"

definition btree_map_increment :: "nullable_i64 \<Rightarrow> btree_map \<Rightarrow> btree_map" where
  "btree_map_increment k m = map (\<lambda>(k', c). if k' = k then (k', c + 1) else (k', c)) m"

definition btree_map_insert :: "nullable_i64 \<Rightarrow> u64 \<Rightarrow> btree_map \<Rightarrow> btree_map" where
  "btree_map_insert k c m = insort_key (nkey \<circ> fst) (k, c) (filter (\<lambda>e. fst e \<noteq> k) m)"

fun grouped_count_loop :: "usize \<Rightarrow> nullable_i64 list \<Rightarrow> btree_map \<Rightarrow> grouped_count_error + btree_map" where
  "grouped_count_loop max_groups [] m = Inr m"
| "grouped_count_loop max_groups (k # ks) m =
     (if btree_map_contains k m then grouped_count_loop max_groups ks (btree_map_increment k m)
      else if length m = max_groups
      then Inl (DistinctGroupLimitExceeded (saturating_add (length m) 1) max_groups)
      else grouped_count_loop max_groups ks (btree_map_insert k 1 m))"

definition grouped_count_nullable_i64 ::
  "nullable_i64 list \<Rightarrow> grouped_count_limits \<Rightarrow> grouped_count_error + (nullable_i64 \<times> u64) list" where
  "grouped_count_nullable_i64 values limits =
     (if length values > group_max_input_rows limits
      then Inl (GroupInputLimitExceeded (length values) (group_max_input_rows limits))
      else grouped_count_loop (group_max_groups limits) values [])"

lemma filter_absent: "k \<notin> set (map fst m) \<Longrightarrow> filter (\<lambda>e. fst e \<noteq> k) m = m"
  by (induction m) auto

lemma map_fst_increment: "map fst (btree_map_increment k m) = map fst m"
  by (auto simp: btree_map_increment_def)

lemma map_fst_insort: "map fst (insort_key (nkey \<circ> fst) (k, c) m) = insort_key nkey k (map fst m)"
  by (induction m) auto

lemma map_fst_map_insert:
  "k \<notin> set (map fst m) \<Longrightarrow> map fst (btree_map_insert k c m) = insort_key nkey k (map fst m)"
  unfolding btree_map_insert_def map_fst_insort by (subst filter_absent) auto

interpretation group_index:
  bounded_index btree_map_contains "\<lambda>k. btree_map_insert k 1" btree_map_increment length "map fst" nkey
proof (unfold_locales, goal_cases)
  case (4 k s)
  then show ?case unfolding btree_map_contains_def by (rule map_fst_map_insert)
qed (simp_all add: btree_map_contains_def map_fst_increment nkey_inj del: set_map)

lemma grouped_count_loop_eq:
  "grouped_count_loop g ks m = group_index.loop g (DistinctGroupLimitExceeded (saturating_add g 1) g) ks m"
  by (induction g ks m rule: grouped_count_loop.induct) auto

text \<open>The counter held for a key, \<open>0\<close> when absent.\<close>

definition group_count :: "btree_map \<Rightarrow> nullable_i64 \<Rightarrow> u64" where
  "group_count m k = (case map_of m k of None \<Rightarrow> 0 | Some c \<Rightarrow> c)"

lemma map_of_increment:
  "map_of (btree_map_increment k m) k' = (if k' = k then map_option (\<lambda>c. c + 1) (map_of m k) else map_of m k')"
  by (induction m) (auto simp: btree_map_increment_def)

lemma map_of_insort: "k \<notin> set (map fst m) \<Longrightarrow> map_of (insort_key f (k, c) m) = (map_of m)(k \<mapsto> c)"
  by (induction m) (auto simp: fun_eq_iff)

lemma group_count_step:
  "group_count (group_index.step k m) k' = group_count m k' + (if k' = k then 1 else 0)"
proof (cases "btree_map_contains k m")
  case True
  then obtain c where "map_of m k = Some c"
    by (auto simp: btree_map_contains_def map_of_eq_None_iff dest: weak_map_of_SomeI)
  with True show ?thesis
    by (simp add: group_index.step_def group_count_def map_of_increment)
next
  case False
  then have absent: "k \<notin> set (map fst m)" by (simp add: btree_map_contains_def)
  then have "map_of m k = None" by (simp add: map_of_eq_None_iff)
  with False absent show ?thesis
    by (simp add: group_index.step_def group_count_def btree_map_insert_def filter_absent map_of_insort)
qed

lemma group_count_fold:
  "group_count (fold group_index.step ks m) k = group_count m k + of_nat (count_list ks k)"
  by (induction ks arbitrary: m) (simp_all add: group_count_step)

lemma grouped_count_nullable_i64_correct:
  "case grouped_count_nullable_i64 vs limits of
     Inl e \<Rightarrow>
       length vs > group_max_input_rows limits \<and>
         e = GroupInputLimitExceeded (length vs) (group_max_input_rows limits) \<or>
       length vs \<le> group_max_input_rows limits \<and> card (set vs) > group_max_groups limits \<and>
         e = DistinctGroupLimitExceeded (saturating_add (group_max_groups limits) 1)
               (group_max_groups limits)
   | Inr m \<Rightarrow>
       length vs \<le> group_max_input_rows limits \<and> card (set vs) \<le> group_max_groups limits \<and>
       m = map (\<lambda>k. (k, of_nat (count_list vs k))) (map fst m) \<and>
       set (map fst m) = set vs \<and> null_first_ascending (map fst m)"
proof -
  let ?m = "fold group_index.step vs []"
  have ord: "group_index.ordered (map fst ?m)"
    using group_index.ordered_fold [of "[]" vs] by (simp add: group_index.ordered_def)
  have "snd e = of_nat (count_list vs (fst e))" if "e \<in> set ?m" for e
  proof -
    have "map_of ?m (fst e) = Some (snd e)"
      using that ord group_index.ordered_iff by simp
    then show ?thesis using group_count_fold [of vs "[]" "fst e"] by (simp add: group_count_def)
  qed
  then have "?m = map (\<lambda>k. (k, of_nat (count_list vs k))) (map fst ?m)"
    by (auto intro!: map_idI [symmetric] simp: prod_eq_iff)
  moreover have "set (map fst ?m) = set vs" using group_index.set_keys_fold [of vs "[]"] by simp
  ultimately show ?thesis using ord
    by (auto simp: grouped_count_nullable_i64_def grouped_count_loop_eq group_index.loop_from_empty
        group_index.ordered_def null_first_ascending_def)
qed

text \<open>\<open>DISTINCT\<close> returns each value of the column once and a grouped count one entry per
  distinct key with the number of its occurrences, both in the order \<open>NULL\<close> first and then
  ascending; each fails exactly when the column or the number of its distinct values exceeds its
  bound.\<close>

theorem distinct_and_grouped_counts_correct:
  "(case distinct_nullable_i64 vs limits of
     Inl e \<Rightarrow>
       length vs > distinct_max_input_rows limits \<and>
         e = DistinctInputLimitExceeded (length vs) (distinct_max_input_rows limits) \<or>
       length vs \<le> distinct_max_input_rows limits \<and> card (set vs) > distinct_max_values limits \<and>
         e = DistinctValueLimitExceeded (saturating_add (distinct_max_values limits) 1)
               (distinct_max_values limits)
   | Inr r \<Rightarrow>
       length vs \<le> distinct_max_input_rows limits \<and> card (set vs) \<le> distinct_max_values limits \<and>
       set r = set vs \<and> distinct r \<and> null_first_ascending r) \<and>
   (case grouped_count_nullable_i64 vs group_limits of
     Inl e \<Rightarrow>
       length vs > group_max_input_rows group_limits \<and>
         e = GroupInputLimitExceeded (length vs) (group_max_input_rows group_limits) \<or>
       length vs \<le> group_max_input_rows group_limits \<and> card (set vs) > group_max_groups group_limits \<and>
         e = DistinctGroupLimitExceeded (saturating_add (group_max_groups group_limits) 1)
               (group_max_groups group_limits)
   | Inr m \<Rightarrow>
       length vs \<le> group_max_input_rows group_limits \<and> card (set vs) \<le> group_max_groups group_limits \<and>
       m = map (\<lambda>k. (k, of_nat (count_list vs k))) (map fst m) \<and>
       set (map fst m) = set vs \<and> null_first_ascending (map fst m))"
  by (rule conjI [OF distinct_nullable_i64_correct grouped_count_nullable_i64_correct])

end
