(* ===== verification/Csv.thy ===== *)
theory Csv
  imports Storage
begin

text \<open>
  Ingestion of one-column \<open>CSVWithNames\<close> text (\<^verbatim>\<open>src/csv.rs\<close>): the split into
  lines, the header check, the record parser, the bounded loop that collects the batch, and the
  variant that reads its input from a reader. The lemmas show which inputs are accepted and what
  they append, that an error leaves the table unchanged and names the first bad line, and that
  printed rows are read back.
\<close>

section \<open>Types and limits\<close>

definition default_max_csv_bytes :: usize where
  "default_max_csv_bytes = 8 * 1024 * 1024"

definition default_max_csv_rows :: usize where
  "default_max_csv_rows = 100000"

record csv_ingest_limits =
  csv_max_bytes :: usize
  csv_max_rows :: usize

definition csv_ingest_limits_new :: "usize \<Rightarrow> usize \<Rightarrow> csv_ingest_limits" where
  "csv_ingest_limits_new b r = \<lparr>csv_max_bytes = b, csv_max_rows = r\<rparr>"

definition csv_ingest_limits_default :: csv_ingest_limits where
  "csv_ingest_limits_default = csv_ingest_limits_new default_max_csv_bytes default_max_csv_rows"

datatype csv_ingest_error =
  CsvByteLimitExceeded usize usize
| CsvMissingHeader usize
| CsvHeaderMismatch usize string
| CsvRowLimitExceeded usize usize usize
| CsvEmptyRecord usize
| CsvWrongColumnCount usize usize
| CsvInvalidInt64 usize
| CsvNullNotAllowed usize string
| CsvTableInsert insert_error

section \<open>Lines\<close>

abbreviation LF :: char where "LF \<equiv> CHR 0x0A"
abbreviation CR :: char where "CR \<equiv> CHR 0x0D"

text \<open>\<open>slice::split_inclusive\<close> at line feeds.\<close>

fun split_inclusive :: "string \<Rightarrow> string list" where
  "split_inclusive [] = []"
| "split_inclusive (c # cs) =
     (if c = LF then [c] # split_inclusive cs
      else case split_inclusive cs of [] \<Rightarrow> [[c]] | l # ls \<Rightarrow> (c # l) # ls)"

definition strip_suffix_byte :: "char \<Rightarrow> string \<Rightarrow> string option" where
  "strip_suffix_byte c l = (if l \<noteq> [] \<and> last l = c then Some (butlast l) else None)"

definition line_contents :: "string \<Rightarrow> string" where
  "line_contents line =
     (case strip_suffix_byte LF line of
        None \<Rightarrow> line
      | Some without_lf \<Rightarrow>
          (case strip_suffix_byte CR without_lf of None \<Rightarrow> without_lf | Some l \<Rightarrow> l))"

section \<open>Records\<close>

definition parse_record :: "string \<Rightarrow> usize \<Rightarrow> csv_ingest_error + nullable_i64" where
  "parse_record record line =
     (if record = [] then Inl (CsvEmptyRecord line)
      else if CHR '','' \<in> set record
      then Inl (CsvWrongColumnCount line (length (filter (\<lambda>b. b = CHR '','') record) + 1))
      else if record = ''NULL'' then Inr None
      else
        let digits = (if hd record = CHR ''+'' \<or> hd record = CHR ''-'' then tl record else record)
        in if digits = [] \<or> \<not> list_all is_ascii_digit digits then Inl (CsvInvalidInt64 line)
           else case i64_from_str record of
                  None \<Rightarrow> Inl (CsvInvalidInt64 line)
                | Some v \<Rightarrow> Inr (Some v))"

text \<open>The loop over the lines after the header; \<open>values\<close> is the batch collected so far.\<close>

fun csv_ingest_loop ::
  "column_schema \<Rightarrow> csv_ingest_limits \<Rightarrow> usize \<Rightarrow> string list \<Rightarrow> nullable_i64 list \<Rightarrow>
     csv_ingest_error + nullable_i64 list" where
  "csv_ingest_loop col limits line [] values = Inr values"
| "csv_ingest_loop col limits line (raw_line # lines) values =
     (let rows = saturating_add (length values) 1
      in if rows > csv_max_rows limits then Inl (CsvRowLimitExceeded line rows (csv_max_rows limits))
         else res_bind (parse_record (line_contents raw_line) line) (\<lambda>value.
           if value = None \<and> \<not> col_nullable col
           then Inl (CsvNullNotAllowed line (col_name col))
           else csv_ingest_loop col limits (line + 1) lines (values @ [value])))"

definition ingest_csv_with_names ::
  "int64_table \<Rightarrow> string \<Rightarrow> csv_ingest_limits \<Rightarrow> (csv_ingest_error + usize) \<times> int64_table" where
  "ingest_csv_with_names table input limits =
     (let col = schema_column (table_schema table)
      in if length input > csv_max_bytes limits
         then (Inl (CsvByteLimitExceeded (length input) (csv_max_bytes limits)), table)
         else case split_inclusive input of
           [] \<Rightarrow> (Inl (CsvMissingHeader 1), table)
         | header # lines \<Rightarrow>
             if line_contents header \<noteq> col_name col
             then (Inl (CsvHeaderMismatch 1 (col_name col)), table)
             else case csv_ingest_loop col limits 2 lines [] of
               Inl e \<Rightarrow> (Inl e, table)
             | Inr values \<Rightarrow>
                 (case table_append_batch table values of
                    (Inl e, table') \<Rightarrow> (Inl (CsvTableInsert e), table')
                  | (Inr _, table') \<Rightarrow> (Inr (length values), table')))"

section \<open>Reading from a reader\<close>

datatype 'io csv_reader_ingest_error =
  CsvRead 'io
| CsvReaderByteLimitExceeded usize usize
| CsvError csv_ingest_error

definition ingest_csv_with_names_from_reader ::
  "int64_table \<Rightarrow> (char, 'io) read_event list \<Rightarrow> csv_ingest_limits \<Rightarrow>
     ('io csv_reader_ingest_error + usize) \<times> int64_table" where
  "ingest_csv_with_names_from_reader table reader limits =
     (let read_limit = saturating_add (csv_max_bytes limits) 1
      in case take_read_to_end read_limit reader of
           Inl e \<Rightarrow> (Inl (CsvRead e), table)
         | Inr input \<Rightarrow>
             if length input > csv_max_bytes limits
             then (Inl (CsvReaderByteLimitExceeded (length input) (csv_max_bytes limits)), table)
             else case ingest_csv_with_names table input limits of
                    (r, table') \<Rightarrow> (map_err CsvError r, table'))"

section \<open>Specification\<close>

definition csv_lines :: "string \<Rightarrow> string list" where
  "csv_lines input = map line_contents (split_inclusive input)"

text \<open>What a record denotes: the token \<open>NULL\<close> or a decimal integer in range.\<close>

definition record_denotes :: "string \<Rightarrow> nullable_i64 \<Rightarrow> bool" where
  "record_denotes r v \<longleftrightarrow>
     (case v of None \<Rightarrow> r = ''NULL'' | Some n \<Rightarrow> i64_from_str r = Some n)"

definition record_acceptable :: "column_schema \<Rightarrow> string \<Rightarrow> bool" where
  "record_acceptable col r \<longleftrightarrow> (\<exists>v. record_denotes r v \<and> (v = None \<longrightarrow> col_nullable col))"

fun csv_error_line :: "csv_ingest_error \<Rightarrow> usize option" where
  "csv_error_line (CsvEmptyRecord l) = Some l"
| "csv_error_line (CsvWrongColumnCount l _) = Some l"
| "csv_error_line (CsvInvalidInt64 l) = Some l"
| "csv_error_line (CsvNullNotAllowed l _) = Some l"
| "csv_error_line _ = None"

section \<open>The record parser\<close>

lemma i64_from_str_digits:
  assumes "i64_from_str r = Some n"
  shows "r \<noteq> [] \<and> (let ds = (if hd r = CHR ''+'' \<or> hd r = CHR ''-'' then tl r else r)
           in ds \<noteq> [] \<and> list_all is_ascii_digit ds)"
  using assms
  by (cases r) (auto simp: i64_from_str_def digits_value_def Let_def split: if_splits)

lemma i64_from_str_bytes:
  assumes "i64_from_str r = Some n" and "c \<in> set r"
  shows "is_ascii_digit c \<or> c = CHR ''+'' \<or> c = CHR ''-''"
  using assms
  by (cases r) (auto simp: i64_from_str_def digits_value_def list_all_iff split: if_splits)

lemma parse_record_Inr_iff: "parse_record r l = Inr v \<longleftrightarrow> record_denotes r v"
proof -
  have comma: "CHR '','' \<notin> set r" if "i64_from_str r = Some n" for n
    using i64_from_str_bytes [OF that, of "CHR '',''"] by (auto simp: is_ascii_digit_def)
  have null: "i64_from_str ''NULL'' = None" by code_simp
  show ?thesis
  proof (cases v)
    case None
    then show ?thesis
      by (auto simp: parse_record_def record_denotes_def Let_def split: option.splits)
  next
    case (Some n)
    then show ?thesis
      using i64_from_str_digits [of r n] comma [of n] null
      by (auto simp: parse_record_def record_denotes_def Let_def split: option.splits if_splits)
  qed
qed

lemma parse_record_error_line: "parse_record r l = Inl e \<Longrightarrow> csv_error_line e = Some l"
  by (auto simp: parse_record_def Let_def split: if_splits option.splits)

lemma parse_record_cases:
  obtains (ok) v where "parse_record r l = Inr v" "record_denotes r v"
  | (bad) e where "parse_record r l = Inl e" "csv_error_line e = Some l" "\<not> record_acceptable col r"
proof (cases "parse_record r l")
  case (Inl e)
  then have "\<not> record_denotes r v" for v using parse_record_Inr_iff [of r l v] by simp
  with Inl show ?thesis
    by (intro bad [of e]) (auto simp: record_acceptable_def parse_record_error_line)
next
  case (Inr v)
  then show ?thesis using parse_record_Inr_iff [of r l v] by (intro ok) auto
qed

lemma record_denotes_unique: "record_denotes r v \<Longrightarrow> record_denotes r w \<Longrightarrow> v = w"
  using parse_record_Inr_iff [of r 0] by (metis Inr_inject)

section \<open>The ingestion loop\<close>

lemma csv_ingest_loop_Inr_iff:
  assumes "length acc + length lines < usize_max" and "length acc \<le> csv_max_rows limits"
  shows "csv_ingest_loop col limits l lines acc = Inr out \<longleftrightarrow>
     (\<exists>vs. list_all2 record_denotes (map line_contents lines) vs \<and>
           (col_nullable col \<or> None \<notin> set vs) \<and>
           length acc + length vs \<le> csv_max_rows limits \<and> out = acc @ vs)"
  using assms
proof (induction lines arbitrary: l acc)
  case Nil
  then show ?case by auto
next
  case (Cons line lines)
  have rows: "saturating_add (length acc) 1 = length acc + 1"
    using Cons.prems by (intro saturating_add_id) simp
  show ?case
  proof (cases rule: parse_record_cases [where r = "line_contents line" and l = l and col = col])
    case (ok v)
    have "csv_ingest_loop col limits l (line # lines) acc = Inr out \<longleftrightarrow>
        length acc + 1 \<le> csv_max_rows limits \<and> (v = None \<longrightarrow> col_nullable col) \<and>
        csv_ingest_loop col limits (l + 1) lines (acc @ [v]) = Inr out"
      using ok(1) rows by (auto simp: Let_def)
    also have "\<dots> \<longleftrightarrow> length acc + 1 \<le> csv_max_rows limits \<and> (v = None \<longrightarrow> col_nullable col) \<and>
        (\<exists>vs. list_all2 record_denotes (map line_contents lines) vs \<and>
           (col_nullable col \<or> None \<notin> set vs) \<and>
           length acc + 1 + length vs \<le> csv_max_rows limits \<and> out = acc @ v # vs)"
      using Cons.IH [of "acc @ [v]" "l + 1"] Cons.prems by auto
    finally have loop: "csv_ingest_loop col limits l (line # lines) acc = Inr out \<longleftrightarrow> \<dots>" .
    have "record_denotes (line_contents line) w \<longleftrightarrow> w = v" for w
      using ok(2) record_denotes_unique by blast
    then have ex: "(\<exists>us. list_all2 record_denotes (map line_contents (line # lines)) us \<and> P us) \<longleftrightarrow>
        (\<exists>vs. list_all2 record_denotes (map line_contents lines) vs \<and> P (v # vs))" for P
      by (simp add: list_all2_Cons1) blast
    show ?thesis unfolding loop ex by auto
  next
    case (bad e)
    then have "\<not> record_denotes (line_contents line) v" for v
      using parse_record_Inr_iff [of "line_contents line" l v] by simp
    with bad show ?thesis by (auto simp: Let_def list_all2_Cons1)
  qed
qed

lemma csv_ingest_loop_error:
  assumes "csv_ingest_loop col limits l lines acc = Inl e" and "csv_error_line e = Some n"
  shows "\<exists>k<length lines. n = l + k \<and> \<not> record_acceptable col (line_contents (lines ! k)) \<and>
           (\<forall>i<k. record_acceptable col (line_contents (lines ! i)))"
  using assms
proof (induction lines arbitrary: l acc)
  case Nil
  then show ?case by simp
next
  case (Cons line lines)
  let ?r = "line_contents line"
  show ?case
  proof (cases rule: parse_record_cases [where r = "line_contents line" and l = l and col = col])
    case (ok v)
    show ?thesis
    proof (cases "v = None \<and> \<not> col_nullable col")
      case True
      then have "\<not> record_acceptable col ?r"
        using ok(2) record_denotes_unique by (auto simp: record_acceptable_def)
      moreover have "n = l" using Cons.prems ok(1) True by (auto simp: Let_def split: if_splits)
      ultimately show ?thesis by (intro exI [of _ 0]) simp
    next
      case False
      then have "csv_ingest_loop col limits (l + 1) lines (acc @ [v]) = Inl e"
        using Cons.prems ok(1) by (auto simp: Let_def split: if_splits)
      from Cons.IH [OF this Cons.prems(2)] obtain k where k: "k < length lines" "n = l + 1 + k"
        "\<not> record_acceptable col (line_contents (lines ! k))"
        "\<forall>i<k. record_acceptable col (line_contents (lines ! i))" by blast
      have "record_acceptable col ?r" using ok(2) False by (auto simp: record_acceptable_def)
      with k show ?thesis
        by (intro exI [of _ "Suc k"]) (auto simp: nth_Cons split: nat.split)
    qed
  next
    case (bad e')
    then have "n = l" using Cons.prems by (auto simp: Let_def split: if_splits)
    with bad show ?thesis by (intro exI [of _ 0]) simp
  qed
qed

section \<open>Lines of a document\<close>

lemma split_inclusive_eq_Nil [simp]: "split_inclusive s = [] \<longleftrightarrow> s = []"
  by (cases s) (auto split: list.split)

lemma split_inclusive_line:
  "LF \<notin> set l \<Longrightarrow> split_inclusive (l @ LF # s) = (l @ [LF]) # split_inclusive s"
  by (induction l) auto

lemma split_inclusive_last: "LF \<notin> set l \<Longrightarrow> l \<noteq> [] \<Longrightarrow> split_inclusive l = [l]"
proof (induction l)
  case (Cons c l)
  then show ?case by (cases "l = []") auto
qed simp

lemma length_split_inclusive: "length (split_inclusive s) \<le> length s"
proof (induction s rule: split_inclusive.induct)
  case (2 c cs)
  then show ?case by (cases "split_inclusive cs") auto
qed simp

lemma strip_suffix_byte_snoc [simp]: "strip_suffix_byte c (l @ [c]) = Some l"
  by (simp add: strip_suffix_byte_def)

lemma strip_suffix_byte_None: "c \<notin> set l \<Longrightarrow> strip_suffix_byte c l = None"
  using last_in_set [of l] by (auto simp: strip_suffix_byte_def)

lemma line_contents_plain: "LF \<notin> set l \<Longrightarrow> line_contents l = l"
  by (simp add: line_contents_def strip_suffix_byte_None)

lemma line_contents_lf: "CR \<notin> set l \<Longrightarrow> line_contents (l @ [LF]) = l"
  by (simp add: line_contents_def strip_suffix_byte_None)

lemma line_contents_crlf: "line_contents (l @ [CR, LF]) = l"
  using strip_suffix_byte_snoc [of LF "l @ [CR]"] by (simp add: line_contents_def)

text \<open>A document: terminated lines, each with its own line ending, and a last line without one,
  which is empty when the text ends with a line ending.\<close>

definition csv_line :: "string \<times> bool \<Rightarrow> string" where
  "csv_line l = fst l @ (if snd l then [CR, LF] else [LF])"

definition csv_document :: "(string \<times> bool) list \<Rightarrow> string \<Rightarrow> string" where
  "csv_document ls final = concat (map csv_line ls) @ final"

definition csv_contents :: "(string \<times> bool) list \<Rightarrow> string \<Rightarrow> string list" where
  "csv_contents ls final = map fst ls @ (if final = [] then [] else [final])"

definition line_text :: "string \<Rightarrow> bool" where
  "line_text l \<longleftrightarrow> LF \<notin> set l \<and> CR \<notin> set l"

definition csv_field :: "nullable_i64 \<Rightarrow> string" where
  "csv_field v = (case v of None \<Rightarrow> ''NULL'' | Some n \<Rightarrow> i64_display n)"

lemma csv_lines_document:
  assumes "list_all (line_text \<circ> fst) ls" and "line_text final"
  shows "csv_lines (csv_document ls final) = csv_contents ls final"
  using assms(1)
proof (induction ls)
  case Nil
  have "csv_lines final = (if final = [] then [] else [final])"
    using assms(2)
    by (auto simp: csv_lines_def split_inclusive_last line_text_def line_contents_plain)
  then show ?case by (simp add: csv_document_def csv_contents_def)
next
  case (Cons l ls)
  obtain t crlf where l: "l = (t, crlf)" by (cases l)
  with Cons.prems have t: "LF \<notin> set t" "CR \<notin> set t" by (auto simp: line_text_def)
  then have "csv_lines (csv_line l @ s) = t # csv_lines s" for s
    using split_inclusive_line [of t s] split_inclusive_line [of "t @ [CR]" s]
      line_contents_crlf [of t] line_contents_lf [of t]
    by (auto simp: csv_line_def l csv_lines_def)
  with Cons l show ?case by (simp add: csv_document_def csv_contents_def)
qed

lemma i64_display_bytes: "c \<in> set (i64_display v) \<Longrightarrow> is_ascii_digit c \<or> c = CHR ''-''"
proof (cases rule: i64_display_shape [of v])
  case 1
  assume "c \<in> set (i64_display v)"
  with 1 usize_display_digits [of "nat (- sint v)"] show ?thesis by (auto simp: list_all_iff)
next
  case 2
  assume "c \<in> set (i64_display v)"
  with 2 usize_display_digits [of "nat (sint v)"] show ?thesis by (auto simp: list_all_iff)
qed

lemma record_denotes_field [simp]: "record_denotes (csv_field v) v"
  by (simp add: record_denotes_def csv_field_def split: option.split)

lemma line_text_field [simp]: "line_text (csv_field v)"
  using i64_display_bytes
  by (fastforce simp: line_text_def csv_field_def is_ascii_digit_def split: option.split)

section \<open>Correctness of ingestion\<close>

lemma ingest_csv_unfold:
  assumes "split_inclusive input = header # lines"
  shows "ingest_csv_with_names t input limits =
    (if length input > csv_max_bytes limits
     then (Inl (CsvByteLimitExceeded (length input) (csv_max_bytes limits)), t)
     else if line_contents header \<noteq> column_of t
     then (Inl (CsvHeaderMismatch 1 (column_of t)), t)
     else case csv_ingest_loop (schema_column (table_schema t)) limits 2 lines [] of
       Inl e \<Rightarrow> (Inl e, t)
     | Inr values \<Rightarrow>
         (case table_append_batch t values of
            (Inl e, t') \<Rightarrow> (Inl (CsvTableInsert e), t')
          | (Inr _, t') \<Rightarrow> (Inr (length values), t')))"
  using assms by (simp add: ingest_csv_with_names_def Let_def)

text \<open>C18: Ingestion succeeds exactly when the input is within the byte bound, its first line is the
  column name and the other lines denote values within the row bound that the table admits; it then
  appends those values, in order, and reports how many they are. On any error the table is
  unchanged.\<close>

theorem ingest_csv_correct:
  assumes "table_wf t" and "length input \<le> usize_max"
  shows "(ingest_csv_with_names t input limits = (Inr n, t') \<longleftrightarrow>
      (\<exists>vs records. length input \<le> csv_max_bytes limits \<and> csv_lines input = column_of t # records \<and>
         list_all2 record_denotes records vs \<and> length vs \<le> csv_max_rows limits \<and>
         table_admits t vs \<and> n = length vs \<and> t' = t\<lparr>table_values := table_values t @ vs\<rparr>))
    \<and> (\<not> is_ok (fst (ingest_csv_with_names t input limits)) \<longrightarrow>
         snd (ingest_csv_with_names t input limits) = t)"
proof (cases "split_inclusive input")
  case Nil
  then show ?thesis
    by (auto simp: ingest_csv_with_names_def csv_lines_def Let_def)
next
  case (Cons header lines)
  have len: "length ([] :: nullable_i64 list) + length lines < usize_max"
    using length_split_inclusive [of input] assms(2) Cons by simp
  note loop = csv_ingest_loop_Inr_iff [OF len, of limits "schema_column (table_schema t)" 2]
  have frame: "snd (ingest_csv_with_names t input limits) = t"
    if "\<not> is_ok (fst (ingest_csv_with_names t input limits))"
    using that table_sink.append_atomic [OF assms(1)] unfolding ingest_csv_unfold [OF Cons]
    by (auto split: sum.splits prod.splits if_splits)
  have app: "table_append_batch t vs = (Inr (), t') \<longleftrightarrow>
      table_admits t vs \<and> t' = t\<lparr>table_values := table_values t @ vs\<rparr>" for vs
    using table_sink.append_rejects [OF assms(1), of vs] append_batch_admitted [OF assms(1), of vs]
    by (cases "table_admits t vs") auto
  have "ingest_csv_with_names t input limits = (Inr n, t') \<longleftrightarrow>
      length input \<le> csv_max_bytes limits \<and> line_contents header = column_of t \<and>
      (\<exists>vs. csv_ingest_loop (schema_column (table_schema t)) limits 2 lines [] = Inr vs \<and>
         table_append_batch t vs = (Inr (), t') \<and> n = length vs)"
    unfolding ingest_csv_unfold [OF Cons] by (auto split: sum.split prod.split)
  also have "\<dots> \<longleftrightarrow> length input \<le> csv_max_bytes limits \<and> line_contents header = column_of t \<and>
      (\<exists>vs. list_all2 record_denotes (map line_contents lines) vs \<and>
         length vs \<le> csv_max_rows limits \<and> table_admits t vs \<and> n = length vs \<and>
         t' = t\<lparr>table_values := table_values t @ vs\<rparr>)"
    by (auto simp: loop app table_admits_def)
  finally show ?thesis using frame by (auto simp: csv_lines_def Cons)
qed

theorem ingest_csv_correct_witness:
  "ingest_csv_with_names (table_new (schema_int64 ''v'' True) 2) (''v'' @ [LF] @ ''-7'' @ [CR, LF] @ ''NULL'')
       (csv_ingest_limits_new 20 2) =
     (Inr 2, (table_new (schema_int64 ''v'' True) 2)\<lparr>table_values := [Some (- 7), None]\<rparr>)"
proof -
  let ?t = "table_new (schema_int64 ''v'' True) 2"
  have "i64_from_str ''-7'' = Some (- 7)" by code_simp
  then have "list_all2 record_denotes [''-7'', ''NULL''] [Some (- 7), None]"
    by (simp add: record_denotes_def)
  moreover have "csv_lines (''v'' @ [LF] @ ''-7'' @ [CR, LF] @ ''NULL'') = [''v'', ''-7'', ''NULL'']"
    by (simp add: csv_lines_def line_contents_def strip_suffix_byte_def)
  moreover have "table_wf ?t" by simp
  ultimately show ?thesis
    using ingest_csv_correct [of ?t "''v'' @ [LF] @ ''-7'' @ [CR, LF] @ ''NULL''"
        "csv_ingest_limits_new 20 2" 2 "?t\<lparr>table_values := [Some (- 7), None]\<rparr>"]
    by (fastforce simp: usize_max_def csv_ingest_limits_new_def table_admits_def table_new_def
        schema_int64_def)
qed

text \<open>C39: A record error names the first bad line: the reported line exists, its record is not
  acceptable to the column, and every record before it is.\<close>

theorem csv_error_names_first_bad_line:
  assumes "fst (ingest_csv_with_names t input limits) = Inl e" and "csv_error_line e = Some n"
  shows "2 \<le> n \<and> n \<le> length (csv_lines input) \<and>
    \<not> record_acceptable (schema_column (table_schema t)) (csv_lines input ! (n - 1)) \<and>
    (\<forall>m. 2 \<le> m \<and> m < n \<longrightarrow>
       record_acceptable (schema_column (table_schema t)) (csv_lines input ! (m - 1)))"
proof (cases "split_inclusive input")
  case Nil
  with assms show ?thesis by (auto simp: ingest_csv_with_names_def Let_def split: if_splits)
next
  case (Cons header lines)
  have "csv_ingest_loop (schema_column (table_schema t)) limits 2 lines [] = Inl e"
    using assms unfolding ingest_csv_unfold [OF Cons]
    by (auto split: if_splits sum.splits prod.splits)
  from csv_ingest_loop_error [OF this assms(2)] obtain k where k: "k < length lines" "n = 2 + k"
    "\<not> record_acceptable (schema_column (table_schema t)) (line_contents (lines ! k))"
    "\<forall>i<k. record_acceptable (schema_column (table_schema t)) (line_contents (lines ! i))"
    by blast
  have line: "csv_lines input ! (m - 1) = line_contents (lines ! (m - 2))"
    if "2 \<le> m" and "m < 2 + length lines" for m
  proof -
    from that(1) obtain j where "m = 2 + j" using le_Suc_ex by blast
    with that(2) show ?thesis by (simp add: csv_lines_def Cons)
  qed
  show ?thesis
  proof (intro conjI allI impI)
    show "\<not> record_acceptable (schema_column (table_schema t)) (csv_lines input ! (n - 1))"
      using k line [of n] by simp
    show "record_acceptable (schema_column (table_schema t)) (csv_lines input ! (m - 1))"
      if "2 \<le> m \<and> m < n" for m
      using k that line [of m] by auto
  qed (use k in \<open>auto simp: csv_lines_def Cons\<close>)
qed

theorem csv_error_names_first_bad_line_witness:
  "csv_lines (''v'' @ [LF] @ ''1'' @ [LF] @ ''x'' @ [LF]) ! 2 = ''x'' \<and>
   \<not> record_acceptable (schema_column (schema_int64 ''v'' True)) ''x''"
proof -
  let ?t = "table_new (schema_int64 ''v'' True) 9" and ?in = "''v'' @ [LF] @ ''1'' @ [LF] @ ''x'' @ [LF]"
  have "parse_record ''1'' 2 = Inr (Some 1)" "parse_record ''x'' 3 = Inl (CsvInvalidInt64 3)"
    by code_simp+
  then have "fst (ingest_csv_with_names ?t ?in (csv_ingest_limits_new 20 2)) = Inl (CsvInvalidInt64 3)"
    by (simp add: ingest_csv_with_names_def Let_def csv_ingest_limits_new_def saturating_add_def
        usize_max_def line_contents_def strip_suffix_byte_def table_new_def schema_int64_def)
  moreover have "csv_lines ?in ! 2 = ''x''" by code_simp
  ultimately show ?thesis
    using csv_error_names_first_bad_line [of ?t ?in "csv_ingest_limits_new 20 2" "CsvInvalidInt64 3" 3]
    by (simp add: table_new_def)
qed

text \<open>Printing and reading back: a document whose lines are the column name and the printed
  rows, each line ended by LF or CRLF and the last ending optional, appends exactly those rows when
  it is within the bounds and the table admits them.\<close>

theorem csv_roundtrip:
  assumes "table_wf t" and "table_admits t vs"
    and "csv_contents ls final = column_of t # map csv_field vs" and "line_text (column_of t)"
    and "length (csv_document ls final) \<le> csv_max_bytes limits" and "csv_max_bytes limits \<le> usize_max"
    and "length vs \<le> csv_max_rows limits"
  shows "ingest_csv_with_names t (csv_document ls final) limits =
    (Inr (length vs), t\<lparr>table_values := table_values t @ vs\<rparr>)"
proof -
  have "list_all line_text (csv_contents ls final)"
    unfolding assms(3) using assms(4) by (simp add: list_all_iff)
  then have "list_all (line_text \<circ> fst) ls" "line_text final"
    by (auto simp: csv_contents_def list_all_iff line_text_def split: if_splits)
  then have "csv_lines (csv_document ls final) = column_of t # map csv_field vs"
    by (simp add: csv_lines_document assms(3))
  moreover have "list_all2 record_denotes (map csv_field vs) vs"
    by (simp add: list_all2_map1 list.rel_refl)
  moreover have "length (csv_document ls final) \<le> usize_max" using assms by simp
  ultimately show ?thesis
    using ingest_csv_correct [OF assms(1), of "csv_document ls final" limits "length vs"
        "t\<lparr>table_values := table_values t @ vs\<rparr>"] assms by blast
qed

theorem csv_roundtrip_witness:
  "ingest_csv_with_names (table_new (schema_int64 ''v'' True) 2)
       (csv_document [(''v'', True), (''NULL'', False)] ''42'') (csv_ingest_limits_new 20 2) =
     (Inr 2, (table_new (schema_int64 ''v'' True) 2)\<lparr>table_values := [None, Some 42]\<rparr>)"
proof -
  have f: "csv_field (Some 42) = ''42''" "csv_field None = ''NULL''" by code_simp+
  show ?thesis
    using csv_roundtrip [of "table_new (schema_int64 ''v'' True) 2" "[None, Some 42]"
        "[(''v'', True), (''NULL'', False)]" "''42''" "csv_ingest_limits_new 20 2"] f
    by (simp add: table_admits_def table_new_def schema_int64_def csv_contents_def line_text_def
        csv_document_def csv_line_def csv_ingest_limits_new_def usize_max_def table_wf_def)
qed

section \<open>Correctness of the reader\<close>

text \<open>A reader that delivers its bytes without an I/O error is ingested as that byte string,
  except that an input over the byte bound is reported by the reader after \<open>max_bytes + 1\<close> bytes;
  how the bytes are cut into chunks makes no difference.\<close>

theorem csv_reader_correct:
  assumes "reader_bytes reader = Some input" and "csv_max_bytes limits < usize_max"
  shows "ingest_csv_with_names_from_reader t reader limits =
    (if length input > csv_max_bytes limits
     then (Inl (CsvReaderByteLimitExceeded (csv_max_bytes limits + 1) (csv_max_bytes limits)), t)
     else apfst (map_err CsvError) (ingest_csv_with_names t input limits))"
proof -
  have "saturating_add (csv_max_bytes limits) 1 = csv_max_bytes limits + 1"
    using assms(2) by (intro saturating_add_id) simp
  with take_read_to_end_bytes [OF assms(1)] show ?thesis
    by (auto simp: ingest_csv_with_names_from_reader_def Let_def split: prod.split)
qed

theorem csv_reader_correct_witness:
  "ingest_csv_with_names_from_reader (table_new (schema_int64 ''v'' True) 2)
       [ReadChunk ''v'', ReadChunk ([LF] @ ''5''), ReadChunk []] (csv_ingest_limits_new 9 2) =
     (Inr 1, (table_new (schema_int64 ''v'' True) 2)\<lparr>table_values := [Some 5]\<rparr>)"
proof -
  have "ingest_csv_with_names (table_new (schema_int64 ''v'' True) 2) (''v'' @ [LF] @ ''5'')
      (csv_ingest_limits_new 9 2) =
      (Inr 1, (table_new (schema_int64 ''v'' True) 2)\<lparr>table_values := [Some 5]\<rparr>)"
  proof -
    have "parse_record ''5'' 2 = Inr (Some 5)" by code_simp
    then show ?thesis
      by (simp add: ingest_csv_with_names_def Let_def csv_ingest_limits_new_def saturating_add_def
          usize_max_def line_contents_def strip_suffix_byte_def table_new_def schema_int64_def
          table_append_batch_def validate_append_def)
  qed
  then show ?thesis
    using csv_reader_correct [of "[ReadChunk ''v'', ReadChunk ([LF] @ ''5''), ReadChunk []]"
        "''v'' @ [LF] @ ''5''" "csv_ingest_limits_new 9 2" "table_new (schema_int64 ''v'' True) 2"]
    by (simp add: csv_ingest_limits_new_def usize_max_def)
qed

end
