(* ===== verification/Crc_Envelope.thy ===== *)
theory Crc_Envelope
  imports Prelude
begin

unbundle bit_operations_syntax

text \<open>
  The versioned snapshot envelope of \<^verbatim>\<open>src/snapshot.rs\<close>: its CRC-32, the encoder, and
  the decoder with its checks in the order of the code. The checksum is shown to tell apart any two
  payloads that differ within four consecutive bytes, the decoder to accept exactly the encoder's
  images, and every change of a single byte of an envelope to be rejected.
\<close>

section \<open>The checksum\<close>

text \<open>One round of the inner loop, the eight rounds of a byte, and the whole checksum.\<close>

definition crc_polynomial :: u32 where
  "crc_polynomial = 0xedb88320"

definition crc_bit :: "u32 \<Rightarrow> u32" where
  "crc_bit checksum = drop_bit 1 checksum XOR (crc_polynomial AND (0 - (checksum AND 1)))"

definition crc_byte :: "u32 \<Rightarrow> u8 \<Rightarrow> u32" where
  "crc_byte checksum byte = (crc_bit ^^ 8) (checksum XOR ucast byte)"

definition crc32 :: "u8 list \<Rightarrow> u32" where
  "crc32 bytes = NOT (foldl crc_byte (- 1) bytes)"

lemma crc_bit_cases:
  "crc_bit c = (if bit c 0 then drop_bit 1 c XOR crc_polynomial else drop_bit 1 c)"
  by (simp add: crc_bit_def and_one_eq bit_0 mod2_eq_if)

lemma crc_bit_top: "bit (crc_bit c) 31 = bit c 0"
proof -
  have "\<not> bit (drop_bit 1 c) 31"
    using bit_imp_le_length [of c 32] by (auto simp: bit_drop_bit_eq)
  moreover have "bit crc_polynomial 31" by (simp add: crc_polynomial_def)
  ultimately show ?thesis by (simp add: crc_bit_cases bit_xor_iff)
qed

lemma crc_bit_inj: "inj crc_bit"
proof (rule injI)
  fix a b assume eq: "crc_bit a = crc_bit b"
  then have low: "bit a 0 = bit b 0" by (metis crc_bit_top)
  have "drop_bit 1 a = drop_bit 1 b"
  proof (cases "bit a 0")
    case True
    with eq low show ?thesis by (simp add: crc_bit_cases xor_cancel)
  qed (use eq low in \<open>simp add: crc_bit_cases\<close>)
  then have high: "bit a (Suc n) = bit b (Suc n)" for n
    by (metis bit_drop_bit_eq comp_apply plus_1_eq_Suc)
  show "a = b"
  proof (rule bit_word_eqI)
    fix n show "bit a n = bit b n" using low high by (cases n) simp_all
  qed
qed

lemma crc_bits_inj: "inj (crc_bit ^^ n)"
  by (induction n) (simp_all add: inj_compose crc_bit_inj del: o_apply)

lemma crc_byte_inj_state: "crc_byte s b = crc_byte t b \<Longrightarrow> s = t"
  by (auto simp: crc_byte_def xor_cancel dest: injD [OF crc_bits_inj])

text \<open>The rounds are linear: bytes that have not reached the low end only shift down.\<close>

lemma crc_bit_shift: "\<not> bit y 0 \<Longrightarrow> crc_bit (s XOR y) = crc_bit s XOR drop_bit 1 y"
  by (simp add: crc_bit_cases bit_xor_iff drop_bit_xor xor.assoc xor.commute xor.left_commute)

lemma crc_bits_shift:
  "(\<And>i. i < n \<Longrightarrow> \<not> bit y i) \<Longrightarrow> (crc_bit ^^ n) (s XOR y) = (crc_bit ^^ n) s XOR drop_bit n y"
proof (induction n)
  case (Suc n)
  then have "\<not> bit (drop_bit n y) 0" by (simp add: bit_drop_bit_eq)
  with Suc show ?case by (simp add: crc_bit_shift)
qed simp

text \<open>Up to four bytes at a time act on the state as their little-endian word.\<close>

lemma crc_bytes_word:
  "length bs \<le> 4 \<Longrightarrow> foldl crc_byte s bs = (crc_bit ^^ (8 * length bs)) (s XOR from_le bs)"
proof (induction bs arbitrary: s)
  case (Cons b bs)
  let ?w = "from_le bs :: u32"
  have small: "drop_bit 8 (push_bit 8 ?w) = ?w"
  proof (rule bit_word_eqI)
    fix i assume "i < LENGTH(32)"
    then show "bit (drop_bit 8 (push_bit 8 ?w)) i = bit ?w i"
      using bit_from_le_bound [of bs i] Cons.prems
      by (fastforce simp: bit_drop_bit_eq bit_push_bit_iff)
  qed
  have "bit (ucast b AND push_bit 8 ?w) i \<Longrightarrow> False" for i
    by (auto simp: bit_and_iff bit_push_bit_iff bit_unsigned_iff dest: bit_imp_le_length)
  then have "ucast b AND push_bit 8 ?w = 0" by (intro bit_word_eqI) auto
  then have split: "from_le (b # bs) = ucast b XOR push_bit 8 ?w"
    by (simp add: disjunctive_xor_eq_or)
  have "foldl crc_byte s (b # bs) = (crc_bit ^^ (8 * length bs)) (crc_byte s b XOR ?w)"
    using Cons by simp
  also have "crc_byte s b XOR ?w = (crc_bit ^^ 8) ((s XOR ucast b) XOR push_bit 8 ?w)"
    using crc_bits_shift [of 8 "push_bit 8 ?w" "s XOR ucast b"]
    by (simp add: crc_byte_def small bit_push_bit_iff)
  also have "(crc_bit ^^ (8 * length bs)) \<dots> =
      (crc_bit ^^ (8 * length bs + 8)) (s XOR from_le (b # bs))"
    by (simp only: split xor.assoc funpow_add comp_apply)
  also have "8 * length bs + 8 = 8 * length (b # bs)" by simp
  finally show ?case .
qed simp

lemma crc_bytes_inj_state: "foldl crc_byte s bs = foldl crc_byte t bs \<Longrightarrow> s = t"
  by (induction bs arbitrary: s t) (auto dest: crc_byte_inj_state)

lemma crc32_burst:
  assumes "crc32 (pre @ w @ post) = crc32 (pre @ w' @ post)" and "length w' = length w" and "length w \<le> 4"
  shows "w' = w"
proof -
  let ?s = "foldl crc_byte (- 1) pre"
  have "foldl crc_byte ?s w = foldl crc_byte ?s w'"
    using assms(1) by (simp add: crc32_def) (rule crc_bytes_inj_state)
  then have "?s XOR from_le w = ?s XOR from_le w'"
    using assms(2,3) injD [OF crc_bits_inj] by (simp add: crc_bytes_word)
  then have "(from_le w :: u32) = from_le w'"
    by (simp add: xor_cancel xor.commute [of ?s])
  then show ?thesis
    using to_le_from_le [where ?'a = 32, of w] to_le_from_le [where ?'a = 32, of w'] assms(2,3) by simp
qed

section \<open>The envelope\<close>

definition snapshot_magic :: "u8 list" where
  "snapshot_magic = [0x52, 0x48, 0x4F, 0x55, 0x53, 0x45, 0x53, 0x4E]"

definition snapshot_version :: u16 where
  "snapshot_version = 1"

definition version_offset :: usize where
  "version_offset = length snapshot_magic"

definition length_offset :: usize where
  "length_offset = version_offset + 2"

definition checksum_offset :: usize where
  "checksum_offset = length_offset + 8"

definition snapshot_header_len :: usize where
  "snapshot_header_len = length snapshot_magic + 2 + 8 + 4"

lemmas envelope_layout [simp] =
  version_offset_def length_offset_def checksum_offset_def snapshot_header_len_def

lemma length_snapshot_magic [simp]: "length snapshot_magic = 8"
  by (simp add: snapshot_magic_def)

text \<open>\<open>read_array\<close> copies the \<open>n\<close> bytes from an offset; every caller has checked
  that they exist. \<open>u64_or_max\<close> is \<open>u64::try_from(n).unwrap_or(u64::MAX)\<close>.\<close>

definition read_array :: "nat \<Rightarrow> u8 list \<Rightarrow> usize \<Rightarrow> u8 list" where
  "read_array n bytes offset = take n (drop offset bytes)"

definition u64_or_max :: "usize \<Rightarrow> u64" where
  "u64_or_max n = (case u64_of_usize n of Some w \<Rightarrow> w | None \<Rightarrow> - 1)"

datatype snapshot_error =
  SnapshotPayloadTooLarge u64 usize
| SnapshotTruncated usize usize
| SnapshotIncompatibleMagic "u8 list"
| SnapshotUnsupportedVersion u16 u16
| SnapshotTrailingBytes usize usize
| SnapshotChecksumMismatch u32 u32

record snapshot_codec =
  envelope_max_payload_len :: usize

definition snapshot_codec_new :: "usize \<Rightarrow> snapshot_codec" where
  "snapshot_codec_new m = \<lparr>envelope_max_payload_len = m\<rparr>"

definition envelope_encode :: "snapshot_codec \<Rightarrow> u8 list \<Rightarrow> snapshot_error + u8 list" where
  "envelope_encode codec payload =
     (let payload_len = u64_or_max (length payload);
          too_large = SnapshotPayloadTooLarge payload_len (envelope_max_payload_len codec)
      in if length payload > envelope_max_payload_len codec \<or> payload_len = - 1 then Inl too_large
         else res_bind (ok_or (checked_add snapshot_header_len (length payload)) too_large) (\<lambda>total_len.
           Inr (snapshot_magic @ to_le 2 snapshot_version @ to_le 8 payload_len @
                to_le 4 (crc32 payload) @ payload)))"

definition envelope_decode :: "snapshot_codec \<Rightarrow> u8 list \<Rightarrow> snapshot_error + u8 list" where
  "envelope_decode codec envelope =
     (if length envelope < snapshot_header_len
      then Inl (SnapshotTruncated snapshot_header_len (length envelope))
      else let found_magic = read_array 8 envelope 0 in
      if found_magic \<noteq> snapshot_magic then Inl (SnapshotIncompatibleMagic found_magic)
      else let version = from_le (read_array 2 envelope version_offset) in
      if version \<noteq> snapshot_version then Inl (SnapshotUnsupportedVersion version snapshot_version)
      else let declared_len = from_le (read_array 8 envelope length_offset);
               too_large = SnapshotPayloadTooLarge declared_len (envelope_max_payload_len codec) in
      res_bind (ok_or (usize_of_u64 declared_len) too_large) (\<lambda>payload_len.
      if payload_len > envelope_max_payload_len codec then Inl too_large
      else res_bind (ok_or (checked_add snapshot_header_len payload_len) too_large) (\<lambda>expected_len.
      if length envelope < expected_len
      then Inl (SnapshotTruncated expected_len (length envelope))
      else if length envelope > expected_len
      then Inl (SnapshotTrailingBytes expected_len (length envelope))
      else let expected_checksum = from_le (read_array 4 envelope checksum_offset);
               payload = take (expected_len - snapshot_header_len) (drop snapshot_header_len envelope);
               actual_checksum = crc32 payload in
      if actual_checksum \<noteq> expected_checksum
      then Inl (SnapshotChecksumMismatch expected_checksum actual_checksum)
      else Inr payload)))"

section \<open>The decoder accepts exactly the encoder's images\<close>

definition envelope_of :: "u8 list \<Rightarrow> u8 list" where
  "envelope_of p = snapshot_magic @ to_le 2 snapshot_version @ to_le 8 (of_nat (length p) :: u64) @
     to_le 4 (crc32 p) @ p"

definition envelope_fits :: "snapshot_codec \<Rightarrow> u8 list \<Rightarrow> bool" where
  "envelope_fits codec p \<longleftrightarrow>
     length p \<le> envelope_max_payload_len codec \<and> snapshot_header_len + length p \<le> usize_max"

lemma length_envelope_of [simp]: "length (envelope_of p) = 22 + length p"
  by (simp add: envelope_of_def)

lemma u64_or_max_fits: "n \<le> usize_max \<Longrightarrow> u64_or_max n = of_nat n"
  by (simp add: u64_or_max_def u64_of_usize_eq)

lemma of_nat_max: "n < usize_max \<Longrightarrow> (of_nat n :: u64) \<noteq> - 1"
proof
  assume n: "n < usize_max" and "(of_nat n :: u64) = - 1"
  then have "unat (of_nat n :: u64) = unat (- 1 :: u64)" by simp
  with n show False by (simp add: unsigned_minus_1_eq_mask usize_max_eq mask_eq_exp_minus_1)
qed

lemma envelope_encode_eq:
  "envelope_fits codec p \<Longrightarrow> envelope_encode codec p = Inr (envelope_of p)"
  by (simp add: envelope_fits_def envelope_encode_def envelope_of_def u64_or_max_fits of_nat_max
      checked_add_def Let_def)

lemma envelope_encode_fails:
  assumes "\<not> envelope_fits codec p"
  shows "envelope_encode codec p =
    Inl (SnapshotPayloadTooLarge (u64_or_max (length p)) (envelope_max_payload_len codec))"
  using assms by (auto simp: envelope_fits_def envelope_encode_def checked_add_def Let_def)

lemma envelope_encode_iff:
  "envelope_encode codec p = Inr e \<longleftrightarrow> envelope_fits codec p \<and> e = envelope_of p"
  by (cases "envelope_fits codec p") (auto simp: envelope_encode_eq envelope_encode_fails)

lemma envelope_of_parts [simp]:
  "read_array 8 (envelope_of p) 0 = snapshot_magic"
  "read_array 2 (envelope_of p) 8 = to_le 2 snapshot_version"
  "read_array 8 (envelope_of p) 10 = to_le 8 (of_nat (length p) :: u64)"
  "read_array 4 (envelope_of p) 18 = to_le 4 (crc32 p)"
  "drop 22 (envelope_of p) = p"
  by (simp_all add: read_array_def envelope_of_def)

lemma envelope_decode_of: "envelope_fits codec p \<Longrightarrow> envelope_decode codec (envelope_of p) = Inr p"
  by (simp add: envelope_decode_def envelope_fits_def Let_def checked_add_def)

lemma le_field: "length bs = n \<Longrightarrow> 8 * n \<le> LENGTH('a) \<Longrightarrow> to_le n (from_le bs :: 'a::len word) = bs"
  using to_le_from_le [of bs] by auto

lemma split_fields:
  "e = read_array 8 e 0 @ read_array 2 e 8 @ read_array 8 e 10 @ read_array 4 e 18 @ drop 22 e"
  by (simp add: read_array_def flip: append_assoc take_add)

lemma envelope_decode_sound:
  assumes "envelope_decode codec e = Inr p"
  shows "envelope_fits codec p \<and> e = envelope_of p"
proof -
  let ?len = "from_le (read_array 8 e 10) :: u64"
  have len: "22 \<le> length e" and magic: "read_array 8 e 0 = snapshot_magic"
    and version: "from_le (read_array 2 e 8) = snapshot_version"
    and bound: "unat ?len \<le> envelope_max_payload_len codec" "22 + unat ?len \<le> usize_max"
    and exact: "length e = 22 + unat ?len"
    and crc: "crc32 p = from_le (read_array 4 e 18)" and payload: "p = drop 22 e"
    using assms
    by (auto simp: envelope_decode_def Let_def result_simps split: if_splits)
  have plen: "length p = unat ?len" using exact payload by simp
  have v: "read_array 2 e 8 = to_le 2 snapshot_version"
    using le_field [of "read_array 2 e 8" 2, where ?'a = 16] version len by (simp add: read_array_def)
  have l: "read_array 8 e 10 = to_le 8 (of_nat (length p) :: u64)"
    using le_field [of "read_array 8 e 10" 8, where ?'a = 64] len plen by (simp add: read_array_def)
  have c: "read_array 4 e 18 = to_le 4 (crc32 p)"
    using le_field [of "read_array 4 e 18" 4, where ?'a = 32] crc len by (simp add: read_array_def)
  have "e = read_array 8 e 0 @ read_array 2 e 8 @ read_array 8 e 10 @ read_array 4 e 18 @ drop 22 e"
    by (rule split_fields)
  also have "\<dots> = envelope_of p"
    by (simp only: envelope_of_def magic v l c payload [symmetric])
  finally have "e = envelope_of p" .
  moreover have "envelope_fits codec p" using bound plen by (simp add: envelope_fits_def)
  ultimately show ?thesis by simp
qed

lemma envelope_decode_iff:
  "envelope_decode codec e = Inr p \<longleftrightarrow> envelope_fits codec p \<and> e = envelope_of p"
  using envelope_decode_sound envelope_decode_of by blast

text \<open>C25: Decoding an envelope gives a payload exactly when encoding that payload gives that
  envelope; encoding succeeds exactly within the codec's bound and otherwise reports the payload's
  length and the bound.\<close>

theorem envelope_roundtrip:
  "(envelope_decode codec e = Inr p \<longleftrightarrow> envelope_encode codec p = Inr e) \<and>
   envelope_encode codec p =
     (if length p \<le> envelope_max_payload_len codec \<and> 22 + length p \<le> usize_max
      then Inr (envelope_of p)
      else Inl (SnapshotPayloadTooLarge (u64_or_max (length p)) (envelope_max_payload_len codec)))"
  using envelope_encode_eq [of codec p] envelope_encode_fails [of codec p]
  by (auto simp: envelope_decode_iff envelope_encode_iff envelope_fits_def)

section \<open>Corruption is detected\<close>

text \<open>C26: An envelope in which any single byte was changed is rejected, wherever the byte is.\<close>

theorem envelope_byte_corruption_rejected:
  assumes "envelope_encode codec p = Inr e" and "i < length e" and "b \<noteq> e ! i"
  shows "\<exists>err. envelope_decode codec' (e[i := b]) = Inl err"
proof (rule ccontr)
  assume "\<not> ?thesis"
  then obtain q where "envelope_decode codec' (e[i := b]) = Inr q"
    by (metis sum.exhaust)
  then have q: "e[i := b] = envelope_of q" by (simp add: envelope_decode_iff)
  have e: "e = envelope_of p" using assms(1) by (simp add: envelope_encode_iff)
  have len: "length q = length p" using arg_cong [OF q, of length] e by simp
  have changed: "envelope_of q \<noteq> envelope_of p"
    using assms(2,3) q e by (metis nth_list_update_eq)
  show False
  proof (cases "i < 22")
    case True
    then have "q = p" using arg_cong [OF q, of "drop 22"] e by simp
    with changed show False by simp
  next
    case False
    then have i: "i = 22 + (i - 22)" "i - 22 < length p" using assms(2) e by simp_all
    have "q = p[i - 22 := b]"
      using arg_cong [OF q, of "drop 22"] False e by (simp add: drop_update_swap)
    then have upd: "q = take (i - 22) p @ [b] @ drop (Suc (i - 22)) p"
      using i(2) by (simp add: upd_conv_take_nth_drop)
    have old: "p = take (i - 22) p @ [p ! (i - 22)] @ drop (Suc (i - 22)) p"
      using i(2) by (simp add: id_take_nth_drop)
    have "read_array 4 (e[i := b]) 18 = read_array 4 e 18"
      using False by (simp add: read_array_def drop_update_swap take_update_cancel)
    then have "(to_le 4 (crc32 q)) = to_le 4 (crc32 p)" unfolding q unfolding e by simp
    then have "crc32 q = crc32 p" by (metis from_le_to_le_u32)
    with upd old have "crc32 (take (i - 22) p @ [p ! (i - 22)] @ drop (Suc (i - 22)) p) =
        crc32 (take (i - 22) p @ [b] @ drop (Suc (i - 22)) p)" by metis
    then have "[b] = [p ! (i - 22)]" by (rule crc32_burst) simp_all
    then have "q = p" using upd old by simp
    with changed show False by simp
  qed
qed

theorem envelope_byte_corruption_rejected_witness:
  "\<exists>err. envelope_decode (snapshot_codec_new 1) ((envelope_of [7])[22 := 8]) = Inl err"
proof (rule envelope_byte_corruption_rejected)
  show "envelope_encode (snapshot_codec_new 1) [7] = Inr (envelope_of [7])"
    by (simp add: envelope_encode_eq envelope_fits_def snapshot_codec_new_def usize_max_def)
  show "(22::nat) < length (envelope_of [7])" by simp
  show "(8::u8) \<noteq> envelope_of [7] ! 22" by (simp add: envelope_of_def nth_append snapshot_magic_def)
qed

lemma envelope_decode_header:
  assumes "envelope_fits codec p"
  shows "envelope_decode codec (take 22 (envelope_of p) @ q) =
    (if length q < length p then Inl (SnapshotTruncated (22 + length p) (22 + length q))
     else if length p < length q then Inl (SnapshotTrailingBytes (22 + length p) (22 + length q))
     else if crc32 q \<noteq> crc32 p then Inl (SnapshotChecksumMismatch (crc32 p) (crc32 q))
     else Inr q)"
proof -
  have [simp]: "read_array n (take 22 (envelope_of p) @ q) k = read_array n (envelope_of p) k"
    if "k + n \<le> 22" for n k
    using that by (auto simp: read_array_def drop_take min_def)
  show ?thesis
    using assms
    by (auto simp: envelope_decode_def envelope_fits_def Let_def checked_add_def min_def)
qed

lemma envelope_cut:
  assumes "envelope_fits codec p" and "k < 22 + length p"
  shows "envelope_decode codec (take k (envelope_of p)) =
    Inl (SnapshotTruncated (if k < 22 then 22 else 22 + length p) k)"
proof (cases "k < 22")
  case True
  then show ?thesis using assms(2) by (simp add: envelope_decode_def)
next
  case False
  then obtain j where k: "k = 22 + j" using le_Suc_ex not_less by metis
  have "take k (envelope_of p) = take 22 (envelope_of p) @ take j p"
    unfolding k take_add by simp
  moreover have "j < length p" using assms(2) k by simp
  ultimately show ?thesis
    using envelope_decode_header [of codec p "take j p"] assms(1) k by simp
qed

lemma envelope_extended:
  assumes "envelope_fits codec p" and "extra \<noteq> []"
  shows "envelope_decode codec (envelope_of p @ extra) =
    Inl (SnapshotTrailingBytes (22 + length p) (22 + length p + length extra))"
proof -
  have split: "envelope_of p @ extra = take 22 (envelope_of p) @ p @ extra"
    by (metis append_assoc append_take_drop_id envelope_of_parts(5))
  show ?thesis
    unfolding split using envelope_decode_header [of codec p "p @ extra"] assms by simp
qed

text \<open>Damage is reported as what it is: a replaced window of at most four payload bytes as a
  checksum mismatch with both checksums, a cut envelope as truncated, an extended one as trailing
  bytes, with the lengths.\<close>

theorem envelope_damage_reported:
  assumes "envelope_fits codec (pre @ w @ post)" and "e = envelope_of (pre @ w @ post)"
    and "length w' = length w" and "length w \<le> 4" and "w' \<noteq> w" and "k < length e" and "extra \<noteq> []"
  shows "envelope_decode codec (take 22 e @ pre @ w' @ post) =
      Inl (SnapshotChecksumMismatch (crc32 (pre @ w @ post)) (crc32 (pre @ w' @ post))) \<and>
    envelope_decode codec (take k e) = Inl (SnapshotTruncated (if k < 22 then 22 else length e) k) \<and>
    envelope_decode codec (e @ extra) = Inl (SnapshotTrailingBytes (length e) (length e + length extra))"
proof (intro conjI)
  let ?p = "pre @ w @ post"
  have "crc32 (pre @ w' @ post) \<noteq> crc32 ?p"
    using crc32_burst [of pre w' post w] assms(3-5) by auto
  then show "envelope_decode codec (take 22 e @ pre @ w' @ post) =
      Inl (SnapshotChecksumMismatch (crc32 ?p) (crc32 (pre @ w' @ post)))"
    using assms(1-3) envelope_decode_header [of codec ?p "pre @ w' @ post"] by simp
  show "envelope_decode codec (take k e) = Inl (SnapshotTruncated (if k < 22 then 22 else length e) k)"
    using envelope_cut [of codec ?p k] assms(1,2,6) by simp
  show "envelope_decode codec (e @ extra) =
      Inl (SnapshotTrailingBytes (length e) (length e + length extra))"
    using envelope_extended [of codec ?p extra] assms(1,2,7) by simp
qed

theorem envelope_damage_reported_witness:
  "envelope_decode (snapshot_codec_new 3) (take 22 (envelope_of [1, 2, 3]) @ [1, 9, 3]) =
     Inl (SnapshotChecksumMismatch (crc32 [1, 2, 3]) (crc32 [1, 9, 3]))"
proof -
  have "envelope_fits (snapshot_codec_new 3) ([1] @ [2] @ [3])"
    by (simp add: envelope_fits_def snapshot_codec_new_def usize_max_def)
  from envelope_damage_reported [OF this refl, where w' = "[9]" and k = 0 and extra = "[0]"]
  show ?thesis by simp
qed

end
