(* ===== verification/File_Replace.thy ===== *)
theory File_Replace
  imports Crc_Envelope
begin

text \<open>
  Creating and atomically replacing a snapshot file (\<^verbatim>\<open>src/snapshot.rs\<close>,
  \<open>create_new_file\<close> and \<open>replace_file\<close>): a temporary sibling file is created under an
  unused name, written, synchronised, renamed over the destination, and the directory is
  synchronised. The directory is a state, the file system an environment that may make any call
  fail and may identify different names (case folding). A crash is an environment in which every
  later call fails, so the statements about all environments speak about crashes too.
\<close>

section \<open>The file system\<close>

type_synonym name = string

datatype 'io io_error = AlreadyExists | NotFound | NameTooLong | OtherError 'io

text \<open>What the operating system decides: the directory entry a name resolves to, the names it
  refuses as too long, the calls that fail (by number), and how much a failing write has written.\<close>

record 'io environment =
  resolve :: "name \<Rightarrow> name"
  too_long :: "name \<Rightarrow> bool"
  fault :: "nat \<Rightarrow> 'io option"
  written_before_fault :: "nat \<Rightarrow> nat"

text \<open>The parent directory: its entries, the visible and the synchronised contents of files by
  inode, the next unused inode and the number of calls made.\<close>

record directory =
  entries :: "name \<rightharpoonup> nat"
  contents :: "nat \<Rightarrow> u8 list"
  synced :: "nat \<Rightarrow> u8 list option"
  fresh :: nat
  calls :: nat

definition tick :: "directory \<Rightarrow> directory" where
  "tick d = d\<lparr>calls := Suc (calls d)\<rparr>"

text \<open>A system call: it fails when the environment says so, otherwise it acts.\<close>

definition syscall ::
  "'io environment \<Rightarrow> (directory \<Rightarrow> ('io io_error + 'a) \<times> directory) \<Rightarrow> directory \<Rightarrow>
     ('io io_error + 'a) \<times> directory"
where
  "syscall env act d =
     (case fault env (calls d) of
        Some e \<Rightarrow> (Inl (OtherError e), tick d)
      | None \<Rightarrow> act (tick d))"

text \<open>\<open>openat\<close> with \<open>O_CREAT | O_EXCL\<close>, giving the inode of the new empty file.\<close>

definition dir_create ::
  "'io environment \<Rightarrow> name \<Rightarrow> directory \<Rightarrow> ('io io_error + nat) \<times> directory" where
  "dir_create env name = syscall env (\<lambda>d.
     if too_long env name then (Inl NameTooLong, d)
     else if entries d (resolve env name) \<noteq> None then (Inl AlreadyExists, d)
     else (Inr (fresh d), d\<lparr>entries := (entries d)(resolve env name \<mapsto> fresh d),
             contents := (contents d)(fresh d := []), synced := (synced d)(fresh d := None),
             fresh := Suc (fresh d)\<rparr>))"

text \<open>\<open>fstat\<close> of the open file, then \<open>fstatat\<close> of the name.\<close>

definition entry_aliases_file ::
  "'io environment \<Rightarrow> name \<Rightarrow> nat \<Rightarrow> directory \<Rightarrow> ('io io_error + bool) \<times> directory" where
  "entry_aliases_file env name inode d =
     (case syscall env (\<lambda>d. (Inr (), d)) d of
        (Inl e, d1) \<Rightarrow> (Inl e, d1)
      | (Inr _, d1) \<Rightarrow>
          (case syscall env (\<lambda>d. case entries d (resolve env name) of
               None \<Rightarrow> (Inl NotFound, d)
             | Some i \<Rightarrow> (Inr i, d)) d1 of
             (Inl e, d2) \<Rightarrow> (if e = NotFound then Inr False else Inl e, d2)
           | (Inr i, d2) \<Rightarrow> (Inr (i = inode), d2)))"

definition write_all ::
  "'io environment \<Rightarrow> nat \<Rightarrow> u8 list \<Rightarrow> directory \<Rightarrow> ('io io_error + unit) \<times> directory" where
  "write_all env inode bytes d =
     (case fault env (calls d) of
        Some e \<Rightarrow> (Inl (OtherError e), (tick d)\<lparr>contents := (contents d)(inode :=
           contents d inode @ take (written_before_fault env (calls d)) bytes)\<rparr>)
      | None \<Rightarrow> (Inr (), (tick d)\<lparr>contents := (contents d)(inode := contents d inode @ bytes)\<rparr>))"

definition file_sync ::
  "'io environment \<Rightarrow> nat \<Rightarrow> directory \<Rightarrow> ('io io_error + unit) \<times> directory" where
  "file_sync env inode = syscall env (\<lambda>d.
     (Inr (), d\<lparr>synced := (synced d)(inode \<mapsto> contents d inode)\<rparr>))"

definition dir_rename ::
  "'io environment \<Rightarrow> name \<Rightarrow> name \<Rightarrow> directory \<Rightarrow> ('io io_error + unit) \<times> directory" where
  "dir_rename env source destination = syscall env (\<lambda>d.
     case entries d (resolve env source) of
       None \<Rightarrow> (Inl NotFound, d)
     | Some i \<Rightarrow>
         if entries d (resolve env destination) = Some i then (Inr (), d)
         else (Inr (), d\<lparr>entries :=
                ((entries d)(resolve env source := None))(resolve env destination \<mapsto> i)\<rparr>))"

definition dir_remove ::
  "'io environment \<Rightarrow> name \<Rightarrow> directory \<Rightarrow> ('io io_error + unit) \<times> directory" where
  "dir_remove env name = syscall env (\<lambda>d.
     case entries d (resolve env name) of
       None \<Rightarrow> (Inl NotFound, d)
     | Some _ \<Rightarrow> (Inr (), d\<lparr>entries := (entries d)(resolve env name := None)\<rparr>))"

definition dir_sync :: "'io environment \<Rightarrow> directory \<Rightarrow> ('io io_error + unit) \<times> directory" where
  "dir_sync env = syscall env (\<lambda>d. (Inr (), d))"

section \<open>Errors and temporary files\<close>

datatype 'io snapshot_file_error =
  FileEncode snapshot_error
| FileCreate "'io io_error"
| FileWrite "'io io_error"
| FileSync "'io io_error"

datatype 'io replace_error =
  ReplaceEncode snapshot_error
| InvalidDestination
| OpenDirectory "'io io_error"
| CreateTemporary "'io io_error"
| WriteTemporary "'io io_error"
| SyncTemporary "'io io_error"
| RenameTemporary "'io io_error"
| CleanupTemporary "'io io_error" "'io replace_error"
| SyncDirectory "'io io_error"

definition destination_was_replaced :: "'io replace_error \<Rightarrow> bool" where
  "destination_was_replaced e \<longleftrightarrow> (case e of SyncDirectory _ \<Rightarrow> True | _ \<Rightarrow> False)"

definition operation_error :: "'io replace_error \<Rightarrow> 'io replace_error option" where
  "operation_error e = (case e of CleanupTemporary _ operation \<Rightarrow> Some operation | _ \<Rightarrow> None)"

definition temporary_cleanup ::
  "'io environment \<Rightarrow> name \<Rightarrow> 'io replace_error \<Rightarrow> directory \<Rightarrow> 'io replace_error \<times> directory" where
  "temporary_cleanup env name operation d =
     (case dir_remove env name d of
        (Inr _, d') \<Rightarrow> (operation, d')
      | (Inl e, d') \<Rightarrow> (if e = NotFound then operation else CleanupTemporary e operation, d'))"

definition temporary_discard ::
  "'io environment \<Rightarrow> name \<Rightarrow> directory \<Rightarrow> ('io io_error + unit) \<times> directory" where
  "temporary_discard env name d =
     (case dir_remove env name d of
        (Inr _, d') \<Rightarrow> (Inr (), d')
      | (Inl e, d') \<Rightarrow> (if e = NotFound then Inr () else Inl e, d'))"

text \<open>The destination's name is the last component of its path, when that is a normal one.\<close>

definition last_component :: "string \<Rightarrow> string" where
  "last_component path = rev (takeWhile (\<lambda>c. c \<noteq> CHR ''/'') (rev path))"

definition ends_with :: "string \<Rightarrow> string \<Rightarrow> bool" where
  "ends_with suffix s \<longleftrightarrow> length suffix \<le> length s \<and> drop (length s - length suffix) s = suffix"

definition snapshot_destination_name :: "string \<Rightarrow> 'io replace_error + name" where
  "snapshot_destination_name path =
     (if ends_with ''/'' path \<or> ends_with ''/.'' path then Inl InvalidDestination
      else let name = last_component path in
      if name = [] \<or> name = ''.'' \<or> name = ''..'' then Inl InvalidDestination
      else if CHR 0x00 \<in> set name then Inl InvalidDestination
      else Inr name)"

definition temporary_snapshot_suffix :: "nat \<Rightarrow> u32 \<Rightarrow> name" where
  "temporary_snapshot_suffix pid sequence =
     ''.rusthouse-snapshot-'' @ usize_display pid @ ''-'' @ usize_display (unat sequence) @ ''.tmp''"

definition temporary_create_attempts :: nat where
  "temporary_create_attempts = 128"

text \<open>One attempt: the preferred name, or the suffix alone when that is too long; \<open>None\<close> is
  \<open>continue\<close>.\<close>

definition create_candidate ::
  "'io environment \<Rightarrow> name \<Rightarrow> name \<Rightarrow> directory \<Rightarrow> ('io io_error + (nat \<times> name) option) \<times> directory" where
  "create_candidate env destination suffix d =
     (let preferred = destination @ suffix in
      case dir_create env preferred d of
        (Inr inode, d1) \<Rightarrow> (Inr (Some (inode, preferred)), d1)
      | (Inl e, d1) \<Rightarrow>
          if e = NameTooLong then
            (if suffix = destination then (Inr None, d1)
             else case dir_create env suffix d1 of
               (Inr inode, d2) \<Rightarrow> (Inr (Some (inode, suffix)), d2)
             | (Inl e', d2) \<Rightarrow> if e' = AlreadyExists then (Inr None, d2) else (Inl e', d2))
          else if e = AlreadyExists then (Inr None, d1)
          else (Inl e, d1))"

fun create_temporary_snapshot ::
  "'io environment \<Rightarrow> nat \<Rightarrow> nat \<Rightarrow> name \<Rightarrow> u32 \<Rightarrow> directory \<Rightarrow>
     ('io replace_error + nat \<times> name) \<times> u32 \<times> directory"
where
  "create_temporary_snapshot env pid 0 destination counter d =
     (Inl (CreateTemporary AlreadyExists), counter, d)"
| "create_temporary_snapshot env pid (Suc attempts) destination counter d =
     (case create_candidate env destination (temporary_snapshot_suffix pid counter) d of
        (Inl e, d1) \<Rightarrow> (Inl (CreateTemporary e), counter + 1, d1)
      | (Inr None, d1) \<Rightarrow> create_temporary_snapshot env pid attempts destination (counter + 1) d1
      | (Inr (Some (inode, name)), d1) \<Rightarrow>
          (case entry_aliases_file env destination inode d1 of
             (Inr False, d2) \<Rightarrow> (Inr (inode, name), counter + 1, d2)
           | (Inr True, d2) \<Rightarrow>
               (case temporary_discard env name d2 of
                  (Inl source, d3) \<Rightarrow>
                    (Inl (CleanupTemporary source (CreateTemporary AlreadyExists)), counter + 1, d3)
                | (Inr _, d3) \<Rightarrow> create_temporary_snapshot env pid attempts destination (counter + 1) d3)
           | (Inl e, d2) \<Rightarrow>
               (case temporary_cleanup env name (CreateTemporary e) d2 of
                  (err, d3) \<Rightarrow> (Inl err, counter + 1, d3))))"

definition replace_envelope_in_directory ::
  "'io environment \<Rightarrow> nat \<Rightarrow> name \<Rightarrow> u8 list \<Rightarrow> u32 \<Rightarrow> directory \<Rightarrow>
     ('io replace_error + unit) \<times> u32 \<times> directory"
where
  "replace_envelope_in_directory env pid destination envelope counter d =
     (let fail = (\<lambda>name operation counter d.
            case temporary_cleanup env name operation d of (err, d') \<Rightarrow> (Inl err, counter, d')) in
      case create_temporary_snapshot env pid temporary_create_attempts destination counter d of
        (Inl e, c, d1) \<Rightarrow> (Inl e, c, d1)
      | (Inr (inode, name), c, d1) \<Rightarrow>
      case write_all env inode envelope d1 of
        (Inl e, d2) \<Rightarrow> fail name (WriteTemporary e) c d2
      | (Inr _, d2) \<Rightarrow>
      case file_sync env inode d2 of
        (Inl e, d3) \<Rightarrow> fail name (SyncTemporary e) c d3
      | (Inr _, d3) \<Rightarrow>
      case dir_rename env name destination d3 of
        (Inl e, d4) \<Rightarrow> fail name (RenameTemporary e) c d4
      | (Inr _, d4) \<Rightarrow>
      case dir_sync env d4 of (r, d5) \<Rightarrow> (map_err SyncDirectory r, c, d5))"

text \<open>\<open>opens\<close> is the outcome of opening the parent directory.\<close>

definition replace_file ::
  "'io environment \<Rightarrow> nat \<Rightarrow> snapshot_codec \<Rightarrow> string \<Rightarrow> u8 list \<Rightarrow> 'io io_error + unit \<Rightarrow> u32 \<Rightarrow> directory \<Rightarrow>
     ('io replace_error + unit) \<times> u32 \<times> directory"
where
  "replace_file env pid codec path payload opens counter d =
     (case envelope_encode codec payload of
        Inl e \<Rightarrow> (Inl (ReplaceEncode e), counter, d)
      | Inr envelope \<Rightarrow>
      case snapshot_destination_name path of
        Inl e \<Rightarrow> (Inl e, counter, d)
      | Inr destination \<Rightarrow>
      case opens of
        Inl e \<Rightarrow> (Inl (OpenDirectory e), counter, d)
      | Inr _ \<Rightarrow> replace_envelope_in_directory env pid destination envelope counter d)"

text \<open>The destination of \<open>create_new_file\<close> is a name of the directory here.\<close>

definition create_new_file ::
  "'io environment \<Rightarrow> snapshot_codec \<Rightarrow> name \<Rightarrow> u8 list \<Rightarrow> directory \<Rightarrow>
     ('io snapshot_file_error + unit) \<times> directory"
where
  "create_new_file env codec name payload d =
     (case envelope_encode codec payload of
        Inl e \<Rightarrow> (Inl (FileEncode e), d)
      | Inr envelope \<Rightarrow>
      case dir_create env name d of
        (Inl e, d1) \<Rightarrow> (Inl (FileCreate e), d1)
      | (Inr inode, d1) \<Rightarrow>
      case write_all env inode envelope d1 of
        (Inl e, d2) \<Rightarrow> (Inl (FileWrite e), d2)
      | (Inr _, d2) \<Rightarrow> apfst (map_err FileSync) (file_sync env inode d2))"

section \<open>What the calls keep\<close>

text \<open>\<open>kept\<close>: the files that existed before have
  their contents; \<open>unchanged\<close>: and the entries are the same; \<open>holding\<close>: and there is one
  more entry, of a new file.\<close>

definition kept :: "directory \<Rightarrow> directory \<Rightarrow> bool" where
  "kept old d \<longleftrightarrow> fresh old \<le> fresh d \<and>
     (\<forall>i<fresh old. contents d i = contents old i \<and> synced d i = synced old i)"

definition unchanged :: "directory \<Rightarrow> directory \<Rightarrow> bool" where
  "unchanged old d \<longleftrightarrow> kept old d \<and> entries d = entries old"

definition holding :: "directory \<Rightarrow> name \<Rightarrow> nat \<Rightarrow> directory \<Rightarrow> bool" where
  "holding old k i d \<longleftrightarrow> kept old d \<and> entries old k = None \<and> entries d = (entries old)(k \<mapsto> i) \<and>
     fresh old \<le> i \<and> i < fresh d"

lemma kept_refl [simp]: "kept d d"
  by (simp add: kept_def)

lemma tick_simps [simp]:
  "entries (tick d) = entries d" "contents (tick d) = contents d" "synced (tick d) = synced d"
  "fresh (tick d) = fresh d"
  by (simp_all add: tick_def)

lemma kept_entries [simp]: "kept old (d\<lparr>entries := es\<rparr>) = kept old d"
  by (simp add: kept_def)

lemma kept_tick [simp]: "kept old (tick d) = kept old d"
  by (simp add: kept_def)

lemma unchanged_tick [simp]: "unchanged old (tick d) = unchanged old d"
  by (simp add: unchanged_def)

lemma holding_tick [simp]: "holding old k i (tick d) = holding old k i d"
  by (simp add: holding_def)

lemma dir_create_cases:
  assumes "dir_create env name d = (r, d')" and "unchanged old d"
  shows "case r of Inl _ \<Rightarrow> unchanged old d'
    | Inr i \<Rightarrow> holding old (resolve env name) i d' \<and> contents d' i = [] \<and> synced d' i = None"
proof -
  have fresh: "fresh old \<le> fresh d" using assms(2) by (simp add: unchanged_def kept_def)
  then show ?thesis
    using assms by (auto simp: dir_create_def syscall_def unchanged_def kept_def holding_def
        split: option.splits if_splits)
qed

lemma entry_aliases_file_cases:
  assumes "entry_aliases_file env name i d = (r, d')" and "holding old k i d"
  shows "holding old k i d' \<and> contents d' = contents d \<and> synced d' = synced d \<and>
    (r = Inr False \<longrightarrow> entries d' (resolve env name) \<noteq> Some i)"
  using assms by (auto simp: entry_aliases_file_def syscall_def split: option.splits if_splits)

lemma dir_remove_cases:
  assumes "dir_remove env name d = (r, d')" and "holding old (resolve env name) i d"
  shows "case r of Inl e \<Rightarrow> e \<noteq> NotFound \<and> holding old (resolve env name) i d'
    | Inr _ \<Rightarrow> unchanged old d'"
  using assms by (auto simp: dir_remove_def syscall_def holding_def unchanged_def fun_upd_idem
      split: option.splits)

lemma temporary_cleanup_cases:
  assumes "temporary_cleanup env name operation d = (err, d')" and "holding old (resolve env name) i d"
  shows "err = operation \<and> unchanged old d' \<or>
    (\<exists>e. err = CleanupTemporary e operation \<and> holding old (resolve env name) i d')"
  using assms dir_remove_cases [of env name d _ _ old i]
  by (fastforce simp: temporary_cleanup_def split: prod.splits sum.splits if_splits)

lemma temporary_discard_cases:
  assumes "temporary_discard env name d = (r, d')" and "holding old (resolve env name) i d"
  shows "case r of Inl _ \<Rightarrow> holding old (resolve env name) i d' | Inr _ \<Rightarrow> unchanged old d'"
  using assms dir_remove_cases [of env name d _ _ old i]
  by (fastforce simp: temporary_discard_def split: prod.splits sum.splits if_splits)

lemma create_candidate_cases:
  assumes "create_candidate env destination suffix d = (r, d')" and "unchanged old d"
  shows "case r of
      Inr (Some (i, name)) \<Rightarrow> holding old (resolve env name) i d' \<and> contents d' i = [] \<and> synced d' i = None
    | _ \<Rightarrow> unchanged old d'"
proof -
  obtain r1 d1 where first: "dir_create env (destination @ suffix) d = (r1, d1)" by fastforce
  note c1 = dir_create_cases [OF first assms(2)]
  show ?thesis
  proof (cases r1)
    case (Inr i)
    with c1 first assms(1) show ?thesis by (auto simp: create_candidate_def)
  next
    case (Inl e)
    obtain r2 d2 where second: "dir_create env suffix d1 = (r2, d2)" by fastforce
    have "unchanged old d1" using c1 Inl by simp
    from dir_create_cases [OF second this] this show ?thesis
      using first second Inl assms(1)
      by (auto simp: create_candidate_def Let_def split: sum.splits if_splits)
  qed
qed

text \<open>Errors that leave a temporary file behind are the ones that say so.\<close>

definition settled :: "directory \<Rightarrow> 'io replace_error \<Rightarrow> directory \<Rightarrow> bool" where
  "settled old err d \<longleftrightarrow> \<not> destination_was_replaced err \<and>
     (unchanged old d \<or> operation_error err \<noteq> None \<and> (\<exists>k i. holding old k i d))"

lemma create_temporary_snapshot_cases:
  assumes "create_temporary_snapshot env pid n destination counter d = (r, c, d')" and "unchanged old d"
  shows "case r of
      Inl err \<Rightarrow> settled old err d'
    | Inr (i, name) \<Rightarrow> holding old (resolve env name) i d' \<and> contents d' i = [] \<and>
        entries d' (resolve env destination) \<noteq> Some i"
  using assms
proof (induction env pid n destination counter d rule: create_temporary_snapshot.induct)
  case (1 env pid destination counter d)
  then show ?case by (auto simp: settled_def destination_was_replaced_def)
next
  case (2 env pid n destination counter d)
  obtain r1 d1 where cand: "create_candidate env destination (temporary_snapshot_suffix pid counter) d = (r1, d1)"
    by fastforce
  note c1 = create_candidate_cases [OF cand 2(4)]
  show ?case
  proof (cases r1)
    case (Inl e)
    with c1 cand 2(3) show ?thesis by (auto simp: settled_def destination_was_replaced_def)
  next
    case outer: (Inr cr)
    show ?thesis
    proof (cases cr)
      case None
      with c1 cand 2(3) outer show ?thesis using 2(1) [OF cand [symmetric]] by auto
    next
      case (Some inn)
      obtain i name where inn: "inn = (i, name)" by fastforce
      have held: "holding old (resolve env name) i d1" "contents d1 i = []"
        using c1 outer Some inn by auto
      obtain r2 d2 where aliases: "entry_aliases_file env destination i d1 = (r2, d2)" by fastforce
      note c2 = entry_aliases_file_cases [OF aliases held(1)]
      then have held2: "holding old (resolve env name) i d2" by simp
      show ?thesis
      proof (cases r2)
        case (Inl e)
        obtain err d3 where clean: "temporary_cleanup env name (CreateTemporary e) d2 = (err, d3)" by fastforce
        from temporary_cleanup_cases [OF clean held2] show ?thesis
          using cand outer Some inn aliases Inl clean 2(3)
          by (auto simp: settled_def destination_was_replaced_def operation_error_def)
      next
        case (Inr same)
        show ?thesis
        proof (cases same)
          case False
          with cand outer Some inn aliases Inr 2(3) c2 held(2) show ?thesis by auto
        next
          case True
          then have aliased: "same = True" by simp
          obtain r3 d3 where disc: "temporary_discard env name d2 = (r3, d3)" by fastforce
          note c3 = temporary_discard_cases [OF disc held2]
          show ?thesis
          proof (cases r3)
            case (Inl e)
            with c3 show ?thesis
              using cand outer Some inn aliases \<open>r2 = Inr same\<close> True disc 2(3)
              by (auto simp: settled_def destination_was_replaced_def operation_error_def)
          next
            case retry: (Inr u)
            show ?thesis
              using c3 cand outer Some inn aliases \<open>r2 = Inr same\<close> True disc retry 2(3)
                2(2) [OF cand [symmetric] outer Some inn [symmetric] aliases [symmetric]
                  \<open>r2 = Inr same\<close> aliased disc [symmetric] retry]
              by auto
          qed
        qed
      qed
    qed
  qed
qed

section \<open>Atomic replacement\<close>

text \<open>The destination now is a new file with the whole envelope, written through to storage, and
  no other entry has changed.\<close>

definition replaced :: "'io environment \<Rightarrow> directory \<Rightarrow> name \<Rightarrow> u8 list \<Rightarrow> directory \<Rightarrow> bool" where
  "replaced env old destination envelope d \<longleftrightarrow> kept old d \<and>
     (\<exists>i\<ge>fresh old. entries d = (entries old)(resolve env destination \<mapsto> i) \<and>
        contents d i = envelope \<and> synced d i = Some envelope)"

lemma holding_update:
  "holding old k i d \<Longrightarrow> holding old k i (d\<lparr>contents := (contents d)(i := bs)\<rparr>)"
  "holding old k i d \<Longrightarrow> holding old k i (d\<lparr>synced := (synced d)(i := s)\<rparr>)"
  by (auto simp: holding_def kept_def)

lemma write_all_cases:
  assumes "write_all env i bytes d = (r, d')" and "holding old k i d"
  shows "holding old k i d' \<and> entries d' = entries d \<and> (r = Inr () \<longrightarrow> contents d' i = contents d i @ bytes)"
  using assms holding_update(1) [of old k i "tick d"]
  by (auto simp: write_all_def split: option.splits)

lemma file_sync_cases:
  assumes "file_sync env i d = (r, d')" and "holding old k i d"
  shows "holding old k i d' \<and> entries d' = entries d \<and> contents d' = contents d \<and>
    (r = Inr () \<longrightarrow> synced d' i = Some (contents d i))"
  using assms holding_update(2) [of old k i "tick d"]
  by (auto simp: file_sync_def syscall_def split: option.splits)

lemma dir_rename_cases:
  assumes "dir_rename env name destination d = (r, d')" and "holding old (resolve env name) i d"
    and "entries d (resolve env destination) \<noteq> Some i"
    and "contents d i = envelope" and "synced d i = Some envelope"
  shows "case r of Inl e \<Rightarrow> holding old (resolve env name) i d' | Inr _ \<Rightarrow> replaced env old destination envelope d'"
  using assms
  by (auto simp: dir_rename_def syscall_def holding_def replaced_def fun_upd_idem fun_upd_twist
      split: option.splits if_splits)

lemma settled_cleanup:
  assumes "temporary_cleanup env name operation d = (err, d')" and "holding old (resolve env name) i d"
    and "\<not> destination_was_replaced operation"
  shows "settled old err d'"
  using temporary_cleanup_cases [OF assms(1,2)] assms(3)
  by (auto simp: settled_def destination_was_replaced_def operation_error_def)

definition replace_outcome ::
  "'io environment \<Rightarrow> directory \<Rightarrow> name \<Rightarrow> u8 list \<Rightarrow> 'io replace_error + unit \<Rightarrow> directory \<Rightarrow> bool" where
  "replace_outcome env old destination envelope r d \<longleftrightarrow>
     (case r of
        Inr _ \<Rightarrow> replaced env old destination envelope d
      | Inl err \<Rightarrow> if destination_was_replaced err then replaced env old destination envelope d
                   else settled old err d)"

lemma replace_envelope_outcome:
  assumes "replace_envelope_in_directory env pid destination envelope counter d = (r, c, d')"
  shows "replace_outcome env d destination envelope r d'"
proof -
  have start: "unchanged d d" by (simp add: unchanged_def)
  obtain r1 c1 d1 where create:
    "create_temporary_snapshot env pid temporary_create_attempts destination counter d = (r1, c1, d1)"
    using prod_cases3 by blast
  note created = create_temporary_snapshot_cases [OF create start]
  show ?thesis
  proof (cases r1)
    case (Inl e)
    with create created assms show ?thesis
      by (auto simp: replace_envelope_in_directory_def Let_def replace_outcome_def settled_def)
  next
    case (Inr inn)
    obtain i name where inn: "inn = (i, name)" by fastforce
    have held1: "holding d (resolve env name) i d1" "contents d1 i = []"
      "entries d1 (resolve env destination) \<noteq> Some i" using created Inr inn by auto
    obtain r2 d2 where writing: "write_all env i envelope d1 = (r2, d2)" by fastforce
    note held2 = write_all_cases [OF writing held1(1)]
    obtain r3 d3 where syncing: "file_sync env i d2 = (r3, d3)" by fastforce
    note held3 = file_sync_cases [OF syncing conjunct1 [OF held2]]
    obtain r4 d4 where renaming: "dir_rename env name destination d3 = (r4, d4)" by fastforce
    have failed: "replace_outcome env d destination envelope (Inl err) dx"
      if "temporary_cleanup env name op dy = (err, dx)" "holding d (resolve env name) i dy"
        "\<not> destination_was_replaced op" for op dy err dx
      using settled_cleanup [OF that] by (simp add: replace_outcome_def settled_def)
    show ?thesis
    proof (cases r2)
      case (Inl e)
      with create writing Inr inn assms held2 failed [of "WriteTemporary e" d2] show ?thesis
        by (auto simp: replace_envelope_in_directory_def Let_def destination_was_replaced_def split: prod.splits)
    next
      case written: (Inr u)
      show ?thesis
      proof (cases r3)
        case (Inl e)
        with create writing syncing Inr inn written assms held3 failed [of "SyncTemporary e" d3] \<open>r1 = Inr inn\<close>
        show ?thesis
          by (auto simp: replace_envelope_in_directory_def Let_def destination_was_replaced_def split: prod.splits)
      next
        case synchronised: (Inr u')
        have "contents d3 i = envelope" "synced d3 i = Some envelope"
          "entries d3 (resolve env destination) \<noteq> Some i"
          using held1 held2 held3 written synchronised by auto
        note renamed = dir_rename_cases [OF renaming conjunct1 [OF held3] this(3,1,2)]
        show ?thesis
        proof (cases r4)
          case (Inl e)
          with create writing syncing renaming \<open>r1 = Inr inn\<close> inn written synchronised assms renamed
            failed [of "RenameTemporary e" d4]
          show ?thesis
            by (auto simp: replace_envelope_in_directory_def Let_def destination_was_replaced_def split: prod.splits)
        next
          case (Inr u'')
          with create writing syncing renaming \<open>r1 = Inr inn\<close> inn written synchronised assms renamed
          show ?thesis
            by (auto simp: replace_envelope_in_directory_def Let_def dir_sync_def syscall_def replaced_def
                replace_outcome_def destination_was_replaced_def split: option.splits)
        qed
      qed
    qed
  qed
qed

lemma replace_file_success:
  fixes env :: "'io environment"
  assumes "replace_file env pid codec path payload opens counter d = (Inr u, c, d')"
  shows "\<exists>name e. snapshot_destination_name path = (Inr name :: 'io replace_error + name) \<and>
    envelope_encode codec payload = Inr e \<and> replaced env d name e d'"
  using assms replace_envelope_outcome
  by (fastforce simp: replace_file_def replace_outcome_def split: sum.splits)

section \<open>A run without faults\<close>

definition faultless :: "unit environment" where
  "faultless = \<lparr>resolve = id, too_long = (\<lambda>_. False), fault = (\<lambda>_. None), written_before_fault = id\<rparr>"

definition one_file :: directory where
  "one_file = \<lparr>entries = [''s'' \<mapsto> 0], contents = (\<lambda>_. [9]), synced = (\<lambda>_. None), fresh = 1, calls = 0\<rparr>"

lemma faultless_name: "snapshot_destination_name ''a/s'' = (Inr ''s'' :: unit replace_error + name)"
  by (simp add: snapshot_destination_name_def ends_with_def last_component_def Let_def)

lemma faultless_replace:
  assumes "envelope_encode codec payload = Inr e"
  shows "\<exists>c d'. replace_file faultless 7 codec ''a/s'' payload (Inr ()) 0 one_file = (Inr (), c, d') \<and>
    entries d' ''s'' = Some 1 \<and> contents d' 1 = e"
  by (simp add: replace_file_def faultless_name assms replace_envelope_in_directory_def temporary_create_attempts_def
      create_temporary_snapshot.simps(2) [of _ _ 127, simplified] create_candidate_def dir_create_def
      temporary_snapshot_suffix_def entry_aliases_file_def write_all_def file_sync_def dir_rename_def
      dir_sync_def syscall_def tick_def faultless_def one_file_def Let_def del: One_nat_def)

text \<open>C5: Whatever calls fail, and wherever the process dies: after a success, or an error that says
  the destination was replaced, the destination is a new file holding the complete envelope, already
  synchronised before it became visible. After any other error every existing entry, the destination's
  too, is as it was; a temporary file remains only when the error reports that its removal failed. The
  contents of existing files never change.\<close>

theorem replace_file_atomic:
  fixes env :: "'io environment"
  assumes "replace_file env pid codec path payload opens counter d = (r, c, d')"
  shows "(\<forall>i<fresh d. contents d' i = contents d i) \<and>
    (case r of
       Inl err \<Rightarrow>
         (if destination_was_replaced err
          then \<exists>name e. snapshot_destination_name path = (Inr name :: 'io replace_error + name) \<and>
            envelope_encode codec payload = Inr e \<and> replaced env d name e d'
          else (\<forall>name. entries d name \<noteq> None \<longrightarrow> entries d' name = entries d name) \<and>
            (operation_error err = None \<longrightarrow> entries d' = entries d))
     | Inr _ \<Rightarrow> \<exists>name e. snapshot_destination_name path = (Inr name :: 'io replace_error + name) \<and>
            envelope_encode codec payload = Inr e \<and> replaced env d name e d')"
proof (cases "\<exists>e name. envelope_encode codec payload = Inr e \<and>
    snapshot_destination_name path = (Inr name :: 'io replace_error + name) \<and> opens = Inr ()")
  case True
  then obtain e name where e: "envelope_encode codec payload = Inr e"
    and name: "snapshot_destination_name path = (Inr name :: 'io replace_error + name)" by blast
  with True assms have "replace_envelope_in_directory env pid name e counter d = (r, c, d')"
    by (simp add: replace_file_def)
  from replace_envelope_outcome [OF this] e name show ?thesis
    by (cases r) (auto simp: replace_outcome_def replaced_def settled_def unchanged_def holding_def kept_def
        split: if_splits)
next
  case False
  have never: "\<not> destination_was_replaced err"
    if "snapshot_destination_name path = (Inl err :: 'io replace_error + name)" for err
    using that by (auto simp: snapshot_destination_name_def Let_def destination_was_replaced_def split: if_splits)
  show ?thesis
    using False assms never
    by (auto simp: replace_file_def destination_was_replaced_def split: sum.splits)
qed

theorem replace_file_atomic_witness:
  "\<exists>c d'. replace_file faultless 7 (snapshot_codec_new 1) ''a/s'' [5] (Inr ()) 0 one_file = (Inr (), c, d') \<and>
    entries d' = [''s'' \<mapsto> 1] \<and> contents d' 0 = [9] \<and> contents d' 1 = envelope_of [5]"
proof -
  have enc: "envelope_encode (snapshot_codec_new 1) [5] = Inr (envelope_of [5])"
    by (simp add: envelope_encode_eq envelope_fits_def snapshot_codec_new_def usize_max_def)
  from faultless_replace [OF this] obtain c d' where
    run: "replace_file faultless 7 (snapshot_codec_new 1) ''a/s'' [5] (Inr ()) 0 one_file = (Inr (), c, d')"
    and i: "entries d' ''s'' = Some 1" by blast
  from replace_file_atomic [OF run] faultless_name enc i
  have "entries d' = [''s'' \<mapsto> 1] \<and> contents d' 0 = [9] \<and> contents d' 1 = envelope_of [5]"
    by (auto simp: replaced_def faultless_def one_file_def split: if_splits)
  with run show ?thesis by blast
qed

text \<open>Creating a new snapshot file never touches an existing file: whatever calls fail, existing
  entries and contents are as they were, and success means a new synchronised file with the complete
  envelope under a name that was free.\<close>

theorem create_new_file_exclusive:
  assumes "create_new_file env codec name payload d = (r, d')"
  shows "(\<forall>n. entries d n \<noteq> None \<longrightarrow> entries d' n = entries d n) \<and>
    (\<forall>i<fresh d. contents d' i = contents d i) \<and>
    (r = Inr () \<longrightarrow> entries d (resolve env name) = None \<and>
       (\<exists>e. envelope_encode codec payload = Inr e \<and> replaced env d name e d'))"
proof (cases "envelope_encode codec payload")
  case (Inl e)
  with assms show ?thesis by (auto simp: create_new_file_def)
next
  case (Inr envelope)
  obtain r1 d1 where create: "dir_create env name d = (r1, d1)" by fastforce
  have start: "unchanged d d" by (simp add: unchanged_def)
  note created = dir_create_cases [OF create start]
  show ?thesis
  proof (cases r1)
    case (Inl e)
    with Inr create created assms show ?thesis
      by (auto simp: create_new_file_def unchanged_def kept_def)
  next
    case opened: (Inr i)
    with created have held: "holding d (resolve env name) i d1" "contents d1 i = []" by simp_all
    obtain r2 d2 where writing: "write_all env i envelope d1 = (r2, d2)" by fastforce
    note held2 = write_all_cases [OF writing held(1)]
    obtain r3 d3 where syncing: "file_sync env i d2 = (r3, d3)" by fastforce
    note held3 = file_sync_cases [OF syncing conjunct1 [OF held2]]
    have "create_new_file env codec name payload d =
        (case r2 of Inl e \<Rightarrow> (Inl (FileWrite e), d2) | Inr _ \<Rightarrow> (map_err FileSync r3, d3))"
      using Inr create opened writing syncing by (auto simp: create_new_file_def split: sum.split)
    with assms held held2 held3 Inr show ?thesis
      by (auto simp: holding_def kept_def replaced_def result_simps split: sum.splits)
  qed
qed

theorem create_new_file_exclusive_witness:
  "entries (snd (create_new_file \<lparr>resolve = id, too_long = (\<lambda>_. False), fault = (\<lambda>_. None :: unit option), written_before_fault = id\<rparr>
      (snapshot_codec_new 1) ''s'' [5]
      \<lparr>entries = [''s'' \<mapsto> 0], contents = (\<lambda>_. [9]), synced = (\<lambda>_. None), fresh = 1, calls = 0\<rparr>)) ''s'' = Some 0"
  using create_new_file_exclusive [OF surjective_pairing, where name = "''s''" and payload = "[5]"
      and codec = "snapshot_codec_new 1"
      and d = "\<lparr>entries = [''s'' \<mapsto> 0], contents = (\<lambda>_. [9]), synced = (\<lambda>_. None), fresh = 1, calls = 0\<rparr>"
      and env = "\<lparr>resolve = id, too_long = (\<lambda>_. False), fault = (\<lambda>_. None :: unit option), written_before_fault = id\<rparr>"]
  by simp

end
