(* ===== verification/Offset_Format.thy ===== *)
theory Offset_Format
  imports Crc_Envelope
begin

text \<open>
  Sequences of self-delimiting elements in a byte payload, read by index: the loop over the
  elements that checks each at the current offset before anything is decoded, and the loop that
  decodes them afterwards. The payload formats of \<^verbatim>\<open>src/snapshot.rs\<close> are instances;
  the locale derives, from the laws of one element, that the checks accept exactly the written
  sequences and that the second loop reads back what was written.
\<close>

section \<open>The loops\<close>

text \<open>\<open>check_all\<close> runs the body of a validation loop for the given number of elements; its
  state is the offset and an accumulator. \<open>get_all\<close> is the decoding loop.\<close>

fun check_all ::
  "(usize \<Rightarrow> u8 list \<Rightarrow> usize \<times> 's \<Rightarrow> 'e + usize \<times> 's) \<Rightarrow> usize \<Rightarrow> u8 list \<Rightarrow> nat \<Rightarrow>
     usize \<times> 's \<Rightarrow> 'e + usize \<times> 's"
where
  "check_all check i payload 0 st = Inr st"
| "check_all check i payload (Suc n) st =
     res_bind (check i payload st) (check_all check (Suc i) payload n)"

fun get_all :: "(u8 list \<Rightarrow> usize \<Rightarrow> 'a \<times> usize) \<Rightarrow> u8 list \<Rightarrow> nat \<Rightarrow> usize \<Rightarrow> 'a list" where
  "get_all get payload 0 offset = []"
| "get_all get payload (Suc n) offset =
     (case get payload offset of (x, offset') \<Rightarrow> x # get_all get payload n offset')"

text \<open>The bytes \<open>bs\<close> stand at an offset of the payload.\<close>

definition stands_at :: "u8 list \<Rightarrow> u8 list \<Rightarrow> usize \<Rightarrow> bool" where
  "stands_at bs payload offset \<longleftrightarrow> take (length bs) (drop offset payload) = bs"

lemma stands_at_Nil [simp]: "stands_at [] payload offset"
  by (simp add: stands_at_def)

lemma stands_at_append:
  "stands_at (as @ bs) payload offset \<longleftrightarrow>
     stands_at as payload offset \<and> stands_at bs payload (offset + length as)"
proof -
  have "take (length as + length bs) (drop offset payload) =
      take (length as) (drop offset payload) @ take (length bs) (drop (offset + length as) payload)"
    by (simp add: take_add add.commute)
  moreover have "length (take (length as) (drop offset payload)) = length as"
    if "take (length as) (drop offset payload) @ xs = as @ bs" "length xs \<le> length bs" for xs
    using arg_cong [OF that(1), of length] that(2) by simp
  ultimately show ?thesis unfolding stands_at_def length_append
    by (metis append_eq_append_conv length_take min.cobounded2)
qed

lemma stands_at_bound: "stands_at bs payload offset \<Longrightarrow> bs \<noteq> [] \<Longrightarrow> offset + length bs \<le> length payload"
  unfolding stands_at_def
  by (cases bs) (auto simp: min_def split: if_splits dest!: arg_cong [where f = length])

lemma stands_at_self [simp]: "stands_at bs (as @ bs @ cs) (length as)"
  by (simp add: stands_at_def)

lemma stands_at_Cons:
  "stands_at (b # bs) payload offset \<longleftrightarrow>
     slice_get payload offset = Some b \<and> stands_at bs payload (Suc offset)"
  using stands_at_append [of "[b]" bs payload offset]
  by (auto simp: stands_at_def slice_get_drop take_Suc split: list.splits)

lemma stands_at_read_array: "stands_at bs payload offset \<Longrightarrow> read_array (length bs) payload offset = bs"
  by (simp add: stands_at_def read_array_def)

lemma read_array_stands_at:
  "offset + n \<le> length payload \<Longrightarrow> stands_at (read_array n payload offset) payload offset"
  by (simp add: stands_at_def read_array_def)

lemma stands_at_split:
  "stands_at bs payload offset \<Longrightarrow> offset \<le> length payload \<Longrightarrow>
     payload = take offset payload @ bs @ drop (offset + length bs) payload"
  unfolding stands_at_def by (metis append_take_drop_id drop_drop add.commute)

lemma word_stands_read:
  "stands_at (to_le 8 (w :: u64)) payload offset \<Longrightarrow> from_le (read_array 8 payload offset) = w"
  using stands_at_read_array [of "to_le 8 w" payload offset] by simp

lemma read_word_stands:
  assumes "offset + 8 \<le> length payload"
  shows "stands_at (to_le 8 (from_le (read_array 8 payload offset) :: u64)) payload offset"
proof -
  have "to_le 8 (from_le (read_array 8 payload offset) :: u64) = read_array 8 payload offset"
    using assms by (intro le_field) (simp_all add: read_array_def)
  then show ?thesis using read_array_stands_at [of offset 8 payload] assms by simp
qed

section \<open>The laws of an element and of a sequence\<close>

text \<open>A byte slice of Rust has at most \<open>isize::MAX\<close> bytes, so its length is below
  \<open>usize::MAX\<close> and the saturating additions of the loops do not hide a truncation.\<close>

locale offset_format =
  fixes put :: "'a \<Rightarrow> u8 list"
    and get :: "u8 list \<Rightarrow> usize \<Rightarrow> 'a \<times> usize"
    and check :: "usize \<Rightarrow> u8 list \<Rightarrow> usize \<times> 's \<Rightarrow> 'e + usize \<times> 's"
    and account :: "'a \<Rightarrow> 's \<Rightarrow> 's option"
  assumes get_put: "stands_at (put x) payload offset \<Longrightarrow> get payload offset = (x, offset + length (put x))"
    and check_put: "length payload < usize_max \<Longrightarrow> stands_at (put x) payload offset \<Longrightarrow>
          account x s = Some s' \<Longrightarrow> check i payload (offset, s) = Inr (offset + length (put x), s')"
    and check_sound: "length payload < usize_max \<Longrightarrow> check i payload (offset, s) = Inr (offset', s') \<Longrightarrow>
          \<exists>x. account x s = Some s' \<and> stands_at (put x) payload offset \<and> offset' = offset + length (put x)"
begin

definition put_all :: "'a list \<Rightarrow> u8 list" where
  "put_all xs = concat (map put xs)"

fun account_all :: "'a list \<Rightarrow> 's \<Rightarrow> 's option" where
  "account_all [] s = Some s"
| "account_all (x # xs) s = Option.bind (account x s) (account_all xs)"

lemma put_all_simps [simp]: "put_all [] = []" "put_all (x # xs) = put x @ put_all xs"
  by (simp_all add: put_all_def)

lemma get_all_put_all:
  "stands_at (put_all xs) payload offset \<Longrightarrow> get_all get payload (length xs) offset = xs"
  by (induction xs arbitrary: offset) (auto simp: stands_at_append dest!: get_put)

lemma check_all_put_all:
  "length payload < usize_max \<Longrightarrow> stands_at (put_all xs) payload offset \<Longrightarrow> account_all xs s = Some s' \<Longrightarrow>
     check_all check i payload (length xs) (offset, s) = Inr (offset + length (put_all xs), s')"
  by (induction xs arbitrary: i offset s)
    (auto simp: stands_at_append check_put add.assoc split: bind_splits)

lemma check_all_sound:
  "length payload < usize_max \<Longrightarrow> check_all check i payload n (offset, s) = Inr (offset', s') \<Longrightarrow>
     \<exists>xs. length xs = n \<and> account_all xs s = Some s' \<and> stands_at (put_all xs) payload offset \<and>
       offset' = offset + length (put_all xs)"
proof (induction n arbitrary: i offset s)
  case 0
  then show ?case by simp
next
  case (Suc n)
  then obtain o1 s1 where first: "check i payload (offset, s) = Inr (o1, s1)"
    and rest: "check_all check (Suc i) payload n (o1, s1) = Inr (offset', s')"
    by (auto simp: result_simps)
  obtain x where x: "account x s = Some s1" "stands_at (put x) payload offset" "o1 = offset + length (put x)"
    using check_sound [OF Suc.prems(1) first] by blast
  obtain xs where "length xs = n" "account_all xs s1 = Some s'" "stands_at (put_all xs) payload o1"
    "offset' = o1 + length (put_all xs)"
    using Suc.IH [OF Suc.prems(1) rest] by blast
  with x show ?case by (intro exI [of _ "x # xs"]) (simp add: stands_at_append add.assoc)
qed

text \<open>A whole payload is a header followed by the sequence, and nothing after it.\<close>

lemma check_all_exact:
  assumes "length payload < usize_max" and "h \<le> length payload"
  shows "check_all check i payload n (h, s) = Inr (length payload, s') \<longleftrightarrow>
    (\<exists>xs. length xs = n \<and> account_all xs s = Some s' \<and> payload = take h payload @ put_all xs)"
proof
  assume "check_all check i payload n (h, s) = Inr (length payload, s')"
  from check_all_sound [OF assms(1) this] obtain xs
    where xs: "length xs = n" "account_all xs s = Some s'" "stands_at (put_all xs) payload h"
      "length payload = h + length (put_all xs)" by blast
  from stands_at_split [OF xs(3) assms(2)] xs(4) have "payload = take h payload @ put_all xs" by simp
  with xs show "\<exists>xs. length xs = n \<and> account_all xs s = Some s' \<and> payload = take h payload @ put_all xs"
    by blast
next
  assume "\<exists>xs. length xs = n \<and> account_all xs s = Some s' \<and> payload = take h payload @ put_all xs"
  then obtain xs where xs: "length xs = n" "account_all xs s = Some s'"
    and payload: "payload = take h payload @ put_all xs" by blast
  have "stands_at (put_all xs) (take h payload @ put_all xs @ []) (length (take h payload))"
    by (rule stands_at_self)
  then have "stands_at (put_all xs) payload h" using payload assms(2) by (simp add: min_absorb2)
  moreover have "length payload = h + length (put_all xs)"
    using arg_cong [OF payload, of length] assms(2) by simp
  ultimately show "check_all check i payload n (h, s) = Inr (length payload, s')"
    using check_all_put_all [OF assms(1) _ xs(2)] xs(1) by simp
qed

end

end
