(* ===== verification/Nullable_Codec.thy ===== *)
theory Nullable_Codec
  imports Offset_Format
begin

text \<open>
  The row payload of \<^verbatim>\<open>src/snapshot.rs\<close> (\<open>NullableI64PayloadCodec\<close>): a row
  count, then one tag per row with the eight bytes of a present value. The decoder validates the
  whole payload before it decodes a row; it accepts exactly what the encoder writes.
\<close>

definition null_tag :: u8 where
  "null_tag = 0"

definition value_tag :: u8 where
  "value_tag = 1"

definition nullable_payload_header_len :: usize where
  "nullable_payload_header_len = 8"

datatype nullable_payload_error =
  NullableRowLimitExceeded u64 usize
| NullablePayloadTooLarge u64 usize
| NullableTruncated usize usize
| NullableInvalidTag usize u8
| NullableTrailingData usize usize

record nullable_codec =
  nullable_max_rows :: usize
  nullable_max_payload_len :: usize

definition nullable_codec_new :: "usize \<Rightarrow> usize \<Rightarrow> nullable_codec" where
  "nullable_codec_new r p = \<lparr>nullable_max_rows = r, nullable_max_payload_len = p\<rparr>"

section \<open>Encoding\<close>

text \<open>The checked fold over the row lengths, and the bytes pushed for one row.\<close>

definition row_len :: "nullable_i64 \<Rightarrow> usize" where
  "row_len v = (if v \<noteq> None then 1 + 8 else 1)"

fun add_row_lens :: "usize \<Rightarrow> nullable_i64 list \<Rightarrow> usize option" where
  "add_row_lens len [] = Some len"
| "add_row_lens len (v # vs) =
     (case checked_add len (row_len v) of None \<Rightarrow> None | Some len' \<Rightarrow> add_row_lens len' vs)"

definition put_row :: "nullable_i64 \<Rightarrow> u8 list" where
  "put_row v = (case v of None \<Rightarrow> [null_tag] | Some x \<Rightarrow> value_tag # to_le 8 x)"

definition nullable_encode :: "nullable_codec \<Rightarrow> nullable_i64 list \<Rightarrow> nullable_payload_error + u8 list" where
  "nullable_encode codec rows =
     res_bind (ok_or (u64_of_usize (length rows))
       (NullableRowLimitExceeded (- 1) (nullable_max_rows codec))) (\<lambda>row_count.
     if length rows > nullable_max_rows codec
     then Inl (NullableRowLimitExceeded row_count (nullable_max_rows codec))
     else case add_row_lens nullable_payload_header_len rows of
       None \<Rightarrow> Inl (NullablePayloadTooLarge (- 1) (nullable_max_payload_len codec))
     | Some payload_len \<Rightarrow>
         if payload_len > nullable_max_payload_len codec
         then Inl (NullablePayloadTooLarge (u64_or_max payload_len) (nullable_max_payload_len codec))
         else Inr (to_le 8 row_count @ concat (map put_row rows)))"

section \<open>Decoding\<close>

text \<open>The body of the validation loop at row \<open>i\<close>, and of the decoding loop. The decoding loop
  runs on validated payloads only, where \<open>payload[offset]\<close> exists.\<close>

definition check_row ::
  "usize \<Rightarrow> u8 list \<Rightarrow> usize \<times> unit \<Rightarrow> nullable_payload_error + usize \<times> unit" where
  "check_row i payload st =
     (let offset = fst st; tag_end = saturating_add offset 1 in
      case slice_get payload offset of
        None \<Rightarrow> Inl (NullableTruncated tag_end (length payload))
      | Some tag \<Rightarrow>
          if tag = null_tag then Inr (tag_end, ())
          else if tag = value_tag then
            (let value_end = saturating_add tag_end 8 in
             if length payload < value_end then Inl (NullableTruncated value_end (length payload))
             else Inr (value_end, ()))
          else Inl (NullableInvalidTag i tag))"

definition validate_nullable_i64_rows :: "u8 list \<Rightarrow> usize \<Rightarrow> nullable_payload_error + unit" where
  "validate_nullable_i64_rows payload row_count =
     res_bind (check_all check_row 0 payload row_count (nullable_payload_header_len, ())) (\<lambda>st.
     if length payload > fst st then Inl (NullableTrailingData (fst st) (length payload))
     else Inr ())"

definition get_row :: "u8 list \<Rightarrow> usize \<Rightarrow> nullable_i64 \<times> usize" where
  "get_row payload offset =
     (if payload ! offset = null_tag then (None, offset + 1)
      else (Some (from_le (read_array 8 payload (offset + 1))), offset + 1 + 8))"

definition nullable_decode :: "nullable_codec \<Rightarrow> u8 list \<Rightarrow> nullable_payload_error + nullable_i64 list" where
  "nullable_decode codec payload =
     (let max_len = nullable_max_payload_len codec; max_rows = nullable_max_rows codec in
      if length payload > max_len
      then Inl (NullablePayloadTooLarge (u64_or_max (length payload)) max_len)
      else if length payload < nullable_payload_header_len
      then Inl (NullableTruncated nullable_payload_header_len (length payload))
      else let declared_rows = from_le (read_array 8 payload 0);
               too_many = NullableRowLimitExceeded declared_rows max_rows in
      res_bind (ok_or (usize_of_u64 declared_rows) too_many) (\<lambda>row_count.
      if row_count > max_rows then Inl too_many
      else res_bind (ok_or (checked_add nullable_payload_header_len row_count)
          (NullablePayloadTooLarge (- 1) max_len)) (\<lambda>minimum_len.
      if minimum_len > max_len then Inl (NullablePayloadTooLarge (u64_or_max minimum_len) max_len)
      else if length payload < minimum_len
      then Inl (NullableTruncated minimum_len (length payload))
      else res_bind (validate_nullable_i64_rows payload row_count) (\<lambda>_.
      Inr (get_all get_row payload row_count nullable_payload_header_len)))))"

section \<open>The row format\<close>

lemma length_put_row: "length (put_row v) = row_len v"
  by (simp add: put_row_def row_len_def split: option.split)

lemma put_row_stands:
  "stands_at (put_row v) payload offset \<longleftrightarrow>
     (case v of None \<Rightarrow> slice_get payload offset = Some null_tag
      | Some x \<Rightarrow> slice_get payload offset = Some value_tag \<and> stands_at (to_le 8 x) payload (Suc offset))"
  by (simp add: put_row_def stands_at_Cons split: option.split)

lemma tags_differ [simp]: "null_tag \<noteq> value_tag" "value_tag \<noteq> null_tag"
  by (simp_all add: null_tag_def value_tag_def)

lemma get_put_row: "stands_at (put_row v) payload offset \<Longrightarrow> get_row payload offset = (v, offset + length (put_row v))"
  using stands_at_read_array [of "to_le 8 (the v)" payload "Suc offset"]
  by (auto simp: put_row_stands length_put_row row_len_def get_row_def result_simps split: option.splits)

interpretation nullable_rows: offset_format put_row get_row check_row "\<lambda>_. Some"
proof (unfold_locales, goal_cases)
  case (1 x payload offset)
  then show ?case by (rule get_put_row)
next
  case (2 payload x offset s s' i)
  have "offset + length (put_row x) \<le> length payload"
    using stands_at_bound [OF 2(2)] by (auto simp: put_row_def split: option.splits)
  with 2 show ?case
    by (auto simp: check_row_def put_row_stands length_put_row row_len_def saturating_add_def Let_def
        split: option.splits)
next
  case (3 payload i offset s offset' s')
  then consider (null) "slice_get payload offset = Some null_tag" "offset' = saturating_add offset 1"
    | (present) "slice_get payload offset = Some value_tag"
      "offset' = saturating_add (saturating_add offset 1) 8" "offset' \<le> length payload"
    by (auto simp: check_row_def Let_def split: option.splits if_splits)
  then show ?case
  proof cases
    case null
    then have "offset < length payload" by (simp add: result_simps)
    with null 3(1) show ?thesis
      by (intro exI [of _ None]) (simp add: put_row_stands length_put_row row_len_def saturating_add_def)
  next
    case present
    then have "offset < length payload" by (simp add: result_simps)
    with present 3(1) have "offset' = offset + 9" "Suc offset + 8 \<le> length payload"
      by (auto simp: saturating_add_def min_def split: if_splits)
    with present show ?thesis
      by (intro exI [of _ "Some (from_le (read_array 8 payload (Suc offset)))"])
        (simp add: put_row_stands length_put_row row_len_def read_word_stands)
  qed
qed

lemma account_rows [simp]: "nullable_rows.account_all xs s = Some s"
  by (induction xs) simp_all

section \<open>The codec\<close>

definition rows_payload :: "nullable_i64 list \<Rightarrow> u8 list" where
  "rows_payload rows = to_le 8 (of_nat (length rows) :: u64) @ concat (map put_row rows)"

lemma add_row_lens_eq:
  "add_row_lens len rows =
     (if rows = [] \<or> len + length (concat (map put_row rows)) \<le> usize_max
      then Some (len + length (concat (map put_row rows))) else None)"
proof (induction rows arbitrary: len)
  case (Cons v rows)
  have "len + length (put_row v) \<le> usize_max" if "len + length (concat (map put_row (v # rows))) \<le> usize_max"
    using that by simp
  with Cons show ?case by (auto simp: checked_add_def length_put_row add.assoc)
qed simp

lemma length_rows_payload: "length (rows_payload rows) = 8 + length (concat (map put_row rows))"
  by (simp add: rows_payload_def)

lemma rows_at_least: "length rows \<le> length (concat (map put_row rows))"
  by (induction rows) (simp_all add: length_put_row row_len_def)

definition rows_fit :: "nullable_codec \<Rightarrow> nullable_i64 list \<Rightarrow> bool" where
  "rows_fit codec rows \<longleftrightarrow>
     length rows \<le> nullable_max_rows codec \<and>
     length (rows_payload rows) \<le> nullable_max_payload_len codec \<and>
     length (rows_payload rows) \<le> usize_max"

lemma nullable_encode_eq: "rows_fit codec rows \<Longrightarrow> nullable_encode codec rows = Inr (rows_payload rows)"
  using rows_at_least [of rows]
  by (simp add: rows_fit_def nullable_encode_def u64_of_usize_eq add_row_lens_eq length_rows_payload
      nullable_payload_header_len_def) (simp add: rows_payload_def)

lemma nullable_encode_Inr: "nullable_encode codec rows = Inr p \<Longrightarrow> rows_fit codec rows"
  by (auto simp: nullable_encode_def result_simps rows_fit_def add_row_lens_eq length_rows_payload
      nullable_payload_header_len_def usize_max_def split: option.splits if_splits)

lemma nullable_encode_iff:
  "nullable_encode codec rows = Inr p \<longleftrightarrow> rows_fit codec rows \<and> p = rows_payload rows"
  using nullable_encode_eq nullable_encode_Inr by fastforce

lemma take_header: "take 8 (rows_payload rows) = to_le 8 (of_nat (length rows) :: u64)"
  by (simp add: rows_payload_def)

lemma nullable_decode_payload:
  assumes "rows_fit codec rows" and "length (rows_payload rows) < usize_max"
  shows "nullable_decode codec (rows_payload rows) = Inr rows"
proof -
  let ?p = "rows_payload rows"
  have count: "from_le (read_array 8 ?p 0) = (of_nat (length rows) :: u64)"
    by (simp add: read_array_def take_header)
  have n: "length rows \<le> usize_max" "8 + length rows \<le> length ?p"
    using assms rows_at_least [of rows] by (auto simp: rows_fit_def length_rows_payload)
  have "check_all check_row 0 ?p (length rows) (8, ()) = Inr (length ?p, ())"
    unfolding nullable_rows.check_all_exact [OF assms(2) le_trans [OF le_add1 n(2)]]
    by (intro exI [of _ rows]) (simp add: nullable_rows.put_all_def rows_payload_def)
  then have valid: "validate_nullable_i64_rows ?p (length rows) = Inr ()"
    by (simp add: validate_nullable_i64_rows_def nullable_payload_header_len_def)
  have "stands_at (concat (map put_row rows)) ?p 8"
    using stands_at_self [of "concat (map put_row rows)" "to_le 8 (of_nat (length rows) :: u64)" "[]"]
    by (simp add: rows_payload_def)
  then have "get_all get_row ?p (length rows) 8 = rows"
    using nullable_rows.get_all_put_all [of rows ?p 8] by (simp add: nullable_rows.put_all_def)
  with valid count n assms show ?thesis
    by (simp add: nullable_decode_def rows_fit_def nullable_payload_header_len_def checked_add_def Let_def)
qed

lemma nullable_decode_sound:
  assumes "nullable_decode codec p = Inr rows" and "length p < usize_max"
  shows "rows_fit codec rows \<and> p = rows_payload rows"
proof -
  let ?n = "unat (from_le (read_array 8 p 0) :: u64)"
  have len: "length p \<le> nullable_max_payload_len codec" "8 \<le> length p"
    and n: "?n \<le> nullable_max_rows codec"
    and valid: "validate_nullable_i64_rows p ?n = Inr ()"
    and rows: "rows = get_all get_row p ?n 8"
    using assms(1)
    by (auto simp: nullable_decode_def nullable_payload_header_len_def Let_def result_simps split: if_splits)
  obtain off where "check_all check_row 0 p ?n (8, ()) = Inr (off, ())" "length p \<le> off"
    using valid by (auto simp: validate_nullable_i64_rows_def nullable_payload_header_len_def result_simps split: if_splits)
  moreover from nullable_rows.check_all_sound [OF assms(2) this(1)] obtain xs
    where xs: "length xs = ?n" "stands_at (nullable_rows.put_all xs) p 8"
      "off = 8 + length (nullable_rows.put_all xs)" by blast
  ultimately have "p = take 8 p @ nullable_rows.put_all xs"
    using stands_at_split [OF xs(2) len(2)] by simp
  moreover have "rows = xs" using rows nullable_rows.get_all_put_all [OF xs(2)] xs(1) by simp
  moreover have "take 8 p = to_le 8 (of_nat ?n :: u64)"
    using le_field [of "read_array 8 p 0" 8, where ?'a = 64] len(2) by (simp add: read_array_def)
  ultimately have p: "p = rows_payload rows"
    using xs(1) by (simp add: rows_payload_def nullable_rows.put_all_def)
  then show ?thesis using len(1) n xs(1) assms(2) \<open>rows = xs\<close> by (simp add: rows_fit_def)
qed

text \<open>For payloads of any length a Rust slice can have, decoding gives rows exactly when encoding
  those rows gives the payload; encoding succeeds exactly within the row and byte bounds.\<close>

theorem nullable_codec_roundtrip:
  assumes "length p < usize_max"
  shows "(nullable_decode codec p = Inr rows \<longleftrightarrow> nullable_encode codec rows = Inr p) \<and>
    (nullable_encode codec rows = Inr p \<longleftrightarrow> rows_fit codec rows \<and> p = rows_payload rows)"
  using nullable_decode_sound [OF _ assms] nullable_decode_payload [of codec rows] assms
  by (auto simp: nullable_encode_iff)

theorem nullable_codec_roundtrip_witness:
  "nullable_decode (nullable_codec_new 2 18) (rows_payload [Some 7, None]) = Inr [Some 7, None]"
proof -
  have fits: "rows_fit (nullable_codec_new 2 18) [Some 7, None]"
    by (simp add: rows_fit_def nullable_codec_new_def length_rows_payload length_put_row row_len_def
        usize_max_def)
  have "length (rows_payload [Some 7, None]) < usize_max"
    by (simp add: length_rows_payload length_put_row row_len_def usize_max_def)
  from nullable_codec_roundtrip [OF this, of "nullable_codec_new 2 18" "[Some 7, None]"] fits
  show ?thesis by simp
qed

end
