(* ===== verification/Rle_Codec.thy ===== *)
theory Rle_Codec
  imports Nullable_Codec
begin

text \<open>
  The run-length row payload of \<^verbatim>\<open>src/snapshot.rs\<close>
  (\<open>NullableI64RlePayloadCodec\<close>): magic, version, row and run counts, then the runs. The
  encoder writes maximal runs in two passes, one that counts and one that writes; the decoder
  validates every run, with the row count in checked 64-bit arithmetic, before it allocates. Whether
  the allocator grants the reservation of the decoded rows is a parameter.
\<close>

definition rle_magic :: "u8 list" where
  "rle_magic = [0x52, 0x48, 0x4E, 0x52, 0x4C, 0x45, 0x50, 0x00]"

definition rle_version :: u16 where
  "rle_version = 1"

definition rle_header_len :: usize where
  "rle_header_len = length rle_magic + 2 + 2 * 8"

definition null_run_tag :: u8 where
  "null_run_tag = 0"

definition value_run_tag :: u8 where
  "value_run_tag = 1"

definition rle_run_header_len :: usize where
  "rle_run_header_len = 1 + 8"

definition rle_version_offset :: usize where
  "rle_version_offset = length rle_magic"

definition rle_row_count_offset :: usize where
  "rle_row_count_offset = rle_version_offset + 2"

definition rle_run_count_offset :: usize where
  "rle_run_count_offset = rle_row_count_offset + 8"

lemma length_rle_magic [simp]: "length rle_magic = 8"
  by (simp add: rle_magic_def)

lemmas rle_layout [simp] =
  rle_header_len_def rle_run_header_len_def rle_version_offset_def rle_row_count_offset_def
  rle_run_count_offset_def

datatype rle_payload_error =
  RleRowLimitExceeded u64 usize
| RleRunLimitExceeded u64 usize
| RlePayloadTooLarge u64 usize
| RleTruncated usize usize
| RleIncompatibleMagic "u8 list"
| RleUnsupportedVersion u16 u16
| RleUnknownRunTag usize u8
| RleZeroLengthRun usize
| RleRowCountOverflow usize u64 u64
| RleRowCountMismatch u64 u64
| RleDecodedRowsAllocationFailed u64
| RleTrailingData usize usize

record rle_codec =
  rle_max_rows :: usize
  rle_max_runs :: usize
  rle_max_payload_len :: usize

definition rle_codec_new :: "usize \<Rightarrow> usize \<Rightarrow> usize \<Rightarrow> rle_codec" where
  "rle_codec_new r n p = \<lparr>rle_max_rows = r, rle_max_runs = n, rle_max_payload_len = p\<rparr>"

section \<open>Encoding\<close>

text \<open>The counting pass over the rows after the first: the previous row, the runs so far and the
  value runs among them.\<close>

fun count_runs :: "nullable_i64 \<Rightarrow> nullable_i64 list \<Rightarrow> usize \<times> usize \<Rightarrow> usize \<times> usize" where
  "count_runs previous [] acc = acc"
| "count_runs previous (v # vs) (runs, value_runs) =
     count_runs v vs
       (if v \<noteq> previous then (runs + 1, if v \<noteq> None then value_runs + 1 else value_runs)
        else (runs, value_runs))"

definition count_all_runs :: "nullable_i64 list \<Rightarrow> usize \<times> usize" where
  "count_all_runs rows =
     (case rows of [] \<Rightarrow> (0, 0) | v # vs \<Rightarrow> count_runs v vs (1, if v \<noteq> None then 1 else 0))"

definition append_nullable_i64_rle_run ::
  "u8 list \<Rightarrow> nullable_i64 \<Rightarrow> usize \<Rightarrow> usize \<Rightarrow> rle_payload_error + u8 list" where
  "append_nullable_i64_rle_run payload v run_length max_rows =
     res_bind (ok_or (u64_of_usize run_length) (RleRowLimitExceeded (- 1) max_rows)) (\<lambda>w.
     Inr (payload @ [case v of None \<Rightarrow> null_run_tag | Some _ \<Rightarrow> value_run_tag] @ to_le 8 w @
          (case v of None \<Rightarrow> [] | Some x \<Rightarrow> to_le 8 x)))"

text \<open>The writing pass: the pending value and its run length.\<close>

fun write_runs ::
  "usize \<Rightarrow> nullable_i64 \<Rightarrow> usize \<Rightarrow> nullable_i64 list \<Rightarrow> u8 list \<Rightarrow> rle_payload_error + u8 list" where
  "write_runs max_rows v run_length [] payload =
     append_nullable_i64_rle_run payload v run_length max_rows"
| "write_runs max_rows v run_length (w # ws) payload =
     (if w = v then write_runs max_rows v (run_length + 1) ws payload
      else res_bind (append_nullable_i64_rle_run payload v run_length max_rows)
             (write_runs max_rows w 1 ws))"

definition rle_encode_rows :: "rle_codec \<Rightarrow> nullable_i64 list \<Rightarrow> rle_payload_error + u8 list" where
  "rle_encode_rows codec rows =
     (let max_rows = rle_max_rows codec; max_runs = rle_max_runs codec;
          max_len = rle_max_payload_len codec in
      res_bind (ok_or (u64_of_usize (length rows)) (RleRowLimitExceeded (- 1) max_rows)) (\<lambda>row_count.
      if length rows > max_rows then Inl (RleRowLimitExceeded row_count max_rows)
      else let runs = fst (count_all_runs rows); value_runs = snd (count_all_runs rows) in
      res_bind (ok_or (u64_of_usize runs) (RleRunLimitExceeded (- 1) max_runs)) (\<lambda>declared_runs.
      if runs > max_runs then Inl (RleRunLimitExceeded declared_runs max_runs)
      else case Option.bind (checked_mul runs rle_run_header_len) (\<lambda>run_bytes.
             Option.bind (Option.bind (checked_mul value_runs 8) (checked_add run_bytes))
               (checked_add rle_header_len)) of
        None \<Rightarrow> Inl (RlePayloadTooLarge (- 1) max_len)
      | Some payload_len \<Rightarrow>
          if payload_len > max_len then Inl (RlePayloadTooLarge (u64_or_max payload_len) max_len)
          else let payload = rle_magic @ to_le 2 rle_version @ to_le 8 row_count @ to_le 8 declared_runs in
            case rows of [] \<Rightarrow> Inr payload | v # vs \<Rightarrow> write_runs max_rows v 1 vs payload)))"

definition rle_encode :: "rle_codec \<Rightarrow> nullable_i64 list \<Rightarrow> rle_payload_error + u8 list" where
  "rle_encode codec rows = rle_encode_rows codec rows"

definition rle_encode_non_nullable_values :: "rle_codec \<Rightarrow> i64 list \<Rightarrow> rle_payload_error + u8 list" where
  "rle_encode_non_nullable_values codec values = rle_encode_rows codec (map Some values)"

section \<open>Decoding\<close>

definition checked_add_u64 :: "u64 \<Rightarrow> u64 \<Rightarrow> u64 option" where
  "checked_add_u64 a b = (if unat a + unat b < 2 ^ 64 then Some (a + b) else None)"

definition check_run ::
  "usize \<Rightarrow> u8 list \<Rightarrow> usize \<times> u64 \<Rightarrow> rle_payload_error + usize \<times> u64" where
  "check_run i payload st =
     (let offset = fst st; decoded_rows = snd st; tag_end = saturating_add offset 1 in
      case slice_get payload offset of
        None \<Rightarrow> Inl (RleTruncated tag_end (length payload))
      | Some tag \<Rightarrow>
          if tag \<noteq> null_run_tag \<and> tag \<noteq> value_run_tag then Inl (RleUnknownRunTag i tag)
          else let run_length_end = saturating_add tag_end 8 in
          if length payload < run_length_end then Inl (RleTruncated run_length_end (length payload))
          else let run_length = from_le (read_array 8 payload tag_end) in
          if run_length = 0 then Inl (RleZeroLengthRun i)
          else let value_end = saturating_add run_length_end 8 in
          if tag = value_run_tag \<and> length payload < value_end
          then Inl (RleTruncated value_end (length payload))
          else res_bind (ok_or (checked_add_u64 decoded_rows run_length)
                 (RleRowCountOverflow i decoded_rows run_length)) (\<lambda>total.
               Inr (if tag = value_run_tag then value_end else run_length_end, total)))"

definition validate_nullable_i64_rle_runs :: "u8 list \<Rightarrow> usize \<Rightarrow> rle_payload_error + u64 \<times> usize" where
  "validate_nullable_i64_rle_runs payload run_count =
     res_bind (check_all check_run 0 payload run_count (rle_header_len, 0)) (\<lambda>st.
     Inr (snd st, fst st))"

definition get_run :: "u8 list \<Rightarrow> usize \<Rightarrow> (nullable_i64 \<times> u64) \<times> usize" where
  "get_run payload offset =
     (let run_length = from_le (read_array 8 payload (offset + 1)) in
      if payload ! offset = null_run_tag then ((None, run_length), offset + 1 + 8)
      else ((Some (from_le (read_array 8 payload (offset + 1 + 8))), run_length), offset + 1 + 8 + 8))"

text \<open>\<open>rows.resize(rows.len() + run_length, value)\<close> for every decoded run.\<close>

definition expand_runs :: "(nullable_i64 \<times> u64) list \<Rightarrow> nullable_i64 list" where
  "expand_runs runs = concat (map (\<lambda>run. replicate (unat (snd run)) (fst run)) runs)"

definition rle_decode ::
  "(usize \<Rightarrow> bool) \<Rightarrow> rle_codec \<Rightarrow> u8 list \<Rightarrow> rle_payload_error + nullable_i64 list" where
  "rle_decode can_reserve codec payload =
     (let max_rows = rle_max_rows codec; max_runs = rle_max_runs codec;
          max_len = rle_max_payload_len codec in
      if length payload > max_len
      then Inl (RlePayloadTooLarge (u64_or_max (length payload)) max_len)
      else if length payload < rle_header_len
      then Inl (RleTruncated rle_header_len (length payload))
      else let found_magic = read_array 8 payload 0 in
      if found_magic \<noteq> rle_magic then Inl (RleIncompatibleMagic found_magic)
      else let version = from_le (read_array 2 payload rle_version_offset) in
      if version \<noteq> rle_version then Inl (RleUnsupportedVersion version rle_version)
      else let declared_rows = from_le (read_array 8 payload rle_row_count_offset);
               too_many_rows = RleRowLimitExceeded declared_rows max_rows in
      res_bind (ok_or (usize_of_u64 declared_rows) too_many_rows) (\<lambda>row_count.
      if row_count > max_rows then Inl too_many_rows
      else let declared_runs = from_le (read_array 8 payload rle_run_count_offset);
               too_many_runs = RleRunLimitExceeded declared_runs max_runs in
      res_bind (ok_or (usize_of_u64 declared_runs) too_many_runs) (\<lambda>run_count.
      if run_count > max_runs then Inl too_many_runs
      else res_bind (ok_or (Option.bind (checked_mul run_count rle_run_header_len) (checked_add rle_header_len))
          (RlePayloadTooLarge (- 1) max_len)) (\<lambda>minimum_len.
      if minimum_len > max_len then Inl (RlePayloadTooLarge (u64_or_max minimum_len) max_len)
      else res_bind (validate_nullable_i64_rle_runs payload run_count) (\<lambda>(decoded_rows, runs_end).
      if decoded_rows > u64_or_max max_rows then Inl (RleRowLimitExceeded decoded_rows max_rows)
      else if decoded_rows \<noteq> declared_rows then Inl (RleRowCountMismatch declared_rows decoded_rows)
      else if length payload > runs_end then Inl (RleTrailingData runs_end (length payload))
      else if \<not> can_reserve row_count then Inl (RleDecodedRowsAllocationFailed declared_rows)
      else Inr (expand_runs (get_all get_run payload run_count rle_header_len)))))))"

section \<open>The run format\<close>

definition put_run :: "nullable_i64 \<times> u64 \<Rightarrow> u8 list" where
  "put_run run =
     (case fst run of None \<Rightarrow> null_run_tag # to_le 8 (snd run)
      | Some x \<Rightarrow> value_run_tag # to_le 8 (snd run) @ to_le 8 x)"

definition account_run :: "nullable_i64 \<times> u64 \<Rightarrow> u64 \<Rightarrow> u64 option" where
  "account_run run rows = (if snd run = 0 then None else checked_add_u64 rows (snd run))"

lemma length_put_run: "length (put_run run) = (if fst run = None then 9 else 17)"
  by (auto simp: put_run_def split: option.split)

lemma run_tags_differ [simp]: "null_run_tag \<noteq> value_run_tag" "value_run_tag \<noteq> null_run_tag"
  by (simp_all add: null_run_tag_def value_run_tag_def)

lemma put_run_stands:
  "stands_at (put_run run) payload offset \<longleftrightarrow>
     slice_get payload offset = Some (if fst run = None then null_run_tag else value_run_tag) \<and>
     stands_at (to_le 8 (snd run)) payload (Suc offset) \<and>
     (\<forall>x. fst run = Some x \<longrightarrow> stands_at (to_le 8 x) payload (Suc offset + 8))"
  by (auto simp: put_run_def stands_at_Cons stands_at_append split: option.split)

interpretation rle_runs: offset_format put_run get_run check_run account_run
proof (unfold_locales, goal_cases)
  case (1 run payload offset)
  then show ?case
    by (cases run) (auto simp: put_run_stands get_run_def Let_def result_simps length_put_run word_stands_read
        split: if_splits)
next
  case (2 payload run offset s s' i)
  have bound: "offset + length (put_run run) \<le> length payload"
    using stands_at_bound [OF 2(2)] by (auto simp: put_run_def split: option.splits)
  have tag_end: "saturating_add offset 1 = Suc offset" "saturating_add (Suc offset) 8 = Suc offset + 8"
    using bound 2(1) by (auto simp: saturating_add_def length_put_run split: if_splits)
  have "fst run \<noteq> None \<Longrightarrow> saturating_add (Suc offset + 8) 8 = Suc offset + 16"
    using bound 2(1) by (auto simp: saturating_add_def length_put_run)
  with 2 bound tag_end show ?case
    by (auto simp: check_run_def put_run_stands length_put_run Let_def account_run_def word_stands_read
        split: if_splits)
next
  case (3 payload i offset s offset' s')
  let ?n = "from_le (read_array 8 payload (Suc offset)) :: u64"
  from 3(2) obtain tag where tag: "slice_get payload offset = Some tag"
    by (auto simp: check_run_def Let_def split: option.splits)
  then have inside: "offset < length payload" by (simp add: result_simps)
  have se: "saturating_add offset 1 = Suc offset" using inside 3(1) by (simp add: saturating_add_def)
  have run_end: "Suc offset + 8 \<le> length payload"
    using 3 tag se by (auto simp: check_run_def Let_def saturating_add_def min_def split: if_splits)
  then have se8: "saturating_add (Suc offset) 8 = Suc offset + 8"
    using 3(1) by (simp add: saturating_add_def)
  consider (null) "tag = null_run_tag" | (present) "tag = value_run_tag"
    using 3(2) tag by (auto simp: check_run_def Let_def split: if_splits)
  then show ?case
  proof cases
    case null
    with 3(2) tag se se8 run_end show ?thesis
      by (intro exI [of _ "(None, ?n)"])
        (auto simp: check_run_def Let_def account_run_def put_run_stands length_put_run result_simps
          read_word_stands split: if_splits)
  next
    case present
    then have value_end: "Suc offset + 16 \<le> length payload"
      using 3 tag se se8 by (auto simp: check_run_def Let_def saturating_add_def min_def split: if_splits)
    then have "saturating_add (Suc offset + 8) 8 = Suc offset + 16"
      using 3(1) by (simp add: saturating_add_def)
    with present 3(2) tag se se8 run_end value_end show ?thesis
      by (intro exI [of _ "(Some (from_le (read_array 8 payload (Suc offset + 8))), ?n)"])
        (auto simp: check_run_def Let_def account_run_def put_run_stands length_put_run result_simps
          read_word_stands split: if_splits)
  qed
qed

section \<open>Maximal runs\<close>

fun runs_from :: "nullable_i64 \<Rightarrow> nat \<Rightarrow> nullable_i64 list \<Rightarrow> (nullable_i64 \<times> nat) list" where
  "runs_from v n [] = [(v, n)]"
| "runs_from v n (w # ws) = (if w = v then runs_from v (Suc n) ws else (v, n) # runs_from w 1 ws)"

definition runs_of :: "nullable_i64 list \<Rightarrow> (nullable_i64 \<times> u64) list" where
  "runs_of rows = (case rows of [] \<Rightarrow> [] | v # vs \<Rightarrow> map (apsnd of_nat) (runs_from v 1 vs))"

definition value_runs :: "(nullable_i64 \<times> 'n) list \<Rightarrow> nat" where
  "value_runs runs = length (filter (\<lambda>run. fst run \<noteq> None) runs)"

lemma value_runs_simps [simp]:
  "value_runs [] = 0" "value_runs (run # runs) = (if fst run \<noteq> None then 1 else 0) + value_runs runs"
  "value_runs (map (apsnd f) runs) = value_runs runs"
  by (simp_all add: value_runs_def filter_map comp_def)

lemma runs_from_nonempty [simp]: "runs_from v n ws \<noteq> []" "0 < length (runs_from v n ws)"
  by (induction v n ws rule: runs_from.induct) simp_all

lemma count_runs_eq:
  "count_runs v ws (Suc r, (if v \<noteq> None then 1 else 0) + k) =
     (r + length (runs_from v n ws), k + value_runs (runs_from v n ws))"
proof (induction v n ws arbitrary: r k rule: runs_from.induct)
  case (2 v n w ws)
  show ?case
  proof (cases "w = v")
    case True
    then show ?thesis using 2(1) [of r k] by (simp add: ac_simps)
  next
    case False
    then show ?thesis
      using 2(2) [OF False, of "Suc r" "(if v \<noteq> None then 1 else 0) + k"]
      by (cases w) (simp_all add: ac_simps)
  qed
qed simp

lemma count_all_runs_eq: "count_all_runs rows = (length (runs_of rows), value_runs (runs_of rows))"
  using count_runs_eq [of "hd rows" "tl rows" 0 0 1]
  by (cases rows) (auto simp: count_all_runs_def runs_of_def)

lemma append_run_eq:
  "n \<le> usize_max \<Longrightarrow>
     append_nullable_i64_rle_run payload v n max_rows = Inr (payload @ put_run (v, of_nat n))"
  by (simp add: append_nullable_i64_rle_run_def u64_of_usize_eq put_run_def split: option.split)

lemma write_runs_eq:
  "n + length ws \<le> usize_max \<Longrightarrow>
     write_runs max_rows v n ws payload =
     Inr (payload @ rle_runs.put_all (map (apsnd of_nat) (runs_from v n ws)))"
  by (induction v n ws arbitrary: payload rule: runs_from.induct) (simp_all add: append_run_eq)

lemma expand_runs_simps [simp]:
  "expand_runs [] = []" "expand_runs (run # runs) = replicate (unat (snd run)) (fst run) @ expand_runs runs"
  by (simp_all add: expand_runs_def)

lemma expand_runs_from:
  "n + length ws \<le> usize_max \<Longrightarrow> expand_runs (map (apsnd of_nat) (runs_from v n ws)) = replicate n v @ ws"
  by (induction v n ws rule: runs_from.induct) (auto simp: replicate_append_same)

lemma expand_runs_of: "length rows \<le> usize_max \<Longrightarrow> expand_runs (runs_of rows) = rows"
  by (cases rows) (simp_all add: runs_of_def expand_runs_from)

lemma runs_from_lengths:
  "(v', m) \<in> set (runs_from v n ws) \<Longrightarrow> 0 < n \<Longrightarrow> 0 < m \<and> m \<le> n + length ws"
  by (induction v n ws rule: runs_from.induct) (auto split: if_splits)

definition nonzero_runs :: "(nullable_i64 \<times> u64) list \<Rightarrow> bool" where
  "nonzero_runs runs \<longleftrightarrow> (\<forall>run\<in>set runs. snd run \<noteq> 0)"

lemma nonzero_runs_of:
  assumes "length rows \<le> usize_max"
  shows "nonzero_runs (runs_of rows)"
proof -
  have "(of_nat m :: u64) \<noteq> 0" if "(v', m) \<in> set (runs_from v 1 ws)" "rows = v # ws" for v' m v ws
  proof -
    have m: "0 < m" "m \<le> usize_max" using runs_from_lengths [OF that(1)] that(2) assms by simp_all
    then have "unat (of_nat m :: u64) = m" by simp
    with m(1) show ?thesis by (metis less_irrefl unat_0)
  qed
  then show ?thesis by (cases rows) (auto simp: nonzero_runs_def runs_of_def)
qed

section \<open>Maximal runs are the cheapest\<close>

text \<open>For any cost of a run that depends on its value only, the maximal runs of a sequence cost no
  more than any other runs of it.\<close>

definition runs_cost :: "(nullable_i64 \<Rightarrow> nat) \<Rightarrow> (nullable_i64 \<times> 'n) list \<Rightarrow> nat" where
  "runs_cost c runs = sum_list (map (\<lambda>run. c (fst run)) runs)"

lemma runs_cost_simps [simp]:
  "runs_cost c [] = 0" "runs_cost c (run # runs) = c (fst run) + runs_cost c runs"
  "runs_cost c (map (apsnd f) runs) = runs_cost c runs"
  by (simp_all add: runs_cost_def comp_def)

lemma cost_from_length: "runs_cost c (runs_from v n ws) = runs_cost c (runs_from v m ws)"
proof (induction ws arbitrary: v n m)
  case (Cons w ws)
  show ?case using Cons.IH [of v "Suc n" "Suc m"] by simp
qed simp

lemma cost_cons:
  "runs_cost c (runs_of (v # ws)) \<le> c v + runs_cost c (runs_of ws)"
proof (cases ws)
  case (Cons w us)
  then show ?thesis using cost_from_length [of c v 2 us 1]
    by (simp add: runs_of_def numeral_2_eq_2)
qed (simp add: runs_of_def)

lemma cost_same_head: "runs_cost c (runs_of (v # v # ws)) = runs_cost c (runs_of (v # ws))"
  using cost_from_length [of c v 2 ws 1] by (simp add: runs_of_def numeral_2_eq_2)

lemma cost_replicate:
  "runs_cost c (runs_of (replicate n v @ ws)) \<le> c v + runs_cost c (runs_of ws)"
proof (induction n)
  case (Suc n)
  show ?case
  proof (cases n)
    case 0
    then show ?thesis using cost_cons [of c v ws] by simp
  next
    case (Suc k)
    with Suc.IH show ?thesis using cost_same_head [of c v "replicate k v @ ws"] by simp
  qed
qed simp

lemma cost_minimal: "runs_cost c (runs_of (expand_runs runs)) \<le> runs_cost c runs"
proof (induction runs)
  case (Cons run runs)
  then show ?case
    using cost_replicate [of c "unat (snd run)" "fst run" "expand_runs runs"] by simp
qed (simp add: runs_of_def)

lemma runs_cost_one [simp]: "runs_cost (\<lambda>_. Suc 0) runs = length runs"
  by (induction runs) simp_all

lemma put_all_as_cost: "length (rle_runs.put_all runs) = runs_cost (\<lambda>v. if v = None then 9 else 17) runs"
  by (induction runs) (simp_all add: length_put_run)

lemma put_all_count: "length (rle_runs.put_all runs) = 9 * length runs + 8 * value_runs runs"
  by (induction runs) (simp_all add: length_put_run)

section \<open>The codec\<close>

definition rle_payload :: "(nullable_i64 \<times> u64) list \<Rightarrow> u8 list" where
  "rle_payload runs =
     rle_magic @ to_le 2 rle_version @ to_le 8 (of_nat (length (expand_runs runs)) :: u64) @
     to_le 8 (of_nat (length runs) :: u64) @ rle_runs.put_all runs"

lemma length_rle_payload [simp]: "length (rle_payload runs) = 26 + length (rle_runs.put_all runs)"
  by (simp add: rle_payload_def)

definition runs_fit :: "rle_codec \<Rightarrow> (nullable_i64 \<times> u64) list \<Rightarrow> bool" where
  "runs_fit codec runs \<longleftrightarrow>
     length (expand_runs runs) \<le> rle_max_rows codec \<and> length (expand_runs runs) \<le> usize_max \<and>
     length runs \<le> rle_max_runs codec \<and>
     length (rle_payload runs) \<le> rle_max_payload_len codec \<and> length (rle_payload runs) \<le> usize_max"

lemma payload_len_eq:
  "Option.bind (checked_mul r 9) (\<lambda>run_bytes.
     Option.bind (checked_mul k 8) (\<lambda>value_bytes.
     Option.bind (checked_add run_bytes value_bytes) (checked_add 26))) =
   (if 26 + (9 * r + 8 * k) \<le> usize_max then Some (26 + (9 * r + 8 * k)) else None)"
  by (auto simp: checked_mul_def checked_add_def ac_simps)

lemma rle_encode_iff:
  "rle_encode codec rows = Inr p \<longleftrightarrow>
     length rows \<le> usize_max \<and> runs_fit codec (runs_of rows) \<and> p = rle_payload (runs_of rows)"
proof (cases "length rows \<le> usize_max")
  case True
  let ?runs = "runs_of rows"
  let ?header = "rle_magic @ to_le 2 rle_version @ to_le 8 (of_nat (length rows) :: u64) @
      to_le 8 (of_nat (length ?runs) :: u64)"
  have written: "(case rows of [] \<Rightarrow> Inr ?header | v # vs \<Rightarrow> write_runs m v 1 vs ?header) =
      Inr (rle_payload ?runs)" for m
    using True by (cases rows) (simp_all add: rle_payload_def expand_runs_of write_runs_eq,
      simp_all add: runs_of_def)
  have few: "length ?runs \<le> usize_max"
  proof -
    have "length (runs_of (expand_runs (map (\<lambda>v. (v, 1)) rows))) \<le> length rows"
      using cost_minimal [of "\<lambda>_. 1" "map (\<lambda>v. (v, 1)) rows"] by simp
    moreover have "expand_runs (map (\<lambda>v. (v, 1)) rows) = rows" by (induction rows) simp_all
    ultimately show ?thesis using True by simp
  qed
  have len: "length (rle_payload ?runs) = 26 + (9 * length ?runs + 8 * value_runs ?runs)"
    by (simp add: put_all_count)
  show ?thesis
    using True few written
    by (auto simp: rle_encode_def rle_encode_rows_def Let_def u64_of_usize_eq count_all_runs_eq
        payload_len_eq runs_fit_def expand_runs_of len simp del: length_rle_payload)
next
  case False
  then have "u64_of_usize (length rows) = None" by (simp add: u64_of_usize_def usize_max_def)
  with False show ?thesis by (simp add: rle_encode_def rle_encode_rows_def)
qed

lemma account_run_iff:
  "account_run run s = Some t \<longleftrightarrow> snd run \<noteq> 0 \<and> unat t = unat s + unat (snd run)"
proof -
  have "unat (s + snd run) = unat s + unat (snd run)" if "unat s + unat (snd run) < 2 ^ 64"
    using that by (simp add: unat_word_ariths)
  moreover have "unat t < 2 ^ 64" using unsigned_less [of t] by simp
  ultimately show ?thesis
    by (auto simp: account_run_def checked_add_u64_def word_unat_eq_iff)
qed

lemma account_runs:
  "rle_runs.account_all runs s = Some s' \<longleftrightarrow>
     nonzero_runs runs \<and> unat s + length (expand_runs runs) = unat s'"
proof (induction runs arbitrary: s)
  case Nil
  then show ?case by (auto simp: nonzero_runs_def word_unat_eq_iff)
next
  case (Cons run runs)
  have "\<exists>t. account_run run s = Some t"
    if "snd run \<noteq> 0" "unat s + (unat (snd run) + length (expand_runs runs)) = unat s'"
  proof
    have "unat s' < 2 ^ 64" using unsigned_less [of s'] by simp
    with that show "account_run run s = Some (s + snd run)"
      by (simp add: account_run_def checked_add_u64_def)
  qed
  then show ?case
    by (fastforce simp: Cons bind_eq_Some_conv account_run_iff nonzero_runs_def)
qed

lemma rle_header_fields [simp]:
  "read_array 8 (rle_payload runs) 0 = rle_magic"
  "read_array 2 (rle_payload runs) 8 = to_le 2 rle_version"
  "read_array 8 (rle_payload runs) 10 = to_le 8 (of_nat (length (expand_runs runs)) :: u64)"
  "read_array 8 (rle_payload runs) 18 = to_le 8 (of_nat (length runs) :: u64)"
  by (simp_all add: read_array_def rle_payload_def)

lemma length_nonzero_runs: "nonzero_runs runs \<Longrightarrow> length runs \<le> length (expand_runs runs)"
proof (induction runs)
  case (Cons run runs)
  then have "0 < unat (snd run)" by (simp add: nonzero_runs_def unat_gt_0)
  with Cons show ?case by (simp add: nonzero_runs_def)
qed simp

lemma rle_decode_payload:
  assumes "runs_fit codec runs" and "nonzero_runs runs" and "length (rle_payload runs) < usize_max"
    and "can_reserve (length (expand_runs runs))"
  shows "rle_decode can_reserve codec (rle_payload runs) = Inr (expand_runs runs)"
proof -
  let ?p = "rle_payload runs"
  have n: "length runs \<le> usize_max" "length (expand_runs runs) \<le> usize_max"
    using assms(1) length_nonzero_runs [OF assms(2)] by (auto simp: runs_fit_def)
  have "rle_runs.account_all runs 0 = Some (of_nat (length (expand_runs runs)))"
    using assms(2) n(2) by (simp add: account_runs)
  then have "check_all check_run 0 ?p (length runs) (26, 0) =
      Inr (length ?p, of_nat (length (expand_runs runs)))"
    using rle_runs.check_all_exact [OF assms(3), of 26 0 "length runs" 0]
    by (auto simp: rle_payload_def)
  then have valid: "validate_nullable_i64_rle_runs ?p (length runs) =
      Inr (of_nat (length (expand_runs runs)), length ?p)"
    by (simp add: validate_nullable_i64_rle_runs_def del: length_rle_payload)
  have "stands_at (rle_runs.put_all runs) ?p 26"
    using stands_at_self [of "rle_runs.put_all runs" "take 26 ?p" "[]"] by (simp add: rle_payload_def)
  then have get: "get_all get_run ?p (length runs) 26 = runs" by (rule rle_runs.get_all_put_all)
  have "26 + length runs * 9 \<le> length ?p" by (simp add: put_all_count)
  then have "Option.bind (checked_mul (length runs) 9) (checked_add 26) = Some (26 + length runs * 9)"
    and "26 + length runs * 9 \<le> rle_max_payload_len codec"
    using assms(1) by (auto simp: runs_fit_def checked_mul_def checked_add_def)
  moreover have "unat (of_nat (length (expand_runs runs)) :: u64) \<le> unat (u64_or_max (rle_max_rows codec))"
    using assms(1) n(2)
    by (cases "rle_max_rows codec \<le> usize_max")
      (auto simp: runs_fit_def u64_or_max_fits u64_or_max_def u64_of_usize_def usize_max_def
        unsigned_minus_1_eq_mask mask_eq_exp_minus_1)
  ultimately show ?thesis
    using valid get n assms(1,4)
    by (simp add: rle_decode_def runs_fit_def Let_def word_less_nat_alt not_less)
qed

lemma rle_split_fields:
  "p = read_array 8 p 0 @ read_array 2 p 8 @ read_array 8 p 10 @ read_array 8 p 18 @ drop 26 p"
  by (simp add: read_array_def flip: append_assoc take_add)

lemma rle_decode_sound:
  assumes "rle_decode can_reserve codec p = Inr rows" and "length p < usize_max"
  shows "\<exists>runs. p = rle_payload runs \<and> rows = expand_runs runs \<and> nonzero_runs runs \<and>
    runs_fit codec runs \<and> can_reserve (length rows)"
proof -
  let ?rows = "from_le (read_array 8 p 10) :: u64" and ?runs = "from_le (read_array 8 p 18) :: u64"
  obtain off where len: "length p \<le> rle_max_payload_len codec" "26 \<le> length p"
    and magic: "read_array 8 p 0 = rle_magic" and version: "from_le (read_array 2 p 8) = rle_version"
    and bounds: "unat ?rows \<le> rle_max_rows codec" "unat ?runs \<le> rle_max_runs codec"
    and valid: "check_all check_run 0 p (unat ?runs) (26, 0) = Inr (off, ?rows)" "length p \<le> off"
    and result: "rows = expand_runs (get_all get_run p (unat ?runs) 26)" "can_reserve (unat ?rows)"
    using assms(1)
    by (auto simp: rle_decode_def Let_def validate_nullable_i64_rle_runs_def result_simps
        split: if_splits)
  from rle_runs.check_all_sound [OF assms(2) valid(1)] obtain runs
    where runs: "length runs = unat ?runs" "rle_runs.account_all runs 0 = Some ?rows"
      "stands_at (rle_runs.put_all runs) p 26" "off = 26 + length (rle_runs.put_all runs)" by blast
  have count: "nonzero_runs runs" "length (expand_runs runs) = unat ?rows"
    using runs(2) by (simp_all add: account_runs)
  have body: "drop 26 p = rle_runs.put_all runs"
    using stands_at_split [OF runs(3) len(2)] runs(4) valid(2)
    by (metis append_Nil2 append_eq_append_conv append_take_drop_id drop_all)
  have v: "read_array 2 p 8 = to_le 2 rle_version"
    using le_field [of "read_array 2 p 8" 2, where ?'a = 16] version len by (simp add: read_array_def)
  have r: "read_array 8 p 10 = to_le 8 (of_nat (length (expand_runs runs)) :: u64)"
    using le_field [of "read_array 8 p 10" 8, where ?'a = 64] len count by (simp add: read_array_def)
  have k: "read_array 8 p 18 = to_le 8 (of_nat (length runs) :: u64)"
    using le_field [of "read_array 8 p 18" 8, where ?'a = 64] len runs(1) by (simp add: read_array_def)
  have "p = read_array 8 p 0 @ read_array 2 p 8 @ read_array 8 p 10 @ read_array 8 p 18 @ drop 26 p"
    by (rule rle_split_fields)
  also have "\<dots> = rle_payload runs" by (simp only: rle_payload_def magic v r k body)
  finally have p: "p = rle_payload runs" .
  have rows: "rows = expand_runs runs"
    using result(1) rle_runs.get_all_put_all [OF runs(3)] runs(1) by simp
  have "length (rle_payload runs) \<le> rle_max_payload_len codec" "length (rle_payload runs) < usize_max"
    using len(1) assms(2) p by metis+
  then have "runs_fit codec runs"
    using bounds runs(1) count(2) by (simp add: runs_fit_def)
  with p rows count result(2) show ?thesis by metis
qed

text \<open>C28: A payload the encoder writes is decoded to its rows when their reservation is granted.
  A payload the decoder accepts holds rows the encoder accepts under the same bounds, and the
  encoder's payload for them is never longer.\<close>

theorem rle_codec_correct:
  assumes "length p < usize_max"
  shows "(rle_encode codec rows = Inr p \<and> can_reserve (length rows) \<longrightarrow>
      rle_decode can_reserve codec p = Inr rows) \<and>
    (rle_decode can_reserve codec p = Inr rows \<longrightarrow>
      (\<exists>q. rle_encode codec rows = Inr q \<and> length q \<le> length p))"
proof (intro conjI impI)
  assume enc: "rle_encode codec rows = Inr p \<and> can_reserve (length rows)"
  then have rows: "length rows \<le> usize_max" and fit: "runs_fit codec (runs_of rows)"
    and p: "p = rle_payload (runs_of rows)" by (simp_all add: rle_encode_iff)
  show "rle_decode can_reserve codec p = Inr rows"
    using rle_decode_payload [OF fit nonzero_runs_of [OF rows], of can_reserve] assms enc
    unfolding p by (simp add: expand_runs_of [OF rows])
next
  assume "rle_decode can_reserve codec p = Inr rows"
  from rle_decode_sound [OF this assms] obtain runs
    where runs: "p = rle_payload runs" "rows = expand_runs runs" "runs_fit codec runs" by blast
  have rows: "length rows \<le> usize_max" using runs(2,3) by (simp add: runs_fit_def)
  have shorter: "length (rle_payload (runs_of rows)) \<le> length p" "length (runs_of rows) \<le> length runs"
    using cost_minimal [of "\<lambda>v. if v = None then 9 else 17" runs] cost_minimal [of "\<lambda>_. 1" runs]
      runs(1,2) by (simp_all add: put_all_as_cost)
  then have "runs_fit codec (runs_of rows)"
    using runs rows by (auto simp: runs_fit_def expand_runs_of simp del: length_rle_payload)
  with rows shorter(1) show "\<exists>q. rle_encode codec rows = Inr q \<and> length q \<le> length p"
    by (auto simp: rle_encode_iff)
qed

theorem rle_codec_correct_witness:
  "rle_decode (\<lambda>_. True) (rle_codec_new 3 2 60) (rle_payload [(Some 7, 2), (None, 1)]) =
     Inr [Some 7, Some 7, None]"
proof -
  let ?p = "rle_payload [(Some 7, 2), (None, 1)]"
  have "length ?p < usize_max" by (simp add: length_put_run usize_max_def)
  note correct = rle_codec_correct [OF this, of "rle_codec_new 3 2 60" "[Some 7, Some 7, None]" "\<lambda>_. True"]
  have runs: "runs_of [Some 7, Some 7, None] = [(Some 7, 2), (None, 1)]" by (simp add: runs_of_def)
  have "expand_runs [(Some 7, 2), (None, 1)] = [Some 7, Some 7, None]"
    using expand_runs_of [of "[Some 7, Some 7, None]"] runs by (simp add: usize_max_def)
  then show ?thesis
    using correct runs
    by (simp add: rle_encode_iff runs_fit_def rle_codec_new_def length_put_run usize_max_def
        del: expand_runs_simps)
qed

end
