(* ===== verification/Table_Codec.thy ===== *)
theory Table_Codec
  imports Nullable_Codec Storage
begin

text \<open>
  The self-describing table payload of \<^verbatim>\<open>src/snapshot.rs\<close>
  (\<open>Int64TablePayloadCodec\<close>): magic, version, column type and nullability tags, the column name
  as UTF-8, row cap, row count and the rows. The decoder validates everything before it builds the
  table; a panic of its \<open>expect\<close> is a branch of the model, shown not to be taken.
\<close>

section \<open>UTF-8\<close>

text \<open>Column names are byte strings; \<open>as_bytes\<close> and its inverse.\<close>

definition bytes_of_str :: "string \<Rightarrow> u8 list" where
  "bytes_of_str s = map (\<lambda>c. word_of_nat (of_char c)) s"

definition str_of_bytes :: "u8 list \<Rightarrow> string" where
  "str_of_bytes bs = map (\<lambda>b. char_of (unat b)) bs"

lemma length_bytes_of_str [simp]: "length (bytes_of_str s) = length s"
  by (simp add: bytes_of_str_def)

lemma str_of_bytes_of_str [simp]: "str_of_bytes (bytes_of_str s) = s"
  by (simp add: bytes_of_str_def str_of_bytes_def comp_def take_bit_nat_eq_self_iff unat_of_nat
      take_bit_eq_mod)

lemma bytes_of_str_of_bytes [simp]: "bytes_of_str (str_of_bytes bs) = bs"
proof -
  have "(word_of_nat (unat b mod 256) :: u8) = b" for b :: u8
  proof -
    have "unat b < 256" using unsigned_less [of b, where ?'a = nat] by simp
    then show ?thesis by simp
  qed
  then show ?thesis by (simp add: bytes_of_str_def str_of_bytes_def comp_def map_idI)
qed

text \<open>\<open>std::str::from_utf8\<close>: one character at a time, its width or the length of the error
  (none when the input ends inside a character).\<close>

definition utf8_cont :: "u8 \<Rightarrow> bool" where
  "utf8_cont b \<longleftrightarrow> 0x80 \<le> b \<and> b \<le> 0xBF"

definition utf8_second_of_three :: "u8 \<Rightarrow> u8 \<Rightarrow> bool" where
  "utf8_second_of_three b0 b1 \<longleftrightarrow>
     (if b0 = 0xE0 then 0xA0 \<le> b1 \<and> b1 \<le> 0xBF
      else if b0 = 0xED then 0x80 \<le> b1 \<and> b1 \<le> 0x9F
      else utf8_cont b1)"

definition utf8_second_of_four :: "u8 \<Rightarrow> u8 \<Rightarrow> bool" where
  "utf8_second_of_four b0 b1 \<longleftrightarrow>
     (if b0 = 0xF0 then 0x90 \<le> b1 \<and> b1 \<le> 0xBF
      else if b0 = 0xF4 then 0x80 \<le> b1 \<and> b1 \<le> 0x8F
      else utf8_cont b1)"

text \<open>The continuation bytes of a character, each with its test, after \<open>k\<close> accepted bytes.\<close>

fun utf8_rest :: "nat \<Rightarrow> (u8 \<Rightarrow> bool) list \<Rightarrow> u8 list \<Rightarrow> nat option + nat" where
  "utf8_rest k [] bs = Inr k"
| "utf8_rest k (t # ts) [] = Inl None"
| "utf8_rest k (t # ts) (b # bs) = (if t b then utf8_rest (Suc k) ts bs else Inl (Some k))"

definition utf8_char :: "u8 \<Rightarrow> u8 list \<Rightarrow> nat option + nat" where
  "utf8_char b0 rest =
     (if b0 < 0x80 then Inr 1
      else if 0xC2 \<le> b0 \<and> b0 \<le> 0xDF then utf8_rest 1 [utf8_cont] rest
      else if 0xE0 \<le> b0 \<and> b0 \<le> 0xEF then utf8_rest 1 [utf8_second_of_three b0, utf8_cont] rest
      else if 0xF0 \<le> b0 \<and> b0 \<le> 0xF4
      then utf8_rest 1 [utf8_second_of_four b0, utf8_cont, utf8_cont] rest
      else Inl (Some 1))"

function from_utf8 :: "usize \<Rightarrow> u8 list \<Rightarrow> usize \<times> usize option + unit" where
  "from_utf8 offset [] = Inr ()"
| "from_utf8 offset (b # bs) =
     (case utf8_char b bs of
        Inl error_len \<Rightarrow> Inl (offset, error_len)
      | Inr width \<Rightarrow> from_utf8 (offset + width) (drop (width - 1) bs))"
  by pat_completeness auto
termination by (relation "measure (\<lambda>(_, bs). length bs)") auto

definition utf8_valid :: "string \<Rightarrow> bool" where
  "utf8_valid s \<longleftrightarrow> from_utf8 0 (bytes_of_str s) = Inr ()"

section \<open>Layout\<close>

definition table_magic :: "u8 list" where
  "table_magic = [0x52, 0x48, 0x49, 0x54, 0x42, 0x4C, 0x50, 0x00]"

definition table_version :: u16 where
  "table_version = 1"

definition table_fixed_len :: usize where
  "table_fixed_len = length table_magic + 2 + 2 * 1 + 3 * 8"

definition int64_type_tag :: u8 where
  "int64_type_tag = 1"

definition not_null_tag :: u8 where
  "not_null_tag = 0"

definition nullable_tag :: u8 where
  "nullable_tag = 1"

definition table_version_offset :: usize where
  "table_version_offset = length table_magic"

definition table_type_offset :: usize where
  "table_type_offset = table_version_offset + 2"

definition table_nullability_offset :: usize where
  "table_nullability_offset = table_type_offset + 1"

definition table_name_length_offset :: usize where
  "table_name_length_offset = table_nullability_offset + 1"

definition table_name_offset :: usize where
  "table_name_offset = table_name_length_offset + 8"

lemma length_table_magic [simp]: "length table_magic = 8"
  by (simp add: table_magic_def)

lemmas table_layout [simp] =
  table_fixed_len_def table_version_offset_def table_type_offset_def table_nullability_offset_def
  table_name_length_offset_def table_name_offset_def

lemma nullability_tags_differ [simp]: "not_null_tag \<noteq> nullable_tag" "nullable_tag \<noteq> not_null_tag"
  by (simp_all add: not_null_tag_def nullable_tag_def)

datatype table_payload_error =
  TableNameTooLong u64 usize
| TableRowCapLimitExceeded u64 usize
| TableRowLimitExceeded u64 usize
| TablePayloadTooLarge u64 usize
| TableTruncated usize usize
| TableIncompatibleMagic "u8 list"
| TableUnsupportedVersion u16 u16
| TableUnknownColumnTypeTag u8
| TableUnknownNullabilityTag u8
| TableInvalidColumnNameUtf8 usize "usize option"
| TableRowsExceedRowCap u64 u64
| TableUnknownRowTag usize u8
| TableNullNotAllowed usize
| TableTrailingData usize usize
| TablePanic insert_error

record table_codec =
  table_max_name_len :: usize
  table_max_rows :: usize
  table_max_payload_len :: usize

definition table_codec_new :: "usize \<Rightarrow> usize \<Rightarrow> usize \<Rightarrow> table_codec" where
  "table_codec_new n r p = \<lparr>table_max_name_len = n, table_max_rows = r, table_max_payload_len = p\<rparr>"

section \<open>Encoding\<close>

definition validate_metadata ::
  "table_codec \<Rightarrow> string \<Rightarrow> usize \<Rightarrow> usize \<Rightarrow> table_payload_error + u64 \<times> u64 \<times> u64" where
  "validate_metadata codec name row_cap row_count =
     (let name_len = u64_or_max (length name);
          encoded_row_cap = u64_or_max row_cap;
          encoded_row_count = u64_or_max row_count in
      if length name > table_max_name_len codec
      then Inl (TableNameTooLong name_len (table_max_name_len codec))
      else if row_cap > table_max_rows codec
      then Inl (TableRowCapLimitExceeded encoded_row_cap (table_max_rows codec))
      else if row_count > table_max_rows codec
      then Inl (TableRowLimitExceeded encoded_row_count (table_max_rows codec))
      else Inr (name_len, encoded_row_cap, encoded_row_count))"

definition encode_prefix ::
  "table_codec \<Rightarrow> string \<Rightarrow> bool \<Rightarrow> u64 \<times> u64 \<times> u64 \<Rightarrow> usize option \<Rightarrow> table_payload_error + u8 list" where
  "encode_prefix codec name nullable metadata encoded_rows_len =
     (case metadata of (name_len, row_cap, row_count) \<Rightarrow>
      case Option.bind encoded_rows_len (\<lambda>rows_len.
             Option.bind (checked_add table_fixed_len (length name)) (\<lambda>fixed_len.
             checked_add fixed_len rows_len)) of
        None \<Rightarrow> Inl (TablePayloadTooLarge (- 1) (table_max_payload_len codec))
      | Some payload_len \<Rightarrow>
          if payload_len > table_max_payload_len codec
          then Inl (TablePayloadTooLarge (u64_or_max payload_len) (table_max_payload_len codec))
          else Inr (table_magic @ to_le 2 table_version @ [int64_type_tag] @
                    [if nullable then nullable_tag else not_null_tag] @ to_le 8 name_len @
                    bytes_of_str name @ to_le 8 row_cap @ to_le 8 row_count))"

definition encode_optional_values ::
  "table_codec \<Rightarrow> string \<Rightarrow> bool \<Rightarrow> usize \<Rightarrow> nullable_i64 list \<Rightarrow> table_payload_error + u8 list" where
  "encode_optional_values codec name nullable row_cap values =
     res_bind (validate_metadata codec name row_cap (length values)) (\<lambda>metadata.
     res_bind (encode_prefix codec name nullable metadata (add_row_lens 0 values)) (\<lambda>payload.
     Inr (payload @ concat (map put_row values))))"

definition table_encode :: "table_codec \<Rightarrow> int64_table \<Rightarrow> table_payload_error + u8 list" where
  "table_encode codec t =
     encode_optional_values codec (column_of t) (nullable_of t) (table_row_cap t) (table_values t)"

definition encode_nullable_values ::
  "table_codec \<Rightarrow> string \<Rightarrow> usize \<Rightarrow> nullable_i64 list \<Rightarrow> table_payload_error + u8 list" where
  "encode_nullable_values codec name row_cap values = encode_optional_values codec name True row_cap values"

definition encode_non_nullable_values ::
  "table_codec \<Rightarrow> string \<Rightarrow> usize \<Rightarrow> i64 list \<Rightarrow> table_payload_error + u8 list" where
  "encode_non_nullable_values codec name row_cap values =
     res_bind (validate_metadata codec name row_cap (length values)) (\<lambda>metadata.
     res_bind (encode_prefix codec name False metadata (checked_mul (length values) (1 + 8))) (\<lambda>payload.
     Inr (payload @ concat (map (\<lambda>v. value_tag # to_le 8 v) values))))"

section \<open>Decoding\<close>

definition check_table_row ::
  "bool \<Rightarrow> usize \<Rightarrow> u8 list \<Rightarrow> usize \<times> unit \<Rightarrow> table_payload_error + usize \<times> unit" where
  "check_table_row nullable i payload st =
     (let offset = fst st; tag_end = saturating_add offset 1 in
      case slice_get payload offset of
        None \<Rightarrow> Inl (TableTruncated tag_end (length payload))
      | Some tag \<Rightarrow>
          if tag = null_tag \<and> \<not> nullable then Inl (TableNullNotAllowed i)
          else if tag = null_tag then Inr (tag_end, ())
          else if tag = value_tag then
            (let value_end = saturating_add tag_end 8 in
             if length payload < value_end then Inl (TableTruncated value_end (length payload))
             else Inr (value_end, ()))
          else Inl (TableUnknownRowTag i tag))"

definition validate_int64_table_rows ::
  "u8 list \<Rightarrow> usize \<Rightarrow> usize \<Rightarrow> bool \<Rightarrow> table_payload_error + unit" where
  "validate_int64_table_rows payload rows_offset row_count nullable =
     res_bind (check_all (check_table_row nullable) 0 payload row_count (rows_offset, ())) (\<lambda>st.
     if length payload > fst st then Inl (TableTrailingData (fst st) (length payload))
     else Inr ())"

text \<open>The part of the decoder after the column name: row cap, row count, rows, and the table.\<close>

definition decode_table_body ::
  "table_codec \<Rightarrow> u8 list \<Rightarrow> string \<Rightarrow> bool \<Rightarrow> usize \<Rightarrow> table_payload_error + int64_table" where
  "decode_table_body codec payload name nullable name_end =
     (let max_len = table_max_payload_len codec; max_rows = table_max_rows codec;
          overflow = TablePayloadTooLarge (- 1) max_len in
      res_bind (ok_or (checked_add name_end (2 * 8)) overflow) (\<lambda>rows_offset.
      if rows_offset > max_len then Inl (TablePayloadTooLarge (u64_or_max rows_offset) max_len)
      else if length payload < rows_offset then Inl (TableTruncated rows_offset (length payload))
      else let declared_row_cap = from_le (read_array 8 payload name_end);
               cap_error = TableRowCapLimitExceeded declared_row_cap max_rows in
      res_bind (ok_or (usize_of_u64 declared_row_cap) cap_error) (\<lambda>row_cap.
      if row_cap > max_rows then Inl cap_error
      else let declared_row_count = from_le (read_array 8 payload (name_end + 8));
               count_error = TableRowLimitExceeded declared_row_count max_rows in
      res_bind (ok_or (usize_of_u64 declared_row_count) count_error) (\<lambda>row_count.
      if row_count > max_rows then Inl count_error
      else if row_count > row_cap then Inl (TableRowsExceedRowCap declared_row_count declared_row_cap)
      else res_bind (ok_or (checked_add rows_offset row_count) overflow) (\<lambda>minimum_len.
      if minimum_len > max_len then Inl (TablePayloadTooLarge (u64_or_max minimum_len) max_len)
      else if length payload < minimum_len then Inl (TableTruncated minimum_len (length payload))
      else res_bind (validate_int64_table_rows payload rows_offset row_count nullable) (\<lambda>_.
      case table_append_batch (table_new (schema_int64 name nullable) row_cap)
          (get_all get_row payload row_count rows_offset) of
        (Inl e, _) \<Rightarrow> Inl (TablePanic e)
      | (Inr _, t) \<Rightarrow> Inr t))))))"

definition table_decode :: "table_codec \<Rightarrow> u8 list \<Rightarrow> table_payload_error + int64_table" where
  "table_decode codec payload =
     (let max_len = table_max_payload_len codec in
      if length payload > max_len
      then Inl (TablePayloadTooLarge (u64_or_max (length payload)) max_len)
      else if length payload < table_name_offset
      then Inl (TableTruncated table_name_offset (length payload))
      else let found_magic = read_array 8 payload 0 in
      if found_magic \<noteq> table_magic then Inl (TableIncompatibleMagic found_magic)
      else let version = from_le (read_array 2 payload table_version_offset) in
      if version \<noteq> table_version then Inl (TableUnsupportedVersion version table_version)
      else let type_tag = payload ! table_type_offset in
      if type_tag \<noteq> int64_type_tag then Inl (TableUnknownColumnTypeTag type_tag)
      else let null_byte = payload ! table_nullability_offset in
      if null_byte \<noteq> not_null_tag \<and> null_byte \<noteq> nullable_tag
      then Inl (TableUnknownNullabilityTag null_byte)
      else let nullable = (null_byte = nullable_tag);
               declared_name_len = from_le (read_array 8 payload table_name_length_offset);
               name_error = TableNameTooLong declared_name_len (table_max_name_len codec) in
      res_bind (ok_or (usize_of_u64 declared_name_len) name_error) (\<lambda>name_len.
      if name_len > table_max_name_len codec then Inl name_error
      else res_bind (ok_or (checked_add table_name_offset name_len)
          (TablePayloadTooLarge (- 1) max_len)) (\<lambda>name_end.
      if length payload < name_end then Inl (TableTruncated name_end (length payload))
      else let name_bytes = read_array name_len payload table_name_offset in
      case from_utf8 0 name_bytes of
        Inl (valid_up_to, error_len) \<Rightarrow> Inl (TableInvalidColumnNameUtf8 valid_up_to error_len)
      | Inr _ \<Rightarrow> decode_table_body codec payload (str_of_bytes name_bytes) nullable name_end)))"

section \<open>The rows of a table\<close>

definition account_row :: "bool \<Rightarrow> nullable_i64 \<Rightarrow> unit \<Rightarrow> unit option" where
  "account_row nullable v s = (if v = None \<and> \<not> nullable then None else Some s)"

text \<open>A row check of the table differs from the one of the row payload in its errors and in the
  nulls it refuses.\<close>

lemma check_table_row_iff:
  "check_table_row nullable i payload (offset, s) = Inr st \<longleftrightarrow>
     check_row i payload (offset, s) = Inr st \<and> (nullable \<or> slice_get payload offset \<noteq> Some null_tag)"
  by (auto simp: check_table_row_def check_row_def Let_def split: option.splits)

interpretation table_rows: offset_format put_row get_row "check_table_row nullable" "account_row nullable"
  for nullable
proof (unfold_locales, goal_cases)
  case (1 x payload offset)
  then show ?case by (rule get_put_row)
next
  case (2 payload x offset s s' i)
  then have "nullable \<or> slice_get payload offset \<noteq> Some null_tag"
    by (auto simp: account_row_def put_row_stands split: option.splits if_splits)
  with 2 show ?case
    using nullable_rows.check_put [OF 2(1,2), of s s' i]
    by (simp add: check_table_row_iff account_row_def split: if_splits)
next
  case (3 payload i offset s offset' s')
  from nullable_rows.check_sound [OF 3(1), of i offset s offset' s'] 3(2) obtain x
    where "stands_at (put_row x) payload offset" "offset' = offset + length (put_row x)"
    by (auto simp: check_table_row_iff)
  with 3(2) show ?case
    by (intro exI [of _ x]) (auto simp: check_table_row_iff account_row_def put_row_stands
        split: option.splits)
qed

lemma account_row_iff: "account_row nullable v s = Some s' \<longleftrightarrow> nullable \<or> v \<noteq> None"
  by (simp add: account_row_def)

lemma account_table_rows:
  "table_rows.account_all nullable xs s = Some s' \<longleftrightarrow> nullable \<or> None \<notin> set xs"
  by (induction xs) (auto simp: account_row_iff bind_eq_Some_conv)

lemma table_rows_put_all: "table_rows.put_all xs = concat (map put_row xs)"
  by (simp add: table_rows.put_all_def)

section \<open>The codec\<close>

definition table_payload :: "int64_table \<Rightarrow> u8 list" where
  "table_payload t =
     table_magic @ to_le 2 table_version @ [int64_type_tag] @
     [if nullable_of t then nullable_tag else not_null_tag] @
     to_le 8 (of_nat (length (column_of t)) :: u64) @ bytes_of_str (column_of t) @
     to_le 8 (of_nat (table_row_cap t) :: u64) @ to_le 8 (of_nat (length (table_values t)) :: u64) @
     concat (map put_row (table_values t))"

lemma length_table_payload:
  "length (table_payload t) =
     36 + length (column_of t) + length (concat (map put_row (table_values t)))"
  by (simp add: table_payload_def)

definition table_fits :: "table_codec \<Rightarrow> int64_table \<Rightarrow> bool" where
  "table_fits codec t \<longleftrightarrow>
     length (column_of t) \<le> table_max_name_len codec \<and> table_row_cap t \<le> table_max_rows codec \<and>
     length (table_values t) \<le> table_max_rows codec \<and>
     length (table_payload t) \<le> table_max_payload_len codec \<and> length (table_payload t) \<le> usize_max"

lemma prefix_len_eq:
  "Option.bind (add_row_lens 0 values) (\<lambda>rows_len.
     Option.bind (checked_add 36 n) (\<lambda>fixed_len. checked_add fixed_len rows_len)) =
   (if 36 + n + length (concat (map put_row values)) \<le> usize_max
    then Some (36 + n + length (concat (map put_row values))) else None)"
  by (auto simp: add_row_lens_eq checked_add_def)

lemma table_encode_iff:
  assumes "table_max_rows codec \<le> usize_max"
  shows "table_encode codec t = Inr p \<longleftrightarrow> table_fits codec t \<and> p = table_payload t"
proof (cases "table_fits codec t")
  case True
  then have "length (column_of t) \<le> usize_max" "table_row_cap t \<le> usize_max"
    "length (table_values t) \<le> usize_max"
    using assms by (auto simp: table_fits_def length_table_payload)
  with True show ?thesis
    by (auto simp: table_encode_def encode_optional_values_def validate_metadata_def encode_prefix_def
        Let_def table_fits_def prefix_len_eq length_table_payload u64_or_max_fits)
      (simp_all add: table_payload_def)
next
  case False
  have "table_encode codec t \<noteq> Inr p"
  proof
    assume "table_encode codec t = Inr p"
    with False show False
      by (auto simp: table_encode_def encode_optional_values_def validate_metadata_def encode_prefix_def
          Let_def table_fits_def prefix_len_eq length_table_payload result_simps split: if_splits option.splits)
  qed
  with False show ?thesis by simp
qed

text \<open>A non-nullable column of the batch engine is encoded as the same table's payload.\<close>

lemma non_nullable_rows_len:
  "concat (map (put_row \<circ> Some) vs) = concat (map (\<lambda>v. value_tag # to_le 8 v) vs)"
  "length (concat (map (\<lambda>v. value_tag # to_le 8 (v :: i64)) vs)) = 9 * length vs"
  by (induction vs) (simp_all add: put_row_def)

lemma encode_non_nullable_values_eq:
  "encode_non_nullable_values codec name row_cap vs =
     table_encode codec \<lparr>table_schema = schema_int64 name False, table_values = map Some vs,
       table_row_cap = row_cap\<rparr>"
proof -
  have "Option.bind (checked_mul (length vs) 9) (\<lambda>rows_len.
      Option.bind (checked_add 36 n) (\<lambda>fixed_len. checked_add fixed_len rows_len)) =
    Option.bind (add_row_lens 0 (map Some vs)) (\<lambda>rows_len.
      Option.bind (checked_add 36 n) (\<lambda>fixed_len. checked_add fixed_len rows_len))" for n
    unfolding prefix_len_eq map_map non_nullable_rows_len
    by (auto simp: checked_mul_def checked_add_def)
  then have "encode_prefix codec name False m (checked_mul (length vs) (1 + 8)) =
      encode_prefix codec name False m (add_row_lens 0 (map Some vs))" for m
    by (simp add: encode_prefix_def)
  then show ?thesis
    by (simp add: encode_non_nullable_values_def table_encode_def encode_optional_values_def
        schema_int64_def non_nullable_rows_len)
qed

lemma decode_body_complete:
  assumes "length p < usize_max" and "length p \<le> table_max_payload_len codec"
    and "table_max_rows codec \<le> usize_max" and "table_row_cap t \<le> table_max_rows codec" and "table_wf t"
    and "table_schema t = schema_int64 name nullable"
    and p: "p = h @ to_le 8 (of_nat (table_row_cap t) :: u64) @ to_le 8 (of_nat (length (table_values t)) :: u64) @
        concat (map put_row (table_values t))"
  shows "decode_table_body codec p name nullable (length h) = Inr t"
proof -
  let ?n = "length (table_values t)" and ?cap = "table_row_cap t"
  have n: "?n \<le> ?cap" "?cap \<le> usize_max" and nulls: "nullable \<or> None \<notin> set (table_values t)"
    using assms(3-6) by (auto simp: table_wf_def schema_int64_def)
  have len: "length p = length h + 16 + length (concat (map put_row (table_values t)))"
    using p by simp
  have cap: "from_le (read_array 8 p (length h)) = (of_nat ?cap :: u64)"
    unfolding p by (rule word_stands_read) (rule stands_at_self)
  have count: "from_le (read_array 8 p (length h + 8)) = (of_nat ?n :: u64)"
    using stands_at_self [of "to_le 8 (of_nat ?n :: u64)" "h @ to_le 8 (of_nat ?cap :: u64)"
        "concat (map put_row (table_values t))"] p by (intro word_stands_read) simp
  have rows: "stands_at (concat (map put_row (table_values t))) p (length h + 16)"
    using stands_at_self [of "concat (map put_row (table_values t))"
        "h @ to_le 8 (of_nat ?cap :: u64) @ to_le 8 (of_nat ?n :: u64)" "[]"] p by simp
  have "check_all (check_table_row nullable) 0 p ?n (length h + 16, ()) = Inr (length p, ())"
    using table_rows.check_all_put_all [OF assms(1), of "table_values t" "length h + 16" nullable "()" "()" 0]
      rows nulls len by (simp add: table_rows_put_all account_table_rows)
  then have valid: "validate_int64_table_rows p (length h + 16) ?n nullable = Inr ()"
    by (simp add: validate_int64_table_rows_def)
  have get: "get_all get_row p ?n (length h + 16) = table_values t"
    using table_rows.get_all_put_all [of "table_values t" p "length h + 16"] rows
    by (simp add: table_rows_put_all)
  let ?new = "table_new (schema_int64 name nullable) ?cap"
  have "table_admits ?new (table_values t)"
    using n nulls by (simp add: table_admits_def table_new_def schema_int64_def)
  from append_batch_admitted [OF table_new_wf this]
  have "table_append_batch ?new (table_values t) = (Inr (), t)"
    using assms(6) by (cases t) (simp add: table_new_def)
  moreover have "length h + 16 + ?n \<le> length p" using len rows_at_least by simp
  ultimately show ?thesis
    using assms(1-4) n len cap count valid get
    by (simp add: decode_table_body_def Let_def checked_add_def)
qed

lemma decode_body_sound:
  assumes "decode_table_body codec p name nullable h = Inr t" and "length p < usize_max"
  shows "table_schema t = schema_int64 name nullable \<and> table_wf t \<and>
    table_row_cap t \<le> table_max_rows codec \<and> length (table_values t) \<le> table_max_rows codec \<and>
    drop h p = to_le 8 (of_nat (table_row_cap t) :: u64) @ to_le 8 (of_nat (length (table_values t)) :: u64) @
      concat (map put_row (table_values t))"
proof -
  let ?cap = "from_le (read_array 8 p h) :: u64" and ?n = "from_le (read_array 8 p (h + 8)) :: u64"
  let ?new = "table_new (schema_int64 name nullable) (unat ?cap)"
  let ?rows = "get_all get_row p (unat ?n) (h + 16)"
  obtain off where len: "h + 16 \<le> length p" and bounds: "unat ?cap \<le> table_max_rows codec" "unat ?n \<le> unat ?cap"
    and valid: "check_all (check_table_row nullable) 0 p (unat ?n) (h + 16, ()) = Inr (off, ())"
      "length p \<le> off"
    and batch: "table_append_batch ?new ?rows = (Inr (), t)"
    using assms(1)
    by (auto simp: decode_table_body_def Let_def validate_int64_table_rows_def result_simps not_less
        split: if_splits prod.splits sum.splits)
  from table_rows.check_all_sound [OF assms(2) valid(1)] obtain xs
    where xs: "length xs = unat ?n" "table_rows.account_all nullable xs () = Some ()"
      "stands_at (concat (map put_row xs)) p (h + 16)" "off = h + 16 + length (concat (map put_row xs))"
    by (auto simp: table_rows_put_all)
  have rows: "?rows = xs"
    using table_rows.get_all_put_all [of xs p "h + 16"] xs(1,3) by (simp add: table_rows_put_all)
  have "table_admits ?new xs"
    using xs(1,2) bounds(2)
    by (simp add: table_admits_def table_new_def schema_int64_def account_table_rows)
  from append_batch_admitted [OF table_new_wf this] have t: "t = ?new\<lparr>table_values := xs\<rparr>"
    using batch rows by (simp add: table_new_def)
  have wf: "table_wf t" using append_batch_wf [of ?new ?rows] batch by simp
  have body: "drop (h + 16) p = concat (map put_row xs)"
    using stands_at_split [OF xs(3) len] xs(4) valid(2)
    by (metis append_Nil2 append_eq_append_conv append_take_drop_id drop_all)
  have "drop h p = read_array 8 p h @ read_array 8 p (h + 8) @ drop (h + 16) p"
    by (metis (no_types, lifting) append_take_drop_id drop_drop read_array_def add.commute add.assoc
        numeral_Bit0)
  also have "read_array 8 p h = to_le 8 ?cap"
    using le_field [of "read_array 8 p h" 8, where ?'a = 64] len by (simp add: read_array_def)
  also have "read_array 8 p (h + 8) = to_le 8 ?n"
    using le_field [of "read_array 8 p (h + 8)" 8, where ?'a = 64] len by (simp add: read_array_def)
  finally show ?thesis
    using t wf bounds xs(1) body by (simp add: table_new_def)
qed

definition table_header :: "string \<Rightarrow> bool \<Rightarrow> u8 list" where
  "table_header name nullable =
     table_magic @ to_le 2 table_version @ [int64_type_tag] @
     [if nullable then nullable_tag else not_null_tag] @
     to_le 8 (of_nat (length name) :: u64) @ bytes_of_str name"

lemma length_table_header [simp]: "length (table_header name nullable) = 20 + length name"
  by (simp add: table_header_def)

lemma table_payload_header:
  "table_payload t = table_header (column_of t) (nullable_of t) @ to_le 8 (of_nat (table_row_cap t) :: u64) @
     to_le 8 (of_nat (length (table_values t)) :: u64) @ concat (map put_row (table_values t))"
  by (simp add: table_payload_def table_header_def)

lemma table_header_fields:
  "read_array 8 (table_header name nullable @ b) 0 = table_magic"
  "read_array 2 (table_header name nullable @ b) 8 = to_le 2 table_version"
  "(table_header name nullable @ b) ! 10 = int64_type_tag"
  "(table_header name nullable @ b) ! 11 = (if nullable then nullable_tag else not_null_tag)"
  "read_array 8 (table_header name nullable @ b) 12 = to_le 8 (of_nat (length name) :: u64)"
  "read_array (length name) (table_header name nullable @ b) 20 = bytes_of_str name"
  by (simp_all add: table_header_def read_array_def nth_append)

lemma int64_schema: "table_schema t = schema_int64 (column_of t) (nullable_of t)"
  by (cases "table_schema t", cases "schema_column (table_schema t)",
      cases "col_data_type (schema_column (table_schema t))") (simp add: schema_int64_def)

lemma table_decode_complete:
  assumes "table_max_rows codec \<le> usize_max" and "length (table_payload t) < usize_max"
    and "table_fits codec t" and "table_wf t" and "utf8_valid (column_of t)"
  shows "table_decode codec (table_payload t) = Inr t"
proof -
  let ?h = "table_header (column_of t) (nullable_of t)"
  have "decode_table_body codec (table_payload t) (column_of t) (nullable_of t) (length ?h) = Inr t"
    using assms int64_schema [of t]
    by (intro decode_body_complete) (simp_all add: table_fits_def table_payload_header)
  moreover have "length (column_of t) \<le> usize_max" "20 + length (column_of t) \<le> usize_max"
    using assms(2) by (simp_all add: length_table_payload)
  ultimately show ?thesis
    using assms(2,3,5)
    by (cases "nullable_of t") (simp_all add: table_decode_def Let_def table_fits_def
        length_table_payload utf8_valid_def checked_add_def table_payload_header [of t] table_header_fields)
qed

lemma table_split_fields:
  assumes "20 + n \<le> length p"
  shows "p = read_array 8 p 0 @ read_array 2 p 8 @ [p ! 10] @ [p ! 11] @ read_array 8 p 12 @
    read_array n p 20 @ drop (20 + n) p"
proof -
  have "[p ! 10] = read_array 1 p 10" "[p ! 11] = read_array 1 p 11"
    using assms by (simp_all add: read_array_def take_Suc_conv_app_nth take_Suc hd_drop_conv_nth)
  then show ?thesis by (simp add: read_array_def flip: append_assoc take_add)
qed

lemma table_decode_sound:
  assumes "table_decode codec p = Inr t" and "length p < usize_max"
  shows "table_fits codec t \<and> table_wf t \<and> utf8_valid (column_of t) \<and> p = table_payload t"
proof -
  let ?len = "from_le (read_array 8 p 12) :: u64"
  let ?n = "unat ?len"
  let ?name = "str_of_bytes (read_array ?n p 20)"
  let ?nullable = "p ! 11 = nullable_tag"
  have len: "20 + ?n \<le> length p" "length p \<le> table_max_payload_len codec" "?n \<le> table_max_name_len codec"
    and magic: "read_array 8 p 0 = table_magic" and version: "from_le (read_array 2 p 8) = table_version"
    and tag: "p ! 10 = int64_type_tag" and null: "p ! 11 = not_null_tag \<or> p ! 11 = nullable_tag"
    and utf8: "from_utf8 0 (read_array ?n p 20) = Inr ()"
    and body: "decode_table_body codec p ?name ?nullable (20 + ?n) = Inr t"
    using assms(1)
    by (auto simp: table_decode_def Let_def result_simps not_less split: if_splits sum.splits prod.splits)
  note t = decode_body_sound [OF body assms(2)]
  have name: "column_of t = ?name" "length ?name = ?n" "bytes_of_str ?name = read_array ?n p 20"
    and nullable: "nullable_of t = ?nullable"
    using t len(1) by (simp_all add: schema_int64_def) (simp add: str_of_bytes_def read_array_def)
  have v: "read_array 2 p 8 = to_le 2 table_version"
    using le_field [of "read_array 2 p 8" 2, where ?'a = 16] version len(1) by (simp add: read_array_def)
  have l: "read_array 8 p 12 = to_le 8 (of_nat (length ?name) :: u64)"
    using le_field [of "read_array 8 p 12" 8, where ?'a = 64] len(1) name(2) by (simp add: read_array_def)
  have n: "[p ! 11] = [if ?nullable then nullable_tag else not_null_tag]" using null by auto
  have "p = read_array 8 p 0 @ read_array 2 p 8 @ [p ! 10] @ [p ! 11] @ read_array 8 p 12 @
      read_array ?n p 20 @ drop (20 + ?n) p"
    by (rule table_split_fields) (rule len(1))
  also have "\<dots> = table_header ?name ?nullable @ drop (20 + ?n) p"
    by (simp only: table_header_def name(3) append_assoc
        magic [symmetric] v [symmetric] tag [symmetric] n [symmetric] l [symmetric])
  also have "drop (20 + ?n) p = to_le 8 (of_nat (table_row_cap t) :: u64) @
      to_le 8 (of_nat (length (table_values t)) :: u64) @ concat (map put_row (table_values t))"
    using t by blast
  also have "table_header ?name ?nullable @ \<dots> = table_payload t"
    by (simp only: table_payload_header name(1) nullable)
  finally have p: "p = table_payload t" .
  have "length (table_payload t) \<le> table_max_payload_len codec" "length (table_payload t) < usize_max"
    using len(2) assms(2) p by metis+
  moreover have "length (column_of t) \<le> table_max_name_len codec"
    unfolding name(1) name(2) by (rule len(3))
  ultimately have "table_fits codec t" using t by (simp add: table_fits_def)
  moreover have "utf8_valid (column_of t)"
    unfolding utf8_valid_def name(1) name(3) by (rule utf8)
  ultimately show ?thesis using t p by blast
qed

text \<open>C27: Decoding gives a table exactly when the table satisfies its invariant, its column name is
  UTF-8 and encoding it gives the payload; so no panic is reached, and every well-formed table that
  fits the codec's bounds survives the trip.\<close>

theorem table_codec_roundtrip:
  assumes "length p < usize_max" and "table_max_rows codec \<le> usize_max"
  shows "(table_decode codec p = Inr t \<longleftrightarrow>
      table_wf t \<and> utf8_valid (column_of t) \<and> table_encode codec t = Inr p) \<and>
    (table_encode codec t = Inr p \<longleftrightarrow> table_fits codec t \<and> p = table_payload t)"
  using table_decode_sound [OF _ assms(1)] table_decode_complete [OF assms(2), of t] assms
  by (auto simp: table_encode_iff)

theorem table_codec_roundtrip_witness:
  "table_decode (table_codec_new 1 2 60)
     (table_payload \<lparr>table_schema = schema_int64 ''v'' True, table_values = [Some 7, None], table_row_cap = 2\<rparr>) =
   Inr \<lparr>table_schema = schema_int64 ''v'' True, table_values = [Some 7, None], table_row_cap = 2\<rparr>"
proof -
  let ?t = "\<lparr>table_schema = schema_int64 ''v'' True, table_values = [Some 7, None], table_row_cap = 2\<rparr>"
  let ?c = "table_codec_new 1 2 60"
  have len: "length (table_payload ?t) < usize_max" and c: "table_max_rows ?c \<le> usize_max"
    by (simp_all add: length_table_payload length_put_row row_len_def schema_int64_def usize_max_def
        table_codec_new_def)
  have "table_fits ?c ?t"
    by (simp add: table_fits_def table_codec_new_def length_table_payload length_put_row row_len_def
        schema_int64_def usize_max_def)
  moreover have "utf8_valid ''v''" by (simp add: utf8_valid_def bytes_of_str_def utf8_char_def)
  ultimately show ?thesis
    using table_codec_roundtrip [OF len c, of ?t] by (simp add: schema_int64_def table_wf_def)
qed

end
