(* ===== verification/Restore.thy ===== *)
theory Restore
  imports File_Replace Rle_Codec Table_Codec
begin

text \<open>
  Saving tables to snapshot files and restoring them (\<^verbatim>\<open>src/snapshot.rs\<close>): the
  bounded read of a regular file, the three restore paths with their typed errors, the restore with a
  backup file, and the three save paths. A file to be read is what the operating system answers about
  it, call by call.
\<close>

section \<open>Reading a bounded file\<close>

record 'io probe =
  path_metadata :: "'io + bool"
  open_result :: "'io + unit"
  open_metadata :: "'io + bool"
  first_metadata :: "'io + bool \<times> u64"
  file_reads :: "(u8, 'io) read_event list"
  second_metadata :: "'io + bool \<times> u64"

datatype 'io snapshot_file_read_error =
  ReadOpen 'io
| ReadNotRegularFile
| ReadRead 'io
| ReadFileTooLarge u64 usize

definition require_regular_snapshot_path :: "'io probe \<Rightarrow> 'io snapshot_file_read_error + unit" where
  "require_regular_snapshot_path file =
     res_bind (map_err ReadOpen (path_metadata file)) (\<lambda>is_file.
     if \<not> is_file then Inl ReadNotRegularFile else Inr ())"

definition open_regular_snapshot_path :: "'io probe \<Rightarrow> 'io snapshot_file_read_error + unit" where
  "open_regular_snapshot_path file =
     res_bind (map_err ReadOpen (open_result file)) (\<lambda>_.
     res_bind (map_err ReadRead (open_metadata file)) (\<lambda>is_file.
     if \<not> is_file then Inl ReadNotRegularFile else Inr ()))"

definition open_regular_snapshot_file :: "'io probe \<Rightarrow> 'io snapshot_file_read_error + unit" where
  "open_regular_snapshot_file file =
     res_bind (require_regular_snapshot_path file) (\<lambda>_. open_regular_snapshot_path file)"

definition bounded_file_len :: "'io + bool \<times> u64 \<Rightarrow> usize \<Rightarrow> 'io snapshot_file_read_error + u64" where
  "bounded_file_len metadata max_file_len =
     res_bind (map_err ReadRead metadata) (\<lambda>(is_file, file_len).
     if \<not> is_file then Inl ReadNotRegularFile
     else if file_len > u64_or_max max_file_len then Inl (ReadFileTooLarge file_len max_file_len)
     else Inr file_len)"

definition read_bounded_snapshot_file :: "'io probe \<Rightarrow> usize \<Rightarrow> 'io snapshot_file_read_error + u8 list" where
  "read_bounded_snapshot_file file max_payload_len =
     res_bind (open_regular_snapshot_file file) (\<lambda>_.
     let max_file_len = saturating_add snapshot_header_len max_payload_len in
     res_bind (bounded_file_len (first_metadata file) max_file_len) (\<lambda>_.
     res_bind (map_err ReadRead (take_read_to_end (unat (u64_or_max max_file_len)) (file_reads file))) (\<lambda>envelope.
     res_bind (bounded_file_len (second_metadata file) max_file_len) (\<lambda>_.
     Inr envelope))))"

section \<open>Restoring\<close>

datatype table_restore_error =
  RestoreEnvelope snapshot_error
| RestorePayload nullable_payload_error
| RestoreTable insert_error

datatype 'io table_file_restore_error =
  RestoreOpen 'io
| RestoreNotRegularFile
| RestoreRead 'io
| RestoreFileTooLarge u64 usize
| RestoreFailed table_restore_error

datatype 'io rle_file_restore_error =
  RleRestoreOpen 'io
| RleRestoreNotRegularFile
| RleRestoreRead 'io
| RleRestoreFileTooLarge u64 usize
| RleRestoreEnvelope snapshot_error
| RleRestorePayload rle_payload_error
| RleRestoreTable insert_error

datatype 'io payload_file_restore_error =
  PayloadRestoreOpen 'io
| PayloadRestoreNotRegularFile
| PayloadRestoreRead 'io
| PayloadRestoreFileTooLarge u64 usize
| PayloadRestoreEnvelope snapshot_error
| PayloadRestorePayload table_payload_error

fun table_read_error :: "'io snapshot_file_read_error \<Rightarrow> 'io table_file_restore_error" where
  "table_read_error (ReadOpen e) = RestoreOpen e"
| "table_read_error ReadNotRegularFile = RestoreNotRegularFile"
| "table_read_error (ReadRead e) = RestoreRead e"
| "table_read_error (ReadFileTooLarge n m) = RestoreFileTooLarge n m"

fun rle_read_error :: "'io snapshot_file_read_error \<Rightarrow> 'io rle_file_restore_error" where
  "rle_read_error (ReadOpen e) = RleRestoreOpen e"
| "rle_read_error ReadNotRegularFile = RleRestoreNotRegularFile"
| "rle_read_error (ReadRead e) = RleRestoreRead e"
| "rle_read_error (ReadFileTooLarge n m) = RleRestoreFileTooLarge n m"

fun payload_read_error :: "'io snapshot_file_read_error \<Rightarrow> 'io payload_file_restore_error" where
  "payload_read_error (ReadOpen e) = PayloadRestoreOpen e"
| "payload_read_error ReadNotRegularFile = PayloadRestoreNotRegularFile"
| "payload_read_error (ReadRead e) = PayloadRestoreRead e"
| "payload_read_error (ReadFileTooLarge n m) = PayloadRestoreFileTooLarge n m"

text \<open>A batch appended to a new local table; on an error the table is dropped.\<close>

definition table_of_rows :: "schema \<Rightarrow> usize \<Rightarrow> nullable_i64 list \<Rightarrow> insert_error + int64_table" where
  "table_of_rows schema row_cap rows =
     (case table_append_batch (table_new schema row_cap) rows of
        (Inl e, _) \<Rightarrow> Inl e
      | (Inr _, t) \<Rightarrow> Inr t)"

definition restore_int64_table ::
  "u8 list \<Rightarrow> schema \<Rightarrow> usize \<Rightarrow> snapshot_codec \<Rightarrow> nullable_codec \<Rightarrow> table_restore_error + int64_table" where
  "restore_int64_table envelope schema row_cap snapshot_codec payload_codec =
     res_bind (map_err RestoreEnvelope (envelope_decode snapshot_codec envelope)) (\<lambda>payload.
     res_bind (map_err RestorePayload (nullable_decode payload_codec payload)) (\<lambda>rows.
     map_err RestoreTable (table_of_rows schema row_cap rows)))"

definition restore_int64_table_from_file ::
  "'io probe \<Rightarrow> schema \<Rightarrow> usize \<Rightarrow> snapshot_codec \<Rightarrow> nullable_codec \<Rightarrow>
     'io table_file_restore_error + int64_table"
where
  "restore_int64_table_from_file file schema row_cap snapshot_codec payload_codec =
     res_bind (map_err table_read_error
       (read_bounded_snapshot_file file (envelope_max_payload_len snapshot_codec))) (\<lambda>envelope.
     map_err RestoreFailed (restore_int64_table envelope schema row_cap snapshot_codec payload_codec))"

definition restore_int64_table_rle_from_file ::
  "(usize \<Rightarrow> bool) \<Rightarrow> 'io probe \<Rightarrow> schema \<Rightarrow> usize \<Rightarrow> snapshot_codec \<Rightarrow> rle_codec \<Rightarrow>
     'io rle_file_restore_error + int64_table"
where
  "restore_int64_table_rle_from_file can_reserve file schema row_cap snapshot_codec payload_codec =
     res_bind (map_err rle_read_error
       (read_bounded_snapshot_file file (envelope_max_payload_len snapshot_codec))) (\<lambda>envelope.
     res_bind (map_err RleRestoreEnvelope (envelope_decode snapshot_codec envelope)) (\<lambda>payload.
     res_bind (map_err RleRestorePayload (rle_decode can_reserve payload_codec payload)) (\<lambda>rows.
     map_err RleRestoreTable (table_of_rows schema row_cap rows))))"

definition restore_int64_table_payload_from_file ::
  "'io probe \<Rightarrow> snapshot_codec \<Rightarrow> table_codec \<Rightarrow> 'io payload_file_restore_error + int64_table" where
  "restore_int64_table_payload_from_file file snapshot_codec payload_codec =
     res_bind (map_err payload_read_error
       (read_bounded_snapshot_file file (envelope_max_payload_len snapshot_codec))) (\<lambda>envelope.
     res_bind (map_err PayloadRestoreEnvelope (envelope_decode snapshot_codec envelope)) (\<lambda>payload.
     map_err PayloadRestorePayload (table_decode payload_codec payload)))"

datatype recovery_source = Primary | Backup

record file_recovery =
  recovered_table :: int64_table
  recovery_source :: recovery_source

datatype 'e file_recovery_error = BothFailed (primary_error: 'e) (backup_error: 'e)

definition restore_int64_table_from_file_with_backup ::
  "'io probe \<Rightarrow> 'io probe \<Rightarrow> schema \<Rightarrow> usize \<Rightarrow> snapshot_codec \<Rightarrow> nullable_codec \<Rightarrow>
     'io table_file_restore_error file_recovery_error + file_recovery"
where
  "restore_int64_table_from_file_with_backup primary_path backup_path schema row_cap snapshot_codec payload_codec =
     (case restore_int64_table_from_file primary_path schema row_cap snapshot_codec payload_codec of
        Inr t \<Rightarrow> Inr \<lparr>recovered_table = t, recovery_source = Primary\<rparr>
      | Inl primary \<Rightarrow>
          (case restore_int64_table_from_file backup_path schema row_cap snapshot_codec payload_codec of
             Inr t \<Rightarrow> Inr \<lparr>recovered_table = t, recovery_source = Backup\<rparr>
           | Inl backup \<Rightarrow> Inl (BothFailed primary backup)))"

definition restore_int64_table_payload_from_file_with_backup ::
  "'io probe \<Rightarrow> 'io probe \<Rightarrow> snapshot_codec \<Rightarrow> table_codec \<Rightarrow>
     'io payload_file_restore_error file_recovery_error + file_recovery"
where
  "restore_int64_table_payload_from_file_with_backup primary_path backup_path snapshot_codec payload_codec =
     (case restore_int64_table_payload_from_file primary_path snapshot_codec payload_codec of
        Inr t \<Rightarrow> Inr \<lparr>recovered_table = t, recovery_source = Primary\<rparr>
      | Inl primary \<Rightarrow>
          (case restore_int64_table_payload_from_file backup_path snapshot_codec payload_codec of
             Inr t \<Rightarrow> Inr \<lparr>recovered_table = t, recovery_source = Backup\<rparr>
           | Inl backup \<Rightarrow> Inl (BothFailed primary backup)))"

section \<open>Saving\<close>

datatype 'io payload_file_save_error =
  PayloadSavePayload table_payload_error
| PayloadSaveReplace "'io replace_error"

datatype 'io table_file_save_error =
  TableSavePayload nullable_payload_error
| TableSaveReplace "'io replace_error"

datatype 'io rle_file_save_error =
  RleSavePayload rle_payload_error
| RleSaveReplace "'io replace_error"

definition payload_save_replaced :: "'io payload_file_save_error \<Rightarrow> bool" where
  "payload_save_replaced e =
     (case e of PayloadSavePayload _ \<Rightarrow> False | PayloadSaveReplace r \<Rightarrow> destination_was_replaced r)"

definition table_save_replaced :: "'io table_file_save_error \<Rightarrow> bool" where
  "table_save_replaced e =
     (case e of TableSavePayload _ \<Rightarrow> False | TableSaveReplace r \<Rightarrow> destination_was_replaced r)"

definition rle_save_replaced :: "'io rle_file_save_error \<Rightarrow> bool" where
  "rle_save_replaced e =
     (case e of RleSavePayload _ \<Rightarrow> False | RleSaveReplace r \<Rightarrow> destination_was_replaced r)"

definition save_int64_table_payload_to_file ::
  "'io environment \<Rightarrow> nat \<Rightarrow> string \<Rightarrow> int64_table \<Rightarrow> snapshot_codec \<Rightarrow> table_codec \<Rightarrow>
     'io io_error + unit \<Rightarrow> u32 \<Rightarrow> directory \<Rightarrow> ('io payload_file_save_error + unit) \<times> u32 \<times> directory"
where
  "save_int64_table_payload_to_file env pid path t snapshot_codec payload_codec opens counter d =
     (case table_encode payload_codec t of
        Inl e \<Rightarrow> (Inl (PayloadSavePayload e), counter, d)
      | Inr payload \<Rightarrow>
          apfst (map_err PayloadSaveReplace)
            (replace_file env pid snapshot_codec path payload opens counter d))"

definition save_int64_table_to_file ::
  "'io environment \<Rightarrow> nat \<Rightarrow> string \<Rightarrow> int64_table \<Rightarrow> snapshot_codec \<Rightarrow> nullable_codec \<Rightarrow>
     'io io_error + unit \<Rightarrow> u32 \<Rightarrow> directory \<Rightarrow> ('io table_file_save_error + unit) \<times> u32 \<times> directory"
where
  "save_int64_table_to_file env pid path t snapshot_codec payload_codec opens counter d =
     (case nullable_encode payload_codec (table_values t) of
        Inl e \<Rightarrow> (Inl (TableSavePayload e), counter, d)
      | Inr payload \<Rightarrow>
          apfst (map_err TableSaveReplace)
            (replace_file env pid snapshot_codec path payload opens counter d))"

definition save_int64_table_rle_to_file ::
  "'io environment \<Rightarrow> nat \<Rightarrow> string \<Rightarrow> int64_table \<Rightarrow> snapshot_codec \<Rightarrow> rle_codec \<Rightarrow>
     'io io_error + unit \<Rightarrow> u32 \<Rightarrow> directory \<Rightarrow> ('io rle_file_save_error + unit) \<times> u32 \<times> directory"
where
  "save_int64_table_rle_to_file env pid path t snapshot_codec payload_codec opens counter d =
     (case rle_encode payload_codec (table_values t) of
        Inl e \<Rightarrow> (Inl (RleSavePayload e), counter, d)
      | Inr payload \<Rightarrow>
          apfst (map_err RleSaveReplace)
            (replace_file env pid snapshot_codec path payload opens counter d))"

section \<open>What a restored table is\<close>

lemma table_of_rows_Inr:
  "table_of_rows schema row_cap rows = Inr t \<longleftrightarrow>
     table_wf t \<and> table_schema t = schema \<and> table_row_cap t = row_cap \<and> table_values t = rows"
proof -
  let ?new = "table_new schema row_cap"
  let ?t = "?new\<lparr>table_values := rows\<rparr>"
  have t: "table_schema t = schema \<and> table_row_cap t = row_cap \<and> table_values t = rows \<longleftrightarrow> t = ?t"
    by (cases t) (auto simp: table_new_def)
  have wf: "table_wf ?t \<longleftrightarrow> table_admits ?new rows"
    by (auto simp: table_wf_def table_admits_def table_new_def)
  have start: "table_values ?new = []" by (simp add: table_new_def)
  show ?thesis
  proof (cases "table_admits ?new rows")
    case True
    with append_batch_admitted [OF table_new_wf True] start t wf show ?thesis
      by (auto simp: table_of_rows_def)
  next
    case False
    obtain e where "table_append_batch ?new rows = (Inl e, ?new)"
      using append_batch_rejected [OF table_new_wf False] .
    with False t wf show ?thesis by (auto simp: table_of_rows_def)
  qed
qed

lemma restore_from_file_wf:
  assumes "restore_int64_table_from_file file schema row_cap snapshot_codec payload_codec = Inr t"
  shows "table_wf t \<and> table_schema t = schema \<and> table_row_cap t = row_cap"
  using assms
  by (auto simp: restore_int64_table_from_file_def restore_int64_table_def result_simps table_of_rows_Inr)

section \<open>Saved tables can be restored\<close>

text \<open>A regular file that holds some bytes and does not change while it is read, however the reads
  are cut.\<close>

definition holds_file :: "'io probe \<Rightarrow> u8 list \<Rightarrow> bool" where
  "holds_file file bs \<longleftrightarrow>
     path_metadata file = Inr True \<and> open_result file = Inr () \<and> open_metadata file = Inr True \<and>
     first_metadata file = Inr (True, of_nat (length bs)) \<and>
     second_metadata file = Inr (True, of_nat (length bs)) \<and> reader_bytes (file_reads file) = Some bs"

lemma read_holds_file:
  assumes "holds_file file (envelope_of p)" and "envelope_fits codec p"
  shows "read_bounded_snapshot_file file (envelope_max_payload_len codec) = Inr (envelope_of p)"
proof -
  let ?max = "saturating_add snapshot_header_len (envelope_max_payload_len codec)"
  have bound: "22 + length p \<le> ?max" "22 + length p \<le> usize_max" "?max \<le> usize_max"
    using assms(2) by (auto simp: envelope_fits_def saturating_add_def)
  then have "(of_nat (22 + length p) :: u64) \<le> u64_or_max ?max"
    by (simp add: u64_or_max_fits word_le_nat_alt del: of_nat_add)
  moreover have "take_read_to_end (unat (u64_or_max ?max)) (file_reads file) = Inr (envelope_of p)"
    using assms(1) bound take_read_to_end_bytes [of "file_reads file" "envelope_of p"]
    by (simp add: holds_file_def u64_or_max_fits)
  ultimately show ?thesis
    using assms(1)
    by (simp add: read_bounded_snapshot_file_def open_regular_snapshot_file_def bounded_file_len_def
        require_regular_snapshot_path_def open_regular_snapshot_path_def holds_file_def Let_def not_less
        del: of_nat_add envelope_layout)
qed

text \<open>After a successful replacement the destination holds the payload's envelope.\<close>

lemma replaced_file:
  fixes env :: "'io environment"
  assumes "replace_file env pid codec path payload opens counter d = (Inr u, c, d')"
    and "snapshot_destination_name path = (Inr name :: 'io replace_error + name)"
    and "holds_file file (contents d' (the (entries d' (resolve env name))))"
  shows "read_bounded_snapshot_file file (envelope_max_payload_len codec) = Inr (envelope_of payload) \<and>
    envelope_fits codec payload"
proof -
  from replace_file_success [OF assms(1)] assms(2) obtain e
    where e: "envelope_encode codec payload = Inr e" and "replaced env d name e d'" by auto
  then have "contents d' (the (entries d' (resolve env name))) = e" by (auto simp: replaced_def)
  with e assms(3) read_holds_file show ?thesis by (auto simp: envelope_encode_iff)
qed

text \<open>A file nobody touches while it is read.\<close>

definition steady_file :: "u8 list \<Rightarrow> unit probe" where
  "steady_file bs = \<lparr>path_metadata = Inr True, open_result = Inr (), open_metadata = Inr True,
     first_metadata = Inr (True, of_nat (length bs)), file_reads = [ReadChunk bs],
     second_metadata = Inr (True, of_nat (length bs))\<rparr>"

lemma holds_steady_file [simp]: "holds_file (steady_file bs) bs"
  by (simp add: holds_file_def steady_file_def)

text \<open>C21: A table that was saved in the self-describing format is restored whole from the file the
  replacement left at the destination.\<close>

theorem save_payload_restores:
  fixes env :: "'io environment"
  assumes "save_int64_table_payload_to_file env pid path t codec payload_codec opens counter d = (Inr (), c, d')"
    and "snapshot_destination_name path = (Inr name :: 'io replace_error + name)"
    and "holds_file file (contents d' (the (entries d' (resolve env name))))"
    and "table_wf t" and "utf8_valid (column_of t)" and "table_max_rows payload_codec \<le> usize_max"
  shows "restore_int64_table_payload_from_file file codec payload_codec = Inr t"
proof -
  obtain payload where enc: "table_encode payload_codec t = Inr payload"
    and "replace_file env pid codec path payload opens counter d = (Inr (), c, d')"
    using assms(1)
    by (auto simp: save_int64_table_payload_to_file_def result_simps apfst_def map_prod_def
        split: sum.splits prod.splits)
  from replaced_file [OF this(2) assms(2,3)]
  have read: "read_bounded_snapshot_file file (envelope_max_payload_len codec) = Inr (envelope_of payload)"
    and fits: "envelope_fits codec payload" by simp_all
  have "payload = table_payload t" "table_fits payload_codec t"
    using enc assms(6) by (simp_all add: table_encode_iff)
  moreover have "length payload < usize_max" using fits by (simp add: envelope_fits_def)
  ultimately have "table_decode payload_codec payload = Inr t"
    using table_decode_complete [OF assms(6), of t] assms(4,5) by simp
  with read fits show ?thesis
    by (simp add: restore_int64_table_payload_from_file_def envelope_decode_of)
qed

theorem save_payload_restores_witness:
  "\<exists>c d'. save_int64_table_payload_to_file faultless 7 ''a/s''
      \<lparr>table_schema = schema_int64 ''v'' True, table_values = [Some 7, None], table_row_cap = 2\<rparr>
      (snapshot_codec_new 60) (table_codec_new 1 2 60) (Inr ()) 0 one_file = (Inr (), c, d') \<and>
    restore_int64_table_payload_from_file (steady_file (contents d' 1)) (snapshot_codec_new 60) (table_codec_new 1 2 60) =
      Inr \<lparr>table_schema = schema_int64 ''v'' True, table_values = [Some 7, None], table_row_cap = 2\<rparr>"
proof -
  let ?t = "\<lparr>table_schema = schema_int64 ''v'' True, table_values = [Some 7, None], table_row_cap = 2\<rparr>"
  let ?c = "table_codec_new 1 2 60"
  have cap: "table_max_rows ?c \<le> usize_max" by (simp add: table_codec_new_def usize_max_def)
  have wf: "table_wf ?t" by (simp add: table_wf_def schema_int64_def)
  have utf8: "utf8_valid (column_of ?t)"
    by (simp add: utf8_valid_def bytes_of_str_def utf8_char_def schema_int64_def)
  have "table_fits ?c ?t"
    by (simp add: table_fits_def table_codec_new_def length_table_payload length_put_row row_len_def
        schema_int64_def usize_max_def)
  then have enc: "table_encode ?c ?t = Inr (table_payload ?t)" using cap by (simp add: table_encode_iff)
  have "envelope_fits (snapshot_codec_new 60) (table_payload ?t)"
    by (simp add: envelope_fits_def snapshot_codec_new_def usize_max_def length_table_payload
        length_put_row row_len_def schema_int64_def)
  then have "envelope_encode (snapshot_codec_new 60) (table_payload ?t) = Inr (envelope_of (table_payload ?t))"
    by (simp add: envelope_encode_eq)
  from faultless_replace [OF this] obtain c d' where
    run: "replace_file faultless 7 (snapshot_codec_new 60) ''a/s'' (table_payload ?t) (Inr ()) 0 one_file = (Inr (), c, d')"
    and i: "entries d' ''s'' = Some 1" by blast
  have save: "save_int64_table_payload_to_file faultless 7 ''a/s'' ?t (snapshot_codec_new 60) ?c (Inr ()) 0 one_file =
      (Inr (), c, d')"
    by (simp add: save_int64_table_payload_to_file_def enc run del: One_nat_def)
  from save_payload_restores [OF save faultless_name _ wf utf8 cap, of "steady_file (contents d' 1)"] i
  have "restore_int64_table_payload_from_file (steady_file (contents d' 1)) (snapshot_codec_new 60) ?c = Inr ?t"
    by (simp add: faultless_def)
  with save show ?thesis by blast
qed

text \<open>A table saved in a row format is restored, given its schema and row cap, from the file
  the replacement left: plain rows always, run-length rows when the allocator grants the rows.\<close>

theorem save_rows_restores:
  fixes env :: "'io environment"
  assumes "snapshot_destination_name path = (Inr name :: 'io replace_error + name)"
    and "holds_file file (contents d' (the (entries d' (resolve env name))))"
    and "table_wf t" and "can_reserve (length (table_values t))"
  shows "(save_int64_table_to_file env pid path t codec rows_codec opens counter d = (Inr (), c, d') \<longrightarrow>
      restore_int64_table_from_file file (table_schema t) (table_row_cap t) codec rows_codec = Inr t) \<and>
    (save_int64_table_rle_to_file env pid path t codec runs_codec opens counter d = (Inr (), c, d') \<longrightarrow>
      restore_int64_table_rle_from_file can_reserve file (table_schema t) (table_row_cap t) codec runs_codec = Inr t)"
proof (intro conjI impI)
  assume "save_int64_table_to_file env pid path t codec rows_codec opens counter d = (Inr (), c, d')"
  then obtain payload where enc: "nullable_encode rows_codec (table_values t) = Inr payload"
    and "replace_file env pid codec path payload opens counter d = (Inr (), c, d')"
    by (auto simp: save_int64_table_to_file_def result_simps apfst_def map_prod_def
        split: sum.splits prod.splits)
  from replaced_file [OF this(2) assms(1,2)]
  have read: "read_bounded_snapshot_file file (envelope_max_payload_len codec) = Inr (envelope_of payload)"
    and fits: "envelope_fits codec payload" by simp_all
  then have "length payload < usize_max" by (simp add: envelope_fits_def)
  with enc have "nullable_decode rows_codec payload = Inr (table_values t)"
    by (auto simp: nullable_encode_iff nullable_decode_payload)
  with read fits show "restore_int64_table_from_file file (table_schema t) (table_row_cap t) codec rows_codec = Inr t"
    using assms(3)
    by (simp add: restore_int64_table_from_file_def restore_int64_table_def envelope_decode_of
        result_simps table_of_rows_Inr)
next
  assume "save_int64_table_rle_to_file env pid path t codec runs_codec opens counter d = (Inr (), c, d')"
  then obtain payload where enc: "rle_encode runs_codec (table_values t) = Inr payload"
    and "replace_file env pid codec path payload opens counter d = (Inr (), c, d')"
    by (auto simp: save_int64_table_rle_to_file_def result_simps apfst_def map_prod_def
        split: sum.splits prod.splits)
  from replaced_file [OF this(2) assms(1,2)]
  have read: "read_bounded_snapshot_file file (envelope_max_payload_len codec) = Inr (envelope_of payload)"
    and fits: "envelope_fits codec payload" by simp_all
  then have len: "length payload < usize_max" by (simp add: envelope_fits_def)
  from enc have rows: "length (table_values t) \<le> usize_max" "runs_fit runs_codec (runs_of (table_values t))"
    "payload = rle_payload (runs_of (table_values t))" by (simp_all add: rle_encode_iff)
  have "rle_decode can_reserve runs_codec payload = Inr (table_values t)"
    using rle_decode_payload [OF rows(2) nonzero_runs_of [OF rows(1)], of can_reserve] len assms(4)
    by (simp add: rows(3) expand_runs_of [OF rows(1)])
  with read fits show "restore_int64_table_rle_from_file can_reserve file (table_schema t) (table_row_cap t) codec runs_codec = Inr t"
    using assms(3)
    by (simp add: restore_int64_table_rle_from_file_def envelope_decode_of result_simps table_of_rows_Inr)
qed

theorem save_rows_restores_witness:
  "\<exists>c d'. save_int64_table_to_file faultless 7 ''a/s''
      \<lparr>table_schema = schema_int64 ''v'' True, table_values = [Some 7, None], table_row_cap = 2\<rparr>
      (snapshot_codec_new 60) (nullable_codec_new 2 18) (Inr ()) 0 one_file = (Inr (), c, d') \<and>
    restore_int64_table_from_file (steady_file (contents d' 1)) (schema_int64 ''v'' True) 2
      (snapshot_codec_new 60) (nullable_codec_new 2 18) =
      Inr \<lparr>table_schema = schema_int64 ''v'' True, table_values = [Some 7, None], table_row_cap = 2\<rparr>"
proof -
  let ?t = "\<lparr>table_schema = schema_int64 ''v'' True, table_values = [Some 7, None], table_row_cap = 2\<rparr>"
  let ?c = "nullable_codec_new 2 18" and ?p = "rows_payload [Some 7, None]"
  have wf: "table_wf ?t" by (simp add: table_wf_def schema_int64_def)
  have "rows_fit ?c [Some 7, None]"
    by (simp add: rows_fit_def nullable_codec_new_def length_rows_payload length_put_row row_len_def usize_max_def)
  then have enc: "nullable_encode ?c [Some 7, None] = Inr ?p" by (simp add: nullable_encode_iff)
  have "envelope_fits (snapshot_codec_new 60) ?p"
    by (simp add: envelope_fits_def snapshot_codec_new_def usize_max_def length_rows_payload
        length_put_row row_len_def)
  then have "envelope_encode (snapshot_codec_new 60) ?p = Inr (envelope_of ?p)"
    by (simp add: envelope_encode_eq)
  from faultless_replace [OF this] obtain c d' where
    run: "replace_file faultless 7 (snapshot_codec_new 60) ''a/s'' ?p (Inr ()) 0 one_file = (Inr (), c, d')"
    and i: "entries d' ''s'' = Some 1" by blast
  have save: "save_int64_table_to_file faultless 7 ''a/s'' ?t (snapshot_codec_new 60) ?c (Inr ()) 0 one_file =
      (Inr (), c, d')"
    by (simp add: save_int64_table_to_file_def enc run)
  have "holds_file (steady_file (contents d' 1)) (contents d' (the (entries d' (resolve faultless ''s''))))"
    using i by (simp add: faultless_def)
  from save_rows_restores [OF faultless_name this wf, of "\<lambda>_. True"] save
  have "restore_int64_table_from_file (steady_file (contents d' 1)) (schema_int64 ''v'' True) 2
      (snapshot_codec_new 60) ?c = Inr ?t" by simp
  with save show ?thesis by blast
qed

end
