(* ===== verification/Catalog.thy ===== *)
theory Catalog
  imports Execution Csv Restore "HOL-Library.AList"
begin

text \<open>
  The catalog of named tables (\<^verbatim>\<open>src/catalog.rs\<close>): creation, insertion, CSV
  ingestion and snapshot restoration under its resource bounds, and the queries. The hash map of
  tables is an association list without duplicate names; every operation is modelled with its error
  and the catalog it leaves. The mutating operations are steps of a transition system; its reachable
  catalogs are well-formed, and no step ever loses a table or a row.
\<close>

section \<open>Limits, errors and state\<close>

record catalog_limits =
  max_tables :: usize
  max_rows_per_table :: usize

definition catalog_limits_new :: "usize \<Rightarrow> usize \<Rightarrow> catalog_limits" where
  "catalog_limits_new tables rows = \<lparr>max_tables = tables, max_rows_per_table = rows\<rparr>"

datatype catalog_error =
  CatalogParse parse_error
| CatalogTableAlreadyExists string
| CatalogTableLimitExceeded usize usize
| CatalogInsert insert_execution_error
| CatalogSelect select_execution_error
| CatalogSelectDistinct select_distinct_execution_error
| CatalogInnerJoin inner_join_execution_error
| CatalogLeftJoin left_join_execution_error

datatype catalog_csv_ingest_error =
  CsvUnknownTable string
| CsvFailed csv_ingest_error

datatype 'io catalog_csv_reader_ingest_error =
  ReaderUnknownTable string
| ReaderFailed "'io csv_reader_ingest_error"

datatype 'io catalog_snapshot_restore_error =
  RestoreTableAlreadyExists string
| RestoreTableLimitExceeded usize usize
| RestoreSnapshot "'io table_file_restore_error"

record catalog =
  catalog_tables :: "(string \<times> int64_table) list"
  catalog_bounds :: catalog_limits

definition catalog_new :: "catalog_limits \<Rightarrow> catalog" where
  "catalog_new limits = \<lparr>catalog_tables = [], catalog_bounds = limits\<rparr>"

definition catalog_len :: "catalog \<Rightarrow> usize" where
  "catalog_len c = length (catalog_tables c)"

definition catalog_is_empty :: "catalog \<Rightarrow> bool" where
  "catalog_is_empty c \<longleftrightarrow> catalog_tables c = []"

definition catalog_table :: "string \<Rightarrow> catalog \<Rightarrow> int64_table option" where
  "catalog_table n c = map_of (catalog_tables c) n"

text \<open>\<open>HashMap::insert\<close>, and the write through the reference of \<open>get_mut\<close>.\<close>

definition catalog_put :: "string \<Rightarrow> int64_table \<Rightarrow> catalog \<Rightarrow> catalog" where
  "catalog_put n t c = c\<lparr>catalog_tables := AList.update n t (catalog_tables c)\<rparr>"

text \<open>An operation on the table that \<open>table_mut\<close> finds: an unknown name is the given error,
  the operation's own error is wrapped.\<close>

definition catalog_table_mut ::
  "'f \<Rightarrow> ('e \<Rightarrow> 'f) \<Rightarrow> (int64_table \<Rightarrow> ('e + 'r) \<times> int64_table) \<Rightarrow> string \<Rightarrow> catalog \<Rightarrow>
     ('f + 'r) \<times> catalog"
where
  "catalog_table_mut missing wrap act n c =
     (case catalog_table n c of
        None \<Rightarrow> (Inl missing, c)
      | Some t \<Rightarrow> (case act t of (r, t') \<Rightarrow> (map_err wrap r, catalog_put n t' c)))"

text \<open>A query on the table that \<open>get\<close> finds.\<close>

definition catalog_query ::
  "'f \<Rightarrow> ('e \<Rightarrow> 'f) \<Rightarrow> (int64_table \<Rightarrow> 'e + 'r) \<Rightarrow> string \<Rightarrow> catalog \<Rightarrow> 'f + 'r"
where
  "catalog_query missing wrap act n c =
     (case catalog_table n c of
        None \<Rightarrow> Inl missing
      | Some t \<Rightarrow> map_err wrap (act t))"

section \<open>Creating and restoring tables\<close>

definition catalog_create :: "create_table_statement \<Rightarrow> catalog \<Rightarrow> (catalog_error + unit) \<times> catalog" where
  "catalog_create st c =
     (let n = create_table_name st in
      if if_not_exists st \<and>
         list_ex (\<lambda>existing. eq_ignore_ascii_case existing n) (map fst (catalog_tables c))
      then (Inr (), c)
      else if catalog_table n c \<noteq> None then (Inl (CatalogTableAlreadyExists n), c)
      else if catalog_len c \<ge> max_tables (catalog_bounds c)
      then (Inl (CatalogTableLimitExceeded (saturating_add (catalog_len c) 1)
              (max_tables (catalog_bounds c))), c)
      else let column = create_column st;
               schema = schema_int64 (cd_name column) (cd_nullable column);
               table = table_new schema (max_rows_per_table (catalog_bounds c))
           in (Inr (), catalog_put n table c))"

text \<open>The parse of a statement in front of its execution, for operations that write and that read.\<close>

definition parsed_mut ::
  "parse_error + 's \<Rightarrow> ('s \<Rightarrow> catalog \<Rightarrow> (catalog_error + 'r) \<times> catalog) \<Rightarrow> catalog \<Rightarrow>
     (catalog_error + 'r) \<times> catalog"
where
  "parsed_mut p run c = (case p of Inl e \<Rightarrow> (Inl (CatalogParse e), c) | Inr st \<Rightarrow> run st c)"

definition parsed :: "parse_error + 's \<Rightarrow> ('s \<Rightarrow> catalog_error + 'r) \<Rightarrow> catalog_error + 'r" where
  "parsed p run = res_bind (map_err CatalogParse p) run"

definition catalog_execute_create :: "string \<Rightarrow> parse_limits \<Rightarrow> catalog \<Rightarrow> (catalog_error + unit) \<times> catalog" where
  "catalog_execute_create source limits = parsed_mut (parse_create_table source limits) catalog_create"

definition catalog_restore_int64_table_from_file ::
  "string \<Rightarrow> 'io probe \<Rightarrow> schema \<Rightarrow> snapshot_codec \<Rightarrow> nullable_codec \<Rightarrow> catalog \<Rightarrow>
     ('io catalog_snapshot_restore_error + unit) \<times> catalog"
where
  "catalog_restore_int64_table_from_file n file schema snapshot_codec payload_codec c =
     (if catalog_table n c \<noteq> None then (Inl (RestoreTableAlreadyExists n), c)
      else if catalog_len c \<ge> max_tables (catalog_bounds c)
      then (Inl (RestoreTableLimitExceeded (saturating_add (catalog_len c) 1)
              (max_tables (catalog_bounds c))), c)
      else case restore_int64_table_from_file file schema (max_rows_per_table (catalog_bounds c))
                  snapshot_codec payload_codec of
             Inl e \<Rightarrow> (Inl (RestoreSnapshot e), c)
           | Inr table \<Rightarrow> (Inr (), catalog_put n table c))"

section \<open>Adding rows\<close>

definition catalog_insert :: "insert_statement \<Rightarrow> catalog \<Rightarrow> (catalog_error + unit) \<times> catalog" where
  "catalog_insert st =
     (let n = insert_table_name st in
      catalog_table_mut (CatalogInsert (InsertUnknownTable n)) CatalogInsert
        (\<lambda>t. execute_insert n t st) n)"

definition catalog_execute_insert :: "string \<Rightarrow> parse_limits \<Rightarrow> catalog \<Rightarrow> (catalog_error + unit) \<times> catalog" where
  "catalog_execute_insert source limits = parsed_mut (parse_insert source limits) catalog_insert"

definition catalog_ingest_csv_with_names ::
  "string \<Rightarrow> string \<Rightarrow> csv_ingest_limits \<Rightarrow> catalog \<Rightarrow> (catalog_csv_ingest_error + usize) \<times> catalog"
where
  "catalog_ingest_csv_with_names n source limits =
     catalog_table_mut (CsvUnknownTable n) CsvFailed (\<lambda>t. ingest_csv_with_names t source limits) n"

definition catalog_ingest_csv_with_names_from_reader ::
  "string \<Rightarrow> (char, 'io) read_event list \<Rightarrow> csv_ingest_limits \<Rightarrow> catalog \<Rightarrow>
     ('io catalog_csv_reader_ingest_error + usize) \<times> catalog"
where
  "catalog_ingest_csv_with_names_from_reader n reader limits =
     catalog_table_mut (ReaderUnknownTable n) ReaderFailed
       (\<lambda>t. ingest_csv_with_names_from_reader t reader limits) n"

section \<open>Queries\<close>

definition catalog_scan_limits :: "catalog \<Rightarrow> scan_limits" where
  "catalog_scan_limits c =
     scan_limits_new (max_rows_per_table (catalog_bounds c)) (max_rows_per_table (catalog_bounds c))"

definition catalog_scalar_count ::
  "scalar_count_statement \<Rightarrow> aggregate_limits \<Rightarrow> catalog \<Rightarrow> catalog_error + u64" where
  "catalog_scalar_count st limits =
     (let n = count_table_name st in
      catalog_query (CatalogSelect (SelectUnknownTable n)) CatalogSelect
        (\<lambda>t. execute_scalar_count n t st limits) n)"

definition catalog_scalar_count_with_limits ::
  "scalar_count_statement \<Rightarrow> scan_limits \<Rightarrow> aggregate_limits \<Rightarrow> catalog \<Rightarrow> catalog_error + u64" where
  "catalog_scalar_count_with_limits st scan_limits aggregate_limits =
     (let n = count_table_name st in
      catalog_query (CatalogSelect (SelectUnknownTable n)) CatalogSelect
        (\<lambda>t. execute_scalar_count_with_limits n t st scan_limits aggregate_limits) n)"

definition catalog_execute_scalar_count ::
  "string \<Rightarrow> parse_limits \<Rightarrow> aggregate_limits \<Rightarrow> catalog \<Rightarrow> catalog_error + u64" where
  "catalog_execute_scalar_count source parse_limits limits c =
     parsed (parse_scalar_count source parse_limits) (\<lambda>st. catalog_scalar_count st limits c)"

definition catalog_execute_scalar_count_with_limits ::
  "string \<Rightarrow> parse_limits \<Rightarrow> scan_limits \<Rightarrow> aggregate_limits \<Rightarrow> catalog \<Rightarrow> catalog_error + u64" where
  "catalog_execute_scalar_count_with_limits source parse_limits scan_limits aggregate_limits c =
     parsed (parse_scalar_count source parse_limits)
       (\<lambda>st. catalog_scalar_count_with_limits st scan_limits aggregate_limits c)"

definition catalog_scalar_sum_with_limits ::
  "scalar_sum_statement \<Rightarrow> scan_limits \<Rightarrow> aggregate_limits \<Rightarrow> catalog \<Rightarrow> catalog_error + nullable_i64" where
  "catalog_scalar_sum_with_limits st scan_limits aggregate_limits =
     (let n = sum_table_name st in
      catalog_query (CatalogSelect (SelectUnknownTable n)) CatalogSelect
        (\<lambda>t. execute_scalar_sum_with_limits n t st scan_limits aggregate_limits) n)"

definition catalog_scalar_sum ::
  "scalar_sum_statement \<Rightarrow> aggregate_limits \<Rightarrow> catalog \<Rightarrow> catalog_error + nullable_i64" where
  "catalog_scalar_sum st limits c = catalog_scalar_sum_with_limits st (catalog_scan_limits c) limits c"

definition catalog_execute_scalar_sum_with_limits ::
  "string \<Rightarrow> parse_limits \<Rightarrow> scan_limits \<Rightarrow> aggregate_limits \<Rightarrow> catalog \<Rightarrow> catalog_error + nullable_i64"
where
  "catalog_execute_scalar_sum_with_limits source parse_limits scan_limits aggregate_limits c =
     parsed (parse_scalar_sum source parse_limits)
       (\<lambda>st. catalog_scalar_sum_with_limits st scan_limits aggregate_limits c)"

definition catalog_execute_scalar_sum ::
  "string \<Rightarrow> parse_limits \<Rightarrow> aggregate_limits \<Rightarrow> catalog \<Rightarrow> catalog_error + nullable_i64" where
  "catalog_execute_scalar_sum source parse_limits limits c =
     catalog_execute_scalar_sum_with_limits source parse_limits (catalog_scan_limits c) limits c"

definition catalog_scalar_min ::
  "scalar_min_statement \<Rightarrow> aggregate_limits \<Rightarrow> catalog \<Rightarrow> catalog_error + nullable_i64" where
  "catalog_scalar_min st limits =
     (let n = min_table_name st in
      catalog_query (CatalogSelect (SelectUnknownTable n)) CatalogSelect
        (\<lambda>t. execute_scalar_min n t st limits) n)"

definition catalog_execute_scalar_min ::
  "string \<Rightarrow> parse_limits \<Rightarrow> aggregate_limits \<Rightarrow> catalog \<Rightarrow> catalog_error + nullable_i64" where
  "catalog_execute_scalar_min source parse_limits limits c =
     parsed (parse_scalar_min source parse_limits) (\<lambda>st. catalog_scalar_min st limits c)"

definition catalog_select_with_limits ::
  "select_statement \<Rightarrow> scan_limits \<Rightarrow> catalog \<Rightarrow> catalog_error + nullable_i64 list" where
  "catalog_select_with_limits st scan_limits c =
     (let n = select_table_name st;
          rows = max_rows_per_table (catalog_bounds c)
      in catalog_query (CatalogSelect (SelectUnknownTable n)) CatalogSelect
           (\<lambda>t. execute_select_with_order_limits n t st scan_limits (order_limits_new rows rows)) n c)"

definition catalog_select :: "select_statement \<Rightarrow> catalog \<Rightarrow> catalog_error + nullable_i64 list" where
  "catalog_select st c = catalog_select_with_limits st (catalog_scan_limits c) c"

definition catalog_execute_select_with_limits ::
  "string \<Rightarrow> parse_limits \<Rightarrow> scan_limits \<Rightarrow> catalog \<Rightarrow> catalog_error + nullable_i64 list" where
  "catalog_execute_select_with_limits source parse_limits scan_limits c =
     parsed (parse_select source parse_limits) (\<lambda>st. catalog_select_with_limits st scan_limits c)"

definition catalog_execute_select ::
  "string \<Rightarrow> parse_limits \<Rightarrow> catalog \<Rightarrow> catalog_error + nullable_i64 list" where
  "catalog_execute_select source parse_limits c =
     catalog_execute_select_with_limits source parse_limits (catalog_scan_limits c) c"

definition catalog_inner_join ::
  "inner_join_statement \<Rightarrow> join_limits \<Rightarrow> catalog \<Rightarrow> catalog_error + nullable_i64 list" where
  "catalog_inner_join st limits c =
     (let l = ij_left_table_name st; r = ij_right_table_name st in
      res_bind (ok_or (catalog_table l c) (CatalogInnerJoin (InnerJoinUnknownTable l))) (\<lambda>left.
      res_bind (ok_or (catalog_table r c) (CatalogInnerJoin (InnerJoinUnknownTable r))) (\<lambda>right.
      map_err CatalogInnerJoin (execute_inner_join l left r right st limits))))"

definition catalog_execute_inner_join ::
  "string \<Rightarrow> parse_limits \<Rightarrow> join_limits \<Rightarrow> catalog \<Rightarrow> catalog_error + nullable_i64 list" where
  "catalog_execute_inner_join source parse_limits limits c =
     parsed (parse_inner_join source parse_limits) (\<lambda>st. catalog_inner_join st limits c)"

definition catalog_left_join ::
  "left_join_statement \<Rightarrow> join_limits \<Rightarrow> catalog \<Rightarrow> catalog_error + nullable_i64 list" where
  "catalog_left_join st limits c =
     (let l = lj_left_table_name st; r = lj_right_table_name st in
      res_bind (ok_or (catalog_table l c) (CatalogLeftJoin (LeftJoinUnknownTable l))) (\<lambda>left.
      res_bind (ok_or (catalog_table r c) (CatalogLeftJoin (LeftJoinUnknownTable r))) (\<lambda>right.
      map_err CatalogLeftJoin (execute_left_join l left r right st limits))))"

definition catalog_execute_left_join ::
  "string \<Rightarrow> parse_limits \<Rightarrow> join_limits \<Rightarrow> catalog \<Rightarrow> catalog_error + nullable_i64 list" where
  "catalog_execute_left_join source parse_limits limits c =
     parsed (parse_left_join source parse_limits) (\<lambda>st. catalog_left_join st limits c)"

definition catalog_select_distinct ::
  "select_distinct_statement \<Rightarrow> distinct_limits \<Rightarrow> catalog \<Rightarrow> catalog_error + nullable_i64 list" where
  "catalog_select_distinct st limits =
     (let n = distinct_table_name st in
      catalog_query (CatalogSelectDistinct (DistinctUnknownTable n)) CatalogSelectDistinct
        (\<lambda>t. execute_select_distinct n t st limits) n)"

definition catalog_execute_select_distinct ::
  "string \<Rightarrow> parse_limits \<Rightarrow> distinct_limits \<Rightarrow> catalog \<Rightarrow> catalog_error + nullable_i64 list" where
  "catalog_execute_select_distinct source parse_limits limits c =
     parsed (parse_select_distinct source parse_limits) (\<lambda>st. catalog_select_distinct st limits c)"

section \<open>The contract of a table operation\<close>

text \<open>
  Every operation the catalog runs on a table it owns keeps this contract: it appends rows the table
  admits, or it fails and leaves the table alone. The catalog's own guarantees follow from it.
\<close>

abbreviation with_rows :: "int64_table \<Rightarrow> nullable_i64 list \<Rightarrow> int64_table" where
  "with_rows t vs \<equiv> t\<lparr>table_values := table_values t @ vs\<rparr>"

definition catalog_wf :: "catalog \<Rightarrow> bool" where
  "catalog_wf c \<longleftrightarrow>
     distinct (map fst (catalog_tables c)) \<and>
     length (catalog_tables c) \<le> max_tables (catalog_bounds c) \<and>
     (\<forall>t\<in>snd ` set (catalog_tables c). table_wf t \<and> table_row_cap t = max_rows_per_table (catalog_bounds c))"

lemma catalog_table_wf:
  "catalog_wf c \<Longrightarrow> catalog_table n c = Some t \<Longrightarrow>
     table_wf t \<and> table_row_cap t = max_rows_per_table (catalog_bounds c)"
  by (force simp: catalog_wf_def catalog_table_def dest: map_of_SomeD)

lemma catalog_put_frame [simp]: "catalog_bounds (catalog_put n t c) = catalog_bounds c"
  by (simp add: catalog_put_def)

lemma catalog_table_put [simp]: "catalog_table m (catalog_put n t c) = (if m = n then Some t else catalog_table m c)"
  by (simp add: catalog_table_def catalog_put_def update_conv')

lemma update_same: "map_of ts n = Some t \<Longrightarrow> AList.update n t ts = ts"
  by (induction ts) (auto split: if_splits)

lemma length_update: "length (AList.update n t ts) = (if n \<in> fst ` set ts then length ts else Suc (length ts))"
  by (induction ts) auto

lemma set_update: "snd ` set (AList.update n t ts) \<subseteq> insert t (snd ` set ts)"
  by (induction ts) auto

lemma catalog_put_same: "catalog_table n c = Some t \<Longrightarrow> catalog_put n t c = c"
  by (simp add: catalog_table_def catalog_put_def update_same)

lemma catalog_put_wf:
  assumes "catalog_wf c" and "table_wf t" and "table_row_cap t = max_rows_per_table (catalog_bounds c)"
    and "catalog_table n c = None \<Longrightarrow> catalog_len c < max_tables (catalog_bounds c)"
  shows "catalog_wf (catalog_put n t c)"
proof -
  have known: "n \<in> fst ` set (catalog_tables c) \<longleftrightarrow> catalog_table n c \<noteq> None"
    by (simp add: catalog_table_def map_of_eq_None_iff)
  have "length (AList.update n t (catalog_tables c)) \<le> max_tables (catalog_bounds c)"
  proof (cases "catalog_table n c")
    case None
    with assms(4) known show ?thesis by (simp add: length_update catalog_len_def)
  next
    case (Some u)
    with assms(1) known show ?thesis by (simp add: length_update catalog_wf_def)
  qed
  moreover have "table_wf u \<and> table_row_cap u = max_rows_per_table (catalog_bounds c)"
    if "u \<in> snd ` set (AList.update n t (catalog_tables c))" for u
  proof (cases "u = t")
    case True
    with assms(2,3) show ?thesis by simp
  next
    case False
    with subsetD [OF set_update that] have "u \<in> snd ` set (catalog_tables c)" by simp
    with assms(1) show ?thesis by (simp only: catalog_wf_def)
  qed
  moreover have "distinct (map fst (AList.update n t (catalog_tables c)))"
    using assms(1) by (simp add: catalog_wf_def distinct_update)
  ultimately show ?thesis by (simp add: catalog_wf_def catalog_put_def)
qed

locale table_operation =
  fixes act :: "int64_table \<Rightarrow> ('e + 'r) \<times> int64_table"
  assumes act_fails: "table_wf t \<Longrightarrow> act t = (Inl e, t') \<Longrightarrow> t' = t"
    and act_appends: "table_wf t \<Longrightarrow> act t = (Inr x, t') \<Longrightarrow> \<exists>vs. table_admits t vs \<and> t' = with_rows t vs"
begin

lemma lift_cases:
  assumes "catalog_wf c" and "catalog_table_mut missing wrap act n c = (r, c')"
  obtains e where "r = Inl e" "c' = c"
  | x t vs where "r = Inr x" "catalog_table n c = Some t" "table_admits t vs" "c' = catalog_put n (with_rows t vs) c"
proof (cases "catalog_table n c")
  case None
  with assms(2) have "r = Inl missing" "c' = c" by (simp_all add: catalog_table_mut_def)
  then show thesis by (rule that(1))
next
  case (Some t)
  with assms(1) have wf: "table_wf t" by (simp add: catalog_table_wf)
  show thesis
  proof (cases "act t")
    case (Pair s t')
    show thesis
    proof (cases s)
      case (Inl e)
      with act_fails [OF wf] Pair have "t' = t" by simp
      with assms(2) Some Pair Inl have "r = Inl (wrap e)" "c' = c"
        by (simp_all add: catalog_table_mut_def catalog_put_same)
      then show thesis by (rule that(1))
    next
      case (Inr x)
      with act_appends [OF wf] Pair obtain vs where vs: "table_admits t vs" "t' = with_rows t vs" by blast
      with assms(2) Some Pair Inr have "r = Inr x" "c' = catalog_put n (with_rows t vs) c"
        by (simp_all add: catalog_table_mut_def)
      then show thesis using Some vs(1) by (intro that(2))
    qed
  qed
qed

end

lemma append_batch_cases:
  assumes "table_wf t" and "table_append_batch t vs = (r, t')"
  shows "(\<exists>e. r = Inl e) \<and> t' = t \<or> r = Inr () \<and> table_admits t vs \<and> t' = with_rows t vs"
  using assms append_batch_admitted append_batch_rejected by (cases "table_admits t vs") (metis prod.inject)+

lemma ingest_csv_cases:
  assumes "table_wf t" and "ingest_csv_with_names t source limits = (r, t')"
  shows "(\<exists>e. r = Inl e) \<and> t' = t \<or> (\<exists>x vs. r = Inr x \<and> table_admits t vs \<and> t' = with_rows t vs)"
  using assms(2) append_batch_cases [OF assms(1)]
  by (force simp: ingest_csv_with_names_def Let_def split: if_splits list.splits sum.splits prod.splits)

interpretation batch_append: table_operation "\<lambda>t. table_append_batch t vs" for vs
  by unfold_locales (use append_batch_cases in force)+

interpretation row_append: table_operation "\<lambda>t. table_append t v" for v
  unfolding append_as_batch ..

interpretation row_insert: table_operation "\<lambda>t. execute_insert n t st" for n st
proof unfold_locales
  fix t e t' assume "table_wf t" "execute_insert n t st = (Inl e, t')"
  then show "t' = t"
    using append_batch_cases [of t "[insert_value st]"]
    by (auto simp: execute_insert_def append_as_batch split: if_splits prod.splits)
next
  fix t x t' assume "table_wf t" "execute_insert n t st = (Inr x, t')"
  then show "\<exists>vs. table_admits t vs \<and> t' = with_rows t vs"
    using append_batch_cases [of t "[insert_value st]"]
    by (auto simp: execute_insert_def append_as_batch split: if_splits prod.splits)
qed

interpretation csv_bytes: table_operation "\<lambda>t. ingest_csv_with_names t source limits" for source limits
  by unfold_locales (use ingest_csv_cases in blast)+

lemma ingest_csv_reader_cases:
  assumes "table_wf t" and "ingest_csv_with_names_from_reader t reader limits = (r, t')"
  shows "(\<exists>e. r = Inl e) \<and> t' = t \<or> (\<exists>x vs. r = Inr x \<and> table_admits t vs \<and> t' = with_rows t vs)"
  using assms(2) ingest_csv_cases [OF assms(1)]
  by (force simp: ingest_csv_with_names_from_reader_def Let_def split: if_splits sum.splits prod.splits)

interpretation csv_reader: table_operation "\<lambda>t. ingest_csv_with_names_from_reader t reader limits"
  for reader limits
  by unfold_locales (use ingest_csv_reader_cases in blast)+

section \<open>Runs of the catalog\<close>

text \<open>The operations that take the catalog by mutable reference. The tables that \<open>table_mut\<close>
  hands out are used through their two appending methods.\<close>

datatype 'io catalog_op =
  ExecuteCreate string parse_limits
| Create create_table_statement
| RestoreFromFile string "'io probe" schema snapshot_codec nullable_codec
| ExecuteInsert string parse_limits
| Insert insert_statement
| IngestCsv string string csv_ingest_limits
| IngestCsvReader string "(char, 'io) read_event list" csv_ingest_limits
| TableMutAppend string nullable_i64
| TableMutAppendBatch string "nullable_i64 list"

text \<open>Whether an operation succeeds, and the catalog after it.\<close>

fun catalog_apply :: "'io catalog_op \<Rightarrow> catalog \<Rightarrow> bool \<times> catalog" where
  "catalog_apply (ExecuteCreate source limits) c = apfst is_ok (catalog_execute_create source limits c)"
| "catalog_apply (Create st) c = apfst is_ok (catalog_create st c)"
| "catalog_apply (RestoreFromFile n file schema codec rows) c =
     apfst is_ok (catalog_restore_int64_table_from_file n file schema codec rows c)"
| "catalog_apply (ExecuteInsert source limits) c = apfst is_ok (catalog_execute_insert source limits c)"
| "catalog_apply (Insert st) c = apfst is_ok (catalog_insert st c)"
| "catalog_apply (IngestCsv n source limits) c = apfst is_ok (catalog_ingest_csv_with_names n source limits c)"
| "catalog_apply (IngestCsvReader n reader limits) c =
     apfst is_ok (catalog_ingest_csv_with_names_from_reader n reader limits c)"
| "catalog_apply (TableMutAppend n v) c =
     apfst is_ok (catalog_table_mut None Some (\<lambda>t. table_append t v) n c)"
| "catalog_apply (TableMutAppendBatch n vs) c =
     apfst is_ok (catalog_table_mut None Some (\<lambda>t. table_append_batch t vs) n c)"

fun catalog_run :: "'io catalog_op list \<Rightarrow> catalog \<Rightarrow> catalog" where
  "catalog_run [] c = c"
| "catalog_run (op # ops) c = catalog_run ops (snd (catalog_apply op c))"

text \<open>What an operation may do to the tables: nothing, register one under a free name, or append
  admitted rows to one.\<close>

inductive catalog_change :: "catalog \<Rightarrow> bool \<Rightarrow> catalog \<Rightarrow> bool" where
  change_none: "catalog_change c ok c"
| change_register: "catalog_change c True (catalog_put n t c)"
  if "catalog_table n c = None" "catalog_len c < max_tables (catalog_bounds c)" "table_wf t"
     "table_row_cap t = max_rows_per_table (catalog_bounds c)"
| change_append: "catalog_change c True (catalog_put n (with_rows t vs) c)"
  if "catalog_table n c = Some t" "table_admits t vs"

inductive_cases failed_changeE: "catalog_change c False c'"

context table_operation begin

lemma lift_change:
  assumes "catalog_wf c" and "catalog_table_mut missing wrap act n c = (r, c')"
  shows "catalog_change c (is_ok r) c'"
  using assms
proof (cases rule: lift_cases)
  case (1 e)
  then show ?thesis by (simp add: change_none)
next
  case (2 x t vs)
  then show ?thesis using change_append by simp
qed

end

lemma table_new_row_cap [simp]: "table_row_cap (table_new s cap) = cap"
  by (simp add: table_new_def)

lemma create_change: "catalog_create st c = (r, c') \<Longrightarrow> catalog_change c (is_ok r) c'"
  by (auto simp: catalog_create_def Let_def not_le intro!: change_register split: if_splits)
    (simp_all add: change_none)

lemma restore_change:
  "catalog_restore_int64_table_from_file n file s sc pc c = (r, c') \<Longrightarrow> catalog_change c (is_ok r) c'"
  by (auto simp: catalog_restore_int64_table_from_file_def not_le dest: restore_from_file_wf
      intro!: change_register split: if_splits sum.splits) (simp_all add: change_none)

lemma parsed_mut_change:
  assumes "parsed_mut p run c = (r, c')" and "\<And>st r c'. run st c = (r, c') \<Longrightarrow> catalog_change c (is_ok r) c'"
  shows "catalog_change c (is_ok r) c'"
  using assms by (auto simp: parsed_mut_def intro: change_none split: sum.splits)

lemma insert_change: "catalog_wf c \<Longrightarrow> catalog_insert st c = (r, c') \<Longrightarrow> catalog_change c (is_ok r) c'"
  unfolding catalog_insert_def Let_def by (rule row_insert.lift_change)

lemmas operation_changes =
  create_change restore_change insert_change batch_append.lift_change row_append.lift_change
  csv_bytes.lift_change csv_reader.lift_change

lemma applied_change:
  assumes "apfst is_ok m = (ok, c')" and "\<And>r d. m = (r, d) \<Longrightarrow> catalog_change c (is_ok r) d"
  shows "catalog_change c ok c'"
  using assms by (cases m) auto

lemma apply_change:
  assumes "catalog_wf c" and "catalog_apply op c = (ok, c')"
  shows "catalog_change c ok c'"
proof (cases op)
  case (ExecuteCreate source limits)
  with assms(2) have "apfst is_ok (catalog_execute_create source limits c) = (ok, c')" by simp
  then show ?thesis
    unfolding catalog_execute_create_def by (elim applied_change parsed_mut_change create_change)
next
  case (ExecuteInsert source limits)
  with assms(2) have "apfst is_ok (catalog_execute_insert source limits c) = (ok, c')" by simp
  then show ?thesis
    unfolding catalog_execute_insert_def
    by (elim applied_change parsed_mut_change insert_change [OF assms(1)])
qed (use assms in \<open>auto simp: catalog_ingest_csv_with_names_def catalog_ingest_csv_with_names_from_reader_def
    elim!: applied_change intro: operation_changes\<close>)

section \<open>What every run keeps\<close>

lemma catalog_new_wf: "catalog_wf (catalog_new limits)"
  by (simp add: catalog_wf_def catalog_new_def)

lemma catalog_new_bounds [simp]: "catalog_bounds (catalog_new limits) = limits"
  by (simp add: catalog_new_def)

lemma change_wf:
  assumes "catalog_change c ok c'" and "catalog_wf c"
  shows "catalog_wf c' \<and> catalog_bounds c' = catalog_bounds c"
  using assms
proof (induction rule: catalog_change.induct)
  case (change_register n c t)
  then show ?case by (simp add: catalog_put_wf)
next
  case (change_append n c t vs)
  then show ?case
    using catalog_table_wf [of c n t] by (auto intro!: catalog_put_wf simp: table_admits_def table_wf_def)
qed simp

lemma apply_wf:
  assumes "catalog_wf c" shows "catalog_wf (snd (catalog_apply op c))"
  and "catalog_bounds (snd (catalog_apply op c)) = catalog_bounds c"
  using change_wf [OF apply_change [OF assms] assms] by (cases "catalog_apply op c"; force)+

lemma run_wf: "catalog_wf c \<Longrightarrow> catalog_wf (catalog_run ops c) \<and> catalog_bounds (catalog_run ops c) = catalog_bounds c"
  by (induction ops arbitrary: c) (simp_all add: apply_wf)

text \<open>C6: Whatever operations a new catalog executes, with whatever text, readers and files: its table
  names stay distinct, it never holds more tables than its bound, every table carries the catalog's
  row bound, stays within it and holds no null in a non-nullable column; the bounds never change.\<close>

theorem catalog_invariant:
  "catalog_wf (catalog_run ops (catalog_new limits)) \<and>
   catalog_bounds (catalog_run ops (catalog_new limits)) = limits"
  using run_wf [OF catalog_new_wf] by simp

text \<open>The rows of every table of one catalog are the first rows of the same table in another.\<close>

definition catalog_extends :: "catalog \<Rightarrow> catalog \<Rightarrow> bool" where
  "catalog_extends c c' \<longleftrightarrow>
     (\<forall>n t. catalog_table n c = Some t \<longrightarrow>
        (\<exists>vs. catalog_table n c' = Some (with_rows t vs)))"

lemma catalog_extends_refl: "catalog_extends c c"
  unfolding catalog_extends_def by (metis append_Nil2 int64_table.surjective int64_table.update_convs(2))

lemma catalog_extends_trans: "catalog_extends c d \<Longrightarrow> catalog_extends d e \<Longrightarrow> catalog_extends c e"
  unfolding catalog_extends_def by fastforce

lemma change_extends: "catalog_change c ok c' \<Longrightarrow> catalog_extends c c'"
proof (induction rule: catalog_change.induct)
  case (change_register n c t)
  then show ?case using catalog_extends_refl [of c] by (auto simp: catalog_extends_def)
next
  case (change_append n c t vs)
  then show ?case using catalog_extends_refl [of c] by (auto simp: catalog_extends_def)
qed (rule catalog_extends_refl)

lemma run_extends: "catalog_wf c \<Longrightarrow> catalog_extends c (catalog_run ops c)"
proof (induction ops arbitrary: c)
  case (Cons op ops)
  have "catalog_extends c (snd (catalog_apply op c))"
    using change_extends [OF apply_change [OF Cons.prems]] by (cases "catalog_apply op c") force
  with Cons.IH [OF apply_wf(1) [OF Cons.prems]] show ?case
    by (auto intro: catalog_extends_trans)
qed (simp add: catalog_extends_refl)

text \<open>No later operation loses a table, changes its schema or bound, or removes, reorders or
  overwrites a row: each table only grows at its end. An operation that reports an error leaves the
  whole catalog as it was.\<close>

theorem catalog_history:
  "catalog_extends (catalog_run ops (catalog_new limits)) (catalog_run (ops @ later) (catalog_new limits)) \<and>
   catalog_apply op (catalog_run ops (catalog_new limits)) \<in>
     {True} \<times> UNIV \<union> {(False, catalog_run ops (catalog_new limits))}"
proof -
  let ?c = "catalog_run ops (catalog_new limits)"
  have wf: "catalog_wf ?c" by (simp add: run_wf catalog_new_wf)
  have "catalog_run (ops @ later) c = catalog_run later (catalog_run ops c)" for c
    by (induction ops arbitrary: c) simp_all
  then have "catalog_extends ?c (catalog_run (ops @ later) (catalog_new limits))"
    using run_extends [OF wf] by simp
  moreover obtain ok c' where ran: "catalog_apply op ?c = (ok, c')" by fastforce
  then have "ok \<or> c' = ?c"
    using apply_change [OF wf ran] by (cases ok) (auto elim: failed_changeE)
  ultimately show ?thesis using ran by auto
qed

end
