(* ===== verification/Catalog_Spec.thy ===== *)
theory Catalog_Spec
  imports Catalog
begin

text \<open>
  The catalog as a database: a map from names to a schema and the rows inserted so far. Every
  operation of the catalog is specified on this map, and the catalog refines the specification step
  by step, outcome included.
\<close>

section \<open>The specification\<close>

type_synonym database = "string \<rightharpoonup> schema \<times> nullable_i64 list"

definition rows_admitted :: "catalog_limits \<Rightarrow> schema \<Rightarrow> nullable_i64 list \<Rightarrow> bool" where
  "rows_admitted limits s rows \<longleftrightarrow>
     length rows \<le> max_rows_per_table limits \<and> (col_nullable (schema_column s) \<or> None \<notin> set rows)"

definition spec_register ::
  "catalog_limits \<Rightarrow> string \<Rightarrow> schema \<Rightarrow> nullable_i64 list \<Rightarrow> database \<Rightarrow> bool \<times> database" where
  "spec_register limits n s rows db =
     (if n \<notin> dom db \<and> card (dom db) < max_tables limits \<and> rows_admitted limits s rows
      then (True, db(n \<mapsto> (s, rows))) else (False, db))"

definition spec_append ::
  "catalog_limits \<Rightarrow> string \<Rightarrow> (schema \<Rightarrow> nullable_i64 list option) \<Rightarrow> database \<Rightarrow> bool \<times> database" where
  "spec_append limits n new_rows db =
     (case db n of
        None \<Rightarrow> (False, db)
      | Some (s, rows) \<Rightarrow>
          (case new_rows s of
             None \<Rightarrow> (False, db)
           | Some vs \<Rightarrow>
               if rows_admitted limits s (rows @ vs) then (True, db(n \<mapsto> (s, rows @ vs))) else (False, db)))"

definition spec_create :: "catalog_limits \<Rightarrow> create_table_statement \<Rightarrow> database \<Rightarrow> bool \<times> database" where
  "spec_create limits st db =
     (if if_not_exists st \<and> (\<exists>n\<in>dom db. eq_ignore_ascii_case n (create_table_name st)) then (True, db)
      else spec_register limits (create_table_name st)
        (schema_int64 (cd_name (create_column st)) (cd_nullable (create_column st))) [] db)"

text \<open>The rows a CSV document of a schema holds and the rows a snapshot file holds.\<close>

definition csv_rows :: "csv_ingest_limits \<Rightarrow> string \<Rightarrow> schema \<Rightarrow> nullable_i64 list option" where
  "csv_rows limits source s =
     (case csv_lines source of
        [] \<Rightarrow> None
      | header # _ \<Rightarrow>
          if length source \<le> csv_max_bytes limits \<and> header = col_name (schema_column s)
          then (case csv_ingest_loop (schema_column s) limits 2 (tl (split_inclusive source)) [] of
                  Inl _ \<Rightarrow> None | Inr vs \<Rightarrow> Some vs)
          else None)"

definition reader_rows ::
  "csv_ingest_limits \<Rightarrow> (char, 'io) read_event list \<Rightarrow> schema \<Rightarrow> nullable_i64 list option" where
  "reader_rows limits reader s =
     (case take_read_to_end (saturating_add (csv_max_bytes limits) 1) reader of
        Inl _ \<Rightarrow> None
      | Inr source \<Rightarrow> csv_rows limits source s)"

definition file_rows :: "'io probe \<Rightarrow> snapshot_codec \<Rightarrow> nullable_codec \<Rightarrow> nullable_i64 list option" where
  "file_rows file codec rows_codec =
     (case read_bounded_snapshot_file file (envelope_max_payload_len codec) of
        Inl _ \<Rightarrow> None
      | Inr envelope \<Rightarrow>
          (case envelope_decode codec envelope of
             Inl _ \<Rightarrow> None
           | Inr payload \<Rightarrow>
               (case nullable_decode rows_codec payload of Inl _ \<Rightarrow> None | Inr rows \<Rightarrow> Some rows)))"

fun spec_apply :: "catalog_limits \<Rightarrow> 'io catalog_op \<Rightarrow> database \<Rightarrow> bool \<times> database" where
  "spec_apply limits (ExecuteCreate source parse_limits) db =
     (case parse_create_table source parse_limits of Inl _ \<Rightarrow> (False, db) | Inr st \<Rightarrow> spec_create limits st db)"
| "spec_apply limits (Create st) db = spec_create limits st db"
| "spec_apply limits (RestoreFromFile n file schema codec rows_codec) db =
     (case file_rows file codec rows_codec of
        None \<Rightarrow> (False, db) | Some rows \<Rightarrow> spec_register limits n schema rows db)"
| "spec_apply limits (ExecuteInsert source parse_limits) db =
     (case parse_insert source parse_limits of
        Inl _ \<Rightarrow> (False, db)
      | Inr st \<Rightarrow> spec_append limits (insert_table_name st) (\<lambda>_. Some [insert_value st]) db)"
| "spec_apply limits (Insert st) db =
     spec_append limits (insert_table_name st) (\<lambda>_. Some [insert_value st]) db"
| "spec_apply limits (IngestCsv n source csv_limits) db = spec_append limits n (csv_rows csv_limits source) db"
| "spec_apply limits (IngestCsvReader n reader csv_limits) db =
     spec_append limits n (reader_rows csv_limits reader) db"
| "spec_apply limits (TableMutAppend n v) db = spec_append limits n (\<lambda>_. Some [v]) db"
| "spec_apply limits (TableMutAppendBatch n vs) db = spec_append limits n (\<lambda>_. Some vs) db"

fun spec_run :: "catalog_limits \<Rightarrow> 'io catalog_op list \<Rightarrow> database \<Rightarrow> database" where
  "spec_run limits [] db = db"
| "spec_run limits (op # ops) db = spec_run limits ops (snd (spec_apply limits op db))"

section \<open>The refinement\<close>

definition catalog_view :: "catalog \<Rightarrow> database" where
  "catalog_view c = (\<lambda>n. map_option (\<lambda>t. (table_schema t, table_values t)) (catalog_table n c))"

lemma catalog_view_new [simp]: "catalog_view (catalog_new limits) = Map.empty"
  by (simp add: catalog_view_def catalog_table_def catalog_new_def)

lemma catalog_view_put [simp]:
  "catalog_view (catalog_put n t c) = (catalog_view c)(n \<mapsto> (table_schema t, table_values t))"
  by (auto simp: catalog_view_def)

lemma dom_catalog_view: "dom (catalog_view c) = fst ` set (catalog_tables c)"
proof -
  have "dom (catalog_view c) = dom (map_of (catalog_tables c))"
    by (auto simp: catalog_view_def catalog_table_def dom_def)
  then show ?thesis by (simp add: dom_map_of_conv_image_fst)
qed

lemma catalog_view_eq: "catalog_view c n = map_option (\<lambda>t. (table_schema t, table_values t)) (catalog_table n c)"
  by (simp add: catalog_view_def)

lemma catalog_table_None: "catalog_table n c = None \<longleftrightarrow> n \<notin> dom (catalog_view c)"
  by (auto simp: catalog_view_eq)

lemma card_catalog_view: "catalog_wf c \<Longrightarrow> card (dom (catalog_view c)) = catalog_len c"
  unfolding dom_catalog_view catalog_wf_def catalog_len_def
  using distinct_card [of "map fst (catalog_tables c)"] by simp

definition refines :: "('e + 'r) \<times> catalog \<Rightarrow> bool \<times> database \<Rightarrow> bool" where
  "refines out spec \<longleftrightarrow> is_ok (fst out) = fst spec \<and> catalog_view (snd out) = snd spec"

lemma create_refines:
  assumes "catalog_wf c"
  shows "refines (catalog_create st c) (spec_create (catalog_bounds c) st (catalog_view c))"
proof -
  have any: "list_ex P (map fst (catalog_tables c)) \<longleftrightarrow> (\<exists>n\<in>dom (catalog_view c). P n)" for P
    by (simp add: dom_catalog_view list_ex_iff)
  show ?thesis
    unfolding refines_def catalog_create_def spec_create_def spec_register_def Let_def any catalog_table_None
      card_catalog_view [OF assms]
    by (auto simp: rows_admitted_def table_new_def)
qed

lemma restored_rows:
  "file_rows file codec rows_codec = Some rows \<Longrightarrow>
     restore_int64_table_from_file file s cap codec rows_codec =
       map_err RestoreFailed (map_err RestoreTable (table_of_rows s cap rows))"
  by (auto simp: restore_int64_table_from_file_def restore_int64_table_def file_rows_def split: sum.splits)

lemma not_restored:
  "file_rows file codec rows_codec = None \<Longrightarrow> \<exists>e. restore_int64_table_from_file file s cap codec rows_codec = Inl e"
  by (auto simp: restore_int64_table_from_file_def restore_int64_table_def file_rows_def split: sum.splits)

lemma restore_refines:
  assumes "catalog_wf c"
  shows "refines (catalog_restore_int64_table_from_file n file s codec rows_codec c)
    (case file_rows file codec rows_codec of
        None \<Rightarrow> (False, catalog_view c)
      | Some rows \<Rightarrow> spec_register (catalog_bounds c) n s rows (catalog_view c))"
proof (cases "file_rows file codec rows_codec")
  case None
  from not_restored [OF this, of s "max_rows_per_table (catalog_bounds c)"] obtain e
    where "restore_int64_table_from_file file s (max_rows_per_table (catalog_bounds c)) codec rows_codec = Inl e"
    by blast
  with None show ?thesis by (simp add: refines_def catalog_restore_int64_table_from_file_def)
next
  case (Some rows)
  let ?cap = "max_rows_per_table (catalog_bounds c)"
  let ?t = "table_of_rows s ?cap rows"
  have restored: "restore_int64_table_from_file file s ?cap codec rows_codec =
      map_err RestoreFailed (map_err RestoreTable ?t)"
    by (rule restored_rows [OF Some])
  have "?t = Inr t \<longleftrightarrow> rows_admitted (catalog_bounds c) s rows \<and>
      t = \<lparr>table_schema = s, table_values = rows, table_row_cap = ?cap\<rparr>" for t
    by (cases t) (auto simp: table_of_rows_Inr table_wf_def rows_admitted_def)
  then have t: "?t = Inr \<lparr>table_schema = s, table_values = rows, table_row_cap = ?cap\<rparr> \<and>
        rows_admitted (catalog_bounds c) s rows \<or>
      (\<exists>e. ?t = Inl e) \<and> \<not> rows_admitted (catalog_bounds c) s rows"
    by (cases ?t) auto
  show ?thesis
    unfolding refines_def catalog_restore_int64_table_from_file_def spec_register_def catalog_table_None
      card_catalog_view [OF assms] restored
    using t by (auto simp: Some)
qed

text \<open>The contract of an operation that appends the rows a function of the schema gives.\<close>

definition appends_rows ::
  "(int64_table \<Rightarrow> ('e + 'r) \<times> int64_table) \<Rightarrow> (schema \<Rightarrow> nullable_i64 list option) \<Rightarrow> bool" where
  "appends_rows act new_rows \<longleftrightarrow>
     (\<forall>t. table_wf t \<longrightarrow>
        (case new_rows (table_schema t) of
           Some vs \<Rightarrow>
             (if table_admits t vs then \<exists>x. act t = (Inr x, with_rows t vs) else \<exists>e. act t = (Inl e, t))
         | None \<Rightarrow> \<exists>e. act t = (Inl e, t)))"

lemma append_refines:
  assumes "catalog_wf c" and "appends_rows act new_rows"
  shows "refines (catalog_table_mut missing wrap act n c)
    (spec_append (catalog_bounds c) n new_rows (catalog_view c))"
proof (cases "catalog_table n c")
  case None
  then show ?thesis by (simp add: refines_def catalog_table_mut_def spec_append_def catalog_view_eq)
next
  case (Some t)
  with assms(1) have wf: "table_wf t" "table_row_cap t = max_rows_per_table (catalog_bounds c)"
    by (simp_all add: catalog_table_wf)
  have admits: "table_admits t vs \<longleftrightarrow> rows_admitted (catalog_bounds c) (table_schema t) (table_values t @ vs)" for vs
    using wf by (auto simp: table_admits_def rows_admitted_def table_wf_def)
  show ?thesis
  proof (cases "new_rows (table_schema t)")
    case None
    with assms(2) wf(1) obtain e where "act t = (Inl e, t)" unfolding appends_rows_def by fastforce
    with Some None show ?thesis
      by (simp add: refines_def catalog_table_mut_def spec_append_def catalog_view_eq catalog_put_same)
  next
    fix vs assume vs: "new_rows (table_schema t) = Some vs"
    show ?thesis
    proof (cases "table_admits t vs")
      case True
      with assms(2) wf(1) vs obtain x where "act t = (Inr x, with_rows t vs)"
        unfolding appends_rows_def by fastforce
      with Some vs True admits [of vs] show ?thesis
        by (simp add: refines_def catalog_table_mut_def spec_append_def catalog_view_eq)
    next
      case False
      with assms(2) wf(1) vs obtain e where "act t = (Inl e, t)" unfolding appends_rows_def by fastforce
      with Some vs False admits [of vs] show ?thesis
        by (simp add: refines_def catalog_table_mut_def spec_append_def catalog_view_eq catalog_put_same)
    qed
  qed
qed

lemma appends_batch: "appends_rows (\<lambda>t. table_append_batch t vs) (\<lambda>_. Some vs)"
  using append_batch_admitted append_batch_rejected by (fastforce simp: appends_rows_def)

lemma appends_row: "appends_rows (\<lambda>t. table_append t v) (\<lambda>_. Some [v])"
  unfolding append_as_batch by (rule appends_batch)

lemma appends_wrapped:
  "appends_rows act new_rows \<Longrightarrow> appends_rows (\<lambda>t. case act t of (r, t') \<Rightarrow> (map_err wrap r, t')) new_rows"
  unfolding appends_rows_def by (fastforce split: option.splits if_splits)

lemma appends_insert: "appends_rows (\<lambda>t. execute_insert (insert_table_name st) t st) (\<lambda>_. Some [insert_value st])"
  using appends_wrapped [OF appends_row] by (simp add: execute_insert_def)

lemma append_batch_decides:
  "table_wf t \<Longrightarrow> if table_admits t vs then table_append_batch t vs = (Inr (), with_rows t vs)
     else \<exists>e. table_append_batch t vs = (Inl e, t)"
  using append_batch_admitted append_batch_rejected by metis

lemma appends_csv: "appends_rows (\<lambda>t. ingest_csv_with_names t source limits) (csv_rows limits source)"
  unfolding appends_rows_def
proof (intro allI impI)
  fix t assume wf: "table_wf t"
  let ?s = "table_schema t"
  show "case csv_rows limits source ?s of
      Some vs \<Rightarrow> (if table_admits t vs then \<exists>x. ingest_csv_with_names t source limits = (Inr x, with_rows t vs)
        else \<exists>e. ingest_csv_with_names t source limits = (Inl e, t))
    | None \<Rightarrow> \<exists>e. ingest_csv_with_names t source limits = (Inl e, t)"
  proof (cases "split_inclusive source")
    case Nil
    then show ?thesis by (simp add: csv_rows_def csv_lines_def ingest_csv_with_names_def)
  next
    case (Cons header lines)
    show ?thesis
    proof (cases "csv_ingest_loop (schema_column ?s) limits 2 lines []")
      case (Inl e)
      then show ?thesis by (simp add: csv_rows_def csv_lines_def Cons ingest_csv_unfold [OF Cons])
    next
      case (Inr vs)
      then show ?thesis
        using append_batch_decides [OF wf, of vs]
        by (auto simp: csv_rows_def csv_lines_def Cons ingest_csv_unfold [OF Cons] split: if_splits)
    qed
  qed
qed

lemma appends_csv_reader:
  "appends_rows (\<lambda>t. ingest_csv_with_names_from_reader t reader limits) (reader_rows limits reader)"
proof (cases "take_read_to_end (saturating_add (csv_max_bytes limits) 1) reader")
  case (Inl e)
  then show ?thesis by (simp add: appends_rows_def reader_rows_def ingest_csv_with_names_from_reader_def)
next
  case (Inr source)
  show ?thesis
  proof (cases "length source > csv_max_bytes limits")
    case True
    then have "csv_rows limits source s = None" for s by (auto simp: csv_rows_def split: list.split)
    with Inr True show ?thesis
      by (simp add: appends_rows_def reader_rows_def ingest_csv_with_names_from_reader_def del: One_nat_def)
  next
    case False
    with Inr have "(\<lambda>t. ingest_csv_with_names_from_reader t reader limits) =
        (\<lambda>t. case ingest_csv_with_names t source limits of (r, t') \<Rightarrow> (map_err CsvError r, t'))"
      by (simp add: ingest_csv_with_names_from_reader_def del: One_nat_def)
    moreover have "reader_rows limits reader = csv_rows limits source"
      using Inr by (simp add: reader_rows_def fun_eq_iff del: One_nat_def)
    ultimately show ?thesis using appends_wrapped [OF appends_csv, of CsvError source limits] by simp
  qed
qed

lemma parsed_refines:
  "(\<And>st. refines (run st c) (spec st)) \<Longrightarrow>
     refines (parsed_mut p run c) (case p of Inl _ \<Rightarrow> (False, catalog_view c) | Inr st \<Rightarrow> spec st)"
  by (cases p) (simp_all add: parsed_mut_def refines_def)

lemmas append_operations_refine =
  append_refines [OF _ appends_batch] append_refines [OF _ appends_row] append_refines [OF _ appends_insert]
  append_refines [OF _ appends_csv] append_refines [OF _ appends_csv_reader]

lemma refines_apfst: "refines out spec \<Longrightarrow> apsnd catalog_view (apfst is_ok out) = spec"
  by (cases out; cases spec) (simp add: refines_def)

lemma apply_refines:
  assumes "catalog_wf c"
  shows "apsnd catalog_view (catalog_apply op c) = spec_apply (catalog_bounds c) op (catalog_view c)"
proof -
  have insert: "refines (catalog_insert st c)
      (spec_append (catalog_bounds c) (insert_table_name st) (\<lambda>_. Some [insert_value st]) (catalog_view c))" for st
    unfolding catalog_insert_def Let_def by (rule append_operations_refine(3) [OF assms])
  show ?thesis
    by (cases op; simp only: catalog_apply.simps spec_apply.simps catalog_execute_create_def
        catalog_execute_insert_def catalog_ingest_csv_with_names_def
        catalog_ingest_csv_with_names_from_reader_def; rule refines_apfst)
      (intro parsed_refines create_refines restore_refines append_operations_refine insert assms)+
qed

lemma run_refines: "catalog_view (catalog_run ops (catalog_new limits)) = spec_run limits ops Map.empty"
proof -
  have "catalog_view (catalog_run ops c) = spec_run (catalog_bounds c) ops (catalog_view c)" if "catalog_wf c" for c
    using that
  proof (induction ops arbitrary: c)
    case (Cons op ops)
    from apply_refines [OF Cons.prems, of op]
    have "catalog_view (snd (catalog_apply op c)) = snd (spec_apply (catalog_bounds c) op (catalog_view c))"
      by (metis snd_apsnd)
    with Cons.IH [OF apply_wf(1) [OF Cons.prems, of op]] show ?case
      by (simp add: apply_wf(2) [OF Cons.prems])
  qed simp
  from this [OF catalog_new_wf, of limits] show ?thesis by simp
qed

text \<open>C2: The catalog refines the database: after any operations, a further operation succeeds exactly
  when the specification's does and leaves exactly the tables and rows the specification leaves.\<close>

theorem catalog_refines_database:
  "catalog_view (catalog_run ops (catalog_new limits)) = spec_run limits ops Map.empty \<and>
   apsnd catalog_view (catalog_apply op (catalog_run ops (catalog_new limits))) =
     spec_apply limits op (spec_run limits ops Map.empty)"
  using apply_refines [of "catalog_run ops (catalog_new limits)" op] run_wf [OF catalog_new_wf, of ops limits]
  by (simp add: run_refines catalog_new_wf)

end
