(* ===== verification/Sql_Language.thy ===== *)
theory Sql_Language
  imports Sql_Parser
begin

text \<open>
  Languages for the parser of \<^verbatim>\<open>src/parser.rs\<close>. A language is a predicate on byte strings; a
  clause is a function from the language that follows it to a language. \<open>recog k K\<close> says that a
  suffix parser accepts exactly the strings of \<open>K\<close>; the locale \<open>token\<close> is the contract of a
  token method, from which its \<open>recog\<close> rule follows, and every token method of the parser is
  shown to keep it.
\<close>

section \<open>Languages\<close>

type_synonym lang = "string \<Rightarrow> bool"

definition cat :: "lang \<Rightarrow> lang \<Rightarrow> lang" where
  "cat A B s \<longleftrightarrow> (\<exists>t u. s = t @ u \<and> A t \<and> B u)"

fun seq :: "lang list \<Rightarrow> lang \<Rightarrow> lang" where
  "seq [] K = K"
| "seq (A # As) K = cat A (seq As K)"

definition ws :: lang where
  "ws s \<longleftrightarrow> list_all is_ascii_whitespace s"

definition ws1 :: lang where
  "ws1 s \<longleftrightarrow> s \<noteq> [] \<and> ws s"

definition is_word :: lang where
  "is_word s \<longleftrightarrow> (case s of [] \<Rightarrow> False | c # cs \<Rightarrow> is_identifier_start c \<and> list_all is_identifier_continue cs)"

definition kw :: "string \<Rightarrow> lang" where
  "kw k s \<longleftrightarrow> is_word s \<and> eq_ignore_ascii_case s k"

definition name :: "usize \<Rightarrow> ident \<Rightarrow> lang" where
  "name m n s \<longleftrightarrow> s = n \<and> is_word n \<and> length n \<le> m"

definition byte :: "char \<Rightarrow> lang" where
  "byte b s \<longleftrightarrow> s = [b]"

definition int_lit :: "i64 \<Rightarrow> lang" where
  "int_lit v s \<longleftrightarrow> i64_from_str s = Some v"

definition limit_lit :: "usize \<Rightarrow> lang" where
  "limit_lit n s \<longleftrightarrow> digits_value s = Some n \<and> n \<le> usize_max"

fun operator_text :: "comparison_operator \<Rightarrow> lang" where
  "operator_text Eq s \<longleftrightarrow> s = ''=''"
| "operator_text Ne s \<longleftrightarrow> s = ''!='' \<or> s = ''<>''"
| "operator_text Lt s \<longleftrightarrow> s = ''<''"
| "operator_text Le s \<longleftrightarrow> s = ''<=''"
| "operator_text Gt s \<longleftrightarrow> s = ''>''"
| "operator_text Ge s \<longleftrightarrow> s = ''>=''"

definition eof :: lang where
  "eof s \<longleftrightarrow> s = []"

text \<open>\<open>stops f s\<close>: the text does not go on with a byte of the class; \<open>unless f K\<close> restricts a
  language to such texts.\<close>

definition stops :: "(char \<Rightarrow> bool) \<Rightarrow> string \<Rightarrow> bool" where
  "stops f s \<longleftrightarrow> s = [] \<or> \<not> f (hd s)"

definition unless :: "(char \<Rightarrow> bool) \<Rightarrow> lang \<Rightarrow> lang" where
  "unless f K s \<longleftrightarrow> stops f s \<and> K s"

abbreviation unglued :: "lang \<Rightarrow> lang" where
  "unglued \<equiv> unless is_identifier_continue"

abbreviation literal_end :: "lang \<Rightarrow> lang" where
  "literal_end \<equiv> unless (\<lambda>b. \<not> ends_literal b)"

definition avoids :: "(char \<Rightarrow> bool) \<Rightarrow> lang \<Rightarrow> bool" where
  "avoids f K \<longleftrightarrow> (\<forall>s. K s \<longrightarrow> stops f s)"

lemma catI: "A t \<Longrightarrow> B u \<Longrightarrow> cat A B (t @ u)"
  by (auto simp: cat_def)

lemma unless_avoids: "avoids f K \<Longrightarrow> unless f K = K"
  by (auto simp: avoids_def unless_def)

lemma cat_unless_avoids [simp]: "avoids f K \<Longrightarrow> cat A (unless f K) = cat A K"
  by (simp add: unless_avoids)

section \<open>Byte classes\<close>

lemma not_whitespace:
  "is_identifier_start c \<Longrightarrow> \<not> is_ascii_whitespace c"
  "is_identifier_continue c \<Longrightarrow> \<not> is_ascii_whitespace c"
  by (auto simp: is_identifier_start_def is_identifier_continue_def ascii_defs)

lemma whitespace_class:
  "is_ascii_whitespace c \<Longrightarrow> \<not> is_identifier_continue c \<and> \<not> is_comparison_operator_byte c \<and>
     ends_literal c \<and> \<not> is_ascii_digit c"
  by (auto simp: is_identifier_continue_def is_comparison_operator_byte_def ends_literal_def ascii_defs)

lemma start_continue: "is_identifier_start c \<Longrightarrow> is_identifier_continue c"
  by (auto simp: is_identifier_start_def is_identifier_continue_def ascii_defs)

lemma start_class:
  "is_identifier_start c \<Longrightarrow> \<not> is_comparison_operator_byte c \<and> \<not> is_ascii_digit c"
  by (auto simp: is_identifier_start_def is_comparison_operator_byte_def ascii_defs)

lemma is_wordE:
  assumes "is_word s"
  obtains c cs where "s = c # cs" and "is_identifier_start c" and "list_all is_identifier_continue cs"
  using assms by (cases s) (auto simp: is_word_def)

lemma is_word_continue: "is_word s \<Longrightarrow> list_all is_identifier_continue s"
  by (auto elim!: is_wordE intro: start_continue)

section \<open>Parser states\<close>

text \<open>The state that has consumed \<open>pre\<close> and has \<open>s\<close> ahead.\<close>

definition at :: "usize \<Rightarrow> string \<Rightarrow> string \<Rightarrow> parser" where
  "at m pre s = \<lparr>input = pre @ s, position = length pre, parser_max_identifier_bytes = m\<rparr>"

lemma at_simps [simp]:
  "input (at m pre s) = pre @ s"
  "position (at m pre s) = length pre"
  "parser_max_identifier_bytes (at m pre s) = m"
  by (simp_all add: at_def)

lemma peek_at [simp]: "peek (at m pre s) = (case s of [] \<Rightarrow> None | c # _ \<Rightarrow> Some c)"
  by (auto simp: peek_def slice_get_def split: list.split)

lemma peek_is_at [simp]: "peek_is f (at m pre s) \<longleftrightarrow> \<not> stops f s"
  by (auto simp: peek_is_def stops_def split: list.split)

lemma at_move: "(at m pre (t @ s))\<lparr>position := length pre + length t\<rparr> = at m (pre @ t) s"
  by (simp add: at_def)

lemma advance_at: "advance (length t) (at m pre (t @ s)) = at m (pre @ t) s"
  by (simp add: advance_def at_def)

lemma advance_1_at [simp]: "advance (Suc 0) (at m pre (c # s)) = at m (pre @ [c]) s"
  using advance_at [of "[c]"] by simp

lemma scan_while_at:
  "scan_while f (pre @ s) (length pre) = length pre + length (takeWhile f s)"
  by (simp add: scan_while_takeWhile)

lemma advance_while_at [simp]:
  "advance_while f (at m pre s) = at m (pre @ takeWhile f s) (dropWhile f s)"
  by (simp add: advance_while_def at_def scan_while_at)

lemma slice_from_at [simp]: "slice_from (length pre) (at m (pre @ t) s) = t"
  by (simp add: slice_from_def)

text \<open>The longest prefix in a class is the prefix after which the text stops.\<close>

lemma munch_append:
  assumes "list_all f t" and "stops f r"
  shows "takeWhile f (t @ r) = t" and "dropWhile f (t @ r) = r"
proof -
  have r: "takeWhile f r = []" "dropWhile f r = r"
    using assms(2) by (cases r; simp add: stops_def)+
  with assms(1) show "takeWhile f (t @ r) = t" by (induction t) auto
  from r assms(1) show "dropWhile f (t @ r) = r" by (induction t) auto
qed

lemma munch_split:
  "s = takeWhile f s @ dropWhile f s" "list_all f (takeWhile f s)" "stops f (dropWhile f s)"
proof -
  show "list_all f (takeWhile f s)" by (auto simp: list_all_iff dest: set_takeWhileD)
  show "stops f (dropWhile f s)" using hd_dropWhile [of f s] by (auto simp: stops_def)
qed simp

lemma munch_iff:
  "t = takeWhile f s \<and> r = dropWhile f s \<longleftrightarrow> s = t @ r \<and> list_all f t \<and> stops f r"
  using munch_append munch_split by metis

section \<open>Words at a position\<close>

definition word_prefix :: "string \<Rightarrow> string" where
  "word_prefix s = (if stops is_identifier_start s then [] else hd s # takeWhile is_identifier_continue (tl s))"

lemma word_prefix_split:
  assumes "is_word t" and "stops is_identifier_continue r"
  shows "word_prefix (t @ r) = t"
proof -
  from assms(1) obtain c cs where t: "t = c # cs" "is_identifier_start c"
    "list_all is_identifier_continue cs" by (rule is_wordE)
  with munch_append(1) [OF t(3) assms(2)] show ?thesis by (simp add: word_prefix_def stops_def)
qed

lemma word_prefix_word: "word_prefix s \<noteq> [] \<Longrightarrow>
    is_word (word_prefix s) \<and> (\<exists>r. s = word_prefix s @ r \<and> stops is_identifier_continue r)"
proof -
  assume ne: "word_prefix s \<noteq> []"
  then obtain c cs where s: "s = c # cs" "is_identifier_start c"
    by (cases s) (auto simp: word_prefix_def stops_def split: if_splits)
  let ?t = "takeWhile is_identifier_continue cs" and ?r = "dropWhile is_identifier_continue cs"
  have "word_prefix s = c # ?t" using s by (simp add: word_prefix_def stops_def)
  moreover have "s = (c # ?t) @ ?r" using s by simp
  ultimately show ?thesis
    using s(2) munch_split(2,3) [where s = cs and f = is_identifier_continue]
    by (intro conjI exI [of _ ?r]) (simp_all add: is_word_def)
qed

lemma word_end_at:
  "word_end (pre @ s) (length pre) =
     (if word_prefix s = [] then None else Some (length pre + length (word_prefix s)))"
proof (cases s)
  case (Cons c cs)
  have "scan_while is_identifier_continue (pre @ c # cs) (Suc (length pre)) =
      Suc (length pre) + length (takeWhile is_identifier_continue cs)"
    using scan_while_at [of is_identifier_continue "pre @ [c]" cs] by simp
  with Cons show ?thesis
    by (simp add: word_end_def slice_get_def word_prefix_def stops_def)
qed (simp add: word_end_def slice_get_def word_prefix_def stops_def)

lemma word_prefix_take: "take (length (word_prefix s)) s = word_prefix s"
proof (cases "word_prefix s = []")
  case False
  with word_prefix_word [of s] obtain r where "s = word_prefix s @ r" by blast
  then show ?thesis by (metis append_eq_conv_conj)
qed simp

definition starts_kw :: "string \<Rightarrow> lang" where
  "starts_kw k s \<longleftrightarrow> word_prefix s \<noteq> [] \<and> kw k (word_prefix s)"

lemma word_is_at: "word_is (pre @ s) (length pre) k \<longleftrightarrow> starts_kw k s"
  using word_prefix_word [of s]
  by (auto simp: word_is_def word_end_at starts_kw_def kw_def word_prefix_take)

lemma keyword_at_position_at [simp]: "keyword_at_position k (at m pre s) \<longleftrightarrow> starts_kw k s"
  by (simp add: keyword_at_position_def word_is_at)

lemma starts_kw_iff:
  "starts_kw k s \<longleftrightarrow> (\<exists>t r. s = t @ r \<and> kw k t \<and> stops is_identifier_continue r)"
proof
  assume "starts_kw k s"
  then show "\<exists>t r. s = t @ r \<and> kw k t \<and> stops is_identifier_continue r"
    using word_prefix_word [of s] by (auto simp: starts_kw_def)
next
  assume "\<exists>t r. s = t @ r \<and> kw k t \<and> stops is_identifier_continue r"
  then obtain t r where s: "s = t @ r" "kw k t" "stops is_identifier_continue r" by blast
  then have "word_prefix s = t" using word_prefix_split [of t r] by (simp add: kw_def)
  moreover have "t \<noteq> []" using s(2) by (auto simp: kw_def is_word_def)
  ultimately show "starts_kw k s" using s by (simp add: starts_kw_def)
qed

section \<open>The contract of a token method\<close>

definition recog :: "usize \<Rightarrow> 'a step \<Rightarrow> ('a \<Rightarrow> lang) \<Rightarrow> bool" where
  "recog lim k K \<longleftrightarrow> (\<forall>pre s y. (\<exists>q. k (at lim pre s) = Inr (y, q)) \<longleftrightarrow> K y s)"

locale token =
  fixes m :: "'a step" and lim :: usize and R :: "'a \<Rightarrow> string \<Rightarrow> lang"
  assumes exact: "m (at lim pre s) = Inr (x, q) \<longleftrightarrow>
      (\<exists>t rest. s = t @ rest \<and> R x t rest \<and> q = at lim (pre @ t) rest)"
begin

lemma recog_bind:
  assumes "\<And>x. recog lim (k x) (K x)"
  shows "recog lim (st_bind m k) (\<lambda>y s. \<exists>x t rest. s = t @ rest \<and> R x t rest \<and> K x y rest)"
proof -
  have "(\<exists>q. st_bind m k (at lim pre s) = Inr (y, q)) \<longleftrightarrow>
      (\<exists>x p. m (at lim pre s) = Inr (x, p) \<and> (\<exists>q. k x p = Inr (y, q)))" for pre s y
    by (auto simp: st_bind_def res_bind_Inr_iff)
  moreover have "(\<exists>x p. m (at lim pre s) = Inr (x, p) \<and> (\<exists>q. k x p = Inr (y, q))) \<longleftrightarrow>
      (\<exists>x t rest. s = t @ rest \<and> R x t rest \<and> (\<exists>q. k x (at lim (pre @ t) rest) = Inr (y, q)))"
    (is "?l \<longleftrightarrow> ?r") for pre s y
  proof
    assume ?l
    then obtain x p where p: "m (at lim pre s) = Inr (x, p)" "\<exists>q. k x p = Inr (y, q)" by blast
    from p(1) obtain t rest where "s = t @ rest" "R x t rest" "p = at lim (pre @ t) rest"
      unfolding exact by blast
    with p(2) show ?r by blast
  next
    assume ?r
    then obtain x t rest where r: "s = t @ rest" "R x t rest"
      "\<exists>q. k x (at lim (pre @ t) rest) = Inr (y, q)" by blast
    then have "m (at lim pre s) = Inr (x, at lim (pre @ t) rest)" unfolding exact by blast
    with r(3) show ?l by blast
  qed
  ultimately have "(\<exists>q. st_bind m k (at lim pre s) = Inr (y, q)) \<longleftrightarrow>
      (\<exists>x t rest. s = t @ rest \<and> R x t rest \<and> (\<exists>q. k x (at lim (pre @ t) rest) = Inr (y, q)))"
    for pre s y by simp
  then show ?thesis using assms by (simp add: recog_def)
qed

end

text \<open>A token that takes the longest text of its class: its language, and the bytes it does not
  stop before.\<close>

locale munch_token =
  fixes m :: "'a step" and lim :: usize and L :: "'a \<Rightarrow> lang" and f :: "char \<Rightarrow> bool"
  assumes munches: "m (at lim pre s) = Inr (x, q) \<longleftrightarrow>
      (\<exists>t rest. s = t @ rest \<and> L x t \<and> stops f rest \<and> q = at lim (pre @ t) rest)"
begin

lemma recog_unless:
  assumes "\<And>x. recog lim (k x) (K x)"
  shows "recog lim (st_bind m k) (\<lambda>y s. \<exists>x. cat (L x) (unless f (K x y)) s)"
proof -
  have "token m lim (\<lambda>x t rest. L x t \<and> stops f rest)"
    by unfold_locales (use munches in auto)
  moreover have "(\<exists>x. cat (L x) (unless f (K x y)) s) \<longleftrightarrow>
      (\<exists>x t rest. s = t @ rest \<and> (L x t \<and> stops f rest) \<and> K x y rest)" for y s
    unfolding cat_def unless_def by blast
  ultimately show ?thesis using token.recog_bind [of m lim "\<lambda>x t rest. L x t \<and> stops f rest" k K] assms
    by simp
qed

lemma recog_cat:
  assumes "\<And>x. recog lim (k x) (K x)" and "\<And>x y. avoids f (K x y)"
  shows "recog lim (st_bind m k) (\<lambda>y s. \<exists>x. cat (L x) (K x y) s)"
  using recog_unless [OF assms(1)] by (simp add: assms(2))

end

sublocale munch_token \<subseteq> token m lim "\<lambda>x t rest. L x t \<and> stops f rest"
  by unfold_locales (use munches in auto)

section \<open>The token methods keep the contract\<close>

lemma stops_never [simp]: "stops (\<lambda>_. False) s"
  by (simp add: stops_def)

lemma Ex_munch:
  "(\<exists>t r. s = t @ r \<and> list_all f t \<and> stops f r \<and> P t r) \<longleftrightarrow> P (takeWhile f s) (dropWhile f s)"
  by (metis munch_iff)

interpretation skip_ws: munch_token skip_whitespace lim "\<lambda>_. ws" is_ascii_whitespace for lim
proof
  fix pre s x q
  have "skip_whitespace (at lim pre s) = Inr (x, q) \<longleftrightarrow>
      q = at lim (pre @ takeWhile is_ascii_whitespace s) (dropWhile is_ascii_whitespace s)"
    by (auto simp: skip_whitespace_def)
  also have "\<dots> \<longleftrightarrow> (\<exists>t r. s = t @ r \<and> list_all is_ascii_whitespace t \<and> stops is_ascii_whitespace r \<and>
      q = at lim (pre @ t) r)"
    by (simp add: Ex_munch)
  finally show "skip_whitespace (at lim pre s) = Inr (x, q) \<longleftrightarrow>
      (\<exists>t rest. s = t @ rest \<and> ws t \<and> stops is_ascii_whitespace rest \<and> q = at lim (pre @ t) rest)"
    by (simp add: ws_def)
qed

interpretation require_ws: munch_token "require_whitespace e" lim "\<lambda>_. ws1" is_ascii_whitespace
  for e lim
proof
  fix pre s x q
  have "require_whitespace e (at lim pre s) = Inr (x, q) \<longleftrightarrow>
      takeWhile is_ascii_whitespace s \<noteq> [] \<and>
      q = at lim (pre @ takeWhile is_ascii_whitespace s) (dropWhile is_ascii_whitespace s)"
    by (auto simp: require_whitespace_def Let_def)
  also have "\<dots> \<longleftrightarrow> (\<exists>t r. s = t @ r \<and> list_all is_ascii_whitespace t \<and> stops is_ascii_whitespace r \<and>
      t \<noteq> [] \<and> q = at lim (pre @ t) r)"
    by (simp add: Ex_munch)
  finally show "require_whitespace e (at lim pre s) = Inr (x, q) \<longleftrightarrow>
      (\<exists>t rest. s = t @ rest \<and> ws1 t \<and> stops is_ascii_whitespace rest \<and> q = at lim (pre @ t) rest)"
    by (auto simp: ws1_def ws_def)
qed

definition word_rest :: "string \<Rightarrow> string" where
  "word_rest s = drop (length (word_prefix s)) s"

lemma word_split: "word_prefix s @ word_rest s = s"
  using word_prefix_take [of s] unfolding word_rest_def by (metis append_take_drop_id)

lemma Ex_word:
  "(\<exists>t r. s = t @ r \<and> is_word t \<and> stops is_identifier_continue r \<and> P t r) \<longleftrightarrow>
     word_prefix s \<noteq> [] \<and> P (word_prefix s) (word_rest s)"
proof
  assume "\<exists>t r. s = t @ r \<and> is_word t \<and> stops is_identifier_continue r \<and> P t r"
  then obtain t r where s: "s = t @ r" "is_word t" "stops is_identifier_continue r" "P t r" by blast
  then have t: "word_prefix s = t" using word_prefix_split by simp
  then have "word_rest s = r" using s(1) by (simp add: word_rest_def)
  with s t show "word_prefix s \<noteq> [] \<and> P (word_prefix s) (word_rest s)" by (auto simp: is_word_def)
next
  assume a: "word_prefix s \<noteq> [] \<and> P (word_prefix s) (word_rest s)"
  then obtain r where r: "is_word (word_prefix s)" "s = word_prefix s @ r"
    "stops is_identifier_continue r" using word_prefix_word [of s] by blast
  then have "r = word_rest s" using word_split [of s] by (metis same_append_eq)
  with a r show "\<exists>t r. s = t @ r \<and> is_word t \<and> stops is_identifier_continue r \<and> P t r" by blast
qed

lemma word_split_at: "at lim pre s = at lim pre (word_prefix s @ word_rest s)"
  by (simp add: word_split)

interpretation keyword: munch_token "expect_keyword k" lim "\<lambda>_. kw k" is_identifier_continue for k lim
proof
  fix pre s x q
  have moved: "(at lim pre s)\<lparr>position := length pre + length (word_prefix s)\<rparr> =
      at lim (pre @ word_prefix s) (word_rest s)"
    unfolding word_split_at [of lim pre s] by (rule at_move)
  have "expect_keyword k (at lim pre s) = Inr (x, q) \<longleftrightarrow>
      word_prefix s \<noteq> [] \<and> eq_ignore_ascii_case (word_prefix s) k \<and>
      q = at lim (pre @ word_prefix s) (word_rest s)"
    using moved by (auto simp: expect_keyword_def word_end_at word_prefix_take)
  also have "\<dots> \<longleftrightarrow> (\<exists>t rest. s = t @ rest \<and> is_word t \<and> stops is_identifier_continue rest \<and>
      eq_ignore_ascii_case t k \<and> q = at lim (pre @ t) rest)"
    unfolding Ex_word by simp
  finally show "expect_keyword k (at lim pre s) = Inr (x, q) \<longleftrightarrow>
      (\<exists>t rest. s = t @ rest \<and> kw k t \<and> stops is_identifier_continue rest \<and> q = at lim (pre @ t) rest)"
    unfolding kw_def by blast
qed

lemma parse_identifier_at:
  "parse_identifier (at lim pre s) =
     (if word_prefix s = [] then Inl (UnexpectedInput (length pre) ''identifier'')
      else if length (word_prefix s) > lim
      then Inl (IdentifierTooLong (length pre) (length (word_prefix s)) lim)
      else Inr (word_prefix s, at lim (pre @ word_prefix s) (word_rest s)))"
proof (cases s)
  case (Cons c cs)
  let ?t = "c # takeWhile is_identifier_continue cs" and ?r = "dropWhile is_identifier_continue cs"
  have "advance_while is_identifier_continue (advance (Suc 0) (at lim pre s)) = at lim (pre @ ?t) ?r"
    unfolding Cons by simp
  moreover have "word_rest s = ?r" if "is_identifier_start c"
    using that Cons by (simp add: word_rest_def word_prefix_def stops_def dropWhile_eq_drop)
  moreover have "slice_from (length pre) (at lim (pre @ ?t) ?r) = ?t" by (rule slice_from_at)
  ultimately show ?thesis
    using Cons by (simp add: parse_identifier_def Let_def word_prefix_def unexpected_def) (simp add: stops_def)
qed (simp add: parse_identifier_def word_prefix_def unexpected_def Let_def stops_def)

interpretation ident_token: munch_token parse_identifier lim "name lim" is_identifier_continue for lim
proof
  fix pre s x q
  have "parse_identifier (at lim pre s) = Inr (x, q) \<longleftrightarrow>
      word_prefix s \<noteq> [] \<and> x = word_prefix s \<and> length (word_prefix s) \<le> lim \<and>
      q = at lim (pre @ word_prefix s) (word_rest s)"
    unfolding parse_identifier_at by auto
  also have "\<dots> \<longleftrightarrow> (\<exists>t rest. s = t @ rest \<and> is_word t \<and> stops is_identifier_continue rest \<and>
      x = t \<and> length t \<le> lim \<and> q = at lim (pre @ t) rest)"
    unfolding Ex_word by simp
  finally show "parse_identifier (at lim pre s) = Inr (x, q) \<longleftrightarrow>
      (\<exists>t rest. s = t @ rest \<and> name lim x t \<and> stops is_identifier_continue rest \<and>
         q = at lim (pre @ t) rest)"
    unfolding name_def by blast
qed

interpretation one_byte: munch_token "expect_byte b e" lim "\<lambda>_. byte b" "\<lambda>_. False" for b e lim
proof
  show "expect_byte b e (at lim pre s) = Inr (x, q) \<longleftrightarrow>
      (\<exists>t rest. s = t @ rest \<and> byte b t \<and> stops (\<lambda>_. False) rest \<and> q = at lim (pre @ t) rest)"
    for pre s x q
    by (cases s) (auto simp: expect_byte_def byte_def)
qed

section \<open>Literals and operators\<close>

lemma digits_split:
  "i64_from_str t = Some v \<Longrightarrow> \<exists>sg ds. t = sg @ ds \<and> (sg = [] \<or> sg = ''+'' \<or> sg = ''-'') \<and>
     ds \<noteq> [] \<and> list_all is_ascii_digit ds"
  by (cases t)
    (auto simp: i64_from_str_def digits_value_def split: if_splits
      intro: exI [of _ "''+''"] exI [of _ "''-''"] exI [of _ "[]"])

lemma digit_not_sign: "is_ascii_digit c \<Longrightarrow> c \<noteq> CHR ''+'' \<and> c \<noteq> CHR ''-''"
  by (auto simp: is_ascii_digit_def)

definition sign_prefix :: "string \<Rightarrow> string" where
  "sign_prefix s = (if s \<noteq> [] \<and> (hd s = CHR ''+'' \<or> hd s = CHR ''-'') then [hd s] else [])"

definition unsigned_part :: "string \<Rightarrow> string" where
  "unsigned_part s = drop (length (sign_prefix s)) s"

lemma sign_split: "sign_prefix s @ unsigned_part s = s"
  by (cases s) (auto simp: sign_prefix_def unsigned_part_def)

lemma scan_sign_at: "scan_sign (at lim pre s) = at lim (pre @ sign_prefix s) (unsigned_part s)"
  by (cases s) (auto simp: scan_sign_def sign_prefix_def unsigned_part_def)

text \<open>The text an integer literal method reads: a sign and the digits after it.\<close>

definition literal_prefix :: "string \<Rightarrow> string" where
  "literal_prefix s = sign_prefix s @ takeWhile is_ascii_digit (unsigned_part s)"

definition literal_rest :: "string \<Rightarrow> string" where
  "literal_rest s = dropWhile is_ascii_digit (unsigned_part s)"

lemma literal_split: "literal_prefix s @ literal_rest s = s"
  by (simp add: literal_prefix_def literal_rest_def sign_split)

lemma literal_prefix_append:
  assumes "i64_from_str t = Some v" and "stops is_ascii_digit r"
  shows "literal_prefix (t @ r) = t" and "literal_rest (t @ r) = r"
    and "takeWhile is_ascii_digit (unsigned_part (t @ r)) \<noteq> []"
proof -
  obtain sg ds where t: "t = sg @ ds" "sg = [] \<or> sg = ''+'' \<or> sg = ''-''" "ds \<noteq> []"
    "list_all is_ascii_digit ds" using digits_split [OF assms(1)] by blast
  have "hd ds \<noteq> CHR ''+'' \<and> hd ds \<noteq> CHR ''-''"
    using t(3,4) digit_not_sign by (cases ds) auto
  then have s: "sign_prefix (sg @ ds @ r) = sg" "unsigned_part (sg @ ds @ r) = ds @ r"
    using t by (auto simp: sign_prefix_def unsigned_part_def)
  show "literal_prefix (t @ r) = t" "literal_rest (t @ r) = r"
    "takeWhile is_ascii_digit (unsigned_part (t @ r)) \<noteq> []"
    using munch_append [OF t(4) assms(2)] t(1,3) by (simp_all add: literal_prefix_def literal_rest_def s)
qed

lemma ends_literal_stops_digit: "stops (\<lambda>b. \<not> ends_literal b) r \<Longrightarrow> stops is_ascii_digit r"
  by (auto simp: stops_def ends_literal_def ascii_defs)

lemma literal_prefix_parse:
  "i64_from_str (literal_prefix s) = Some v \<Longrightarrow> takeWhile is_ascii_digit (unsigned_part s) \<noteq> []"
  using literal_prefix_append(3) [of "literal_prefix s" v "literal_rest s"]
    munch_split(3) [of is_ascii_digit "unsigned_part s"]
  by (simp add: literal_split) (simp add: literal_rest_def)

lemma parse_where_int64_at:
  "parse_where_int64 (at lim pre s) = Inr (v, q) \<longleftrightarrow>
     i64_from_str (literal_prefix s) = Some v \<and> stops (\<lambda>b. \<not> ends_literal b) (literal_rest s) \<and>
     q = at lim (pre @ literal_prefix s) (literal_rest s)"
proof -
  have "slice_from (length pre) (at lim (pre @ literal_prefix s) (literal_rest s)) = literal_prefix s"
    by (rule slice_from_at)
  then show ?thesis
    using literal_prefix_parse [of s v]
    by (auto simp: parse_where_int64_def Let_def scan_sign_at literal_prefix_def literal_rest_def
        split: option.splits if_splits)
qed

interpretation where_int64: munch_token parse_where_int64 lim int_lit "\<lambda>b. \<not> ends_literal b" for lim
proof
  fix pre s v q
  show "parse_where_int64 (at lim pre s) = Inr (v, q) \<longleftrightarrow>
      (\<exists>t rest. s = t @ rest \<and> int_lit v t \<and> stops (\<lambda>b. \<not> ends_literal b) rest \<and>
         q = at lim (pre @ t) rest)" (is "?l \<longleftrightarrow> ?r")
  proof
    assume ?l
    then show ?r
      using literal_split [of s] unfolding parse_where_int64_at int_lit_def by metis
  next
    assume ?r
    then show ?l
      using literal_prefix_append [OF _ ends_literal_stops_digit]
      unfolding parse_where_int64_at int_lit_def by auto
  qed
qed

interpretation limit_token: munch_token parse_limit lim limit_lit "\<lambda>b. \<not> ends_literal b" for lim
proof
  fix pre s n q
  let ?f = "\<lambda>b. \<not> ends_literal b"
  let ?t = "takeWhile ?f s" and ?d = "dropWhile ?f s"
  have slice: "slice_from (length pre) (at lim (pre @ ?t) ?d) = ?t"
    by (rule slice_from_at)
  have dec: "usize_from_str t = Some n \<longleftrightarrow> limit_lit n t" if "list_all is_ascii_digit t" "t \<noteq> []" for t
  proof (cases t)
    case (Cons c cs)
    then have "c \<noteq> CHR ''+''" using that digit_not_sign by auto
    with Cons show ?thesis
      by (auto simp: usize_from_str_def limit_lit_def split: bind_splits if_splits)
  qed (use that in simp)
  have digits: "list_all is_ascii_digit t \<and> t \<noteq> [] \<and> list_all ?f t" if "limit_lit n t" for t
    using that
    by (auto simp: limit_lit_def digits_value_def list_all_iff ends_literal_def ascii_defs split: if_splits)
  have "parse_limit (at lim pre s) = Inr (n, q) \<longleftrightarrow> limit_lit n ?t \<and> q = at lim (pre @ ?t) ?d"
    using dec [of ?t] digits [of ?t] slice
    by (auto simp: parse_limit_def Let_def split: option.splits if_splits)
  also have "\<dots> \<longleftrightarrow> (\<exists>t r. s = t @ r \<and> list_all ?f t \<and> stops ?f r \<and> limit_lit n t \<and> q = at lim (pre @ t) r)"
    unfolding Ex_munch by simp
  finally show "parse_limit (at lim pre s) = Inr (n, q) \<longleftrightarrow>
      (\<exists>t rest. s = t @ rest \<and> limit_lit n t \<and> stops ?f rest \<and> q = at lim (pre @ t) rest)"
    using digits by blast
qed

lemma second_at: "slice_get (pre @ s) (Suc (length pre)) = (case s of c # d # _ \<Rightarrow> Some d | _ \<Rightarrow> None)"
  by (auto simp: slice_get_def nth_append split: list.split)

lemma advance_2_at: "advance 2 (at m pre (c # d # s)) = at m (pre @ [c, d]) s"
  using advance_at [of "[c, d]"] by (simp add: numeral_2_eq_2)

lemma operator_text_iff:
  "operator_text x t \<longleftrightarrow>
     t = ''='' \<and> x = Eq \<or> t = ''!='' \<and> x = Ne \<or> t = ''<>'' \<and> x = Ne \<or> t = ''<'' \<and> x = Lt \<or>
     t = ''<='' \<and> x = Le \<or> t = ''>'' \<and> x = Gt \<or> t = ''>='' \<and> x = Ge"
  by (cases x) auto

interpretation operator_token:
  munch_token parse_comparison_operator lim operator_text is_comparison_operator_byte for lim
proof
  fix pre s x q
  show "parse_comparison_operator (at lim pre s) = Inr (x, q) \<longleftrightarrow>
      (\<exists>t rest. s = t @ rest \<and> operator_text x t \<and> stops is_comparison_operator_byte rest \<and>
         q = at lim (pre @ t) rest)" (is "?l \<longleftrightarrow> ?r")
  proof
    assume l: ?l
    then obtain c cs where s: "s = c # cs"
      by (cases s) (simp_all add: parse_comparison_operator_def Let_def)
    have one: "?r" if "x = y" "operator_text y [c]" "stops is_comparison_operator_byte cs"
        "q = at lim (pre @ [c]) cs" for y
      using that s by (intro exI [of _ "[c]"] exI [of _ cs]) simp
    have two: "?r" if "cs = d # ds" "x = y" "operator_text y [c, d]"
        "stops is_comparison_operator_byte ds" "q = at lim (pre @ [c, d]) ds" for y d ds
      using that s by (intro exI [of _ "[c, d]"] exI [of _ ds]) simp
    note run = l [unfolded s parse_comparison_operator_def Let_def second_at at_simps peek_at]
    consider (eq) "c = CHR ''=''" | (ne) "c = CHR ''!''" | (lt) "c = CHR ''<''" | (gt) "c = CHR ''>''"
      | (other) "c \<notin> set ''=!<>''" by auto
    then show ?r
    proof cases
      case eq
      with run show ?thesis by (intro one [of Eq]) (simp_all add: second_at split: if_splits)
    next
      case ne
      with run obtain ds where "cs = CHR ''='' # ds"
        by (cases cs) (simp_all add: second_at split: if_splits)
      with run ne show ?thesis
        by (intro two [of "CHR ''=''" ds Ne]) (simp_all add: second_at advance_2_at split: if_splits)
    next
      case lt
      consider (nil) "cs = []" | (gt) ds where "cs = CHR ''>'' # ds" | (le) ds where "cs = CHR ''='' # ds"
        | (lt) d ds where "cs = d # ds" "d \<noteq> CHR ''>''" "d \<noteq> CHR ''=''" by (cases cs) auto
      then show ?thesis
      proof cases
        case nil
        with run lt show ?thesis by (intro one [of Lt]) (simp_all add: second_at split: if_splits)
      next
        case (gt ds)
        with run lt show ?thesis
          by (intro two [of "CHR ''>''" ds Ne]) (simp_all add: second_at advance_2_at split: if_splits)
      next
        case (le ds)
        with run lt show ?thesis
          by (intro two [of "CHR ''=''" ds Le]) (simp_all add: second_at advance_2_at split: if_splits)
      next
        case (lt d ds)
        with run \<open>c = CHR ''<''\<close> show ?thesis by (intro one [of Lt]) (simp_all add: second_at split: if_splits)
      qed
    next
      case gt
      consider (nil) "cs = []" | (ge) ds where "cs = CHR ''='' # ds"
        | (gt) d ds where "cs = d # ds" "d \<noteq> CHR ''=''" by (cases cs) auto
      then show ?thesis
      proof cases
        case nil
        with run gt show ?thesis by (intro one [of Gt]) (simp_all add: second_at split: if_splits)
      next
        case (ge ds)
        with run gt show ?thesis
          by (intro two [of "CHR ''=''" ds Ge]) (simp_all add: second_at advance_2_at split: if_splits)
      next
        case (gt d ds)
        with run \<open>c = CHR ''>''\<close> show ?thesis by (intro one [of Gt]) (simp_all add: second_at split: if_splits)
      qed
    next
      case other
      with run show ?thesis by (simp add: second_at)
    qed
  next
    assume ?r
    then obtain t rest where r: "s = t @ rest" "operator_text x t"
      "stops is_comparison_operator_byte rest" "q = at lim (pre @ t) rest" by blast
    have next_byte: "c \<noteq> CHR ''=''" "c \<noteq> CHR ''>''" if "rest = c # cs" for c cs
      using r(3) that by (auto simp: stops_def is_comparison_operator_byte_def)
    have "parse_comparison_operator (at lim pre (t @ rest)) = Inr (x, at lim (pre @ t) rest)"
      using r(2) unfolding operator_text_iff
      by (elim disjE conjE; cases rest; insert r(3))
        (simp_all add: parse_comparison_operator_def Let_def second_at advance_2_at next_byte)
    with r show ?l by simp
  qed
qed

end
