(* ===== verification/Sql_Grammar.thy ===== *)
theory Sql_Grammar
  imports Sql_Language
begin

text \<open>
  The grammars of the statements of \<^verbatim>\<open>src/parser.rs\<close>, and the proof that each statement parser
  accepts exactly its grammar within the statement bound, with the tree the grammar names. The
  statement parsers are brought into a normal form of sequenced tokens and tests; each step of it has
  a \<open>recog\<close> rule, and the optional clauses of \<open>SELECT\<close> share the locale \<open>clause\<close>.
\<close>

section \<open>What a language starts with\<close>

named_theorems avoid_rules
named_theorems step_nf

definition excludes :: "lang \<Rightarrow> lang \<Rightarrow> bool" where
  "excludes C K \<longleftrightarrow> (\<forall>s. K s \<longrightarrow> \<not> C s)"

abbreviation "avoids_ws \<equiv> avoids is_ascii_whitespace"
abbreviation "avoids_word \<equiv> avoids is_identifier_continue"
abbreviation "avoids_literal \<equiv> avoids (\<lambda>b. \<not> ends_literal b)"
abbreviation "avoids_op \<equiv> avoids is_comparison_operator_byte"

definition next_is :: "char \<Rightarrow> lang" where
  "next_is b s \<longleftrightarrow> s \<noteq> [] \<and> hd s = b"

lemma avoids_ex [avoid_rules]: "(\<And>x. avoids f (K x)) \<Longrightarrow> avoids f (\<lambda>s. \<exists>x. K x s)"
  by (auto simp: avoids_def)

lemma avoids_or [avoid_rules]: "avoids f A \<Longrightarrow> avoids f B \<Longrightarrow> avoids f (\<lambda>s. A s \<or> B s)"
  by (auto simp: avoids_def)

lemma avoids_and [avoid_rules]: "(c \<Longrightarrow> avoids f A) \<Longrightarrow> avoids f (\<lambda>s. c \<and> A s)"
  by (auto simp: avoids_def)

lemma avoids_False [avoid_rules]: "avoids f (\<lambda>s. False)"
  by (auto simp: avoids_def)

lemma avoids_eof [avoid_rules]: "avoids f eof"
  by (auto simp: avoids_def eof_def stops_def)

lemma avoids_unless [avoid_rules]: "avoids g K \<Longrightarrow> avoids g (unless f K)" "avoids f (unless f K)"
  by (auto simp: avoids_def unless_def)

lemma avoids_cat_nonempty:
  assumes "\<And>s. A s \<Longrightarrow> s \<noteq> [] \<and> \<not> f (hd s)"
  shows "avoids f (cat A K)"
  using assms by (fastforce simp: avoids_def cat_def stops_def)

lemma avoids_byte [avoid_rules]: "\<not> f b \<Longrightarrow> avoids f (cat (byte b) K)"
  by (rule avoids_cat_nonempty) (simp add: byte_def)

lemma word_hd: "is_word s \<Longrightarrow> s \<noteq> [] \<and> is_identifier_start (hd s)"
  by (auto elim: is_wordE)

lemma avoids_word_tokens [avoid_rules]:
  "avoids_ws (cat (kw k) K)" "avoids_ws (cat (name m n) K)"
  by (rule avoids_cat_nonempty; use word_hd not_whitespace(1) in \<open>force simp: kw_def name_def\<close>)+

lemma avoids_cat_ws:
  assumes "\<And>c. is_ascii_whitespace c \<Longrightarrow> \<not> f c" and "avoids f K"
  shows "avoids f (cat ws K)"
  unfolding avoids_def cat_def
proof (intro allI impI, elim exE conjE)
  fix s t u assume "s = t @ u" "ws t" "K u"
  with assms show "stops f s" by (cases t) (auto simp: avoids_def stops_def ws_def)
qed

lemma avoids_ws_cat [avoid_rules]:
  "avoids_word K \<Longrightarrow> avoids_word (cat ws K)" "avoids_literal K \<Longrightarrow> avoids_literal (cat ws K)"
  "avoids_op K \<Longrightarrow> avoids_op (cat ws K)"
  by (rule avoids_cat_ws; use whitespace_class in auto)+

lemma avoids_ws1 [avoid_rules]: "avoids_word (cat ws1 K)" "avoids_literal (cat ws1 K)"
  by (rule avoids_cat_nonempty; use whitespace_class in \<open>force simp: ws1_def ws_def list_all_iff\<close>)+

lemma int_lit_hd:
  assumes "int_lit v s"
  shows "s \<noteq> [] \<and> (is_ascii_digit (hd s) \<or> hd s = CHR ''+'' \<or> hd s = CHR ''-'')"
proof -
  from assms obtain sg ds where "s = sg @ ds" "sg = [] \<or> sg = ''+'' \<or> sg = ''-''" "ds \<noteq> []"
    "list_all is_ascii_digit ds" using digits_split unfolding int_lit_def by blast
  then show ?thesis by (cases ds) auto
qed

lemma limit_lit_hd: "limit_lit n s \<Longrightarrow> s \<noteq> [] \<and> is_ascii_digit (hd s)"
  by (cases s) (auto simp: limit_lit_def digits_value_def split: if_splits)

lemma operator_hd: "operator_text x s \<Longrightarrow> s \<noteq> [] \<and> is_comparison_operator_byte (hd s)"
  by (auto simp: operator_text_iff is_comparison_operator_byte_def)

lemma number_byte_class:
  "is_ascii_digit c \<or> c = CHR ''+'' \<or> c = CHR ''-'' \<Longrightarrow>
     \<not> is_ascii_whitespace c \<and> \<not> is_comparison_operator_byte c"
  by (auto simp: is_comparison_operator_byte_def ascii_defs)

lemma operator_byte_class:
  "is_comparison_operator_byte c \<Longrightarrow>
     \<not> is_ascii_whitespace c \<and> \<not> is_identifier_continue c \<and> \<not> is_identifier_start c"
  by (auto simp: is_comparison_operator_byte_def is_identifier_continue_def is_identifier_start_def
      ascii_defs)

lemma avoids_literals [avoid_rules]:
  "avoids_ws (cat (int_lit v) K)" "avoids_op (cat (int_lit v) K)" "avoids_ws (cat (limit_lit n) K)"
  "avoids_ws (cat (operator_text x) K)" "avoids_word (cat (operator_text x) K)"
  by (rule avoids_cat_nonempty;
      use int_lit_hd limit_lit_hd operator_hd number_byte_class operator_byte_class in blast)+

text \<open>The keyword a text starts with.\<close>

lemma starts_kw_cat: "cat (kw k) (unless is_identifier_continue K) s \<Longrightarrow> starts_kw k s"
  by (auto simp: starts_kw_iff cat_def unless_def)

lemma starts_kw_avoids: "cat (kw k) K s \<Longrightarrow> avoids_word K \<Longrightarrow> starts_kw k s"
  by (auto simp: starts_kw_iff cat_def avoids_def)

lemma excludes_ex [avoid_rules]: "(\<And>x. excludes C (K x)) \<Longrightarrow> excludes C (\<lambda>s. \<exists>x. K x s)"
  by (auto simp: excludes_def)

lemma excludes_or [avoid_rules]: "excludes C A \<Longrightarrow> excludes C B \<Longrightarrow> excludes C (\<lambda>s. A s \<or> B s)"
  by (auto simp: excludes_def)

lemma excludes_and [avoid_rules]: "(c \<Longrightarrow> excludes C A) \<Longrightarrow> excludes C (\<lambda>s. c \<and> A s)"
  by (auto simp: excludes_def)

lemma excludes_False [avoid_rules]: "excludes C (\<lambda>s. False)"
  by (auto simp: excludes_def)

lemma excludes_unless [avoid_rules]: "excludes C K \<Longrightarrow> excludes C (unless f K)"
  by (auto simp: excludes_def unless_def)

lemma starts_kw_start: "starts_kw k s \<Longrightarrow> s \<noteq> [] \<and> is_identifier_start (hd s)"
  by (auto simp: starts_kw_def word_prefix_def stops_def split: if_splits)

lemma excludes_kw_nonword:
  assumes "\<And>s. A s \<Longrightarrow> s \<noteq> [] \<and> \<not> is_identifier_start (hd s)"
  shows "excludes (starts_kw k) (cat A K)"
  using assms starts_kw_start by (fastforce simp: excludes_def cat_def)

lemma excludes_kw_tokens [avoid_rules]:
  "\<not> is_identifier_start b \<Longrightarrow> excludes (starts_kw k) (cat (byte b) K)"
  "excludes (starts_kw k) (cat (operator_text x) K)"
  by (rule excludes_kw_nonword; use operator_hd operator_byte_class in \<open>auto simp: byte_def\<close>)+

lemma excludes_kw_eof [avoid_rules]: "excludes (starts_kw k) eof"
  using starts_kw_start by (auto simp: excludes_def eof_def)

lemma starts_kw_unique: "starts_kw k s \<Longrightarrow> starts_kw k' s \<Longrightarrow> eq_ignore_ascii_case k' k"
  by (simp add: starts_kw_def kw_def eq_ignore_ascii_case_def)

lemma excludes_kw_kw [avoid_rules]:
  "\<not> eq_ignore_ascii_case k' k \<Longrightarrow> avoids_word K \<Longrightarrow> excludes (starts_kw k) (cat (kw k') K)"
  using starts_kw_avoids [of k' K] starts_kw_unique by (auto simp: excludes_def)

lemma excludes_next_eof [avoid_rules]: "excludes (next_is b) eof"
  by (auto simp: excludes_def eof_def next_is_def)

section \<open>The normal form of a statement parser\<close>

lemma st_then_nf [step_nf]: "st_then m k = st_bind m (\<lambda>_. k)"
  by (simp add: st_then_def)

lemma st_seq_nf [step_nf]: "st_seq [] k = k" "st_seq (m # ms) k = st_bind m (\<lambda>_. st_seq ms k)"
  by (simp_all add: st_seq_def st_then_def)

lemma st_bind_assoc [step_nf]: "st_bind (st_bind m k) h = st_bind m (\<lambda>x. st_bind (k x) h)"
proof
  fix p
  show "st_bind (st_bind m k) h p = st_bind m (\<lambda>x. st_bind (k x) h) p"
    by (cases "m p") (auto simp: st_bind_def)
qed

lemma st_bind_if [step_nf]: "st_bind (st_if c a b) k = st_if c (st_bind a k) (st_bind b k)"
  by (auto simp: st_bind_def st_if_def)

lemma st_bind_return [step_nf]: "st_bind (st_return x) k = k x"
  by (auto simp: st_bind_def st_return_def)

lemma st_bind_fail [step_nf]: "st_bind (st_fail e) k = st_fail e"
  by (auto simp: st_bind_def st_fail_def)

section \<open>Recognition rules\<close>

lemma recog_cong: "recog lim k K \<Longrightarrow> (\<And>y s. K y s \<longleftrightarrow> L y s) \<Longrightarrow> recog lim k L"
  by (simp add: recog_def)

lemma recog_end: "recog lim (at_end x) (\<lambda>y s. y = x \<and> eof s)"
  by (auto simp: recog_def at_end_def eof_def)

lemma recog_fail: "recog lim (st_fail e) (\<lambda>y s. False)"
  by (simp add: recog_def st_fail_def)

lemma recog_skip:
  "recog lim k K \<Longrightarrow> (\<And>y. avoids_ws (K y)) \<Longrightarrow>
     recog lim (st_bind skip_whitespace (\<lambda>_. k)) (\<lambda>y. cat ws (K y))"
  using skip_ws.recog_cat [of lim "\<lambda>_. k" "\<lambda>_. K"] by simp

lemma recog_space:
  "recog lim k K \<Longrightarrow> (\<And>y. avoids_ws (K y)) \<Longrightarrow>
     recog lim (st_bind (require_whitespace e) (\<lambda>_. k)) (\<lambda>y. cat ws1 (K y))"
  using require_ws.recog_cat [of lim "\<lambda>_. k" "\<lambda>_. K"] by simp

lemma recog_kw:
  "recog lim k K \<Longrightarrow> (\<And>y. avoids_word (K y)) \<Longrightarrow>
     recog lim (st_bind (expect_keyword w) (\<lambda>_. k)) (\<lambda>y. cat (kw w) (K y))"
  using keyword.recog_cat [of lim "\<lambda>_. k" "\<lambda>_. K"] by simp

lemma recog_kw_unglued:
  "recog lim k K \<Longrightarrow>
     recog lim (st_bind (expect_keyword w) (\<lambda>_. k)) (\<lambda>y. cat (kw w) (unglued (K y)))"
  using keyword.recog_unless [of lim "\<lambda>_. k" "\<lambda>_. K"] by simp

lemma recog_name:
  "(\<And>n. recog lim (k n) (K n)) \<Longrightarrow> (\<And>n y. avoids_word (K n y)) \<Longrightarrow>
     recog lim (st_bind parse_identifier k) (\<lambda>y s. \<exists>n. cat (name lim n) (K n y) s)"
  by (rule ident_token.recog_cat)

lemma recog_name_unglued:
  "(\<And>n. recog lim (k n) (K n)) \<Longrightarrow>
     recog lim (st_bind parse_identifier k) (\<lambda>y s. \<exists>n. cat (name lim n) (unglued (K n y)) s)"
  by (rule ident_token.recog_unless)

lemma recog_byte:
  "recog lim k K \<Longrightarrow> recog lim (st_bind (expect_byte b e) (\<lambda>_. k)) (\<lambda>y. cat (byte b) (K y))"
  using one_byte.recog_cat [of lim "\<lambda>_. k" "\<lambda>_. K" b e] by (simp add: avoids_def)

lemma recog_operator:
  "(\<And>n. recog lim (k n) (K n)) \<Longrightarrow> (\<And>n y. avoids_op (K n y)) \<Longrightarrow>
     recog lim (st_bind parse_comparison_operator k) (\<lambda>y s. \<exists>n. cat (operator_text n) (K n y) s)"
  by (rule operator_token.recog_cat)

lemma recog_where_int64:
  "(\<And>v. recog lim (k v) (K v)) \<Longrightarrow>
     recog lim (st_bind parse_where_int64 k) (\<lambda>y s. \<exists>v. cat (int_lit v) (literal_end (K v y)) s)"
  by (rule where_int64.recog_unless)

lemma recog_limit:
  "(\<And>v. recog lim (k v) (K v)) \<Longrightarrow>
     recog lim (st_bind parse_limit k) (\<lambda>y s. \<exists>v. cat (limit_lit v) (literal_end (K v y)) s)"
  by (rule limit_token.recog_unless)

lemma recog_if:
  assumes "\<And>pre s. c (at lim pre s) = C s" and "recog lim a KA" and "recog lim b KB"
    and "\<And>y s. KA y s \<Longrightarrow> C s" and "\<And>y. excludes C (KB y)"
  shows "recog lim (st_if c a b) (\<lambda>y s. KA y s \<or> KB y s)"
proof -
  have "(\<exists>q. st_if c a b (at lim pre s) = Inr (y, q)) \<longleftrightarrow> (if C s then KA y s else KB y s)" for pre s y
    using assms(1-3) by (auto simp: recog_def st_if_def)
  then show ?thesis using assms(4,5) by (auto simp: recog_def excludes_def)
qed

lemma recog_if_kw:
  assumes "recog lim a KA" and "recog lim b KB"
    and "\<And>y s. KA y s \<Longrightarrow> starts_kw w s" and "\<And>y. excludes (starts_kw w) (KB y)"
  shows "recog lim (st_if (keyword_at_position w) a b) (\<lambda>y s. KA y s \<or> KB y s)"
  by (rule recog_if [OF _ assms]) simp

lemma recog_if_byte:
  assumes "recog lim a KA" and "recog lim b KB" and "\<And>y. excludes (next_is c) (KB y)"
  shows "recog lim (st_if (\<lambda>p. peek p = Some c) (st_bind bump (\<lambda>_. a)) b)
    (\<lambda>y s. cat (byte c) (KA y) s \<or> KB y s)"
proof -
  have "(\<exists>q. st_if (\<lambda>p. peek p = Some c) (st_bind bump (\<lambda>_. a)) b (at lim pre s) = Inr (y, q)) \<longleftrightarrow>
      (if next_is c s then KA y (tl s) else KB y s)" for pre s y
    using assms(1,2)
    by (cases s) (auto simp: recog_def st_if_def st_bind_def bump_def next_is_def)
  moreover have "cat (byte c) (KA y) s \<longleftrightarrow> next_is c s \<and> KA y (tl s)" for y s
    by (cases s) (auto simp: cat_def byte_def next_is_def)
  ultimately show ?thesis using assms(3) by (auto simp: recog_def excludes_def)
qed

section \<open>Pulling conditions out of a language\<close>

text \<open>The equations are between languages, so that they apply under further tokens.\<close>

lemma cat_ex [simp]: "cat A (\<lambda>r. \<exists>x. P x r) = (\<lambda>s. \<exists>x. cat A (P x) s)"
  by (auto simp: cat_def fun_eq_iff)

lemma cat_and [simp]: "cat A (\<lambda>r. c \<and> P r) = (\<lambda>s. c \<and> cat A P s)"
  by (auto simp: cat_def fun_eq_iff)

lemma cat_or: "cat A (\<lambda>r. P r \<or> Q r) = (\<lambda>s. cat A P s \<or> cat A Q s)"
  by (auto simp: cat_def fun_eq_iff)

lemma unless_or: "unless f (\<lambda>r. P r \<or> Q r) = (\<lambda>s. unless f P s \<or> unless f Q s)"
  by (auto simp: unless_def fun_eq_iff)

lemma unless_ex [simp]: "unless f (\<lambda>r. \<exists>x. P x r) = (\<lambda>s. \<exists>x. unless f (P x) s)"
  by (auto simp: unless_def fun_eq_iff)

lemma unless_and [simp]: "unless f (\<lambda>r. c \<and> P r) = (\<lambda>s. c \<and> unless f P s)"
  by (auto simp: unless_def fun_eq_iff)

section \<open>The end of a statement\<close>

definition semicolon :: "lang \<Rightarrow> lang" where
  "semicolon K s \<longleftrightarrow> cat (byte CHR '';'') (cat ws K) s \<or> K s"

lemma semicolon_and [simp]: "semicolon (\<lambda>r. c \<and> P r) = (\<lambda>s. c \<and> semicolon P s)"
  by (auto simp: semicolon_def fun_eq_iff)

lemma semicolon_byte [avoid_rules]:
  "\<not> is_ascii_whitespace CHR '';''" "\<not> is_identifier_continue CHR '';''"
  "\<not> is_identifier_start CHR '';''" "ends_literal CHR '';''"
  by (simp_all add: is_identifier_continue_def is_identifier_start_def ends_literal_def ascii_defs)

lemma avoids_semicolon [avoid_rules]:
  "avoids_ws K \<Longrightarrow> avoids_ws (semicolon K)" "avoids_word K \<Longrightarrow> avoids_word (semicolon K)"
  "avoids_literal K \<Longrightarrow> avoids_literal (semicolon K)"
  unfolding semicolon_def by (simp_all add: avoid_rules semicolon_byte)

lemma excludes_semicolon [avoid_rules]:
  "excludes (starts_kw k) K \<Longrightarrow> excludes (starts_kw k) (semicolon K)"
  unfolding semicolon_def by (simp add: avoid_rules semicolon_byte)

lemma recog_semicolon:
  assumes "recog lim k K" and "\<And>y. avoids_ws (K y)" and "\<And>y. excludes (next_is CHR '';'') (K y)"
  shows "recog lim (st_bind optional_semicolon (\<lambda>_. k)) (\<lambda>y. semicolon (K y))"
  unfolding optional_semicolon_def step_nf semicolon_def
  using assms by (intro recog_if_byte recog_skip)

lemma bytes_class [avoid_rules]:
  "\<not> is_ascii_whitespace CHR ''(''" "\<not> is_ascii_whitespace CHR '')''" "\<not> is_ascii_whitespace CHR ''=''"
  "\<not> is_ascii_whitespace CHR ''*''"
  "\<not> is_identifier_continue CHR ''(''" "\<not> is_identifier_continue CHR '')''"
  "\<not> is_identifier_continue CHR ''=''" "\<not> is_identifier_continue CHR ''*''"
  "\<not> is_identifier_start CHR ''(''" "\<not> is_identifier_start CHR '')''"
  "\<not> is_identifier_start CHR ''=''" "\<not> is_identifier_start CHR ''*''"
  by (simp_all add: is_identifier_continue_def is_identifier_start_def ascii_defs)

text \<open>A statement parser, with its length check, accepts a language.\<close>

lemma run_statement_iff:
  assumes "recog (max_identifier_bytes limits) m K"
  shows "run_statement m inp limits = Inr st \<longleftrightarrow> length inp \<le> max_statement_bytes limits \<and> K st inp"
proof -
  have "parser_new inp (max_identifier_bytes limits) = at (max_identifier_bytes limits) [] inp"
    by (simp add: parser_new_def at_def)
  then have "(\<exists>q. m (parser_new inp (max_identifier_bytes limits)) = Inr (st, q)) \<longleftrightarrow> K st inp"
    using assms by (simp add: recog_def)
  then show ?thesis
    by (auto simp: run_statement_def validate_statement_length_def res_bind_Inr_iff)
qed

section \<open>Grammars of the join, minimum and distinct statements\<close>

definition select_from :: "usize \<Rightarrow> ident \<Rightarrow> ident \<Rightarrow> lang \<Rightarrow> lang" where
  "select_from m c t K =
     seq [ws, kw ''SELECT'', ws1, name m c, ws1, kw ''FROM'', ws1, name m t] K"

definition join_on :: "usize \<Rightarrow> ident \<Rightarrow> ident \<Rightarrow> ident \<Rightarrow> lang" where
  "join_on m t l r =
     seq [ws1, kw ''JOIN'', ws1, name m t, ws1, kw ''ON'', ws1, name m l, ws, byte CHR ''='', ws,
          name m r, ws] (semicolon eof)"

definition inner_join_grammar :: "usize \<Rightarrow> inner_join_statement \<Rightarrow> lang" where
  "inner_join_grammar m st =
     select_from m (ij_projected_column_name st) (ij_left_table_name st)
       (seq [ws1, kw ''INNER'']
         (join_on m (ij_right_table_name st) (ij_left_column_name st) (ij_right_column_name st)))"

definition left_join_grammar :: "usize \<Rightarrow> left_join_statement \<Rightarrow> lang" where
  "left_join_grammar m st =
     select_from m (lj_projected_column_name st) (lj_left_table_name st)
       (seq [ws1, kw ''LEFT'']
         (join_on m (lj_right_table_name st) (lj_left_column_name st) (lj_right_column_name st)))"

definition scalar_min_grammar :: "usize \<Rightarrow> scalar_min_statement \<Rightarrow> lang" where
  "scalar_min_grammar m st =
     seq [ws, kw ''SELECT'', ws1, kw ''MIN'', ws, byte CHR ''('', ws, name m (min_column_name st), ws,
          byte CHR '')'', ws1, kw ''FROM'', ws1, name m (min_table_name st), ws] (semicolon eof)"

lemma recog_inner_join: "recog m statement_inner_join (inner_join_grammar m)"
proof -
  have "recog m statement_inner_join (\<lambda>y s. \<exists>p lt rt lc rc.
      y = \<lparr>ij_projected_column_name = p, ij_left_table_name = lt, ij_right_table_name = rt,
           ij_left_column_name = lc, ij_right_column_name = rc\<rparr> \<and>
      select_from m p lt (seq [ws1, kw ''INNER''] (join_on m rt lc rc)) s)"
    unfolding statement_inner_join_def step_nf
    by (rule recog_cong,
        (rule recog_skip recog_kw recog_space recog_name recog_byte recog_semicolon recog_end
         | simp add: avoid_rules)+)
      (auto simp: select_from_def join_on_def avoid_rules)
  then show ?thesis
  proof (rule recog_cong)
    fix y :: inner_join_statement and s
    show "(\<exists>p lt rt lc rc.
      y = \<lparr>ij_projected_column_name = p, ij_left_table_name = lt, ij_right_table_name = rt,
           ij_left_column_name = lc, ij_right_column_name = rc\<rparr> \<and>
      select_from m p lt (seq [ws1, kw ''INNER''] (join_on m rt lc rc)) s) \<longleftrightarrow>
      inner_join_grammar m y s"
      by (cases y) (auto simp: inner_join_grammar_def)
  qed
qed

lemma recog_left_join: "recog m statement_left_join (left_join_grammar m)"
proof -
  have "recog m statement_left_join (\<lambda>y s. \<exists>p lt rt lc rc.
      y = \<lparr>lj_projected_column_name = p, lj_left_table_name = lt, lj_right_table_name = rt,
           lj_left_column_name = lc, lj_right_column_name = rc\<rparr> \<and>
      select_from m p lt (seq [ws1, kw ''LEFT''] (join_on m rt lc rc)) s)"
    unfolding statement_left_join_def step_nf
    by (rule recog_cong,
        (rule recog_skip recog_kw recog_space recog_name recog_byte recog_semicolon recog_end
         | simp add: avoid_rules)+)
      (auto simp: select_from_def join_on_def avoid_rules)
  then show ?thesis
  proof (rule recog_cong)
    fix y :: left_join_statement and s
    show "(\<exists>p lt rt lc rc.
      y = \<lparr>lj_projected_column_name = p, lj_left_table_name = lt, lj_right_table_name = rt,
           lj_left_column_name = lc, lj_right_column_name = rc\<rparr> \<and>
      select_from m p lt (seq [ws1, kw ''LEFT''] (join_on m rt lc rc)) s) \<longleftrightarrow> left_join_grammar m y s"
      by (cases y) (auto simp: left_join_grammar_def)
  qed
qed

lemma recog_scalar_min: "recog m statement_scalar_min (scalar_min_grammar m)"
proof -
  have "recog m statement_scalar_min (\<lambda>y s. \<exists>c t. y = \<lparr>min_column_name = c, min_table_name = t\<rparr> \<and>
      seq [ws, kw ''SELECT'', ws1, kw ''MIN'', ws, byte CHR ''('', ws, name m c, ws,
          byte CHR '')'', ws1, kw ''FROM'', ws1, name m t, ws] (semicolon eof) s)"
    unfolding statement_scalar_min_def step_nf
    by (rule recog_cong,
        (rule recog_skip recog_kw recog_space recog_name_unglued recog_byte recog_semicolon recog_end
         | simp add: avoid_rules)+)
  then show ?thesis
  proof (rule recog_cong)
    fix y :: scalar_min_statement and s
    show "(\<exists>c t. y = \<lparr>min_column_name = c, min_table_name = t\<rparr> \<and>
      seq [ws, kw ''SELECT'', ws1, kw ''MIN'', ws, byte CHR ''('', ws, name m c, ws,
          byte CHR '')'', ws1, kw ''FROM'', ws1, name m t, ws] (semicolon eof) s) \<longleftrightarrow>
      scalar_min_grammar m y s"
      by (cases y) (auto simp: scalar_min_grammar_def)
  qed
qed

section \<open>The look-ahead of \<open>SELECT FROM\<close>\<close>

text \<open>A test for a second keyword after the current word, as a condition on the text ahead.\<close>

definition next_word :: "string \<Rightarrow> lang" where
  "next_word k s \<longleftrightarrow> word_prefix s \<noteq> [] \<and>
     takeWhile is_ascii_whitespace (word_rest s) \<noteq> [] \<and>
     starts_kw k (dropWhile is_ascii_whitespace (word_rest s))"

lemma keyword_follows_at: "keyword_follows_current_word k (at lim pre s) \<longleftrightarrow> next_word k s"
proof (cases "word_prefix s = []")
  case False
  let ?w = "word_prefix s" and ?r = "word_rest s"
  let ?t = "takeWhile is_ascii_whitespace ?r" and ?d = "dropWhile is_ascii_whitespace ?r"
  have s: "pre @ s = (pre @ ?w) @ ?r" by (simp add: word_split)
  have next_start: "scan_while is_ascii_whitespace (pre @ s) (length pre + length ?w) =
      length pre + length ?w + length ?t"
    unfolding s using scan_while_at [of is_ascii_whitespace "pre @ ?w" ?r] by simp
  have "pre @ s = (pre @ ?w @ ?t) @ ?d" unfolding s by simp
  then have "word_is (pre @ s) (length pre + length ?w + length ?t) k \<longleftrightarrow> starts_kw k ?d"
    using word_is_at [of "pre @ ?w @ ?t" ?d k] by (simp add: add.assoc)
  then show ?thesis
    using False by (simp add: keyword_follows_current_word_def word_end_at next_start next_word_def Let_def)
qed (simp add: keyword_follows_current_word_def word_end_at next_word_def)

lemma next_word_cat:
  assumes "is_word n" and "ws1 w" and "starts_kw k r"
  shows "next_word k (n @ w @ r)"
proof -
  have stop: "stops is_identifier_continue (w @ r)"
    using assms(2) whitespace_class by (cases w) (auto simp: ws1_def ws_def stops_def)
  have n: "word_prefix (n @ w @ r) = n" by (rule word_prefix_split [OF assms(1) stop])
  then have rest: "word_rest (n @ w @ r) = w @ r" by (simp add: word_rest_def)
  have "stops is_ascii_whitespace r"
    using starts_kw_start [OF assms(3)] not_whitespace(1) by (auto simp: stops_def)
  moreover have "list_all is_ascii_whitespace w" using assms(2) by (simp add: ws1_def ws_def)
  ultimately have "takeWhile is_ascii_whitespace (w @ r) = w" "dropWhile is_ascii_whitespace (w @ r) = r"
    by (rule munch_append [rotated])+
  with assms n rest show ?thesis
    by (auto simp: next_word_def ws1_def is_word_def)
qed

lemma recog_guard:
  assumes "recog lim k K"
    and "\<And>y s. K y s \<Longrightarrow> \<exists>n w r. s = n @ w @ r \<and> is_word n \<and> ws1 w \<and> starts_kw f r"
  shows "recog lim (st_if (\<lambda>p. keyword_at_position w p \<and> \<not> keyword_follows_current_word f p) (st_fail e) k) K"
proof -
  have "next_word f s" if "K y s" for y s
    using assms(2) [OF that] next_word_cat by blast
  then show ?thesis
    using assms(1) by (auto simp: recog_def st_if_def st_fail_def keyword_follows_at)
qed

lemma name_then_keyword:
  "cat (name m n) (cat ws1 (cat (kw f) (cat ws1 K))) s \<Longrightarrow>
     \<exists>n w r. s = n @ w @ r \<and> is_word n \<and> ws1 w \<and> starts_kw f r"
proof -
  assume "cat (name m n) (cat ws1 (cat (kw f) (cat ws1 K))) s"
  then obtain n' w r where "s = n' @ w @ r" "name m n n'" "ws1 w" "cat (kw f) (cat ws1 K) r"
    unfolding cat_def [of "name m n"] cat_def [of ws1 "cat (kw f) (cat ws1 K)"] by blast
  moreover from this(4) have "starts_kw f r" by (rule starts_kw_avoids) (simp add: avoid_rules)
  ultimately show ?thesis by (auto simp: name_def)
qed

definition select_distinct_grammar :: "usize \<Rightarrow> select_distinct_statement \<Rightarrow> lang" where
  "select_distinct_grammar m st =
     seq [ws, kw ''SELECT'', ws1, kw ''DISTINCT'', ws1, name m (distinct_column_name st), ws1,
          kw ''FROM'', ws1, name m (distinct_table_name st), ws] (semicolon eof)"

lemma recog_select_distinct: "recog m statement_select_distinct (select_distinct_grammar m)"
proof -
  have "recog m statement_select_distinct (\<lambda>y s. \<exists>c t.
      y = \<lparr>distinct_column_name = c, distinct_table_name = t\<rparr> \<and>
      seq [ws, kw ''SELECT'', ws1, kw ''DISTINCT'', ws1, name m c, ws1, kw ''FROM'', ws1, name m t, ws]
        (semicolon eof) s)"
    unfolding statement_select_distinct_def step_nf
    by (rule recog_cong,
        (rule recog_skip recog_kw recog_space recog_guard recog_name recog_byte recog_semicolon recog_end
         | simp add: avoid_rules | (elim exE conjE, erule name_then_keyword))+)
  then show ?thesis
  proof (rule recog_cong)
    fix y :: select_distinct_statement and s
    show "(\<exists>c t. y = \<lparr>distinct_column_name = c, distinct_table_name = t\<rparr> \<and>
      seq [ws, kw ''SELECT'', ws1, kw ''DISTINCT'', ws1, name m c, ws1, kw ''FROM'', ws1, name m t, ws]
        (semicolon eof) s) \<longleftrightarrow> select_distinct_grammar m y s"
      by (cases y) (auto simp: select_distinct_grammar_def)
  qed
qed

section \<open>Comparison predicates, and the sum and count statements\<close>

definition comparison_clause :: "usize \<Rightarrow> comparison_predicate \<Rightarrow> lang \<Rightarrow> lang" where
  "comparison_clause m p K =
     seq [kw ''WHERE'', ws1, name m (cp_column_name p), ws, operator_text (cp_operator p), ws,
          int_lit (cp_value p)] (literal_end (cat ws K))"

definition opt :: "('a \<Rightarrow> lang \<Rightarrow> lang) \<Rightarrow> 'a option \<Rightarrow> lang \<Rightarrow> lang" where
  "opt C x K = (case x of None \<Rightarrow> K | Some v \<Rightarrow> C v K)"

lemma recog_optional_comparison:
  assumes "\<And>x. recog m (k x) (K x)" and "\<And>x y. avoids_ws (K x y)"
    and "\<And>y. excludes (starts_kw ''WHERE'') (K None y)"
  shows "recog m (st_bind parse_optional_comparison_predicate k)
    (\<lambda>y s. \<exists>p. opt (comparison_clause m) p (K p y) s)"
proof -
  have if_not: "st_if (\<lambda>p. \<not> c p) a b = st_if c b a" for c and a b :: "'b step"
    by (auto simp: st_if_def)
  have "recog m (st_bind parse_optional_comparison_predicate k) (\<lambda>y s.
      (\<exists>n x v. comparison_clause m \<lparr>cp_column_name = n, cp_operator = x, cp_value = v\<rparr>
         (K (Some \<lparr>cp_column_name = n, cp_operator = x, cp_value = v\<rparr>) y) s) \<or> K None y s)"
    unfolding parse_optional_comparison_predicate_def step_nf if_not
    by (rule recog_cong,
        (rule recog_if_kw recog_skip recog_kw recog_space recog_name recog_operator recog_where_int64 assms
         | simp add: avoid_rules assms | erule starts_kw_avoids | (elim exE conjE, erule starts_kw_avoids))+)
      (simp add: comparison_clause_def avoid_rules)
  then show ?thesis
  proof (rule recog_cong)
    fix y s
    show "(\<exists>n x v. comparison_clause m \<lparr>cp_column_name = n, cp_operator = x, cp_value = v\<rparr>
         (K (Some \<lparr>cp_column_name = n, cp_operator = x, cp_value = v\<rparr>) y) s) \<or> K None y s \<longleftrightarrow>
      (\<exists>p. opt (comparison_clause m) p (K p y) s)" (is "?l \<longleftrightarrow> ?r")
    proof
      assume ?r
      then obtain p where p: "opt (comparison_clause m) p (K p y) s" by blast
      show ?l
      proof (cases p)
        case (Some c)
        with p show ?thesis by (cases c) (auto simp: opt_def)
      qed (use p in \<open>simp add: opt_def\<close>)
    next
      assume ?l
      then show ?r unfolding opt_def by (metis option.case)
    qed
  qed
qed

lemma opt_ex [simp]:
  "opt (comparison_clause m) p (\<lambda>r. c \<and> P r) = (\<lambda>s. c \<and> opt (comparison_clause m) p P s)"
  by (auto simp: opt_def comparison_clause_def fun_eq_iff split: option.split)

lemma avoids_opt_comparison [avoid_rules]:
  "avoids_ws K \<Longrightarrow> avoids_ws (opt (comparison_clause m) p K)"
  by (cases p) (simp_all add: opt_def comparison_clause_def avoid_rules)

definition scalar_sum_grammar :: "usize \<Rightarrow> scalar_sum_statement \<Rightarrow> lang" where
  "scalar_sum_grammar m st =
     seq [ws, kw ''SELECT'', ws1, kw ''SUM'', ws, byte CHR ''('', ws, name m (sum_column_name st), ws,
          byte CHR '')'', ws1, kw ''FROM'', ws1, name m (sum_table_name st)]
       (unglued (cat ws (opt (comparison_clause m) (sum_predicate st) (semicolon eof))))"

definition count_argument_text :: "usize \<Rightarrow> scalar_count_argument \<Rightarrow> lang" where
  "count_argument_text m a = (case a of Star \<Rightarrow> byte CHR ''*'' | Column c \<Rightarrow> name m c)"

definition scalar_count_grammar :: "usize \<Rightarrow> scalar_count_statement \<Rightarrow> lang" where
  "scalar_count_grammar m st =
     seq [ws, kw ''SELECT'', ws1, kw ''COUNT'', ws, byte CHR ''('', ws,
          count_argument_text m (count_argument st), ws, byte CHR '')'', ws1, kw ''FROM'', ws1,
          name m (count_table_name st)]
       (unglued (cat ws (opt (comparison_clause m) (count_predicate st) (semicolon eof))))"

lemma recog_scalar_sum: "recog m statement_scalar_sum (scalar_sum_grammar m)"
proof -
  have "recog m statement_scalar_sum (\<lambda>y s. \<exists>c t p.
      y = \<lparr>sum_column_name = c, sum_table_name = t, sum_predicate = p\<rparr> \<and>
      seq [ws, kw ''SELECT'', ws1, kw ''SUM'', ws, byte CHR ''('', ws, name m c, ws,
          byte CHR '')'', ws1, kw ''FROM'', ws1, name m t]
        (unglued (cat ws (opt (comparison_clause m) p (semicolon eof)))) s)"
    unfolding statement_scalar_sum_def step_nf
    by (rule recog_cong,
        (rule recog_skip recog_kw recog_space recog_name_unglued recog_byte recog_semicolon
           recog_optional_comparison recog_end
         | simp add: avoid_rules)+)
  then show ?thesis
  proof (rule recog_cong)
    fix y :: scalar_sum_statement and s
    show "(\<exists>c t p. y = \<lparr>sum_column_name = c, sum_table_name = t, sum_predicate = p\<rparr> \<and>
      seq [ws, kw ''SELECT'', ws1, kw ''SUM'', ws, byte CHR ''('', ws, name m c, ws,
          byte CHR '')'', ws1, kw ''FROM'', ws1, name m t]
        (unglued (cat ws (opt (comparison_clause m) p (semicolon eof)))) s) \<longleftrightarrow> scalar_sum_grammar m y s"
      by (cases y) (auto simp: scalar_sum_grammar_def)
  qed
qed

lemma excludes_star_name [avoid_rules]: "excludes (next_is CHR ''*'') (cat (name m n) K)"
proof -
  have "\<not> next_is CHR ''*'' (t @ u)" if "name m n t" for t u
    using that word_hd [of t] bytes_class by (auto simp: name_def next_is_def)
  then show ?thesis by (auto simp: excludes_def cat_def)
qed

lemma recog_scalar_count: "recog m statement_scalar_count (scalar_count_grammar m)"
proof -
  let ?tail = "\<lambda>t p. seq [ws, byte CHR '')'', ws1, kw ''FROM'', ws1, name m t]
        (unglued (cat ws (opt (comparison_clause m) p (semicolon eof))))"
  have "recog m statement_scalar_count (\<lambda>y s. \<exists>t p.
      seq [ws, kw ''SELECT'', ws1, kw ''COUNT'', ws, byte CHR ''('', ws]
        (\<lambda>s. (y = \<lparr>count_argument = Star, count_table_name = t, count_predicate = p\<rparr> \<and>
               cat (byte CHR ''*'') (?tail t p) s) \<or>
             (\<exists>c. y = \<lparr>count_argument = Column c, count_table_name = t, count_predicate = p\<rparr> \<and>
               cat (name m c) (?tail t p) s)) s)"
    unfolding statement_scalar_count_def step_nf
    by (rule recog_cong,
        (rule recog_skip recog_kw recog_space recog_name_unglued recog_byte recog_semicolon
           recog_if_byte recog_optional_comparison recog_end
         | simp add: avoid_rules)+)
      (auto simp: cat_or)
  then show ?thesis
  proof (rule recog_cong)
    fix y :: scalar_count_statement and s
    show "(\<exists>t p. seq [ws, kw ''SELECT'', ws1, kw ''COUNT'', ws, byte CHR ''('', ws]
        (\<lambda>s. (y = \<lparr>count_argument = Star, count_table_name = t, count_predicate = p\<rparr> \<and>
               cat (byte CHR ''*'') (?tail t p) s) \<or>
             (\<exists>c. y = \<lparr>count_argument = Column c, count_table_name = t, count_predicate = p\<rparr> \<and>
               cat (name m c) (?tail t p) s)) s) \<longleftrightarrow> scalar_count_grammar m y s"
    proof (cases y)
      case (fields a t p)
      then show ?thesis by (cases a) (auto simp: scalar_count_grammar_def count_argument_text_def)
    qed
  qed
qed

section \<open>The clauses of \<open>SELECT\<close>\<close>

definition nullness_words :: "null_predicate \<Rightarrow> lang list" where
  "nullness_words p =
     (case p of IsNull \<Rightarrow> [kw ''NULL''] | IsNotNull \<Rightarrow> [kw ''NOT'', ws1, kw ''NULL''])"

definition where_clause :: "usize \<Rightarrow> select_predicate \<Rightarrow> lang \<Rightarrow> lang" where
  "where_clause m p K =
     (case p of
        Comparison c \<Rightarrow> comparison_clause m c K
      | Nullness n \<Rightarrow>
          seq ([kw ''WHERE'', ws1, name m (np_column_name n), ws1, kw ''IS'', ws1] @
               nullness_words (np_predicate n)) (unglued (cat ws K)))"

definition direction_word :: "order_direction \<Rightarrow> lang" where
  "direction_word d = (case d of Asc \<Rightarrow> kw ''ASC'' | Desc \<Rightarrow> kw ''DESC'')"

definition null_order_word :: "null_order \<Rightarrow> lang" where
  "null_order_word n = (case n of NullsFirst \<Rightarrow> kw ''FIRST'' | NullsLast \<Rightarrow> kw ''LAST'')"

definition order_clause :: "usize \<Rightarrow> order_by_clause \<Rightarrow> lang \<Rightarrow> lang" where
  "order_clause m b K =
     seq [kw ''ORDER'', ws1, kw ''BY'', ws1, name m (ob_column_name b), ws1,
          direction_word (ob_direction b), ws1, kw ''NULLS'', ws1, null_order_word (ob_null_order b)]
       (unglued (cat ws K))"

definition limit_clause :: "usize \<Rightarrow> lang \<Rightarrow> lang" where
  "limit_clause n K = seq [kw ''LIMIT'', ws1, limit_lit n] (literal_end (cat ws K))"

text \<open>The contract of an optional clause: its parser accepts it and the space after it, and its text
  starts with its keyword.\<close>

locale clause =
  fixes m :: "'a step" and lim :: usize and C :: "'a \<Rightarrow> lang \<Rightarrow> lang" and w :: string
    and witness :: "'b itself"
  assumes clause_recog: "(\<And>x. recog lim (k x) (K x)) \<Longrightarrow> (\<And>x y. avoids_ws (K x y)) \<Longrightarrow>
      recog lim (st_bind m k) (\<lambda>(y :: 'b) s. \<exists>x. C x (K x y) s)"
    and clause_starts: "C x A s \<Longrightarrow> starts_kw w s"
    and clause_avoids: "avoids_ws (C x A)"
begin

lemma recog_optional:
  assumes "\<And>x. recog lim (k x) (K x)" and "\<And>x y. avoids_ws (K x y)"
    and "\<And>y. excludes (starts_kw w) (K None y)"
  shows "recog lim (st_bind (optional_clause w m) k) (\<lambda>(y :: 'b) s. \<exists>x. opt C x (K x y) s)"
proof -
  have "recog lim (st_bind (optional_clause w m) k)
      (\<lambda>(y :: 'b) s. (\<exists>x. C x (K (Some x) y) s) \<or> K None y s)"
    unfolding optional_clause_def step_nf
    by (rule recog_if_kw clause_recog assms)+ (use clause_starts assms in auto)
  then show ?thesis
  proof (rule recog_cong)
    fix y s
    have "(\<exists>x. opt C x (K x y) s) \<longleftrightarrow> opt C None (K None y) s \<or> (\<exists>v. opt C (Some v) (K (Some v) y) s)"
      using not_None_eq by (metis option.exhaust)
    then show "(\<exists>x. C x (K (Some x) y) s) \<or> K None y s \<longleftrightarrow> (\<exists>x. opt C x (K x y) s)"
      by (auto simp: opt_def)
  qed
qed

lemma avoids_optional: "avoids_ws K \<Longrightarrow> avoids_ws (opt C x K)"
  by (cases x) (simp_all add: opt_def clause_avoids)

end

lemma unglued_ws_kw: "unglued (cat ws (cat (kw k) K)) = cat ws1 (cat (kw k) K)"
proof -
  have "unglued (cat ws (cat (kw k) K)) s = cat ws1 (cat (kw k) K) s" for s
  proof -
    have "stops is_identifier_continue (t @ u) \<longleftrightarrow> t \<noteq> []" if "ws t" "cat (kw k) K u" for t u
    proof (cases t)
      case Nil
      from that(2) have "u \<noteq> [] \<and> is_identifier_continue (hd u)"
        using word_hd start_continue by (auto simp: cat_def kw_def)
      with Nil show ?thesis by (simp add: stops_def)
    next
      case (Cons c cs)
      with that(1) whitespace_class show ?thesis by (auto simp: stops_def ws_def)
    qed
    then show ?thesis
      unfolding unless_def cat_def [of ws] cat_def [of ws1] ws1_def by blast
  qed
  then show ?thesis by (simp add: fun_eq_iff)
qed

lemma kw_distinct [avoid_rules]:
  "\<not> eq_ignore_ascii_case ''ORDER'' ''WHERE''" "\<not> eq_ignore_ascii_case ''LIMIT'' ''WHERE''"
  "\<not> eq_ignore_ascii_case ''LIMIT'' ''ORDER''" "\<not> eq_ignore_ascii_case ''DESC'' ''ASC''"
  "\<not> eq_ignore_ascii_case ''LAST'' ''FIRST''" "\<not> eq_ignore_ascii_case ''NULL'' ''NOT''"
  "\<not> eq_ignore_ascii_case ''NOT'' ''NULL''" "\<not> eq_ignore_ascii_case ''Int64'' ''Nullable''"
  by code_simp+

lemma Ex_nullness:
  "(\<exists>n. P n) \<longleftrightarrow> (\<exists>c p. P \<lparr>np_column_name = c, np_predicate = p\<rparr>)"
  by (metis nullness_predicate.surjective unit.exhaust)

lemma Ex_comparison:
  "(\<exists>n. P n) \<longleftrightarrow> (\<exists>c x v. P \<lparr>cp_column_name = c, cp_operator = x, cp_value = v\<rparr>)"
  by (metis comparison_predicate.surjective unit.exhaust)

lemma Ex_order_by:
  "(\<exists>n. P n) \<longleftrightarrow> (\<exists>c d z. P \<lparr>ob_column_name = c, ob_direction = d, ob_null_order = z\<rparr>)"
  by (metis order_by_clause.surjective unit.exhaust)

lemma Ex_select_predicate: "(\<exists>p. P p) \<longleftrightarrow> (\<exists>n. P (Nullness n)) \<or> (\<exists>c. P (Comparison c))"
  by (metis select_predicate.exhaust)

lemma Ex_null_predicate: "(\<exists>p. P p) \<longleftrightarrow> P IsNotNull \<or> P IsNull"
  by (metis null_predicate.exhaust)

lemma Ex_direction: "(\<exists>p. P p) \<longleftrightarrow> P Asc \<or> P Desc"
  by (metis order_direction.exhaust)

lemma Ex_null_order: "(\<exists>p. P p) \<longleftrightarrow> P NullsFirst \<or> P NullsLast"
  by (metis null_order.exhaust)

lemma recog_where_clause:
  assumes "\<And>x. recog m (k x) (K x)" and "\<And>x y. avoids_ws (K x y)"
  shows "recog m (st_bind select_where_clause k) (\<lambda>y s. \<exists>p. where_clause m p (K p y) s)"
  unfolding select_where_clause_def step_nf
  by (rule recog_cong,
      (rule recog_if_kw recog_skip recog_kw_unglued recog_space recog_name_unglued recog_operator
         recog_where_int64 assms
       | simp add: avoid_rules assms | erule starts_kw_avoids starts_kw_cat
       | (elim exE conjE, erule starts_kw_avoids starts_kw_cat))+)
    (auto simp: cat_or unless_or Ex_select_predicate Ex_nullness Ex_comparison Ex_null_predicate
      where_clause_def comparison_clause_def nullness_words_def unglued_ws_kw avoid_rules)

lemma recog_order_clause:
  assumes "\<And>x. recog m (k x) (K x)" and "\<And>x y. avoids_ws (K x y)"
  shows "recog m (st_bind select_order_clause k) (\<lambda>y s. \<exists>b. order_clause m b (K b y) s)"
  unfolding select_order_clause_def step_nf
  by (rule recog_cong,
      (rule recog_if_kw recog_skip recog_kw_unglued recog_space recog_name_unglued recog_fail assms
       | simp add: avoid_rules assms | erule starts_kw_avoids starts_kw_cat
       | (elim exE conjE, erule starts_kw_avoids starts_kw_cat))+)
    (auto simp: cat_or unless_or Ex_order_by Ex_direction Ex_null_order
      order_clause_def direction_word_def null_order_word_def avoid_rules)

lemma recog_limit_clause:
  assumes "\<And>x. recog m (k x) (K x)" and "\<And>x y. avoids_ws (K x y)"
  shows "recog m (st_bind select_limit_clause k) (\<lambda>y s. \<exists>n. limit_clause n (K n y) s)"
  unfolding select_limit_clause_def step_nf
  by (rule recog_cong,
      (rule recog_skip recog_kw_unglued recog_space recog_limit assms
       | simp add: avoid_rules assms)+)
    (auto simp: limit_clause_def avoid_rules)

lemma clause_texts_start:
  "where_clause m p A s \<Longrightarrow> starts_kw ''WHERE'' s" "order_clause m b A s \<Longrightarrow> starts_kw ''ORDER'' s"
  "limit_clause n A s \<Longrightarrow> starts_kw ''LIMIT'' s"
  by (auto simp: where_clause_def order_clause_def limit_clause_def comparison_clause_def avoid_rules
      split: select_predicate.splits elim!: starts_kw_avoids)

lemma clause_texts_avoid [avoid_rules]:
  "avoids_ws (where_clause m p A)" "avoids_ws (order_clause m b A)" "avoids_ws (limit_clause n A)"
  by (auto simp: where_clause_def order_clause_def limit_clause_def comparison_clause_def avoid_rules
      split: select_predicate.splits)

interpretation where_part: clause select_where_clause lim "where_clause lim" "''WHERE''" witness
  for lim witness
  by unfold_locales (rule recog_where_clause clause_texts_start clause_texts_avoid; assumption)+

interpretation order_part: clause select_order_clause lim "order_clause lim" "''ORDER''" witness
  for lim witness
  by unfold_locales (rule recog_order_clause clause_texts_start clause_texts_avoid; assumption)+

interpretation limit_part: clause select_limit_clause lim limit_clause "''LIMIT''" witness
  for lim witness
  by unfold_locales (rule recog_limit_clause clause_texts_start clause_texts_avoid; assumption)+

section \<open>\<open>SELECT\<close>\<close>

lemma clause_ex [simp]:
  "where_clause m p (\<lambda>s. \<exists>x. P x s) = (\<lambda>s. \<exists>x. where_clause m p (P x) s)"
  "order_clause m b (\<lambda>s. \<exists>x. P x s) = (\<lambda>s. \<exists>x. order_clause m b (P x) s)"
  "limit_clause n (\<lambda>s. \<exists>x. P x s) = (\<lambda>s. \<exists>x. limit_clause n (P x) s)"
  by (auto simp: where_clause_def comparison_clause_def nullness_words_def order_clause_def
      limit_clause_def fun_eq_iff split: select_predicate.split null_predicate.split)

lemma clause_and [simp]:
  "where_clause m p (\<lambda>s. c \<and> Q s) = (\<lambda>s. c \<and> where_clause m p Q s)"
  "order_clause m b (\<lambda>s. c \<and> Q s) = (\<lambda>s. c \<and> order_clause m b Q s)"
  "limit_clause n (\<lambda>s. c \<and> Q s) = (\<lambda>s. c \<and> limit_clause n Q s)"
  by (auto simp: where_clause_def comparison_clause_def nullness_words_def order_clause_def
      limit_clause_def fun_eq_iff split: select_predicate.split null_predicate.split)

lemma opt_clause_ex [simp]:
  "opt (where_clause m) p (\<lambda>s. \<exists>x. P x s) = (\<lambda>s. \<exists>x. opt (where_clause m) p (P x) s)"
  "opt (order_clause m) b (\<lambda>s. \<exists>x. P x s) = (\<lambda>s. \<exists>x. opt (order_clause m) b (P x) s)"
  "opt limit_clause n (\<lambda>s. \<exists>x. P x s) = (\<lambda>s. \<exists>x. opt limit_clause n (P x) s)"
  "opt (where_clause m) p (\<lambda>s. c \<and> Q s) = (\<lambda>s. c \<and> opt (where_clause m) p Q s)"
  "opt (order_clause m) b (\<lambda>s. c \<and> Q s) = (\<lambda>s. c \<and> opt (order_clause m) b Q s)"
  "opt limit_clause n (\<lambda>s. c \<and> Q s) = (\<lambda>s. c \<and> opt limit_clause n Q s)"
  by (simp_all add: opt_def split: option.split)

lemma excludes_clauses [avoid_rules]:
  "excludes (starts_kw ''WHERE'') (order_clause m b A)" "excludes (starts_kw ''WHERE'') (limit_clause n A)"
  "excludes (starts_kw ''ORDER'') (limit_clause n A)"
  using clause_texts_start kw_distinct starts_kw_unique by (metis excludes_def)+

lemma excludes_opt [avoid_rules]:
  "excludes E K \<Longrightarrow> (\<And>v. excludes E (C v K)) \<Longrightarrow> excludes E (opt C x K)"
  by (simp add: opt_def split: option.split)

lemma avoids_opt [avoid_rules]:
  "avoids f K \<Longrightarrow> (\<And>v. avoids f (C v K)) \<Longrightarrow> avoids f (opt C x K)"
  by (simp add: opt_def split: option.split)

lemma recog_unless_const: "recog lim k K \<Longrightarrow> recog lim (st_if (\<lambda>p. c) (st_fail e) k) (\<lambda>y s. \<not> c \<and> K y s)"
  by (auto simp: recog_def st_if_def st_fail_def)

definition select_grammar :: "usize \<Rightarrow> select_statement \<Rightarrow> lang" where
  "select_grammar m st s \<longleftrightarrow>
     (select_order_by st \<noteq> None \<longrightarrow> select_limit st \<noteq> None) \<and>
     select_from m (select_column_name st) (select_table_name st)
       (unglued (cat ws
         (opt (where_clause m) (select_predicate st)
         (opt (order_clause m) (select_order_by st)
         (opt limit_clause (select_limit st) (semicolon eof)))))) s"

lemma recog_select: "recog m statement_select (select_grammar m)"
proof -
  have "recog m statement_select (\<lambda>y s. \<exists>c t p b l.
      y = \<lparr>select_column_name = c, select_table_name = t, select_predicate = p, select_order_by = b,
           select_limit = l\<rparr> \<and> \<not> (b \<noteq> None \<and> l = None) \<and>
      select_from m c t (unglued (cat ws (opt (where_clause m) p (opt (order_clause m) b
         (opt limit_clause l (semicolon eof)))))) s)"
    unfolding statement_select_def step_nf
    by (rule recog_cong,
        (rule recog_skip recog_kw recog_space recog_guard recog_name_unglued recog_semicolon recog_end
           recog_unless_const where_part.recog_optional order_part.recog_optional
           limit_part.recog_optional
         | simp add: avoid_rules | (elim exE conjE, erule name_then_keyword))+)
      (auto simp: select_from_def)
  then show ?thesis
  proof (rule recog_cong)
    fix y :: select_statement and s
    show "(\<exists>c t p b l.
      y = \<lparr>select_column_name = c, select_table_name = t, select_predicate = p, select_order_by = b,
           select_limit = l\<rparr> \<and> \<not> (b \<noteq> None \<and> l = None) \<and>
      select_from m c t (unglued (cat ws (opt (where_clause m) p (opt (order_clause m) b
         (opt limit_clause l (semicolon eof)))))) s) \<longleftrightarrow> select_grammar m y s"
      by (cases y) (auto simp: select_grammar_def)
  qed
qed

section \<open>\<open>INSERT\<close>\<close>

definition value_lit :: "nullable_i64 \<Rightarrow> lang" where
  "value_lit v = (case v of None \<Rightarrow> kw ''NULL'' | Some n \<Rightarrow> int_lit n)"

definition insert_grammar :: "usize \<Rightarrow> insert_statement \<Rightarrow> lang" where
  "insert_grammar m st =
     seq [ws, kw ''INSERT'', ws1, kw ''INTO'', ws1, name m (insert_table_name st), ws1,
          kw ''VALUES'', ws, byte CHR ''('', ws, value_lit (insert_value st), ws, byte CHR '')'', ws] eof"

text \<open>What follows a value: the space after it and a closing parenthesis.\<close>

abbreviation closing :: "lang \<Rightarrow> lang" where
  "closing K \<equiv> cat ws (cat (byte CHR '')'') K)"

lemma closing_iff: "closing K s \<longleftrightarrow> (\<exists>w u. s = w @ CHR '')'' # u \<and> ws w \<and> K u)"
  by (auto simp: cat_def byte_def)

lemma parse_int64_value_null:
  assumes "starts_kw ''NULL'' s"
  shows "parse_int64_value (at lim pre s) = Inr (v, q) \<longleftrightarrow>
    v = None \<and> expect_keyword ''NULL'' (at lim pre s) = Inr ((), q)"
  using assms
  by (auto simp: parse_int64_value_def st_then_def st_bind_def st_return_def res_bind_Inr_iff Let_def)

lemma parse_int64_value_int:
  assumes "\<not> starts_kw ''NULL'' s"
  shows "parse_int64_value (at lim pre s) = Inr (v, q) \<longleftrightarrow>
    (\<exists>n. v = Some n \<and> i64_from_str (literal_prefix s) = Some n \<and>
       next_is CHR '')'' (dropWhile is_ascii_whitespace (literal_rest s)) \<and>
       q = at lim (pre @ literal_prefix s @ takeWhile is_ascii_whitespace (literal_rest s))
             (dropWhile is_ascii_whitespace (literal_rest s)))"
proof -
  have e: "advance_while is_ascii_digit (scan_sign (at lim pre s)) =
      at lim (pre @ literal_prefix s) (literal_rest s)"
    by (simp add: scan_sign_at literal_prefix_def literal_rest_def)
  have slice: "slice_from (length pre) (at lim (pre @ literal_prefix s) (literal_rest s)) = literal_prefix s"
    by (rule slice_from_at)
  have digits: "length (literal_prefix s) \<noteq> length (sign_prefix s)"
    if "i64_from_str (literal_prefix s) = Some n" for n
    using literal_prefix_parse [OF that] by (simp add: literal_prefix_def)
  have start: "position (scan_sign (at lim pre s)) = length pre + length (sign_prefix s)"
    by (simp add: scan_sign_at)
  show ?thesis
    using assms digits
    by (cases "dropWhile is_ascii_whitespace (literal_rest s)")
      (auto simp: parse_int64_value_def Let_def e start slice next_is_def
        simp del: dropWhile_eq_Nil_conv split: option.splits if_splits)
qed

lemma int_not_null: "int_lit n t \<Longrightarrow> \<not> starts_kw ''NULL'' (t @ u)"
proof
  assume n: "int_lit n t" and k: "starts_kw ''NULL'' (t @ u)"
  from int_lit_hd [OF n] have "is_ascii_digit (hd t) \<or> hd t = CHR ''+'' \<or> hd t = CHR ''-''" "t \<noteq> []" by simp_all
  with starts_kw_start [OF k] show False
    by (auto simp: is_identifier_start_def ascii_defs)
qed

lemma closing_stops:
  assumes "closing K r"
  shows "stops is_ascii_digit r"
proof -
  have "avoids is_ascii_digit (closing K)"
    by (rule avoids_cat_ws) (use whitespace_class avoids_byte in \<open>auto simp: is_ascii_digit_def\<close>)
  with assms show ?thesis by (simp add: avoids_def)
qed

lemma closing_skip:
  "closing K r \<Longrightarrow> \<exists>u. dropWhile is_ascii_whitespace r = CHR '')'' # u \<and> K u"
proof -
  assume "closing K r"
  then obtain w u where r: "r = w @ CHR '')'' # u" "ws w" "K u" unfolding closing_iff by blast
  have "stops is_ascii_whitespace (CHR '')'' # u)" by (simp add: stops_def bytes_class)
  with r munch_append(2) [of is_ascii_whitespace w "CHR '')'' # u"] show ?thesis by (simp add: ws_def)
qed

lemma closing_ws: "ws w \<Longrightarrow> closing K (w @ r) \<longleftrightarrow> closing K r"
proof
  assume w: "ws w" and "closing K (w @ r)"
  then obtain u where u: "dropWhile is_ascii_whitespace (w @ r) = CHR '')'' # u" "K u"
    using closing_skip by blast
  from w have "dropWhile is_ascii_whitespace (w @ r) = dropWhile is_ascii_whitespace r"
    by (simp add: ws_def list_all_iff dropWhile_append2)
  with u have "r = takeWhile is_ascii_whitespace r @ CHR '')'' # u"
    by (metis takeWhile_dropWhile_id)
  with u(2) munch_split(2) [where s = r and f = is_ascii_whitespace] show "closing K r"
    unfolding closing_iff ws_def by blast
next
  assume "ws w" and "closing K r"
  then show "closing K (w @ r)" unfolding closing_iff ws_def by (metis append_assoc list_all_append)
qed

lemma recog_value:
  assumes "\<And>v. recog lim (k v) (\<lambda>y. closing (K v y))"
  shows "recog lim (st_bind parse_int64_value k) (\<lambda>y s. \<exists>v. cat (value_lit v) (closing (K v y)) s)"
proof -
  have k: "(\<exists>q. k v (at lim pre s) = Inr (y, q)) \<longleftrightarrow> closing (K v y) s" for v pre s y
    using assms by (simp add: recog_def)
  have bind: "(\<exists>q. st_bind parse_int64_value k (at lim pre s) = Inr (y, q)) \<longleftrightarrow>
      (\<exists>v p. parse_int64_value (at lim pre s) = Inr (v, p) \<and> (\<exists>q. k v p = Inr (y, q)))" for pre s y
    by (auto simp: st_bind_def res_bind_Inr_iff)
  have "(\<exists>q. st_bind parse_int64_value k (at lim pre s) = Inr (y, q)) \<longleftrightarrow>
      (\<exists>v. cat (value_lit v) (closing (K v y)) s)" for pre s y
  proof (cases "starts_kw ''NULL'' s")
    case True
    have some: "\<not> cat (int_lit n) A s" for n A
      using int_not_null [of n] True by (auto simp: cat_def)
    have "(\<exists>q. st_bind parse_int64_value k (at lim pre s) = Inr (y, q)) \<longleftrightarrow>
        (\<exists>p. expect_keyword ''NULL'' (at lim pre s) = Inr ((), p) \<and> (\<exists>q. k None p = Inr (y, q)))"
      unfolding bind parse_int64_value_null [OF True] by blast
    also have "\<dots> \<longleftrightarrow> (\<exists>t r. s = t @ r \<and> kw ''NULL'' t \<and> stops is_identifier_continue r \<and>
        closing (K None y) r)"
      unfolding keyword.munches using k by blast
    also have "\<dots> \<longleftrightarrow> cat (kw ''NULL'') (unglued (closing (K None y))) s"
      unfolding cat_def [of "kw ''NULL''"] unless_def by blast
    also have "\<dots> \<longleftrightarrow> cat (kw ''NULL'') (closing (K None y)) s"
      by (simp add: avoid_rules)
    finally show ?thesis using some by (auto simp: value_lit_def split: option.splits)
  next
    case False
    let ?r = "literal_rest s" and ?d = "dropWhile is_ascii_whitespace (literal_rest s)"
    have none: "\<not> cat (kw ''NULL'') (closing A) s" for A
      using False starts_kw_avoids [of "''NULL''" "closing A" s] by (auto simp: avoid_rules)
    have clos: "closing A ?d \<longleftrightarrow> closing A ?r" for A
      using closing_ws [of "takeWhile is_ascii_whitespace ?r" A ?d]
        munch_split(2) [where s = ?r and f = is_ascii_whitespace] by (simp add: ws_def)
    have next_closing: "next_is CHR '')'' ?d" if "closing A ?r" for A
      using closing_skip [OF that] by (auto simp: next_is_def simp del: dropWhile_eq_Nil_conv)
    have "(\<exists>q. st_bind parse_int64_value k (at lim pre s) = Inr (y, q)) \<longleftrightarrow>
        (\<exists>n. i64_from_str (literal_prefix s) = Some n \<and> next_is CHR '')'' ?d \<and> closing (K (Some n) y) ?d)"
      unfolding bind parse_int64_value_int [OF False] using k by (metis)
    also have "\<dots> \<longleftrightarrow> (\<exists>n. int_lit n (literal_prefix s) \<and> closing (K (Some n) y) ?r)"
      unfolding clos int_lit_def using next_closing by blast
    also have "\<dots> \<longleftrightarrow> (\<exists>n. cat (int_lit n) (closing (K (Some n) y)) s)"
    proof (rule ex_cong1, rule iffI)
      fix n assume "int_lit n (literal_prefix s) \<and> closing (K (Some n) y) ?r"
      then have "cat (int_lit n) (closing (K (Some n) y)) (literal_prefix s @ ?r)" by (blast intro: catI)
      then show "cat (int_lit n) (closing (K (Some n) y)) s" by (simp add: literal_split)
    next
      fix n assume "cat (int_lit n) (closing (K (Some n) y)) s"
      then obtain t r where "s = t @ r" "int_lit n t" "closing (K (Some n) y) r"
        unfolding cat_def [of "int_lit n"] by blast
      then show "int_lit n (literal_prefix s) \<and> closing (K (Some n) y) ?r"
        using literal_prefix_append(1,2) [of t n r] closing_stops by (simp add: int_lit_def)
    qed
    finally show ?thesis using none by (auto simp: value_lit_def split: option.splits)
  qed
  then show ?thesis by (simp add: recog_def)
qed

end
