(* ===== verification/Sql_Statements.thy ===== *)
theory Sql_Statements
  imports Sql_Grammar
begin

text \<open>
  The grammars of \<open>INSERT\<close> and \<open>CREATE TABLE\<close>, the correctness of every entry point of
  \<^verbatim>\<open>src/parser.rs\<close>, and the texts that are read back as the tree they print.
\<close>

section \<open>\<open>INSERT\<close>\<close>

lemma recog_close:
  "recog lim k K \<Longrightarrow> recog lim (st_bind (\<lambda>p. case peek p of
      None \<Rightarrow> Inl (e1 p) | Some b \<Rightarrow> if b = c then bump p else Inl (e2 p)) (\<lambda>_. k))
    (\<lambda>y. cat (byte c) (K y))"
  unfolding recog_def
proof (intro allI)
  fix pre s y
  assume "\<forall>pre s y. (\<exists>q. k (at lim pre s) = Inr (y, q)) = K y s"
  then show "(\<exists>q. st_bind (\<lambda>p. case peek p of
      None \<Rightarrow> Inl (e1 p) | Some b \<Rightarrow> if b = c then bump p else Inl (e2 p)) (\<lambda>_. k) (at lim pre s) =
      Inr (y, q)) = cat (byte c) (K y) s"
    by (cases s) (auto simp: st_bind_def bump_def cat_def byte_def)
qed

lemma recog_no_byte:
  assumes "recog lim k K" and "\<And>y. excludes (next_is c) (K y)"
  shows "recog lim (st_if (\<lambda>p. peek p = Some c) (st_fail e) k) K"
  unfolding recog_def
proof (intro allI)
  fix pre s y
  have k: "(\<exists>q. k (at lim pre s) = Inr (y, q)) = K y s" using assms(1) by (simp add: recog_def)
  show "(\<exists>q. st_if (\<lambda>p. peek p = Some c) (st_fail e) k (at lim pre s) = Inr (y, q)) = K y s"
  proof (cases "next_is c s")
    case True
    with assms(2) have "\<not> K y s" by (auto simp: excludes_def)
    with True show ?thesis by (cases s) (auto simp: st_if_def st_fail_def next_is_def)
  next
    case False
    with k show ?thesis by (cases s) (auto simp: st_if_def next_is_def)
  qed
qed

lemma avoids_value [avoid_rules]: "avoids_ws (cat (value_lit v) K)"
  by (cases v) (simp_all add: value_lit_def avoid_rules)

lemma recog_insert: "recog m statement_insert (insert_grammar m)"
proof -
  have "recog m statement_insert (\<lambda>y s. \<exists>t v. y = \<lparr>insert_table_name = t, insert_value = v\<rparr> \<and>
     seq [ws, kw ''INSERT'', ws1, kw ''INTO'', ws1, name m t, ws1, kw ''VALUES'', ws, byte CHR ''('', ws,
          value_lit v, ws, byte CHR '')'', ws] eof s)"
    unfolding statement_insert_def step_nf
    by (rule recog_cong,
        (rule recog_skip recog_kw recog_space recog_name recog_byte recog_value recog_close recog_no_byte
           recog_end
         | simp add: avoid_rules)+)
  then show ?thesis
  proof (rule recog_cong)
    fix y :: insert_statement and s
    show "(\<exists>t v. y = \<lparr>insert_table_name = t, insert_value = v\<rparr> \<and>
     seq [ws, kw ''INSERT'', ws1, kw ''INTO'', ws1, name m t, ws1, kw ''VALUES'', ws, byte CHR ''('', ws,
          value_lit v, ws, byte CHR '')'', ws] eof s) \<longleftrightarrow> insert_grammar m y s"
      by (cases y) (auto simp: insert_grammar_def)
  qed
qed

section \<open>\<open>CREATE TABLE\<close>\<close>

definition if_not_exists_text :: "bool \<Rightarrow> lang \<Rightarrow> lang" where
  "if_not_exists_text b K =
     (if b then seq [kw ''IF'', ws1, kw ''NOT'', ws1, kw ''EXISTS'', ws1] K else K)"

definition int64_type :: "bool \<Rightarrow> lang \<Rightarrow> lang" where
  "int64_type nullable K s \<longleftrightarrow>
     nullable \<and> seq [kw ''Nullable'', ws, byte CHR ''('', ws, kw ''Int64'', ws, byte CHR '')''] K s \<or>
     nullable \<and> seq [kw ''Int64''] K s \<or>
     nullable \<and> seq [kw ''Int64'', ws1, kw ''NULL''] K s \<or>
     \<not> nullable \<and> seq [kw ''Int64'', ws1, kw ''NOT'', ws1, kw ''NULL''] K s"

definition engine_text :: "lang \<Rightarrow> lang" where
  "engine_text K s \<longleftrightarrow> seq [kw ''ENGINE'', ws, byte CHR ''='', ws, kw ''Memory'', ws] K s \<or> K s"

lemma int64_type_fun:
  "int64_type nullable K = (\<lambda>s.
     nullable \<and> seq [kw ''Nullable'', ws, byte CHR ''('', ws, kw ''Int64'', ws, byte CHR '')''] K s \<or>
     nullable \<and> seq [kw ''Int64''] K s \<or>
     nullable \<and> seq [kw ''Int64'', ws1, kw ''NULL''] K s \<or>
     \<not> nullable \<and> seq [kw ''Int64'', ws1, kw ''NOT'', ws1, kw ''NULL''] K s)"
  by (simp add: int64_type_def fun_eq_iff)

lemma engine_text_fun:
  "engine_text K =
     (\<lambda>s. seq [kw ''ENGINE'', ws, byte CHR ''='', ws, kw ''Memory'', ws] K s \<or> K s)"
  by (simp add: engine_text_def fun_eq_iff)

definition create_table_grammar :: "usize \<Rightarrow> create_table_statement \<Rightarrow> lang" where
  "create_table_grammar m st =
     seq [ws, kw ''CREATE'', ws1, kw ''TABLE'', ws1]
       (if_not_exists_text (if_not_exists st)
         (seq [name m (create_table_name st), ws, byte CHR ''('', ws, name m (cd_name (create_column st)), ws1]
           (int64_type (cd_nullable (create_column st))
             (closing (cat ws (engine_text eof))))))"

lemma if_not_starts:
  assumes "cat (kw ''IF'') (cat ws1 (cat (kw ''NOT'') (cat ws1 K))) s"
  shows "starts_kw ''IF'' s \<and> next_word ''NOT'' s"
proof -
  from assms obtain n w r where s: "s = n @ w @ r" "kw ''IF'' n" "ws1 w" "cat (kw ''NOT'') (cat ws1 K) r"
    unfolding cat_def [of "kw ''IF''"] cat_def [of ws1 "cat (kw ''NOT'') (cat ws1 K)"] by blast
  have "starts_kw ''NOT'' r" by (rule starts_kw_avoids [OF s(4)]) (simp add: avoid_rules)
  with s have "next_word ''NOT'' s" by (simp add: next_word_cat kw_def)
  moreover have "starts_kw ''IF'' s"
    using assms by (auto intro!: starts_kw_avoids simp: avoid_rules)
  ultimately show ?thesis by simp
qed

lemma not_next_word:
  assumes "cat (name m n) (cat ws (cat (byte CHR ''('') K)) s"
  shows "\<not> next_word k s"
proof -
  from assms obtain t w u where s: "s = t @ w @ CHR ''('' # u" "is_word t" "ws w"
    by (auto simp: cat_def name_def byte_def)
  have "avoids_word (cat ws (cat (byte CHR ''('') (\<lambda>_. True)))" by (simp add: avoid_rules)
  moreover have "cat ws (cat (byte CHR ''('') (\<lambda>_. True)) (w @ [CHR ''(''] @ u)"
    using s(3) by (intro catI) (simp_all add: byte_def)
  ultimately have "stops is_identifier_continue (w @ CHR ''('' # u)"
    unfolding avoids_def by fastforce
  then have n: "word_prefix s = t" unfolding s(1) by (rule word_prefix_split [OF s(2)])
  then have rest: "word_rest s = w @ CHR ''('' # u" using s(1) by (simp add: word_rest_def)
  have "dropWhile is_ascii_whitespace (w @ CHR ''('' # u) = CHR ''('' # u"
    using s(3) by (intro munch_append) (simp_all add: ws_def stops_def bytes_class)
  then show ?thesis
    using starts_kw_start [of k "CHR ''('' # u"] rest by (auto simp: next_word_def bytes_class)
qed

lemma excludes_next_word [avoid_rules]:
  "excludes (next_word k) (cat (name m n) (cat ws (cat (byte CHR ''('') K)))"
  using not_next_word by (auto simp: excludes_def)

lemma next_paren_closing: "next_is CHR '')'' s \<and> closing A s \<longleftrightarrow> cat (byte CHR '')'') A s"
proof
  assume "next_is CHR '')'' s \<and> closing A s"
  then show "cat (byte CHR '')'') A s"
    using closing_skip [of A s] by (cases s) (auto simp: next_is_def cat_def byte_def bytes_class)
next
  assume "cat (byte CHR '')'') A s"
  then obtain u where "s = [] @ CHR '')'' # u" "A u" by (auto simp: cat_def byte_def)
  then show "next_is CHR '')'' s \<and> closing A s"
    unfolding closing_iff by (auto simp: next_is_def ws_def intro: exI [of _ "[]"])
qed

lemma excludes_next_kw [avoid_rules]: "\<not> is_identifier_start b \<Longrightarrow> excludes (next_is b) (cat (kw k) K)"
  using word_hd by (auto simp: excludes_def cat_def kw_def next_is_def)

lemma recog_paren:
  assumes "recog lim a (\<lambda>y. closing (KA y))" and "recog lim b KB"
    and "\<And>y. excludes (next_is CHR '')'') (KB y)"
  shows "recog lim (st_if (\<lambda>p. peek p = Some CHR '')'') a b)
    (\<lambda>y s. cat (byte CHR '')'') (KA y) s \<or> KB y s)"
proof -
  have "(\<exists>q. st_if (\<lambda>p. peek p = Some CHR '')'') a b (at lim pre s) = Inr (y, q)) \<longleftrightarrow>
      (if next_is CHR '')'' s then closing (KA y) s else KB y s)" for pre s y
    using assms(1,2) by (cases s) (auto simp: recog_def st_if_def next_is_def)
  moreover have "\<not> (next_is CHR '')'' s \<and> KB y s)" for y s
    using assms(3) by (auto simp: excludes_def)
  moreover note next_paren_closing
  ultimately have "(\<exists>q. st_if (\<lambda>p. peek p = Some CHR '')'') a b (at lim pre s) = Inr (y, q)) \<longleftrightarrow>
      cat (byte CHR '')'') (KA y) s \<or> KB y s" for pre s y
    by meson
  then show ?thesis by (simp add: recog_def)
qed

lemma recog_if_not:
  assumes "recog lim a KA" and "recog lim b KB"
    and "\<And>y s. KA y s \<Longrightarrow> starts_kw ''IF'' s \<and> next_word ''NOT'' s"
    and "\<And>y. excludes (next_word ''NOT'') (KB y)"
  shows "recog lim (st_if (\<lambda>p. keyword_at_position ''IF'' p \<and> keyword_follows_current_word ''NOT'' p) a b)
    (\<lambda>y s. KA y s \<or> KB y s)"
  by (rule recog_if [OF _ assms(1,2), where C = "\<lambda>s. starts_kw ''IF'' s \<and> next_word ''NOT'' s"])
    (use assms(3,4) in \<open>auto simp: keyword_follows_at excludes_def\<close>)

lemma recog_nullability:
  assumes "\<And>n. recog m (k n) (\<lambda>y. closing (K n y))"
  shows "recog m (st_bind (expect_keyword ''Int64'') (\<lambda>_. st_bind parse_nullability k)) (\<lambda>y s.
     seq [kw ''Int64''] (closing (K True y)) s \<or>
     seq [kw ''Int64'', ws1, kw ''NULL''] (closing (K True y)) s \<or>
     seq [kw ''Int64'', ws1, kw ''NOT'', ws1, kw ''NULL''] (closing (K False y)) s)"
  unfolding parse_nullability_def step_nf
  by (rule recog_cong,
      (rule recog_skip recog_kw_unglued recog_space recog_paren recog_if_kw recog_fail assms
       | simp add: avoid_rules | erule starts_kw_cat starts_kw_avoids)+)
    (auto simp: cat_or unless_or unglued_ws_kw avoid_rules)

lemma recog_if_not_exists:
  assumes "\<And>b. recog m (k b) (K b)" and "\<And>y. avoids_ws (K True y)"
    and "\<And>y. excludes (next_word ''NOT'') (K False y)"
  shows "recog m (st_bind create_if_not_exists k) (\<lambda>y s. \<exists>b. if_not_exists_text b (K b y) s)"
  unfolding create_if_not_exists_def step_nf
  by (rule recog_cong,
      (rule recog_if_not recog_kw_unglued recog_space assms
       | simp add: avoid_rules assms | erule if_not_starts)+)
    (simp add: if_not_exists_text_def ex_bool_eq)

lemma recog_nullable:
  assumes "\<And>n. recog m (k n) (\<lambda>y. closing (K n y))"
  shows "recog m (st_bind create_nullable k) (\<lambda>y s. \<exists>n. int64_type n (closing (K n y)) s)"
  unfolding create_nullable_def step_nf
  by (rule recog_cong,
      (rule recog_skip recog_nullability recog_if_kw recog_kw_unglued recog_byte assms
       | simp add: avoid_rules | erule starts_kw_avoids)+)
    (auto simp: int64_type_def ex_bool_eq)

lemma recog_engine:
  assumes "recog m k K" and "\<And>y. avoids_ws (K y)" and "\<And>y. avoids_word (K y)"
    and "\<And>y. excludes (starts_kw ''ENGINE'') (K y)"
  shows "recog m (st_bind create_engine (\<lambda>_. k)) (\<lambda>y. engine_text (K y))"
  unfolding create_engine_def step_nf engine_text_fun
  by (rule recog_cong,
      (rule recog_skip recog_if_kw recog_kw_unglued recog_byte assms
       | simp add: avoid_rules assms | erule starts_kw_avoids)+)

lemma create_parts_ex [simp]:
  "int64_type n (\<lambda>s. c \<and> P s) = (\<lambda>s. c \<and> int64_type n P s)"
  "engine_text (\<lambda>s. c \<and> P s) = (\<lambda>s. c \<and> engine_text P s)"
  "if_not_exists_text b (\<lambda>s. c \<and> P s) = (\<lambda>s. c \<and> if_not_exists_text b P s)"
  "if_not_exists_text b (\<lambda>s. \<exists>x. Q x s) = (\<lambda>s. \<exists>x. if_not_exists_text b (Q x) s)"
  by (auto simp: int64_type_fun engine_text_fun if_not_exists_text_def fun_eq_iff)

lemma create_parts_avoid [avoid_rules]:
  "avoids_ws (int64_type n A)" "avoids_ws A \<Longrightarrow> avoids_ws (engine_text A)"
  "avoids_ws A \<Longrightarrow> avoids_ws (if_not_exists_text b A)"
  by (auto simp: int64_type_fun engine_text_fun if_not_exists_text_def avoid_rules)

lemma recog_create_table: "recog m statement_create_table (create_table_grammar m)"
proof -
  have "recog m statement_create_table (\<lambda>y s. \<exists>b t c n.
      y = \<lparr>create_table_name = t, create_column = \<lparr>cd_name = c, cd_data_type = Int64, cd_nullable = n\<rparr>,
           if_not_exists = b\<rparr> \<and>
      seq [ws, kw ''CREATE'', ws1, kw ''TABLE'', ws1]
       (if_not_exists_text b (seq [name m t, ws, byte CHR ''('', ws, name m c, ws1]
           (int64_type n (closing (cat ws (engine_text eof)))))) s)"
    unfolding statement_create_table_def step_nf
    by (rule recog_cong,
        (rule recog_skip recog_kw recog_space recog_name recog_byte recog_if_not_exists recog_nullable
           recog_engine recog_end
         | simp add: avoid_rules)+)
  then show ?thesis
  proof (rule recog_cong)
    fix y :: create_table_statement and s
    obtain t d b where y: "y = \<lparr>create_table_name = t, create_column = d, if_not_exists = b\<rparr>"
      by (cases y)
    obtain c ty n where d: "d = \<lparr>cd_name = c, cd_data_type = ty, cd_nullable = n\<rparr>" by (cases d)
    have "ty = Int64" by (cases ty) simp
    then show "(\<exists>b t c n.
      y = \<lparr>create_table_name = t, create_column = \<lparr>cd_name = c, cd_data_type = Int64, cd_nullable = n\<rparr>,
           if_not_exists = b\<rparr> \<and>
      seq [ws, kw ''CREATE'', ws1, kw ''TABLE'', ws1]
       (if_not_exists_text b (seq [name m t, ws, byte CHR ''('', ws, name m c, ws1]
           (int64_type n (closing (cat ws (engine_text eof)))))) s) \<longleftrightarrow> create_table_grammar m y s"
      by (simp add: create_table_grammar_def y d)
  qed
qed

section \<open>Correctness of the entry points\<close>

lemmas recog_statements =
  recog_create_table recog_insert recog_select recog_inner_join recog_left_join recog_scalar_count
  recog_scalar_sum recog_scalar_min recog_select_distinct

lemmas parse_entry_defs =
  parse_create_table_def parse_insert_def parse_select_def parse_inner_join_def parse_left_join_def
  parse_scalar_count_def parse_scalar_sum_def parse_scalar_min_def parse_select_distinct_def

lemma parse_create_table_correct:
  "parse_create_table inp limits = Inr st \<longleftrightarrow>
     length inp \<le> max_statement_bytes limits \<and> create_table_grammar (max_identifier_bytes limits) st inp"
  unfolding parse_entry_defs by (rule run_statement_iff [OF recog_create_table])

lemma parse_insert_correct:
  "parse_insert inp limits = Inr st \<longleftrightarrow>
     length inp \<le> max_statement_bytes limits \<and> insert_grammar (max_identifier_bytes limits) st inp"
  unfolding parse_entry_defs by (rule run_statement_iff [OF recog_insert])

text \<open>C36: Within the statement and identifier bounds \<open>parse_create_table\<close> accepts exactly
  \<open>CREATE TABLE [IF NOT EXISTS] t ( c (Int64 [NULL | NOT NULL] | Nullable(Int64)) ) [ENGINE = Memory]\<close>
  and \<open>parse_insert\<close> exactly \<open>INSERT INTO t VALUES (v)\<close> with \<open>v\<close> a signed decimal in the
  \<open>Int64\<close> range or \<open>NULL\<close>, with keywords in any case and free whitespace; both return the tree
  the grammar names, and a table or column may be called by a keyword.\<close>

theorem parse_writes_correct:
  "(parse_create_table inp limits = Inr create \<longleftrightarrow>
      length inp \<le> max_statement_bytes limits \<and> create_table_grammar (max_identifier_bytes limits) create inp) \<and>
   (parse_insert inp limits = Inr insertion \<longleftrightarrow>
      length inp \<le> max_statement_bytes limits \<and> insert_grammar (max_identifier_bytes limits) insertion inp)"
  by (simp add: parse_create_table_correct parse_insert_correct)

text \<open>C11: \<open>parse_select\<close> accepts exactly \<open>SELECT c FROM t\<close> with the optional clauses
  \<open>WHERE\<close> (a comparison or \<open>IS [NOT] NULL\<close>), \<open>ORDER BY\<close> and \<open>LIMIT\<close> in this order and
  an optional semicolon, an \<open>ORDER BY\<close> only together with a \<open>LIMIT\<close>, and returns the clauses as
  the grammar names them.\<close>

theorem parse_select_correct:
  "parse_select inp limits = Inr st \<longleftrightarrow>
     length inp \<le> max_statement_bytes limits \<and> select_grammar (max_identifier_bytes limits) st inp"
  unfolding parse_entry_defs by (rule run_statement_iff [OF recog_select])

text \<open>The query parsers accept exactly their grammars and return the tree the grammar names:
  the two joins \<open>SELECT c FROM t (INNER | LEFT) JOIN u ON l = r [;]\<close>, each its own join kind; the
  scalar aggregates \<open>COUNT(* | c)\<close>, \<open>SUM(c)\<close> and \<open>MIN(c)\<close>, the first two with an optional
  comparison in \<open>WHERE\<close>; and \<open>SELECT DISTINCT c FROM t [;]\<close>, where the test for a column
  called \<open>FROM\<close> rejects nothing the grammar accepts.\<close>

theorem parse_queries_correct:
  "(parse_inner_join inp limits = Inr ij \<longleftrightarrow>
      length inp \<le> max_statement_bytes limits \<and> inner_join_grammar (max_identifier_bytes limits) ij inp) \<and>
   (parse_left_join inp limits = Inr lj \<longleftrightarrow>
      length inp \<le> max_statement_bytes limits \<and> left_join_grammar (max_identifier_bytes limits) lj inp) \<and>
   (parse_scalar_count inp limits = Inr cnt \<longleftrightarrow>
      length inp \<le> max_statement_bytes limits \<and> scalar_count_grammar (max_identifier_bytes limits) cnt inp) \<and>
   (parse_scalar_sum inp limits = Inr sm \<longleftrightarrow>
      length inp \<le> max_statement_bytes limits \<and> scalar_sum_grammar (max_identifier_bytes limits) sm inp) \<and>
   (parse_scalar_min inp limits = Inr mn \<longleftrightarrow>
      length inp \<le> max_statement_bytes limits \<and> scalar_min_grammar (max_identifier_bytes limits) mn inp) \<and>
   (parse_select_distinct inp limits = Inr ds \<longleftrightarrow>
      length inp \<le> max_statement_bytes limits \<and> select_distinct_grammar (max_identifier_bytes limits) ds inp)"
  unfolding parse_entry_defs
  by (intro conjI run_statement_iff recog_statements)

section \<open>Printing and parsing back\<close>

definition operator_symbol :: "comparison_operator \<Rightarrow> string" where
  "operator_symbol x = (case x of Eq \<Rightarrow> ''='' | Ne \<Rightarrow> ''!='' | Lt \<Rightarrow> ''<'' | Le \<Rightarrow> ''<='' | Gt \<Rightarrow> ''>'' | Ge \<Rightarrow> ''>='')"

definition where_words :: "select_predicate \<Rightarrow> string list" where
  "where_words p =
     (case p of
        Comparison c \<Rightarrow> [''WHERE'', '' '', cp_column_name c, '' '', operator_symbol (cp_operator c), '' '',
          i64_display (cp_value c)]
      | Nullness n \<Rightarrow> [''WHERE'', '' '', np_column_name n, '' '', ''IS'', '' ''] @
          (case np_predicate n of IsNull \<Rightarrow> [''NULL''] | IsNotNull \<Rightarrow> [''NOT'', '' '', ''NULL'']))"

definition order_words :: "order_by_clause \<Rightarrow> string list" where
  "order_words b =
     [''ORDER'', '' '', ''BY'', '' '', ob_column_name b, '' '',
      (case ob_direction b of Asc \<Rightarrow> ''ASC'' | Desc \<Rightarrow> ''DESC''), '' '', ''NULLS'', '' '',
      (case ob_null_order b of NullsFirst \<Rightarrow> ''FIRST'' | NullsLast \<Rightarrow> ''LAST'')]"

definition limit_words :: "usize \<Rightarrow> string list" where
  "limit_words n = [''LIMIT'', '' '', usize_display n]"

definition optional_words :: "('a \<Rightarrow> string list) \<Rightarrow> 'a option \<Rightarrow> string" where
  "optional_words f x = (case x of None \<Rightarrow> [] | Some v \<Rightarrow> CHR '' '' # concat (f v))"

definition print_select :: "select_statement \<Rightarrow> string" where
  "print_select st =
     concat [''SELECT'', '' '', select_column_name st, '' '', ''FROM'', '' '', select_table_name st] @
     optional_words where_words (select_predicate st) @
     optional_words order_words (select_order_by st) @
     optional_words limit_words (select_limit st)"

definition valid_name :: "usize \<Rightarrow> ident \<Rightarrow> bool" where
  "valid_name m n \<longleftrightarrow> is_word n \<and> length n \<le> m"

text \<open>A tree that a statement within the identifier bound can denote.\<close>

definition valid_select :: "usize \<Rightarrow> select_statement \<Rightarrow> bool" where
  "valid_select m st \<longleftrightarrow>
     valid_name m (select_column_name st) \<and> valid_name m (select_table_name st) \<and>
     pred_option (valid_name m \<circ> predicate_column_name) (select_predicate st) \<and>
     pred_option (valid_name m \<circ> ob_column_name) (select_order_by st) \<and>
     pred_option (\<lambda>n. n \<le> usize_max) (select_limit st) \<and>
     (select_order_by st \<noteq> None \<longrightarrow> select_limit st \<noteq> None)"

lemma seq_concat: "list_all2 (\<lambda>A t. A t) As ts \<Longrightarrow> K u \<Longrightarrow> seq As K (concat ts @ u)"
  by (induction As ts rule: list_all2_induct) (auto intro: catI)

lemma kw_self: "is_word k \<Longrightarrow> kw k k"
  by (simp add: kw_def)

lemma select_words_kw [simp]:
  "kw ''SELECT'' ''SELECT''" "kw ''FROM'' ''FROM''" "kw ''WHERE'' ''WHERE''" "kw ''IS'' ''IS''"
  "kw ''NOT'' ''NOT''" "kw ''NULL'' ''NULL''" "kw ''ORDER'' ''ORDER''" "kw ''BY'' ''BY''"
  "kw ''ASC'' ''ASC''" "kw ''DESC'' ''DESC''" "kw ''NULLS'' ''NULLS''" "kw ''FIRST'' ''FIRST''"
  "kw ''LAST'' ''LAST''" "kw ''LIMIT'' ''LIMIT''" "ws1 '' ''" "ws '' ''"
  by code_simp+

lemma operator_symbol_text: "operator_text x (operator_symbol x)"
  by (cases x) (simp_all add: operator_symbol_def)

definition spaced :: "string \<Rightarrow> bool" where
  "spaced u \<longleftrightarrow> u = [] \<or> hd u = CHR '' ''"

lemma spaced_stops:
  assumes "spaced u"
  shows "stops is_identifier_continue u" and "stops (\<lambda>b. \<not> ends_literal b) u"
proof -
  have "\<not> is_identifier_continue CHR '' ''" "ends_literal CHR '' ''" by code_simp+
  with assms show "stops is_identifier_continue u" "stops (\<lambda>b. \<not> ends_literal b) u"
    by (auto simp: spaced_def stops_def)
qed

lemma where_words_match:
  assumes "valid_name m (predicate_column_name p)" and "cat ws K u" and "spaced u"
  shows "where_clause m p K (concat (where_words p) @ u)"
proof (cases p)
  case (Comparison c)
  have "list_all2 (\<lambda>A t. A t) [kw ''WHERE'', ws1, name m (cp_column_name c), ws,
      operator_text (cp_operator c), ws, int_lit (cp_value c)] (where_words p)"
    using assms(1) operator_symbol_text
    by (simp add: Comparison where_words_def name_def valid_name_def int_lit_def)
  moreover have "literal_end (cat ws K) u" using assms(2,3) spaced_stops by (simp add: unless_def)
  ultimately show ?thesis
    using seq_concat by (simp only: Comparison where_clause_def comparison_clause_def select_predicate.case)
next
  case (Nullness n)
  have "list_all2 (\<lambda>A t. A t) ([kw ''WHERE'', ws1, name m (np_column_name n), ws1, kw ''IS'', ws1] @
      nullness_words (np_predicate n)) (where_words p)"
    using assms(1)
    by (simp add: Nullness where_words_def nullness_words_def name_def valid_name_def
        split: null_predicate.split)
  moreover have "unglued (cat ws K) u" using assms(2,3) spaced_stops by (simp add: unless_def)
  ultimately show ?thesis
    using seq_concat by (simp only: Nullness where_clause_def select_predicate.case)
qed

lemma order_words_match:
  assumes "valid_name m (ob_column_name b)" and "cat ws K u" and "spaced u"
  shows "order_clause m b K (concat (order_words b) @ u)"
proof -
  have "list_all2 (\<lambda>A t. A t) [kw ''ORDER'', ws1, kw ''BY'', ws1, name m (ob_column_name b), ws1,
      direction_word (ob_direction b), ws1, kw ''NULLS'', ws1, null_order_word (ob_null_order b)]
      (order_words b)"
    using assms(1)
    by (simp add: order_words_def direction_word_def null_order_word_def name_def valid_name_def
        split: order_direction.split null_order.split)
  moreover have "unglued (cat ws K) u" using assms(2,3) spaced_stops by (simp add: unless_def)
  ultimately show ?thesis unfolding order_clause_def by (rule seq_concat)
qed

lemma limit_words_match:
  assumes "n \<le> usize_max" and "cat ws K u" and "spaced u"
  shows "limit_clause n K (concat (limit_words n) @ u)"
proof -
  have "list_all2 (\<lambda>A t. A t) [kw ''LIMIT'', ws1, limit_lit n] (limit_words n)"
    using assms(1) by (simp add: limit_words_def limit_lit_def)
  moreover have "literal_end (cat ws K) u" using assms(2,3) spaced_stops by (simp add: unless_def)
  ultimately show ?thesis unfolding limit_clause_def by (rule seq_concat)
qed

lemma spaced_optional: "spaced u \<Longrightarrow> spaced (optional_words f x @ u)"
  by (simp add: optional_words_def spaced_def split: option.split)

lemma optional_words_match:
  assumes "\<And>v. x = Some v \<Longrightarrow> C v K (concat (f v) @ u)" and "cat ws K u"
  shows "cat ws (opt C x K) (optional_words f x @ u)"
proof (cases x)
  case (Some v)
  then have "cat ws (C v K) ('' '' @ (concat (f v) @ u))" using assms(1) by (intro catI) simp_all
  with Some show ?thesis by (simp add: opt_def optional_words_def)
qed (use assms(2) in \<open>simp add: opt_def optional_words_def\<close>)

lemma print_select_grammar:
  assumes "valid_select m st"
  shows "select_grammar m st (print_select st)"
proof -
  let ?l = "optional_words limit_words (select_limit st)"
  let ?o = "optional_words order_words (select_order_by st) @ ?l"
  let ?w = "optional_words where_words (select_predicate st) @ ?o"
  have "cat ws (semicolon eof) []" by (simp add: cat_def ws_def semicolon_def eof_def)
  then have "cat ws (opt limit_clause (select_limit st) (semicolon eof)) (?l @ [])"
    using assms
    by (intro optional_words_match limit_words_match) (auto simp: valid_select_def spaced_def)
  then have l: "cat ws (opt limit_clause (select_limit st) (semicolon eof)) ?l" by simp
  have sl: "spaced ?l" using spaced_optional [of "[]"] by (simp add: spaced_def)
  let ?L = "opt limit_clause (select_limit st) (semicolon eof)"
  have o: "cat ws (opt (order_clause m) (select_order_by st) ?L) ?o"
  proof (rule optional_words_match [OF _ l])
    fix v assume "select_order_by st = Some v"
    with assms show "order_clause m v ?L (concat (order_words v) @ ?l)"
      by (intro order_words_match l sl) (simp add: valid_select_def)
  qed
  have so: "spaced ?o" using sl by (rule spaced_optional)
  let ?O = "opt (order_clause m) (select_order_by st) ?L"
  have w: "cat ws (opt (where_clause m) (select_predicate st) ?O) ?w"
  proof (rule optional_words_match [OF _ o])
    fix v assume "select_predicate st = Some v"
    with assms show "where_clause m v ?O (concat (where_words v) @ ?o)"
      by (intro where_words_match o so) (simp add: valid_select_def)
  qed
  have sw: "spaced ?w" using so by (rule spaced_optional)
  have "select_from m (select_column_name st) (select_table_name st)
      (unglued (cat ws (opt (where_clause m) (select_predicate st) ?O))) (print_select st)"
  proof -
    let ?words = "[[], ''SELECT'', '' '', select_column_name st, '' '', ''FROM'', '' '', select_table_name st]"
    have "print_select st = concat ?words @ ?w" by (simp add: print_select_def)
    moreover have "list_all2 (\<lambda>A t. A t) [ws, kw ''SELECT'', ws1, name m (select_column_name st), ws1,
        kw ''FROM'', ws1, name m (select_table_name st)] ?words"
      using assms by (simp add: valid_select_def valid_name_def name_def ws_def [of "[]"])
    moreover have "unglued (cat ws (opt (where_clause m) (select_predicate st) ?O)) ?w"
      using w spaced_stops(1) [OF sw] by (simp add: unless_def)
    ultimately show ?thesis unfolding select_from_def by (simp only: seq_concat)
  qed
  then show ?thesis using assms by (simp add: select_grammar_def valid_select_def)
qed

text \<open>C13: Every valid \<open>SELECT\<close> tree, printed with single spaces, upper-case keywords and decimal
  values, is read back as itself when the text is within the statement bound.\<close>

theorem select_roundtrip:
  assumes "valid_select (max_identifier_bytes limits) st"
    and "length (print_select st) \<le> max_statement_bytes limits"
  shows "parse_select (print_select st) limits = Inr st"
  using assms run_statement_iff [OF recog_select, of "print_select st" limits st]
  by (simp add: parse_select_def print_select_grammar)

theorem select_roundtrip_witness:
  "parse_select ''SELECT a FROM t WHERE a >= -3 ORDER BY a DESC NULLS LAST LIMIT 7'' parse_limits_default =
     Inr \<lparr>select_column_name = ''a'', select_table_name = ''t'',
       select_predicate = Some (Comparison \<lparr>cp_column_name = ''a'', cp_operator = Ge, cp_value = - 3\<rparr>),
       select_order_by = Some \<lparr>ob_column_name = ''a'', ob_direction = Desc, ob_null_order = NullsLast\<rparr>,
       select_limit = Some 7\<rparr>"
proof -
  let ?st = "\<lparr>select_column_name = ''a'', select_table_name = ''t'',
       select_predicate = Some (Comparison \<lparr>cp_column_name = ''a'', cp_operator = Ge, cp_value = - 3\<rparr>),
       select_order_by = Some \<lparr>ob_column_name = ''a'', ob_direction = Desc, ob_null_order = NullsLast\<rparr>,
       select_limit = Some 7\<rparr>"
  have v: "i64_display (- 3) = ''-3''" "usize_display 7 = ''7''" by code_simp+
  have "is_word ''a''" "is_word ''t''" by code_simp+
  then show ?thesis
    using select_roundtrip [of parse_limits_default ?st]
    by (simp add: valid_select_def valid_name_def print_select_def optional_words_def where_words_def
        order_words_def limit_words_def operator_symbol_def v parse_limits_default_def
        parse_limits_new_def default_max_identifier_bytes_def default_max_statement_bytes_def
        usize_max_def)
qed

end
