(* ===== verification/Sql_Session.thy ===== *)
theory Sql_Session
  imports Catalog_Spec Sql_Statements
begin

text \<open>
  The parser, the executor and the catalog together: what a query text answers after any sequence of
  operations, in terms of the rows the database holds.
\<close>

section \<open>A \<open>SELECT\<close> under the bounds of a catalog\<close>

lemma scan_within:
  assumes "length vs \<le> n"
  shows "scan_select_predicate vs p (scan_limits_new n n) = Inr (rows_where (predicate_holds p) vs)"
  using order_trans [OF length_filter_le assms, of "predicate_holds p"]
  by (simp add: scan_select_predicate_eq scan_matching_rows_eq scan_limits_new_def assms not_less)

lemma order_within:
  "length xs \<le> n \<Longrightarrow>
     order_nullable_i64 xs d z limit (order_limits_new n n) =
       (if limit > n then Inl (OrderLimitExceeded limit n) else Inr (top_rows limit d z xs))"
  by (simp add: order_nullable_i64_top_rows order_limits_new_def not_le)

text \<open>An \<open>ORDER BY\<close> asks the bounded sort for its whole limit, so the limit itself must be within
  the bound, however few rows there are.\<close>

definition select_answer ::
  "usize \<Rightarrow> select_statement \<Rightarrow> nullable_i64 list \<Rightarrow> select_execution_error + nullable_i64 list" where
  "select_answer n st vs =
     (case select_order_by st of
        None \<Rightarrow> Inr (select_result st vs)
      | Some _ \<Rightarrow>
          (case select_limit st of
             None \<Rightarrow> Inr (select_result st vs)
           | Some limit \<Rightarrow>
               if limit > n then Inl (OrderFailed (OrderLimitExceeded limit n)) else Inr (select_result st vs)))"

lemma execute_select_within:
  assumes "length (table_values t) \<le> n"
  shows "execute_select_with_order_limits expected t st (scan_limits_new n n) (order_limits_new n n) =
     (if select_table_name st \<noteq> expected then Inl (SelectUnknownTable (select_table_name st))
      else case filter (\<lambda>c. c \<noteq> column_of t) (select_names st) of
        c # _ \<Rightarrow> Inl (SelectUnknownColumn c)
      | [] \<Rightarrow> select_answer n st (table_values t))"
proof -
  have few: "length (filter P (table_values t)) \<le> n" for P
    using length_filter_le [of P "table_values t"] assms by (rule order_trans)
  show ?thesis
    unfolding execute_select_with_order_limits_def Let_def
    using assms few
    by (cases "select_predicate st"; cases "select_order_by st"; cases "select_limit st")
      (auto simp: scan_within order_within values_at_rows_where take_rows_where take_min_length
        select_names_def select_result_def select_answer_def filtered_def Let_def top_rows_values)
qed

text \<open>C1: A query text that spells a \<open>SELECT\<close> answers, after any operations on a new catalog, from
  the rows the database holds under that name: the filtered, ordered and cut rows, or the unknown
  table, the first unknown column, or an ordered limit over the catalog's row bound.\<close>

theorem session_answers_select:
  assumes "select_grammar (max_identifier_bytes parse_limits) st source"
    and "length source \<le> max_statement_bytes parse_limits"
  shows "catalog_execute_select source parse_limits (catalog_run ops (catalog_new limits)) =
    (case spec_run limits ops Map.empty (select_table_name st) of
       None \<Rightarrow> Inl (CatalogSelect (SelectUnknownTable (select_table_name st)))
     | Some (s, rows) \<Rightarrow>
         (case filter (\<lambda>c. c \<noteq> col_name (schema_column s)) (select_names st) of
            c # _ \<Rightarrow> Inl (CatalogSelect (SelectUnknownColumn c))
          | [] \<Rightarrow> map_err CatalogSelect (select_answer (max_rows_per_table limits) st rows)))"
proof -
  let ?c = "catalog_run ops (catalog_new limits)"
  have c: "catalog_wf ?c" "catalog_bounds ?c = limits"
    using run_wf [OF catalog_new_wf, of ops limits] by simp_all
  have parse: "parse_select source parse_limits = Inr st"
    using assms run_statement_iff [OF recog_select, of source parse_limits st] by (simp add: parse_select_def)
  have view: "spec_run limits ops Map.empty n =
      map_option (\<lambda>t. (table_schema t, table_values t)) (catalog_table n ?c)" for n
    using run_refines [of ops limits] by (simp add: catalog_view_eq [symmetric])
  show ?thesis
  proof (cases "catalog_table (select_table_name st) ?c")
    case None
    then show ?thesis
      by (simp add: catalog_execute_select_def catalog_execute_select_with_limits_def parsed_def parse
          catalog_select_with_limits_def catalog_query_def view Let_def)
  next
    case (Some t)
    then have "length (table_values t) \<le> max_rows_per_table limits"
      using catalog_table_wf [OF c(1)] c(2) by (fastforce simp: table_wf_def)
    from execute_select_within [OF this, of "select_table_name st" st] Some show ?thesis
      by (simp add: catalog_execute_select_def catalog_execute_select_with_limits_def parsed_def parse
          catalog_select_with_limits_def catalog_query_def view Let_def c(2) catalog_scan_limits_def
          split: list.split)
  qed
qed

theorem session_answers_select_witness:
  "catalog_execute_select ''SELECT v FROM r WHERE v > 3 ORDER BY v DESC NULLS LAST LIMIT 2'' parse_limits_default
     (catalog_run [ExecuteCreate ''CREATE TABLE r (v Int64 NULL)'' (parse_limits_new 32 4),
        ExecuteInsert ''INSERT INTO r VALUES (5)'' (parse_limits_new 32 4),
        TableMutAppendBatch ''r'' [None, Some 7, Some 1] :: unit catalog_op]
       (catalog_new (catalog_limits_new 1 4))) = Inr [Some 7, Some 5]"
proof -
  let ?l = "parse_limits_new 32 4" and ?d = parse_limits_default
  let ?q = "''SELECT v FROM r WHERE v > 3 ORDER BY v DESC NULLS LAST LIMIT 2''"
  let ?st = "\<lparr>select_column_name = ''v'', select_table_name = ''r'',
     select_predicate = Some (Comparison \<lparr>cp_column_name = ''v'', cp_operator = Gt, cp_value = 3\<rparr>),
     select_order_by = Some \<lparr>ob_column_name = ''v'', ob_direction = Desc, ob_null_order = NullsLast\<rparr>,
     select_limit = Some 2\<rparr>"
  let ?ops = "[ExecuteCreate ''CREATE TABLE r (v Int64 NULL)'' ?l, ExecuteInsert ''INSERT INTO r VALUES (5)'' ?l,
     TableMutAppendBatch ''r'' [None, Some 7, Some 1] :: unit catalog_op]"
  have v: "i64_display 3 = ''3''" "usize_display 2 = ''2''" by code_simp+
  have "is_word ''v''" "is_word ''r''" by code_simp+
  then have "valid_select (max_identifier_bytes ?d) ?st"
    by (simp add: valid_select_def valid_name_def parse_limits_default_def parse_limits_new_def
        default_max_identifier_bytes_def usize_max_def)
  then have "select_grammar (max_identifier_bytes ?d) ?st (print_select ?st)" by (rule print_select_grammar)
  then have grammar: "select_grammar (max_identifier_bytes ?d) ?st ?q"
    by (simp add: print_select_def optional_words_def where_words_def order_words_def limit_words_def
        operator_symbol_def v)
  have len: "length ?q \<le> max_statement_bytes ?d"
    by (simp add: parse_limits_default_def parse_limits_new_def default_max_statement_bytes_def)
  have create: "parse_create_table ''CREATE TABLE r (v Int64 NULL)'' ?l =
       Inr \<lparr>create_table_name = ''r'', create_column = \<lparr>cd_name = ''v'', cd_data_type = Int64, cd_nullable = True\<rparr>,
         if_not_exists = False\<rparr>" by code_simp
  have insert: "parse_insert ''INSERT INTO r VALUES (5)'' ?l =
      Inr \<lparr>insert_table_name = ''r'', insert_value = Some 5\<rparr>" by code_simp
  have rows: "spec_run (catalog_limits_new 1 4) ?ops Map.empty ''r'' =
      Some (schema_int64 ''v'' True, [Some 5, None, Some 7, Some 1])"
    by (simp add: create insert spec_create_def spec_register_def spec_append_def rows_admitted_def
        catalog_limits_new_def schema_int64_def)
  have "select_answer 4 ?st [Some 5, None, Some 7, Some 1] = Inr [Some 7, Some 5]"
    by (simp add: select_answer_def select_result_def filtered_def sql_compare_def sql_key_def)
  moreover have "max_rows_per_table (catalog_limits_new 1 4) = 4" by (simp add: catalog_limits_new_def)
  ultimately show ?thesis
    unfolding session_answers_select [OF grammar len]
    by (simp add: rows select_names_def schema_int64_def del: spec_run.simps One_nat_def)
qed

end
