(* ===== verification/Shared_Catalog.thy ===== *)
theory Shared_Catalog
  imports Catalog_Spec
begin

text \<open>
  The shared handle on a catalog (\<^verbatim>\<open>src/shared_catalog.rs\<close>). All handles reach
  one lock. A method obtains it, works on the catalog while it holds it and gives it back; the threads
  take these steps in any order the lock admits. A thread outside this module that panics while it
  holds the write lock poisons it. That the methods nevertheless behave as if each of them ran alone
  is the theorem at the end.
\<close>

section \<open>The handle and its lock\<close>

datatype shared_catalog_error =
  SharedCatalogFailed catalog_error
| SharedCsvIngest catalog_csv_ingest_error
| LockPoisoned

record shared_catalog =
  shared_inner :: catalog
  shared_poisoned :: bool

definition shared_from_arc :: "catalog \<Rightarrow> bool \<Rightarrow> shared_catalog" where
  "shared_from_arc c poisoned = \<lparr>shared_inner = c, shared_poisoned = poisoned\<rparr>"

definition shared_new :: "catalog \<Rightarrow> shared_catalog" where
  "shared_new c = shared_from_arc c False"

definition shared_with_limits :: "catalog_limits \<Rightarrow> shared_catalog" where
  "shared_with_limits limits = shared_new (catalog_new limits)"

definition shared_read :: "(catalog \<Rightarrow> shared_catalog_error + 'a) \<Rightarrow> shared_catalog \<Rightarrow> shared_catalog_error + 'a" where
  "shared_read query s = (if shared_poisoned s then Inl LockPoisoned else query (shared_inner s))"

definition shared_write ::
  "('e \<Rightarrow> shared_catalog_error) \<Rightarrow> (catalog \<Rightarrow> ('e + 'a) \<times> catalog) \<Rightarrow> shared_catalog \<Rightarrow>
     (shared_catalog_error + 'a) \<times> shared_catalog"
where
  "shared_write wrap act s =
     (if shared_poisoned s then (Inl LockPoisoned, s)
      else case act (shared_inner s) of (r, c) \<Rightarrow> (map_err wrap r, s\<lparr>shared_inner := c\<rparr>))"

section \<open>Methods\<close>

definition shared_limits :: "shared_catalog \<Rightarrow> shared_catalog_error + catalog_limits" where
  "shared_limits = shared_read (\<lambda>c. Inr (catalog_bounds c))"

definition shared_len :: "shared_catalog \<Rightarrow> shared_catalog_error + usize" where
  "shared_len = shared_read (\<lambda>c. Inr (catalog_len c))"

definition shared_is_empty :: "shared_catalog \<Rightarrow> shared_catalog_error + bool" where
  "shared_is_empty = shared_read (\<lambda>c. Inr (catalog_is_empty c))"

definition shared_execute_create ::
  "string \<Rightarrow> parse_limits \<Rightarrow> shared_catalog \<Rightarrow> (shared_catalog_error + unit) \<times> shared_catalog" where
  "shared_execute_create source limits = shared_write SharedCatalogFailed (catalog_execute_create source limits)"

definition shared_execute_insert ::
  "string \<Rightarrow> parse_limits \<Rightarrow> shared_catalog \<Rightarrow> (shared_catalog_error + unit) \<times> shared_catalog" where
  "shared_execute_insert source limits = shared_write SharedCatalogFailed (catalog_execute_insert source limits)"

definition shared_ingest_csv_with_names ::
  "string \<Rightarrow> string \<Rightarrow> csv_ingest_limits \<Rightarrow> shared_catalog \<Rightarrow>
     (shared_catalog_error + usize) \<times> shared_catalog"
where
  "shared_ingest_csv_with_names n source limits =
     shared_write SharedCsvIngest (catalog_ingest_csv_with_names n source limits)"

definition shared_execute_select ::
  "string \<Rightarrow> parse_limits \<Rightarrow> shared_catalog \<Rightarrow> shared_catalog_error + nullable_i64 list" where
  "shared_execute_select source limits =
     shared_read (\<lambda>c. map_err SharedCatalogFailed (catalog_execute_select source limits c))"

definition shared_execute_select_with_limits ::
  "string \<Rightarrow> parse_limits \<Rightarrow> scan_limits \<Rightarrow> shared_catalog \<Rightarrow> shared_catalog_error + nullable_i64 list" where
  "shared_execute_select_with_limits source limits scan_limits =
     shared_read (\<lambda>c. map_err SharedCatalogFailed (catalog_execute_select_with_limits source limits scan_limits c))"

definition shared_execute_inner_join ::
  "string \<Rightarrow> parse_limits \<Rightarrow> join_limits \<Rightarrow> shared_catalog \<Rightarrow> shared_catalog_error + nullable_i64 list" where
  "shared_execute_inner_join source limits join_limits =
     shared_read (\<lambda>c. map_err SharedCatalogFailed (catalog_execute_inner_join source limits join_limits c))"

definition shared_execute_left_join ::
  "string \<Rightarrow> parse_limits \<Rightarrow> join_limits \<Rightarrow> shared_catalog \<Rightarrow> shared_catalog_error + nullable_i64 list" where
  "shared_execute_left_join source limits join_limits =
     shared_read (\<lambda>c. map_err SharedCatalogFailed (catalog_execute_left_join source limits join_limits c))"

definition shared_execute_scalar_count ::
  "string \<Rightarrow> parse_limits \<Rightarrow> aggregate_limits \<Rightarrow> shared_catalog \<Rightarrow> shared_catalog_error + u64" where
  "shared_execute_scalar_count source limits agg_limits =
     shared_read (\<lambda>c. map_err SharedCatalogFailed (catalog_execute_scalar_count source limits agg_limits c))"

definition shared_execute_scalar_count_with_limits ::
  "string \<Rightarrow> parse_limits \<Rightarrow> scan_limits \<Rightarrow> aggregate_limits \<Rightarrow> shared_catalog \<Rightarrow> shared_catalog_error + u64" where
  "shared_execute_scalar_count_with_limits source limits scan_limits agg_limits =
     shared_read (\<lambda>c. map_err SharedCatalogFailed
       (catalog_execute_scalar_count_with_limits source limits scan_limits agg_limits c))"

definition shared_execute_scalar_sum ::
  "string \<Rightarrow> parse_limits \<Rightarrow> aggregate_limits \<Rightarrow> shared_catalog \<Rightarrow> shared_catalog_error + nullable_i64" where
  "shared_execute_scalar_sum source limits agg_limits =
     shared_read (\<lambda>c. map_err SharedCatalogFailed (catalog_execute_scalar_sum source limits agg_limits c))"

definition shared_execute_scalar_sum_with_limits ::
  "string \<Rightarrow> parse_limits \<Rightarrow> scan_limits \<Rightarrow> aggregate_limits \<Rightarrow> shared_catalog \<Rightarrow>
     shared_catalog_error + nullable_i64" where
  "shared_execute_scalar_sum_with_limits source limits scan_limits agg_limits =
     shared_read (\<lambda>c. map_err SharedCatalogFailed
       (catalog_execute_scalar_sum_with_limits source limits scan_limits agg_limits c))"

definition shared_execute_scalar_min ::
  "string \<Rightarrow> parse_limits \<Rightarrow> aggregate_limits \<Rightarrow> shared_catalog \<Rightarrow> shared_catalog_error + nullable_i64" where
  "shared_execute_scalar_min source limits agg_limits =
     shared_read (\<lambda>c. map_err SharedCatalogFailed (catalog_execute_scalar_min source limits agg_limits c))"

definition shared_execute_select_distinct ::
  "string \<Rightarrow> parse_limits \<Rightarrow> distinct_limits \<Rightarrow> shared_catalog \<Rightarrow> shared_catalog_error + nullable_i64 list" where
  "shared_execute_select_distinct source limits distinct_limits =
     shared_read (\<lambda>c. map_err SharedCatalogFailed (catalog_execute_select_distinct source limits distinct_limits c))"

section \<open>Calls and their replies\<close>

datatype shared_call =
  CallLimits
| CallLen
| CallIsEmpty
| CallCreate string parse_limits
| CallInsert string parse_limits
| CallCsv string string csv_ingest_limits
| CallSelect string parse_limits
| CallSelectWithLimits string parse_limits scan_limits
| CallInnerJoin string parse_limits join_limits
| CallLeftJoin string parse_limits join_limits
| CallCount string parse_limits aggregate_limits
| CallCountWithLimits string parse_limits scan_limits aggregate_limits
| CallSum string parse_limits aggregate_limits
| CallSumWithLimits string parse_limits scan_limits aggregate_limits
| CallMin string parse_limits aggregate_limits
| CallDistinct string parse_limits distinct_limits

datatype shared_reply =
  LimitsReply "shared_catalog_error + catalog_limits"
| SizeReply "shared_catalog_error + usize"
| BoolReply "shared_catalog_error + bool"
| UnitReply "shared_catalog_error + unit"
| RowsReply "shared_catalog_error + nullable_i64 list"
| CountReply "shared_catalog_error + u64"
| ValueReply "shared_catalog_error + nullable_i64"

fun invoke :: "shared_call \<Rightarrow> shared_catalog \<Rightarrow> shared_reply \<times> shared_catalog" where
  "invoke CallLimits s = (LimitsReply (shared_limits s), s)"
| "invoke CallLen s = (SizeReply (shared_len s), s)"
| "invoke CallIsEmpty s = (BoolReply (shared_is_empty s), s)"
| "invoke (CallCreate source limits) s = apfst UnitReply (shared_execute_create source limits s)"
| "invoke (CallInsert source limits) s = apfst UnitReply (shared_execute_insert source limits s)"
| "invoke (CallCsv n source limits) s = apfst SizeReply (shared_ingest_csv_with_names n source limits s)"
| "invoke (CallSelect source limits) s = (RowsReply (shared_execute_select source limits s), s)"
| "invoke (CallSelectWithLimits source limits scan) s =
     (RowsReply (shared_execute_select_with_limits source limits scan s), s)"
| "invoke (CallInnerJoin source limits join) s = (RowsReply (shared_execute_inner_join source limits join s), s)"
| "invoke (CallLeftJoin source limits join) s = (RowsReply (shared_execute_left_join source limits join s), s)"
| "invoke (CallCount source limits agg) s = (CountReply (shared_execute_scalar_count source limits agg s), s)"
| "invoke (CallCountWithLimits source limits scan agg) s =
     (CountReply (shared_execute_scalar_count_with_limits source limits scan agg s), s)"
| "invoke (CallSum source limits agg) s = (ValueReply (shared_execute_scalar_sum source limits agg s), s)"
| "invoke (CallSumWithLimits source limits scan agg) s =
     (ValueReply (shared_execute_scalar_sum_with_limits source limits scan agg s), s)"
| "invoke (CallMin source limits agg) s = (ValueReply (shared_execute_scalar_min source limits agg s), s)"
| "invoke (CallDistinct source limits distinct_limits) s =
     (RowsReply (shared_execute_select_distinct source limits distinct_limits s), s)"

text \<open>The methods that take the write lock, with the operation of the catalog they perform.\<close>

fun call_op :: "shared_call \<Rightarrow> unit catalog_op option" where
  "call_op (CallCreate source limits) = Some (ExecuteCreate source limits)"
| "call_op (CallInsert source limits) = Some (ExecuteInsert source limits)"
| "call_op (CallCsv n source limits) = Some (IngestCsv n source limits)"
| "call_op _ = None"

fun refused :: "shared_reply \<Rightarrow> bool" where
  "refused (LimitsReply r) = (r = Inl LockPoisoned)"
| "refused (SizeReply r) = (r = Inl LockPoisoned)"
| "refused (BoolReply r) = (r = Inl LockPoisoned)"
| "refused (UnitReply r) = (r = Inl LockPoisoned)"
| "refused (RowsReply r) = (r = Inl LockPoisoned)"
| "refused (CountReply r) = (r = Inl LockPoisoned)"
| "refused (ValueReply r) = (r = Inl LockPoisoned)"

lemmas shared_method_defs =
  shared_limits_def shared_len_def shared_is_empty_def shared_execute_create_def shared_execute_insert_def
  shared_ingest_csv_with_names_def shared_execute_select_def shared_execute_select_with_limits_def
  shared_execute_inner_join_def shared_execute_left_join_def shared_execute_scalar_count_def
  shared_execute_scalar_count_with_limits_def shared_execute_scalar_sum_def
  shared_execute_scalar_sum_with_limits_def shared_execute_scalar_min_def shared_execute_select_distinct_def

lemma invoke_poisoned:
  assumes "shared_poisoned s" shows "refused (fst (invoke call s)) \<and> snd (invoke call s) = s"
  using assms by (cases call) (simp_all add: shared_method_defs shared_read_def shared_write_def)

lemma invoke_reads: "call_op call = None \<Longrightarrow> snd (invoke call s) = s"
  by (cases call) simp_all

lemma invoke_writes:
  assumes "\<not> shared_poisoned s" and "call_op call = Some op"
  shows "snd (invoke call s) = s\<lparr>shared_inner := snd (catalog_apply op (shared_inner s))\<rparr>"
  using assms by (cases call) (auto simp: shared_method_defs shared_write_def split: prod.split)

lemma invoke_keeps_poison: "shared_poisoned (snd (invoke call s)) = shared_poisoned s"
  using invoke_poisoned [of s call] invoke_reads [of call s] invoke_writes [of s call]
  by (cases "shared_poisoned s"; cases "call_op call") simp_all

section \<open>The lock and its threads\<close>

text \<open>A thread is outside, holds a read lock (and has its reply or not yet), or holds the write lock;
  then the catalog it found is remembered here, since the thread may leave it half changed meanwhile.\<close>

datatype phase =
  Outside
| Reading shared_call
| Answered shared_call shared_reply
| Writing shared_call catalog

fun reads :: "phase \<Rightarrow> bool" where
  "reads (Reading _) = True"
| "reads (Answered _ _) = True"
| "reads _ = False"

fun holds_write :: "phase \<Rightarrow> bool" where
  "holds_write (Writing _ _) = True"
| "holds_write _ = False"

text \<open>What the threads observe, in the order in which calls end.\<close>

datatype observation = Completed nat shared_call shared_reply | Crashed catalog

record lock_system =
  ls_shared :: shared_catalog
  ls_phase :: "nat \<Rightarrow> phase"
  ls_history :: "observation list"

definition system_start :: "shared_catalog \<Rightarrow> lock_system" where
  "system_start s = \<lparr>ls_shared = s, ls_phase = (\<lambda>_. Outside), ls_history = []\<rparr>"

definition enter :: "nat \<Rightarrow> phase \<Rightarrow> lock_system \<Rightarrow> lock_system" where
  "enter t p sys = sys\<lparr>ls_phase := (ls_phase sys)(t := p)\<rparr>"

definition observe :: "observation \<Rightarrow> lock_system \<Rightarrow> lock_system" where
  "observe ob sys = sys\<lparr>ls_history := ls_history sys @ [ob]\<rparr>"

text \<open>When the lock can be obtained: for reading while no thread writes, for writing while no thread
  holds it. A poisoned lock is obtained too, but the method only reports it and leaves.\<close>

definition read_available :: "lock_system \<Rightarrow> bool" where
  "read_available sys \<longleftrightarrow> (\<forall>t. \<not> holds_write (ls_phase sys t))"

definition write_available :: "lock_system \<Rightarrow> bool" where
  "write_available sys \<longleftrightarrow> (\<forall>t. \<not> holds_write (ls_phase sys t) \<and> \<not> reads (ls_phase sys t))"

definition available :: "shared_call \<Rightarrow> lock_system \<Rightarrow> bool" where
  "available call sys \<longleftrightarrow> (if call_op call = None then read_available sys else write_available sys)"

text \<open>The steps of one thread. A reader looks at the catalog at some moment while it holds the lock,
  and may panic, which does not poison it. A writer may leave anything behind until its method ends,
  when the effect of the method on the catalog it found is in place; a panic leaves what is there and
  poisons the lock.\<close>

inductive lock_step :: "lock_system \<Rightarrow> lock_system \<Rightarrow> bool" where
  refuse: "lock_step sys (observe (Completed t call (fst (invoke call (ls_shared sys)))) sys)"
  if "ls_phase sys t = Outside" "available call sys" "shared_poisoned (ls_shared sys)"
| read_begin: "lock_step sys (enter t (Reading call) sys)"
  if "ls_phase sys t = Outside" "call_op call = None" "available call sys" "\<not> shared_poisoned (ls_shared sys)"
| read_look: "lock_step sys (enter t (Answered call (fst (invoke call (ls_shared sys)))) sys)"
  if "ls_phase sys t = Reading call"
| read_end: "lock_step sys (observe (Completed t call r) (enter t Outside sys))"
  if "ls_phase sys t = Answered call r"
| read_panic: "lock_step sys (enter t Outside sys)"
  if "reads (ls_phase sys t)"
| write_begin: "lock_step sys (enter t (Writing call (shared_inner (ls_shared sys))) sys)"
  if "ls_phase sys t = Outside" "call_op call \<noteq> None" "available call sys" "\<not> shared_poisoned (ls_shared sys)"
| write_touch: "lock_step sys (sys\<lparr>ls_shared := (ls_shared sys)\<lparr>shared_inner := c\<rparr>\<rparr>)"
  if "holds_write (ls_phase sys t)"
| write_end: "lock_step sys (observe (Completed t call r) (enter t Outside (sys\<lparr>ls_shared := s\<rparr>)))"
  if "ls_phase sys t = Writing call found" "invoke call ((ls_shared sys)\<lparr>shared_inner := found\<rparr>) = (r, s)"
| write_panic: "lock_step sys (observe (Crashed (shared_inner (ls_shared sys)))
    (enter t Outside (sys\<lparr>ls_shared := (ls_shared sys)\<lparr>shared_poisoned := True\<rparr>\<rparr>)))"
  if "holds_write (ls_phase sys t)"

inductive lock_reachable :: "shared_catalog \<Rightarrow> lock_system \<Rightarrow> bool" for s where
  start: "lock_reachable s (system_start s)"
| step: "lock_reachable s sys'" if "lock_reachable s sys" "lock_step sys sys'"

section \<open>Every execution is a sequence of whole calls\<close>

text \<open>The state after the observations, if each reply is the one its call gives there and no thread
  holds a poisoned lock.\<close>

fun replay_history :: "observation list \<Rightarrow> shared_catalog \<Rightarrow> shared_catalog option" where
  "replay_history [] s = Some s"
| "replay_history (Completed t call r # obs) s =
     (if fst (invoke call s) = r then replay_history obs (snd (invoke call s)) else None)"
| "replay_history (Crashed c # obs) s =
     (if shared_poisoned s then None else replay_history obs (s\<lparr>shared_inner := c, shared_poisoned := True\<rparr>))"

lemma replay_history_append:
  "replay_history (obs @ obs') s = Option.bind (replay_history obs s) (replay_history obs')"
  by (induction obs s rule: replay_history.induct) simp_all

text \<open>The shared state as the last completed call left it, whatever a writer has done since.\<close>

definition lock_settled :: "lock_system \<Rightarrow> shared_catalog \<Rightarrow> bool" where
  "lock_settled sys s \<longleftrightarrow>
     ((\<forall>t. \<not> holds_write (ls_phase sys t)) \<longrightarrow> ls_shared sys = s) \<and>
     (\<forall>t call found. ls_phase sys t = Writing call found \<longrightarrow> (ls_shared sys)\<lparr>shared_inner := found\<rparr> = s)"

definition lock_inv :: "shared_catalog \<Rightarrow> lock_system \<Rightarrow> bool" where
  "lock_inv s0 sys \<longleftrightarrow>
     (\<forall>t. holds_write (ls_phase sys t) \<longrightarrow> (\<forall>u. u \<noteq> t \<longrightarrow> ls_phase sys u = Outside)) \<and>
     (\<forall>t. ls_phase sys t \<noteq> Outside \<longrightarrow> \<not> shared_poisoned (ls_shared sys)) \<and>
     (\<forall>t call r. ls_phase sys t = Reading call \<or> ls_phase sys t = Answered call r \<longrightarrow> call_op call = None) \<and>
     (\<forall>t call found. ls_phase sys t = Writing call found \<longrightarrow> call_op call \<noteq> None) \<and>
     (\<forall>t call r. ls_phase sys t = Answered call r \<longrightarrow> r = fst (invoke call (ls_shared sys))) \<and>
     (\<exists>s. replay_history (ls_history sys) s0 = Some s \<and> lock_settled sys s)"

lemma replay_history_snoc:
  "replay_history (obs @ [Completed t call r]) s0 = Some s' \<longleftrightarrow>
     (\<exists>s. replay_history obs s0 = Some s \<and> invoke call s = (r, s'))"
  "replay_history (obs @ [Crashed c]) s0 = Some s' \<longleftrightarrow>
     (\<exists>s. replay_history obs s0 = Some s \<and> \<not> shared_poisoned s \<and> s' = s\<lparr>shared_inner := c, shared_poisoned := True\<rparr>)"
  by (auto simp: replay_history_append prod_eq_iff split: bind_split if_splits)

lemmas lock_state_defs = enter_def observe_def available_def read_available_def write_available_def

lemma invoke_read: "call_op call = None \<Longrightarrow> invoke call s = (fst (invoke call s), s)"
  using invoke_reads [of call s] by (simp add: prod_eq_iff)

lemma phase_exclusive:
  assumes "lock_inv s0 sys" and "ls_phase sys t \<noteq> Outside"
  shows "\<not> shared_poisoned (ls_shared sys)" and "u \<noteq> t \<Longrightarrow> \<not> holds_write (ls_phase sys u)"
    and "holds_write (ls_phase sys t) \<Longrightarrow> u \<noteq> t \<Longrightarrow> ls_phase sys u = Outside"
  using assms unfolding lock_inv_def by metis+

lemma settled_quiet: "lock_settled sys s \<Longrightarrow> (\<And>t. \<not> holds_write (ls_phase sys t)) \<Longrightarrow> ls_shared sys = s"
  by (simp add: lock_settled_def)

lemma settled_poison: "lock_settled sys s \<Longrightarrow> shared_poisoned s = shared_poisoned (ls_shared sys)"
  unfolding lock_settled_def
  by (metis holds_write.elims(2) shared_catalog.surjective shared_catalog.update_convs(1) shared_catalog.select_convs(2))

lemma lock_inv_start: "lock_inv s (system_start s)"
  by (simp add: lock_inv_def system_start_def lock_settled_def)

text \<open>Steps of readers, and refusals, leave the shared state alone.\<close>

lemma inv_reader:
  assumes inv: "lock_inv s0 sys" and quiet: "\<And>u. \<not> holds_write (ls_phase sys u)"
    and p: "p = Outside \<or> \<not> shared_poisoned (ls_shared sys) \<and> call_op call = None \<and>
      (p = Reading call \<or> p = Answered call (fst (invoke call (ls_shared sys))))"
  shows "lock_inv s0 (enter t p sys)"
proof -
  have "\<not> holds_write p" using p by auto
  then have "lock_settled (enter t p sys) (ls_shared sys)"
    using quiet by (auto simp: lock_settled_def enter_def) (metis holds_write.simps(1))+
  moreover obtain s where "replay_history (ls_history sys) s0 = Some s" "lock_settled sys s"
    using inv unfolding lock_inv_def by blast
  moreover from this(2) quiet have "s = ls_shared sys" by (simp add: settled_quiet)
  ultimately show ?thesis
    using inv p quiet unfolding lock_inv_def enter_def by (auto dest: sym)
qed

lemma inv_observe:
  assumes "lock_inv s0 sys" and "\<And>u. \<not> holds_write (ls_phase sys u)"
    and "invoke call (ls_shared sys) = (r, ls_shared sys)"
  shows "lock_inv s0 (observe (Completed t call r) sys)"
  using assms settled_quiet [of sys]
  unfolding lock_inv_def observe_def lock_settled_def by (auto simp: replay_history_snoc)

text \<open>While a thread writes it is alone, and the state before its method is the settled one.\<close>

lemma inv_writer:
  assumes inv: "lock_inv s0 sys" and t: "ls_phase sys t = Writing call found"
  shows "\<And>u. u \<noteq> t \<Longrightarrow> ls_phase sys u = Outside" and "\<not> shared_poisoned (ls_shared sys)"
    and "call_op call \<noteq> None"
    and "replay_history (ls_history sys) s0 = Some ((ls_shared sys)\<lparr>shared_inner := found\<rparr>)"
proof -
  show "ls_phase sys u = Outside" if "u \<noteq> t" for u
    using phase_exclusive(3) [OF inv, of t u] t that by simp
  show "\<not> shared_poisoned (ls_shared sys)" using phase_exclusive(1) [OF inv, of t] t by simp
  show "call_op call \<noteq> None" using inv t unfolding lock_inv_def by blast
  obtain s where "replay_history (ls_history sys) s0 = Some s" "lock_settled sys s"
    using inv unfolding lock_inv_def by blast
  then show "replay_history (ls_history sys) s0 = Some ((ls_shared sys)\<lparr>shared_inner := found\<rparr>)"
    using t unfolding lock_settled_def by metis
qed

lemma inv_writing:
  assumes "ls_phase sys t = Writing call found" and "\<And>u. u \<noteq> t \<Longrightarrow> ls_phase sys u = Outside"
    and "\<not> shared_poisoned (ls_shared sys)" and "call_op call \<noteq> None"
    and "replay_history (ls_history sys) s0 = Some ((ls_shared sys)\<lparr>shared_inner := found\<rparr>)"
  shows "lock_inv s0 sys"
proof -
  have phase: "ls_phase sys = (\<lambda>_. Outside)(t := Writing call found)" using assms(1,2) by auto
  show ?thesis unfolding lock_inv_def lock_settled_def phase using assms(3-5) by auto
qed

lemma inv_outside:
  assumes "\<And>t. ls_phase sys t = Outside"
  shows "lock_inv s0 sys \<longleftrightarrow> replay_history (ls_history sys) s0 = Some (ls_shared sys)"
  using assms by (auto simp: lock_inv_def lock_settled_def)

lemma lock_inv_step:
  assumes "lock_step sys sys'" and "lock_inv s0 sys"
  shows "lock_inv s0 sys'"
  using assms
proof (cases rule: lock_step.cases)
  case (refuse t call)
  have "\<not> holds_write (ls_phase sys u)" for u
    using refuse(3) by (auto simp: lock_state_defs split: if_splits)
  moreover have "invoke call (ls_shared sys) = (fst (invoke call (ls_shared sys)), ls_shared sys)"
    using invoke_poisoned [OF refuse(4), of call] by (simp add: prod_eq_iff)
  ultimately show ?thesis unfolding refuse(1) using inv_observe [OF assms(2)] by blast
next
  case (read_begin t call)
  then show ?thesis using assms(2) by (auto simp: available_def read_available_def intro!: inv_reader)
next
  case (read_look t call)
  then have "call_op call = None" "\<not> shared_poisoned (ls_shared sys)" "\<And>u. \<not> holds_write (ls_phase sys u)"
    using assms(2) phase_exclusive [OF assms(2), of t] by (auto simp: lock_inv_def) (metis holds_write.simps(3))
  then show ?thesis unfolding read_look(1) using assms(2) by (intro inv_reader) auto
next
  case (read_end t call r)
  then have *: "call_op call = None" "r = fst (invoke call (ls_shared sys))"
    using assms(2) unfolding lock_inv_def by blast+
  have quiet: "\<not> holds_write (ls_phase sys u)" for u
    using phase_exclusive(2) [OF assms(2), of t u] read_end(2) by (cases "u = t") auto
  have "lock_inv s0 (enter t Outside sys)" by (intro inv_reader [OF assms(2) quiet]) simp
  then show ?thesis
    unfolding read_end(1) using quiet invoke_read [OF *(1), of "ls_shared sys"] *(2)
    by (intro inv_observe) (auto simp: enter_def)
next
  case (read_panic t)
  have "\<not> holds_write (ls_phase sys u)" for u
    using phase_exclusive(2) [OF assms(2), of t u] read_panic(2) by (cases "u = t"; cases "ls_phase sys t") auto
  then show ?thesis unfolding read_panic(1) using assms(2) by (intro inv_reader) auto
next
  case (write_begin t call)
  have outside: "ls_phase sys u = Outside" for u
    using write_begin(3,4) by (cases "ls_phase sys u") (auto simp: lock_state_defs, (metis holds_write.simps reads.simps)+)
  show ?thesis
    using assms(2) outside write_begin(3,5)
    by (auto simp: write_begin(1) lock_inv_def enter_def lock_settled_def)
next
  case (write_touch t c)
  then obtain call found where w: "ls_phase sys t = Writing call found" by (cases "ls_phase sys t") auto
  show ?thesis
    using inv_writer [OF assms(2) w] w by (intro inv_writing [of _ t call found]) (simp_all add: write_touch(1))
next
  case (write_end t call found r s)
  note w = inv_writer [OF assms(2) write_end(2)]
  have "\<And>u. ls_phase sys' u = Outside" using w(1) by (simp add: write_end(1) enter_def observe_def)
  then show ?thesis
    using w(4) write_end(3) by (subst inv_outside) (simp_all add: write_end(1) enter_def observe_def replay_history_snoc)
next
  case (write_panic t)
  then obtain call found where "ls_phase sys t = Writing call found" by (cases "ls_phase sys t") auto
  note w = inv_writer [OF assms(2) this]
  have "\<And>u. ls_phase sys' u = Outside" using w(1) by (simp add: write_panic(1) enter_def observe_def)
  then show ?thesis
    using w(2,4) by (subst inv_outside) (simp_all add: write_panic(1) enter_def observe_def replay_history_snoc)
qed

lemma lock_reachable_inv: "lock_reachable s sys \<Longrightarrow> lock_inv s sys"
  by (induction rule: lock_reachable.induct) (simp_all add: lock_inv_start lock_inv_step)

text \<open>What a replayed history says: after a crash only refusals, before it the catalog of the calls.\<close>

definition is_refusal :: "observation \<Rightarrow> bool" where
  "is_refusal ob \<longleftrightarrow> (case ob of Completed _ _ r \<Rightarrow> refused r | Crashed _ \<Rightarrow> False)"

fun observed_op :: "observation \<Rightarrow> unit catalog_op option" where
  "observed_op (Completed t call r) = call_op call"
| "observed_op (Crashed c) = None"

lemma replay_poisoned:
  "replay_history obs s = Some s' \<Longrightarrow> shared_poisoned s \<Longrightarrow> s' = s \<and> list_all is_refusal obs"
proof (induction obs s rule: replay_history.induct)
  case (2 t call r obs s)
  then show ?case using invoke_poisoned [of s call] by (auto simp: is_refusal_def split: if_splits)
qed auto

lemma replay_unpoisoned:
  "replay_history obs s = Some s' \<Longrightarrow> \<not> shared_poisoned s' \<Longrightarrow>
     s' = s\<lparr>shared_inner := catalog_run (List.map_filter observed_op obs) (shared_inner s)\<rparr>"
proof (induction obs s rule: replay_history.induct)
  case (2 t call r obs s)
  then have "\<not> shared_poisoned (snd (invoke call s))" using replay_poisoned by (metis option.distinct(1) replay_history.simps(2))
  then have "\<not> shared_poisoned s" by (simp add: invoke_keeps_poison)
  then show ?case
    using 2 invoke_reads [of call s] invoke_writes [of s call]
    by (cases "call_op call") (auto simp: List.map_filter_simps split: if_splits)
next
  case (3 c obs s)
  then show ?case using replay_poisoned [of obs "s\<lparr>shared_inner := c, shared_poisoned := True\<rparr>" s'] by (auto split: if_splits)
qed (simp add: List.map_filter_simps)

lemma shared_start: "\<not> shared_poisoned (shared_with_limits limits)"
  "shared_inner (shared_with_limits limits) = catalog_new limits"
  by (simp_all add: shared_with_limits_def shared_new_def shared_from_arc_def)

section \<open>A run with a crash\<close>

text \<open>Steps of one thread at a time.\<close>

definition alone :: "shared_catalog \<Rightarrow> shared_catalog \<Rightarrow> observation list \<Rightarrow> bool" where
  "alone s0 s obs \<longleftrightarrow> lock_reachable s0 \<lparr>ls_shared = s, ls_phase = (\<lambda>_. Outside), ls_history = obs\<rparr>"

lemma alone_start: "alone s s []"
  using lock_reachable.start [of s] by (simp add: alone_def system_start_def)

lemma outside_upd: "(\<lambda>_. p)(t := p) = (\<lambda>_. p)"
  by auto

lemma alone_available: "available call \<lparr>ls_shared = s, ls_phase = (\<lambda>_. Outside), ls_history = obs\<rparr>"
  by (simp add: lock_state_defs)

lemma alone_write:
  assumes "alone s0 s obs" and "call_op call \<noteq> None" and "\<not> shared_poisoned s"
  shows "alone s0 (snd (invoke call s)) (obs @ [Completed t call (fst (invoke call s))])"
proof -
  let ?sys = "\<lparr>ls_shared = s, ls_phase = (\<lambda>_. Outside), ls_history = obs\<rparr>"
  let ?in = "enter t (Writing call (shared_inner s)) ?sys"
  have "lock_reachable s0 ?in"
    using write_begin [of ?sys t call] assms alone_available [of call s obs] by (auto simp: alone_def intro: lock_reachable.step)
  from lock_reachable.step [OF this write_end [of ?in t call "shared_inner s" "fst (invoke call s)" "snd (invoke call s)"]]
  show ?thesis by (simp add: alone_def enter_def observe_def outside_upd)
qed

lemma alone_crash:
  assumes "alone s0 s obs" and "\<not> shared_poisoned s"
  shows "alone s0 \<lparr>shared_inner = c, shared_poisoned = True\<rparr> (obs @ [Crashed c])"
proof -
  let ?sys = "\<lparr>ls_shared = s, ls_phase = (\<lambda>_. Outside), ls_history = obs\<rparr>"
  let ?in = "enter 0 (Writing (CallCreate [] parse_limits_default) (shared_inner s)) ?sys"
  have "lock_reachable s0 ?in"
    using write_begin [of ?sys 0 "CallCreate [] parse_limits_default"] assms alone_available [of _ s obs]
    by (auto simp: alone_def intro: lock_reachable.step)
  from lock_reachable.step [OF this write_touch [of ?in 0 c]]
  have "lock_reachable s0 (?in\<lparr>ls_shared := s\<lparr>shared_inner := c\<rparr>\<rparr>)" by (simp add: enter_def)
  from lock_reachable.step [OF this write_panic [of _ 0]]
  show ?thesis by (cases s) (simp add: alone_def enter_def observe_def outside_upd)
qed

lemma alone_refused:
  assumes "alone s0 s obs" and "shared_poisoned s"
  shows "alone s0 s (obs @ [Completed t call (fst (invoke call s))])"
  using lock_reachable.step [OF assms(1) [unfolded alone_def] refuse [of _ t call]] assms(2) alone_available [of call s obs]
  by (simp add: alone_def observe_def)

section \<open>The theorem\<close>

text \<open>C40: In every interleaving of the steps of any number of threads, writers that leave half a
  change behind in the meantime included, the completed calls have the replies they would have if each
  ran alone, in the order in which they ended; while no writer has crashed, the tables are those of the
  database after the writing calls among them. After a crash of a writer the catalog stays as the crash
  left it, no thread holds the lock, and every later call of every method is answered by the poisoned
  lock.\<close>

theorem shared_catalog_linearizable:
  assumes "lock_reachable (shared_with_limits limits) sys"
  shows "(\<exists>s. replay_history (ls_history sys) (shared_with_limits limits) = Some s \<and>
      ((\<forall>t. \<not> holds_write (ls_phase sys t)) \<longrightarrow> ls_shared sys = s) \<and>
      (\<not> shared_poisoned s \<longrightarrow>
         catalog_view (shared_inner s) = spec_run limits (List.map_filter observed_op (ls_history sys)) Map.empty)) \<and>
    (\<forall>before c later. ls_history sys = before @ Crashed c # later \<longrightarrow>
       ls_shared sys = \<lparr>shared_inner = c, shared_poisoned = True\<rparr> \<and> (\<forall>t. ls_phase sys t = Outside) \<and>
       list_all is_refusal later)"
proof (intro conjI allI impI)
  let ?s0 = "shared_with_limits limits"
  note inv = lock_reachable_inv [OF assms]
  then obtain s where s: "replay_history (ls_history sys) ?s0 = Some s" "lock_settled sys s" by (auto simp: lock_inv_def)
  have view: "catalog_view (shared_inner s) = spec_run limits (List.map_filter observed_op (ls_history sys)) Map.empty"
    if "\<not> shared_poisoned s"
    using arg_cong [OF replay_unpoisoned [OF s(1) that], of shared_inner] by (simp add: shared_start run_refines)
  show "\<exists>s. replay_history (ls_history sys) ?s0 = Some s \<and>
      ((\<forall>t. \<not> holds_write (ls_phase sys t)) \<longrightarrow> ls_shared sys = s) \<and>
      (\<not> shared_poisoned s \<longrightarrow>
         catalog_view (shared_inner s) = spec_run limits (List.map_filter observed_op (ls_history sys)) Map.empty)"
    using s view by (auto simp: lock_settled_def)
  fix before c later assume h: "ls_history sys = before @ Crashed c # later"
  then obtain mid where "replay_history (Crashed c # later) mid = Some s"
    using s(1) by (auto simp: replay_history_append split: bind_splits)
  then have crash: "s = \<lparr>shared_inner = c, shared_poisoned = True\<rparr>" "list_all is_refusal later"
    using replay_poisoned [of later "mid\<lparr>shared_inner := c, shared_poisoned := True\<rparr>" s] by (auto split: if_splits)
  have outside: "ls_phase sys t = Outside" for t
    using phase_exclusive(1) [OF inv] settled_poison [OF s(2)] crash(1) by force
  show "ls_phase sys t = Outside" for t by (rule outside)
  show "ls_shared sys = \<lparr>shared_inner = c, shared_poisoned = True\<rparr>" using s(2) outside crash(1) by (simp add: lock_settled_def)
  show "list_all is_refusal later" by (rule crash(2))
qed

theorem shared_catalog_linearizable_witness:
  "\<exists>(sys :: lock_system) created c. ls_history sys =
       [Completed 0 (CallCreate ''CREATE TABLE r (v Int64)'' parse_limits_default) created, Crashed c,
        Completed 1 CallLen (SizeReply (Inl LockPoisoned))] \<and>
     ls_shared sys = \<lparr>shared_inner = c, shared_poisoned = True\<rparr> \<and>
     list_all is_refusal [Completed 1 CallLen (SizeReply (Inl LockPoisoned))]"
proof -
  let ?s0 = "shared_with_limits (catalog_limits_new 1 1)" and ?call = "CallCreate ''CREATE TABLE r (v Int64)'' parse_limits_default"
  let ?c = "catalog_new (catalog_limits_new 1 1)"
  let ?poisoned = "\<lparr>shared_inner = ?c, shared_poisoned = True\<rparr>"
  have "alone ?s0 (snd (invoke ?call ?s0)) [Completed 0 ?call (fst (invoke ?call ?s0))]"
    using alone_write [OF alone_start [of ?s0], of ?call 0] by (simp add: shared_start)
  from alone_crash [OF this, of ?c]
  have "alone ?s0 ?poisoned [Completed 0 ?call (fst (invoke ?call ?s0)), Crashed ?c]"
    unfolding invoke_keeps_poison by (simp add: shared_start)
  from alone_refused [OF this, of 1 CallLen]
  have "lock_reachable ?s0 \<lparr>ls_shared = ?poisoned, ls_phase = (\<lambda>_. Outside), ls_history =
      [Completed 0 ?call (fst (invoke ?call ?s0)), Crashed ?c, Completed 1 CallLen (SizeReply (Inl LockPoisoned))]\<rparr>"
    by (simp add: alone_def shared_len_def shared_read_def)
  from shared_catalog_linearizable [OF this, THEN conjunct2, rule_format,
      of "[Completed 0 ?call (fst (invoke ?call ?s0))]" ?c "[Completed 1 CallLen (SizeReply (Inl LockPoisoned))]"]
  have "list_all is_refusal [Completed 1 CallLen (SizeReply (Inl LockPoisoned))]"
    by (simp only: lock_system.simps append.simps)
  then show ?thesis
    by (intro exI [of _ "\<lparr>ls_shared = ?poisoned, ls_phase = (\<lambda>_. Outside), ls_history =
        [Completed 0 ?call (fst (invoke ?call ?s0)), Crashed ?c, Completed 1 CallLen (SizeReply (Inl LockPoisoned))]\<rparr>"]
      exI [of _ "fst (invoke ?call ?s0)"] exI [of _ ?c]) (simp del: invoke.simps)
qed

end
