(* ===== verification/Sql_Errors.thy ===== *)
theory Sql_Errors
  imports Sql_Parser
begin

text \<open>
  The errors of the parser of \<^verbatim>\<open>src/parser.rs\<close>: every offset an error reports lies within the
  statement, and a bound is reported only when the statement or identifier exceeds it.
\<close>

section \<open>Where errors point\<close>

text \<open>Offsets lie within the statement, and a bound is reported only when it is exceeded.\<close>

definition located :: "nat \<Rightarrow> parse_error \<Rightarrow> bool" where
  "located n e \<longleftrightarrow>
     (case e of
        StatementTooLong b m \<Rightarrow> b = n \<and> m < b
      | IdentifierTooLong i b m \<Rightarrow> i + b \<le> n \<and> m < b
      | TrailingInput i \<Rightarrow> i < n
      | ExtraRows i \<Rightarrow> i < n
      | UnexpectedInput i _ \<Rightarrow> i \<le> n
      | InvalidInt64 i \<Rightarrow> i \<le> n
      | Int64Overflow i \<Rightarrow> i \<le> n
      | InvalidLimit i \<Rightarrow> i \<le> n
      | LimitOverflow i \<Rightarrow> i \<le> n)"

definition in_text :: "parser \<Rightarrow> bool" where
  "in_text p \<longleftrightarrow> position p \<le> length (input p)"

definition step_ok :: "string \<Rightarrow> parse_error + 'a \<times> parser \<Rightarrow> bool" where
  "step_ok inp r \<longleftrightarrow>
     (case r of Inl e \<Rightarrow> located (length inp) e | Inr (_, q) \<Rightarrow> in_text q \<and> input q = inp)"

definition locates :: "'a step \<Rightarrow> bool" where
  "locates m \<longleftrightarrow> (\<forall>p. in_text p \<longrightarrow> step_ok (input p) (m p))"

lemma step_ok_simps [simp]:
  "step_ok inp (Inl e) = located (length inp) e"
  "step_ok inp (Inr (x, q)) = (in_text q \<and> input q = inp)"
  by (simp_all add: step_ok_def)

named_theorems locate_rules

lemma locates_bind [locate_rules]: "locates m \<Longrightarrow> (\<And>x. locates (k x)) \<Longrightarrow> locates (st_bind m k)"
  unfolding locates_def
proof (intro allI impI)
  fix p
  assume m: "\<forall>p. in_text p \<longrightarrow> step_ok (input p) (m p)"
    and k: "\<And>x. \<forall>p. in_text p \<longrightarrow> step_ok (input p) (k x p)" and p: "in_text p"
  then have mp: "step_ok (input p) (m p)" by blast
  show "step_ok (input p) (st_bind m k p)"
  proof (cases "m p")
    case (Inl e)
    with mp show ?thesis by (simp add: st_bind_def)
  next
    case (Inr r)
    obtain x q where r: "r = (x, q)" by (cases r)
    with mp Inr have q: "in_text q" "input q = input p" by simp_all
    with k have "step_ok (input q) (k x q)" by blast
    with q show ?thesis by (simp add: st_bind_def Inr r)
  qed
qed

lemma locates_then [locate_rules]: "locates m \<Longrightarrow> locates k \<Longrightarrow> locates (st_then m k)"
  unfolding st_then_def by (rule locates_bind)

lemma locates_seq [locate_rules]: "list_all locates ms \<Longrightarrow> locates k \<Longrightarrow> locates (st_seq ms k)"
  by (induction ms) (simp_all add: st_seq_def locates_then)

lemma locates_if [locate_rules]: "locates a \<Longrightarrow> locates b \<Longrightarrow> locates (st_if c a b)"
  by (simp add: locates_def st_if_def)

lemma locates_return [locate_rules]: "locates (st_return x)"
  by (simp add: locates_def st_return_def)

lemma locates_fail [locate_rules]: "locates (st_fail (unexpected e))"
  by (simp add: locates_def st_fail_def unexpected_def located_def in_text_def)

lemma in_text_advance_while: "in_text p \<Longrightarrow> in_text (advance_while f p)"
  by (simp add: in_text_def advance_while_def scan_while_le)

lemma in_text_bump: "peek p \<noteq> None \<Longrightarrow> in_text (advance (Suc 0) p)"
  by (auto simp: in_text_def advance_def peek_def slice_get_def split: if_splits)

lemma input_advance [simp]:
  "input (advance_while f p) = input p" "input (advance n p) = input p" "input (scan_sign p) = input p"
  by (simp_all add: advance_while_def advance_def scan_sign_def)

lemma in_text_scan_sign: "in_text p \<Longrightarrow> in_text (scan_sign p)"
  by (auto simp: scan_sign_def intro: in_text_bump)

lemma located_at:
  assumes "in_text p" and "input p = input q"
  shows "located (length (input q)) (UnexpectedInput (position p) e)"
    "located (length (input q)) (InvalidInt64 (position p))"
    "located (length (input q)) (Int64Overflow (position p))"
    "located (length (input q)) (InvalidLimit (position p))"
    "located (length (input q)) (LimitOverflow (position p))"
  using assms by (simp_all add: located_def in_text_def)

lemma locates_tokens [locate_rules]:
  "locates skip_whitespace" "locates (require_whitespace e)" "locates (expect_byte b e)"
  unfolding locates_def skip_whitespace_def require_whitespace_def expect_byte_def unexpected_def
  by (auto simp: in_text_advance_while Let_def located_at intro: in_text_bump)

lemma locates_keyword [locate_rules]: "locates (expect_keyword k)"
  unfolding locates_def expect_keyword_def unexpected_def
  by (auto simp: located_at in_text_def located_def word_end_def slice_get_def scan_while_le
      split: option.splits if_splits)

lemma locates_identifier [locate_rules]: "locates parse_identifier"
  unfolding locates_def
proof (intro allI impI)
  fix p assume p: "in_text p"
  let ?q = "advance_while is_identifier_continue (advance 1 p)"
  show "step_ok (input p) (parse_identifier p)"
  proof (cases "peek_is is_identifier_start p")
    case True
    then have "peek p \<noteq> None" by (auto simp: peek_is_def split: option.splits)
    then have "in_text (advance 1 p)" using in_text_bump [of p] by simp
    then have q: "in_text ?q" by (rule in_text_advance_while)
    moreover have "position p \<le> position ?q"
      using scan_while_ge [of "position p + 1" is_identifier_continue "input p"]
      by (simp add: advance_while_def advance_def)
    ultimately show ?thesis
      using True by (simp add: parse_identifier_def Let_def located_def) (simp add: in_text_def)
  qed (use p in \<open>simp add: parse_identifier_def Let_def unexpected_def located_at\<close>)
qed

lemma in_text_advance_2:
  "slice_get (input p) (position p + 1) \<noteq> None \<Longrightarrow> in_text (advance 2 p)"
  by (auto simp: in_text_def advance_def slice_get_def split: if_splits)

lemma locates_operator [locate_rules]: "locates parse_comparison_operator"
  unfolding locates_def parse_comparison_operator_def unexpected_def Let_def
  by (auto simp: located_at in_text_bump in_text_advance_2)

lemma locates_literals [locate_rules]:
  "locates parse_where_int64" "locates parse_limit" "locates parse_int64_value"
proof -
  show "locates parse_where_int64"
    unfolding locates_def parse_where_int64_def Let_def
    by (auto simp: located_at in_text_advance_while in_text_scan_sign split: option.split)
  show "locates parse_limit"
    unfolding locates_def parse_limit_def Let_def
    by (auto simp: located_at in_text_advance_while split: option.split)
  have "locates (st_then (expect_keyword ''NULL'') (st_return None))"
    by (intro locate_rules)
  then show "locates parse_int64_value"
    unfolding locates_def parse_int64_value_def Let_def unexpected_def
    by (auto simp: located_at in_text_advance_while in_text_scan_sign split: option.split)
qed

lemma locates_end [locate_rules]: "locates (at_end x)"
  by (auto simp: locates_def at_end_def located_def in_text_def)

lemma locates_after_peek [locate_rules]:
  "locates a \<Longrightarrow> locates b \<Longrightarrow> locates (st_if (\<lambda>p. peek p = Some c) (st_then bump a) b)"
  unfolding locates_def
proof (intro allI impI)
  fix p
  assume a: "\<forall>p. in_text p \<longrightarrow> step_ok (input p) (a p)"
    and b: "\<forall>p. in_text p \<longrightarrow> step_ok (input p) (b p)" and p: "in_text p"
  show "step_ok (input p) (st_if (\<lambda>p. peek p = Some c) (st_then bump a) b p)"
  proof (cases "peek p = Some c")
    case True
    then have "in_text (advance 1 p)" using in_text_bump [of p] by simp
    with a have "step_ok (input (advance 1 p)) (a (advance 1 p))" by blast
    with True show ?thesis by (simp add: st_if_def st_then_def st_bind_def bump_def)
  qed (use b p in \<open>simp add: st_if_def\<close>)
qed

lemma locates_close [locate_rules]:
  "locates (\<lambda>p. case peek p of None \<Rightarrow> Inl (unexpected e p)
     | Some b \<Rightarrow> if b = c then bump p else Inl (InvalidInt64 (position p)))"
  by (auto simp: locates_def unexpected_def located_at bump_def intro: in_text_bump split: option.split)

lemma locates_extra_rows [locate_rules]:
  "locates b \<Longrightarrow> locates (st_if (\<lambda>p. peek p = Some c) (st_fail (\<lambda>p. ExtraRows (position p))) b)"
  by (auto simp: locates_def st_if_def st_fail_def located_def peek_def slice_get_def split: if_splits)

lemma locates_parts [locate_rules]:
  "locates parse_nullability" "locates parse_optional_comparison_predicate"
  "locates optional_semicolon" "locates create_if_not_exists" "locates create_engine"
  "locates select_where_clause" "locates select_order_clause" "locates select_limit_clause"
  unfolding parse_nullability_def parse_optional_comparison_predicate_def optional_semicolon_def
    create_if_not_exists_def create_engine_def select_where_clause_def select_order_clause_def
    select_limit_clause_def
  by (intro locate_rules | simp add: locate_rules)+

lemma locates_nullable [locate_rules]: "locates create_nullable"
  unfolding create_nullable_def by (intro locate_rules | simp add: locate_rules)+

lemma locates_clause [locate_rules]: "locates m \<Longrightarrow> locates (optional_clause k m)"
  unfolding optional_clause_def by (intro locate_rules)

lemma locates_statements:
  "locates statement_create_table" "locates statement_insert" "locates statement_select"
  "locates statement_inner_join" "locates statement_left_join" "locates statement_scalar_count"
  "locates statement_scalar_sum" "locates statement_scalar_min" "locates statement_select_distinct"
  unfolding statement_create_table_def statement_insert_def statement_select_def
    statement_inner_join_def statement_left_join_def statement_scalar_count_def
    statement_scalar_sum_def statement_scalar_min_def statement_select_distinct_def
  by (intro locate_rules | simp add: locate_rules)+

definition error_located :: "string \<Rightarrow> parse_error + 'a \<Rightarrow> bool" where
  "error_located inp r \<longleftrightarrow> (case r of Inl e \<Rightarrow> located (length inp) e | Inr _ \<Rightarrow> True)"

lemma run_statement_located: "locates m \<Longrightarrow> error_located inp (run_statement m inp limits)"
proof -
  let ?p = "parser_new inp (max_identifier_bytes limits)"
  assume m: "locates m"
  have p: "in_text ?p" "input ?p = inp" by (simp_all add: parser_new_def in_text_def)
  show ?thesis
  proof (cases "m ?p")
    case (Inl e)
    from m p(1) have "step_ok (input ?p) (m ?p)" unfolding locates_def by blast
    then have "located (length inp) e" by (simp add: p(2) Inl)
    with Inl show ?thesis
      by (auto simp: error_located_def run_statement_def validate_statement_length_def located_def)
  next
    case (Inr r)
    then show ?thesis
      by (cases r) (auto simp: error_located_def run_statement_def validate_statement_length_def located_def)
  qed
qed

text \<open>C37: Every error of the parser points into the statement: offsets never exceed its length, the
  offsets of trailing input and of extra rows are before its end, and a statement or identifier that
  is reported as too long exceeds the bound and lies within the text.\<close>

theorem parse_errors_located:
  "error_located inp (parse_create_table inp limits) \<and> error_located inp (parse_insert inp limits) \<and>
   error_located inp (parse_select inp limits) \<and> error_located inp (parse_inner_join inp limits) \<and>
   error_located inp (parse_left_join inp limits) \<and> error_located inp (parse_scalar_count inp limits) \<and>
   error_located inp (parse_scalar_sum inp limits) \<and> error_located inp (parse_scalar_min inp limits) \<and>
   error_located inp (parse_select_distinct inp limits)"
  unfolding parse_create_table_def parse_insert_def parse_select_def parse_inner_join_def
    parse_left_join_def parse_scalar_count_def parse_scalar_sum_def parse_scalar_min_def
    parse_select_distinct_def
  by (intro conjI run_statement_located locates_statements)

end
