(* ===== verification/Wal_Format.thy ===== *)
theory Wal_Format
  imports Table_Codec
begin

text \<open>
  The records of the write-ahead log of one \<open>Int64\<close> table (\<^verbatim>\<open>src/batch/wal.rs\<close>):
  the frame with its checksum and commit footer, the payload of each kind of record, the reader of
  payload fields, and what each record does to the recovered table.
\<close>

section \<open>Constants, limits and errors\<close>

definition wal_magic :: "u8 list" where
  "wal_magic = [0x52, 0x48, 0x49, 0x36, 0x34, 0x57, 0x41, 0x4C]"

definition wal_version :: u16 where
  "wal_version = 1"

definition wal_commit_magic :: "u8 list" where
  "wal_commit_magic = [0x52, 0x48, 0x57, 0x4C, 0x43, 0x4D, 0x49, 0x54]"

definition wal_frame_header_len :: usize where
  "wal_frame_header_len = 32"

definition wal_commit_len :: usize where
  "wal_commit_len = 16"

definition wal_frame_overhead :: usize where
  "wal_frame_overhead = wal_frame_header_len + wal_commit_len"

definition bootstrap_kind :: u8 where "bootstrap_kind = 1"
definition append_kind :: u8 where "append_kind = 2"
definition truncate_kind :: u8 where "truncate_kind = 3"
definition replace_kind :: u8 where "replace_kind = 4"
definition nullable_append_kind :: u8 where "nullable_append_kind = 5"
definition nullable_replace_kind :: u8 where "nullable_replace_kind = 6"

definition query_limit_field_count :: usize where
  "query_limit_field_count = 10"

lemmas wal_layout [simp] =
  wal_frame_header_len_def wal_commit_len_def wal_frame_overhead_def query_limit_field_count_def

lemmas wal_kinds = bootstrap_kind_def append_kind_def truncate_kind_def replace_kind_def
  nullable_append_kind_def nullable_replace_kind_def

lemma length_wal_magics [simp]: "length wal_magic = 8" "length wal_commit_magic = 8"
  by (simp_all add: wal_magic_def wal_commit_magic_def)

record wal_limits =
  wal_max_file_bytes :: usize
  wal_max_record_bytes :: usize
  wal_max_records :: usize

definition wal_limits_new :: "usize \<Rightarrow> usize \<Rightarrow> usize \<Rightarrow> wal_limits" where
  "wal_limits_new file_bytes record_bytes records =
     \<lparr>wal_max_file_bytes = file_bytes, wal_max_record_bytes = record_bytes, wal_max_records = records\<rparr>"

definition wal_limits_default :: wal_limits where
  "wal_limits_default = wal_limits_new (64 * 1024 * 1024) (8 * 1024 * 1024) 1000000"

datatype wal_limit_error =
  WalFileBytes u64 usize
| WalRecordBytes u64 u64 usize
| WalRecords u64 usize

datatype wal_corruption =
  WalMissingBootstrap
| WalIncompatibleMagic u64 "u8 list"
| WalUnsupportedVersion u64 u16 u16
| WalUnsupportedKind u64 u8
| WalInvalidReservedByte u64 u8
| WalSequence u64 u64
| WalCommitMagic u64 "u8 list"
| WalCommitSequence u64 u64
| WalChecksum u64 u32 u32
| WalPayloadLength u64 u64 u64
| WalUnexpectedBootstrap u64
| WalMalformedPayload u64 string

text \<open>\<open>WalPanic\<close> stands for the panics of \<open>expect\<close> in the writer.\<close>

datatype 'io wal_error =
  WalLimit wal_limit_error
| WalCorruption wal_corruption
| WalInvalidDestination
| WalOpenParent 'io
| WalCreate 'io
| WalOpen 'io
| WalMetadata 'io
| WalNotRegularFile
| WalRead 'io
| WalWrite 'io
| WalSyncFile 'io
| WalSyncParent 'io
| WalPoisoned
| WalPanic

section \<open>Writing fields\<close>

definition push_usize :: "usize \<Rightarrow> u8 list" where
  "push_usize n = to_le 8 (of_nat n :: u64)"

definition push_bytes :: "u8 list \<Rightarrow> u8 list" where
  "push_bytes bs = push_usize (length bs) @ bs"

definition push_nullable_i64 :: "nullable_i64 \<Rightarrow> u8 list" where
  "push_nullable_i64 v = (if v = None then 0 else 1) # to_le 8 (case v of None \<Rightarrow> 0 | Some x \<Rightarrow> x)"

text \<open>One value of a row, a missing value in a log without nulls is a panic (\<open>None\<close>).\<close>

definition push_value :: "bool \<Rightarrow> nullable_i64 \<Rightarrow> u8 list option" where
  "push_value nullable v =
     (if nullable then Some (push_nullable_i64 v) else map_option (to_le 8) v)"

fun push_values :: "bool \<Rightarrow> nullable_i64 list \<Rightarrow> u8 list option" where
  "push_values nullable [] = Some []"
| "push_values nullable (v # vs) =
     Option.bind (push_value nullable v) (\<lambda>bs. map_option (append bs) (push_values nullable vs))"

fun push_replacements :: "bool \<Rightarrow> (usize \<times> nullable_i64) list \<Rightarrow> u8 list option" where
  "push_replacements nullable [] = Some []"
| "push_replacements nullable ((row, v) # rs) =
     Option.bind (push_value nullable v) (\<lambda>bs.
       map_option (append (push_usize row @ bs)) (push_replacements nullable rs))"

section \<open>Reading fields\<close>

record payload_reader =
  pr_payload :: "u8 list"
  pr_offset :: usize
  pr_sequence :: u64

definition pr_new :: "u8 list \<Rightarrow> u64 \<Rightarrow> payload_reader" where
  "pr_new payload sequence = \<lparr>pr_payload = payload, pr_offset = 0, pr_sequence = sequence\<rparr>"

definition pr_malformed :: "payload_reader \<Rightarrow> string \<Rightarrow> wal_corruption" where
  "pr_malformed r field = WalMalformedPayload (pr_sequence r) field"

definition pr_byte :: "string \<Rightarrow> payload_reader \<Rightarrow> wal_corruption + u8 \<times> payload_reader" where
  "pr_byte field r =
     (case slice_get (pr_payload r) (pr_offset r) of
        None \<Rightarrow> Inl (pr_malformed r field)
      | Some b \<Rightarrow> Inr (b, r\<lparr>pr_offset := pr_offset r + 1\<rparr>))"

text \<open>The next \<open>n\<close> bytes, as \<open>u64\<close>, \<open>i64\<close> and \<open>string\<close> take them.\<close>

definition pr_take :: "usize \<Rightarrow> string \<Rightarrow> payload_reader \<Rightarrow> wal_corruption + u8 list \<times> payload_reader" where
  "pr_take n field r =
     (case checked_add (pr_offset r) n of
        None \<Rightarrow> Inl (pr_malformed r field)
      | Some e \<Rightarrow>
          if e \<le> length (pr_payload r)
          then Inr (read_array n (pr_payload r) (pr_offset r), r\<lparr>pr_offset := e\<rparr>)
          else Inl (pr_malformed r field))"

definition pr_u64 :: "string \<Rightarrow> payload_reader \<Rightarrow> wal_corruption + u64 \<times> payload_reader" where
  "pr_u64 field r = res_bind (pr_take 8 field r) (\<lambda>(bs, r'). Inr (from_le bs, r'))"

definition pr_usize :: "string \<Rightarrow> payload_reader \<Rightarrow> wal_corruption + usize \<times> payload_reader" where
  "pr_usize field r =
     res_bind (pr_u64 field r) (\<lambda>(w, r').
     res_bind (ok_or (usize_of_u64 w) (pr_malformed r' field)) (\<lambda>n. Inr (n, r')))"

definition pr_i64 :: "string \<Rightarrow> payload_reader \<Rightarrow> wal_corruption + i64 \<times> payload_reader" where
  "pr_i64 field r = res_bind (pr_take 8 field r) (\<lambda>(bs, r'). Inr (from_le bs, r'))"

definition pr_nullable_i64 ::
  "string \<Rightarrow> payload_reader \<Rightarrow> wal_corruption + nullable_i64 \<times> payload_reader" where
  "pr_nullable_i64 field r =
     res_bind (pr_byte field r) (\<lambda>(present, r1).
     res_bind (pr_i64 field r1) (\<lambda>(v, r2).
     if present = 0 \<and> v = 0 then Inr (None, r2)
     else if present = 1 then Inr (Some v, r2)
     else Inl (pr_malformed r2 field)))"

definition pr_string :: "string \<Rightarrow> payload_reader \<Rightarrow> wal_corruption + string \<times> payload_reader" where
  "pr_string field r =
     res_bind (pr_usize field r) (\<lambda>(n, r1).
     res_bind (pr_take n field r1) (\<lambda>(bs, r2).
     case from_utf8 0 bs of
       Inl _ \<Rightarrow> Inl (pr_malformed r1 field)
     | Inr _ \<Rightarrow> Inr (str_of_bytes bs, r2)))"

definition pr_remaining :: "payload_reader \<Rightarrow> usize" where
  "pr_remaining r = saturating_sub (length (pr_payload r)) (pr_offset r)"

definition pr_finish :: "payload_reader \<Rightarrow> wal_corruption + unit" where
  "pr_finish r =
     (if pr_offset r = length (pr_payload r) then Inr () else Inl (pr_malformed r ''trailing payload bytes''))"

fun pr_usizes :: "string list \<Rightarrow> payload_reader \<Rightarrow> wal_corruption + usize list \<times> payload_reader" where
  "pr_usizes [] r = Inr ([], r)"
| "pr_usizes (field # names) r =
     res_bind (pr_usize field r) (\<lambda>(n, r1).
     res_bind (pr_usizes names r1) (\<lambda>(ns, r2). Inr (n # ns, r2)))"

text \<open>A row value of a log with or without nulls, and a counted loop over values.\<close>

definition pr_value :: "bool \<Rightarrow> string \<Rightarrow> payload_reader \<Rightarrow> wal_corruption + nullable_i64 \<times> payload_reader" where
  "pr_value nullable field r =
     (if nullable then pr_nullable_i64 field r
      else res_bind (pr_i64 field r) (\<lambda>(v, r'). Inr (Some v, r')))"

fun pr_values ::
  "bool \<Rightarrow> string \<Rightarrow> nat \<Rightarrow> payload_reader \<Rightarrow> wal_corruption + nullable_i64 list \<times> payload_reader" where
  "pr_values nullable field 0 r = Inr ([], r)"
| "pr_values nullable field (Suc n) r =
     res_bind (pr_value nullable field r) (\<lambda>(v, r1).
     res_bind (pr_values nullable field n r1) (\<lambda>(vs, r2). Inr (v # vs, r2)))"

section \<open>The bootstrap record\<close>

record wal_bootstrap =
  wb_table_name :: string
  wb_column_name :: string
  wb_table_limits :: "usize list"
  wb_database_table_limits :: "usize list"
  wb_query_limits :: "usize list"
  wb_worker_cap :: usize
  wb_nullable :: bool
  wb_values :: "nullable_i64 list"

definition value_bytes :: "bool \<Rightarrow> usize" where
  "value_bytes nullable = (if nullable then 9 else 8)"

definition bootstrap_payload_len :: "usize \<Rightarrow> usize \<Rightarrow> usize \<Rightarrow> bool \<Rightarrow> usize option" where
  "bootstrap_payload_len table_name_bytes column_name_bytes rows nullable =
     Option.bind (checked_mul 2 8) (\<lambda>names.
     Option.bind (checked_add names 1) (\<lambda>flag.
     Option.bind (Option.bind (checked_mul 6 8) (checked_add flag)) (\<lambda>table_limits.
     Option.bind (Option.bind (checked_mul 10 8) (checked_add table_limits)) (\<lambda>query_limits.
     Option.bind (Option.bind (checked_mul 2 8) (checked_add query_limits)) (\<lambda>fixed.
     Option.bind (checked_add fixed table_name_bytes) (\<lambda>table.
     Option.bind (checked_add table column_name_bytes) (\<lambda>names.
     Option.bind (checked_mul rows (value_bytes nullable)) (checked_add names))))))))"

definition encode_bootstrap :: "wal_bootstrap \<Rightarrow> u8 list option" where
  "encode_bootstrap b =
     Option.bind (bootstrap_payload_len (length (wb_table_name b)) (length (wb_column_name b))
         (length (wb_values b)) (wb_nullable b)) (\<lambda>capacity.
     map_option (\<lambda>rows.
       push_bytes (bytes_of_str (wb_table_name b)) @ push_bytes (bytes_of_str (wb_column_name b)) @
       [if wb_nullable b then 1 else 0] @
       concat (map push_usize (wb_table_limits b)) @
       concat (map push_usize (wb_database_table_limits b)) @
       concat (map push_usize (wb_query_limits b)) @
       push_usize (wb_worker_cap b) @ push_usize (length (wb_values b)) @ rows)
     (push_values (wb_nullable b) (wb_values b)))"

text \<open>The persisted limits must cover the current shape of the table: at least one column, and the
  rows within the row and cell limits.\<close>

definition validate_bootstrap_caps :: "payload_reader \<Rightarrow> usize list \<Rightarrow> usize \<Rightarrow> wal_corruption + unit" where
  "validate_bootstrap_caps r table_limits row_count =
     (if table_limits ! 1 < 1 \<or> table_limits ! 2 < row_count \<or> table_limits ! 0 < row_count
      then Inl (pr_malformed r ''table resource limits'') else Inr ())"

definition decode_bootstrap :: "u8 list \<Rightarrow> u64 \<Rightarrow> wal_corruption + wal_bootstrap" where
  "decode_bootstrap payload sequence =
     res_bind (pr_string ''table name'' (pr_new payload sequence)) (\<lambda>(table_name, r).
     res_bind (pr_string ''column name'' r) (\<lambda>(column_name, r).
     res_bind (pr_byte ''nullability'' r) (\<lambda>(nullability, r).
     if nullability > 1 then Inl (pr_malformed r ''nullability'')
     else let nullable = (nullability = 1) in
     res_bind (pr_usizes [''table row cap'', ''table column cap'', ''table cell cap''] r) (\<lambda>(table_limits, r).
     res_bind (pr_usizes [''database table row cap'', ''database table column cap'', ''database table cell cap''] r)
       (\<lambda>(database_table_limits, r).
     res_bind (pr_usizes (replicate query_limit_field_count ''query limit'') r) (\<lambda>(query_limits, r).
     res_bind (pr_usize ''worker cap'' r) (\<lambda>(worker_cap, r).
     if worker_cap = 0 then Inl (pr_malformed r ''worker cap'')
     else res_bind (pr_usize ''row count'' r) (\<lambda>(row_count, r).
     res_bind (validate_bootstrap_caps r table_limits row_count) (\<lambda>_.
     res_bind (ok_or (checked_mul row_count (value_bytes nullable)) (pr_malformed r ''row count''))
       (\<lambda>required_value_bytes.
     if pr_remaining r \<noteq> required_value_bytes then Inl (pr_malformed r ''row values'')
     else res_bind (pr_values nullable ''row value'' row_count r) (\<lambda>(vs, r).
     res_bind (pr_finish r) (\<lambda>_.
     Inr \<lparr>wb_table_name = table_name, wb_column_name = column_name, wb_table_limits = table_limits,
       wb_database_table_limits = database_table_limits, wb_query_limits = query_limits,
       wb_worker_cap = worker_cap, wb_nullable = nullable, wb_values = vs\<rparr>))))))))))))"

section \<open>The other records\<close>

text \<open>\<open>apply_append\<close> and \<open>apply_nullable_append\<close> check the kind before and after the row
  count, which shows in the field a short payload is blamed on.\<close>

definition append_rows ::
  "bool \<Rightarrow> payload_reader \<Rightarrow> usize \<Rightarrow> wal_bootstrap \<Rightarrow> wal_corruption + wal_bootstrap" where
  "append_rows nullable r count b =
     res_bind (ok_or (checked_mul count (value_bytes nullable)) (pr_malformed r ''append row count'')) (\<lambda>bytes.
     if pr_remaining r \<noteq> bytes then Inl (pr_malformed r ''append values'')
     else res_bind (ok_or (checked_add (length (wb_values b)) count) (pr_malformed r ''append row count''))
       (\<lambda>new_rows.
     if new_rows > wb_table_limits b ! 0 \<or> new_rows > wb_table_limits b ! 2
     then Inl (pr_malformed r ''append table resource limits'')
     else res_bind (pr_values nullable ''append value'' count r) (\<lambda>(vs, r').
     res_bind (pr_finish r') (\<lambda>_. Inr (b\<lparr>wb_values := wb_values b @ vs\<rparr>)))))"

definition apply_append :: "u8 list \<Rightarrow> u64 \<Rightarrow> wal_bootstrap \<Rightarrow> wal_corruption + wal_bootstrap" where
  "apply_append payload sequence b =
     res_bind (pr_usize ''append row count'' (pr_new payload sequence)) (\<lambda>(count, r).
     if wb_nullable b then Inl (pr_malformed r ''non-nullable append kind'')
     else append_rows False r count b)"

definition apply_nullable_append :: "u8 list \<Rightarrow> u64 \<Rightarrow> wal_bootstrap \<Rightarrow> wal_corruption + wal_bootstrap" where
  "apply_nullable_append payload sequence b =
     (let r = pr_new payload sequence in
      if \<not> wb_nullable b then Inl (pr_malformed r ''nullable append kind'')
      else res_bind (pr_usize ''append row count'' r) (\<lambda>(count, r). append_rows True r count b))"

definition apply_truncate :: "u8 list \<Rightarrow> u64 \<Rightarrow> wal_bootstrap \<Rightarrow> wal_corruption + wal_bootstrap" where
  "apply_truncate payload sequence b =
     (if payload \<noteq> [] then Inl (WalMalformedPayload sequence ''truncate payload'')
      else Inr (b\<lparr>wb_values := []\<rparr>))"

text \<open>The loop over the replacements: rows must be in range and strictly ascending.\<close>

fun pr_replacements ::
  "bool \<Rightarrow> usize \<Rightarrow> usize option \<Rightarrow> nat \<Rightarrow> payload_reader \<Rightarrow>
     wal_corruption + (usize \<times> nullable_i64) list \<times> payload_reader"
where
  "pr_replacements nullable rows previous 0 r = Inr ([], r)"
| "pr_replacements nullable rows previous (Suc n) r =
     res_bind (pr_usize ''replacement row'' r) (\<lambda>(row, r1).
     res_bind (pr_value nullable ''replacement value'' r1) (\<lambda>(v, r2).
     if row \<ge> rows \<or> (case previous of None \<Rightarrow> False | Some p \<Rightarrow> row \<le> p)
     then Inl (pr_malformed r2 ''replacement row selection'')
     else res_bind (pr_replacements nullable rows (Some row) n r2) (\<lambda>(rs, r3).
     Inr ((row, v) # rs, r3))))"

fun replace_rows :: "(usize \<times> nullable_i64) list \<Rightarrow> nullable_i64 list \<Rightarrow> nullable_i64 list" where
  "replace_rows [] vs = vs"
| "replace_rows ((row, v) # rs) vs = replace_rows rs (vs[row := v])"

definition replacement_bytes :: "bool \<Rightarrow> usize" where
  "replacement_bytes nullable = (if nullable then 17 else 16)"

definition replace_counted ::
  "bool \<Rightarrow> payload_reader \<Rightarrow> wal_bootstrap \<Rightarrow> wal_corruption + wal_bootstrap" where
  "replace_counted nullable r b =
     res_bind (pr_usize ''replacement count'' r) (\<lambda>(count, r).
     res_bind (ok_or (checked_mul count (replacement_bytes nullable)) (pr_malformed r ''replacement count''))
       (\<lambda>bytes.
     if pr_remaining r \<noteq> bytes then Inl (pr_malformed r ''replacement values'')
     else res_bind (pr_replacements nullable (length (wb_values b)) None count r) (\<lambda>(rs, r').
     res_bind (pr_finish r') (\<lambda>_. Inr (b\<lparr>wb_values := replace_rows rs (wb_values b)\<rparr>)))))"

definition apply_replace :: "u8 list \<Rightarrow> u64 \<Rightarrow> wal_bootstrap \<Rightarrow> wal_corruption + wal_bootstrap" where
  "apply_replace payload sequence b =
     (let r = pr_new payload sequence in
      if wb_nullable b then Inl (pr_malformed r ''non-nullable replacement kind'')
      else replace_counted False r b)"

definition apply_nullable_replace :: "u8 list \<Rightarrow> u64 \<Rightarrow> wal_bootstrap \<Rightarrow> wal_corruption + wal_bootstrap" where
  "apply_nullable_replace payload sequence b =
     (let r = pr_new payload sequence in
      if \<not> wb_nullable b then Inl (pr_malformed r ''nullable replacement kind'')
      else replace_counted True r b)"

section \<open>The frame\<close>

definition crc32_update :: "u32 \<Rightarrow> u8 list \<Rightarrow> u32" where
  "crc32_update checksum bytes = foldl crc_byte checksum bytes"

definition record_checksum :: "u16 \<Rightarrow> u8 \<Rightarrow> u8 \<Rightarrow> u64 \<Rightarrow> u8 list \<Rightarrow> u32" where
  "record_checksum version kind reserved sequence payload =
     (let c = crc32_update (- 1) (to_le 2 version);
          c = crc32_update c [kind, reserved];
          c = crc32_update c (to_le 8 sequence);
          c = crc32_update c (to_le 8 (of_nat (length payload) :: u64));
          c = crc32_update c payload
      in NOT c)"

definition encode_record_parts :: "u8 \<Rightarrow> u64 \<Rightarrow> u8 list \<Rightarrow> u8 list \<times> u8 list" where
  "encode_record_parts kind sequence payload =
     (let checksum = record_checksum wal_version kind 0 sequence payload in
      (wal_magic @ to_le 2 wal_version @ [kind] @ [0] @ to_le 8 sequence @
         to_le 8 (of_nat (length payload) :: u64) @ to_le 4 checksum @ payload,
       wal_commit_magic @ to_le 8 sequence))"

definition validate_record_limits ::
  "u64 \<Rightarrow> usize \<Rightarrow> usize \<Rightarrow> usize \<Rightarrow> wal_limits \<Rightarrow> wal_limit_error + usize" where
  "validate_record_limits sequence payload_len current_file_bytes current_records limits =
     (if payload_len > wal_max_record_bytes limits
      then Inl (WalRecordBytes sequence (of_nat payload_len) (wal_max_record_bytes limits))
      else let records = saturating_add current_records 1 in
      if records > wal_max_records limits then Inl (WalRecords (of_nat records) (wal_max_records limits))
      else let reported = u64_or_max (current_file_bytes + wal_frame_overhead + payload_len);
               too_large = WalFileBytes reported (wal_max_file_bytes limits) in
      res_bind (ok_or (checked_add wal_frame_overhead payload_len) too_large) (\<lambda>frame_len.
      res_bind (ok_or (checked_add current_file_bytes frame_len) too_large) (\<lambda>file_bytes.
      if file_bytes > wal_max_file_bytes limits then Inl too_large else Inr file_bytes)))"

section \<open>Fields read back\<close>

definition at_offset :: "u8 list \<Rightarrow> u64 \<Rightarrow> usize \<Rightarrow> payload_reader" where
  "at_offset p s off = \<lparr>pr_payload = p, pr_offset = off, pr_sequence = s\<rparr>"

lemma at_offset_simps [simp]:
  "pr_payload (at_offset p s off) = p" "pr_offset (at_offset p s off) = off"
  "pr_sequence (at_offset p s off) = s" "(at_offset p s off)\<lparr>pr_offset := off'\<rparr> = at_offset p s off'"
  "pr_new p s = at_offset p s 0"
  by (simp_all add: at_offset_def pr_new_def)

lemma length_push [simp]: "length (push_usize n) = 8" "length (push_bytes bs) = 8 + length bs"
  "length (push_nullable_i64 v) = 9"
  by (simp_all add: push_usize_def push_bytes_def push_nullable_i64_def)

text \<open>The reading lemmas: bytes that stand at the offset are read and stepped over.\<close>

named_theorems reading

lemma pr_take_at:
  assumes "stands_at bs p off" and "bs \<noteq> []" and "length p < usize_max"
  shows "pr_take (length bs) field (at_offset p s off) = Inr (bs, at_offset p s (off + length bs))"
proof -
  have "off + length bs \<le> length p" by (rule stands_at_bound) (rule assms)+
  moreover from this have "checked_add off (length bs) = Some (off + length bs)"
    using assms(3) by (simp add: checked_add_Some_iff)
  ultimately show ?thesis using stands_at_read_array [OF assms(1)] by (simp add: pr_take_def)
qed

lemma pr_byte_at [reading]:
  "stands_at [b] p off \<Longrightarrow> pr_byte field (at_offset p s off) = Inr (b, at_offset p s (off + 1))"
  by (simp add: pr_byte_def stands_at_Cons)

lemma to_le_nonempty [simp]: "to_le 8 w \<noteq> []"
  using length_to_le [of 8 w] by (metis list.size(3) zero_neq_numeral)

lemma pr_i64_at [reading]:
  "stands_at (to_le 8 w) p off \<Longrightarrow> length p < usize_max \<Longrightarrow>
     pr_i64 field (at_offset p s off) = Inr (w, at_offset p s (off + 8))"
  using pr_take_at [of "to_le 8 w" p off field s] by (simp add: pr_i64_def)

lemma pr_usize_at [reading]:
  assumes "stands_at (push_usize n) p off" and "length p < usize_max" and "n \<le> usize_max"
  shows "pr_usize field (at_offset p s off) = Inr (n, at_offset p s (off + 8))"
  using pr_take_at [of "to_le 8 (of_nat n :: u64)" p off field s] assms
  by (simp add: pr_usize_def pr_u64_def push_usize_def usize_of_u64_eq unat_of_nat_u64)

lemma pr_usizes_at [reading]:
  assumes "stands_at (concat (map push_usize ns)) p off" and "length p < usize_max"
    and "\<forall>n\<in>set ns. n \<le> usize_max" and "length names = length ns"
  shows "pr_usizes names (at_offset p s off) = Inr (ns, at_offset p s (off + 8 * length ns))"
  using assms
proof (induction ns arbitrary: names off)
  case (Cons n ns)
  then obtain field names' where names: "names = field # names'" by (cases names) auto
  from Cons.prems have "stands_at (push_usize n) p off" "n \<le> usize_max" by (simp_all add: stands_at_append)
  note head = pr_usize_at [OF this(1) Cons.prems(2) this(2)]
  from Cons.prems have "stands_at (concat (map push_usize ns)) p (off + 8)" by (simp add: stands_at_append)
  with Cons.IH [OF this Cons.prems(2), of names'] Cons.prems show ?case
    by (simp add: names head algebra_simps)
qed simp

lemma pr_string_at [reading]:
  assumes "stands_at (push_bytes (bytes_of_str str)) p off" and "length p < usize_max" and "utf8_valid str"
  shows "pr_string field (at_offset p s off) = Inr (str, at_offset p s (off + 8 + length str))"
proof -
  let ?n = "length (bytes_of_str str)"
  have parts: "stands_at (push_usize ?n) p off" "stands_at (bytes_of_str str) p (off + 8)"
    using assms(1) by (simp_all add: push_bytes_def stands_at_append)
  have bound: "off + 8 + ?n \<le> length p"
    using stands_at_bound [OF assms(1)] by (simp add: push_bytes_def push_usize_def)
  have n: "pr_usize field (at_offset p s off) = Inr (?n, at_offset p s (off + 8))"
    using bound assms(2) by (intro pr_usize_at parts(1)) simp_all
  have "pr_take ?n field (at_offset p s (off + 8)) = Inr (bytes_of_str str, at_offset p s (off + 8 + ?n))"
    using bound assms(2) stands_at_read_array [OF parts(2)] by (simp add: pr_take_def checked_add_def)
  with n assms(3) show ?thesis by (simp add: pr_string_def utf8_valid_def)
qed

lemma pr_value_at [reading]:
  assumes "push_value nullable v = Some bs" and "stands_at bs p off" and "length p < usize_max"
  shows "pr_value nullable field (at_offset p s off) = Inr (v, at_offset p s (off + value_bytes nullable))"
  using assms
  by (cases v) (auto simp: push_value_def pr_value_def value_bytes_def pr_nullable_i64_def push_nullable_i64_def
      stands_at_append [of "[_]" "to_le 8 _", simplified] pr_byte_at pr_i64_at split: if_splits)

lemma length_push_value: "push_value nullable v = Some bs \<Longrightarrow> length bs = value_bytes nullable"
  by (auto simp: push_value_def value_bytes_def split: if_splits)

lemma length_push_values: "push_values nullable vs = Some bs \<Longrightarrow> length bs = length vs * value_bytes nullable"
  by (induction vs arbitrary: bs) (auto simp: Option.bind_eq_Some_conv dest: length_push_value)

lemma replacement_bytes_eq: "replacement_bytes nullable = 8 + value_bytes nullable"
  by (simp add: replacement_bytes_def value_bytes_def)

lemma length_push_replacements:
  "push_replacements nullable rs = Some bs \<Longrightarrow> length bs = length rs * replacement_bytes nullable"
  by (induction nullable rs arbitrary: bs rule: push_replacements.induct)
    (auto simp: Option.bind_eq_Some_conv replacement_bytes_eq dest: length_push_value)

lemma pr_values_at:
  assumes "push_values nullable vs = Some bs" and "stands_at bs p off" and "length p < usize_max"
  shows "pr_values nullable field (length vs) (at_offset p s off) =
    Inr (vs, at_offset p s (off + length vs * value_bytes nullable))"
  using assms
proof (induction vs arbitrary: bs off)
  case (Cons v vs)
  then obtain b bs' where bs: "push_value nullable v = Some b" "push_values nullable vs = Some bs'" "bs = b @ bs'"
    by (auto simp: Option.bind_eq_Some_conv)
  with Cons.prems(2) have stands: "stands_at b p off" "stands_at bs' p (off + value_bytes nullable)"
    by (simp_all add: stands_at_append length_push_value)
  show ?case
    using pr_value_at [OF bs(1) stands(1) assms(3)] Cons.IH [OF bs(2) stands(2) assms(3)]
    by (simp add: add.assoc)
qed simp

text \<open>Replacements of ascending rows, all after the previous row and within the table.\<close>

definition ascending_rows :: "usize \<Rightarrow> usize option \<Rightarrow> (usize \<times> nullable_i64) list \<Rightarrow> bool" where
  "ascending_rows rows previous rs \<longleftrightarrow>
     sorted_wrt (<) (map fst rs) \<and>
     (\<forall>row\<in>fst ` set rs. row < rows \<and> (case previous of None \<Rightarrow> True | Some p \<Rightarrow> p < row))"

lemma pr_replacements_at:
  assumes "push_replacements nullable rs = Some bs" and "stands_at bs p off" and "length p < usize_max"
    and "ascending_rows rows previous rs" and "rows \<le> usize_max"
  shows "pr_replacements nullable rows previous (length rs) (at_offset p s off) =
    Inr (rs, at_offset p s (off + length rs * replacement_bytes nullable))"
  using assms
proof (induction nullable rs arbitrary: bs off previous rule: push_replacements.induct)
  case (2 nullable row v rs)
  then obtain b bs' where bs: "push_value nullable v = Some b" "push_replacements nullable rs = Some bs'"
      "bs = (push_usize row @ b) @ bs'"
    by (auto simp: Option.bind_eq_Some_conv)
  with "2.prems"(2) have stands: "stands_at (push_usize row) p off" "stands_at b p (off + 8)"
      "stands_at bs' p (off + replacement_bytes nullable)"
    by (simp_all add: stands_at_append length_push_value replacement_bytes_eq add.assoc)
  have row: "row < rows" "row \<le> usize_max" "case previous of None \<Rightarrow> True | Some p \<Rightarrow> p < row"
    and rest: "ascending_rows rows (Some row) rs"
    using "2.prems"(4,5) by (auto simp: ascending_rows_def)
  have check: "\<not> (row \<ge> rows \<or> (case previous of None \<Rightarrow> False | Some p \<Rightarrow> row \<le> p))"
    using row by (auto split: option.splits)
  show ?case
    using pr_usize_at [OF stands(1) assms(3) row(2)] pr_value_at [OF bs(1) stands(2) assms(3)]
      "2.IH" [OF bs(1,2) stands(3) assms(3) rest "2.prems"(5)] check
    by (simp add: replacement_bytes_eq algebra_simps)
qed simp

section \<open>What a writer logs is what replay applies\<close>

definition bootstrap_ok :: "wal_bootstrap \<Rightarrow> bool" where
  "bootstrap_ok b \<longleftrightarrow>
     utf8_valid (wb_table_name b) \<and> utf8_valid (wb_column_name b) \<and>
     length (wb_table_limits b) = 3 \<and> length (wb_database_table_limits b) = 3 \<and>
     length (wb_query_limits b) = 10 \<and>
     (\<forall>n\<in>set (wb_table_limits b) \<union> set (wb_database_table_limits b) \<union> set (wb_query_limits b). n \<le> usize_max) \<and>
     0 < wb_worker_cap b \<and> wb_worker_cap b \<le> usize_max \<and>
     1 \<le> wb_table_limits b ! 1 \<and> length (wb_values b) \<le> wb_table_limits b ! 2 \<and>
     length (wb_values b) \<le> wb_table_limits b ! 0"

lemma decode_encode_bootstrap:
  assumes "bootstrap_ok b" and "encode_bootstrap b = Some payload" and "length payload < usize_max"
  shows "decode_bootstrap payload s = Inr b"
proof -
  let ?n = "wb_nullable b" and ?vs = "wb_values b"
  let ?tl = "wb_table_limits b" and ?dl = "wb_database_table_limits b" and ?ql = "wb_query_limits b"
  let ?tn = "length (wb_table_name b)" and ?cn = "length (wb_column_name b)"
  note ok = assms(1) [unfolded bootstrap_ok_def]
  obtain rows flag where rows: "push_values ?n ?vs = Some rows" and flag: "flag = [if ?n then 1 else 0]"
    and payload: "payload =
      push_bytes (bytes_of_str (wb_table_name b)) @ push_bytes (bytes_of_str (wb_column_name b)) @
      flag @ concat (map push_usize ?tl) @ concat (map push_usize ?dl) @
      concat (map push_usize ?ql) @ push_usize (wb_worker_cap b) @ push_usize (length ?vs) @ rows"
    using assms(2) by (auto simp: encode_bootstrap_def Option.bind_eq_Some_conv)
  have len: "length (concat (map push_usize ns)) = 8 * length ns" for ns by (induction ns) simp_all
  have len1: "length flag = 1" by (simp add: flag)
  let ?at = "at_offset payload s"
  let ?o1 = "8 + ?tn" let ?o2 = "?o1 + (8 + ?cn)" let ?o3 = "?o2 + 1" let ?o4 = "?o3 + 24"
  let ?o5 = "?o4 + 24" let ?o6 = "?o5 + 80" let ?o7 = "?o6 + 8" let ?o8 = "?o7 + 8"
  have "stands_at payload payload 0" by (simp add: stands_at_def)
  then have st: "stands_at (push_bytes (bytes_of_str (wb_table_name b))) payload 0"
    "stands_at (push_bytes (bytes_of_str (wb_column_name b))) payload ?o1" "stands_at flag payload ?o2"
    "stands_at (concat (map push_usize ?tl)) payload ?o3" "stands_at (concat (map push_usize ?dl)) payload ?o4"
    "stands_at (concat (map push_usize ?ql)) payload ?o5" "stands_at (push_usize (wb_worker_cap b)) payload ?o6"
    "stands_at (push_usize (length ?vs)) payload ?o7" "stands_at rows payload ?o8"
    unfolding arg_cong [OF payload, of "\<lambda>x. stands_at x payload 0"]
    using ok by (simp_all add: stands_at_append len len1 add.assoc)
  have size: "length payload = ?o8 + length ?vs * value_bytes ?n"
    using ok by (simp add: payload len len1 length_push_values [OF rows])
  have bytes: "length ?vs * value_bytes ?n \<le> usize_max" using size assms(3) by simp
  moreover have "length ?vs \<le> length ?vs * value_bytes ?n" by (simp add: value_bytes_def)
  ultimately have count: "length ?vs \<le> usize_max" by (rule order_trans [rotated])
  have reads: "pr_string f (?at 0) = Inr (wb_table_name b, ?at ?o1)"
    "pr_string f (?at ?o1) = Inr (wb_column_name b, ?at ?o2)"
    "pr_byte f (?at ?o2) = Inr (if ?n then 1 else 0, ?at ?o3)"
    "length fs = 3 \<Longrightarrow> pr_usizes fs (?at ?o3) = Inr (?tl, ?at ?o4)"
    "length fs = 3 \<Longrightarrow> pr_usizes fs (?at ?o4) = Inr (?dl, ?at ?o5)"
    "length fs = 10 \<Longrightarrow> pr_usizes fs (?at ?o5) = Inr (?ql, ?at ?o6)"
    "pr_usize f (?at ?o6) = Inr (wb_worker_cap b, ?at ?o7)"
    "pr_usize f (?at ?o7) = Inr (length ?vs, ?at ?o8)"
    "pr_values ?n f (length ?vs) (?at ?o8) = Inr (?vs, ?at (length payload))" for f fs
    using pr_string_at [OF st(1) assms(3), of f s] pr_string_at [OF st(2) assms(3), of f s]
      pr_byte_at [OF st(3) [unfolded flag], of f s] pr_usizes_at [OF st(4) assms(3), of fs s]
      pr_usizes_at [OF st(5) assms(3), of fs s] pr_usizes_at [OF st(6) assms(3), of fs s]
      pr_usize_at [OF st(7) assms(3), of f s] pr_usize_at [OF st(8) assms(3), of f s]
      pr_values_at [OF rows st(9) assms(3), of f s] ok count size
    by (simp_all add: add.assoc)
  have caps: "validate_bootstrap_caps (?at ?o8) ?tl (length ?vs) = Inr ()"
    using ok by (simp add: validate_bootstrap_caps_def not_less)
  have fits: "checked_mul (length ?vs) (value_bytes ?n) = Some (length ?vs * value_bytes ?n)"
    using bytes by (simp add: checked_mul_def)
  have left: "pr_remaining (?at ?o8) = length ?vs * value_bytes ?n"
    using size by (simp add: pr_remaining_def saturating_sub_eq)
  have flags: "\<not> (1::u8) < (if ?n then 1 else 0)" "((if ?n then 1 else 0) = (1::u8)) = ?n" by simp_all
  have worker: "wb_worker_cap b \<noteq> 0" using ok by simp
  show ?thesis
    unfolding decode_bootstrap_def at_offset_simps(5) query_limit_field_count_def
    by (simp only: reads res_bind.simps prod.case flags worker if_False Let_def list.size length_replicate
        caps fits ok_or.simps left pr_finish_def at_offset_simps refl if_True not_False_eq_True simp_thms)
      simp
qed

end
