(* ===== verification/Wal_Log.thy ===== *)
theory Wal_Log
  imports Wal_Replay
begin

text \<open>
  What a log means: the operations that the writer logs (the payloads built in \<^verbatim>\<open>append_values\<close>,
  \<^verbatim>\<open>truncate\<close> and \<^verbatim>\<open>replace_values\<close> of \<^verbatim>\<open>src/batch/wal.rs\<close>), their effect on the rows of the table,
  and the proof that replaying complete frames and any torn part of one more gives exactly the
  effects of the complete ones.
\<close>

section \<open>Operations\<close>

datatype wal_op =
  LogAppend "nullable_i64 list"
| LogTruncate
| LogReplace "(usize \<times> nullable_i64) list"

fun op_kind :: "bool \<Rightarrow> wal_op \<Rightarrow> u8" where
  "op_kind nullable (LogAppend _) = (if nullable then nullable_append_kind else append_kind)"
| "op_kind nullable LogTruncate = truncate_kind"
| "op_kind nullable (LogReplace _) = (if nullable then nullable_replace_kind else replace_kind)"

text \<open>\<open>None\<close> is the panic of a missing value in a log without nulls.\<close>

fun op_payload :: "bool \<Rightarrow> wal_op \<Rightarrow> u8 list option" where
  "op_payload nullable (LogAppend vs) =
     map_option (append (push_usize (length vs))) (push_values nullable vs)"
| "op_payload nullable LogTruncate = Some []"
| "op_payload nullable (LogReplace rs) =
     map_option (append (push_usize (length rs))) (push_replacements nullable rs)"

fun op_effect :: "wal_op \<Rightarrow> nullable_i64 list \<Rightarrow> nullable_i64 list" where
  "op_effect (LogAppend vs) rows = rows @ vs"
| "op_effect LogTruncate rows = []"
| "op_effect (LogReplace rs) rows = replace_rows rs rows"

text \<open>What the table guarantees before it logs an operation: the rows fit its limits, replaced rows
  exist and come in order, and a table without nulls gets no missing value.\<close>

fun op_values :: "wal_op \<Rightarrow> nullable_i64 list" where
  "op_values (LogAppend vs) = vs"
| "op_values LogTruncate = []"
| "op_values (LogReplace rs) = map snd rs"

definition op_fits :: "bool \<Rightarrow> usize \<Rightarrow> nullable_i64 list \<Rightarrow> wal_op \<Rightarrow> bool" where
  "op_fits nullable max_rows rows op \<longleftrightarrow>
     (nullable \<or> None \<notin> set (op_values op)) \<and>
     (case op of
        LogAppend vs \<Rightarrow> length rows + length vs \<le> max_rows
      | LogTruncate \<Rightarrow> True
      | LogReplace rs \<Rightarrow> ascending_rows (length rows) None rs)"

lemma push_value_Some: "nullable \<or> None \<noteq> v \<Longrightarrow> \<exists>bs. push_value nullable v = Some bs"
  by (cases v) (auto simp: push_value_def)

lemma push_values_Some: "nullable \<or> None \<notin> set vs \<Longrightarrow> \<exists>bs. push_values nullable vs = Some bs"
proof (induction vs)
  case (Cons v vs)
  then show ?case using push_value_Some [of nullable v] by auto
qed simp

lemma push_replacements_Some:
  "nullable \<or> None \<notin> snd ` set rs \<Longrightarrow> \<exists>bs. push_replacements nullable rs = Some bs"
proof (induction nullable rs rule: push_replacements.induct)
  case (2 nullable row v rs)
  then show ?case using push_value_Some [of nullable v] by fastforce
qed simp

lemma op_payload_Some:
  "nullable \<or> None \<notin> set (op_values op) \<Longrightarrow> \<exists>payload. op_payload nullable op = Some payload"
  by (cases op) (auto dest!: push_values_Some [of nullable] push_replacements_Some [of nullable])

lemma length_replace_rows [simp]: "length (replace_rows rs rows) = length rows"
  by (induction rs rows rule: replace_rows.induct) simp_all

section \<open>Replay applies the effect\<close>

definition max_table_rows :: "wal_bootstrap \<Rightarrow> usize" where
  "max_table_rows b = min (wb_table_limits b ! 0) (wb_table_limits b ! 2)"

lemma append_rows_at:
  assumes vs: "push_values n vs = Some bs" and p: "p = push_usize (length vs) @ bs"
    and size: "length p < usize_max"
    and fits: "length (wb_values b) + length vs \<le> max_table_rows b" and cap: "max_table_rows b \<le> usize_max"
  shows "append_rows n (at_offset p s 8) (length vs) b = Inr (b\<lparr>wb_values := wb_values b @ vs\<rparr>)"
proof -
  have stands: "stands_at bs p 8" by (simp add: p stands_at_def)
  have len: "length p = 8 + length vs * value_bytes n" by (simp add: p length_push_values [OF vs])
  have "length vs * value_bytes n \<le> usize_max" using len size by simp
  moreover have "length (wb_values b) + length vs \<le> usize_max" using fits cap by simp
  moreover have "\<not> (length (wb_values b) + length vs > wb_table_limits b ! 0 \<or>
      length (wb_values b) + length vs > wb_table_limits b ! 2)"
    using fits by (simp add: max_table_rows_def)
  ultimately show ?thesis
    using pr_values_at [OF vs stands size, of "''append value''" s]
    by (simp add: append_rows_def checked_mul_def checked_add_def pr_remaining_def saturating_sub_eq len
        pr_finish_def)
qed

lemma replace_counted_at:
  assumes rs: "push_replacements n rs = Some bs" and p: "p = push_usize (length rs) @ bs"
    and size: "length p < usize_max"
    and rows: "ascending_rows (length (wb_values b)) None rs" "length (wb_values b) \<le> usize_max"
  shows "replace_counted n (at_offset p s 0) b = Inr (b\<lparr>wb_values := replace_rows rs (wb_values b)\<rparr>)"
proof -
  have stands: "stands_at (push_usize (length rs)) p 0" "stands_at bs p 8"
    by (simp_all add: p stands_at_def)
  have len: "length p = 8 + length rs * replacement_bytes n" by (simp add: p length_push_replacements [OF rs])
  have bytes: "length rs * replacement_bytes n \<le> usize_max" using len size by simp
  moreover have "length rs \<le> length rs * replacement_bytes n" by (simp add: replacement_bytes_def)
  ultimately have "length rs \<le> usize_max" by (rule order_trans [rotated])
  with bytes show ?thesis
    using pr_usize_at [OF stands(1) size, of "''replacement count''" s]
      pr_replacements_at [OF rs stands(2) size rows, of s]
    by (simp add: replace_counted_def checked_mul_def pr_remaining_def saturating_sub_eq len pr_finish_def)
qed

lemma replay_record_op:
  assumes "op_fits (wb_nullable b) (max_table_rows b) (wb_values b) op"
    and payload: "op_payload (wb_nullable b) op = Some payload" "length payload < usize_max"
    and cap: "max_table_rows b \<le> usize_max" "length (wb_values b) \<le> usize_max"
  shows "replay_record (op_kind (wb_nullable b) op) payload s (Some b) =
    Inr (b\<lparr>wb_values := op_effect op (wb_values b)\<rparr>)"
proof (cases op)
  case (LogAppend vs)
  then obtain bs where bs: "push_values (wb_nullable b) vs = Some bs" "payload = push_usize (length vs) @ bs"
    using payload(1) by auto
  have "length vs \<le> usize_max" using assms(1) cap(1) by (simp add: LogAppend op_fits_def)
  then have "pr_usize ''append row count'' (at_offset payload s 0) = Inr (length vs, at_offset payload s 8)"
    using pr_usize_at [of "length vs" payload 0] payload(2) by (simp add: bs(2) stands_at_def)
  moreover have "append_rows (wb_nullable b) (at_offset payload s 8) (length vs) b =
      Inr (b\<lparr>wb_values := wb_values b @ vs\<rparr>)"
    using assms(1) by (intro append_rows_at [OF bs payload(2) _ cap(1)]) (simp add: LogAppend op_fits_def)
  ultimately show ?thesis
    by (cases "wb_nullable b") (simp_all add: LogAppend replay_record_def wal_kinds apply_append_def apply_nullable_append_def Let_def)
next
  case LogTruncate
  then show ?thesis using payload(1) by (simp add: replay_record_def wal_kinds apply_truncate_def)
next
  case (LogReplace rs)
  then obtain bs where bs: "push_replacements (wb_nullable b) rs = Some bs" "payload = push_usize (length rs) @ bs"
    using payload(1) by auto
  have "replace_counted (wb_nullable b) (at_offset payload s 0) b =
      Inr (b\<lparr>wb_values := replace_rows rs (wb_values b)\<rparr>)"
    using assms(1) by (intro replace_counted_at [OF bs payload(2) _ cap(2)]) (simp add: LogReplace op_fits_def)
  then show ?thesis
    by (cases "wb_nullable b") (simp_all add: LogReplace replay_record_def wal_kinds apply_replace_def apply_nullable_replace_def Let_def)
qed

section \<open>The frame of a record\<close>

text \<open>The header of a record, with the length it declares.\<close>

definition declared_header :: "u64 \<Rightarrow> u8 \<Rightarrow> u64 \<Rightarrow> u8 list \<Rightarrow> u8 list" where
  "declared_header declared kind s payload =
     wal_magic @ to_le 2 wal_version @ [kind] @ [0] @ to_le 8 s @
     to_le 8 declared @ to_le 4 (record_checksum wal_version kind 0 s payload)"

abbreviation record_header :: "u8 \<Rightarrow> u64 \<Rightarrow> u8 list \<Rightarrow> u8 list" where
  "record_header kind s payload \<equiv> declared_header (of_nat (length payload)) kind s payload"

definition record_frame :: "u8 \<Rightarrow> u64 \<Rightarrow> u8 list \<Rightarrow> u8 list" where
  "record_frame kind s payload =
     (case encode_record_parts kind s payload of (body, footer) \<Rightarrow> body @ footer)"

lemma record_frame_eq:
  "record_frame kind s payload = record_header kind s payload @ payload @ wal_commit_magic @ to_le 8 s"
  by (simp add: record_frame_def encode_record_parts_def declared_header_def Let_def)

lemma length_declared_header [simp]: "length (declared_header w kind s payload) = 32"
  by (simp add: declared_header_def)

lemma length_record_frame [simp]: "length (record_frame kind s payload) = 48 + length payload"
  by (simp add: record_frame_eq)

lemma header_fields:
  "read_array 8 (declared_header w kind s payload) 0 = wal_magic"
  "from_le (read_array 2 (declared_header w kind s payload) 8) = wal_version"
  "declared_header w kind s payload ! 10 = kind"
  "declared_header w kind s payload ! 11 = 0"
  "from_le (read_array 8 (declared_header w kind s payload) 12) = s"
  "from_le (read_array 8 (declared_header w kind s payload) 20) = w"
  "from_le (read_array 4 (declared_header w kind s payload) 28) = record_checksum wal_version kind 0 s payload"
  by (simp_all add: declared_header_def read_array_def nth_append)

text \<open>A complete frame is replayed: its record is applied and the loop moves behind it.\<close>

lemma at_end: "read_array n (pre @ rest) (length pre) = take n rest"
  "read_array n (pre @ rest) (length pre + k) = take n (drop k rest)"
  by (simp_all add: read_array_def)

lemma drop_header [simp]: "drop 32 (declared_header w kind s payload @ rest) = rest"
  and take_header [simp]: "take 32 (declared_header w kind s payload @ rest) = declared_header w kind s payload"
  by simp_all

lemma footer_fields:
  "read_array 8 (wal_commit_magic @ to_le 8 (s :: u64)) 0 = wal_commit_magic"
  "from_le (read_array 8 (wal_commit_magic @ to_le 8 (s :: u64)) 8) = s"
  by (simp_all add: read_array_def)

lemma replay_frame_sized:
  assumes bytes: "bytes = pre @ record_header kind s written @ payload @ wal_commit_magic @ to_le 8 s @ post"
    and same: "length payload = length written"
    and size: "length bytes \<le> usize_max"
    and fits: "length payload \<le> wal_max_record_bytes limits" "wal_max_record_bytes limits \<le> usize_max"
    and records: "Suc (unat s) \<le> wal_max_records limits" "wal_max_records limits \<le> usize_max"
  shows "replay_frame bytes limits (length pre) s b =
    (let expected = record_checksum wal_version kind 0 s written;
         actual = record_checksum wal_version kind 0 s payload in
     if actual \<noteq> expected then Inl (WalCorruption (WalChecksum s expected actual))
     else res_bind (map_err WalCorruption (replay_record kind payload s b))
       (\<lambda>b. Inr (Some (length pre + (48 + length payload), b))))"
proof -
  let ?h = "record_header kind s written"
  have len: "length pre + (48 + length payload) \<le> length bytes" by (simp add: bytes)
  have header: "read_array 32 bytes (length pre) = ?h"
    by (simp add: bytes same at_end)
  have payload: "read_array (length payload) bytes (length pre + 32) = payload"
    by (simp add: bytes same at_end)
  have footer: "read_array 16 bytes (length pre + 32 + length payload) = wal_commit_magic @ to_le 8 s"
    by (simp add: bytes same at_end add.assoc drop_append)
  have fits': "length payload \<le> usize_max" using fits by simp
  have not_large: "\<not> (of_nat (length payload) :: u64) > of_nat (wal_max_record_bytes limits)"
    using fits fits' by (simp add: word_less_nat_alt)
  have ends: "checked_add 48 (length payload) = Some (48 + length payload)"
    "checked_add (length pre) (48 + length payload) = Some (length pre + (48 + length payload))"
    using len size by (simp_all add: checked_add_def)
  have room: "\<not> length pre + (48 + length payload) > length bytes"
    "\<not> saturating_add (unat s) 1 > wal_max_records limits"
    using len records by (simp_all add: saturating_add_def)
  show ?thesis
    unfolding replay_frame_def Let_def wal_layout header header_fields same [symmetric]
    by (simp only: numeral_plus_numeral add_num_simps simp_thms if_False usize_of_u64_eq ok_or.simps
        res_bind.simps unat_of_nat_u64 [OF fits'] not_large ends room payload footer footer_fields)
qed

lemma replay_frame_complete:
  assumes "bytes = pre @ record_frame kind s payload @ post"
    and "length bytes \<le> usize_max"
    and "length payload \<le> wal_max_record_bytes limits" "wal_max_record_bytes limits \<le> usize_max"
    and "Suc (unat s) \<le> wal_max_records limits" "wal_max_records limits \<le> usize_max"
  shows "replay_frame bytes limits (length pre) s b =
    res_bind (map_err WalCorruption (replay_record kind payload s b))
      (\<lambda>b. Inr (Some (length pre + (48 + length payload), b)))"
  using replay_frame_sized [of bytes pre payload kind s payload post limits b] assms
  by (simp add: record_frame_eq)

section \<open>Torn and overlong frames\<close>

text \<open>The derived length of a cut payload is either the length of the whole or unknown.\<close>

definition known_part :: "'a option \<Rightarrow> 'a option \<Rightarrow> bool" where
  "known_part x y \<longleftrightarrow> x = None \<or> x = y"

lemma known_part_refl [simp]: "known_part x x"
  by (simp add: known_part_def)

lemma known_part_bind:
  "known_part x y \<Longrightarrow> (\<And>v. known_part (f v) (g v)) \<Longrightarrow> known_part (Option.bind x f) (Option.bind y g)"
  unfolding known_part_def by (cases x) (simp, metis bind.bind_lunit option.distinct(1))

lemma known_part_read: "known_part (read_usize_at (take m input) off) (read_usize_at input off)"
  by (auto simp: known_part_def read_usize_at_def checked_add_def read_array_def drop_take min_def)

lemma known_part_get: "known_part (slice_get (take m input) i) (slice_get input i)"
  by (auto simp: known_part_def slice_get_def)

lemma known_part_payload_len: "known_part (encoded_payload_len kind (take m input)) (encoded_payload_len kind input)"
  by (simp add: encoded_payload_len_def encoded_counted_payload_len_def encoded_bootstrap_payload_len_def
      known_part_bind known_part_read known_part_get)

lemma read_usize_at_stands:
  assumes "stands_at (push_usize n) input off" and "n \<le> usize_max" and "length input \<le> usize_max"
  shows "read_usize_at input off = Some n"
proof -
  have "off + 8 \<le> length input"
    using stands_at_bound [OF assms(1)] by (simp add: push_usize_def)
  moreover have "read_array 8 input off = push_usize n"
    using stands_at_read_array [OF assms(1)] by simp
  ultimately show ?thesis using assms(2,3) by (simp add: read_usize_at_def checked_add_def push_usize_def)
qed

lemma encoded_counted_at:
  assumes "input = push_usize n @ items @ rest" and "length items = n * bytes" and "0 < bytes"
    and "length input \<le> usize_max"
  shows "encoded_counted_payload_len input bytes = Some (8 + n * bytes)"
proof -
  have len: "8 + n * bytes \<le> length input" by (simp add: assms(1,2))
  have "n \<le> n * bytes" using assms(3) by simp
  then have "n \<le> usize_max" using len assms(4) by linarith
  then have "read_usize_at input 0 = Some n"
    using assms(1,4) by (intro read_usize_at_stands) (simp_all add: stands_at_def)
  then show ?thesis
    using len assms(4) by (simp add: encoded_counted_payload_len_def checked_mul_def checked_add_def)
qed

lemma encoded_op_payload_len:
  assumes "op_payload nullable op = Some payload" and "length payload + length rest \<le> usize_max"
  shows "encoded_payload_len (op_kind nullable op) (payload @ rest) = Some (length payload)"
proof (cases op)
  case (LogAppend vs)
  then obtain bs where bs: "push_values nullable vs = Some bs" "payload = push_usize (length vs) @ bs"
    using assms(1) by auto
  have "encoded_counted_payload_len (payload @ rest) (value_bytes nullable) =
      Some (8 + length vs * value_bytes nullable)"
    using assms(2) length_push_values [OF bs(1)]
    by (intro encoded_counted_at [of _ _ bs rest]) (simp_all add: bs(2) value_bytes_def)
  then show ?thesis
    using length_push_values [OF bs(1)]
    by (cases nullable) (simp_all add: LogAppend encoded_payload_len_def wal_kinds value_bytes_def bs(2))
next
  case LogTruncate
  then show ?thesis using assms(1) by (simp add: encoded_payload_len_def wal_kinds)
next
  case (LogReplace rs)
  then obtain bs where bs: "push_replacements nullable rs = Some bs" "payload = push_usize (length rs) @ bs"
    using assms(1) by auto
  have "encoded_counted_payload_len (payload @ rest) (replacement_bytes nullable) =
      Some (8 + length rs * replacement_bytes nullable)"
    using assms(2) length_push_replacements [OF bs(1)]
    by (intro encoded_counted_at [of _ _ bs rest]) (simp_all add: bs(2) replacement_bytes_def)
  then show ?thesis
    using length_push_replacements [OF bs(1)]
    by (cases nullable) (simp_all add: LogReplace encoded_payload_len_def wal_kinds replacement_bytes_def bs(2))
qed

lemma length_push_usizes [simp]: "length (concat (map push_usize ns)) = 8 * length ns"
  by (induction ns) simp_all

lemma length_encode_bootstrap:
  assumes "bootstrap_ok b" and "encode_bootstrap b = Some payload"
  shows "length payload = length (wb_table_name b) + length (wb_column_name b) + 161 +
    length (wb_values b) * value_bytes (wb_nullable b)"
  using assms by (auto simp: encode_bootstrap_def bootstrap_ok_def Option.bind_eq_Some_conv
      dest!: length_push_values)

lemma encoded_bootstrap_len:
  assumes ok: "bootstrap_ok b" and payload: "encode_bootstrap b = Some payload"
    and size: "length payload + length rest \<le> usize_max"
  shows "encoded_payload_len bootstrap_kind (payload @ rest) = Some (length payload)"
proof -
  let ?n = "wb_nullable b" and ?vs = "wb_values b" and ?all = "payload @ rest"
  let ?tn = "length (wb_table_name b)" and ?cn = "length (wb_column_name b)"
  obtain rows flag where rows: "push_values ?n ?vs = Some rows" and flag: "flag = [if ?n then 1 else 0]"
    and eq: "payload =
      push_bytes (bytes_of_str (wb_table_name b)) @ push_bytes (bytes_of_str (wb_column_name b)) @
      flag @ concat (map push_usize (wb_table_limits b)) @
      concat (map push_usize (wb_database_table_limits b)) @
      concat (map push_usize (wb_query_limits b)) @ push_usize (wb_worker_cap b) @
      push_usize (length ?vs) @ rows"
    using payload by (auto simp: encode_bootstrap_def Option.bind_eq_Some_conv)
  have len1: "length flag = 1" by (simp add: flag)
  note shape = ok [unfolded bootstrap_ok_def]
  have total: "length payload = ?tn + ?cn + 161 + length ?vs * value_bytes ?n"
    by (rule length_encode_bootstrap [OF ok payload])
  have bound: "?tn + ?cn + 161 + length ?vs * value_bytes ?n \<le> usize_max" using size total by simp
  have "length ?vs \<le> length ?vs * value_bytes ?n" by (simp add: value_bytes_def)
  then have small: "?tn \<le> usize_max" "?cn \<le> usize_max" "length ?vs \<le> usize_max" using bound by linarith+
  have "stands_at (payload @ rest) ?all 0" by (simp add: stands_at_def)
  then have st: "stands_at (push_usize ?tn) ?all 0" "stands_at (push_usize ?cn) ?all (8 + ?tn)"
    "stands_at flag ?all (8 + ?tn + 8 + ?cn)"
    "stands_at (push_usize (length ?vs)) ?all (8 + ?tn + 8 + ?cn + 1 + 136)"
    unfolding arg_cong [OF eq, of "\<lambda>x. stands_at (x @ rest) ?all 0"]
    using shape by (simp_all add: push_bytes_def stands_at_append len1 add.assoc)
  have all: "length ?all \<le> usize_max" using size by simp
  note reads = read_usize_at_stands [OF st(1) small(1) all] read_usize_at_stands [OF st(2) small(2) all]
    read_usize_at_stands [OF st(4) small(3) all]
  have nullability: "slice_get ?all (16 + ?tn + ?cn) = Some (if ?n then 1 else 0)"
    using st(3) by (simp add: flag stands_at_Cons)
  have count: "read_usize_at ?all (153 + (?tn + ?cn)) = Some (length ?vs)"
    using reads(3) by (simp add: ac_simps)
  show ?thesis
    using bound by (cases ?n) (simp_all add: encoded_payload_len_def encoded_bootstrap_payload_len_def
        reads(1,2) count nullability checked_add_def checked_mul_def value_bytes_def total)
qed

text \<open>A frame whose declared end lies behind the file: the loop ends there, unless a committed record
  is found at the derived boundary.\<close>

lemma replay_frame_short:
  assumes header: "read_array 32 bytes off = declared_header w kind s payload"
    and fits: "unat w \<le> wal_max_record_bytes limits" "wal_max_record_bytes limits \<le> usize_max"
    and short: "length bytes < off + (48 + unat w)" "off + (48 + unat w) \<le> usize_max"
  shows "replay_frame bytes limits off s b =
    (case authenticated_payload_len bytes off (declared_header w kind s payload) (wal_max_record_bytes limits) of
       Some committed \<Rightarrow> Inl (WalCorruption (WalPayloadLength s w (of_nat committed)))
     | None \<Rightarrow> Inr None)"
proof -
  have not_large: "\<not> w > of_nat (wal_max_record_bytes limits)"
    using fits by (simp add: word_less_nat_alt)
  have ends: "checked_add 48 (unat w) = Some (48 + unat w)"
    "checked_add off (48 + unat w) = Some (off + (48 + unat w))"
    using short(2) by (simp_all add: checked_add_def)
  show ?thesis
    unfolding replay_frame_def Let_def wal_layout header header_fields
    by (simp only: numeral_plus_numeral add_num_simps simp_thms if_False if_True usize_of_u64_eq ok_or.simps
        res_bind.simps not_large ends short(1))
qed

lemma authenticated_cut:
  assumes len: "known_part (encoded_payload_len kind (drop (off + 32) bytes)) (Some n)" and "length bytes < off + 48 + n"
  shows "authenticated_payload_len bytes off (declared_header w kind s payload) limit = None"
  using assms
  by (auto simp: known_part_def authenticated_payload_len_def header_fields Let_def checked_add_def)

lemma replay_frame_torn:
  assumes bytes: "bytes = pre @ take n (record_frame kind s payload)"
    and n: "32 \<le> n" "n < 48 + length payload" and size: "length pre + (48 + length payload) \<le> usize_max"
    and fits: "length payload \<le> wal_max_record_bytes limits" "wal_max_record_bytes limits \<le> usize_max"
    and len: "encoded_payload_len kind (payload @ wal_commit_magic @ to_le 8 s) = Some (length payload)"
  shows "replay_frame bytes limits (length pre) s b = Inr None"
proof -
  have unat: "unat (of_nat (length payload) :: u64) = length payload" using fits by simp
  have "read_array 32 bytes (length pre) = record_header kind s payload"
    using n by (simp add: bytes record_frame_eq at_end min_def)
  moreover have "known_part (encoded_payload_len kind (drop (length pre + 32) bytes)) (Some (length payload))"
    using known_part_payload_len [of kind "n - 32" "payload @ wal_commit_magic @ to_le 8 s"] len
    by (simp add: bytes record_frame_eq drop_take del: take_append)
  then have "authenticated_payload_len bytes (length pre) (record_header kind s payload) limit = None" for limit
    by (rule authenticated_cut) (use n in \<open>simp add: bytes\<close>)
  ultimately show ?thesis
    using n size fits by (simp add: replay_frame_short unat bytes min_def)
qed

section \<open>Whole logs\<close>

definition op_frame :: "bool \<Rightarrow> nat \<Rightarrow> wal_op \<Rightarrow> u8 list" where
  "op_frame nullable k op =
     (case op_payload nullable op of
        None \<Rightarrow> [] | Some payload \<Rightarrow> record_frame (op_kind nullable op) (of_nat k) payload)"

fun op_frames :: "bool \<Rightarrow> nat \<Rightarrow> wal_op list \<Rightarrow> u8 list" where
  "op_frames nullable k [] = []"
| "op_frames nullable k (op # ops) = op_frame nullable k op @ op_frames nullable (Suc k) ops"

definition ops_effect :: "wal_op list \<Rightarrow> nullable_i64 list \<Rightarrow> nullable_i64 list" where
  "ops_effect ops rows = fold op_effect ops rows"

text \<open>Every operation fits the rows before it and its record the limit.\<close>

fun ops_fit :: "wal_limits \<Rightarrow> bool \<Rightarrow> usize \<Rightarrow> nullable_i64 list \<Rightarrow> wal_op list \<Rightarrow> bool" where
  "ops_fit limits nullable max_rows rows [] = True"
| "ops_fit limits nullable max_rows rows (op # ops) =
     (op_fits nullable max_rows rows op \<and>
      (case op_payload nullable op of
         None \<Rightarrow> False | Some payload \<Rightarrow> length payload \<le> wal_max_record_bytes limits) \<and>
      ops_fit limits nullable max_rows (op_effect op rows) ops)"

text \<open>What a crash can leave of the record after the complete ones.\<close>

definition torn_record :: "wal_limits \<Rightarrow> nat \<Rightarrow> nat \<Rightarrow> u8 list \<Rightarrow> bool" where
  "torn_record limits off k tail \<longleftrightarrow> tail = [] \<or>
     (\<exists>kind payload n. tail = take n (record_frame kind (of_nat k) payload) \<and> n < 48 + length payload \<and>
        length payload \<le> wal_max_record_bytes limits \<and> off + (48 + length payload) \<le> usize_max \<and>
        encoded_payload_len kind (payload @ wal_commit_magic @ to_le 8 (of_nat k :: u64)) = Some (length payload))"

lemma op_frames_append: "op_frames nullable k (ops @ ops') = op_frames nullable k ops @ op_frames nullable (k + length ops) ops'"
  by (induction ops arbitrary: k) simp_all

lemma ops_effect_simps [simp]: "ops_effect [] rows = rows"
  "ops_effect (op # ops) rows = ops_effect ops (op_effect op rows)"
  "ops_effect (ops @ ops') rows = ops_effect ops' (ops_effect ops rows)"
  by (simp_all add: ops_effect_def)

lemma op_fits_rows: "op_fits nullable m rows op \<Longrightarrow> length rows \<le> m \<Longrightarrow> length (op_effect op rows) \<le> m"
  by (cases op) (simp_all add: op_fits_def)

lemma ops_fit_rows: "ops_fit limits nullable m rows ops \<Longrightarrow> length rows \<le> m \<Longrightarrow> length (ops_effect ops rows) \<le> m"
  by (induction ops arbitrary: rows) (auto dest: op_fits_rows)

lemma ops_fit_append:
  "ops_fit limits nullable m rows (ops @ ops') \<longleftrightarrow>
     ops_fit limits nullable m rows ops \<and> ops_fit limits nullable m (ops_effect ops rows) ops'"
  by (induction ops arbitrary: rows) auto

lemma length_op_frames: "ops_fit limits nullable m rows ops \<Longrightarrow> 48 * length ops \<le> length (op_frames nullable k ops)"
proof (induction ops arbitrary: k rows)
  case (Cons op ops)
  then show ?case
    using Cons.IH [of "op_effect op rows" "Suc k"] by (simp add: op_frame_def split: option.splits)
qed simp

lemma replay_loop_torn:
  assumes "torn_record limits (length pre) k tail" and "wal_max_record_bytes limits \<le> usize_max"
  shows "replay_loop (pre @ tail) limits (length pre) (of_nat k) b = (Inr (of_nat k, b) :: 'io wal_error + _)"
proof (cases "32 \<le> length tail")
  case True
  from assms(1) True obtain kind payload n where tail: "tail = take n (record_frame kind (of_nat k) payload)"
    "n < 48 + length payload" "length payload \<le> wal_max_record_bytes limits"
    "length pre + (48 + length payload) \<le> usize_max"
    "encoded_payload_len kind (payload @ wal_commit_magic @ to_le 8 (of_nat k :: u64)) = Some (length payload)"
    by (auto simp: torn_record_def)
  then have "32 \<le> n" using True by simp
  then have "replay_frame (pre @ tail) limits (length pre) (of_nat k) b = (Inr None :: 'io wal_error + _)"
    by (intro replay_frame_torn [OF _ _ tail(2,4,3) assms(2) tail(5)]) (simp_all add: tail(1))
  then show ?thesis by (simp add: replay_loop.simps)
qed (simp add: replay_loop.simps saturating_sub_eq)

lemma replay_loop_skip:
  assumes "ops_fit limits (wb_nullable b) (max_table_rows b) (wb_values b) ops"
    and "length (wb_values b) \<le> max_table_rows b" "max_table_rows b \<le> usize_max"
    and "length (pre @ op_frames (wb_nullable b) k ops @ tail) < usize_max"
    and "wal_max_record_bytes limits \<le> usize_max"
    and "k + length ops \<le> wal_max_records limits" "wal_max_records limits \<le> usize_max"
  shows "replay_loop (pre @ op_frames (wb_nullable b) k ops @ tail) limits (length pre) (of_nat k) (Some b) =
    (replay_loop (pre @ op_frames (wb_nullable b) k ops @ tail) limits (length (pre @ op_frames (wb_nullable b) k ops))
       (of_nat (k + length ops)) (Some (b\<lparr>wb_values := ops_effect ops (wb_values b)\<rparr>)) :: 'io wal_error + _)"
  using assms
proof (induction ops arbitrary: pre k b)
  case Nil
  then show ?case by simp
next
  case (Cons op ops)
  let ?n = "wb_nullable b" and ?b = "b\<lparr>wb_values := op_effect op (wb_values b)\<rparr>"
  obtain payload where payload: "op_payload ?n op = Some payload"
    "length payload \<le> wal_max_record_bytes limits"
    using Cons.prems(1) by (auto split: option.splits)
  let ?f = "record_frame (op_kind ?n op) (of_nat k) payload"
  have frame: "op_frame ?n k op = ?f" by (simp add: op_frame_def payload)
  let ?rest = "op_frames ?n (Suc k) ops @ tail"
  have size: "length (pre @ ?f @ ?rest) < usize_max" using Cons.prems(4) by (simp add: frame)
  have k: "unat (of_nat k :: u64) = k" using Cons.prems(6,7) by simp
  have "replay_record (op_kind ?n op) payload (of_nat k) (Some b) = Inr ?b"
    using Cons.prems(1,2,3) size by (intro replay_record_op payload) simp_all
  then have step: "replay_frame (pre @ ?f @ ?rest) limits (length pre) (of_nat k) (Some b) =
      Inr (Some (length pre + (48 + length payload), ?b))"
    using replay_frame_complete [of "pre @ ?f @ ?rest" pre "op_kind ?n op" "of_nat k" payload ?rest limits "Some b"]
      size payload(2) Cons.prems(5,6,7) by (simp add: k)
  have "replay_loop (pre @ ?f @ ?rest) limits (length pre) (of_nat k) (Some b) =
      (replay_loop ((pre @ ?f) @ ?rest) limits (length (pre @ ?f)) (of_nat (Suc k)) (Some ?b) :: 'io wal_error + _)"
    using size by (subst replay_loop.simps) (simp add: step saturating_sub_eq add.commute)
  moreover have "max_table_rows ?b = max_table_rows b" by (simp add: max_table_rows_def)
  moreover from this have "length (wb_values ?b) \<le> max_table_rows ?b"
    using Cons.prems(1,2) by (auto dest: op_fits_rows)
  ultimately show ?case
    using Cons.IH [of ?b "pre @ ?f" "Suc k"] Cons.prems by (simp add: frame)
qed

text \<open>A log begins with the bootstrap record of its table.\<close>

definition log_start :: "wal_limits \<Rightarrow> wal_bootstrap \<Rightarrow> u8 list \<Rightarrow> bool" where
  "log_start limits b payload \<longleftrightarrow>
     bootstrap_ok b \<and> encode_bootstrap b = Some payload \<and> length payload \<le> wal_max_record_bytes limits"

definition limits_ok :: "wal_limits \<Rightarrow> bool" where
  "limits_ok limits \<longleftrightarrow>
     wal_max_file_bytes limits < usize_max \<and> wal_max_record_bytes limits \<le> usize_max \<and>
     wal_max_records limits \<le> usize_max"

lemma replay_record_bootstrap:
  "bootstrap_ok b \<Longrightarrow> encode_bootstrap b = Some payload \<Longrightarrow> length payload < usize_max \<Longrightarrow>
     replay_record bootstrap_kind payload 0 None = Inr b"
  by (simp add: replay_record_def wal_kinds decode_encode_bootstrap)

lemma bootstrap_ok_rows: "bootstrap_ok b \<Longrightarrow> length (wb_values b) \<le> max_table_rows b \<and> max_table_rows b \<le> usize_max"
  by (auto simp: bootstrap_ok_def max_table_rows_def intro!: nth_mem min.coboundedI1)

definition log_file :: "wal_bootstrap \<Rightarrow> u8 list \<Rightarrow> wal_op list \<Rightarrow> u8 list" where
  "log_file b payload ops = record_frame bootstrap_kind 0 payload @ op_frames (wb_nullable b) 1 ops"

lemma log_file_snoc:
  "log_file b payload (ops @ [op]) = log_file b payload ops @ op_frame (wb_nullable b) (Suc (length ops)) op"
  by (simp add: log_file_def op_frames_append)

lemma length_log_file:
  "ops_fit limits (wb_nullable b) m rows ops \<Longrightarrow> 48 * Suc (length ops) \<le> length (log_file b payload ops)"
  using length_op_frames [of limits "wb_nullable b" m rows ops 1] by (simp add: log_file_def)

lemma replay_loop_log:
  assumes start: "log_start limits b payload" and limits: "limits_ok limits"
    and fits: "ops_fit limits (wb_nullable b) (max_table_rows b) (wb_values b) ops"
    and size: "length (log_file b payload ops @ rest) < usize_max" "Suc (length ops) \<le> wal_max_records limits"
  shows "replay_loop (log_file b payload ops @ rest) limits 0 0 None =
    (replay_loop (log_file b payload ops @ rest) limits (length (log_file b payload ops)) (of_nat (Suc (length ops)))
       (Some (b\<lparr>wb_values := ops_effect ops (wb_values b)\<rparr>)) :: 'io wal_error + _)"
proof -
  let ?boot = "record_frame bootstrap_kind 0 payload" and ?rest = "op_frames (wb_nullable b) 1 ops @ rest"
  define bytes where "bytes = ?boot @ ?rest"
  note boot = start [unfolded log_start_def]
  have len: "length bytes < usize_max" using size(1) by (simp add: bytes_def log_file_def)
  have boot_record: "replay_record bootstrap_kind payload 0 None = Inr b"
    using boot len by (intro replay_record_bootstrap) (simp_all add: bytes_def)
  have step: "(replay_frame bytes limits 0 0 None :: 'io wal_error + _) = Inr (Some (48 + length payload, b))"
    using replay_frame_complete [of bytes "[]" bootstrap_kind 0 payload ?rest limits None] boot limits size(2) len
    by (simp add: bytes_def boot_record limits_ok_def)
  have "replay_loop bytes limits 0 0 None =
      (replay_loop bytes limits (length ?boot) (of_nat 1) (Some b) :: 'io wal_error + _)"
    by (subst replay_loop.simps) (simp add: step, simp add: bytes_def saturating_sub_eq)
  also have "\<dots> = replay_loop bytes limits (length (?boot @ op_frames (wb_nullable b) 1 ops)) (of_nat (1 + length ops))
      (Some (b\<lparr>wb_values := ops_effect ops (wb_values b)\<rparr>))"
    unfolding bytes_def using fits boot limits size len bootstrap_ok_rows [of b]
    by (intro replay_loop_skip) (simp_all add: bytes_def limits_ok_def)
  finally show ?thesis by (simp add: bytes_def log_file_def)
qed

text \<open>A log with a torn tail recovers the effects of its complete records.\<close>

definition ops_logged :: "wal_bootstrap \<Rightarrow> wal_limits \<Rightarrow> u8 list \<Rightarrow> wal_op list \<Rightarrow> bool" where
  "ops_logged b limits payload ops \<longleftrightarrow>
     ops_fit limits (wb_nullable b) (max_table_rows b) (wb_values b) ops \<and>
     length (log_file b payload ops) \<le> wal_max_file_bytes limits \<and>
     Suc (length ops) \<le> wal_max_records limits"

lemma replay_log:
  assumes limits: "limits_ok limits" and start: "log_start limits b payload"
    and logged: "ops_logged b limits payload ops"
    and torn: "torn_record limits (length (log_file b payload ops)) (Suc (length ops)) tail"
    and size: "length (log_file b payload ops @ tail) \<le> wal_max_file_bytes limits"
  shows "replay (log_file b payload ops @ tail) limits =
    Inr \<lparr>wr_bootstrap = b\<lparr>wb_values := ops_effect ops (wb_values b)\<rparr>,
      wr_file_bytes = length (log_file b payload ops @ tail), wr_records = Suc (length ops)\<rparr>"
proof -
  have "replay_loop (log_file b payload ops @ tail) limits 0 0 None =
      (replay_loop (log_file b payload ops @ tail) limits (length (log_file b payload ops)) (of_nat (Suc (length ops)))
        (Some (b\<lparr>wb_values := ops_effect ops (wb_values b)\<rparr>)) :: 'a wal_error + _)"
    using logged limits size by (intro replay_loop_log [OF start limits]) (auto simp: ops_logged_def limits_ok_def)
  also have "\<dots> = Inr (of_nat (Suc (length ops)), Some (b\<lparr>wb_values := ops_effect ops (wb_values b)\<rparr>))"
    using limits by (intro replay_loop_torn [OF torn]) (simp add: limits_ok_def)
  finally show ?thesis using logged limits by (simp add: replay_def ops_logged_def limits_ok_def del: of_nat_Suc)
qed

section \<open>Damaged records\<close>

lemma record_checksum_crc32:
  "record_checksum version kind reserved s payload =
     crc32 (to_le 2 version @ [kind, reserved] @ to_le 8 s @ to_le 8 (of_nat (length payload) :: u64) @ payload)"
  by (simp add: record_checksum_def crc32_update_def crc32_def Let_def)

lemma record_checksum_burst:
  assumes "length w' = length w" and "length w \<le> 4" and "w' \<noteq> w"
  shows "record_checksum version kind reserved s (pre @ w' @ post) \<noteq>
    record_checksum version kind reserved s (pre @ w @ post)"
proof
  let ?head = "to_le 2 version @ [kind, reserved] @ to_le 8 s @
    to_le 8 (of_nat (length (pre @ w @ post)) :: u64) @ pre"
  assume "record_checksum version kind reserved s (pre @ w' @ post) =
    record_checksum version kind reserved s (pre @ w @ post)"
  then have "crc32 (?head @ w @ post) = crc32 (?head @ w' @ post)"
    using assms(1) by (simp only: record_checksum_crc32 append_assoc length_append)
  from crc32_burst [OF this assms(1,2)] show False using assms(3) by simp
qed

text \<open>The record after a prefix of the log decides the outcome when its frame is in error.\<close>

lemma replay_frame_error:
  assumes "limits_ok limits" and "log_start limits b payload"
    and "ops_logged b limits payload ops" and "length (log_file b payload ops @ rest) < usize_max"
    and "32 \<le> length rest"
    and "\<And>t. replay_frame (log_file b payload ops @ rest) limits (length (log_file b payload ops))
      (of_nat (Suc (length ops))) (Some t) = (Inl e :: 'io wal_error + _)"
  shows "replay (log_file b payload ops @ rest) limits = (Inl e :: 'io wal_error + _)"
proof -
  have "replay_loop (log_file b payload ops @ rest) limits 0 0 None =
      (replay_loop (log_file b payload ops @ rest) limits (length (log_file b payload ops)) (of_nat (Suc (length ops)))
        (Some (b\<lparr>wb_values := ops_effect ops (wb_values b)\<rparr>)) :: 'io wal_error + _)"
    using assms(3,4) by (intro replay_loop_log [OF assms(2,1)]) (simp_all add: ops_logged_def)
  also have "\<dots> = Inl e"
    using assms(5,6) by (subst replay_loop.simps) (simp del: of_nat_Suc)
  finally show ?thesis by (simp add: replay_def)
qed

end
