(* ===== verification/Wal_Writer.thy ===== *)
theory Wal_Writer
  imports Wal_Log File_Replace
begin

text \<open>
  The writer of a write-ahead log (\<^verbatim>\<open>Int64WriteAheadLog\<close> in \<^verbatim>\<open>src/batch/wal.rs\<close>) over the file
  system of \<open>File_Replace\<close>, whose calls fail when the environment says so: creating the file,
  logging an operation in two synchronised writes, and poisoning after a failed one. What a crash
  leaves of the file always recovers the acknowledged operations, and at most the one in flight.
\<close>

section \<open>The writer\<close>

record wal_writer =
  ww_file :: nat
  ww_table_name :: string
  ww_nullable :: bool
  ww_limits :: wal_limits
  ww_file_bytes :: usize
  ww_records :: usize
  ww_poisoned :: bool

text \<open>The body is made durable before the footer is written.\<close>

definition write_committed_record ::
  "'io environment \<Rightarrow> nat \<Rightarrow> u8 list \<Rightarrow> u8 list \<Rightarrow> directory \<Rightarrow>
     ('io io_error wal_error + unit) \<times> directory"
where
  "write_committed_record env inode body footer d =
     (case write_all env inode body d of
        (Inl e, d1) \<Rightarrow> (Inl (WalWrite e), d1)
      | (Inr _, d1) \<Rightarrow>
      case file_sync env inode d1 of
        (Inl e, d2) \<Rightarrow> (Inl (WalSyncFile e), d2)
      | (Inr _, d2) \<Rightarrow>
      case write_all env inode footer d2 of
        (Inl e, d3) \<Rightarrow> (Inl (WalWrite e), d3)
      | (Inr _, d3) \<Rightarrow> apfst (map_err WalSyncFile) (file_sync env inode d3))"

definition create_committed_wal_file ::
  "'io environment \<Rightarrow> name \<Rightarrow> u8 list \<Rightarrow> u8 list \<Rightarrow> directory \<Rightarrow>
     ('io io_error wal_error + nat) \<times> directory"
where
  "create_committed_wal_file env destination body footer d =
     (case dir_create env destination d of
        (Inl e, d1) \<Rightarrow> (Inl (WalCreate e), d1)
      | (Inr inode, d1) \<Rightarrow>
      case write_committed_record env inode body footer d1 of
        (Inl e, d2) \<Rightarrow> (Inl e, d2)
      | (Inr _, d2) \<Rightarrow>
      case dir_sync env d2 of
        (Inl e, d3) \<Rightarrow> (Inl (WalSyncParent e), d3)
      | (Inr _, d3) \<Rightarrow> (Inr inode, d3))"

definition validate_bootstrap_limits ::
  "usize \<Rightarrow> usize \<Rightarrow> usize \<Rightarrow> bool \<Rightarrow> wal_limits \<Rightarrow> 'io wal_error + unit" where
  "validate_bootstrap_limits table_name_bytes column_name_bytes rows nullable limits =
     (let payload_len = (case bootstrap_payload_len table_name_bytes column_name_bytes rows nullable of
            None \<Rightarrow> usize_max | Some n \<Rightarrow> n) in
      res_bind (map_err WalLimit (validate_record_limits 0 payload_len 0 0 limits)) (\<lambda>_. Inr ()))"

definition create_in_directory ::
  "'io environment \<Rightarrow> name \<Rightarrow> wal_bootstrap \<Rightarrow> wal_limits \<Rightarrow> directory \<Rightarrow>
     ('io io_error wal_error + wal_writer) \<times> directory"
where
  "create_in_directory env destination b limits d =
     (case validate_bootstrap_limits (length (wb_table_name b)) (length (wb_column_name b))
             (length (wb_values b)) (wb_nullable b) limits of
        Inl e \<Rightarrow> (Inl e, d)
      | Inr _ \<Rightarrow>
      case encode_bootstrap b of
        None \<Rightarrow> (Inl WalPanic, d)
      | Some payload \<Rightarrow>
      case encode_record_parts bootstrap_kind 0 payload of (body, footer) \<Rightarrow>
      case create_committed_wal_file env destination body footer d of
        (Inl e, d1) \<Rightarrow> (Inl e, d1)
      | (Inr inode, d1) \<Rightarrow>
          (Inr \<lparr>ww_file = inode, ww_table_name = map to_ascii_lowercase (wb_table_name b),
             ww_nullable = wb_nullable b, ww_limits = limits,
             ww_file_bytes = length body + length footer, ww_records = 1, ww_poisoned = False\<rparr>, d1))"

definition wal_destination_name :: "string \<Rightarrow> 'io wal_error + name" where
  "wal_destination_name path =
     (if ends_with ''/'' path \<or> ends_with ''/.'' path then Inl WalInvalidDestination
      else let name = last_component path in
      if name = [] \<or> name = ''.'' \<or> name = ''..'' then Inl WalInvalidDestination
      else if CHR 0x00 \<in> set name then Inl WalInvalidDestination
      else Inr name)"

text \<open>\<open>opens\<close> is the outcome of opening the parent directory.\<close>

definition wal_create ::
  "'io environment \<Rightarrow> string \<Rightarrow> wal_bootstrap \<Rightarrow> wal_limits \<Rightarrow> 'io io_error + unit \<Rightarrow> directory \<Rightarrow>
     ('io io_error wal_error + wal_writer) \<times> directory"
where
  "wal_create env path b limits opens d =
     (case validate_bootstrap_limits (length (wb_table_name b)) (length (wb_column_name b))
             (length (wb_values b)) (wb_nullable b) limits of
        Inl e \<Rightarrow> (Inl e, d)
      | Inr _ \<Rightarrow>
      case encode_bootstrap b of
        None \<Rightarrow> (Inl WalPanic, d)
      | Some payload \<Rightarrow>
      case wal_destination_name path of
        Inl e \<Rightarrow> (Inl e, d)
      | Inr destination \<Rightarrow>
      case opens of
        Inl e \<Rightarrow> (Inl (WalOpenParent e), d)
      | Inr _ \<Rightarrow> create_in_directory env destination b limits d)"

definition wal_tracks :: "wal_writer \<Rightarrow> string \<Rightarrow> bool" where
  "wal_tracks w table_name = eq_ignore_ascii_case (ww_table_name w) table_name"

definition validate_next_record :: "wal_writer \<Rightarrow> usize \<Rightarrow> 'io wal_error + unit" where
  "validate_next_record w payload_len =
     (if ww_poisoned w then Inl WalPoisoned
      else res_bind (map_err WalLimit (validate_record_limits (of_nat (ww_records w)) payload_len
             (ww_file_bytes w) (ww_records w) (ww_limits w))) (\<lambda>_. Inr ()))"

definition append_record ::
  "'io environment \<Rightarrow> u8 \<Rightarrow> u8 list \<Rightarrow> wal_writer \<Rightarrow> directory \<Rightarrow>
     ('io io_error wal_error + unit) \<times> wal_writer \<times> directory"
where
  "append_record env kind payload w d =
     (if ww_poisoned w then (Inl WalPoisoned, w, d)
      else let sequence = of_nat (ww_records w) in
      case validate_record_limits sequence (length payload) (ww_file_bytes w) (ww_records w) (ww_limits w) of
        Inl e \<Rightarrow> (Inl (WalLimit e), w, d)
      | Inr next_file_bytes \<Rightarrow>
      case encode_record_parts kind sequence payload of (body, footer) \<Rightarrow>
      case write_committed_record env (ww_file w) body footer d of
        (Inl e, d1) \<Rightarrow> (Inl e, w\<lparr>ww_poisoned := True\<rparr>, d1)
      | (Inr _, d1) \<Rightarrow>
          (Inr (), w\<lparr>ww_file_bytes := next_file_bytes, ww_records := ww_records w + 1\<rparr>, d1))"

text \<open>The three operations check the limits with the length the payload will have, build it (a
  missing value in a log without nulls is a panic) and append the record.\<close>

definition counted_payload_len :: "usize \<Rightarrow> usize \<Rightarrow> usize" where
  "counted_payload_len count item_bytes =
     (case checked_add 8 (case checked_mul count item_bytes of None \<Rightarrow> usize_max | Some n \<Rightarrow> n) of
        None \<Rightarrow> usize_max | Some n \<Rightarrow> n)"

definition append_values ::
  "'io environment \<Rightarrow> nullable_i64 list \<Rightarrow> wal_writer \<Rightarrow> directory \<Rightarrow>
     ('io io_error wal_error + unit) \<times> wal_writer \<times> directory"
where
  "append_values env vs w d =
     (let payload_len = counted_payload_len (length vs) (value_bytes (ww_nullable w)) in
      case validate_next_record w payload_len of
        Inl e \<Rightarrow> (Inl e, w, d)
      | Inr _ \<Rightarrow>
      case push_values (ww_nullable w) vs of
        None \<Rightarrow> (Inl WalPanic, w, d)
      | Some values \<Rightarrow>
          append_record env (if ww_nullable w then nullable_append_kind else append_kind)
            (push_usize (length vs) @ values) w d)"

definition wal_truncate ::
  "'io environment \<Rightarrow> wal_writer \<Rightarrow> directory \<Rightarrow> ('io io_error wal_error + unit) \<times> wal_writer \<times> directory"
where
  "wal_truncate env w d =
     (case validate_next_record w 0 of
        Inl e \<Rightarrow> (Inl e, w, d)
      | Inr _ \<Rightarrow> append_record env truncate_kind [] w d)"

definition replace_values ::
  "'io environment \<Rightarrow> (usize \<times> nullable_i64) list \<Rightarrow> wal_writer \<Rightarrow> directory \<Rightarrow>
     ('io io_error wal_error + unit) \<times> wal_writer \<times> directory"
where
  "replace_values env rs w d =
     (let payload_len = counted_payload_len (length rs) (replacement_bytes (ww_nullable w)) in
      case validate_next_record w payload_len of
        Inl e \<Rightarrow> (Inl e, w, d)
      | Inr _ \<Rightarrow>
      case push_replacements (ww_nullable w) rs of
        None \<Rightarrow> (Inl WalPanic, w, d)
      | Some replacements \<Rightarrow>
          append_record env (if ww_nullable w then nullable_replace_kind else replace_kind)
            (push_usize (length rs) @ replacements) w d)"

fun wal_apply ::
  "'io environment \<Rightarrow> wal_op \<Rightarrow> wal_writer \<Rightarrow> directory \<Rightarrow>
     ('io io_error wal_error + unit) \<times> wal_writer \<times> directory"
where
  "wal_apply env (LogAppend vs) w d = append_values env vs w d"
| "wal_apply env LogTruncate w d = wal_truncate env w d"
| "wal_apply env (LogReplace rs) w d = replace_values env rs w d"

section \<open>Limits\<close>

lemma validate_record_limits_Inr:
  assumes "wal_max_file_bytes limits < usize_max"
  shows "validate_record_limits s n file_bytes records limits = Inr new_bytes \<longleftrightarrow>
    n \<le> wal_max_record_bytes limits \<and> saturating_add records 1 \<le> wal_max_records limits \<and>
    new_bytes = file_bytes + (48 + n) \<and> new_bytes \<le> wal_max_file_bytes limits"
  using assms
  by (auto simp: validate_record_limits_def Let_def checked_add_def res_bind_Inr_iff ok_or_Inr_iff not_less
      simp del: ok_or.simps split: if_splits)

lemma counted_payload_len_fits:
  "8 + count * bytes \<le> usize_max \<Longrightarrow> counted_payload_len count bytes = 8 + count * bytes"
  by (simp add: counted_payload_len_def checked_add_def checked_mul_def)

lemma wal_apply_logs:
  "(\<exists>e. wal_apply env op w d = (Inl e, w, d)) \<or>
   (\<exists>payload. op_payload (ww_nullable w) op = Some payload \<and>
      wal_apply env op w d = append_record env (op_kind (ww_nullable w) op) payload w d)"
  by (cases op) (auto simp: append_values_def wal_truncate_def replace_values_def Let_def
      split: sum.splits option.splits)

lemma append_record_cases:
  assumes limits: "limits_ok (ww_limits w)"
    and run: "append_record env kind payload w d = (r, w', d')"
  shows "(\<exists>e. r = Inl e \<and> w' = w \<and> d' = d) \<or>
    (\<not> ww_poisoned w \<and> length payload \<le> wal_max_record_bytes (ww_limits w) \<and>
     ww_file_bytes w + (48 + length payload) \<le> wal_max_file_bytes (ww_limits w) \<and>
     saturating_add (ww_records w) 1 \<le> wal_max_records (ww_limits w) \<and>
     (\<exists>body footer. encode_record_parts kind (of_nat (ww_records w)) payload = (body, footer) \<and>
        write_committed_record env (ww_file w) body footer d = (r, d') \<and>
        w' = (if is_ok r
              then w\<lparr>ww_file_bytes := ww_file_bytes w + (48 + length payload), ww_records := ww_records w + 1\<rparr>
              else w\<lparr>ww_poisoned := True\<rparr>)))"
proof (cases "ww_poisoned w")
  case False
  let ?seq = "of_nat (ww_records w) :: u64"
  obtain body footer where parts: "encode_record_parts kind ?seq payload = (body, footer)" by fastforce
  show ?thesis
  proof (cases "validate_record_limits ?seq (length payload) (ww_file_bytes w) (ww_records w) (ww_limits w)")
    case (Inl e)
    then show ?thesis using run False by (auto simp: append_record_def Let_def)
  next
    case (Inr n)
    note bounds = Inr [unfolded validate_record_limits_Inr [OF limits [unfolded limits_ok_def, THEN conjunct1]]]
    obtain r0 d0 where written: "write_committed_record env (ww_file w) body footer d = (r0, d0)" by fastforce
    have "r = r0 \<and> d' = d0 \<and> w' = (if is_ok r0
        then w\<lparr>ww_file_bytes := n, ww_records := ww_records w + 1\<rparr> else w\<lparr>ww_poisoned := True\<rparr>)"
      using run by (cases r0) (auto simp: append_record_def False Inr parts written)
    then show ?thesis using False bounds parts written by simp
  qed
qed (use run in \<open>auto simp: append_record_def\<close>)

section \<open>What a crash leaves\<close>

text \<open>The file keeps at least what was synchronised and possibly more of what was written after it.\<close>

definition crash_image :: "directory \<Rightarrow> nat \<Rightarrow> u8 list \<Rightarrow> bool" where
  "crash_image d inode img \<longleftrightarrow>
     (\<exists>n. img = take n (contents d inode) \<and> (\<forall>s. synced d inode = Some s \<longrightarrow> length s \<le> n))"

definition durable :: "directory \<Rightarrow> nat \<Rightarrow> u8 list \<Rightarrow> bool" where
  "durable d inode bytes \<longleftrightarrow> contents d inode = bytes \<and> synced d inode = Some bytes"

text \<open>After a failed write the file ends in a part of the record, and nothing that was synchronised
  is lost.\<close>

definition trailing :: "directory \<Rightarrow> nat \<Rightarrow> u8 list \<Rightarrow> u8 list \<Rightarrow> bool" where
  "trailing d inode base frame \<longleftrightarrow>
     (\<exists>n. contents d inode = base @ take n frame) \<and>
     (\<exists>s. synced d inode = Some s \<and> length base \<le> length s)"

lemma crash_durable: "durable d i bytes \<Longrightarrow> crash_image d i img \<Longrightarrow> img = bytes"
  by (auto simp: durable_def crash_image_def)

lemma crash_trailing: "trailing d i base frame \<Longrightarrow> crash_image d i img \<Longrightarrow> \<exists>n. img = base @ take n frame"
  by (auto simp: trailing_def crash_image_def)

lemma write_committed_record_cases:
  assumes run: "write_committed_record env i body footer d = (r, d')" and start: "durable d i base"
  shows "if is_ok r then durable d' i (base @ body @ footer) else trailing d' i base (body @ footer)"
proof -
  have body: "\<exists>n. take n' body = take n (body @ footer)" for n'
    by (rule exI [of _ "min n' (length body)"]) (simp add: min_def)
  have foot: "\<exists>n. body @ take n' footer = take n (body @ footer)" for n'
    by (rule exI [of _ "length body + n'"]) simp
  show ?thesis
    using run start body foot body [of "length body"] foot [of "length footer"]
    by (auto simp: write_committed_record_def write_all_def file_sync_def syscall_def tick_def durable_def
        trailing_def apfst_def map_prod_def split: option.splits)
qed

lemma write_committed_record_ok:
  "write_committed_record env i body footer d = (Inr (), d') \<Longrightarrow>
     durable d' i (contents d i @ body @ footer)"
  by (auto simp: write_committed_record_def write_all_def file_sync_def syscall_def tick_def durable_def
      apfst_def map_prod_def split: option.splits)

lemma durable_tick [simp]: "durable (tick d) = durable d"
  by (simp add: durable_def tick_def fun_eq_iff)

section \<open>Acknowledged operations\<close>

text \<open>The life of a log: the table logs an operation only when it fits its rows, which are those of
  the acknowledged operations.\<close>

inductive wal_life ::
  "'io environment \<Rightarrow> wal_bootstrap \<Rightarrow> wal_limits \<Rightarrow> wal_writer \<Rightarrow> wal_op list \<Rightarrow> directory \<Rightarrow> bool"
  for env b limits
where
  created: "create_in_directory env name b limits d = (Inr w, d') \<Longrightarrow> wal_life env b limits w [] d'"
| logged: "wal_life env b limits w acked d \<Longrightarrow>
    op_fits (wb_nullable b) (max_table_rows b) (ops_effect acked (wb_values b)) op \<Longrightarrow>
    wal_apply env op w d = (Inr (), w', d') \<Longrightarrow> wal_life env b limits w' (acked @ [op]) d'"
| refused: "wal_life env b limits w acked d \<Longrightarrow>
    op_fits (wb_nullable b) (max_table_rows b) (ops_effect acked (wb_values b)) op \<Longrightarrow>
    wal_apply env op w d = (Inl e, w', d') \<Longrightarrow> wal_life env b limits w' acked d'"

definition wal_inv :: "wal_bootstrap \<Rightarrow> wal_limits \<Rightarrow> u8 list \<Rightarrow> wal_writer \<Rightarrow> wal_op list \<Rightarrow> directory \<Rightarrow> bool" where
  "wal_inv b limits payload w acked d \<longleftrightarrow>
     log_start limits b payload \<and> ww_nullable w = wb_nullable b \<and> ww_limits w = limits \<and>
     ops_logged b limits payload acked \<and>
     ww_file_bytes w = length (log_file b payload acked) \<and> ww_records w = Suc (length acked) \<and>
     (if ww_poisoned w
      then \<exists>op. ops_logged b limits payload (acked @ [op]) \<and>
        trailing d (ww_file w) (log_file b payload acked) (op_frame (wb_nullable b) (Suc (length acked)) op)
      else durable d (ww_file w) (log_file b payload acked))"

lemma wal_inv_step:
  assumes inv: "wal_inv b limits payload w acked d" and limits: "limits_ok limits"
    and fits: "op_fits (wb_nullable b) (max_table_rows b) (ops_effect acked (wb_values b)) op"
    and run: "wal_apply env op w d = (r, w', d')"
  shows "wal_inv b limits payload w' (if is_ok r then acked @ [op] else acked) d'"
proof -
  note now = inv [unfolded wal_inv_def ops_logged_def]
  have limits_w: "limits_ok (ww_limits w)" using now limits by simp
  consider (same) e where "r = Inl e" "w' = w" "d' = d"
    | (tried) bytes where "op_payload (wb_nullable b) op = Some bytes"
      "append_record env (op_kind (wb_nullable b) op) bytes w d = (r, w', d')"
    using wal_apply_logs [of env op w d] run now by auto
  then show ?thesis
  proof cases
    case same
    then show ?thesis using inv by simp
  next
    case tried
    note bytes = tried(1)
    from append_record_cases [OF limits_w tried(2)] show ?thesis
    proof
      assume "\<exists>e. r = Inl e \<and> w' = w \<and> d' = d"
      then show ?thesis using inv by auto
    next
      assume *: "\<not> ww_poisoned w \<and> length bytes \<le> wal_max_record_bytes (ww_limits w) \<and>
        ww_file_bytes w + (48 + length bytes) \<le> wal_max_file_bytes (ww_limits w) \<and>
        saturating_add (ww_records w) 1 \<le> wal_max_records (ww_limits w) \<and>
        (\<exists>body footer. encode_record_parts (op_kind (wb_nullable b) op) (of_nat (ww_records w)) bytes =
           (body, footer) \<and> write_committed_record env (ww_file w) body footer d = (r, d') \<and>
           w' = (if is_ok r
              then w\<lparr>ww_file_bytes := ww_file_bytes w + (48 + length bytes), ww_records := ww_records w + 1\<rparr>
              else w\<lparr>ww_poisoned := True\<rparr>))"
      then obtain body footer where parts:
          "encode_record_parts (op_kind (wb_nullable b) op) (of_nat (ww_records w)) bytes = (body, footer)"
        and outcome: "write_committed_record env (ww_file w) body footer d = (r, d')" by blast
      have frame: "op_frame (wb_nullable b) (Suc (length acked)) op = body @ footer"
        "length body + length footer = 48 + length bytes"
        using parts now length_record_frame [of "op_kind (wb_nullable b) op" "of_nat (ww_records w)" bytes]
        by (simp_all add: op_frame_def bytes record_frame_def)
      have "48 * Suc (length acked) \<le> length (log_file b payload acked)"
        using now length_log_file by blast
      then have "Suc (Suc (length acked)) \<le> wal_max_records limits"
        using * now limits by (auto simp: saturating_add_def limits_ok_def min_def split: if_splits)
      then have logged: "ops_logged b limits payload (acked @ [op])"
        using * now fits by (simp add: ops_logged_def ops_fit_append bytes log_file_snoc frame)
      have "if is_ok r then durable d' (ww_file w) (log_file b payload acked @ body @ footer)
          else trailing d' (ww_file w) (log_file b payload acked) (body @ footer)"
        using now * by (intro write_committed_record_cases [OF outcome]) simp
      moreover have "ops_logged b limits payload acked" using inv by (simp add: wal_inv_def)
      moreover have "w' = (if is_ok r
          then w\<lparr>ww_file_bytes := ww_file_bytes w + (48 + length bytes), ww_records := ww_records w + 1\<rparr>
          else w\<lparr>ww_poisoned := True\<rparr>)"
        using * by blast
      ultimately show ?thesis
        using now * logged frame by (cases "is_ok r") (auto simp: wal_inv_def log_file_snoc)
    qed
  qed
qed

lemma bootstrap_payload_len_eq:
  assumes "bootstrap_ok b" and "encode_bootstrap b = Some payload"
  shows "bootstrap_payload_len (length (wb_table_name b)) (length (wb_column_name b))
      (length (wb_values b)) (wb_nullable b) = Some (length payload)"
  using assms(2) length_encode_bootstrap [OF assms]
  by (auto simp: encode_bootstrap_def bootstrap_payload_len_def value_bytes_def checked_add_def checked_mul_def
      Option.bind_eq_Some_conv split: if_splits)

lemma wal_inv_created:
  assumes b: "bootstrap_ok b" and limits: "limits_ok limits"
    and run: "create_in_directory env name b limits d = (Inr w, d')"
  shows "\<exists>payload. wal_inv b limits payload w [] d'"
proof -
  obtain payload body footer i d1 where
    valid: "(validate_bootstrap_limits (length (wb_table_name b)) (length (wb_column_name b))
       (length (wb_values b)) (wb_nullable b) limits :: 'a io_error wal_error + unit) = Inr ()"
    and payload: "encode_bootstrap b = Some payload"
    and parts: "encode_record_parts bootstrap_kind 0 payload = (body, footer)"
    and committed: "create_committed_wal_file env name body footer d = (Inr i, d')"
    and w: "w = \<lparr>ww_file = i, ww_table_name = map to_ascii_lowercase (wb_table_name b),
       ww_nullable = wb_nullable b, ww_limits = limits,
       ww_file_bytes = length body + length footer, ww_records = 1, ww_poisoned = False\<rparr>"
    using run by (auto simp: create_in_directory_def split: sum.splits option.splits prod.splits)
  have frame: "record_frame bootstrap_kind 0 payload = body @ footer"
    by (simp add: record_frame_def parts)
  note len = bootstrap_payload_len_eq [OF b payload]
  have fits: "length payload \<le> wal_max_record_bytes limits" "48 + length payload \<le> wal_max_file_bytes limits"
    "1 \<le> wal_max_records limits"
    using valid limits
    by (auto simp: validate_bootstrap_limits_def len limits_ok_def validate_record_limits_Inr res_bind_Inr_iff
        map_err_Inr_iff saturating_add_def)
  obtain d1 d2 where create: "dir_create env name d = (Inr i, d1)"
    and written: "write_committed_record env i body footer d1 = (Inr (), d2)" and d': "d' = d2 \<or> d' = tick d2"
    using committed by (auto simp: create_committed_wal_file_def dir_sync_def syscall_def
        split: sum.splits prod.splits option.splits)
  have "contents d1 i = []"
    using create by (auto simp: dir_create_def syscall_def split: option.splits if_splits)
  then have "durable d2 i (body @ footer)" using write_committed_record_ok [OF written] by simp
  with d' have "durable d' i (log_file b payload [])" by (auto simp: log_file_def frame)
  moreover have "length body + length footer = 48 + length payload"
    using length_record_frame [of bootstrap_kind 0 payload] by (simp add: frame)
  ultimately have "wal_inv b limits payload w [] d'"
    using b payload fits by (simp add: wal_inv_def log_start_def ops_logged_def w log_file_def frame)
  then show ?thesis ..
qed

lemma wal_life_inv:
  assumes "wal_life env b limits w acked d" and "bootstrap_ok b" and "limits_ok limits"
  shows "\<exists>payload. wal_inv b limits payload w acked d"
  using assms
proof (induction rule: wal_life.induct)
  case (created name d w d')
  then show ?case by (intro wal_inv_created)
next
  case (logged w acked d op w' d')
  then show ?case using wal_inv_step [of b limits _ w acked d op env "Inr ()" w' d'] by auto
next
  case (refused w acked d op e w' d')
  then show ?case using wal_inv_step [of b limits _ w acked d op env "Inl e" w' d'] by auto
qed

lemma torn_op:
  assumes "ops_logged b limits payload (acked @ [op])" and "limits_ok limits"
    and "n < length (op_frame (wb_nullable b) (Suc (length acked)) op)"
  shows "torn_record limits (length (log_file b payload acked)) (Suc (length acked))
    (take n (op_frame (wb_nullable b) (Suc (length acked)) op))"
proof -
  obtain bytes where bytes: "op_payload (wb_nullable b) op = Some bytes" "length bytes \<le> wal_max_record_bytes limits"
    using assms(1) by (auto simp: ops_logged_def ops_fit_append split: option.splits)
  have frame: "op_frame (wb_nullable b) (Suc (length acked)) op =
      record_frame (op_kind (wb_nullable b) op) (of_nat (Suc (length acked))) bytes"
    by (simp add: op_frame_def bytes)
  have size: "length (log_file b payload acked) + (48 + length bytes) \<le> usize_max"
    using assms(1,2) by (simp add: ops_logged_def log_file_snoc frame limits_ok_def)
  have "encoded_payload_len (op_kind (wb_nullable b) op)
      (bytes @ wal_commit_magic @ to_le 8 (of_nat (Suc (length acked)) :: u64)) = Some (length bytes)"
    using size by (intro encoded_op_payload_len [OF bytes(1)]) simp
  then show ?thesis unfolding torn_record_def frame using assms(3) bytes(2) size by (auto simp: frame)
qed

lemma recover_file_image:
  "reader_bytes source = Some img \<Longrightarrow> length img \<le> wal_max_file_bytes limits \<Longrightarrow> limits_ok limits \<Longrightarrow>
     recover_file source (of_nat (length img)) limits = replay img limits"
  by (simp add: recover_file_def take_read_to_end_bytes limits_ok_def word_less_nat_alt saturating_add_def)

lemma wal_inv_recovers:
  assumes inv: "wal_inv b limits payload w acked d" and limits: "limits_ok limits"
    and img: "crash_image d (ww_file w) img"
  shows "\<exists>extra. length extra \<le> (if ww_poisoned w then 1 else 0) \<and> length img \<le> wal_max_file_bytes limits \<and>
    replay img limits = Inr \<lparr>wr_bootstrap = b\<lparr>wb_values := ops_effect (acked @ extra) (wb_values b)\<rparr>,
      wr_file_bytes = length img, wr_records = Suc (length (acked @ extra))\<rparr>"
proof -
  note now = inv [unfolded wal_inv_def]
  have complete: ?thesis if "img = log_file b payload (acked @ extra)" "ops_logged b limits payload (acked @ extra)"
      "length extra \<le> (if ww_poisoned w then 1 else 0)" for extra
    using replay_log [OF limits _ that(2), of "[]"] now that
    by (intro exI [of _ extra]) (simp add: torn_record_def ops_logged_def)
  show ?thesis
  proof (cases "ww_poisoned w")
    case False
    then have "img = log_file b payload acked" using now img crash_durable by auto
    then show ?thesis using now complete [of "[]"] by simp
  next
    case True
    then obtain op where op: "ops_logged b limits payload (acked @ [op])"
      "trailing d (ww_file w) (log_file b payload acked) (op_frame (wb_nullable b) (Suc (length acked)) op)"
      using now by auto
    then obtain n where n: "img = log_file b payload acked @ take n (op_frame (wb_nullable b) (Suc (length acked)) op)"
      using crash_trailing [OF op(2) img] by auto
    show ?thesis
    proof (cases "n < length (op_frame (wb_nullable b) (Suc (length acked)) op)")
      case True
      have "length img \<le> wal_max_file_bytes limits"
        using op(1) by (auto simp: ops_logged_def log_file_snoc n)
      then show ?thesis
        using replay_log [OF limits _ _ torn_op [OF op(1) limits True]] now n by (intro exI [of _ "[]"]) simp
    next
      case False
      then have "img = log_file b payload (acked @ [op])" using n by (simp add: log_file_snoc)
      with op(1) True complete [of "[op]"] show ?thesis by simp
    qed
  qed
qed

lemma poisoned_refuses: "ww_poisoned w \<Longrightarrow> wal_apply env op w d = (Inl WalPoisoned, w, d)"
  by (cases op) (simp_all add: append_values_def wal_truncate_def replace_values_def validate_next_record_def Let_def)

section \<open>Operations that succeed\<close>

lemma wal_apply_payload:
  assumes "op_payload (ww_nullable w) op = Some payload" and "length payload \<le> usize_max"
  shows "wal_apply env op w d =
    (case validate_next_record w (length payload) of
       Inl e \<Rightarrow> (Inl e, w, d)
     | Inr _ \<Rightarrow> append_record env (op_kind (ww_nullable w) op) payload w d)"
proof (cases op)
  case (LogAppend vs)
  then obtain bs where bs: "push_values (ww_nullable w) vs = Some bs" "payload = push_usize (length vs) @ bs"
    using assms(1) by auto
  have "counted_payload_len (length vs) (value_bytes (ww_nullable w)) = length payload"
    using assms(2) length_push_values [OF bs(1)] by (simp add: bs(2) counted_payload_len_fits)
  then show ?thesis using bs by (cases "ww_nullable w") (simp_all add: LogAppend append_values_def split: sum.split)
next
  case LogTruncate
  then show ?thesis using assms(1) by (auto simp: wal_truncate_def split: sum.split)
next
  case (LogReplace rs)
  then obtain bs where bs: "push_replacements (ww_nullable w) rs = Some bs" "payload = push_usize (length rs) @ bs"
    using assms(1) by auto
  have "counted_payload_len (length rs) (replacement_bytes (ww_nullable w)) = length payload"
    using assms(2) length_push_replacements [OF bs(1)] by (simp add: bs(2) counted_payload_len_fits)
  then show ?thesis using bs by (cases "ww_nullable w") (simp_all add: LogReplace replace_values_def split: sum.split)
qed

lemma write_committed_record_succeeds:
  "\<forall>n\<ge>calls d. fault env n = None \<Longrightarrow>
     \<exists>d'. write_committed_record env i body footer d = (Inr (), d') \<and> (\<forall>n\<ge>calls d'. fault env n = None)"
  by (simp add: write_committed_record_def write_all_def file_sync_def syscall_def tick_def)

lemma wal_apply_succeeds:
  assumes inv: "wal_inv b limits payload w acked d" and limits: "limits_ok limits"
    and calm: "\<forall>n\<ge>calls d. fault env n = None" and live: "\<not> ww_poisoned w"
    and logged: "ops_logged b limits payload (acked @ [op])"
  shows "\<exists>w' d'. wal_apply env op w d = (Inr (), w', d') \<and> \<not> ww_poisoned w' \<and> (\<forall>n\<ge>calls d'. fault env n = None)"
proof -
  note now = inv [unfolded wal_inv_def]
  obtain bytes where bytes: "op_payload (wb_nullable b) op = Some bytes" "length bytes \<le> wal_max_record_bytes limits"
    using logged by (auto simp: ops_logged_def ops_fit_append split: option.splits)
  have len: "length (op_frame (wb_nullable b) (Suc (length acked)) op) = 48 + length bytes"
    by (simp add: op_frame_def bytes)
  let ?n = "ww_file_bytes w + (48 + length bytes)"
  have fits: "validate_record_limits (of_nat (ww_records w)) (length bytes) (ww_file_bytes w) (ww_records w) limits = Inr ?n"
    using now logged limits bytes(2)
    by (auto simp: validate_record_limits_Inr limits_ok_def ops_logged_def log_file_snoc len saturating_add_def)
  obtain body footer where parts:
    "encode_record_parts (op_kind (wb_nullable b) op) (of_nat (ww_records w)) bytes = (body, footer)" by fastforce
  obtain d' where "write_committed_record env (ww_file w) body footer d = (Inr (), d')"
    "\<forall>n\<ge>calls d'. fault env n = None"
    using write_committed_record_succeeds [OF calm] by blast
  moreover have "length bytes \<le> usize_max" using bytes(2) limits by (simp add: limits_ok_def)
  ultimately show ?thesis
    using wal_apply_payload [of w op bytes env d] now live bytes(1) fits parts
    by (simp add: validate_next_record_def append_record_def)
qed

lemma wal_create_succeeds:
  assumes b: "bootstrap_ok b" and limits: "limits_ok limits" and payload: "encode_bootstrap b = Some payload"
    and fits: "length payload \<le> wal_max_record_bytes limits" "48 + length payload \<le> wal_max_file_bytes limits"
      "1 \<le> wal_max_records limits"
    and calm: "\<forall>n. fault env n = None" and free: "\<not> too_long env name" "entries d (resolve env name) = None"
  shows "\<exists>w d'. create_in_directory env name b limits d = (Inr w, d') \<and> \<not> ww_poisoned w"
proof -
  have len: "bootstrap_payload_len (length (wb_table_name b)) (length (wb_column_name b))
      (length (wb_values b)) (wb_nullable b) = Some (length payload)"
    by (rule bootstrap_payload_len_eq [OF b payload])
  have valid: "validate_bootstrap_limits (length (wb_table_name b)) (length (wb_column_name b))
       (length (wb_values b)) (wb_nullable b) limits = (Inr () :: 'a io_error wal_error + unit)"
    using fits limits
    by (simp add: validate_bootstrap_limits_def len limits_ok_def res_bind_Inr_iff map_err_Inr_iff saturating_add_def
        validate_record_limits_Inr)
  obtain body footer where parts: "encode_record_parts bootstrap_kind 0 payload = (body, footer)" by fastforce
  show ?thesis
    using calm free write_committed_record_succeeds [of _ env _ body footer]
    by (simp add: create_in_directory_def valid payload parts create_committed_wal_file_def dir_create_def
        syscall_def dir_sync_def tick_def write_committed_record_def write_all_def file_sync_def)
qed

text \<open>C3: Durability of the write-ahead log. Whatever calls fail and wherever the process dies, what is
  left of the log file recovers to the table with exactly the acknowledged operations, in their
  order. Only after a failed write or sync, when the writer is poisoned, one more operation may have
  survived, and a poisoned writer refuses everything without touching the file.\<close>

theorem wal_recovers_acknowledged:
  assumes "wal_life env b limits w acked d" and "bootstrap_ok b" and "limits_ok limits"
    and "crash_image d (ww_file w) img" and "reader_bytes source = Some img"
  shows "\<exists>extra. length extra \<le> (if ww_poisoned w then 1 else 0) \<and>
    recover_file source (of_nat (length img)) limits =
      Inr \<lparr>wr_bootstrap = b\<lparr>wb_values := ops_effect (acked @ extra) (wb_values b)\<rparr>,
        wr_file_bytes = length img, wr_records = Suc (length (acked @ extra))\<rparr> \<and>
    (ww_poisoned w \<longrightarrow> (\<forall>op. wal_apply env op w d = (Inl WalPoisoned, w, d)))"
proof -
  obtain payload where "wal_inv b limits payload w acked d" using wal_life_inv [OF assms(1-3)] ..
  from wal_inv_recovers [OF this assms(3,4)] show ?thesis
    using recover_file_image [OF assms(5) _ assms(3)] poisoned_refuses by (metis (no_types))
qed

section \<open>A sample log\<close>

definition sample_table :: wal_bootstrap where
  "sample_table = \<lparr>wb_table_name = ''t'', wb_column_name = ''c'', wb_table_limits = [4, 1, 4],
     wb_database_table_limits = [4, 1, 4], wb_query_limits = replicate 10 1, wb_worker_cap = 1,
     wb_nullable = True, wb_values = []\<rparr>"

definition sample_limits :: wal_limits where
  "sample_limits = wal_limits_new 1000 500 10"

lemma sample_utf8: "utf8_valid ''t''" "utf8_valid ''c''"
  by code_simp+

lemma sample_ok [simp]: "bootstrap_ok sample_table" "limits_ok sample_limits"
  by (simp_all add: bootstrap_ok_def sample_table_def sample_utf8 limits_ok_def sample_limits_def
      wal_limits_new_def usize_max_def)

lemma sample_payload: "\<exists>payload. encode_bootstrap sample_table = Some payload \<and> length payload = 163"
proof -
  have "encode_bootstrap sample_table \<noteq> None"
    by (simp add: encode_bootstrap_def sample_table_def bootstrap_payload_len_def checked_add_def
        checked_mul_def usize_max_def value_bytes_def)
  then obtain payload where payload: "encode_bootstrap sample_table = Some payload" by blast
  have "length payload = 163"
    using length_encode_bootstrap [OF sample_ok(1) payload] by (simp add: sample_table_def)
  with payload show ?thesis by blast
qed

lemma sample_fits:
  "op_fits (wb_nullable sample_table) (max_table_rows sample_table) (ops_effect [] (wb_values sample_table)) (LogAppend [Some 5])"
  by (simp add: op_fits_def sample_table_def max_table_rows_def)

lemma sample_logged:
  assumes "length payload = 163"
  shows "ops_logged sample_table sample_limits payload [LogAppend [Some 5]]"
  using sample_fits assms
  by (simp add: ops_logged_def log_file_def op_frame_def push_value_def sample_limits_def wal_limits_new_def
      push_usize_def push_nullable_i64_def sample_table_def)

lemma sample_created:
  "\<exists>w d payload. wal_life faultless sample_table sample_limits w [] d \<and>
     wal_inv sample_table sample_limits payload w [] d \<and> \<not> ww_poisoned w \<and> length payload = 163"
proof -
  obtain payload where payload: "encode_bootstrap sample_table = Some payload" "length payload = 163"
    using sample_payload by blast
  have "\<exists>w d. create_in_directory faultless ''log'' sample_table sample_limits one_file = (Inr w, d) \<and> \<not> ww_poisoned w"
    by (intro wal_create_succeeds [OF sample_ok payload(1)])
      (simp_all add: payload(2) sample_limits_def wal_limits_new_def faultless_def one_file_def)
  then obtain w d where created: "create_in_directory faultless ''log'' sample_table sample_limits one_file = (Inr w, d)"
    and live: "\<not> ww_poisoned w" by blast
  obtain p where inv: "wal_inv sample_table sample_limits p w [] d"
    using wal_inv_created [OF sample_ok created] by blast
  moreover from inv have "p = payload" using payload(1) by (simp add: wal_inv_def log_start_def)
  ultimately show ?thesis using wal_life.created [OF created] live payload(2) by blast
qed

lemma sample_run:
  "\<exists>w d. wal_life faultless sample_table sample_limits w [LogAppend [Some 5]] d \<and> \<not> ww_poisoned w"
proof -
  obtain w d payload where start: "wal_life faultless sample_table sample_limits w [] d"
    "wal_inv sample_table sample_limits payload w [] d" "\<not> ww_poisoned w" "length payload = 163"
    using sample_created by blast
  have "\<forall>n\<ge>calls d. fault faultless n = None" by (simp add: faultless_def)
  from wal_apply_succeeds [OF start(2) sample_ok(2) this start(3), of "LogAppend [Some 5]"]
  obtain w' d' where "wal_apply faultless (LogAppend [Some 5]) w d = (Inr (), w', d')" "\<not> ww_poisoned w'"
    using sample_logged [OF start(4)] by auto
  with wal_life.logged [OF start(1) sample_fits] show ?thesis by auto
qed

theorem wal_recovers_acknowledged_witness:
  "\<exists>w d. wal_life faultless sample_table sample_limits w [LogAppend [Some 5]] d \<and>
     recover_file [ReadChunk (contents d (ww_file w))] (of_nat (length (contents d (ww_file w)))) sample_limits =
       (Inr \<lparr>wr_bootstrap = sample_table\<lparr>wb_values := [Some 5]\<rparr>,
         wr_file_bytes = length (contents d (ww_file w)), wr_records = 2\<rparr> :: unit wal_error + _)"
proof -
  obtain w d where run: "wal_life faultless sample_table sample_limits w [LogAppend [Some 5]] d" "\<not> ww_poisoned w"
    using sample_run by blast
  let ?img = "contents d (ww_file w)"
  have synced: "\<forall>s. synced d (ww_file w) = Some s \<longrightarrow> length s \<le> length ?img"
    using wal_life_inv [OF run(1) sample_ok] run(2) by (auto simp: wal_inv_def durable_def)
  have "crash_image d (ww_file w) ?img"
    unfolding crash_image_def by (rule exI [of _ "length ?img"]) (simp add: synced)
  moreover have "reader_bytes [ReadChunk ?img :: (u8, unit) read_event] = Some ?img" by simp
  ultimately show ?thesis
    using wal_recovers_acknowledged [OF run(1) sample_ok] run
    by (intro exI [of _ w] exI [of _ d]) (fastforce simp: sample_table_def)
qed

text \<open>C23: A log accepts what fits. While no call fails, an operation that fits the table and the
  limits of the log is acknowledged, and the writer stays usable.\<close>

theorem wal_accepts_fitting_operation:
  assumes "wal_life env b limits w acked d" and "bootstrap_ok b" and "limits_ok limits"
    and "\<not> ww_poisoned w" and "\<forall>n\<ge>calls d. fault env n = None"
    and "op_fits (wb_nullable b) (max_table_rows b) (ops_effect acked (wb_values b)) op"
    and "op_payload (wb_nullable b) op = Some payload" and "length payload \<le> wal_max_record_bytes limits"
    and "ww_file_bytes w + wal_frame_overhead + length payload \<le> wal_max_file_bytes limits"
    and "ww_records w + 1 \<le> wal_max_records limits"
  shows "\<exists>w' d'. wal_apply env op w d = (Inr (), w', d') \<and> wal_life env b limits w' (acked @ [op]) d' \<and>
    \<not> ww_poisoned w' \<and> (\<forall>n\<ge>calls d'. fault env n = None)"
proof -
  obtain start where inv: "wal_inv b limits start w acked d" using wal_life_inv [OF assms(1-3)] ..
  have "ops_logged b limits start (acked @ [op])"
    using inv assms(6-10)
    by (simp add: wal_inv_def ops_logged_def ops_fit_append log_file_snoc op_frame_def)
  from wal_apply_succeeds [OF inv assms(3,5,4) this] wal_life.logged [OF assms(1,6)] show ?thesis by blast
qed

theorem wal_accepts_fitting_operation_witness:
  "\<exists>w d w' d'. wal_apply faultless (LogAppend [Some 5]) w d = (Inr (), w', d') \<and>
     wal_life faultless sample_table sample_limits w' [LogAppend [Some 5]] d' \<and> \<not> ww_poisoned w'"
proof -
  obtain w d payload where start: "wal_life faultless sample_table sample_limits w [] d"
    "wal_inv sample_table sample_limits payload w [] d" "\<not> ww_poisoned w" "length payload = 163"
    using sample_created by blast
  have calm: "\<forall>n\<ge>calls d. fault faultless n = None" by (simp add: faultless_def)
  let ?bytes = "push_usize 1 @ push_nullable_i64 (Some 5)"
  have bytes: "op_payload (wb_nullable sample_table) (LogAppend [Some 5]) = Some ?bytes"
    by (simp add: sample_table_def push_value_def)
  have room: "length ?bytes \<le> wal_max_record_bytes sample_limits"
    "ww_file_bytes w + wal_frame_overhead + length ?bytes \<le> wal_max_file_bytes sample_limits"
    "ww_records w + 1 \<le> wal_max_records sample_limits"
    using start(2,4) by (simp_all add: wal_inv_def log_file_def sample_limits_def wal_limits_new_def)
  from wal_accepts_fitting_operation [OF start(1) sample_ok start(3) calm sample_fits bytes room]
  show ?thesis by auto
qed

section \<open>Damage to committed records\<close>










end
