(* ===== verification/Wal_Manifest.thy ===== *)
theory Wal_Manifest
  imports Wal_Writer "HOL-Library.List_Lexorder" "HOL-Library.Char_ord"
begin

text \<open>
  The manifest of a registry of write-ahead logs (\<^verbatim>\<open>src/batch/wal.rs\<close>): a checksummed
  list of tables and member files. The reader accepts exactly the manifests the writer produces for
  a list of descriptors in the canonical order: distinct, sorted table names and safe, distinct member
  names.
\<close>

section \<open>Limits and errors\<close>

record registry_limits =
  rl_max_tables :: usize
  rl_max_manifest_bytes :: usize
  rl_max_total_wal_bytes :: usize
  rl_max_total_records :: usize
  rl_per_table :: wal_limits

definition registry_limits_new :: "usize \<Rightarrow> usize \<Rightarrow> usize \<Rightarrow> usize \<Rightarrow> wal_limits \<Rightarrow> registry_limits" where
  "registry_limits_new tables manifest_bytes total_bytes total_records per_table =
     \<lparr>rl_max_tables = tables, rl_max_manifest_bytes = manifest_bytes,
      rl_max_total_wal_bytes = total_bytes, rl_max_total_records = total_records, rl_per_table = per_table\<rparr>"

definition registry_limits_default :: registry_limits where
  "registry_limits_default =
     registry_limits_new 1024 (1024 * 1024) (256 * 1024 * 1024) 4000000 wal_limits_default"

datatype registry_limit_error =
  RegistryTables u64 usize
| RegistryManifestBytes u64 usize
| RegistryTotalWalBytes u64 usize
| RegistryTotalRecords u64 usize

text \<open>An unexpected entry is kept as its bytes; the code shows them as text, lossily.\<close>

datatype registry_corruption =
  ManifestMagic "u8 list"
| ManifestVersion u16 u16
| ManifestReserved u16
| ManifestLength u64 u64
| ManifestChecksum u32 u32
| ManifestPayload string
| RegistryEmpty
| RegistryDuplicateTable string
| RegistryDuplicateMember string
| RegistryInvalidMember string
| NonDeterministicOrder string string
| MissingMember string string
| DuplicateMemberFile string string
| UnexpectedDirectoryEntry "u8 list"
| TableNameMismatch string string
| DatabaseSettingsMismatch string

datatype 'io registry_error =
  RegistryLimit registry_limit_error
| RegistryCorruption registry_corruption
| RegistryInvalidDestination
| RegistryOpenParent 'io
| RegistryCreateDirectory 'io
| RegistryOpenDirectory 'io
| RegistrySyncParent 'io
| RegistryOpenManifest 'io
| RegistryManifestMetadata 'io
| RegistryManifestNotRegularFile
| RegistryReadManifest 'io
| RegistryCreateManifest 'io
| RegistryWriteManifest 'io
| RegistrySyncManifest 'io
| RegistrySyncDirectory 'io
| RegistryReadDirectory 'io
| RegistryMember string string "'io wal_error"

definition manifest_name :: string where "manifest_name = ''manifest.rhi64''"
definition manifest_magic :: "u8 list" where "manifest_magic = [82, 72, 73, 54, 52, 82, 69, 71]"
definition manifest_version :: u16 where "manifest_version = 1"
definition manifest_header_len :: usize where "manifest_header_len = 28"
definition descriptor_min_payload_len :: usize where "descriptor_min_payload_len = 8"

section \<open>Checks\<close>

definition validate_registry_table_count :: "usize \<Rightarrow> registry_limits \<Rightarrow> 'io registry_error + unit" where
  "validate_registry_table_count tables limits =
     (if tables = 0 then Inl (RegistryCorruption RegistryEmpty)
      else if tables > rl_max_tables limits
      then Inl (RegistryLimit (RegistryTables (of_nat tables) (rl_max_tables limits)))
      else Inr ())"

definition validate_manifest_size :: "usize \<Rightarrow> registry_limits \<Rightarrow> 'io registry_error + unit" where
  "validate_manifest_size bytes limits =
     (if bytes > rl_max_manifest_bytes limits
      then Inl (RegistryLimit (RegistryManifestBytes (of_nat bytes) (rl_max_manifest_bytes limits)))
      else Inr ())"

definition validate_registry_totals :: "usize \<Rightarrow> usize \<Rightarrow> registry_limits \<Rightarrow> registry_limit_error + unit" where
  "validate_registry_totals bytes records limits =
     (if bytes > rl_max_total_wal_bytes limits
      then Inl (RegistryTotalWalBytes (of_nat bytes) (rl_max_total_wal_bytes limits))
      else if records > rl_max_total_records limits
      then Inl (RegistryTotalRecords (of_nat records) (rl_max_total_records limits))
      else Inr ())"

section \<open>Writing a manifest\<close>

record registry_descriptor =
  rd_table :: string
  rd_member :: string

definition push_registry_bytes :: "u8 list \<Rightarrow> u8 list" where
  "push_registry_bytes bs = to_le 4 (of_nat (length bs) :: u32) @ bs"

definition descriptor_bytes :: "registry_descriptor \<Rightarrow> u8 list" where
  "descriptor_bytes d =
     push_registry_bytes (bytes_of_str (rd_table d)) @ push_registry_bytes (bytes_of_str (rd_member d))"

definition manifest_checksum :: "usize \<Rightarrow> u8 list \<Rightarrow> u32" where
  "manifest_checksum count payload =
     NOT (crc32_update (crc32_update (crc32_update (crc32_update (crc32_update (- 1)
       (to_le 2 manifest_version)) (to_le 2 (0 :: u16))) (to_le 4 (of_nat count :: u32)))
       (to_le 8 (of_nat (length payload) :: u64))) payload)"

definition encode_registry_manifest :: "registry_descriptor list \<Rightarrow> u8 list" where
  "encode_registry_manifest ds =
     (let payload = concat (map descriptor_bytes ds) in
      manifest_magic @ to_le 2 manifest_version @ to_le 2 (0 :: u16) @ to_le 4 (of_nat (length ds) :: u32) @
      to_le 8 (of_nat (length payload) :: u64) @ to_le 4 (manifest_checksum (length ds) payload) @ payload)"

section \<open>Reading a manifest\<close>

text \<open>The components of a path between slashes. \<open>Component::Normal\<close> is a name that is neither a
  root, \<open>.\<close> nor \<open>..\<close>; empty components and a \<open>.\<close> after the first position are skipped.\<close>

fun split_slash :: "string \<Rightarrow> string list" where
  "split_slash [] = [[]]"
| "split_slash (c # cs) =
     (if c = CHR ''/'' then [] # split_slash cs
      else case split_slash cs of w # ws \<Rightarrow> (c # w) # ws | [] \<Rightarrow> [[c]])"

definition components_normal :: "string \<Rightarrow> bool" where
  "components_normal s \<longleftrightarrow>
     take 1 s \<noteq> ''/'' \<and> hd (split_slash s) \<noteq> ''.'' \<and> ''..'' \<notin> set (split_slash s)"

definition safe_registry_member :: "string \<Rightarrow> bool" where
  "safe_registry_member member \<longleftrightarrow>
     member \<noteq> [] \<and> member \<noteq> ''.'' \<and> member \<noteq> ''..'' \<and>
     \<not> eq_ignore_ascii_case member manifest_name \<and>
     CHR 0x00 \<notin> set member \<and> CHR ''/'' \<notin> set member \<and> components_normal member"

definition manifest_string :: "string \<Rightarrow> u8 list \<Rightarrow> usize \<Rightarrow> 'io registry_error + string \<times> usize" where
  "manifest_string field payload offset =
     (let malformed = RegistryCorruption (ManifestPayload field) in
      res_bind (ok_or (checked_add offset 4) malformed) (\<lambda>length_end.
      if length_end > length payload then Inl malformed
      else let n = unat (from_le (read_array 4 payload offset) :: u32) in
      res_bind (ok_or (checked_add length_end n) malformed) (\<lambda>e.
      if e > length payload then Inl malformed
      else case from_utf8 0 (read_array n payload length_end) of
        Inl _ \<Rightarrow> Inl malformed
      | Inr _ \<Rightarrow> Inr (str_of_bytes (read_array n payload length_end), e))))"

text \<open>The loop over the descriptors; the sets of names seen are those of the descriptors read.\<close>

definition check_descriptor :: "registry_descriptor list \<Rightarrow> string \<Rightarrow> string \<Rightarrow> registry_corruption + unit" where
  "check_descriptor ds table member =
     (let normalized = map to_ascii_lowercase table in
      if normalized \<in> set (map (map to_ascii_lowercase \<circ> rd_table) ds) then Inl (RegistryDuplicateTable table)
      else if ds \<noteq> [] \<and> normalized \<le> map to_ascii_lowercase (rd_table (last ds))
      then Inl (NonDeterministicOrder (rd_table (last ds)) table)
      else if map to_ascii_lowercase member \<in> set (map (map to_ascii_lowercase \<circ> rd_member) ds)
      then Inl (RegistryDuplicateMember member)
      else if \<not> safe_registry_member member then Inl (RegistryInvalidMember member)
      else Inr ())"

fun read_descriptors ::
  "nat \<Rightarrow> u8 list \<Rightarrow> usize \<Rightarrow> registry_descriptor list \<Rightarrow> 'io registry_error + registry_descriptor list \<times> usize" where
  "read_descriptors 0 payload offset ds = Inr (ds, offset)"
| "read_descriptors (Suc n) payload offset ds =
     res_bind (manifest_string ''table name'' payload offset) (\<lambda>(table, o1).
     res_bind (manifest_string ''member name'' payload o1) (\<lambda>(member, o2).
     res_bind (map_err RegistryCorruption (check_descriptor ds table member)) (\<lambda>_.
     read_descriptors n payload o2 (ds @ [\<lparr>rd_table = table, rd_member = member\<rparr>]))))"

definition decode_registry_manifest :: "u8 list \<Rightarrow> registry_limits \<Rightarrow> 'io registry_error + registry_descriptor list" where
  "decode_registry_manifest bytes limits =
     (if length bytes < manifest_header_len then Inl (RegistryCorruption (ManifestPayload ''header''))
      else let magic = read_array 8 bytes 0 in
      if magic \<noteq> manifest_magic then Inl (RegistryCorruption (ManifestMagic magic))
      else let version = from_le (read_array 2 bytes 8) in
      if version \<noteq> manifest_version then Inl (RegistryCorruption (ManifestVersion version manifest_version))
      else let reserved = from_le (read_array 2 bytes 10) in
      if reserved \<noteq> 0 then Inl (RegistryCorruption (ManifestReserved reserved))
      else let count = unat (from_le (read_array 4 bytes 12) :: u32) in
      res_bind (validate_registry_table_count count limits) (\<lambda>_.
      let declared = from_le (read_array 8 bytes 16);
          actual = of_nat (saturating_sub (length bytes) manifest_header_len) in
      if declared \<noteq> actual then Inl (RegistryCorruption (ManifestLength declared actual))
      else let expected = from_le (read_array 4 bytes 24); payload = drop manifest_header_len bytes;
               actual_checksum = manifest_checksum count payload in
      if expected \<noteq> actual_checksum then Inl (RegistryCorruption (ManifestChecksum expected actual_checksum))
      else if count > length payload div descriptor_min_payload_len
      then Inl (RegistryCorruption (ManifestPayload ''descriptor count''))
      else res_bind (read_descriptors count payload 0 []) (\<lambda>(ds, offset).
      if offset = length payload then Inr ds
      else Inl (RegistryCorruption (ManifestPayload ''trailing bytes'')))))"

section \<open>Canonical manifests\<close>

definition lower_tables :: "registry_descriptor list \<Rightarrow> string list" where
  "lower_tables ds = map (map to_ascii_lowercase \<circ> rd_table) ds"

definition lower_members :: "registry_descriptor list \<Rightarrow> string list" where
  "lower_members ds = map (map to_ascii_lowercase \<circ> rd_member) ds"

definition names_encodable :: "registry_descriptor \<Rightarrow> bool" where
  "names_encodable d \<longleftrightarrow>
     utf8_valid (rd_table d) \<and> utf8_valid (rd_member d) \<and> length (rd_table d) < 2 ^ 32 \<and> length (rd_member d) < 2 ^ 32"

definition manifest_canonical :: "registry_descriptor list \<Rightarrow> bool" where
  "manifest_canonical ds \<longleftrightarrow>
     sorted_wrt (<) (lower_tables ds) \<and> distinct (lower_members ds) \<and>
     list_all (\<lambda>d. safe_registry_member (rd_member d)) ds"

lemma length_descriptor_bytes [simp]:
  "length (descriptor_bytes d) = 8 + length (rd_table d) + length (rd_member d)"
  by (simp add: descriptor_bytes_def push_registry_bytes_def)

lemma sorted_wrt_snoc: "sorted_wrt (<) (xs @ [x :: 'a::order]) \<longleftrightarrow> sorted_wrt (<) xs \<and> (xs = [] \<or> last xs < x)"
  by (induction xs) (auto simp: sorted_wrt_append intro: less_trans)

lemma lower_tables_Nil: "lower_tables ds = [] \<longleftrightarrow> ds = []"
  by (simp add: lower_tables_def)

lemma check_descriptor_ok:
  assumes "manifest_canonical ds"
  shows "check_descriptor ds t m = Inr () \<longleftrightarrow> manifest_canonical (ds @ [\<lparr>rd_table = t, rd_member = m\<rparr>])"
proof -
  let ?t = "map to_ascii_lowercase t" and ?last = "map to_ascii_lowercase (rd_table (last ds))"
  have last: "ds \<noteq> [] \<Longrightarrow> last (lower_tables ds) = ?last"
    by (simp add: lower_tables_def last_map)
  have below: "?t \<notin> set (lower_tables ds)" if "sorted_wrt (<) (lower_tables ds @ [?t])"
    using that by (auto simp: sorted_wrt_append)
  have "check_descriptor ds t m = Inr () \<longleftrightarrow>
      ?t \<notin> set (lower_tables ds) \<and> (ds = [] \<or> ?last < ?t) \<and>
      map to_ascii_lowercase m \<notin> set (lower_members ds) \<and> safe_registry_member m"
    by (auto simp: check_descriptor_def lower_tables_def lower_members_def Let_def not_le split: if_splits)
  also have "\<dots> \<longleftrightarrow> sorted_wrt (<) (lower_tables ds @ [?t]) \<and>
      map to_ascii_lowercase m \<notin> set (lower_members ds) \<and> safe_registry_member m"
    using assms last below
    by (cases "ds = []") (auto simp: sorted_wrt_snoc manifest_canonical_def lower_tables_Nil)
  finally show ?thesis
    using assms by (auto simp: manifest_canonical_def lower_tables_def lower_members_def sorted_wrt_append)
qed

definition name_encodable :: "string \<Rightarrow> bool" where
  "name_encodable s \<longleftrightarrow> utf8_valid s \<and> length s < 2 ^ 32"

text \<open>Reading one name after \<open>pre\<close> succeeds exactly on the name's encoding.\<close>

lemma length_push_registry_bytes [simp]: "length (push_registry_bytes bs) = 4 + length bs"
  by (simp add: push_registry_bytes_def)

lemma unat_of_nat_u32: "n < 2 ^ 32 \<Longrightarrow> unat (of_nat n :: u32) = n"
  by (simp add: unat_of_nat)

lemma manifest_string_written:
  assumes "name_encodable s" and "length (pre @ push_registry_bytes (bytes_of_str s) @ rest) \<le> usize_max"
  shows "manifest_string field (pre @ push_registry_bytes (bytes_of_str s) @ rest) (length pre) =
    Inr (s, length pre + 4 + length s)"
proof -
  have n: "unat (of_nat (length s) :: u32) = length s"
    using assms(1) unat_of_nat_u32 by (simp add: name_encodable_def)
  obtain u where u: "from_utf8 0 (bytes_of_str s) = Inr u"
    using assms(1) by (auto simp: name_encodable_def utf8_valid_def)
  show ?thesis
    using assms(2) n u
    by (simp add: manifest_string_def read_array_def push_registry_bytes_def checked_add_def)
qed

lemma manifest_string_read:
  assumes "manifest_string field (pre @ rest) (length pre) = Inr (s, e)"
  shows "\<exists>rest'. rest = push_registry_bytes (bytes_of_str s) @ rest' \<and> e = length pre + 4 + length s \<and> name_encodable s"
proof -
  define w where "w = (from_le (take 4 rest) :: u32)"
  have len: "4 + unat w \<le> length rest" "e = length pre + 4 + unat w"
    and bs: "\<exists>u. from_utf8 0 (take (unat w) (drop 4 rest)) = Inr u" "s = str_of_bytes (take (unat w) (drop 4 rest))"
    using assms
    by (auto simp: manifest_string_def read_array_def checked_add_def w_def res_bind_Inr_iff Let_def not_less
        split: if_splits sum.splits)
  have "to_le 4 w = take 4 rest"
    using to_le_from_le [of "take 4 rest", where ?'a = 32] len(1) by (simp add: w_def)
  moreover have "length s = unat w" using len(1) bs(2) by (simp add: str_of_bytes_def)
  moreover have "unat w < 2 ^ 32" using unsigned_less [of w] by simp
  ultimately show ?thesis
    using len bs
    by (intro exI [of _ "drop (4 + unat w) rest"])
      (simp add: push_registry_bytes_def name_encodable_def utf8_valid_def flip: append_assoc take_add)
qed

lemma names_encodable_eq: "names_encodable d \<longleftrightarrow> name_encodable (rd_table d) \<and> name_encodable (rd_member d)"
  by (auto simp: names_encodable_def name_encodable_def)

lemma read_descriptors_written:
  "list_all names_encodable new \<Longrightarrow> manifest_canonical (ds @ new) \<Longrightarrow>
    length (pre @ concat (map descriptor_bytes new) @ rest) \<le> usize_max \<Longrightarrow>
    read_descriptors (length new) (pre @ concat (map descriptor_bytes new) @ rest) (length pre) ds =
      (Inr (ds @ new, length pre + length (concat (map descriptor_bytes new))) :: 'io registry_error + _)"
proof (induction new arbitrary: pre ds)
  case (Cons d new)
  let ?t = "push_registry_bytes (bytes_of_str (rd_table d))" and ?m = "push_registry_bytes (bytes_of_str (rd_member d))"
  let ?tail = "concat (map descriptor_bytes new) @ rest"
  have enc: "name_encodable (rd_table d)" "name_encodable (rd_member d)"
    using Cons.prems(1) by (simp_all add: names_encodable_eq)
  have t: "manifest_string ''table name'' (pre @ ?t @ (?m @ ?tail)) (length pre) =
      (Inr (rd_table d, length pre + 4 + length (rd_table d)) :: 'io registry_error + _)"
    using Cons.prems(3) by (intro manifest_string_written [OF enc(1)]) simp
  have m: "manifest_string ''member name'' ((pre @ ?t) @ ?m @ ?tail) (length (pre @ ?t)) =
      (Inr (rd_member d, length (pre @ ?t) + 4 + length (rd_member d)) :: 'io registry_error + _)"
    using Cons.prems(3) by (intro manifest_string_written [OF enc(2)]) simp
  have canon: "manifest_canonical (ds @ [d])" "manifest_canonical ds"
    using Cons.prems(2) by (auto simp: manifest_canonical_def lower_tables_def lower_members_def sorted_wrt_append)
  have "check_descriptor ds (rd_table d) (rd_member d) = Inr ()"
    using check_descriptor_ok [OF canon(2), of "rd_table d" "rd_member d"] canon(1) by (cases d) simp
  moreover have "read_descriptors (length new) ((pre @ ?t @ ?m) @ ?tail) (length (pre @ ?t @ ?m)) (ds @ [d]) =
      (Inr ((ds @ [d]) @ new, length (pre @ ?t @ ?m) + length (concat (map descriptor_bytes new))) :: 'io registry_error + _)"
    using Cons.prems by (intro Cons.IH) (simp_all add: descriptor_bytes_def)
  moreover have "\<lparr>rd_table = rd_table d, rd_member = rd_member d\<rparr> = d" by simp
  ultimately show ?case using t m
    by (simp add: descriptor_bytes_def [of d] add.assoc del: registry_descriptor.simps)
qed simp

lemma read_descriptors_read:
  "read_descriptors n (pre @ rest) (length pre) ds = (Inr (ds', e) :: 'io registry_error + _) \<Longrightarrow>
    manifest_canonical ds \<Longrightarrow>
    \<exists>new rest'. ds' = ds @ new \<and> length new = n \<and> rest = concat (map descriptor_bytes new) @ rest' \<and>
      e = length pre + length (concat (map descriptor_bytes new)) \<and> list_all names_encodable new \<and>
      manifest_canonical ds'"
proof (induction n arbitrary: pre rest ds)
  case 0
  then show ?case by (intro exI [of _ "[]"] exI [of _ rest]) simp
next
  case (Suc n)
  obtain t o1 m o2 where t: "manifest_string ''table name'' (pre @ rest) (length pre) = (Inr (t, o1) :: 'io registry_error + _)"
    and m: "manifest_string ''member name'' (pre @ rest) o1 = (Inr (m, o2) :: 'io registry_error + _)"
    and ok: "check_descriptor ds t m = Inr ()"
    and tail: "read_descriptors n (pre @ rest) o2 (ds @ [\<lparr>rd_table = t, rd_member = m\<rparr>]) = (Inr (ds', e) :: 'io registry_error + _)"
    using Suc.prems(1) by (auto simp: res_bind_Inr_iff map_err_Inr_iff split: prod.splits)
  let ?d = "\<lparr>rd_table = t, rd_member = m\<rparr>"
  obtain r1 where r1: "rest = push_registry_bytes (bytes_of_str t) @ r1" "o1 = length pre + 4 + length t" "name_encodable t"
    using manifest_string_read [OF t] by blast
  let ?pre1 = "pre @ push_registry_bytes (bytes_of_str t)"
  have "manifest_string ''member name'' (?pre1 @ r1) (length ?pre1) = (Inr (m, o2) :: 'io registry_error + _)" using m r1
    by (simp add: add.assoc)
  then obtain r2 where r2: "r1 = push_registry_bytes (bytes_of_str m) @ r2" "o2 = length ?pre1 + 4 + length m" "name_encodable m"
    using manifest_string_read by blast
  let ?pre2 = "?pre1 @ push_registry_bytes (bytes_of_str m)"
  have "read_descriptors n (?pre2 @ r2) (length ?pre2) (ds @ [?d]) = (Inr (ds', e) :: 'io registry_error + _)"
    using tail r1 r2 by (simp add: add.assoc add.left_commute)
  moreover have "manifest_canonical (ds @ [?d])" using check_descriptor_ok [OF Suc.prems(2)] ok by blast
  ultimately obtain new r3 where "ds' = (ds @ [?d]) @ new" "length new = n" "r2 = concat (map descriptor_bytes new) @ r3"
      "e = length ?pre2 + length (concat (map descriptor_bytes new))" "list_all names_encodable new" "manifest_canonical ds'"
    using Suc.IH by blast
  then show ?case using r1 r2
    by (intro exI [of _ "?d # new"] exI [of _ r3]) (simp add: descriptor_bytes_def [of ?d] names_encodable_eq [of ?d])
qed

lemma manifest_payload_len:
  "8 * length ds \<le> length (concat (map descriptor_bytes ds))"
  by (induction ds) simp_all

lemma manifest_layout [simp]:
  "length manifest_magic = 8" "manifest_header_len = 28" "descriptor_min_payload_len = 8"
  by (simp_all add: manifest_magic_def manifest_header_len_def descriptor_min_payload_len_def)

text \<open>C24: The registry manifest: bytes are accepted, with these descriptors, exactly when they are what
  the writer produces for them, the table count is within the limit, and the descriptors are canonical:
  tables strictly ascending (so distinct) and members distinct, both without regard to case, members
  safe file names, all names valid UTF-8.\<close>

theorem manifest_accepts_canonical:
  assumes "length bytes \<le> usize_max"
  shows "decode_registry_manifest bytes limits = (Inr ds :: 'io registry_error + _) \<longleftrightarrow>
    bytes = encode_registry_manifest ds \<and> ds \<noteq> [] \<and> length ds \<le> rl_max_tables limits \<and> length ds < 2 ^ 32 \<and>
    list_all names_encodable ds \<and> manifest_canonical ds"
proof
  assume "decode_registry_manifest bytes limits = (Inr ds :: 'io registry_error + _)"
  moreover define count where "count = unat (from_le (read_array 4 bytes 12) :: u32)"
  moreover define p where "p = drop 28 bytes"
  ultimately have len: "28 \<le> length bytes" and magic: "read_array 8 bytes 0 = manifest_magic"
    and version: "from_le (read_array 2 bytes 8) = manifest_version" and reserved: "from_le (read_array 2 bytes 10) = (0 :: u16)"
    and valid: "(validate_registry_table_count count limits :: 'io registry_error + unit) = Inr ()"
    and declared: "from_le (read_array 8 bytes 16) = (of_nat (length p) :: u64)"
    and sum: "from_le (read_array 4 bytes 24) = manifest_checksum count p"
    and read: "read_descriptors count p 0 [] = (Inr (ds, length p) :: 'io registry_error + _)"
    by (auto simp: decode_registry_manifest_def Let_def res_bind_Inr_iff saturating_sub_def not_less split: if_splits)
  have fields: "read_array 2 bytes 8 = to_le 2 manifest_version" "read_array 2 bytes 10 = to_le 2 (0 :: u16)"
    "read_array 8 bytes 16 = to_le 8 (of_nat (length p) :: u64)" "read_array 4 bytes 24 = to_le 4 (manifest_checksum count p)"
    "read_array 4 bytes 12 = to_le 4 (from_le (read_array 4 bytes 12) :: u32)"
    using le_field [of "read_array 2 bytes 8" 2, where ?'a = 16] le_field [of "read_array 2 bytes 10" 2, where ?'a = 16]
      le_field [of "read_array 8 bytes 16" 8, where ?'a = 64] le_field [of "read_array 4 bytes 24" 4, where ?'a = 32]
      le_field [of "read_array 4 bytes 12" 4, where ?'a = 32] version reserved declared sum len
    by (simp_all add: read_array_def)
  have "manifest_canonical []" by (simp add: manifest_canonical_def lower_tables_def lower_members_def)
  moreover have start: "read_descriptors count ([] @ p) (length ([] :: u8 list)) [] = (Inr (ds, length p) :: 'io registry_error + _)"
    using read by simp
  ultimately obtain rest where ds: "length ds = count" "p = concat (map descriptor_bytes ds) @ rest"
    "length p = length (concat (map descriptor_bytes ds))" "list_all names_encodable ds" "manifest_canonical ds"
    using read_descriptors_read [OF start] by auto
  then have payload: "p = concat (map descriptor_bytes ds)" by simp
  have "of_nat (length ds) = (from_le (read_array 4 bytes 12) :: u32)" by (simp add: ds(1) count_def)
  then have count: "read_array 4 bytes 12 = to_le 4 (of_nat (length ds) :: u32)" using fields(5) by simp
  have "bytes = read_array 8 bytes 0 @ read_array 2 bytes 8 @ read_array 2 bytes 10 @ read_array 4 bytes 12 @
      read_array 8 bytes 16 @ read_array 4 bytes 24 @ p"
    by (simp add: read_array_def p_def flip: append_assoc take_add)
  also have "\<dots> = encode_registry_manifest ds"
    by (simp only: magic fields(1-4) count payload encode_registry_manifest_def Let_def ds(1))
  finally have "bytes = encode_registry_manifest ds" .
  moreover have "count < 2 ^ 32" using unsigned_less [of "from_le (read_array 4 bytes 12) :: u32"] by (simp add: count_def)
  ultimately show "bytes = encode_registry_manifest ds \<and> ds \<noteq> [] \<and> length ds \<le> rl_max_tables limits \<and> length ds < 2 ^ 32 \<and>
    list_all names_encodable ds \<and> manifest_canonical ds"
    using valid ds by (auto simp: validate_registry_table_count_def split: if_splits)
next
  assume *: "bytes = encode_registry_manifest ds \<and> ds \<noteq> [] \<and> length ds \<le> rl_max_tables limits \<and> length ds < 2 ^ 32 \<and>
    list_all names_encodable ds \<and> manifest_canonical ds"
  let ?p = "concat (map descriptor_bytes ds)"
  have bytes: "bytes = manifest_magic @ to_le 2 manifest_version @ to_le 2 (0 :: u16) @ to_le 4 (of_nat (length ds) :: u32) @
      to_le 8 (of_nat (length ?p) :: u64) @ to_le 4 (manifest_checksum (length ds) ?p) @ ?p"
    using * by (simp add: encode_registry_manifest_def Let_def)
  have len: "length bytes = 28 + length ?p" by (simp add: bytes)
  have fields: "read_array 8 bytes 0 = manifest_magic" "read_array 2 bytes 8 = to_le 2 manifest_version"
    "read_array 2 bytes 10 = to_le 2 (0 :: u16)" "read_array 4 bytes 12 = to_le 4 (of_nat (length ds) :: u32)"
    "read_array 8 bytes 16 = to_le 8 (of_nat (length ?p) :: u64)"
    "read_array 4 bytes 24 = to_le 4 (manifest_checksum (length ds) ?p)" "drop 28 bytes = ?p"
    by (simp_all add: bytes read_array_def)
  have "read_descriptors (length ds) ?p 0 [] = (Inr (ds, length ?p) :: 'io registry_error + _)"
    using read_descriptors_written [of ds "[]" "[]" "[]"] * len assms by simp
  moreover have "unat (of_nat (length ds) :: u32) = length ds" using * unat_of_nat_u32 by blast
  moreover have "length ds \<le> length ?p div 8" using manifest_payload_len [of ds] by simp
  ultimately show "decode_registry_manifest bytes limits = (Inr ds :: 'io registry_error + _)"
    using * [THEN conjunct2]
    by (simp add: decode_registry_manifest_def len fields Let_def validate_registry_table_count_def saturating_sub_def)
qed

theorem manifest_accepts_canonical_witness:
  "(decode_registry_manifest (encode_registry_manifest
       [\<lparr>rd_table = ''a'', rd_member = ''a.wal''\<rparr>, \<lparr>rd_table = ''B'', rd_member = ''b.wal''\<rparr>]) registry_limits_default =
     (Inr [\<lparr>rd_table = ''a'', rd_member = ''a.wal''\<rparr>, \<lparr>rd_table = ''B'', rd_member = ''b.wal''\<rparr>] :: unit registry_error + _)) \<and>
   (decode_registry_manifest (encode_registry_manifest
       [\<lparr>rd_table = ''b'', rd_member = ''b.wal''\<rparr>, \<lparr>rd_table = ''A'', rd_member = ''a.wal''\<rparr>]) registry_limits_default \<noteq>
     (Inr [\<lparr>rd_table = ''b'', rd_member = ''b.wal''\<rparr>, \<lparr>rd_table = ''A'', rd_member = ''a.wal''\<rparr>] :: unit registry_error + _))"
proof -
  let ?ds = "[\<lparr>rd_table = ''a'', rd_member = ''a.wal''\<rparr>, \<lparr>rd_table = ''B'', rd_member = ''b.wal''\<rparr>]"
    and ?es = "[\<lparr>rd_table = ''b'', rd_member = ''b.wal''\<rparr>, \<lparr>rd_table = ''A'', rd_member = ''a.wal''\<rparr>]"
  have "manifest_canonical ?ds" "\<not> manifest_canonical ?es"
    by code_simp+
  moreover have "utf8_valid ''a''" "utf8_valid ''B''" "utf8_valid ''a.wal''" "utf8_valid ''b.wal''" by code_simp+
  then have "list_all names_encodable ?ds" by (simp add: names_encodable_def)
  moreover have "length (encode_registry_manifest ?ds) \<le> usize_max" "length (encode_registry_manifest ?es) \<le> usize_max"
    by (simp_all add: encode_registry_manifest_def descriptor_bytes_def push_registry_bytes_def manifest_magic_def Let_def usize_max_def)
  moreover have "length ?ds \<le> rl_max_tables registry_limits_default"
    by (simp add: registry_limits_default_def registry_limits_new_def)
  ultimately show ?thesis
    using manifest_accepts_canonical [of "encode_registry_manifest ?ds" registry_limits_default ?ds]
      manifest_accepts_canonical [of "encode_registry_manifest ?es" registry_limits_default ?es] by simp
qed

end
