(* ===== verification/Wal_Registry.thy ===== *)
theory Wal_Registry
  imports Wal_Manifest
begin

text \<open>
  A registry of write-ahead logs (\<^verbatim>\<open>src/batch/wal.rs\<close>), one log per table in a
  directory with a manifest: the checks before anything is created, the creation of directory, logs and
  manifest, and the commits, which are counted against limits for all logs together and stop after a
  failed write.
\<close>

section \<open>Checks before creation\<close>

record registry_preflight =
  pf_table_name :: string
  pf_column_name :: string
  pf_rows :: usize
  pf_nullable :: bool

definition preflight_of :: "wal_bootstrap \<Rightarrow> registry_preflight" where
  "preflight_of b =
     \<lparr>pf_table_name = wb_table_name b, pf_column_name = wb_column_name b, pf_rows = length (wb_values b),
      pf_nullable = wb_nullable b\<rparr>"

text \<open>The bytes of the first log record of a table.\<close>

definition bootstrap_record_bytes :: "registry_preflight \<Rightarrow> usize" where
  "bootstrap_record_bytes t =
     saturating_add
       (case bootstrap_payload_len (length (pf_table_name t)) (length (pf_column_name t)) (pf_rows t) (pf_nullable t) of
          None \<Rightarrow> usize_max | Some n \<Rightarrow> n)
       wal_frame_overhead"

text \<open>The number of decimal digits, as the loop over the index counts them.\<close>

fun decimal_digits :: "usize \<Rightarrow> usize" where
  "decimal_digits n = (if n \<ge> 10 then decimal_digits (n div 10) + 1 else 1)"

declare decimal_digits.simps [simp del]

definition generated_member_name_len :: "usize \<Rightarrow> usize" where
  "generated_member_name_len i = 6 + max (decimal_digits i) 8 + 4"

text \<open>\<open>table-{index:08}.wal\<close>\<close>

definition member_name :: "usize \<Rightarrow> string" where
  "member_name i =
     ''table-'' @ replicate (8 - length (usize_display i)) (CHR ''0'') @ usize_display i @ ''.wal''"

definition first_duplicate :: "registry_preflight list \<Rightarrow> string option" where
  "first_duplicate tables =
     map_option (\<lambda>i. pf_table_name (tables ! i))
       (find (\<lambda>i. map to_ascii_lowercase (pf_table_name (tables ! i)) \<in>
           set (map (map to_ascii_lowercase \<circ> pf_table_name) (take i tables)))
         [0..<length tables])"

fun preflight_loop ::
  "usize \<Rightarrow> registry_preflight list \<Rightarrow> registry_limits \<Rightarrow> usize \<Rightarrow> usize \<Rightarrow> 'io registry_error + usize \<times> usize" where
  "preflight_loop i [] limits manifest_bytes bootstrap_bytes = Inr (manifest_bytes, bootstrap_bytes)"
| "preflight_loop i (t # ts) limits manifest_bytes bootstrap_bytes =
     res_bind (map_err (RegistryMember (pf_table_name t) ''bootstrap'')
       (validate_bootstrap_limits (length (pf_table_name t)) (length (pf_column_name t)) (pf_rows t)
         (pf_nullable t) (rl_per_table limits))) (\<lambda>_.
     preflight_loop (i + 1) ts limits
       (saturating_add (saturating_add (saturating_add (saturating_add manifest_bytes 4)
         (length (pf_table_name t))) 4) (generated_member_name_len i))
       (saturating_add bootstrap_bytes (bootstrap_record_bytes t)))"

definition preflight_registry_tables :: "registry_preflight list \<Rightarrow> registry_limits \<Rightarrow> 'io registry_error + unit" where
  "preflight_registry_tables tables limits =
     res_bind (validate_registry_table_count (length tables) limits) (\<lambda>_.
     case first_duplicate tables of
       Some table \<Rightarrow> Inl (RegistryCorruption (RegistryDuplicateTable table))
     | None \<Rightarrow>
     res_bind (preflight_loop 0 tables limits manifest_header_len 0) (\<lambda>(manifest_bytes, bootstrap_bytes).
     res_bind (validate_manifest_size manifest_bytes limits) (\<lambda>_.
     map_err RegistryLimit (validate_registry_totals bootstrap_bytes (length tables) limits))))"

definition registry_destination_name :: "string \<Rightarrow> 'io registry_error + name" where
  "registry_destination_name path =
     (if ends_with ''/'' path \<or> ends_with ''/.'' path then Inl RegistryInvalidDestination
      else let name = last_component path in
      if name = [] \<or> name = ''.'' \<or> name = ''..'' then Inl RegistryInvalidDestination
      else if CHR 0x00 \<in> set name then Inl RegistryInvalidDestination
      else Inr name)"

section \<open>Creation\<close>

record wal_registry =
  reg_writers :: "string \<rightharpoonup> wal_writer"
  reg_limits :: registry_limits
  reg_total_wal_bytes :: usize
  reg_total_records :: usize
  reg_poisoned :: bool

text \<open>The calls on the parent directory are counted with those on the new one: \<open>mkdirat\<close> makes an
  empty directory unless the name is taken.\<close>

definition parent_call :: "'io environment \<Rightarrow> directory \<Rightarrow> ('io io_error + unit) \<times> directory" where
  "parent_call env = syscall env (\<lambda>d. (Inr (), d))"

definition make_directory :: "'io environment \<Rightarrow> bool \<Rightarrow> directory \<Rightarrow> ('io io_error + unit) \<times> directory" where
  "make_directory env taken = syscall env (\<lambda>d.
     if taken then (Inl AlreadyExists, d) else (Inr (), d\<lparr>entries := Map.empty\<rparr>))"

text \<open>The logs are created one after the other; a later failure leaves the earlier ones behind.\<close>

fun create_members ::
  "'io environment \<Rightarrow> wal_limits \<Rightarrow> (wal_bootstrap \<times> registry_descriptor) list \<Rightarrow> (string \<rightharpoonup> wal_writer) \<Rightarrow>
   directory \<Rightarrow> ('io io_error registry_error + (string \<rightharpoonup> wal_writer)) \<times> directory" where
  "create_members env limits [] writers d = (Inr writers, d)"
| "create_members env limits ((b, r) # rest) writers d =
     (case create_in_directory env (rd_member r) b limits d of
        (Inl e, d1) \<Rightarrow> (Inl (RegistryMember (wb_table_name b) (rd_member r) e), d1)
      | (Inr w, d1) \<Rightarrow>
          create_members env limits rest (writers(map to_ascii_lowercase (wb_table_name b) \<mapsto> w)) d1)"

definition registry_descriptors :: "wal_bootstrap list \<Rightarrow> registry_descriptor list" where
  "registry_descriptors bs =
     map (\<lambda>(i, b). \<lparr>rd_table = wb_table_name b, rd_member = member_name i\<rparr>) (enumerate 0 bs)"

definition write_manifest ::
  "'io environment \<Rightarrow> u8 list \<Rightarrow> directory \<Rightarrow> ('io io_error registry_error + nat) \<times> directory" where
  "write_manifest env manifest d =
     (case dir_create env manifest_name d of
        (Inl e, d1) \<Rightarrow> (Inl (RegistryCreateManifest e), d1)
      | (Inr inode, d1) \<Rightarrow>
      case write_all env inode manifest d1 of
        (Inl e, d2) \<Rightarrow> (Inl (RegistryWriteManifest e), d2)
      | (Inr _, d2) \<Rightarrow>
      case file_sync env inode d2 of
        (Inl e, d3) \<Rightarrow> (Inl (RegistrySyncManifest e), d3)
      | (Inr _, d3) \<Rightarrow>
      case dir_sync env d3 of
        (Inl e, d4) \<Rightarrow> (Inl (RegistrySyncDirectory e), d4)
      | (Inr _, d4) \<Rightarrow> (Inr inode, d4))"

definition sort_bootstraps :: "wal_bootstrap list \<Rightarrow> wal_bootstrap list" where
  "sort_bootstraps = sort_key (\<lambda>b. map to_ascii_lowercase (wb_table_name b))"

definition create_registry ::
  "'io environment \<Rightarrow> string \<Rightarrow> bool \<Rightarrow> wal_bootstrap list \<Rightarrow> registry_limits \<Rightarrow> directory \<Rightarrow>
   ('io io_error registry_error + wal_registry) \<times> directory" where
  "create_registry env path taken bootstraps limits d =
     (case preflight_registry_tables (map preflight_of bootstraps) limits of
        Inl e \<Rightarrow> (Inl e, d)
      | Inr _ \<Rightarrow>
      let bs = sort_bootstraps bootstraps; descriptors = registry_descriptors bs;
          manifest = encode_registry_manifest descriptors;
          bootstrap_bytes = foldl saturating_add 0 (map (bootstrap_record_bytes \<circ> preflight_of) bs) in
      case validate_registry_totals bootstrap_bytes (length bs) limits of
        Inl e \<Rightarrow> (Inl (RegistryLimit e), d)
      | Inr _ \<Rightarrow>
      case registry_destination_name path of
        Inl e \<Rightarrow> (Inl e, d)
      | Inr destination \<Rightarrow>
      case parent_call env d of
        (Inl e, d1) \<Rightarrow> (Inl (RegistryOpenParent e), d1)
      | (Inr _, d1) \<Rightarrow>
      case make_directory env taken d1 of
        (Inl e, d2) \<Rightarrow> (Inl (RegistryCreateDirectory e), d2)
      | (Inr _, d2) \<Rightarrow>
      case parent_call env d2 of
        (Inl e, d3) \<Rightarrow> (Inl (RegistrySyncParent e), d3)
      | (Inr _, d3) \<Rightarrow>
      case parent_call env d3 of
        (Inl e, d4) \<Rightarrow> (Inl (RegistryOpenDirectory e), d4)
      | (Inr _, d4) \<Rightarrow>
      case create_members env (rl_per_table limits) (zip bs descriptors) Map.empty d4 of
        (Inl e, d5) \<Rightarrow> (Inl e, d5)
      | (Inr writers, d5) \<Rightarrow>
      case write_manifest env manifest d5 of
        (Inl e, d6) \<Rightarrow> (Inl e, d6)
      | (Inr _, d6) \<Rightarrow>
          (Inr \<lparr>reg_writers = writers, reg_limits = limits, reg_total_wal_bytes = bootstrap_bytes,
             reg_total_records = length descriptors, reg_poisoned = False\<rparr>, d6))"

section \<open>Commits\<close>

datatype 'io wal_commit_error =
  CommitLimit wal_limit_error
| CommitRegistryLimit registry_limit_error
| CommitPoisoned
| CommitWrite 'io
| CommitSyncFile 'io
| CommitUnexpected "'io wal_error"
| CommitPanic

text \<open>\<open>From\<close> of an error of one log; the writer's panic stays a panic.\<close>

fun commit_error_of :: "'io wal_error \<Rightarrow> 'io wal_commit_error" where
  "commit_error_of (WalLimit e) = CommitLimit e"
| "commit_error_of WalPoisoned = CommitPoisoned"
| "commit_error_of (WalWrite e) = CommitWrite e"
| "commit_error_of (WalSyncFile e) = CommitSyncFile e"
| "commit_error_of WalPanic = CommitPanic"
| "commit_error_of e = CommitUnexpected e"

definition registry_tracks :: "wal_registry \<Rightarrow> string \<Rightarrow> bool" where
  "registry_tracks reg table \<longleftrightarrow> reg_writers reg (map to_ascii_lowercase table) \<noteq> None"

definition reserve_record :: "wal_registry \<Rightarrow> usize \<Rightarrow> 'io wal_commit_error + unit" where
  "reserve_record reg bytes =
     (if reg_poisoned reg then Inl CommitPoisoned
      else map_err CommitRegistryLimit
        (validate_registry_totals (saturating_add (reg_total_wal_bytes reg) bytes)
          (saturating_add (reg_total_records reg) 1) (reg_limits reg)))"

text \<open>The bytes the next record of an operation takes.\<close>

definition next_append_bytes :: "wal_writer \<Rightarrow> usize \<Rightarrow> usize" where
  "next_append_bytes w n =
     saturating_add (saturating_add wal_frame_overhead 8) (saturating_mul n (if ww_nullable w then 9 else 8))"

definition next_replace_bytes :: "wal_writer \<Rightarrow> usize \<Rightarrow> usize" where
  "next_replace_bytes w n =
     saturating_add (saturating_add wal_frame_overhead 8) (saturating_mul n (if ww_nullable w then 17 else 16))"

fun next_op_bytes :: "wal_writer \<Rightarrow> wal_op \<Rightarrow> usize" where
  "next_op_bytes w (LogAppend vs) = next_append_bytes w (length vs)"
| "next_op_bytes w LogTruncate = wal_frame_overhead"
| "next_op_bytes w (LogReplace rs) = next_replace_bytes w (length rs)"

text \<open>A table that is not a member is a panic of \<open>expect\<close>. The operation itself is
  \<open>append_values\<close>, \<open>truncate\<close> or \<open>replace_values\<close> of the member's log.\<close>

definition commit_member_record ::
  "'io environment \<Rightarrow> string \<Rightarrow> usize \<Rightarrow> wal_op \<Rightarrow> wal_registry \<Rightarrow> directory \<Rightarrow>
   ('io io_error wal_commit_error + unit) \<times> wal_registry \<times> directory" where
  "commit_member_record env key bytes op reg d =
     (case reserve_record reg bytes of
        Inl e \<Rightarrow> (Inl e, reg, d)
      | Inr _ \<Rightarrow>
      case reg_writers reg key of
        None \<Rightarrow> (Inl CommitPanic, reg, d)
      | Some w \<Rightarrow>
      case wal_apply env op w d of
        (Inr _, w', d') \<Rightarrow>
          (Inr (), reg\<lparr>reg_writers := (reg_writers reg)(key \<mapsto> w'),
             reg_total_wal_bytes := reg_total_wal_bytes reg + bytes,
             reg_total_records := reg_total_records reg + 1\<rparr>, d')
      | (Inl e, w', d') \<Rightarrow>
          (Inl (commit_error_of e),
           reg\<lparr>reg_writers := (reg_writers reg)(key \<mapsto> w'),
             reg_poisoned := (case e of WalLimit _ \<Rightarrow> reg_poisoned reg | WalPanic \<Rightarrow> reg_poisoned reg | _ \<Rightarrow> True)\<rparr>, d'))"

text \<open>The length of the record comes from the table's log, except for a truncation, whose record is only
  the frame: it looks the log up after the checks.\<close>

definition registry_commit ::
  "'io environment \<Rightarrow> string \<Rightarrow> wal_op \<Rightarrow> wal_registry \<Rightarrow> directory \<Rightarrow>
   ('io io_error wal_commit_error + unit) \<times> wal_registry \<times> directory" where
  "registry_commit env table op reg d =
     (let key = map to_ascii_lowercase table in
      if op = LogTruncate then commit_member_record env key wal_frame_overhead op reg d
      else case reg_writers reg key of
        None \<Rightarrow> (Inl CommitPanic, reg, d)
      | Some w \<Rightarrow> commit_member_record env key (next_op_bytes w op) op reg d)"

lemma registry_commit_tracked:
  "reg_writers reg (map to_ascii_lowercase table) = Some w \<Longrightarrow> registry_commit env table op reg d =
     commit_member_record env (map to_ascii_lowercase table) (next_op_bytes w op) op reg d"
  by (simp add: registry_commit_def Let_def)

definition registry_append_values ::
  "'io environment \<Rightarrow> string \<Rightarrow> nullable_i64 list \<Rightarrow> wal_registry \<Rightarrow> directory \<Rightarrow>
   ('io io_error wal_commit_error + unit) \<times> wal_registry \<times> directory" where
  "registry_append_values env table vs = registry_commit env table (LogAppend vs)"

definition registry_truncate ::
  "'io environment \<Rightarrow> string \<Rightarrow> wal_registry \<Rightarrow> directory \<Rightarrow>
   ('io io_error wal_commit_error + unit) \<times> wal_registry \<times> directory" where
  "registry_truncate env table = registry_commit env table LogTruncate"

definition registry_replace_values ::
  "'io environment \<Rightarrow> string \<Rightarrow> (usize \<times> nullable_i64) list \<Rightarrow> wal_registry \<Rightarrow> directory \<Rightarrow>
   ('io io_error wal_commit_error + unit) \<times> wal_registry \<times> directory" where
  "registry_replace_values env table rs = registry_commit env table (LogReplace rs)"

text \<open>What the database holds: nothing, one log, or a registry; the calls go to the log of the
  table.\<close>

datatype active_wals = SingleWal wal_writer | RegistryWals wal_registry

fun active_tracks :: "active_wals \<Rightarrow> string \<Rightarrow> bool" where
  "active_tracks (SingleWal w) table = wal_tracks w table"
| "active_tracks (RegistryWals reg) table = registry_tracks reg table"

fun active_commit ::
  "'io environment \<Rightarrow> string \<Rightarrow> wal_op \<Rightarrow> active_wals \<Rightarrow> directory \<Rightarrow>
   ('io io_error wal_commit_error + unit) \<times> active_wals \<times> directory" where
  "active_commit env table op (SingleWal w) d =
     (case wal_apply env op w d of (r, w', d') \<Rightarrow> (map_err commit_error_of r, SingleWal w', d'))"
| "active_commit env table op (RegistryWals reg) d =
     (case registry_commit env table op reg d of (r, reg', d') \<Rightarrow> (r, RegistryWals reg', d'))"

section \<open>Recovery\<close>

text \<open>What the calls on a registry directory answer: the parent and the directory can be opened, the
  manifest's metadata and contents, the listing, and each member file by its name, with an identity
  (device and inode), its length and its contents.\<close>

datatype ('m, 'io) member_answer = MemberMissing | MemberOpenFailed 'io | MemberFile 'm

record 'io member_file =
  mf_metadata :: "'io + bool \<times> u64 \<times> nat"
  mf_reads :: "(u8, 'io) read_event list"

record 'io registry_image =
  ri_open_parent :: "'io + unit"
  ri_open_directory :: "'io + unit"
  ri_open_manifest :: "'io + unit"
  ri_manifest_metadata :: "'io + bool \<times> u64"
  ri_manifest_reads :: "(u8, 'io) read_event list"
  ri_listing :: "'io + name list"
  ri_member :: "name \<Rightarrow> ('io member_file, 'io) member_answer"

definition first_unexpected_entry :: "name list \<Rightarrow> name list \<Rightarrow> name option" where
  "first_unexpected_entry listing expected =
     find (\<lambda>n. n \<noteq> ''.'' \<and> n \<noteq> ''..'' \<and> n \<notin> set expected) listing"

type_synonym database_settings = "usize list \<times> usize list \<times> usize"

definition settings_of :: "wal_bootstrap \<Rightarrow> database_settings" where
  "settings_of b = (wb_database_table_limits b, wb_query_limits b, wb_worker_cap b)"

record recovery_state =
  rs_tables :: "wal_bootstrap list"
  rs_inodes :: "nat list"
  rs_bytes :: usize
  rs_records :: usize
  rs_settings :: "database_settings option"

definition recovery_start :: recovery_state where
  "recovery_start = \<lparr>rs_tables = [], rs_inodes = [], rs_bytes = 0, rs_records = 0, rs_settings = None\<rparr>"

text \<open>The log of one descriptor: opened, checked, replayed within what is left of the record limit, and
  compared with the descriptor and the settings of the members before it.\<close>

definition recover_member ::
  "registry_limits \<Rightarrow> 'io registry_image \<Rightarrow> registry_descriptor \<Rightarrow> recovery_state \<Rightarrow> 'io registry_error + recovery_state" where
  "recover_member limits img r s =
     (let failed = RegistryMember (rd_table r) (rd_member r) in
      case ri_member img (rd_member r) of
        MemberMissing \<Rightarrow> Inl (RegistryCorruption (MissingMember (rd_table r) (rd_member r)))
      | MemberOpenFailed e \<Rightarrow> Inl (failed (WalOpen e))
      | MemberFile file \<Rightarrow>
      res_bind (map_err (\<lambda>e. failed (WalMetadata e)) (mf_metadata file)) (\<lambda>(is_file, len, inode).
      if \<not> is_file then Inl (failed WalNotRegularFile)
      else if inode \<in> set (rs_inodes s)
      then Inl (RegistryCorruption (DuplicateMemberFile (rd_table r) (rd_member r)))
      else
      res_bind (map_err RegistryLimit (validate_registry_totals
        (saturating_add (rs_bytes s) (case usize_of_u64 len of None \<Rightarrow> usize_max | Some n \<Rightarrow> n)) (rs_records s) limits)) (\<lambda>_.
      let remaining = saturating_sub (rl_max_total_records limits) (rs_records s);
          aggregate_binding = remaining \<le> wal_max_records (rl_per_table limits);
          member_limits = (rl_per_table limits)\<lparr>wal_max_records := min (wal_max_records (rl_per_table limits)) remaining\<rparr> in
      case recover_file (mf_reads file) len member_limits of
        Inl e \<Rightarrow>
          (case e of
             WalLimit (WalRecords records _) \<Rightarrow>
               if aggregate_binding
               then Inl (RegistryLimit (RegistryTotalRecords
                 (of_nat (saturating_add (rs_records s) (unat records))) (rl_max_total_records limits)))
               else Inl (failed e)
           | _ \<Rightarrow> Inl (failed e))
      | Inr recovered \<Rightarrow>
      let bytes = saturating_add (rs_bytes s) (wr_file_bytes recovered);
          records = saturating_add (rs_records s) (wr_records recovered);
          b = wr_bootstrap recovered in
      res_bind (map_err RegistryLimit (validate_registry_totals bytes records limits)) (\<lambda>_.
      if wb_table_name b \<noteq> rd_table r
      then Inl (RegistryCorruption (TableNameMismatch (rd_table r) (wb_table_name b)))
      else if rs_settings s \<noteq> None \<and> rs_settings s \<noteq> Some (settings_of b)
      then Inl (RegistryCorruption (DatabaseSettingsMismatch (wb_table_name b)))
      else Inr \<lparr>rs_tables = rs_tables s @ [b], rs_inodes = inode # rs_inodes s, rs_bytes = bytes,
             rs_records = records, rs_settings = Some (settings_of b)\<rparr>))))"

fun recover_members ::
  "registry_limits \<Rightarrow> 'io registry_image \<Rightarrow> registry_descriptor list \<Rightarrow> recovery_state \<Rightarrow> 'io registry_error + recovery_state" where
  "recover_members limits img [] s = Inr s"
| "recover_members limits img (r # rs) s =
     res_bind (recover_member limits img r s) (recover_members limits img rs)"

definition recover_registry ::
  "string \<Rightarrow> registry_limits \<Rightarrow> 'io registry_image \<Rightarrow> 'io registry_error + wal_bootstrap list" where
  "recover_registry path limits img =
     res_bind (registry_destination_name path) (\<lambda>_.
     res_bind (map_err RegistryOpenParent (ri_open_parent img)) (\<lambda>_.
     res_bind (map_err RegistryOpenDirectory (ri_open_directory img)) (\<lambda>_.
     res_bind (map_err RegistryOpenManifest (ri_open_manifest img)) (\<lambda>_.
     res_bind (map_err RegistryManifestMetadata (ri_manifest_metadata img)) (\<lambda>(is_file, len).
     if \<not> is_file then Inl RegistryManifestNotRegularFile
     else if len > of_nat (rl_max_manifest_bytes limits)
     then Inl (RegistryLimit (RegistryManifestBytes len (rl_max_manifest_bytes limits)))
     else
     res_bind (map_err RegistryReadManifest
       (take_read_to_end (saturating_add (rl_max_manifest_bytes limits) 1) (ri_manifest_reads img))) (\<lambda>manifest.
     res_bind (validate_manifest_size (length manifest) limits) (\<lambda>_.
     res_bind (decode_registry_manifest manifest limits) (\<lambda>descriptors.
     res_bind (map_err RegistryReadDirectory (ri_listing img)) (\<lambda>listing.
     case first_unexpected_entry listing (map rd_member descriptors @ [manifest_name]) of
       Some entry \<Rightarrow> Inl (RegistryCorruption (UnexpectedDirectoryEntry (bytes_of_str entry)))
     | None \<Rightarrow>
     res_bind (recover_members limits img descriptors recovery_start) (\<lambda>s. Inr (rs_tables s)))))))))))"

end
