(* ===== verification/Wal_Registry_Inv.thy ===== *)
theory Wal_Registry_Inv
  imports Wal_Registry "HOL-Library.Multiset"
begin

text \<open>
  The invariant of a registry of write-ahead logs: every table has its own log and file, the manifest is
  durable and names them, and the totals the registry counts are those of the logs. Creation
  establishes it and every commit keeps it, whatever calls fail.
\<close>

section \<open>Sums that do not saturate\<close>

lemma saturating_add_less: "saturating_add a b < usize_max \<Longrightarrow> saturating_add a b = a + b"
  by (auto simp: saturating_add_def min_def split: if_splits)

lemma saturating_add_le: "saturating_add a b < usize_max \<Longrightarrow> a < usize_max"
  by (auto simp: saturating_add_def min_def split: if_splits)

lemma foldl_saturating_less: "foldl saturating_add a xs < usize_max \<Longrightarrow> a < usize_max"
proof (induction xs arbitrary: a)
  case (Cons x xs)
  then have "saturating_add a x < usize_max" by simp
  then show ?case by (rule saturating_add_le)
qed simp

lemma foldl_saturating_sum: "foldl saturating_add a xs < usize_max \<Longrightarrow> foldl saturating_add a xs = a + sum_list xs"
proof (induction xs arbitrary: a)
  case (Cons x xs)
  have "saturating_add a x = a + x"
    using Cons.prems foldl_saturating_less [of "saturating_add a x" xs] by (intro saturating_add_less) simp
  with Cons.prems Cons.IH [of "a + x"] show ?case by simp
qed simp

section \<open>Member names\<close>

lemma length_usize_display: "length (usize_display n) = decimal_digits n"
proof (induction n rule: usize_display.induct)
  case (1 n)
  then show ?case by (subst usize_display.simps, subst decimal_digits.simps) simp
qed

lemma length_member_name: "length (member_name i) = generated_member_name_len i"
  by (simp add: member_name_def generated_member_name_len_def length_usize_display max_def)

lemma decimal_value_append: "decimal_value (xs @ ys) = decimal_value xs * 10 ^ length ys + decimal_value ys"
proof (induction ys rule: rev_induct)
  case Nil
  then show ?case by (simp add: decimal_value_def)
next
  case (snoc y ys)
  have "decimal_value (zs @ [y]) = 10 * decimal_value zs + digit_val y" for zs
    by (simp add: decimal_value_def)
  from this [of "xs @ ys"] this [of ys] snoc show ?case by (simp add: algebra_simps)
qed

lemma decimal_value_zeros: "decimal_value (replicate n (CHR ''0'')) = 0"
proof (induction n)
  case (Suc n)
  have "decimal_value [CHR ''0''] = 0" by (simp add: decimal_value_def digit_val_def)
  with Suc decimal_value_append [of "[CHR ''0'']" "replicate n (CHR ''0'')"] show ?case by simp
qed (simp add: decimal_value_def)

lemma member_name_inj: "member_name i = member_name j \<longleftrightarrow> i = j"
proof
  define digits where "digits k = replicate (8 - length (usize_display k)) (CHR ''0'') @ usize_display k" for k
  assume "member_name i = member_name j"
  then have "digits i @ ''.wal'' = digits j @ ''.wal''" by (simp add: member_name_def digits_def)
  then have "digits i = digits j" by simp
  then have "decimal_value (digits i) = decimal_value (digits j)" by simp
  then show "i = j" by (simp add: digits_def decimal_value_append decimal_value_zeros)
qed simp

text \<open>A generated name consists of lower-case letters, digits, a dash and a dot.\<close>

definition plain_char :: "char \<Rightarrow> bool" where
  "plain_char c \<longleftrightarrow> is_ascii_lowercase c \<or> is_ascii_digit c \<or> c = CHR ''-'' \<or> c = CHR ''.''"

lemma member_name_plain: "list_all plain_char (member_name i)"
proof -
  have "list_all plain_char (usize_display i)"
    using usize_display_digits [of i] by (auto simp: list_all_iff plain_char_def)
  moreover have "list_all plain_char (replicate n (CHR ''0''))" for n
    by (simp add: list_all_iff plain_char_def ascii_defs)
  ultimately show ?thesis
    by (simp add: member_name_def) (simp add: plain_char_def ascii_defs)
qed

lemma plain_lower: "list_all plain_char s \<Longrightarrow> map to_ascii_lowercase s = s"
  by (induction s) (auto simp: plain_char_def to_ascii_lowercase_def ascii_defs)

lemma member_name_lower [simp]: "map to_ascii_lowercase (member_name i) = member_name i"
  by (simp add: plain_lower member_name_plain)

lemma split_slash_plain: "CHR ''/'' \<notin> set s \<Longrightarrow> split_slash s = [s]"
  by (induction s) auto

lemma member_name_safe: "safe_registry_member (member_name i)"
proof -
  have chars: "CHR 0x00 \<notin> set (member_name i)" "CHR ''/'' \<notin> set (member_name i)"
    using member_name_plain [of i] by (auto simp: list_all_iff plain_char_def ascii_defs)
  have "map to_ascii_lowercase manifest_name = manifest_name"
    by (simp add: manifest_name_def to_ascii_lowercase_def ascii_defs)
  moreover have "member_name i \<noteq> manifest_name"
    by (simp add: member_name_def manifest_name_def)
  ultimately have "\<not> eq_ignore_ascii_case (member_name i) manifest_name"
    by (simp add: eq_ignore_ascii_case_def)
  with chars show ?thesis
    by (simp add: safe_registry_member_def components_normal_def split_slash_plain) (simp add: member_name_def)
qed

lemma ascii_utf8:
  assumes "list_all (\<lambda>c. of_char c < (128 :: nat)) s"
  shows "from_utf8 n (bytes_of_str s) = Inr ()"
  using assms
proof (induction s arbitrary: n)
  case (Cons c s)
  then have "utf8_char (of_nat (of_char c)) (bytes_of_str s) = Inr 1"
    by (simp add: utf8_char_def word_le_nat_alt word_less_nat_alt unat_of_nat)
  with Cons show ?case by (simp add: bytes_of_str_def)
qed (simp add: bytes_of_str_def)

lemma member_name_utf8: "utf8_valid (member_name i)"
  unfolding utf8_valid_def using member_name_plain [of i]
  by (intro ascii_utf8) (auto simp: list_all_iff plain_char_def ascii_defs)

section \<open>The manifest of a registry\<close>

definition table_key :: "wal_bootstrap \<Rightarrow> string" where
  "table_key b = map to_ascii_lowercase (wb_table_name b)"

definition registry_limits_ok :: "registry_limits \<Rightarrow> bool" where
  "registry_limits_ok limits \<longleftrightarrow>
     limits_ok (rl_per_table limits) \<and> rl_max_manifest_bytes limits < 2 ^ 32 \<and>
     rl_max_total_wal_bytes limits < usize_max \<and> rl_max_total_records limits < usize_max"

lemma first_duplicate_None: "first_duplicate ts = None \<Longrightarrow> distinct (map (map to_ascii_lowercase \<circ> pf_table_name) ts)"
proof -
  assume none: "first_duplicate ts = None"
  let ?ks = "map (map to_ascii_lowercase \<circ> pf_table_name) ts"
  have "?ks ! i \<notin> set (take i ?ks)" if "i < length ts" for i
    using none that by (auto simp: first_duplicate_def find_None_iff take_map)
  then have "?ks ! i \<noteq> ?ks ! j" if "j < i" "i < length ts" for i j
    using that by (fastforce simp: in_set_conv_nth)
  then show ?thesis unfolding distinct_conv_nth by (metis length_map nat_neq_iff)
qed

lemma preflight_loop_sizes:
  "preflight_loop i ts limits m n = (Inr (m', n') :: 'io registry_error + _) \<Longrightarrow> m' < usize_max \<Longrightarrow>
     m < usize_max \<and> m' = m + (\<Sum>t \<leftarrow> ts. 8 + length (pf_table_name t)) + (\<Sum>j \<leftarrow> [i..<i + length ts]. generated_member_name_len j)"
proof (induction ts arbitrary: i m n)
  case (Cons t ts)
  let ?m = "saturating_add (saturating_add (saturating_add (saturating_add m 4) (length (pf_table_name t))) 4)
      (generated_member_name_len i)"
  have rec: "preflight_loop (i + 1) ts limits ?m (saturating_add n (bootstrap_record_bytes t)) =
      (Inr (m', n') :: 'io registry_error + _)"
    using Cons.prems(1) by (auto simp: res_bind_Inr_iff)
  from Cons.IH [OF rec Cons.prems(2)] have *: "?m < usize_max"
    "m' = ?m + (\<Sum>t \<leftarrow> ts. 8 + length (pf_table_name t)) + (\<Sum>j \<leftarrow> [i + 1..<i + 1 + length ts]. generated_member_name_len j)"
    by auto
  have "?m = m + (8 + length (pf_table_name t)) + generated_member_name_len i \<and> m < usize_max"
    using *(1) by (simp add: saturating_add_def min_def split: if_splits)
  with *(2) show ?case by (simp add: upt_conv_Cons del: upt_Suc)
qed simp

lemma sum_enumerate: "(\<Sum>(i, b) \<leftarrow> enumerate k bs. f b + g i) = (\<Sum>b \<leftarrow> bs. f b) + (\<Sum>i \<leftarrow> [k..<k + length bs]. g i :: nat)"
  by (induction bs arbitrary: k) (simp_all add: upt_conv_Cons del: upt_Suc)

lemma mset_sort_bootstraps [simp]: "mset (sort_bootstraps bs) = mset bs"
  by (simp add: sort_bootstraps_def)

lemma set_sort_bootstraps [simp]: "set (sort_bootstraps bs) = set bs"
  by (simp add: sort_bootstraps_def)

lemma length_sort_bootstraps [simp]: "length (sort_bootstraps bs) = length bs"
  by (simp add: sort_bootstraps_def)

lemma length_registry_descriptors [simp]: "length (registry_descriptors bs) = length bs"
  by (simp add: registry_descriptors_def)

lemma registry_descriptors_nth:
  "i < length bs \<Longrightarrow> registry_descriptors bs ! i = \<lparr>rd_table = wb_table_name (bs ! i), rd_member = member_name i\<rparr>"
  by (simp add: registry_descriptors_def nth_enumerate_eq)

lemma length_encode_manifest:
  "length (encode_registry_manifest (registry_descriptors bs)) =
     28 + (\<Sum>b \<leftarrow> bs. 8 + length (wb_table_name b)) + (\<Sum>i \<leftarrow> [0..<length bs]. generated_member_name_len i)"
proof -
  have "length (concat (map descriptor_bytes (registry_descriptors bs))) =
      (\<Sum>(i, b) \<leftarrow> enumerate 0 bs. 8 + length (wb_table_name b) + generated_member_name_len i)"
    by (simp add: registry_descriptors_def length_concat comp_def case_prod_unfold length_member_name)
  with sum_enumerate [of "\<lambda>b. 8 + length (wb_table_name b)" generated_member_name_len 0 bs]
  show ?thesis by (simp add: encode_registry_manifest_def Let_def)
qed

lemma sum_list_mset_cong: "mset xs = mset ys \<Longrightarrow> (\<Sum>x \<leftarrow> xs. f x) = (\<Sum>x \<leftarrow> ys. f x :: nat)"
  by (metis mset_map sum_mset_sum_list)

lemma preflight_tables:
  assumes run: "preflight_registry_tables (map preflight_of bs) limits = (Inr () :: 'io registry_error + unit)"
    and limits: "registry_limits_ok limits"
  shows "bs \<noteq> []" and "length bs \<le> rl_max_tables limits" and "distinct (map table_key bs)"
    and "length (encode_registry_manifest (registry_descriptors (sort_bootstraps bs))) \<le> rl_max_manifest_bytes limits"
proof -
  obtain m n where *: "(validate_registry_table_count (length bs) limits :: 'io registry_error + unit) = Inr ()"
    and none: "first_duplicate (map preflight_of bs) = None"
    and loop: "preflight_loop 0 (map preflight_of bs) limits manifest_header_len 0 = (Inr (m, n) :: 'io registry_error + _)"
    and size: "(validate_manifest_size m limits :: 'io registry_error + unit) = Inr ()"
    using run by (auto simp: preflight_registry_tables_def res_bind_Inr_iff split: option.splits)
  show "bs \<noteq> []" "length bs \<le> rl_max_tables limits"
    using * by (auto simp: validate_registry_table_count_def split: if_splits)
  show "distinct (map table_key bs)"
    using first_duplicate_None [OF none] by (simp add: preflight_of_def table_key_def [abs_def] comp_def)
  have m: "m \<le> rl_max_manifest_bytes limits" using size by (auto simp: validate_manifest_size_def split: if_splits)
  then have "m < usize_max" using limits by (simp add: registry_limits_ok_def usize_max_def)
  from preflight_loop_sizes [OF loop this]
  have "m = 28 + (\<Sum>b \<leftarrow> bs. 8 + length (wb_table_name b)) + (\<Sum>i \<leftarrow> [0..<length bs]. generated_member_name_len i)"
    by (simp add: preflight_of_def comp_def)
  moreover have "(\<Sum>b \<leftarrow> sort_bootstraps bs. 8 + length (wb_table_name b)) = (\<Sum>b \<leftarrow> bs. 8 + length (wb_table_name b))"
    by (rule sum_list_mset_cong) simp
  ultimately show "length (encode_registry_manifest (registry_descriptors (sort_bootstraps bs))) \<le> rl_max_manifest_bytes limits"
    using m by (simp add: length_encode_manifest)
qed

lemma sum_list_mono_elem: "x \<in> set xs \<Longrightarrow> (f x :: nat) \<le> (\<Sum>x \<leftarrow> xs. f x)"
  by (induction xs) auto

lemma registry_manifest_decodes:
  assumes run: "preflight_registry_tables (map preflight_of bs) limits = (Inr () :: 'io registry_error + unit)"
    and limits: "registry_limits_ok limits" and names: "\<forall>b \<in> set bs. utf8_valid (wb_table_name b)"
  shows "decode_registry_manifest (encode_registry_manifest (registry_descriptors (sort_bootstraps bs))) limits =
    (Inr (registry_descriptors (sort_bootstraps bs)) :: 'io2 registry_error + _)"
proof -
  let ?bs = "sort_bootstraps bs"
  note pre = preflight_tables [OF run limits]
  have small: "length (encode_registry_manifest (registry_descriptors ?bs)) < 2 ^ 32"
    using pre(4) limits by (simp add: registry_limits_ok_def)
  then have total: "(\<Sum>b \<leftarrow> ?bs. 8 + length (wb_table_name b)) + (\<Sum>i \<leftarrow> [0..<length ?bs]. generated_member_name_len i) < 2 ^ 32"
    by (simp add: length_encode_manifest)
  have "names_encodable d" if d: "d \<in> set (registry_descriptors ?bs)" for d
  proof -
    obtain i where i: "i < length bs" "d = registry_descriptors ?bs ! i" using d by (auto simp: in_set_conv_nth)
    have "8 + length (wb_table_name (?bs ! i)) \<le> (\<Sum>b \<leftarrow> ?bs. 8 + length (wb_table_name b))"
      using i(1) by (intro sum_list_mono_elem nth_mem) simp
    moreover have "length (member_name i) \<le> (\<Sum>i \<leftarrow> [0..<length ?bs]. generated_member_name_len i)"
      using i(1) sum_list_mono_elem [of i "[0..<length ?bs]" generated_member_name_len] by (simp add: length_member_name)
    moreover have "?bs ! i \<in> set ?bs" using i(1) by (intro nth_mem) simp
    ultimately show ?thesis
      using i total names by (simp add: names_encodable_def registry_descriptors_nth member_name_utf8)
  qed
  then have names: "list_all names_encodable (registry_descriptors ?bs)" by (simp add: list_all_iff)
  have keys: "lower_tables (registry_descriptors ?bs) = map table_key ?bs"
    by (rule nth_equalityI) (simp_all add: lower_tables_def registry_descriptors_nth table_key_def)
  have sorted: "sorted (map table_key ?bs)"
    using sorted_sort_key [of table_key bs] by (simp add: sort_bootstraps_def table_key_def [abs_def])
  have "distinct (map table_key ?bs)" using pre(3) by (metis mset_sort_bootstraps mset_map mset_eq_imp_distinct_iff)
  with sorted have tables: "sorted_wrt (<) (lower_tables (registry_descriptors ?bs))"
    by (simp add: keys strict_sorted_iff)
  have "lower_members (registry_descriptors ?bs) = map member_name [0..<length bs]"
    by (rule nth_equalityI) (simp_all add: lower_members_def registry_descriptors_nth)
  then have members: "distinct (lower_members (registry_descriptors ?bs))"
    by (simp add: distinct_map inj_on_def member_name_inj)
  have "list_all (\<lambda>d. safe_registry_member (rd_member d)) (registry_descriptors ?bs)"
    by (auto simp: list_all_length registry_descriptors_nth member_name_safe)
  with tables members have canonical: "manifest_canonical (registry_descriptors ?bs)" by (simp add: manifest_canonical_def)
  have "length bs < 2 ^ 32"
  proof -
    have "length xs \<le> (\<Sum>b \<leftarrow> xs. 8 + length (wb_table_name b))" for xs by (induction xs) auto
    from this [of ?bs] total show ?thesis by simp
  qed
  moreover have "registry_descriptors ?bs \<noteq> []"
    using pre(1) by (metis length_0_conv length_registry_descriptors length_sort_bootstraps)
  ultimately show ?thesis
    using canonical names pre(2) small
    by (subst manifest_accepts_canonical) (simp_all add: usize_max_def)
qed

section \<open>What a write leaves alone\<close>

definition same_elsewhere :: "nat \<Rightarrow> directory \<Rightarrow> directory \<Rightarrow> bool" where
  "same_elsewhere i d d' \<longleftrightarrow> (\<forall>j. j \<noteq> i \<longrightarrow> contents d' j = contents d j \<and> synced d' j = synced d j)"

lemma same_elsewhere_simps [simp]:
  "same_elsewhere i d d" "same_elsewhere i d (tick d') \<longleftrightarrow> same_elsewhere i d d'"
  by (simp_all add: same_elsewhere_def tick_def)

lemma same_elsewhere_kept:
  assumes "same_elsewhere i d d'" and "j \<noteq> i"
  shows "durable d' j bytes \<longleftrightarrow> durable d j bytes" and "trailing d' j base frame \<longleftrightarrow> trailing d j base frame"
    and "contents d' j = contents d j"
  using assms by (simp_all add: same_elsewhere_def durable_def trailing_def)

lemma wal_inv_kept:
  "same_elsewhere i d d' \<Longrightarrow> ww_file w \<noteq> i \<Longrightarrow> wal_inv b limits p w acked d' \<longleftrightarrow> wal_inv b limits p w acked d"
  by (simp add: wal_inv_def same_elsewhere_kept)

lemma write_committed_record_frame:
  "write_committed_record env i body footer d = (r, d') \<Longrightarrow>
     same_elsewhere i d d' \<and> entries d' = entries d \<and> fresh d' = fresh d \<and>
     length (contents d' i) \<le> length (contents d i) + (length body + length footer)"
  by (auto simp: write_committed_record_def write_all_def file_sync_def syscall_def tick_def same_elsewhere_def
      apfst_def map_prod_def split: option.splits)

lemma payload_bytes:
  assumes "op_payload (ww_nullable w) op = Some payload" and "next_op_bytes w op < usize_max"
  shows "next_op_bytes w op = 48 + length payload"
proof (cases op)
  case (LogAppend vs)
  with assms show ?thesis
    by (auto simp: next_append_bytes_def saturating_add_def saturating_mul_def length_push_values value_bytes_def
        min_def split: if_splits)
next
  case (LogReplace rs)
  with assms show ?thesis
    by (auto simp: next_replace_bytes_def saturating_add_def saturating_mul_def length_push_replacements
        replacement_bytes_eq value_bytes_def min_def split: if_splits)
qed (use assms in simp)

lemma parts_length:
  "encode_record_parts kind s payload = (body, footer) \<Longrightarrow> length body + length footer = 48 + length payload"
  using length_record_frame [of kind s payload] by (simp add: record_frame_def)

lemma wal_apply_frame:
  assumes run: "wal_apply env op w d = (r, w', d')" and limits: "limits_ok (ww_limits w)"
    and bytes: "next_op_bytes w op < usize_max"
  shows "same_elsewhere (ww_file w) d d' \<and> entries d' = entries d \<and> fresh d' = fresh d \<and> ww_file w' = ww_file w \<and>
    length (contents d' (ww_file w)) \<le> length (contents d (ww_file w)) + next_op_bytes w op \<and>
    (is_ok r \<longrightarrow> ww_file_bytes w' = ww_file_bytes w + next_op_bytes w op \<and> ww_records w' = ww_records w + 1 \<and>
       ww_poisoned w' = ww_poisoned w) \<and>
    (\<not> is_ok r \<longrightarrow> ww_file_bytes w' = ww_file_bytes w \<and> ww_records w' = ww_records w)"
  using wal_apply_logs [of env op w d]
proof
  assume "\<exists>e. wal_apply env op w d = (Inl e, w, d)"
  with run show ?thesis by auto
next
  assume "\<exists>payload. op_payload (ww_nullable w) op = Some payload \<and>
    wal_apply env op w d = append_record env (op_kind (ww_nullable w) op) payload w d"
  then obtain payload where payload: "op_payload (ww_nullable w) op = Some payload"
    and append: "append_record env (op_kind (ww_nullable w) op) payload w d = (r, w', d')" using run by auto
  note n = payload_bytes [OF payload bytes]
  from append_record_cases [OF limits append] show ?thesis
  proof
    assume "\<exists>e. r = Inl e \<and> w' = w \<and> d' = d"
    then show ?thesis by auto
  next
    assume *: "\<not> ww_poisoned w \<and> length payload \<le> wal_max_record_bytes (ww_limits w) \<and>
        ww_file_bytes w + (48 + length payload) \<le> wal_max_file_bytes (ww_limits w) \<and>
        saturating_add (ww_records w) 1 \<le> wal_max_records (ww_limits w) \<and>
        (\<exists>body footer. encode_record_parts (op_kind (ww_nullable w) op) (of_nat (ww_records w)) payload =
           (body, footer) \<and> write_committed_record env (ww_file w) body footer d = (r, d') \<and>
           w' = (if is_ok r
              then w\<lparr>ww_file_bytes := ww_file_bytes w + (48 + length payload), ww_records := ww_records w + 1\<rparr>
              else w\<lparr>ww_poisoned := True\<rparr>))"
    then obtain body footer where parts:
        "encode_record_parts (op_kind (ww_nullable w) op) (of_nat (ww_records w)) payload = (body, footer)"
      and written: "write_committed_record env (ww_file w) body footer d = (r, d')"
      and w': "w' = (if is_ok r
              then w\<lparr>ww_file_bytes := ww_file_bytes w + (48 + length payload), ww_records := ww_records w + 1\<rparr>
              else w\<lparr>ww_poisoned := True\<rparr>)" by blast
    from write_committed_record_frame [OF written] parts_length [OF parts] w' n show ?thesis by auto
  qed
qed

text \<open>A log that refuses without writing is not poisoned by it; one that fails to write is.\<close>

lemma wal_apply_poison:
  assumes run: "wal_apply env op w d = (Inl e, w', d')" and limits: "limits_ok (ww_limits w)"
    and alive: "\<not> ww_poisoned w"
  shows "(\<exists>l. e = WalLimit l) \<or> e = WalPanic \<Longrightarrow> \<not> ww_poisoned w'"
    and "\<not> ((\<exists>l. e = WalLimit l) \<or> e = WalPanic) \<Longrightarrow> ww_poisoned w'"
proof -
  have append: "if (\<exists>l. e' = WalLimit l) \<or> e' = WalPanic then \<not> ww_poisoned w'' else ww_poisoned w''"
    if "append_record env kind payload w d = (Inl e', w'', d'')" for kind payload e' w'' d''
    using that alive
    by (auto simp: append_record_def write_committed_record_def write_all_def file_sync_def syscall_def Let_def
        apfst_def map_prod_def split: sum.splits prod.splits option.splits)
  have "if (\<exists>l. e = WalLimit l) \<or> e = WalPanic then \<not> ww_poisoned w' else ww_poisoned w'"
    using run alive append
    by (cases op)
      (auto simp: append_values_def wal_truncate_def replace_values_def validate_next_record_def Let_def
        res_bind_Inl_iff map_err_Inl_iff split: sum.splits option.splits)
  then show "(\<exists>l. e = WalLimit l) \<or> e = WalPanic \<Longrightarrow> \<not> ww_poisoned w'"
    and "\<not> ((\<exists>l. e = WalLimit l) \<or> e = WalPanic) \<Longrightarrow> ww_poisoned w'"
    by (auto split: if_splits)
qed

section \<open>The invariant of a registry\<close>

text \<open>Every table has its log, in a file of its own under its member's name; the manifest is durable;
  the totals are those of the logs and leave room for what a failed write may have left.\<close>

definition members_inv ::
  "wal_bootstrap list \<Rightarrow> wal_limits \<Rightarrow> (string \<Rightarrow> wal_op list) \<Rightarrow> wal_writer list \<Rightarrow> directory \<Rightarrow> bool" where
  "members_inv bs limits acked ws d \<longleftrightarrow>
     length ws \<le> length bs \<and> distinct (map ww_file ws) \<and>
     (\<forall>i < length ws. entries d (member_name i) = Some (ww_file (ws ! i)) \<and> ww_file (ws ! i) < fresh d \<and>
        (\<exists>p. wal_inv (bs ! i) limits p (ws ! i) (acked (table_key (bs ! i))) d))"

definition registry_inv ::
  "wal_bootstrap list \<Rightarrow> registry_limits \<Rightarrow> wal_registry \<Rightarrow> (string \<Rightarrow> wal_op list) \<Rightarrow> directory \<Rightarrow>
   wal_writer list \<Rightarrow> nat \<Rightarrow> bool" where
  "registry_inv bs limits reg acked d ws m \<longleftrightarrow>
     reg_limits reg = limits \<and> length ws = length bs \<and> members_inv bs (rl_per_table limits) acked ws d \<and>
     (\<forall>i < length bs. reg_writers reg (table_key (bs ! i)) = Some (ws ! i)) \<and>
     entries d manifest_name = Some m \<and> m \<notin> set (map ww_file ws) \<and>
     durable d m (encode_registry_manifest (registry_descriptors bs)) \<and>
     dom (entries d) = insert manifest_name (member_name ` {..<length bs}) \<and>
     reg_total_wal_bytes reg = (\<Sum>w \<leftarrow> ws. ww_file_bytes w) \<and>
     reg_total_records reg = (\<Sum>w \<leftarrow> ws. ww_records w) \<and>
     (\<Sum>w \<leftarrow> ws. length (contents d (ww_file w))) \<le> rl_max_total_wal_bytes limits \<and>
     (\<Sum>w \<leftarrow> ws. ww_records w) + length (filter ww_poisoned ws) \<le> rl_max_total_records limits \<and>
     length (filter ww_poisoned ws) \<le> (if reg_poisoned reg then 1 else 0)"

lemma sum_list_update_nat:
  "i < length ws \<Longrightarrow> (\<Sum>w \<leftarrow> ws[i := w']. f w) + f (ws ! i) = (\<Sum>w \<leftarrow> ws. f w) + (f w' :: nat)"
proof (induction ws arbitrary: i)
  case (Cons w ws)
  then show ?case by (cases i) auto
qed simp

lemma sum_files_update:
  assumes "same_elsewhere (ww_file (ws ! i)) d d'" and "i < length ws" and "distinct (map ww_file ws)"
    and "ww_file w' = ww_file (ws ! i)"
  shows "(\<Sum>w \<leftarrow> ws[i := w']. length (contents d' (ww_file w))) + length (contents d (ww_file (ws ! i))) =
    (\<Sum>w \<leftarrow> ws. length (contents d (ww_file w))) + length (contents d' (ww_file w'))"
proof -
  let ?f = "\<lambda>w. length (contents d (ww_file w))" and ?g = "\<lambda>w. length (contents d' (ww_file w))"
  have "map ?g (ws[i := w']) = (map ?f ws)[i := ?g w']"
  proof (rule nth_equalityI)
    fix j assume "j < length (map ?g (ws[i := w']))"
    then have j: "j < length ws" by simp
    show "map ?g (ws[i := w']) ! j = (map ?f ws)[i := ?g w'] ! j"
    proof (cases "j = i")
      case False
      with j assms have "ww_file (ws ! j) \<noteq> ww_file (ws ! i)"
        by (metis (mono_tags, lifting) length_map nth_eq_iff_index_eq nth_map)
      with False j assms(1) show ?thesis by (simp add: same_elsewhere_kept(3))
    qed (use j in simp)
  qed simp
  then show ?thesis
    using sum_list_update_nat [of i "map ?f ws" id "?g w'"] assms(2) by simp
qed

lemma length_filter_update:
  "i < length ws \<Longrightarrow> length (filter P (ws[i := w'])) + (if P (ws ! i) then 1 else 0) =
     length (filter P ws) + (if P w' then 1 else 0)"
proof (induction ws arbitrary: i)
  case (Cons w ws)
  then show ?case by (cases i) auto
qed simp

text \<open>A registry that is not poisoned has logs whose sizes are those of their files.\<close>

lemma sound_files:
  assumes "members_inv bs limits acked ws d" and "filter ww_poisoned ws = []"
  shows "(\<Sum>w \<leftarrow> ws. length (contents d (ww_file w))) = (\<Sum>w \<leftarrow> ws. ww_file_bytes w)"
proof -
  have "length (contents d (ww_file w)) = ww_file_bytes w" if w: "w \<in> set ws" for w
  proof -
    obtain i where i: "i < length ws" "w = ws ! i" using w by (auto simp: in_set_conv_nth)
    then obtain p where "wal_inv (bs ! i) limits p w (acked (table_key (bs ! i))) d"
      using assms(1) by (auto simp: members_inv_def)
    moreover have "\<not> ww_poisoned w" using assms(2) w by (simp add: filter_empty_conv)
    ultimately show ?thesis by (simp add: wal_inv_def durable_def)
  qed
  then show ?thesis by (intro arg_cong [of _ _ sum_list] map_cong) auto
qed

lemma filter_length_zero: "length (filter P xs) \<le> 0 \<longleftrightarrow> filter P xs = []"
  by simp

lemma reserve_record_ok:
  assumes "reserve_record reg n = (Inr () :: 'io wal_commit_error + unit)"
    and "rl_max_total_wal_bytes (reg_limits reg) < usize_max" and "rl_max_total_records (reg_limits reg) < usize_max"
  shows "\<not> reg_poisoned reg" and "reg_total_wal_bytes reg + n \<le> rl_max_total_wal_bytes (reg_limits reg)"
    and "reg_total_records reg + 1 \<le> rl_max_total_records (reg_limits reg)"
  using assms
  by (auto simp: reserve_record_def validate_registry_totals_def map_err_Inr_iff saturating_add_def min_def
      split: if_splits)

lemma members_inv_update:
  assumes inv: "members_inv bs limits acked ws d" and i: "i < length ws"
    and elsewhere: "same_elsewhere (ww_file (ws ! i)) d d'" and same: "entries d' = entries d" "fresh d' = fresh d"
      "ww_file w' = ww_file (ws ! i)"
    and log: "wal_inv (bs ! i) limits p w' (acked' (table_key (bs ! i))) d'"
    and others: "\<And>j. j < length ws \<Longrightarrow> j \<noteq> i \<Longrightarrow> acked' (table_key (bs ! j)) = acked (table_key (bs ! j))"
  shows "members_inv bs limits acked' (ws[i := w']) d'"
proof -
  have files: "map ww_file (ws[i := w']) = map ww_file ws"
    using same(3) i by (simp add: map_update list_update_same_conv)
  have "entries d' (member_name j) = Some (ww_file (ws[i := w'] ! j)) \<and> ww_file (ws[i := w'] ! j) < fresh d' \<and>
      (\<exists>p. wal_inv (bs ! j) limits p (ws[i := w'] ! j) (acked' (table_key (bs ! j))) d')" if j: "j < length ws" for j
  proof (cases "j = i")
    case True
    with inv i same log show ?thesis by (auto simp: members_inv_def)
  next
    case False
    then have "ww_file (ws ! j) \<noteq> ww_file (ws ! i)"
      using inv i j by (metis members_inv_def length_map nth_eq_iff_index_eq nth_map)
    with False inv i j same others [OF j False] show ?thesis
      by (auto simp: members_inv_def wal_inv_kept [OF elsewhere])
  qed
  with inv files show ?thesis by (simp add: members_inv_def)
qed

lemma registry_inv_step:
  assumes inv: "registry_inv bs limits reg acked d ws m" and limits: "registry_limits_ok limits"
    and keys: "distinct (map table_key bs)" and i: "i < length bs" and table: "map to_ascii_lowercase table = table_key (bs ! i)"
    and fits: "op_fits (wb_nullable (bs ! i)) (max_table_rows (bs ! i))
      (ops_effect (acked (table_key (bs ! i))) (wb_values (bs ! i))) op"
    and run: "registry_commit env table op reg d = (r, reg', d')"
  shows "\<exists>ws'. registry_inv bs limits reg'
    (if is_ok r then acked(table_key (bs ! i) := acked (table_key (bs ! i)) @ [op]) else acked) d' ws' m"
proof -
  note now = inv [unfolded registry_inv_def]
  let ?k = "table_key (bs ! i)" and ?w = "ws ! i"
  let ?n = "next_op_bytes ?w op"
  let ?acked = "\<lambda>r. if is_ok r then acked(?k := acked ?k @ [op]) else acked"
  have w: "reg_writers reg ?k = Some ?w" and len: "length ws = length bs" using now i by auto
  then have iw: "i < length ws" using i by simp
  have lim: "reg_limits reg = limits" "rl_max_total_wal_bytes limits < usize_max" "rl_max_total_records limits < usize_max"
    using now limits by (auto simp: registry_limits_ok_def)
  have members: "members_inv bs (rl_per_table limits) acked ws d" using now by blast
  then obtain p where log: "wal_inv (bs ! i) (rl_per_table limits) p ?w (acked ?k) d"
    using iw by (auto simp: members_inv_def)
  have commit: "commit_member_record env ?k ?n op reg d = (r, reg', d')"
    using run registry_commit_tracked [of reg table ?w env op d] by (simp add: table w)
  show ?thesis
  proof (cases "reserve_record reg ?n :: 'a io_error wal_commit_error + unit")
    case (Inl e)
    then have "r = Inl e" "reg' = reg" "d' = d" using commit by (auto simp: commit_member_record_def)
    then show ?thesis using inv by auto
  next
    case (Inr u)
    then have ok: "reserve_record reg ?n = (Inr () :: 'a io_error wal_commit_error + unit)" by simp
    note reserved = reserve_record_ok [OF ok, unfolded lim(1), OF lim(2,3)]
    obtain r0 w' d0 where step: "wal_apply env op ?w d = (r0, w', d0)" using prod_cases3 by blast
    have d': "d' = d0" and r: "is_ok r = is_ok r0"
      and reg': "reg' = (if is_ok r0
          then reg\<lparr>reg_writers := (reg_writers reg)(?k \<mapsto> w'), reg_total_wal_bytes := reg_total_wal_bytes reg + ?n,
            reg_total_records := reg_total_records reg + 1\<rparr>
          else reg\<lparr>reg_writers := (reg_writers reg)(?k \<mapsto> w'),
            reg_poisoned := (case projl r0 of WalLimit _ \<Rightarrow> reg_poisoned reg | WalPanic \<Rightarrow> reg_poisoned reg | _ \<Rightarrow> True)\<rparr>)"
      using commit by (auto simp: commit_member_record_def Inr w step split: sum.splits)
    have alive: "\<not> ww_poisoned w" if "w \<in> set ws" for w
      using now reserved(1) that by (auto simp: filter_empty_conv)
    then have none: "filter ww_poisoned ws = []" by (simp add: filter_empty_conv)
    have wl: "limits_ok (ww_limits ?w)" using log limits by (simp add: wal_inv_def registry_limits_ok_def)
    have n: "?n < usize_max" using reserved(2) lim(2) by simp
    note frame = wal_apply_frame [OF step wl n, folded d']
    have "wal_inv (bs ! i) (rl_per_table limits) p w' (?acked r0 ?k) d'"
      using wal_inv_step [OF log _ fits step] limits by (cases "is_ok r0") (simp_all add: registry_limits_ok_def d')
    moreover have "?acked r0 (table_key (bs ! j)) = acked (table_key (bs ! j))" if "j < length ws" "j \<noteq> i" for j
      using keys that len i by (auto simp: distinct_conv_nth)
    ultimately have members': "members_inv bs (rl_per_table limits) (?acked r0) (ws[i := w']) d'"
      using frame members_inv_update [OF members iw, of d' w' p "?acked r0"] by blast
    have writers: "reg_writers reg' (table_key (bs ! j)) = Some (ws[i := w'] ! j)" if "j < length bs" for j
      using now keys that len i reg' by (cases "j = i") (auto simp: distinct_conv_nth)
    have files: "(\<Sum>w \<leftarrow> ws[i := w']. length (contents d' (ww_file w))) \<le> rl_max_total_wal_bytes limits"
      using sum_files_update [of ws i d d' w'] frame iw members reserved(2) now sound_files [OF members none]
      by (auto simp: members_inv_def)
    have bytes: "reg_total_wal_bytes reg' = (\<Sum>w \<leftarrow> ws[i := w']. ww_file_bytes w)"
      "reg_total_records reg' = (\<Sum>w \<leftarrow> ws[i := w']. ww_records w)"
      using sum_list_update_nat [OF iw, of ww_file_bytes w'] sum_list_update_nat [OF iw, of ww_records w'] frame now reg'
      by (auto split: if_splits)
    have poison: "length (filter ww_poisoned (ws[i := w'])) \<le> (if reg_poisoned reg' then 1 else 0)"
    proof (cases r0)
      case (Inr u)
      then have "\<not> ww_poisoned w'" using frame alive iw by simp
      then show ?thesis using length_filter_update [OF iw, of ww_poisoned w'] none by simp
    next
      case (Inl e)
      note p = wal_apply_poison [OF step [unfolded Inl] wl alive [OF nth_mem [OF iw]]]
      show ?thesis
        using length_filter_update [OF iw, of ww_poisoned w'] none p reg' reserved(1)
        by (cases e) (auto simp: Inl)
    qed
    have records: "(\<Sum>w \<leftarrow> ws[i := w']. ww_records w) + length (filter ww_poisoned (ws[i := w'])) \<le> rl_max_total_records limits"
      using bytes(2) reg' reserved(3) poison now frame alive iw length_filter_update [OF iw, of ww_poisoned w'] none
      by (cases r0) (auto split: if_splits)
    have "ww_file ?w \<in> set (map ww_file ws)" using iw by simp
    then have m: "m \<noteq> ww_file ?w" using now by metis
    have "map ww_file (ws[i := w']) = map ww_file ws" using frame iw by (simp add: map_update list_update_same_conv)
    then have "registry_inv bs limits reg' (?acked r0) d' (ws[i := w']) m"
      using now members' writers files bytes poison records frame reg' len m
        same_elsewhere_kept(1) [of "ww_file ?w" d d' m]
      unfolding registry_inv_def by (auto split: if_splits simp flip: set_map)
    then show ?thesis using r by auto
  qed
qed

section \<open>Creation establishes the invariant\<close>

definition fresh_file :: "directory \<Rightarrow> name \<Rightarrow> directory \<Rightarrow> bool" where
  "fresh_file d name d' \<longleftrightarrow>
     fresh d' = Suc (fresh d) \<and> entries d' = (entries d)(name \<mapsto> fresh d) \<and> same_elsewhere (fresh d) d d'"

lemma dir_create_fresh:
  assumes "dir_create env name d = (Inr i, d')" and "\<forall>n. resolve env n = n"
  shows "i = fresh d" and "fresh_file d name d'" and "contents d' i = []"
  using assms
  by (auto simp: dir_create_def syscall_def fresh_file_def same_elsewhere_def tick_def split: option.splits if_splits)

lemma fresh_file_write:
  "fresh_file d name d1 \<Longrightarrow> same_elsewhere (fresh d) d1 d2 \<Longrightarrow> entries d2 = entries d1 \<Longrightarrow> fresh d2 = fresh d1 \<Longrightarrow>
     fresh_file d name d2"
  by (auto simp: fresh_file_def same_elsewhere_def)

lemma create_in_directory_fresh:
  assumes run: "create_in_directory env name b limits d = (Inr w, d')" and id: "\<forall>n. resolve env n = n"
  shows "ww_file w = fresh d" and "fresh_file d name d'" and "ww_records w = 1" and "\<not> ww_poisoned w"
proof -
  obtain body footer where *: "create_committed_wal_file env name body footer d = (Inr (ww_file w), d')"
    and "ww_records w = 1" "\<not> ww_poisoned w"
    using run by (auto simp: create_in_directory_def split: sum.splits option.splits prod.splits)
  then show "ww_records w = 1" "\<not> ww_poisoned w" by auto
  obtain d1 d2 where create: "dir_create env name d = (Inr (ww_file w), d1)"
    and written: "write_committed_record env (ww_file w) body footer d1 = (Inr (), d2)" and d': "d' = d2 \<or> d' = tick d2"
    using * by (auto simp: create_committed_wal_file_def dir_sync_def syscall_def
        split: sum.splits prod.splits option.splits)
  note made = dir_create_fresh [OF create id]
  show "ww_file w = fresh d" by (rule made(1))
  have "fresh_file d name d2"
    using write_committed_record_frame [OF written] made by (intro fresh_file_write [OF made(2)]) simp_all
  then show "fresh_file d name d'" using d' by (auto simp: fresh_file_def same_elsewhere_def tick_def)
qed

lemma write_manifest_fresh:
  assumes run: "write_manifest env manifest d = (Inr i, d')" and id: "\<forall>n. resolve env n = n"
  shows "i = fresh d" and "fresh_file d manifest_name d'" and "durable d' i manifest"
proof -
  obtain d1 d2 d3 where create: "dir_create env manifest_name d = (Inr i, d1)"
    and wrote: "write_all env i manifest d1 = (Inr (), d2)" and sync: "file_sync env i d2 = (Inr (), d3)"
    and last: "d' = tick d3"
    using run by (auto simp: write_manifest_def dir_sync_def syscall_def split: sum.splits prod.splits option.splits)
  note made = dir_create_fresh [OF create id]
  have "same_elsewhere i d1 d3 \<and> entries d3 = entries d1 \<and> fresh d3 = fresh d1 \<and> durable d3 i manifest"
    using wrote sync made(3)
    by (auto simp: write_all_def file_sync_def syscall_def tick_def same_elsewhere_def durable_def split: option.splits)
  then show "i = fresh d" "fresh_file d manifest_name d'" "durable d' i manifest"
    using made fresh_file_write [OF made(2), of d3] last
    by (auto simp: fresh_file_def same_elsewhere_def durable_def tick_def)
qed

text \<open>The members created so far.\<close>

definition created_inv ::
  "wal_bootstrap list \<Rightarrow> wal_limits \<Rightarrow> (string \<rightharpoonup> wal_writer) \<Rightarrow> wal_writer list \<Rightarrow> directory \<Rightarrow> bool" where
  "created_inv bs limits writers ws d \<longleftrightarrow>
     length ws = length bs \<and> members_inv bs limits (\<lambda>_. []) ws d \<and>
     (\<forall>i < length bs. writers (table_key (bs ! i)) = Some (ws ! i)) \<and>
     dom (entries d) = member_name ` {..<length bs} \<and>
     (\<forall>w \<in> set ws. ww_records w = 1 \<and> \<not> ww_poisoned w)"

lemma fresh_file_kept:
  assumes "fresh_file d name d'" and "i < fresh d"
  shows "ww_file w = i \<Longrightarrow> wal_inv b limits p w acked d' = wal_inv b limits p w acked d"
    and "durable d' i bytes = durable d i bytes" and "contents d' i = contents d i"
  using assms same_elsewhere_kept [of "fresh d" d d' i] wal_inv_kept [of "fresh d" d d' w]
  by (auto simp: fresh_file_def)

lemma created_inv_step:
  assumes inv: "created_inv bs limits writers ws d" and b: "bootstrap_ok b" and limits: "limits_ok limits"
    and key: "table_key b \<notin> set (map table_key bs)" and id: "\<forall>n. resolve env n = n"
    and run: "create_in_directory env (member_name (length bs)) b limits d = (Inr w, d')"
  shows "created_inv (bs @ [b]) limits (writers(table_key b \<mapsto> w)) (ws @ [w]) d'"
proof -
  note new = create_in_directory_fresh [OF run id]
  obtain p where log: "wal_inv b limits p w [] d'" using wal_inv_created [OF b limits run] ..
  have len: "length ws = length bs" and old: "distinct (map ww_file ws)"
    "\<And>i. i < length ws \<Longrightarrow> entries d (member_name i) = Some (ww_file (ws ! i)) \<and> ww_file (ws ! i) < fresh d \<and>
      (\<exists>p. wal_inv (bs ! i) limits p (ws ! i) [] d)"
    using inv by (auto simp: created_inv_def members_inv_def)
  have "\<forall>v \<in> set ws. ww_file v < fresh d" using old(2) by (auto simp: in_set_conv_nth)
  then have files: "distinct (map ww_file (ws @ [w]))" using old(1) new(1) by auto
  have "entries d' (member_name i) = Some (ww_file ((ws @ [w]) ! i)) \<and> ww_file ((ws @ [w]) ! i) < fresh d' \<and>
      (\<exists>p. wal_inv ((bs @ [b]) ! i) limits p ((ws @ [w]) ! i) [] d')" if "i < length (ws @ [w])" for i
  proof (cases "i < length ws")
    case True
    then show ?thesis
      using old(2) [OF True] new(2) len fresh_file_kept(1) [OF new(2), of "ww_file (ws ! i)" "ws ! i"]
      by (auto simp: nth_append fresh_file_def member_name_inj)
  next
    case False
    then have "i = length ws" using that by simp
    then show ?thesis using new log len by (auto simp: nth_append fresh_file_def)
  qed
  then have "members_inv (bs @ [b]) limits (\<lambda>_. []) (ws @ [w]) d'"
    using files len by (simp add: members_inv_def)
  moreover have "(writers(table_key b \<mapsto> w)) (table_key ((bs @ [b]) ! i)) = Some ((ws @ [w]) ! i)"
    if "i < length (bs @ [b])" for i
  proof (cases "i < length bs")
    case True
    then have "table_key (bs ! i) \<noteq> table_key b" using key nth_mem [OF True]
      by (metis image_eqI list.set_map)
    with True inv len show ?thesis by (simp add: created_inv_def nth_append)
  qed (use that len in \<open>simp add: nth_append\<close>)
  moreover have "dom (entries d') = member_name ` {..<length (bs @ [b])}"
    using inv new(2) by (auto simp: created_inv_def fresh_file_def lessThan_Suc)
  ultimately show ?thesis using inv new by (auto simp: created_inv_def)
qed

definition member_pairs :: "nat \<Rightarrow> wal_bootstrap list \<Rightarrow> (wal_bootstrap \<times> registry_descriptor) list" where
  "member_pairs k bs = map (\<lambda>(i, b). (b, \<lparr>rd_table = wb_table_name b, rd_member = member_name i\<rparr>)) (enumerate k bs)"

lemma zip_registry_descriptors: "zip bs (registry_descriptors bs) = member_pairs 0 bs"
  by (rule nth_equalityI) (simp_all add: member_pairs_def registry_descriptors_nth nth_enumerate_eq)

lemma create_members_inv:
  "create_members env limits (member_pairs (length bs1) bs2) writers d = (Inr writers', d') \<Longrightarrow>
    created_inv bs1 limits writers ws d \<Longrightarrow> \<forall>b \<in> set bs2. bootstrap_ok b \<Longrightarrow> limits_ok limits \<Longrightarrow>
    distinct (map table_key (bs1 @ bs2)) \<Longrightarrow> \<forall>n. resolve env n = n \<Longrightarrow>
    \<exists>ws'. created_inv (bs1 @ bs2) limits writers' ws' d'"
proof (induction bs2 arbitrary: bs1 writers ws d)
  case Nil
  then show ?case by (auto simp: member_pairs_def)
next
  case (Cons b bs2)
  obtain w d1 where create: "create_in_directory env (member_name (length bs1)) b limits d = (Inr w, d1)"
    and rest: "create_members env limits (member_pairs (length (bs1 @ [b])) bs2) (writers(table_key b \<mapsto> w)) d1 = (Inr writers', d')"
    using Cons.prems(1) by (auto simp: member_pairs_def table_key_def split: sum.splits prod.splits)
  have "created_inv (bs1 @ [b]) limits (writers(table_key b \<mapsto> w)) (ws @ [w]) d1"
    using Cons.prems by (intro created_inv_step [OF _ _ _ _ _ create]) auto
  from Cons.IH [OF rest this] Cons.prems show ?case by auto
qed

lemma bootstrap_record_bytes_log:
  assumes "wal_inv b limits p w [] d" and "bootstrap_record_bytes (preflight_of b) < usize_max"
  shows "bootstrap_record_bytes (preflight_of b) = ww_file_bytes w"
proof -
  have p: "bootstrap_ok b" "encode_bootstrap b = Some p" "ww_file_bytes w = 48 + length p"
    using assms(1) by (simp_all add: wal_inv_def log_start_def log_file_def)
  from bootstrap_payload_len_eq [OF p(1,2)] assms(2) p(3) show ?thesis
    by (auto simp: bootstrap_record_bytes_def preflight_of_def saturating_add_def min_def split: if_splits)
qed

lemma sum_list_cong_nth:
  "length xs = length ys \<Longrightarrow> (\<And>i. i < length xs \<Longrightarrow> f (xs ! i) = g (ys ! i)) \<Longrightarrow> (\<Sum>x \<leftarrow> xs. f x) = (\<Sum>y \<leftarrow> ys. g y :: nat)"
  by (intro arg_cong [of _ _ sum_list] nth_equalityI) simp_all

lemma create_registry_inv:
  fixes env :: "'io environment"
  assumes run: "create_registry env path taken bs limits d = (Inr reg, d')"
    and limits: "registry_limits_ok limits" and ok: "\<forall>b \<in> set bs. bootstrap_ok b" and id: "\<forall>n. resolve env n = n"
  shows "preflight_registry_tables (map preflight_of bs) limits = (Inr () :: 'io io_error registry_error + unit)"
    and "\<exists>ws m. registry_inv (sort_bootstraps bs) limits reg (\<lambda>_. []) d' ws m"
proof -
  let ?bs = "sort_bootstraps bs"
  let ?total = "foldl saturating_add 0 (map (bootstrap_record_bytes \<circ> preflight_of) ?bs)"
  obtain u d0 d4 d5 writers m where
    pre: "preflight_registry_tables (map preflight_of bs) limits = (Inr u :: 'io io_error registry_error + unit)"
    and total: "validate_registry_totals ?total (length ?bs) limits = Inr ()"
    and members: "create_members env (rl_per_table limits) (zip ?bs (registry_descriptors ?bs)) Map.empty d4 = (Inr writers, d5)"
    and empty: "entries d4 = Map.empty"
    and manifest: "write_manifest env (encode_registry_manifest (registry_descriptors ?bs)) d5 = (Inr m, d')"
    and reg: "reg = \<lparr>reg_writers = writers, reg_limits = limits, reg_total_wal_bytes = ?total,
             reg_total_records = length (registry_descriptors ?bs), reg_poisoned = False\<rparr>"
    using run
    by (auto simp: create_registry_def Let_def make_directory_def parent_call_def syscall_def tick_def
        split: sum.splits prod.splits option.splits if_splits)
  show "preflight_registry_tables (map preflight_of bs) limits = (Inr () :: 'io io_error registry_error + unit)"
    using pre by simp
  have "distinct (map table_key bs)" using pre by (intro preflight_tables(3) [OF _ limits]) simp
  then have keys: "distinct (map table_key ?bs)" by (metis mset_sort_bootstraps mset_map mset_eq_imp_distinct_iff)
  have start: "created_inv [] (rl_per_table limits) Map.empty [] d4"
    by (simp add: created_inv_def members_inv_def empty)
  have "create_members env (rl_per_table limits) (member_pairs (length ([] :: wal_bootstrap list)) ?bs) Map.empty d4 = (Inr writers, d5)"
    using members by (simp add: zip_registry_descriptors)
  from create_members_inv [OF this start] obtain ws where created: "created_inv ?bs (rl_per_table limits) writers ws d5"
    using ok limits keys id by (auto simp: registry_limits_ok_def)
  note c = created [unfolded created_inv_def]
  note made = write_manifest_fresh [OF manifest id]
  have lim: "?total < usize_max" "?total \<le> rl_max_total_wal_bytes limits" "length bs \<le> rl_max_total_records limits"
    using total limits by (auto simp: validate_registry_totals_def registry_limits_ok_def split: if_splits)
  have file_below: "ww_file w < fresh d5" if "w \<in> set ws" for w
    using c that by (auto simp: members_inv_def in_set_conv_nth)
  have log: "\<exists>p. wal_inv (?bs ! i) (rl_per_table limits) p (ws ! i) [] d'" if "i < length ?bs" for i
    using c that fresh_file_kept(1) [OF made(2) file_below [of "ws ! i"], of "ws ! i"]
    by (auto simp: members_inv_def)
  have members': "members_inv ?bs (rl_per_table limits) (\<lambda>_. []) ws d'"
  proof -
    have "entries d' (member_name i) = entries d5 (member_name i)" if "i < length ws" for i
      using made(2) member_name_safe [of i] by (auto simp: fresh_file_def safe_registry_member_def)
    then show ?thesis using c log made(2) by (auto simp: members_inv_def fresh_file_def)
  qed
  have sum: "?total = (\<Sum>b \<leftarrow> ?bs. bootstrap_record_bytes (preflight_of b))"
    using foldl_saturating_sum [OF lim(1)] by (simp add: comp_def)
  have bytes: "?total = (\<Sum>w \<leftarrow> ws. ww_file_bytes w)"
    unfolding sum
  proof (rule sum_list_cong_nth)
    fix i assume i: "i < length ?bs"
    obtain p where p: "wal_inv (?bs ! i) (rl_per_table limits) p (ws ! i) [] d'" using log [OF i] ..
    have "bootstrap_record_bytes (preflight_of (?bs ! i)) \<le> (\<Sum>b \<leftarrow> ?bs. bootstrap_record_bytes (preflight_of b))"
      using i by (intro sum_list_mono_elem nth_mem) simp
    then have "bootstrap_record_bytes (preflight_of (?bs ! i)) < usize_max" using lim(1) sum by simp
    then show "bootstrap_record_bytes (preflight_of (?bs ! i)) = ww_file_bytes (ws ! i)"
      by (rule bootstrap_record_bytes_log [OF p])
  qed (use c in simp)
  have none: "filter ww_poisoned ws = []" using c by (auto simp: filter_empty_conv)
  have "(\<Sum>w \<leftarrow> ws. ww_records w) = (\<Sum>w \<leftarrow> ws. 1)" using c by (intro arg_cong [of _ _ sum_list] map_cong) auto
  then have records: "(\<Sum>w \<leftarrow> ws. ww_records w) = length bs" using c by (simp add: sum_list_triv)
  have "m \<notin> set (map ww_file ws)" using file_below made(1) by fastforce
  moreover have "dom (entries d') = insert manifest_name (member_name ` {..<length ?bs})"
    using c made(2) by (simp add: fresh_file_def)
  moreover have "entries d' manifest_name = Some m" using made(1,2) by (simp add: fresh_file_def)
  ultimately have "registry_inv ?bs limits reg (\<lambda>_. []) d' ws m"
    using c members' bytes none records lim made(3) sound_files [OF members' none]
    by (simp add: registry_inv_def reg)
  then show "\<exists>ws m. registry_inv (sort_bootstraps bs) limits reg (\<lambda>_. []) d' ws m" by blast
qed

end
