(* ===== verification/Wal_Registry_Recovery.thy ===== *)
theory Wal_Registry_Recovery
  imports Wal_Registry_Inv
begin

text \<open>
  What a registry of write-ahead logs guarantees: whatever calls fail, the directory it leaves recovers
  to the tables with exactly the acknowledged operations, and at most one more of the table whose
  write failed; the limits for all logs together, checked before each write, never make the recovery
  refuse what was written.
\<close>

section \<open>The life of a registry\<close>

text \<open>The operations are acknowledged table by table; a table is found by its name in any case.\<close>

inductive registry_life ::
  "'io environment \<Rightarrow> wal_bootstrap list \<Rightarrow> registry_limits \<Rightarrow> wal_registry \<Rightarrow> (string \<Rightarrow> wal_op list) \<Rightarrow>
   directory \<Rightarrow> bool"
  for env bs limits
where
  created: "create_registry env path taken bs limits d = (Inr reg, d') \<Longrightarrow>
    registry_life env bs limits reg (\<lambda>_. []) d'"
| logged: "registry_life env bs limits reg acked d \<Longrightarrow> b \<in> set bs \<Longrightarrow> eq_ignore_ascii_case table (wb_table_name b) \<Longrightarrow>
    op_fits (wb_nullable b) (max_table_rows b) (ops_effect (acked (table_key b)) (wb_values b)) op \<Longrightarrow>
    registry_commit env table op reg d = (Inr (), reg', d') \<Longrightarrow>
    registry_life env bs limits reg' (acked(table_key b := acked (table_key b) @ [op])) d'"
| refused: "registry_life env bs limits reg acked d \<Longrightarrow> b \<in> set bs \<Longrightarrow> eq_ignore_ascii_case table (wb_table_name b) \<Longrightarrow>
    op_fits (wb_nullable b) (max_table_rows b) (ops_effect (acked (table_key b)) (wb_values b)) op \<Longrightarrow>
    registry_commit env table op reg d = (Inl e, reg', d') \<Longrightarrow>
    registry_life env bs limits reg' acked d'"

lemma registry_inv_commit:
  assumes inv: "registry_inv (sort_bootstraps bs) limits reg acked d ws m" and limits: "registry_limits_ok limits"
    and keys: "distinct (map table_key bs)" and b: "b \<in> set bs" and table: "eq_ignore_ascii_case table (wb_table_name b)"
    and fits: "op_fits (wb_nullable b) (max_table_rows b) (ops_effect (acked (table_key b)) (wb_values b)) op"
    and run: "registry_commit env table op reg d = (r, reg', d')"
  shows "\<exists>ws. registry_inv (sort_bootstraps bs) limits reg'
    (if is_ok r then acked(table_key b := acked (table_key b) @ [op]) else acked) d' ws m"
proof -
  obtain i where i: "i < length (sort_bootstraps bs)" "b = sort_bootstraps bs ! i"
    using b by (metis in_set_conv_nth set_sort_bootstraps)
  have "distinct (map table_key (sort_bootstraps bs))"
    using keys by (metis mset_sort_bootstraps mset_map mset_eq_imp_distinct_iff)
  moreover have "map to_ascii_lowercase table = table_key b"
    using table by (simp add: table_key_def eq_ignore_ascii_case_def)
  ultimately show ?thesis
    using registry_inv_step [OF inv limits _ i(1) _ _ run] fits unfolding i(2) by auto
qed

lemma registry_life_inv:
  fixes env :: "'io environment"
  assumes "registry_life env bs limits reg acked d" and limits: "registry_limits_ok limits"
    and "\<forall>b \<in> set bs. bootstrap_ok b" and "\<forall>n. resolve env n = n"
  shows "preflight_registry_tables (map preflight_of bs) limits = (Inr () :: 'io io_error registry_error + unit) \<and>
    (\<exists>ws m. registry_inv (sort_bootstraps bs) limits reg acked d ws m)"
  using assms
proof (induction rule: registry_life.induct)
  case (created path taken d reg d')
  from create_registry_inv [OF created] show ?case by blast
next
  case (logged reg acked d b table op reg' d')
  then obtain ws m where inv: "registry_inv (sort_bootstraps bs) limits reg acked d ws m"
    and pre: "preflight_registry_tables (map preflight_of bs) limits = (Inr () :: 'io io_error registry_error + unit)" by blast
  from registry_inv_commit [OF inv limits preflight_tables(3) [OF pre limits] logged(2-5)] pre show ?case
    by (auto simp del: fun_upd_apply)
next
  case (refused reg acked d b table op e reg' d')
  then obtain ws m where inv: "registry_inv (sort_bootstraps bs) limits reg acked d ws m"
    and pre: "preflight_registry_tables (map preflight_of bs) limits = (Inr () :: 'io io_error registry_error + unit)" by blast
  from registry_inv_commit [OF inv limits preflight_tables(3) [OF pre limits] refused(2-5)] pre show ?case by auto
qed

section \<open>The recovery of one log\<close>

lemma wal_inv_fewer_records:
  assumes "wal_inv b limits p w acked d" and "ww_records w + (if ww_poisoned w then 1 else 0) \<le> n"
  shows "wal_inv b (limits\<lparr>wal_max_records := n\<rparr>) p (w\<lparr>ww_limits := limits\<lparr>wal_max_records := n\<rparr>\<rparr>) acked d"
proof -
  have fit: "ops_fit (limits\<lparr>wal_max_records := n\<rparr>) nullable k rows ops = ops_fit limits nullable k rows ops"
    for nullable k rows ops
    by (induction ops arbitrary: rows) (auto split: option.splits)
  show ?thesis using assms by (auto simp: wal_inv_def log_start_def ops_logged_def fit)
qed

definition poison_count :: "wal_writer \<Rightarrow> nat" where
  "poison_count w = (if ww_poisoned w then 1 else 0)"

lemma filter_poisoned_sum: "length (filter ww_poisoned ws) = (\<Sum>w \<leftarrow> ws. poison_count w)"
  by (induction ws) (simp_all add: poison_count_def)

text \<open>A descriptor whose log stands in its file and whose file the image shows.\<close>

definition member_ready ::
  "wal_limits \<Rightarrow> 'io registry_image \<Rightarrow> (string \<Rightarrow> wal_op list) \<Rightarrow> directory \<Rightarrow>
   registry_descriptor \<times> wal_bootstrap \<times> wal_writer \<Rightarrow> bool" where
  "member_ready limits img acked d = (\<lambda>(r, b, w).
     rd_table r = wb_table_name b \<and> (\<exists>p. wal_inv b limits p w (acked (table_key b)) d) \<and>
     (\<exists>entry bytes. ri_member img (rd_member r) = MemberFile entry \<and> crash_image d (ww_file w) bytes \<and>
        mf_metadata entry = Inr (True, of_nat (length bytes), ww_file w) \<and> reader_bytes (mf_reads entry) = Some bytes))"

lemma settings_of_values [simp]: "settings_of (b\<lparr>wb_values := vs\<rparr>) = settings_of b"
  by (simp add: settings_of_def)

lemma crash_image_length: "crash_image d i bytes \<Longrightarrow> length bytes \<le> length (contents d i)"
  by (auto simp: crash_image_def)

lemma recover_member_ready:
  fixes img :: "'io registry_image"
  assumes ready: "member_ready (rl_per_table limits) img acked d (r, b, w)" and limits: "registry_limits_ok limits"
    and new: "ww_file w \<notin> set (rs_inodes s)"
    and bytes: "rs_bytes s + length (contents d (ww_file w)) \<le> rl_max_total_wal_bytes limits"
    and records: "rs_records s + (ww_records w + poison_count w) \<le> rl_max_total_records limits"
    and settings: "rs_settings s = None \<or> rs_settings s = Some (settings_of b)"
  shows "\<exists>extra n. recover_member limits img r s =
      Inr \<lparr>rs_tables = rs_tables s @ [b\<lparr>wb_values := ops_effect (acked (table_key b) @ extra) (wb_values b)\<rparr>],
        rs_inodes = ww_file w # rs_inodes s, rs_bytes = rs_bytes s + n,
        rs_records = rs_records s + (ww_records w + length extra), rs_settings = Some (settings_of b)\<rparr> \<and>
    length extra \<le> poison_count w \<and> n \<le> length (contents d (ww_file w))"
proof -
  obtain p entry bs where name: "rd_table r = wb_table_name b"
    and log: "wal_inv b (rl_per_table limits) p w (acked (table_key b)) d"
    and member: "ri_member img (rd_member r) = MemberFile entry" "crash_image d (ww_file w) bs"
      "mf_metadata entry = Inr (True, of_nat (length bs), ww_file w)" "reader_bytes (mf_reads entry) = Some bs"
    using ready by (auto simp: member_ready_def)
  let ?limits = "(rl_per_table limits)\<lparr>wal_max_records := min (wal_max_records (rl_per_table limits))
    (rl_max_total_records limits - rs_records s)\<rparr>"
  have ok: "limits_ok ?limits" using limits by (auto simp: registry_limits_ok_def limits_ok_def)
  have "ww_records w + (if ww_poisoned w then 1 else 0) \<le> wal_max_records (rl_per_table limits)"
    using log by (auto simp: wal_inv_def ops_logged_def)
  then have "wal_inv b ?limits p (w\<lparr>ww_limits := ?limits\<rparr>) (acked (table_key b)) d"
    using records by (intro wal_inv_fewer_records [OF log]) (simp add: poison_count_def)
  from wal_inv_recovers [OF this ok] member(2) obtain extra where extra: "length extra \<le> poison_count w"
    and size: "length bs \<le> wal_max_file_bytes (rl_per_table limits)"
    and replayed: "(replay bs ?limits :: 'io wal_error + _) =
      Inr \<lparr>wr_bootstrap = b\<lparr>wb_values := ops_effect (acked (table_key b) @ extra) (wb_values b)\<rparr>,
        wr_file_bytes = length bs, wr_records = Suc (length (acked (table_key b) @ extra))\<rparr>"
    by (auto simp: poison_count_def)
  have recovered: "(recover_file (mf_reads entry) (of_nat (length bs)) ?limits :: 'io wal_error + _) =
      Inr \<lparr>wr_bootstrap = b\<lparr>wb_values := ops_effect (acked (table_key b) @ extra) (wb_values b)\<rparr>,
        wr_file_bytes = length bs, wr_records = ww_records w + length extra\<rparr>"
    using recover_file_image [OF member(4) _ ok] size replayed log by (simp add: wal_inv_def)
  have len: "length bs \<le> length (contents d (ww_file w))" using crash_image_length [OF member(2)] .
  have small: "unat (of_nat (length bs) :: u64) = length bs" 
    using size limits by (intro unat_of_nat_u64) (simp add: registry_limits_ok_def limits_ok_def)
  have sums: "saturating_add (rs_bytes s) (length bs) = rs_bytes s + length bs"
    "saturating_add (rs_records s) (ww_records w + length extra) = rs_records s + (ww_records w + length extra)"
    "rs_bytes s + length bs \<le> rl_max_total_wal_bytes limits" "rs_records s \<le> rl_max_total_records limits"
    "rs_records s + (ww_records w + length extra) \<le> rl_max_total_records limits"
    using bytes records len extra limits by (auto simp: saturating_add_def registry_limits_ok_def)
  show ?thesis
    using new settings extra len
    by (intro exI [of _ extra] exI [of _ "length bs"])
      (auto simp: recover_member_def Let_def member small sums [folded not_less] validate_registry_totals_def recovered name)
qed

section \<open>The recovery of a registry\<close>

definition recovered_table :: "(string \<Rightarrow> wal_op list) \<Rightarrow> wal_bootstrap \<Rightarrow> wal_op list \<Rightarrow> wal_bootstrap" where
  "recovered_table acked b extra = b\<lparr>wb_values := ops_effect (acked (table_key b) @ extra) (wb_values b)\<rparr>"

lemma recover_members_ready:
  fixes img :: "'io registry_image"
  assumes "list_all (member_ready (rl_per_table limits) img acked d) (zip rs (zip bs ws))" and limits: "registry_limits_ok limits"
    and "length rs = length bs" "length ws = length bs"
    and "distinct (map ww_file ws)" "set (map ww_file ws) \<inter> set (rs_inodes s) = {}"
    and "rs_bytes s + (\<Sum>w \<leftarrow> ws. length (contents d (ww_file w))) \<le> rl_max_total_wal_bytes limits"
    and "rs_records s + (\<Sum>w \<leftarrow> ws. ww_records w + poison_count w) \<le> rl_max_total_records limits"
    and "rs_settings s = None \<or> rs_settings s = Some st" and "\<forall>b \<in> set bs. settings_of b = st"
  shows "\<exists>extras s'. recover_members limits img rs s = Inr s' \<and> length extras = length bs \<and>
    rs_tables s' = rs_tables s @ map2 (recovered_table acked) bs extras \<and>
    length (concat extras) \<le> (\<Sum>w \<leftarrow> ws. poison_count w)"
  using assms(1,3-)
proof (induction bs arbitrary: rs ws s)
  case Nil
  then show ?case by (intro exI [of _ "[]"]) simp
next
  case (Cons b bs)
  obtain r rs' where rs: "rs = r # rs'" using Cons.prems(2) by (cases rs) simp_all
  obtain w ws' where ws: "ws = w # ws'" using Cons.prems(3) by (cases ws) simp_all
  have ready: "member_ready (rl_per_table limits) img acked d (r, b, w)" using Cons.prems(1) by (simp add: rs ws)
  obtain extra n where step: "recover_member limits img r s =
      Inr \<lparr>rs_tables = rs_tables s @ [recovered_table acked b extra], rs_inodes = ww_file w # rs_inodes s,
        rs_bytes = rs_bytes s + n, rs_records = rs_records s + (ww_records w + length extra),
        rs_settings = Some (settings_of b)\<rparr>"
    and extra: "length extra \<le> poison_count w" and n: "n \<le> length (contents d (ww_file w))"
    using recover_member_ready [OF ready limits, of s] Cons.prems(5-9) by (auto simp: ws recovered_table_def)
  let ?s = "\<lparr>rs_tables = rs_tables s @ [recovered_table acked b extra], rs_inodes = ww_file w # rs_inodes s,
        rs_bytes = rs_bytes s + n, rs_records = rs_records s + (ww_records w + length extra),
        rs_settings = Some (settings_of b)\<rparr>"
  have "\<exists>extras s'. recover_members limits img rs' ?s = Inr s' \<and> length extras = length bs \<and>
    rs_tables s' = rs_tables ?s @ map2 (recovered_table acked) bs extras \<and>
    length (concat extras) \<le> (\<Sum>w \<leftarrow> ws'. poison_count w)"
    using Cons.prems extra n by (intro Cons.IH) (auto simp: rs ws)
  then obtain extras s' where "recover_members limits img rs' ?s = Inr s'" "length extras = length bs"
    "rs_tables s' = rs_tables ?s @ map2 (recovered_table acked) bs extras"
    "length (concat extras) \<le> (\<Sum>w \<leftarrow> ws'. poison_count w)" by blast
  then show ?case using step extra by (intro exI [of _ "extra # extras"] exI [of _ s']) (simp add: rs ws)
qed

text \<open>What the calls on the directory may answer after a crash: every file keeps what was synchronised
  and possibly more of what was written after it. The names were synchronised when the registry was
  created; the listing may add the two directory entries.\<close>

definition file_answer :: "directory \<Rightarrow> nat \<Rightarrow> u64 \<Rightarrow> (u8, 'io) read_event list \<Rightarrow> bool" where
  "file_answer d i len reads \<longleftrightarrow>
     (\<exists>bytes. crash_image d i bytes \<and> len = of_nat (length bytes) \<and> reader_bytes reads = Some bytes)"

definition registry_image_after :: "directory \<Rightarrow> 'io registry_image \<Rightarrow> bool" where
  "registry_image_after d img \<longleftrightarrow>
     ri_open_parent img = Inr () \<and> ri_open_directory img = Inr () \<and> ri_open_manifest img = Inr () \<and>
     (\<exists>m len. entries d manifest_name = Some m \<and> ri_manifest_metadata img = Inr (True, len) \<and>
        file_answer d m len (ri_manifest_reads img)) \<and>
     (\<exists>names. ri_listing img = Inr names \<and> set names \<subseteq> {''.'', ''..''} \<union> dom (entries d)) \<and>
     (\<forall>name i. entries d name = Some i \<longrightarrow> (\<exists>entry len. ri_member img name = MemberFile entry \<and>
        mf_metadata entry = Inr (True, len, i) \<and> file_answer d i len (mf_reads entry)))"

lemma registry_members_ready:
  assumes inv: "registry_inv bs limits reg acked d ws m" and img: "registry_image_after d img"
  shows "list_all (member_ready (rl_per_table limits) img acked d) (zip (registry_descriptors bs) (zip bs ws))"
  unfolding list_all_length
proof (intro allI impI)
  fix i assume i: "i < length (zip (registry_descriptors bs) (zip bs ws))"
  then have i: "i < length bs" "i < length ws" by simp_all
  then obtain p where p: "wal_inv (bs ! i) (rl_per_table limits) p (ws ! i) (acked (table_key (bs ! i))) d"
    "entries d (member_name i) = Some (ww_file (ws ! i))"
    using inv by (auto simp: registry_inv_def members_inv_def)
  with img show "member_ready (rl_per_table limits) img acked d (zip (registry_descriptors bs) (zip bs ws) ! i)"
    using i by (fastforce simp: member_ready_def registry_descriptors_nth registry_image_after_def file_answer_def)
qed

lemma no_unexpected_entry:
  assumes inv: "registry_inv bs limits reg acked d ws m" and names: "set names \<subseteq> {''.'', ''..''} \<union> dom (entries d)"
  shows "first_unexpected_entry names (map rd_member (registry_descriptors bs) @ [manifest_name]) = None"
proof -
  have "map rd_member (registry_descriptors bs) = map member_name [0..<length bs]"
    by (rule nth_equalityI) (simp_all add: registry_descriptors_nth)
  then have "dom (entries d) = set (map rd_member (registry_descriptors bs) @ [manifest_name])"
    using inv by (auto simp: registry_inv_def)
  with names show ?thesis by (auto simp: first_unexpected_entry_def find_None_iff)
qed

lemma registry_inv_recovers:
  fixes img :: "'io registry_image"
  assumes inv: "registry_inv bs limits reg acked d ws m" and limits: "registry_limits_ok limits"
    and manifest: "decode_registry_manifest (encode_registry_manifest (registry_descriptors bs)) limits =
      (Inr (registry_descriptors bs) :: 'io registry_error + _)"
    and size: "length (encode_registry_manifest (registry_descriptors bs)) \<le> rl_max_manifest_bytes limits"
    and settings: "\<forall>b \<in> set bs. settings_of b = st"
    and img: "registry_image_after d img" and path: "registry_destination_name path = (Inr name :: 'io registry_error + _)"
  shows "\<exists>extras. recover_registry path limits img = Inr (map2 (recovered_table acked) bs extras) \<and>
    length extras = length bs \<and> length (concat extras) \<le> (if reg_poisoned reg then 1 else 0)"
proof -
  note now = inv [unfolded registry_inv_def]
  let ?manifest = "encode_registry_manifest (registry_descriptors bs)"
  have small: "rl_max_manifest_bytes limits < usize_max" using limits by (simp add: registry_limits_ok_def usize_max_def)
  have answer: "ri_manifest_metadata img = Inr (True, of_nat (length ?manifest))" "reader_bytes (ri_manifest_reads img) = Some ?manifest"
    using img now crash_durable by (fastforce simp: registry_image_after_def file_answer_def)+
  obtain names where listing: "ri_listing img = Inr names" "set names \<subseteq> {''.'', ''..''} \<union> dom (entries d)"
    using img by (auto simp: registry_image_after_def)
  have "(\<Sum>w \<leftarrow> ws. ww_records w + poison_count w) = (\<Sum>w \<leftarrow> ws. ww_records w) + length (filter ww_poisoned ws)"
    by (simp add: sum_list_addf filter_poisoned_sum)
  then obtain extras s' where members: "recover_members limits img (registry_descriptors bs) recovery_start = Inr s'"
    and extras: "length extras = length bs" "rs_tables s' = map2 (recovered_table acked) bs extras"
      "length (concat extras) \<le> (\<Sum>w \<leftarrow> ws. poison_count w)"
    using recover_members_ready [OF registry_members_ready [OF inv img] limits, of recovery_start st] now settings
    by (auto simp: recovery_start_def members_inv_def)
  have opened: "ri_open_parent img = Inr ()" "ri_open_directory img = Inr ()" "ri_open_manifest img = Inr ()"
    using img by (auto simp: registry_image_after_def)
  have "recover_registry path limits img = Inr (rs_tables s')"
    using opened answer size small listing members no_unexpected_entry [OF inv listing(2)] manifest path
    by (auto simp: recover_registry_def validate_manifest_size_def word_less_nat_alt saturating_add_def take_read_to_end_bytes)
  moreover have "length (concat extras) \<le> (if reg_poisoned reg then 1 else 0)"
    using extras(3) now filter_poisoned_sum [of ws] by linarith
  ultimately show ?thesis using extras(1,2) by metis
qed

text \<open>A poisoned registry writes nothing more, whatever the table.\<close>

lemma poisoned_registry_refuses:
  "reg_poisoned reg \<Longrightarrow> registry_tracks reg table \<Longrightarrow>
     registry_commit env table op reg d = (Inl CommitPoisoned, reg, d)"
  by (auto simp: registry_commit_tracked registry_tracks_def commit_member_record_def reserve_record_def)

text \<open>C4: A registry of logs recovers what it acknowledged, whatever calls failed during its creation and
  its commits and wherever it crashed: the recovery returns every table, in the canonical order, with
  exactly its acknowledged operations, and at most one more operation over all tables, of the log whose write
  failed, after which the registry refuses every operation. The limits for all logs together that were
  checked before each write never make the recovery refuse the directory.\<close>

theorem registry_recovers_acknowledged:
  fixes env :: "'io environment" and img :: "'io2 registry_image"
  assumes life: "registry_life env bs limits reg acked d" and id: "\<forall>n. resolve env n = n"
    and limits: "registry_limits_ok limits" and ok: "\<forall>b \<in> set bs. bootstrap_ok b"
    and settings: "\<forall>b \<in> set bs. settings_of b = st"
    and img: "registry_image_after d img" and path: "registry_destination_name path = (Inr name :: 'io2 registry_error + _)"
  shows "\<exists>extras. recover_registry path limits img =
      Inr (map2 (\<lambda>b extra. b\<lparr>wb_values := ops_effect (acked (table_key b) @ extra) (wb_values b)\<rparr>) (sort_bootstraps bs) extras) \<and>
    length extras = length bs \<and> length (concat extras) \<le> (if reg_poisoned reg then 1 else 0) \<and>
    (reg_poisoned reg \<longrightarrow> (\<forall>b \<in> set bs. \<forall>op. registry_commit env (wb_table_name b) op reg d = (Inl CommitPoisoned, reg, d)))"
proof -
  obtain ws m where inv: "registry_inv (sort_bootstraps bs) limits reg acked d ws m"
    and pre: "preflight_registry_tables (map preflight_of bs) limits = (Inr () :: 'io io_error registry_error + unit)"
    using registry_life_inv [OF life limits ok id] by blast
  have size: "length (encode_registry_manifest (registry_descriptors (sort_bootstraps bs))) \<le> rl_max_manifest_bytes limits"
    using preflight_tables(4) [OF pre limits] .
  have names: "\<forall>b \<in> set bs. utf8_valid (wb_table_name b)" using ok by (simp add: bootstrap_ok_def)
  have tracked: "registry_tracks reg (wb_table_name b)" if b: "b \<in> set bs" for b
  proof -
    obtain i where "i < length (sort_bootstraps bs)" "b = sort_bootstraps bs ! i"
      using b by (metis in_set_conv_nth set_sort_bootstraps)
    then show ?thesis using inv by (auto simp: registry_inv_def registry_tracks_def table_key_def)
  qed
  have settings': "\<forall>b \<in> set (sort_bootstraps bs). settings_of b = st" using settings by simp
  obtain extras where "recover_registry path limits img = Inr (map2 (recovered_table acked) (sort_bootstraps bs) extras)"
    "length extras = length bs" "length (concat extras) \<le> (if reg_poisoned reg then 1 else 0)"
    using registry_inv_recovers [OF inv limits registry_manifest_decodes [OF pre limits names] size settings' img path] by auto
  moreover have "registry_commit env (wb_table_name b) op reg d = (Inl CommitPoisoned, reg, d)"
    if "reg_poisoned reg" "b \<in> set bs" for b op
    using poisoned_registry_refuses [OF that(1) tracked [OF that(2)]] .
  ultimately show ?thesis unfolding recovered_table_def [abs_def] by blast
qed

definition sample_registry_limits :: registry_limits where
  "sample_registry_limits = registry_limits_new 4 1000 5000 100 sample_limits"

text \<open>The image of a directory whose calls all succeed.\<close>

definition whole_image :: "directory \<Rightarrow> unit registry_image" where
  "whole_image d =
     (let answer = (\<lambda>i. (of_nat (length (contents d i)) :: u64, [ReadChunk (contents d i)])) in
      \<lparr>ri_open_parent = Inr (), ri_open_directory = Inr (), ri_open_manifest = Inr (),
       ri_manifest_metadata = Inr (True, fst (answer (the (entries d manifest_name)))),
       ri_manifest_reads = snd (answer (the (entries d manifest_name))),
       ri_listing = Inr [''.'', ''..'', member_name 0, manifest_name],
       ri_member = (\<lambda>name. case entries d name of None \<Rightarrow> MemberMissing
         | Some i \<Rightarrow> MemberFile \<lparr>mf_metadata = Inr (True, fst (answer i), i), mf_reads = snd (answer i)\<rparr>)\<rparr>)"

lemma whole_image_after:
  assumes inv: "registry_inv [b] limits reg acked d ws m" and alive: "\<not> reg_poisoned reg"
  shows "registry_image_after d (whole_image d)"
proof -
  have len: "length ws = 1" using inv by (simp add: registry_inv_def)
  then obtain w where ws: "ws = [w]" by (cases ws) auto
  have entries: "dom (entries d) = {manifest_name, member_name 0}" "entries d manifest_name = Some m"
    "entries d (member_name 0) = Some (ww_file w)"
    using inv ws by (auto simp: registry_inv_def members_inv_def)
  have "\<not> ww_poisoned w" using inv alive ws by (auto simp: registry_inv_def split: if_splits)
  then obtain bytes where log: "durable d (ww_file w) bytes"
    using inv ws by (auto simp: registry_inv_def members_inv_def wal_inv_def)
  have whole: "file_answer d i (of_nat (length (contents d i))) [ReadChunk (contents d i) :: (u8, unit) read_event]"
    if "durable d i bs" for i bs
    unfolding file_answer_def crash_image_def using that
    by (intro exI [of _ "contents d i"] conjI exI [of _ "length (contents d i)"]) (simp_all add: durable_def)
  have "durable d m (encode_registry_manifest (registry_descriptors [b]))" using inv by (simp add: registry_inv_def)
  then have "file_answer d m (of_nat (length (contents d m))) [ReadChunk (contents d m) :: (u8, unit) read_event]"
    "file_answer d (ww_file w) (of_nat (length (contents d (ww_file w)))) [ReadChunk (contents d (ww_file w)) :: (u8, unit) read_event]"
    using whole log by blast+
  moreover have "name = manifest_name \<and> i = m \<or> name = member_name 0 \<and> i = ww_file w" if "entries d name = Some i" for name i
  proof -
    have "name \<in> {manifest_name, member_name 0}" using that entries(1) by blast
    then show ?thesis using that entries by auto
  qed
  ultimately show ?thesis
    using entries by (auto simp: registry_image_after_def whole_image_def Let_def)
qed

lemma sample_bootstrap_bytes [simp]: "bootstrap_record_bytes (preflight_of sample_table) = 211"
  by (simp add: bootstrap_record_bytes_def preflight_of_def sample_table_def bootstrap_payload_len_def checked_add_def
      checked_mul_def usize_max_def value_bytes_def saturating_add_def)

lemma sample_name: "wb_table_name sample_table = ''t''"
  by (simp add: sample_table_def)

lemma sample_valid:
  "validate_bootstrap_limits (length (wb_table_name sample_table)) (length (wb_column_name sample_table))
     (length (wb_values sample_table)) (wb_nullable sample_table) sample_limits = (Inr () :: 'io wal_error + unit)"
  by (simp add: validate_bootstrap_limits_def sample_table_def bootstrap_payload_len_def checked_add_def
      checked_mul_def usize_max_def value_bytes_def validate_record_limits_def sample_limits_def wal_limits_new_def
      saturating_add_def)

lemma sample_preflight:
  "preflight_registry_tables [preflight_of sample_table] sample_registry_limits = (Inr () :: 'io registry_error + unit)"
proof -
  have "decimal_digits 0 = 1" by (subst decimal_digits.simps) simp
  moreover have "first_duplicate [preflight_of sample_table] = None" by (simp add: first_duplicate_def)
  ultimately show ?thesis
    using sample_valid [where 'io = 'io] sample_bootstrap_bytes [unfolded preflight_of_def]
    by (simp add: sample_name preflight_registry_tables_def validate_registry_table_count_def sample_registry_limits_def
        registry_limits_new_def preflight_of_def generated_member_name_len_def saturating_add_def usize_max_def
        validate_manifest_size_def validate_registry_totals_def)
qed

lemma sample_destination: "registry_destination_name ''/w/reg'' = (Inr ''reg'' :: 'io registry_error + name)"
  by (simp add: registry_destination_name_def ends_with_def last_component_def Let_def)

lemma write_manifest_succeeds:
  assumes "\<forall>n. fault env n = None" and "\<not> too_long env manifest_name" and "entries d (resolve env manifest_name) = None"
  shows "\<exists>i d'. write_manifest env bytes d = (Inr i, d')"
  using assms by (simp add: write_manifest_def dir_create_def write_all_def file_sync_def dir_sync_def syscall_def tick_def)

lemma sample_registry_created:
  "\<exists>reg d. create_registry faultless ''/w/reg'' False [sample_table] sample_registry_limits one_file = (Inr reg, d) \<and>
     \<not> reg_poisoned reg \<and> reg_total_wal_bytes reg = 211 \<and> reg_total_records reg = 1"
proof -
  obtain payload where payload: "encode_bootstrap sample_table = Some payload" "length payload = 163"
    using sample_payload by blast
  define d4 where "d4 = tick (tick ((tick (tick one_file))\<lparr>entries := Map.empty\<rparr>))"
  have empty: "entries d4 = Map.empty" by (simp add: d4_def tick_def)
  have "\<exists>w d'. create_in_directory faultless (member_name 0) sample_table sample_limits d4 = (Inr w, d') \<and> \<not> ww_poisoned w"
    by (intro wal_create_succeeds [OF sample_ok payload(1)])
      (simp_all add: payload(2) sample_limits_def wal_limits_new_def faultless_def empty)
  then obtain w d5 where create: "create_in_directory faultless (member_name 0) sample_table sample_limits d4 = (Inr w, d5)" by blast
  have "manifest_name \<noteq> member_name 0" using member_name_safe [of 0] by (auto simp: safe_registry_member_def)
  then have "entries d5 manifest_name = None"
    using create_in_directory_fresh(2) [OF create] empty by (simp add: fresh_file_def faultless_def)
  then obtain m d6 where manifest: "write_manifest faultless (encode_registry_manifest (registry_descriptors [sample_table])) d5 = (Inr m, d6)"
    using write_manifest_succeeds [of faultless d5] by (fastforce simp: faultless_def)
  have sorted: "sort_bootstraps [sample_table] = [sample_table]" by (simp add: sort_bootstraps_def)
  have limits: "rl_per_table sample_registry_limits = sample_limits"
    by (simp add: sample_registry_limits_def registry_limits_new_def)
  have totals: "validate_registry_totals 211 (Suc 0) sample_registry_limits = Inr ()"
    by (simp add: validate_registry_totals_def sample_registry_limits_def registry_limits_new_def)
  have calls: "fault faultless n = None" for n by (simp add: faultless_def)
  have "saturating_add 0 211 = 211" by (simp add: saturating_add_def usize_max_def)
  then show ?thesis
    using create manifest empty
    by (simp add: create_registry_def Let_def limits totals sample_preflight sample_destination sorted parent_call_def make_directory_def syscall_def calls registry_descriptors_def
        flip: d4_def)
qed

lemma lower_t: "to_ascii_lowercase (CHR ''t'') = CHR ''t''"
  by code_simp

lemma sample_key: "table_key sample_table = ''t''"
  by (simp add: table_key_def sample_name lower_t)

lemma sample_registry_ok: "registry_limits_ok sample_registry_limits"
  by (simp add: registry_limits_ok_def sample_registry_limits_def registry_limits_new_def usize_max_def)

lemma sample_registry_logged:
  "\<exists>reg d. registry_life faultless [sample_table] sample_registry_limits reg ((\<lambda>_. [])(''t'' := [LogAppend [Some 5]])) d \<and>
     \<not> reg_poisoned reg"
proof -
  obtain reg d where run: "create_registry faultless ''/w/reg'' False [sample_table] sample_registry_limits one_file = (Inr reg, d)"
    and reg: "\<not> reg_poisoned reg" "reg_total_wal_bytes reg = 211" "reg_total_records reg = 1"
    using sample_registry_created by blast
  have id: "\<forall>n. resolve faultless n = n" by (simp add: faultless_def)
  obtain ws m where inv: "registry_inv [sample_table] sample_registry_limits reg (\<lambda>_. []) d ws m"
    using create_registry_inv(2) [OF run sample_registry_ok _ id] by (auto simp: sort_bootstraps_def)
  then obtain w where ws: "ws = [w]" by (cases ws) (auto simp: registry_inv_def)
  have limits: "rl_per_table sample_registry_limits = sample_limits" "reg_limits reg = sample_registry_limits"
    using inv by (simp_all add: registry_inv_def sample_registry_limits_def registry_limits_new_def)
  obtain p where log: "wal_inv sample_table sample_limits p w [] d" and writer: "reg_writers reg ''t'' = Some w"
    using inv limits by (auto simp: registry_inv_def members_inv_def ws sample_key)
  obtain payload where payload: "encode_bootstrap sample_table = Some payload" "length payload = 163"
    using sample_payload by blast
  have len: "length p = 163" using log payload by (auto simp: wal_inv_def log_start_def)
  have live: "\<not> ww_poisoned w" using inv reg by (auto simp: registry_inv_def ws split: if_splits)
  have calm: "\<forall>n\<ge>calls d. fault faultless n = None" by (simp add: faultless_def)
  have logged: "ops_logged sample_table sample_limits p ([] @ [LogAppend [Some 5]])"
    using sample_logged [OF len] by simp
  obtain w' d' where step: "wal_apply faultless (LogAppend [Some 5]) w d = (Inr (), w', d')"
    using wal_apply_succeeds [OF log sample_ok(2) calm live logged] by blast
  have bytes: "next_op_bytes w (LogAppend [Some 5]) = 65"
    using log by (simp add: wal_inv_def sample_table_def next_append_bytes_def saturating_add_def saturating_mul_def usize_max_def)
  have "reserve_record reg 65 = (Inr () :: unit io_error wal_commit_error + unit)"
    using reg limits by (simp add: reserve_record_def validate_registry_totals_def sample_registry_limits_def
        registry_limits_new_def saturating_add_def usize_max_def)
  then obtain reg' where commit: "registry_commit faultless ''t'' (LogAppend [Some 5]) reg d = (Inr (), reg', d')"
    and alive: "\<not> reg_poisoned reg'"
    using step bytes writer reg registry_commit_tracked [of reg "''t''" w faultless "LogAppend [Some 5]" d]
    by (auto simp: commit_member_record_def lower_t simp del: next_op_bytes.simps)
  have "eq_ignore_ascii_case ''t'' (wb_table_name sample_table)" by (simp add: eq_ignore_ascii_case_def sample_name)
  from registry_life.logged [OF registry_life.created [OF run] _ this _ commit] sample_fits alive
  show ?thesis by (auto simp: sample_key)
qed

theorem registry_recovers_acknowledged_witness:
  "\<exists>reg d. registry_life faultless [sample_table] sample_registry_limits reg ((\<lambda>_. [])(''t'' := [LogAppend [Some 5]])) d \<and>
     registry_image_after d (whole_image d) \<and>
     recover_registry ''/w/reg'' sample_registry_limits (whole_image d) = Inr [sample_table\<lparr>wb_values := [Some 5]\<rparr>]"
proof -
  obtain reg d where life: "registry_life faultless [sample_table] sample_registry_limits reg ((\<lambda>_. [])(''t'' := [LogAppend [Some 5]])) d"
    and alive: "\<not> reg_poisoned reg" using sample_registry_logged by blast
  have id: "\<forall>n. resolve faultless n = n" by (simp add: faultless_def)
  have ok: "\<forall>b \<in> set [sample_table]. bootstrap_ok b" "\<forall>b \<in> set [sample_table]. settings_of b = settings_of sample_table"
    by simp_all
  obtain ws m where "registry_inv [sample_table] sample_registry_limits reg ((\<lambda>_. [])(''t'' := [LogAppend [Some 5]])) d ws m"
    using registry_life_inv [OF life sample_registry_ok ok(1) id] by (auto simp: sort_bootstraps_def)
  from whole_image_after [OF this alive] have img: "registry_image_after d (whole_image d)" .
  obtain extras where "recover_registry ''/w/reg'' sample_registry_limits (whole_image d) =
      Inr (map2 (\<lambda>b extra. b\<lparr>wb_values := ops_effect (((\<lambda>_. [])(''t'' := [LogAppend [Some 5]])) (table_key b) @ extra) (wb_values b)\<rparr>)
        (sort_bootstraps [sample_table]) extras)"
    "length extras = 1" "concat extras = []"
    using registry_recovers_acknowledged [OF life id sample_registry_ok ok img sample_destination] alive by auto
  moreover from this have "extras = [[]]" by (cases extras) auto
  moreover have "sample_table\<lparr>wb_values := vs\<rparr> = sample_table\<lparr>wb_values := vs'\<rparr> \<longleftrightarrow> vs = vs'" for vs vs'
    by (simp add: sample_table_def)
  moreover have "wb_values sample_table = []" by (simp add: sample_table_def)
  ultimately have "recover_registry ''/w/reg'' sample_registry_limits (whole_image d) = Inr [sample_table\<lparr>wb_values := [Some 5]\<rparr>]"
    by (simp add: sort_bootstraps_def sample_key)
  with life img show ?thesis by blast
qed

end
