(* ===== verification/Batch_Value.thy ===== *)
theory Batch_Value
  imports Prelude "HOL-Library.List_Lexorder" "HOL-Library.Char_ord" "HOL-Library.Log_Nat"
begin

text \<open>
  The scalar values of the second engine (\<^verbatim>\<open>src/batch/value.rs\<close>): types, the SQL comparison
  (which has no answer for nulls and NaN), and the total order and hash used for grouping and sorting.
  A double is its 64-bit pattern; the operations of Rust on doubles that the file uses are written on
  the pattern.
\<close>

section \<open>Ordering\<close>

datatype ordering = OrdLess | OrdEqual | OrdGreater

fun ordering_reverse :: "ordering \<Rightarrow> ordering" where
  "ordering_reverse OrdLess = OrdGreater"
| "ordering_reverse OrdEqual = OrdEqual"
| "ordering_reverse OrdGreater = OrdLess"

definition order_cmp :: "'a::linorder \<Rightarrow> 'a \<Rightarrow> ordering" where
  "order_cmp x y = (if x < y then OrdLess else if x = y then OrdEqual else OrdGreater)"

lemma order_cmp_simps [simp]:
  "order_cmp x y = OrdLess \<longleftrightarrow> x < y" "order_cmp x y = OrdEqual \<longleftrightarrow> x = y"
  "order_cmp x y = OrdGreater \<longleftrightarrow> y < x" "order_cmp x x = OrdEqual"
  by (auto simp: order_cmp_def)

lemma order_cmp_reverse: "ordering_reverse (order_cmp x y) = order_cmp y x"
  by (auto simp: order_cmp_def)

lemma order_cmp_mono: "strict_mono f \<Longrightarrow> order_cmp (f x) (f y) = order_cmp x y"
  by (auto simp: order_cmp_def strict_mono_less strict_mono_eq)

section \<open>Doubles\<close>

type_synonym f64 = "64 word"

text \<open>The sign bit and the magnitude; exponent field and fraction of a magnitude.\<close>

definition f64_negative :: "f64 \<Rightarrow> bool" where
  "f64_negative x \<longleftrightarrow> 2 ^ 63 \<le> unat x"

definition f64_magnitude :: "f64 \<Rightarrow> nat" where
  "f64_magnitude x = unat x mod 2 ^ 63"

definition f64_is_nan :: "f64 \<Rightarrow> bool" where
  "f64_is_nan x \<longleftrightarrow> 2047 * 2 ^ 52 < f64_magnitude x"

text \<open>The significand and the power of two it is scaled by, in units of \<open>2 ^ (-1074)\<close>, the least
  positive double. An infinity gets a value beyond every finite double.\<close>

definition significand :: "nat \<Rightarrow> nat" where
  "significand m = (if m div 2 ^ 52 = 0 then m else 2 ^ 52 + m mod 2 ^ 52)"

definition scale :: "nat \<Rightarrow> nat" where
  "scale m = m div 2 ^ 52 - 1"

definition f64_units :: "nat \<Rightarrow> nat" where
  "f64_units m = significand m * 2 ^ scale m"

definition unit_bits :: nat where
  "unit_bits = 1074"

definition f64_value :: "f64 \<Rightarrow> int" where
  "f64_value x = (if f64_negative x then - int (f64_units (f64_magnitude x)) else int (f64_units (f64_magnitude x)))"

definition f64_partial_cmp :: "f64 \<Rightarrow> f64 \<Rightarrow> ordering option" where
  "f64_partial_cmp x y =
     (if f64_is_nan x \<or> f64_is_nan y then None else Some (order_cmp (f64_value x) (f64_value y)))"

definition f64_eq :: "f64 \<Rightarrow> f64 \<Rightarrow> bool" where
  "f64_eq x y \<longleftrightarrow> f64_partial_cmp x y = Some OrdEqual"

text \<open>\<open>total_cmp\<close> of the standard library: the patterns as signed integers, with the magnitude
  bits of a negative pattern flipped.\<close>

definition total_bits :: "f64 \<Rightarrow> i64" where
  "total_bits x = xor x (drop_bit 1 (signed_drop_bit 63 x))"

definition f64_total_cmp :: "f64 \<Rightarrow> f64 \<Rightarrow> ordering" where
  "f64_total_cmp x y = order_cmp (sint (total_bits x)) (sint (total_bits y))"

text \<open>\<open>trunc\<close> clears the bits of the fraction that stand for a fractional part.\<close>

definition f64_trunc :: "f64 \<Rightarrow> f64" where
  "f64_trunc x =
     (let e = f64_magnitude x div 2 ^ 52 in
      if e < 1023 then (if f64_negative x then 2 ^ 63 else 0)
      else if e < 1075 then x - of_nat (unat x mod 2 ^ (1075 - e))
      else x)"

text \<open>\<open>as i64\<close> rounds toward zero, saturates, and takes NaN to zero.\<close>

definition f64_as_i64 :: "f64 \<Rightarrow> i64" where
  "f64_as_i64 x =
     (if f64_is_nan x then 0
      else let n = int (f64_units (f64_magnitude x) div 2 ^ unit_bits);
               v = (if f64_negative x then - n else n) in
      word_of_int (max i64_min (min i64_max v)))"

text \<open>\<open>as f64\<close> rounds to the nearest double, ties to even.\<close>

definition rounded_significand :: "nat \<Rightarrow> nat" where
  "rounded_significand n =
     (let k = floorlog 2 n in
      if k \<le> 53 then n * 2 ^ (53 - k)
      else let s = k - 53; q = n div 2 ^ s; r = n mod 2 ^ s in
        if r > 2 ^ (s - 1) \<or> r = 2 ^ (s - 1) \<and> odd q then q + 1 else q)"

definition f64_of_nat :: "nat \<Rightarrow> nat" where
  "f64_of_nat n = (if n = 0 then 0 else (floorlog 2 n + 1021) * 2 ^ 52 + rounded_significand n)"

definition f64_of_i64 :: "i64 \<Rightarrow> f64" where
  "f64_of_i64 i =
     (if sint i < 0 then of_nat (2 ^ 63 + f64_of_nat (nat (- sint i))) else of_nat (f64_of_nat (nat (sint i))))"

section \<open>Values\<close>

datatype batch_type = TInt64 | TFloat64 | TBool | TString

definition to_ascii_uppercase :: "char \<Rightarrow> char" where
  "to_ascii_uppercase c = (if is_ascii_lowercase c then char_of (of_char c - 32 :: nat) else c)"

definition batch_type_parse :: "string \<Rightarrow> batch_type option" where
  "batch_type_parse s =
     (let name = map to_ascii_uppercase s in
      if name = ''INT64'' then Some TInt64
      else if name = ''FLOAT64'' then Some TFloat64
      else if name = ''BOOL'' \<or> name = ''BOOLEAN'' then Some TBool
      else if name = ''STRING'' then Some TString
      else None)"

fun batch_type_str :: "batch_type \<Rightarrow> string" where
  "batch_type_str TInt64 = ''Int64''"
| "batch_type_str TFloat64 = ''Float64''"
| "batch_type_str TBool = ''Bool''"
| "batch_type_str TString = ''String''"

text \<open>The derived order is that of the declaration.\<close>

fun batch_type_index :: "batch_type \<Rightarrow> nat" where
  "batch_type_index TInt64 = 0"
| "batch_type_index TFloat64 = 1"
| "batch_type_index TBool = 2"
| "batch_type_index TString = 3"

datatype scalar =
  VNull batch_type
| VInt64 i64
| VFloat64 f64
| VBool bool
| VString string

fun scalar_type :: "scalar \<Rightarrow> batch_type" where
  "scalar_type (VNull t) = t"
| "scalar_type (VInt64 _) = TInt64"
| "scalar_type (VFloat64 _) = TFloat64"
| "scalar_type (VBool _) = TBool"
| "scalar_type (VString _) = TString"

definition i64_upper_exclusive :: f64 where
  "i64_upper_exclusive = 0x43E0000000000000"

definition int_float_cmp :: "i64 \<Rightarrow> f64 \<Rightarrow> ordering option" where
  "int_float_cmp n x =
     (if f64_is_nan x then None
      else if f64_partial_cmp x i64_upper_exclusive \<in> {Some OrdGreater, Some OrdEqual} then Some OrdLess
      else if f64_partial_cmp x (f64_of_i64 (word_of_int i64_min)) = Some OrdLess then Some OrdGreater
      else let truncated = f64_as_i64 (f64_trunc x) in
      if order_cmp (sint n) (sint truncated) = OrdEqual
      then f64_partial_cmp (f64_of_i64 truncated) x
      else Some (order_cmp (sint n) (sint truncated)))"

fun sql_cmp :: "scalar \<Rightarrow> scalar \<Rightarrow> ordering option" where
  "sql_cmp (VNull _) _ = None"
| "sql_cmp _ (VNull _) = None"
| "sql_cmp (VInt64 a) (VInt64 b) = Some (order_cmp (sint a) (sint b))"
| "sql_cmp (VFloat64 a) (VFloat64 b) = f64_partial_cmp a b"
| "sql_cmp (VInt64 a) (VFloat64 b) = int_float_cmp a b"
| "sql_cmp (VFloat64 a) (VInt64 b) = map_option ordering_reverse (int_float_cmp b a)"
| "sql_cmp (VBool a) (VBool b) = Some (order_cmp a b)"
| "sql_cmp (VString a) (VString b) = Some (order_cmp a b)"
| "sql_cmp _ _ = None"

fun variant_index :: "scalar \<Rightarrow> u8" where
  "variant_index (VNull _) = 0"
| "variant_index (VInt64 _) = 1"
| "variant_index (VFloat64 _) = 2"
| "variant_index (VBool _) = 3"
| "variant_index (VString _) = 4"

definition float_cmp :: "f64 \<Rightarrow> f64 \<Rightarrow> ordering" where
  "float_cmp x y = (if f64_eq x y then OrdEqual else f64_total_cmp x y)"

definition canonical_float_bits :: "f64 \<Rightarrow> u64" where
  "canonical_float_bits x = (if f64_eq x 0 then 0 else x)"

fun scalar_cmp :: "scalar \<Rightarrow> scalar \<Rightarrow> ordering" where
  "scalar_cmp (VNull a) (VNull b) = order_cmp (batch_type_index a) (batch_type_index b)"
| "scalar_cmp (VInt64 a) (VInt64 b) = order_cmp (sint a) (sint b)"
| "scalar_cmp (VFloat64 a) (VFloat64 b) = float_cmp a b"
| "scalar_cmp (VBool a) (VBool b) = order_cmp a b"
| "scalar_cmp (VString a) (VString b) = order_cmp a b"
| "scalar_cmp a b = order_cmp (unat (variant_index a)) (unat (variant_index b))"

text \<open>What a value writes into a hasher: the index of its variant and its payload.\<close>

datatype hash_write = HashByte u8 | HashType batch_type | HashI64 i64 | HashU64 u64 | HashBool bool | HashStr string

fun scalar_hash :: "scalar \<Rightarrow> hash_write list" where
  "scalar_hash (VNull t) = [HashByte (variant_index (VNull t)), HashType t]"
| "scalar_hash (VInt64 v) = [HashByte (variant_index (VInt64 v)), HashI64 v]"
| "scalar_hash (VFloat64 v) = [HashByte (variant_index (VFloat64 v)), HashU64 (canonical_float_bits v)]"
| "scalar_hash (VBool v) = [HashByte (variant_index (VBool v)), HashBool v]"
| "scalar_hash (VString v) = [HashByte (variant_index (VString v)), HashStr v]"

section \<open>Magnitudes\<close>

lemma f64_units_Suc: "f64_units m < f64_units (Suc m)"
proof -
  let ?e = "m div 2 ^ 52" and ?f = "m mod 2 ^ 52"
  have m: "m = ?e * 2 ^ 52 + ?f" by simp
  have f: "?f < 2 ^ 52" by simp
  show ?thesis
  proof (cases "Suc ?f = 2 ^ 52")
    case True
    then have "Suc m = Suc ?e * 2 ^ 52" using m by simp
    then have next': "Suc m div 2 ^ 52 = Suc ?e" "Suc m mod 2 ^ 52 = 0"
      by (simp_all only: nonzero_mult_div_cancel_right mod_mult_self2_is_0) simp
    show ?thesis
    proof (cases ?e)
      case 0
      then show ?thesis using next' m by (simp add: f64_units_def significand_def scale_def)
    next
      case (Suc e)
      then show ?thesis using next' True by (simp add: f64_units_def significand_def scale_def)
    qed
  next
    case False
    then have lt: "Suc ?f < 2 ^ 52" using f by simp
    then have next': "Suc m div 2 ^ 52 = ?e" "Suc m mod 2 ^ 52 = Suc ?f" by (simp_all add: div_Suc mod_Suc)
    then show ?thesis by (simp add: f64_units_def significand_def scale_def)
  qed
qed

lemma f64_units_mono: "strict_mono f64_units"
  using f64_units_Suc by (simp add: strict_mono_Suc_iff)

lemma f64_units_0 [simp]: "f64_units 0 = 0"
  by (simp add: f64_units_def significand_def)

lemma f64_units_eq [simp]: "f64_units m = f64_units n \<longleftrightarrow> m = n"
  by (rule strict_mono_eq [OF f64_units_mono])

lemma f64_units_less [simp]: "f64_units m < f64_units n \<longleftrightarrow> m < n"
  by (rule strict_mono_less [OF f64_units_mono])

lemma f64_units_eq_0 [simp]: "f64_units m = 0 \<longleftrightarrow> m = 0"
  using f64_units_eq [of m 0] by simp

lemma f64_parts: "unat x = f64_magnitude x + (if f64_negative x then 2 ^ 63 else 0)"
proof -
  have "unat x < 2 ^ 64" using unsigned_less [of x] by simp
  then show ?thesis by (auto simp: f64_magnitude_def f64_negative_def mod_if)
qed

lemma f64_parts_eq: "f64_magnitude x = f64_magnitude y \<Longrightarrow> f64_negative x = f64_negative y \<Longrightarrow> x = y"
  using f64_parts [of x] f64_parts [of y] by (simp add: word_unat_eq_iff)

lemma f64_magnitude_less: "f64_magnitude x < 2 ^ 63"
  by (simp add: f64_magnitude_def)

lemma int_eq_minus: "int a = - int b \<longleftrightarrow> a = 0 \<and> b = 0" "- int a = int b \<longleftrightarrow> a = 0 \<and> b = 0"
  "- int a < int b \<longleftrightarrow> 0 < a \<or> 0 < b" "\<not> int a < - int b"
  by linarith+

lemma f64_units_pos [simp]: "0 < f64_units m \<longleftrightarrow> 0 < m"
  using f64_units_less [of 0 m] by simp

lemma f64_value_eq:
  "f64_value x = f64_value y \<longleftrightarrow> x = y \<or> f64_magnitude x = 0 \<and> f64_magnitude y = 0"
  using f64_parts_eq [of x y] by (auto simp: f64_value_def int_eq_minus)

section \<open>The total order of doubles\<close>

lemma bit_63_negative: "bit (x :: f64) 63 \<longleftrightarrow> f64_negative x"
proof -
  have "unat x < 2 ^ 64" using unsigned_less [of x] by simp
  then have "unat x div 2 ^ 63 = (if 2 ^ 63 \<le> unat x then 1 else 0)"
    by (auto intro: div_nat_eqI)
  then have "odd (unat x div 2 ^ 63) \<longleftrightarrow> 2 ^ 63 \<le> unat x" by simp
  moreover have "bit x 63 \<longleftrightarrow> bit (unat x) 63" by (simp add: bit_unsigned_iff)
  ultimately show ?thesis by (simp add: f64_negative_def bit_iff_odd)
qed

lemma signed_drop_63: "signed_drop_bit 63 (x :: f64) = (if f64_negative x then - 1 else 0)"
proof (rule bit_word_eqI)
  fix n assume "n < LENGTH(64)"
  then have "bit (signed_drop_bit 63 x) n \<longleftrightarrow> bit x 63"
    by (cases n) (simp_all add: bit_signed_drop_bit_iff)
  then show "bit (signed_drop_bit 63 x) n = bit (if f64_negative x then - 1 else 0 :: f64) n"
    using \<open>n < LENGTH(64)\<close> by (simp add: bit_63_negative)
qed

lemma sint_total_bits:
  "sint (total_bits x) = (if f64_negative x then - 1 - int (f64_magnitude x) else int (f64_magnitude x))"
proof (cases "f64_negative x")
  case True
  have "drop_bit 1 (- 1) = (NOT 9223372036854775808 :: u64)" by code_simp
  then have "total_bits x = xor x (NOT 9223372036854775808)" by (simp only: total_bits_def signed_drop_63 True if_True)
  then have "xor (total_bits x) 9223372036854775808 = NOT x"
    by (simp add: xor.assoc bit.xor_compl_right)
  then have "sint (total_bits x) = uint (NOT x) - 9223372036854775808"
    using uint_flip_sign [of "total_bits x"] by simp
  also have "\<dots> = - 1 - int (f64_magnitude x)"
    using arg_cong [OF f64_parts [of x], of int] True by (simp add: uint_not mask_eq_exp_minus_1)
  finally show ?thesis using True by simp
next
  case False
  then have "sint (total_bits x) = uint (x + 9223372036854775808) - 9223372036854775808"
    using uint_flip_sign [of x] by (simp add: total_bits_def signed_drop_63 flip_sign_bit_add)
  then show ?thesis
    using arg_cong [OF f64_parts [of x], of int] f64_magnitude_less [of x] False by (simp add: uint_word_ariths)
qed

text \<open>The comparison used for grouping and sorting is that of integer keys: both zeros have the key
  zero, and every NaN pattern its own.\<close>

definition float_key :: "f64 \<Rightarrow> int" where
  "float_key x = (if f64_magnitude x = 0 then 0 else sint (total_bits x))"

lemma float_key_eq: "float_key x = float_key y \<longleftrightarrow> x = y \<or> f64_magnitude x = 0 \<and> f64_magnitude y = 0"
  using f64_parts_eq [of x y] by (auto simp: float_key_def sint_total_bits split: if_splits)

lemma f64_eq_iff:
  "f64_eq x y \<longleftrightarrow> \<not> f64_is_nan x \<and> \<not> f64_is_nan y \<and> (x = y \<or> f64_magnitude x = 0 \<and> f64_magnitude y = 0)"
  by (auto simp: f64_eq_def f64_partial_cmp_def f64_value_eq)

lemma nan_magnitude: "f64_is_nan x \<Longrightarrow> f64_magnitude x \<noteq> 0"
  by (auto simp: f64_is_nan_def)

lemma float_cmp_key: "float_cmp x y = order_cmp (float_key x) (float_key y)"
proof (cases "f64_eq x y")
  case True
  then have "float_key x = float_key y" by (simp add: f64_eq_iff float_key_eq)
  then show ?thesis using True by (simp add: float_cmp_def)
next
  case False
  then have "x = y \<or> \<not> (f64_magnitude x = 0 \<and> f64_magnitude y = 0)"
    by (auto simp: f64_eq_iff dest: nan_magnitude)
  then show ?thesis using False
    by (auto simp: float_cmp_def f64_total_cmp_def float_key_def order_cmp_def sint_total_bits)
qed

lemma magnitude_zero [simp]: "f64_magnitude 0 = 0"
  by (simp add: f64_magnitude_def)

lemma canonical_float_bits_alt: "canonical_float_bits x = (if f64_magnitude x = 0 then 0 else x)"
proof -
  have "f64_eq x 0 \<longleftrightarrow> f64_magnitude x = 0" by (auto simp: f64_eq_iff f64_is_nan_def)
  then show ?thesis by (simp add: canonical_float_bits_def)
qed

lemma canonical_bits_eq: "canonical_float_bits x = canonical_float_bits y \<longleftrightarrow> float_key x = float_key y"
proof (cases "f64_magnitude x = 0"; cases "f64_magnitude y = 0")
  assume "f64_magnitude x = 0" "f64_magnitude y \<noteq> 0"
  moreover from this have "y \<noteq> 0" by auto
  ultimately show ?thesis by (auto simp: canonical_float_bits_alt float_key_eq)
next
  assume "f64_magnitude x \<noteq> 0" "f64_magnitude y = 0"
  moreover from this have "x \<noteq> 0" by auto
  ultimately show ?thesis by (auto simp: canonical_float_bits_alt float_key_eq)
qed (simp_all add: canonical_float_bits_alt float_key_eq)

text \<open>Where both are numbers, the order agrees with the numeric one.\<close>

lemma float_cmp_numeric:
  assumes "\<not> f64_is_nan x" and "\<not> f64_is_nan y"
  shows "f64_partial_cmp x y = Some (float_cmp x y)"
  using assms
  by (auto simp: f64_partial_cmp_def float_cmp_key float_key_def sint_total_bits f64_value_def order_cmp_def
      int_eq_minus)

section \<open>Keys of values\<close>

text \<open>A value compares as its variant and, within a variant, the key of its payload.\<close>

fun scalar_key :: "scalar \<Rightarrow> int" where
  "scalar_key (VNull t) = int (batch_type_index t)"
| "scalar_key (VInt64 v) = sint v"
| "scalar_key (VFloat64 v) = float_key v"
| "scalar_key (VBool v) = of_bool v"
| "scalar_key (VString v) = 0"

fun scalar_text :: "scalar \<Rightarrow> string" where
  "scalar_text (VString v) = v"
| "scalar_text _ = []"

lemma batch_type_index_inj [simp]: "batch_type_index s = batch_type_index t \<longleftrightarrow> s = t"
  by (cases s; cases t) simp_all

lemma scalar_cmp_key:
  "scalar_cmp a b =
     (if variant_index a \<noteq> variant_index b then order_cmp (unat (variant_index a)) (unat (variant_index b))
      else if scalar_key a \<noteq> scalar_key b then order_cmp (scalar_key a) (scalar_key b)
      else order_cmp (scalar_text a) (scalar_text b))"
  by (cases a; cases b) (auto simp: order_cmp_def float_cmp_key sint_inj_i64 less_bool_def)

lemma scalar_hash_eq:
  "scalar_hash a = scalar_hash b \<longleftrightarrow>
     variant_index a = variant_index b \<and> scalar_key a = scalar_key b \<and> scalar_text a = scalar_text b"
  by (cases a; cases b) (auto simp: canonical_bits_eq dest: signed_word_eqI)

lemma scalar_cmp_equal: "scalar_cmp a b = OrdEqual \<longleftrightarrow> scalar_hash a = scalar_hash b"
  by (auto simp: scalar_cmp_key scalar_hash_eq word_unat_eq_iff)

lemma scalar_cmp_reverse: "ordering_reverse (scalar_cmp a b) = scalar_cmp b a"
  by (auto simp: scalar_cmp_key order_cmp_reverse)

lemma scalar_cmp_trans:
  "scalar_cmp a b \<noteq> OrdGreater \<Longrightarrow> scalar_cmp b c \<noteq> OrdGreater \<Longrightarrow> scalar_cmp a c \<noteq> OrdGreater"
  by (auto simp: scalar_cmp_key not_less word_unat_eq_iff split: if_splits)

text \<open>C32: Values form a total preorder, as sorting and grouping need: the comparison of \<open>Ord\<close> is
  antisymmetric up to equality and transitive, equality is an equivalence, and two values are equal
  exactly when they write the same bytes into a hasher. This holds for every double: both zeros are
  one value and every NaN pattern is its own.\<close>

theorem scalar_order_lawful:
  "scalar_cmp a a = OrdEqual \<and>
   scalar_cmp b a = ordering_reverse (scalar_cmp a b) \<and>
   (scalar_cmp a b = OrdEqual \<longleftrightarrow> scalar_hash a = scalar_hash b) \<and>
   (scalar_cmp a b \<noteq> OrdGreater \<longrightarrow> scalar_cmp b c \<noteq> OrdGreater \<longrightarrow> scalar_cmp a c \<noteq> OrdGreater)"
  using scalar_cmp_equal [of a a] scalar_cmp_trans [of a b c]
  by (auto simp: scalar_cmp_reverse scalar_cmp_equal)

theorem scalar_order_lawful_witness:
  "scalar_cmp (VFloat64 0) (VFloat64 0x8000000000000000) = OrdEqual \<and>
   scalar_hash (VFloat64 0) = scalar_hash (VFloat64 0x8000000000000000) \<and>
   scalar_cmp (VFloat64 0) (VString ''a'') \<noteq> OrdGreater"
proof -
  have "scalar_cmp (VFloat64 0) (VFloat64 0x8000000000000000) = OrdEqual"
    by (simp add: float_cmp_key float_key_def f64_magnitude_def)
  moreover have "scalar_cmp (VFloat64 0x8000000000000000) (VString ''a'') \<noteq> OrdGreater" by simp
  ultimately show ?thesis
    using scalar_order_lawful [of "VFloat64 0" "VFloat64 0x8000000000000000" "VString ''a''"] by simp
qed

section \<open>Integers against doubles\<close>

lemma significand_less: "significand m < 2 ^ 53"
proof -
  have "m mod 2 ^ 52 < 2 ^ 52" by simp
  moreover have "m div 2 ^ 52 = 0 \<Longrightarrow> m < 2 ^ 52" by (simp add: div_eq_0_iff)
  ultimately show ?thesis by (auto simp: significand_def)
qed

lemma f64_units_composed:
  assumes "2 ^ 52 \<le> s" and "s \<le> 2 ^ 53"
  shows "f64_units ((k + 1021) * 2 ^ 52 + s) = s * 2 ^ (k + 1021)"
proof (cases "s = 2 ^ 53")
  case True
  then have "(k + 1021) * 2 ^ 52 + s = (k + 1023) * 2 ^ 52" by simp
  then show ?thesis by (simp add: f64_units_def significand_def scale_def True power_add)
next
  case False
  with assms have "s - 2 ^ 52 < 2 ^ 52" by simp
  moreover have "(k + 1021) * 2 ^ 52 + s = (k + 1022) * 2 ^ 52 + (s - 2 ^ 52)" using assms by simp
  ultimately have "((k + 1021) * 2 ^ 52 + s) div 2 ^ 52 = k + 1022"
    "((k + 1021) * 2 ^ 52 + s) mod 2 ^ 52 = s - 2 ^ 52"
    by (simp_all only: div_mult_self3 mod_mult_self3 div_less mod_less)
  then show ?thesis using assms by (simp add: f64_units_def significand_def scale_def)
qed

lemma floorlog_bounds: "0 < n \<Longrightarrow> 2 ^ (floorlog 2 n - 1) \<le> n \<and> n < 2 ^ floorlog 2 n"
  using floorlog_bounds [of n 2] by simp

text \<open>An integer whose significant bits fit the significand converts exactly.\<close>

lemma f64_of_nat_exact:
  assumes "floorlog 2 n \<le> 53 \<or> 2 ^ (floorlog 2 n - 53) dvd n"
  shows "f64_units (f64_of_nat n) = n * 2 ^ unit_bits"
proof (cases "n = 0")
  case False
  define k where "k = floorlog 2 n"
  have n: "2 ^ (k - 1) \<le> n" "n < 2 ^ k" using floorlog_bounds [of n] False by (simp_all add: k_def)
  have k: "0 < k" using n False by (cases k) simp_all
  show ?thesis
  proof (cases "k \<le> 53")
    case True
    let ?s = "n * 2 ^ (53 - k)"
    have "2 ^ (k - 1) * 2 ^ (53 - k) \<le> ?s" "?s < 2 ^ k * 2 ^ (53 - k)" using n by simp_all
    then have s: "2 ^ 52 \<le> ?s" "?s \<le> 2 ^ 53" using True k by (simp_all flip: power_add)
    have "f64_of_nat n = (k + 1021) * 2 ^ 52 + ?s"
      using False True by (simp add: f64_of_nat_def rounded_significand_def k_def [symmetric])
    then have "f64_units (f64_of_nat n) = ?s * 2 ^ (k + 1021)"
      by (simp only: f64_units_composed [OF s])
    then show ?thesis using True by (simp add: unit_bits_def mult.assoc flip: power_add)
  next
    case large: False
    define j where "j = k - 53"
    have kj: "k = 53 + j" using large by (simp add: j_def)
    let ?q = "n div 2 ^ j"
    have dvd: "2 ^ j dvd n" using assms large by (simp add: k_def j_def)
    then have q: "n = ?q * 2 ^ j" by simp
    have "2 ^ (k - 1) = 2 ^ 52 * (2 ^ j :: nat)" "2 ^ k = 2 ^ 53 * (2 ^ j :: nat)"
      by (simp_all add: kj power_add)
    then have s: "2 ^ 52 \<le> ?q" "?q \<le> 2 ^ 53"
      using n by (simp_all add: less_eq_div_iff_mult_less_eq div_less_iff_less_mult less_imp_le)
    have "rounded_significand n = ?q"
      using large dvd by (simp add: rounded_significand_def k_def [symmetric] j_def [symmetric] Let_def dvd_eq_mod_eq_0)
    then have "f64_of_nat n = (k + 1021) * 2 ^ 52 + ?q"
      using False by (simp add: f64_of_nat_def k_def [symmetric])
    then have "f64_units (f64_of_nat n) = ?q * 2 ^ (k + 1021)" by (simp only: f64_units_composed [OF s])
    also have "k + 1021 = j + 1074" by (simp add: kj)
    also have "?q * 2 ^ (j + 1074) = ?q * 2 ^ j * 2 ^ 1074" by (simp only: power_add mult.assoc)
    finally show ?thesis using q by (simp add: unit_bits_def)
  qed
qed (simp add: f64_of_nat_def)

text \<open>The integral part of a magnitude, kept by \<open>trunc\<close>, fits the significand.\<close>

lemma integral_part_exact:
  assumes n_def: "n = f64_units m div 2 ^ unit_bits"
  shows "floorlog 2 n \<le> 53 \<or> 2 ^ (floorlog 2 n - 53) dvd n"
proof (cases "scale m \<le> 1074")
  case True
  have "n \<le> significand m"
  proof -
    have "f64_units m \<le> significand m * 2 ^ 1074"
      unfolding f64_units_def using True by (intro mult_le_mono2 power_increasing) simp_all
    then have "n \<le> significand m * 2 ^ 1074 div 2 ^ 1074"
      unfolding n_def unit_bits_def by (rule div_le_mono)
    then show ?thesis by simp
  qed
  also have "\<dots> < 2 ^ 53" by (rule significand_less)
  finally show ?thesis by (simp add: floorlog_leI)
next
  case False
  define j where "j = scale m - 1074"
  have "scale m = j + 1074" using False by (simp add: j_def)
  then have n: "n = significand m * 2 ^ j"
    by (simp only: n_def unit_bits_def f64_units_def power_add) (simp only: mult.assoc [symmetric], simp)
  show ?thesis
  proof (cases "significand m = 0")
    case True
    then show ?thesis by (simp add: n floorlog_def)
  next
    case False
    have "floorlog 2 (significand m) \<le> 53" by (rule floorlog_leI [OF significand_less]) simp_all
    then have "floorlog 2 n - 53 \<le> j" using False by (simp add: n)
    then have "(2::nat) ^ (floorlog 2 n - 53) dvd 2 ^ j" by (rule le_imp_power_dvd)
    then show ?thesis by (simp add: n)
  qed
qed

lemma scaled_div: "a * 2 ^ e div 2 ^ (e + k) = a div (2 ^ k :: nat)"
  by (simp add: power_add mult.commute)

lemma trunc_cases:
  assumes "e = f64_magnitude x div 2 ^ 52" and "1023 \<le> e" and "e < 1075" and "m = f64_magnitude x - f64_magnitude x mod 2 ^ (1075 - e)"
  shows "f64_magnitude (f64_trunc x) = m \<and> f64_negative (f64_trunc x) = f64_negative x"
proof -
  let ?k = "1075 - e"
  have "unat x mod 2 ^ ?k = f64_magnitude x mod 2 ^ ?k"
  proof -
    have "(2::nat) ^ ?k dvd 2 ^ 63" using assms(2) by (intro le_imp_power_dvd) simp
    then show ?thesis by (simp add: f64_magnitude_def mod_mod_cancel)
  qed
  moreover have "f64_trunc x = x - of_nat (unat x mod 2 ^ ?k)"
    using assms(1-3) by (simp add: f64_trunc_def Let_def)
  ultimately have t: "f64_trunc x = x - of_nat (f64_magnitude x mod 2 ^ ?k)" by simp
  have le: "f64_magnitude x mod 2 ^ ?k \<le> f64_magnitude x" by simp
  then have le': "f64_magnitude x mod 2 ^ ?k \<le> unat x"
    unfolding f64_parts [of x] by (rule trans_le_add1)
  have "unat (of_nat (f64_magnitude x mod 2 ^ ?k) :: f64) = f64_magnitude x mod 2 ^ ?k"
  proof -
    have "unat x < 2 ^ 64" using unsigned_less [of x] by simp
    then show ?thesis using le' by (simp add: unat_of_nat)
  qed
  then have "unat (f64_trunc x) = unat x - f64_magnitude x mod 2 ^ ?k"
    using le' by (simp add: t unat_sub word_le_nat_alt)
  then have "unat (f64_trunc x) = m + (if f64_negative x then 2 ^ 63 else 0)"
    using le unfolding f64_parts [of x] assms(4) by (simp only: diff_add_assoc2)
  moreover have "m < 2 ^ 63" using f64_magnitude_less [of x] by (simp add: assms(4))
  ultimately show ?thesis
    by (auto simp: f64_magnitude_def [of "f64_trunc x"] f64_negative_def [of "f64_trunc x"])
qed

lemma trunc_integral:
  "f64_negative (f64_trunc x) = f64_negative x \<and>
   f64_units (f64_magnitude (f64_trunc x)) div 2 ^ unit_bits = f64_units (f64_magnitude x) div 2 ^ unit_bits"
proof -
  define m where "m = f64_magnitude x"
  define e where "e = m div 2 ^ 52"
  consider "e < 1023" | "1023 \<le> e" "e < 1075" | "1075 \<le> e" by linarith
  then show ?thesis
  proof cases
    case 1
    then have "f64_trunc x = (if f64_negative x then 2 ^ 63 else 0)"
      by (simp add: f64_trunc_def e_def m_def Let_def)
    then have "f64_negative (f64_trunc x) = f64_negative x" "f64_magnitude (f64_trunc x) = 0"
      by (auto simp: f64_negative_def f64_magnitude_def)
    moreover have "f64_units m < 2 ^ unit_bits"
    proof -
      have "f64_units m < 2 ^ 53 * 2 ^ scale m"
        unfolding f64_units_def by (intro mult_strict_right_mono significand_less) simp
      also have "\<dots> = 2 ^ (53 + scale m)" by (simp only: power_add)
      also have "\<dots> \<le> 2 ^ unit_bits"
        using 1 by (intro power_increasing) (simp_all add: scale_def e_def unit_bits_def)
      finally show ?thesis .
    qed
    ultimately show ?thesis by (simp add: m_def)
  next
    case 2
    define k where "k = 1075 - e"
    define f where "f = m mod 2 ^ 52"
    have m: "m = e * 2 ^ 52 + f" by (simp add: e_def f_def)
    have k: "k \<le> 52" "1074 = (e - 1) + k" using 2 by (simp_all add: k_def)
    have dvd: "(2::nat) ^ k dvd 2 ^ 52" using k by (intro le_imp_power_dvd)
    then have mf: "m mod 2 ^ k = f mod 2 ^ k" by (simp add: f_def mod_mod_cancel)
    define m' where "m' = m - m mod 2 ^ k"
    have f: "f < 2 ^ 52" by (simp add: f_def)
    have "m' = e * 2 ^ 52 + (f - f mod 2 ^ k)" by (simp add: m'_def mf) (simp add: m)
    moreover have "f - f mod 2 ^ k < 2 ^ 52" using f by (rule le_less_trans [OF diff_le_self])
    ultimately have m': "m' div 2 ^ 52 = e" "m' mod 2 ^ 52 = f - f mod 2 ^ k"
      by (simp_all only: div_mult_self3 mod_mult_self3 div_less mod_less)
    have e: "m div 2 ^ 52 = e" "0 < e" using 2 by (simp_all add: e_def)
    have sig: "significand m = 2 ^ 52 + f" "significand m' = 2 ^ 52 + (f - f mod 2 ^ k)"
      "scale m = e - 1" "scale m' = e - 1"
      using e m' by (simp_all only: significand_def scale_def f_def) simp_all
    have "(2 ^ 52 + f) mod 2 ^ k = f mod 2 ^ k" using dvd by (simp add: mod_add_left_eq dvd_eq_mod_eq_0 flip: mod_add_left_eq)
    then have "significand m' = significand m - significand m mod 2 ^ k" by (simp add: sig)
    then have "significand m' div 2 ^ k = significand m div 2 ^ k"
      by (simp add: minus_mod_eq_mult_div)
    then have "f64_units m' div 2 ^ unit_bits = f64_units m div 2 ^ unit_bits"
      by (simp only: f64_units_def sig(3,4) unit_bits_def k(2) scaled_div)
    moreover have "f64_magnitude (f64_trunc x) = m' \<and> f64_negative (f64_trunc x) = f64_negative x"
      by (rule trunc_cases [OF _ 2]) (simp_all add: e_def m_def m'_def k_def)
    ultimately show ?thesis by (simp add: m_def)
  next
    case 3
    then have "f64_trunc x = x" by (simp add: f64_trunc_def e_def m_def Let_def)
    then show ?thesis by simp
  qed
qed

text \<open>An integer compares with a double as it does with the double's integral part, unless they are
  equal.\<close>

definition integral_part :: "f64 \<Rightarrow> int" where
  "integral_part x =
     (let n = int (f64_units (f64_magnitude x) div 2 ^ unit_bits) in if f64_negative x then - n else n)"

lemma integral_part_compares:
  assumes "n \<noteq> integral_part x"
  shows "order_cmp (n * 2 ^ unit_bits) (f64_value x) = order_cmp n (integral_part x)"
proof -
  define u where "u = int (f64_units (f64_magnitude x))"
  define U :: int where "U = 2 ^ unit_bits"
  have U: "0 < U" by (simp add: U_def)
  have part: "int (f64_units (f64_magnitude x) div 2 ^ unit_bits) = u div U"
    by (simp add: u_def U_def zdiv_int)
  define q where "q = u div U"
  have q: "q * U \<le> u" "u < (q + 1) * U"
    unfolding q_def distrib_right mult_1_left
    using pos_mod_sign [OF U, of u] pos_mod_bound [OF U, of u] div_mult_mod_eq [of u U] by linarith+
  have v: "f64_value x = (if f64_negative x then - u else u)" by (simp add: f64_value_def u_def)
  have p: "integral_part x = (if f64_negative x then - q else q)"
    by (simp add: integral_part_def Let_def part q_def)
  from assms consider "n < integral_part x" | "integral_part x < n" by linarith
  then show ?thesis
  proof cases
    case 1
    have "n * U < f64_value x"
    proof (cases "f64_negative x")
      case True
      then have "n * U \<le> (- (q + 1)) * U" using 1 p U by (intro mult_right_mono) simp_all
      also have "\<dots> = - ((q + 1) * U)" by (rule mult_minus_left)
      finally show ?thesis using q by (simp only: v True if_True)
    next
      case False
      then have "n * U < q * U" using 1 p by (intro mult_strict_right_mono U) simp
      then show ?thesis using q False v by simp
    qed
    then show ?thesis using 1 by (simp add: order_cmp_def U_def)
  next
    case 2
    have "f64_value x < n * U"
    proof (cases "f64_negative x")
      case True
      then have "- q * U < n * U" using 2 p by (intro mult_strict_right_mono U) simp
      then show ?thesis using q True v by simp
    next
      case False
      then have "(q + 1) * U \<le> n * U" using 2 p U by (intro mult_right_mono) simp_all
      then show ?thesis using q False v by simp
    qed
    then show ?thesis using 2 by (auto simp: order_cmp_def U_def)
  qed
qed

lemma integral_part_between:
  "if f64_negative x then integral_part x \<le> 0 \<and> f64_value x \<le> integral_part x * 2 ^ unit_bits
   else 0 \<le> integral_part x \<and> integral_part x * 2 ^ unit_bits \<le> f64_value x"
proof -
  let ?u = "f64_units (f64_magnitude x)"
  have "int (?u div 2 ^ unit_bits * 2 ^ unit_bits) \<le> int ?u"
    by (simp only: of_nat_le_iff div_times_less_eq_dividend)
  then have "int (?u div 2 ^ unit_bits) * 2 ^ unit_bits \<le> int ?u" by (simp only: of_nat_mult of_nat_power of_nat_numeral)
  then show ?thesis by (simp add: integral_part_def f64_value_def Let_def)
qed

lemma as_i64_trunc:
  assumes "\<not> f64_is_nan x" and "- (2 ^ 63) \<le> integral_part x" and "integral_part x < 2 ^ 63"
  shows "sint (f64_as_i64 (f64_trunc x)) = integral_part x"
proof -
  have "\<not> f64_is_nan (f64_trunc x)"
  proof
    assume nan: "f64_is_nan (f64_trunc x)"
    let ?u = "f64_units (f64_magnitude (f64_trunc x))"
    have "f64_units (2047 * 2 ^ 52) < ?u" using nan by (simp add: f64_is_nan_def)
    then have "f64_units (2047 * 2 ^ 52) div 2 ^ unit_bits \<le> ?u div 2 ^ unit_bits"
      by (intro div_le_mono less_imp_le)
    moreover have "f64_units (2047 * 2 ^ 52) = 2 ^ 1024 * 2 ^ unit_bits"
      by (simp add: f64_units_def significand_def scale_def unit_bits_def)
    ultimately have "2 ^ 1024 \<le> ?u div 2 ^ unit_bits" by simp
    then have "(2 ^ 1024 :: nat) \<le> f64_units (f64_magnitude x) div 2 ^ unit_bits"
      using trunc_integral [of x] by argo
    moreover have "(2 ^ 64 :: nat) \<le> 2 ^ 1024" by simp
    ultimately have "(2 ^ 64 :: nat) \<le> f64_units (f64_magnitude x) div 2 ^ unit_bits"
      by (rule order_trans [rotated])
    then show False using assms(2,3) by (simp add: integral_part_def Let_def split: if_splits)
  qed
  then have "f64_as_i64 (f64_trunc x) = word_of_int (max i64_min (min i64_max (integral_part x)))"
    using trunc_integral [of x] by (simp add: f64_as_i64_def integral_part_def Let_def)
  moreover have "max i64_min (min i64_max (integral_part x)) = integral_part x"
    using assms(2,3) by (simp add: i64_min_def i64_max_def)
  ultimately show ?thesis
    using assms(2,3) by (simp add: sint_word_of_int_i64 i64_min_def i64_max_def)
qed

lemma upper_value: "f64_value i64_upper_exclusive = 2 ^ 63 * 2 ^ unit_bits" "\<not> f64_is_nan i64_upper_exclusive"
  by (simp_all add: i64_upper_exclusive_def f64_value_def f64_negative_def f64_magnitude_def f64_units_def
      significand_def scale_def unit_bits_def f64_is_nan_def)

text \<open>An \<open>i64\<close> that is the integral part of a double converts to a double of the same value.\<close>

lemma f64_of_i64_value:
  assumes "floorlog 2 (nat \<bar>sint n\<bar>) \<le> 53 \<or> 2 ^ (floorlog 2 (nat \<bar>sint n\<bar>) - 53) dvd nat \<bar>sint n\<bar>"
  shows "f64_value (f64_of_i64 n) = sint n * 2 ^ unit_bits \<and> \<not> f64_is_nan (f64_of_i64 n)"
proof -
  define m where "m = f64_of_nat (nat \<bar>sint n\<bar>)"
  have units: "f64_units m = nat \<bar>sint n\<bar> * 2 ^ unit_bits" unfolding m_def by (rule f64_of_nat_exact [OF assms])
  have "nat \<bar>sint n\<bar> \<le> 2 ^ 63"
    using sint_i64_bounds [of n] by (auto simp: i64_min_def i64_max_def nat_le_iff)
  then have "f64_units m \<le> 2 ^ 63 * 2 ^ unit_bits" unfolding units by (rule mult_le_mono1)
  also have "\<dots> = f64_units (1086 * 2 ^ 52)"
    by (simp add: f64_units_def significand_def scale_def unit_bits_def)
  finally have small: "m \<le> 1086 * 2 ^ 52" by (simp only: strict_mono_less_eq [OF f64_units_mono])
  have "f64_of_i64 n = of_nat (m + (if sint n < 0 then 2 ^ 63 else 0))"
    by (simp add: f64_of_i64_def m_def add.commute)
  moreover have "a + (if c then 2 ^ 63 else 0) < 2 ^ LENGTH(64)" if "a \<le> 1086 * 2 ^ 52" for a :: nat and c
    using that by simp
  note this [OF small]
  ultimately have bits: "unat (f64_of_i64 n) = m + (if sint n < 0 then 2 ^ 63 else 0)"
    by (simp only: unat_of_nat mod_less)
  then have parts: "f64_negative (f64_of_i64 n) = (sint n < 0)" "f64_magnitude (f64_of_i64 n) = m"
    using small by (simp_all add: f64_negative_def f64_magnitude_def)
  show ?thesis using small by (auto simp: f64_value_def parts f64_is_nan_def units)
qed

text \<open>The mixed comparison is exact: it compares the integer with the real value of the double.\<close>

lemma int_float_cmp_exact:
  "int_float_cmp n x =
     (if f64_is_nan x then None else Some (order_cmp (sint n * 2 ^ unit_bits) (f64_value x)))"
proof (cases "f64_is_nan x")
  case False
  let ?U = "2 ^ unit_bits :: int"
  have U: "0 < ?U" by simp
  have n: "- (2 ^ 63) \<le> sint n" "sint n < 2 ^ 63"
    using sint_i64_bounds [of n] by (simp_all add: i64_min_def i64_max_def)
  have low: "f64_value (f64_of_i64 (word_of_int i64_min)) = - (2 ^ 63 * ?U)"
    "\<not> f64_is_nan (f64_of_i64 (word_of_int i64_min))"
  proof -
    have "floorlog 2 (2 ^ 63 :: nat) = 64"
      using floorlog_power [of 1 2 63] by (simp add: floorlog_def)
    then have "f64_value (f64_of_i64 (word_of_int i64_min)) = sint (word_of_int i64_min :: i64) * ?U \<and>
        \<not> f64_is_nan (f64_of_i64 (word_of_int i64_min))"
      by (intro f64_of_i64_value) (simp add: sint_word_of_int_i64 i64_min_def i64_max_def)
    then show "f64_value (f64_of_i64 (word_of_int i64_min)) = - (2 ^ 63 * ?U)"
      "\<not> f64_is_nan (f64_of_i64 (word_of_int i64_min))"
      by (simp_all add: sint_word_of_int_i64 i64_min_def i64_max_def)
  qed
  consider (high) "2 ^ 63 * ?U \<le> f64_value x" | (below) "f64_value x < - (2 ^ 63 * ?U)"
    | (mid) "- (2 ^ 63 * ?U) \<le> f64_value x" "f64_value x < 2 ^ 63 * ?U" by linarith
  then show ?thesis
  proof cases
    case high
    have "sint n * ?U < 2 ^ 63 * ?U" using n U by (intro mult_strict_right_mono)
    then have "sint n * ?U < f64_value x" using high by linarith
    then show ?thesis
      using high False by (auto simp: int_float_cmp_def f64_partial_cmp_def upper_value order_cmp_def)
  next
    case below
    have "- (2 ^ 63) * ?U \<le> sint n * ?U" using n U by (intro mult_right_mono) simp_all
    then have "f64_value x < sint n * ?U" using below by (simp only: mult_minus_left)
    moreover have "\<not> 2 ^ 63 * ?U \<le> f64_value x"
    proof -
      have "\<not> k \<le> v" if "v < - k" "0 < k" for k v :: int using that by linarith
      from this [OF below] show ?thesis using U by simp
    qed
    ultimately show ?thesis
      using below False by (auto simp: int_float_cmp_def f64_partial_cmp_def upper_value low order_cmp_def)
  next
    case mid
    have "- (2 ^ 63) \<le> integral_part x \<and> integral_part x < 2 ^ 63"
    proof (cases "f64_negative x")
      case True
      then have "- (2 ^ 63) * ?U \<le> integral_part x * ?U" "integral_part x \<le> 0"
        using integral_part_between [of x] mid by (auto simp only: mult_minus_left if_True)
      then show ?thesis using U by (simp only: mult_le_cancel_right_pos) simp
    next
      case False
      then have part: "integral_part x * ?U \<le> f64_value x" "0 \<le> integral_part x"
        using integral_part_between [of x] by simp_all
      have "integral_part x * ?U < 2 ^ 63 * ?U" by (rule le_less_trans [OF part(1) mid(2)])
      then show ?thesis using U part(2) by (simp only: mult_less_cancel_right_pos) simp
    qed
    then have t: "sint (f64_as_i64 (f64_trunc x)) = integral_part x" by (intro as_i64_trunc False) simp_all
    have "floorlog 2 (nat \<bar>integral_part x\<bar>) \<le> 53 \<or>
        2 ^ (floorlog 2 (nat \<bar>integral_part x\<bar>) - 53) dvd nat \<bar>integral_part x\<bar>"
      by (rule integral_part_exact [of _ "f64_magnitude x"]) (simp add: integral_part_def Let_def)
    then have converted: "f64_value (f64_of_i64 (f64_as_i64 (f64_trunc x))) = integral_part x * ?U"
      "\<not> f64_is_nan (f64_of_i64 (f64_as_i64 (f64_trunc x)))"
      using f64_of_i64_value [of "f64_as_i64 (f64_trunc x)"] by (simp_all add: t)
    have inside: "\<not> 2 ^ 63 * ?U \<le> f64_value x" "\<not> f64_value x < - (2 ^ 63 * ?U)" using mid by linarith+
    then have skip: "f64_partial_cmp x i64_upper_exclusive = Some OrdLess"
      "f64_partial_cmp x (f64_of_i64 (word_of_int i64_min)) \<noteq> Some OrdLess"
      using False by (simp_all only: f64_partial_cmp_def upper_value low if_False simp_thms option.inject order_cmp_simps not_le)
    show ?thesis
    proof (cases "sint n = integral_part x")
      case True
      then show ?thesis using False skip by (simp add: int_float_cmp_def Let_def t f64_partial_cmp_def [of "f64_of_i64 _"] converted)
    next
      case differ: False
      then show ?thesis
        using False skip integral_part_compares [OF differ] by (simp add: int_float_cmp_def Let_def t)
    qed
  qed
qed (simp add: int_float_cmp_def)

text \<open>The real value of a number in units of \<open>2 ^ (-1074)\<close>; NaN has none.\<close>

fun numeric_value :: "scalar \<Rightarrow> int option" where
  "numeric_value (VInt64 n) = Some (sint n * 2 ^ unit_bits)"
| "numeric_value (VFloat64 x) = (if f64_is_nan x then None else Some (f64_value x))"
| "numeric_value _ = None"

text \<open>C33: The SQL comparison. Two numbers, whether integers or doubles, compare by their exact real
  values, with no rounding of an integer that a double cannot represent; Booleans and strings compare
  among themselves; a null, a NaN or values of other types have no order.\<close>

theorem sql_cmp_exact:
  "sql_cmp a b =
     (case (numeric_value a, numeric_value b) of
        (Some m, Some n) \<Rightarrow> Some (order_cmp m n)
      | _ \<Rightarrow>
          (case (a, b) of
             (VBool p, VBool q) \<Rightarrow> Some (order_cmp p q)
           | (VString s, VString t) \<Rightarrow> Some (order_cmp s t)
           | _ \<Rightarrow> None))"
proof -
  have scaled: "order_cmp (m * 2 ^ unit_bits) (n * 2 ^ unit_bits) = order_cmp m n" for m n :: int
    by (simp add: order_cmp_def)
  show ?thesis
    by (cases a; cases b)
      (auto simp: scaled int_float_cmp_exact f64_partial_cmp_def order_cmp_reverse)
qed

text \<open>On numbers the total order used for sorting is the numeric one.\<close>

lemma sql_cmp_agrees:
  "sql_cmp (VFloat64 x) (VFloat64 y) = Some c \<Longrightarrow> scalar_cmp (VFloat64 x) (VFloat64 y) = c"
  by (simp add: f64_partial_cmp_def float_cmp_numeric [unfolded f64_partial_cmp_def] split: if_splits)
    (metis f64_partial_cmp_def float_cmp_numeric option.inject)

end
