(* ===== verification/Batch_Error.thy ===== *)
theory Batch_Error
  imports Batch_Value
begin

text \<open>
  The errors of the second engine (\<^verbatim>\<open>src/batch/error.rs\<close>) and the vocabulary its modules
  share: results that may also be a panic, reads of a column at a row index, and checked arithmetic
  at the widths the engine uses.
\<close>

text \<open>The variant \<open>WriteAheadLog\<close>, which wraps an error of the write-ahead log, is not
  raised by the modules modelled here and is left out.\<close>

datatype batch_error =
  Sql usize string
| TableAlreadyExists string
| TableNotFound string
| DuplicateColumn string
| ReservedIdentifier string string
| InvalidIdentifier string string
| ColumnNotFound string string
| MissingInsertColumn string string
| RowLength string usize usize
| SelectionIndexOutOfBounds usize usize usize
| SelectionNotStrictlyIncreasing usize usize usize
| BatchTypeMismatch string string string
| InvalidCast batch_type batch_type
| UnionColumnCountMismatch usize usize
| UnionDistinctColumnCountMismatch usize usize
| UnsupportedNullableOperation string string string
| InvalidQuery string
| NumericOverflow string
| InsertOnlyStatementRequired string
| StatementLimitExceeded usize usize
| ResultLimitExceeded usize usize
| ResourceLimitExceeded string usize usize

text \<open>A computation of the engine ends with a result, with an error, or with a panic.\<close>

datatype 'e failure = Panicked | Failed 'e

type_synonym 'a batch_result = "batch_error failure + 'a"

fun panicked :: "'e failure + 'a \<Rightarrow> bool" where
  "panicked (Inl Panicked) = True"
| "panicked _ = False"

text \<open>\<open>values[row]\<close> panics out of range.\<close>

definition index :: "'a list \<Rightarrow> usize \<Rightarrow> 'e failure + 'a" where
  "index xs i = (if i < length xs then Inr (xs ! i) else Inl Panicked)"

lemma index_Inr [simp]: "i < length xs \<Longrightarrow> index xs i = Inr (xs ! i)"
  by (simp add: index_def)

lemma index_panics [simp]: "\<not> i < length xs \<Longrightarrow> index xs i = Inl Panicked"
  by (simp add: index_def)

text \<open>\<open>checked_add\<close> at \<open>i64\<close>, \<open>i128\<close> and \<open>u64\<close>, with the overflow as
  the error.\<close>

definition i64_checked_add :: "i64 \<Rightarrow> i64 \<Rightarrow> i64 option" where
  "i64_checked_add a b = i64_of_int (sint a + sint b)"

definition i128_checked_add :: "int \<Rightarrow> int \<Rightarrow> int option" where
  "i128_checked_add a b = (if - (2 ^ 127) \<le> a + b \<and> a + b < 2 ^ 127 then Some (a + b) else None)"

definition u64_checked_add :: "u64 \<Rightarrow> u64 \<Rightarrow> u64 option" where
  "u64_checked_add a b = (if uint a + uint b < 2 ^ 64 then Some (a + b) else None)"

definition overflow :: "string \<Rightarrow> 'a option \<Rightarrow> 'a batch_result" where
  "overflow context v = ok_or v (Failed (NumericOverflow context))"

lemma overflow_Some [simp]: "overflow c (Some x) = Inr x"
  by (simp add: overflow_def)

lemma overflow_None [simp]: "overflow c None = Inl (Failed (NumericOverflow c))"
  by (simp add: overflow_def)

text \<open>A \<open>for\<close> loop over a state with \<open>?\<close> in its body, and \<open>try_fold\<close>.\<close>

fun try_fold :: "('s \<Rightarrow> 'a \<Rightarrow> 'e + 's) \<Rightarrow> 's \<Rightarrow> 'a list \<Rightarrow> 'e + 's" where
  "try_fold f s [] = Inr s"
| "try_fold f s (x # xs) = res_bind (f s x) (\<lambda>s'. try_fold f s' xs)"

lemma try_fold_append: "try_fold f s (xs @ ys) = res_bind (try_fold f s xs) (\<lambda>s'. try_fold f s' ys)"
  proof (induction xs arbitrary: s)
  case (Cons x xs)
  then show ?case by (cases "f s x") simp_all
qed simp

text \<open>Counters that start at zero and count at most \<open>isize::MAX\<close> rows do not overflow.\<close>

definition isize_max :: nat where
  "isize_max = 9223372036854775807"

lemma sint_of_nat_small:
  assumes "n \<le> isize_max"
  shows "sint (of_nat n :: i64) = int n"
proof -
  have "sint (word_of_int (int n) :: i64) = int n"
    using assms by (intro sint_word_of_int_i64) (simp_all add: i64_min_def i64_max_def isize_max_def)
  then show ?thesis by simp
qed

lemma uint_of_nat_small:
  assumes "n \<le> isize_max"
  shows "uint (of_nat n :: u64) = int n"
  using assms by (simp add: isize_max_def uint_nat unat_of_nat)

lemma i64_checked_add_nat:
  assumes "m + n \<le> isize_max"
  shows "i64_checked_add (of_nat m) (of_nat n) = Some (of_nat (m + n))"
proof -
  have "int m + int n \<le> i64_max" using assms by (simp add: isize_max_def i64_max_def)
  moreover have "m \<le> isize_max" "n \<le> isize_max" using assms by simp_all
  ultimately show ?thesis
    by (simp add: i64_checked_add_def i64_of_int_def i64_min_def sint_of_nat_small)
qed

lemma u64_checked_add_nat:
  assumes "m + n \<le> isize_max"
  shows "u64_checked_add (of_nat m) (of_nat n) = Some (of_nat (m + n))"
proof -
  have "int m + int n < 2 ^ 64" using assms by (simp add: isize_max_def)
  moreover have "m \<le> isize_max" "n \<le> isize_max" using assms by simp_all
  ultimately show ?thesis by (simp add: u64_checked_add_def uint_of_nat_small)
qed

lemma i128_checked_add_small: "- (2 ^ 127) \<le> a + b \<Longrightarrow> a + b < 2 ^ 127 \<Longrightarrow> i128_checked_add a b = Some (a + b)"
  by (simp add: i128_checked_add_def)

end
