(* ===== verification/Aggregate_Scheduler.thy ===== *)
theory Aggregate_Scheduler
  imports Batch_Error
begin

text \<open>
  Parallel aggregation in the second engine (\<^verbatim>\<open>src/batch/aggregate_scheduler.rs\<close>): how many
  lanes an aggregate may use, the process-wide budget of helper threads as interleaved atomic steps,
  the partition of the matching rows, and the driver that runs the lanes, combines their partial
  results and starts over on the calling thread when a helper fails. The locale
  \<open>ordered_reducer\<close> is the contract of a reducer under which the driver computes, for every
  admission and every failure, what one sequential pass computes.
\<close>

section \<open>Lanes\<close>

definition parallel_row_threshold :: usize where
  "parallel_row_threshold = 256 * 1024"

definition parallel_rows_per_worker :: usize where
  "parallel_rows_per_worker = 128 * 1024"

definition max_parallel_workers :: usize where
  "max_parallel_workers = 16"

record worker_budget =
  helper_limit :: usize
  helpers_in_use :: usize

definition budget_new :: "usize \<Rightarrow> worker_budget" where
  "budget_new limit = \<lparr>helper_limit = limit, helpers_in_use = 0\<rparr>"

definition worker_limit :: "worker_budget \<Rightarrow> usize" where
  "worker_limit b = saturating_add (helper_limit b) 1"

text \<open>The process budget is created from the parallelism the system reports, if it does.\<close>

definition system_budget :: "usize option \<Rightarrow> worker_budget" where
  "system_budget available =
     (let workers = min (case available of None \<Rightarrow> 1 | Some n \<Rightarrow> n) max_parallel_workers in
      budget_new (saturating_sub workers 1))"

text \<open>\<open>GlobalAggregateParallelism\<close>: the lane cap of the database, lowered for a request,
  and the process budget it draws on.\<close>

record aggregate_parallelism =
  worker_cap :: usize
  worker_source :: worker_budget

definition system_parallelism :: "usize \<Rightarrow> worker_budget \<Rightarrow> aggregate_parallelism" where
  "system_parallelism cap budget = \<lparr>worker_cap = cap, worker_source = budget\<rparr>"

definition worker_count :: "aggregate_parallelism \<Rightarrow> usize \<Rightarrow> usize" where
  "worker_count par matched_rows =
     (if matched_rows \<le> parallel_row_threshold then 1
      else
        let useful_workers = div_ceil matched_rows parallel_rows_per_worker in
        min (min (max 1 (min max_parallel_workers (min (worker_limit (worker_source par)) (worker_cap par))))
              useful_workers)
          matched_rows)"

definition with_request_worker_cap :: "aggregate_parallelism \<Rightarrow> usize \<Rightarrow> aggregate_parallelism" where
  "with_request_worker_cap par max_threads =
     (if max_threads = 0 then par else par\<lparr>worker_cap := min (worker_cap par) max_threads\<rparr>)"

lemma worker_count_pos: "1 \<le> worker_count par n"
  using div_ceil_pos [of n parallel_rows_per_worker]
  by (auto simp: worker_count_def Let_def parallel_row_threshold_def parallel_rows_per_worker_def Suc_le_eq)

lemma worker_count_le: "worker_count par n \<le> max_parallel_workers"
  by (auto simp: worker_count_def Let_def max_parallel_workers_def min_def max_def)

section \<open>The budget of helper threads\<close>

text \<open>What \<open>try_acquire\<close> takes of the helpers not in use, from the last count it has seen.\<close>

definition acquirable :: "usize \<Rightarrow> usize \<Rightarrow> usize \<Rightarrow> usize" where
  "acquirable limit requested in_use = min requested (saturating_sub limit in_use)"

text \<open>A query thread is outside, in the loop of \<open>try_acquire\<close> with its request and the count
  it has seen, or holds a permit.\<close>

datatype budget_thread =
  Outside
| Trying usize usize
| Holding usize

fun permit :: "budget_thread \<Rightarrow> usize" where
  "permit (Holding n) = n"
| "permit _ = 0"

text \<open>The atomic steps of thread \<open>i\<close>: the load, leaving without a permit, the compare-exchange
  that succeeds, the one that fails (because the count changed, or spuriously) and sees the actual
  count, and dropping a permit.\<close>

inductive budget_step ::
  "usize \<Rightarrow> usize \<times> budget_thread list \<Rightarrow> usize \<times> budget_thread list \<Rightarrow> bool"
  for limit
where
  load: "i < length ts \<Longrightarrow> ts ! i = Outside \<Longrightarrow>
    budget_step limit (in_use, ts) (in_use, ts[i := Trying requested in_use])"
| give_up: "i < length ts \<Longrightarrow> ts ! i = Trying requested seen \<Longrightarrow> acquirable limit requested seen = 0 \<Longrightarrow>
    budget_step limit (in_use, ts) (in_use, ts[i := Outside])"
| exchange: "i < length ts \<Longrightarrow> ts ! i = Trying requested seen \<Longrightarrow> acquirable limit requested seen \<noteq> 0 \<Longrightarrow>
    in_use = seen \<Longrightarrow>
    budget_step limit (in_use, ts) (saturating_add seen (acquirable limit requested seen),
      ts[i := Holding (acquirable limit requested seen)])"
| retry: "i < length ts \<Longrightarrow> ts ! i = Trying requested seen \<Longrightarrow> acquirable limit requested seen \<noteq> 0 \<Longrightarrow>
    budget_step limit (in_use, ts) (in_use, ts[i := Trying requested in_use])"
| release: "i < length ts \<Longrightarrow> ts ! i = Holding helpers \<Longrightarrow>
    budget_step limit (in_use, ts) (in_use - helpers, ts[i := Outside])"

inductive budget_reachable :: "worker_budget \<Rightarrow> nat \<Rightarrow> usize \<times> budget_thread list \<Rightarrow> bool" for b n where
  start: "budget_reachable b n (helpers_in_use b, replicate n Outside)"
| step: "budget_reachable b n s \<Longrightarrow> budget_step (helper_limit b) s s' \<Longrightarrow> budget_reachable b n s'"

lemma sum_list_update_permit:
  "i < length ts \<Longrightarrow> sum_list (map permit (ts[i := t])) + permit (ts ! i) = sum_list (map permit ts) + permit t"
proof (induction ts arbitrary: i)
  case (Cons u ts)
  then show ?case by (cases i) auto
qed simp

text \<open>What one call of \<open>try_acquire\<close> does that no other thread interrupts: the permit and
  the budget after it; and \<open>try_admit\<close>, the number of helpers a query gets.\<close>

definition try_acquire :: "worker_budget \<Rightarrow> usize \<Rightarrow> (usize \<times> worker_budget) option" where
  "try_acquire b requested =
     (let acquired = acquirable (helper_limit b) requested (helpers_in_use b) in
      if acquired = 0 then None
      else Some (acquired, b\<lparr>helpers_in_use := saturating_add (helpers_in_use b) acquired\<rparr>))"

definition try_admit :: "aggregate_parallelism \<Rightarrow> usize \<Rightarrow> (usize \<times> worker_budget) option" where
  "try_admit par matched_rows =
     (let helper_threads = saturating_sub (worker_count par matched_rows) 1 in
      if helper_threads = 0 then None else try_acquire (worker_source par) helper_threads)"

lemma try_admit_bounds:
  assumes "try_admit par n = Some (h, b)"
  shows "0 < h" and "h < max_parallel_workers" and "h + helpers_in_use (worker_source par) \<le> helper_limit (worker_source par)"
  using assms worker_count_le [of par n]
  by (auto simp: try_admit_def try_acquire_def acquirable_def saturating_sub_def Let_def
      max_parallel_workers_def split: if_splits)

text \<open>The count of helpers in use is what the live permits add up to, and never passes the
  limit.\<close>

definition budget_ok :: "usize \<Rightarrow> usize \<times> budget_thread list \<Rightarrow> bool" where
  "budget_ok limit = (\<lambda>(in_use, ts). in_use = sum_list (map permit ts) \<and> in_use \<le> limit)"

lemma budget_step_ok:
  assumes "budget_step limit s s'" and "budget_ok limit s" and "limit \<le> usize_max"
  shows "budget_ok limit s'"
  using assms
proof (induction rule: budget_step.induct)
  case (load i ts in_use requested)
  then show ?case
    using sum_list_update_permit [of i ts "Trying requested in_use"] by (simp add: budget_ok_def)
next
  case (give_up i ts requested seen in_use)
  then show ?case using sum_list_update_permit [of i ts Outside] by (simp add: budget_ok_def)
next
  case (exchange i ts requested seen in_use)
  then have "seen + acquirable limit requested seen \<le> limit"
    by (auto simp: budget_ok_def acquirable_def saturating_sub_def split: if_splits)
  with exchange show ?case
    using sum_list_update_permit [of i ts "Holding (acquirable limit requested seen)"]
    by (simp add: budget_ok_def saturating_add_def)
next
  case (retry i ts requested seen in_use)
  then show ?case
    using sum_list_update_permit [of i ts "Trying requested in_use"] by (simp add: budget_ok_def)
next
  case (release i ts helpers in_use)
  then show ?case using sum_list_update_permit [of i ts Outside] by (auto simp: budget_ok_def)
qed

lemma budget_reachable_ok:
  assumes "budget_reachable b n s" and "helpers_in_use b = 0" and "helper_limit b \<le> usize_max"
  shows "budget_ok (helper_limit b) s"
  using assms(1)
proof (induction rule: budget_reachable.induct)
  case start
  show ?case using assms(2) by (simp add: budget_ok_def sum_list_replicate)
next
  case (step s s')
  with budget_step_ok assms(3) show ?case by blast
qed

section \<open>The partition of the rows\<close>

definition partition_start :: "usize \<Rightarrow> usize \<Rightarrow> usize \<Rightarrow> usize" where
  "partition_start n lanes worker_index =
     worker_index * (n div lanes) + min worker_index (n mod lanes)"

definition partition_len :: "usize \<Rightarrow> usize \<Rightarrow> usize \<Rightarrow> usize" where
  "partition_len n lanes worker_index =
     n div lanes + (if worker_index < n mod lanes then 1 else 0)"

definition parallel_aggregate_partition :: "'r list \<Rightarrow> usize \<Rightarrow> usize \<Rightarrow> 'r list" where
  "parallel_aggregate_partition rows lanes worker_index =
     take (partition_len (length rows) lanes worker_index)
       (drop (partition_start (length rows) lanes worker_index) rows)"

lemma partition_start_Suc: "partition_start n k (Suc i) = partition_start n k i + partition_len n k i"
  by (simp add: partition_start_def partition_len_def min_def)

lemma partition_start_end: "0 < k \<Longrightarrow> partition_start n k k = n"
  using mod_less_divisor [of k n] by (auto simp: partition_start_def min_def simp del: mod_less_divisor)

lemma concat_partitions_prefix:
  "concat (map (parallel_aggregate_partition rows k) [0..<i]) = take (partition_start (length rows) k i) rows"
proof (induction i)
  case 0
  show ?case by (simp add: partition_start_def)
next
  case (Suc i)
  then show ?case
    by (simp add: partition_start_Suc parallel_aggregate_partition_def take_add)
qed

lemma concat_partitions:
  "0 < k \<Longrightarrow> concat (map (parallel_aggregate_partition rows k) [0..<k]) = rows"
  by (simp add: concat_partitions_prefix partition_start_end)

text \<open>Each lane's slice lies inside the rows, and the lengths differ by at most one.\<close>

lemma partition_start_mono: "i \<le> j \<Longrightarrow> partition_start n k i \<le> partition_start n k j"
  by (induction j) (auto simp: le_Suc_eq partition_start_Suc intro: le_trans)

lemma partition_in_range:
  assumes "i < k"
  shows "partition_start n k i + partition_len n k i \<le> n"
proof -
  have "partition_start n k (Suc i) \<le> partition_start n k k"
    using assms by (intro partition_start_mono) simp
  with assms show ?thesis by (simp add: partition_start_Suc partition_start_end)
qed

lemma length_partition:
  "i < k \<Longrightarrow> length (parallel_aggregate_partition rows k i) = partition_len (length rows) k i"
  using partition_in_range [of i k "length rows"] by (simp add: parallel_aggregate_partition_def)

section \<open>The driver\<close>

text \<open>\<open>collect::<Result<Vec<_>, _>>\<close>.\<close>

fun collect_results :: "('e + 'a) list \<Rightarrow> 'e + 'a list" where
  "collect_results [] = Inr []"
| "collect_results (r # rs) = res_bind r (\<lambda>x. res_bind (collect_results rs) (\<lambda>xs. Inr (x # xs)))"

text \<open>What the operating system does in one run: whether the thread of a lane can be spawned,
  and whether it dies although the reducer would not panic on its rows.\<close>

record thread_behaviour =
  spawns :: "nat \<Rightarrow> bool"
  dies :: "nat \<Rightarrow> bool"

text \<open>The lanes that were spawned before the first failure, and what joining them gives.\<close>

definition spawned_lanes :: "thread_behaviour \<Rightarrow> usize \<Rightarrow> nat list" where
  "spawned_lanes os lanes = takeWhile (spawns os) [1..<lanes]"

definition joined_lanes ::
  "thread_behaviour \<Rightarrow> ('r list \<Rightarrow> 'e failure + 'p) \<Rightarrow> 'r list \<Rightarrow> usize \<Rightarrow> ('e failure + 'p) list" where
  "joined_lanes os chunk rows lanes =
     map (\<lambda>i. if dies os i then Inl Panicked else chunk (parallel_aggregate_partition rows lanes i))
       (spawned_lanes os lanes)"

definition run_grouped_aggregate ::
  "aggregate_parallelism \<Rightarrow> thread_behaviour \<Rightarrow> ('r list \<Rightarrow> 'e failure + 'p) \<Rightarrow>
   ('p list \<Rightarrow> 'e failure + 'p) \<Rightarrow> 'r list \<Rightarrow> 'e failure + 'p" where
  "run_grouped_aggregate par os chunk reduce rows =
     (case try_admit par (length rows) of
        None \<Rightarrow> chunk rows
      | Some (helper_threads, _) \<Rightarrow>
          let lanes = saturating_add helper_threads 1;
              own = chunk (parallel_aggregate_partition rows lanes 0);
              joined = joined_lanes os chunk rows lanes;
              worker_failed = length (spawned_lanes os lanes) < lanes - 1 \<or> list_ex panicked joined
          in if panicked own then Inl Panicked
             else if worker_failed then chunk rows
             else res_bind (collect_results (own # joined)) reduce)"

lemma collect_results_map_Inr [simp]: "collect_results (map (\<lambda>x. Inr (f x)) xs) = Inr (map f xs)"
  by (induction xs) auto

section \<open>The contract of a reducer\<close>

text \<open>On rows that are all \<open>valid\<close> (they index the columns) and at most \<open>bound\<close> in
  number, a lane returns the \<open>meaning\<close> of its rows, and combining the meanings of consecutive
  parts gives the meaning of the whole; a row that is not valid panics.\<close>

locale ordered_reducer =
  fixes chunk :: "'r list \<Rightarrow> 'e failure + 'p"
    and reduce :: "'p list \<Rightarrow> 'e failure + 'p"
    and meaning :: "'r list \<Rightarrow> 'p"
    and valid :: "'r \<Rightarrow> bool"
    and bound :: nat
  assumes chunk_meaning: "length rows \<le> bound \<Longrightarrow>
      chunk rows = (if list_all valid rows then Inr (meaning rows) else Inl Panicked)"
    and reduce_meaning: "length (concat parts) \<le> bound \<Longrightarrow> list_all valid (concat parts) \<Longrightarrow>
      reduce (map meaning parts) = Inr (meaning (concat parts))"
begin

lemma lanes_meaning:
  assumes all: "list_all valid rows" and len: "length rows \<le> bound" and k: "0 < k"
  shows "res_bind (collect_results (map (\<lambda>i. chunk (parallel_aggregate_partition rows k i)) [0..<k])) reduce
      = Inr (meaning rows)"
proof -
  have part: "chunk (parallel_aggregate_partition rows k i) = Inr (meaning (parallel_aggregate_partition rows k i))" for i
  proof -
    have "length (parallel_aggregate_partition rows k i) \<le> bound"
      using len by (simp add: parallel_aggregate_partition_def)
    moreover have "list_all valid (parallel_aggregate_partition rows k i)"
      using all unfolding parallel_aggregate_partition_def list_all_iff
      by (meson in_set_dropD in_set_takeD)
    ultimately show ?thesis by (simp add: chunk_meaning)
  qed
  have "reduce (map meaning (map (parallel_aggregate_partition rows k) [0..<k])) = Inr (meaning rows)"
    using reduce_meaning [of "map (parallel_aggregate_partition rows k) [0..<k]"] all len
    by (simp add: concat_partitions [OF k])
  then show ?thesis by (simp add: part comp_def)
qed

lemma not_panicked_chunk:
  assumes "\<not> panicked (chunk rows)" and "length rows \<le> bound"
  shows "list_all valid rows"
  using assms by (auto simp: chunk_meaning split: if_splits)

lemma no_panic_all_valid:
  assumes own: "\<not> panicked (chunk (parallel_aggregate_partition rows k 0))"
    and others: "\<not> list_ex panicked (map (\<lambda>i. chunk (parallel_aggregate_partition rows k i)) [1..<k])"
    and len: "length rows \<le> bound" and k: "0 < k"
  shows "list_all valid rows"
proof -
  have "list_all valid (parallel_aggregate_partition rows k i)" if "i < k" for i
  proof -
    have "\<not> panicked (chunk (parallel_aggregate_partition rows k i))"
      using own others that by (cases "i = 0") (auto simp: list_ex_iff)
    moreover have "length (parallel_aggregate_partition rows k i) \<le> bound"
      using len by (simp add: parallel_aggregate_partition_def)
    ultimately show ?thesis by (rule not_panicked_chunk)
  qed
  then have "list_all valid (concat (map (parallel_aggregate_partition rows k) [0..<k]))"
    by (auto simp: list_all_iff)
  then show ?thesis by (simp add: concat_partitions [OF k])
qed

text \<open>The driver computes what the sequential pass computes, whatever is admitted and whichever
  threads fail.\<close>

lemma run_is_sequential:
  assumes len: "length rows \<le> bound"
  shows "run_grouped_aggregate par os chunk reduce rows = chunk rows"
proof (cases "try_admit par (length rows)")
  case None
  then show ?thesis by (simp add: run_grouped_aggregate_def)
next
  case (Some hb)
  obtain h b where hb: "hb = (h, b)" by (cases hb)
  with Some have h: "0 < h" "h < max_parallel_workers" using try_admit_bounds by auto
  define k where "k = saturating_add h 1"
  then have k: "0 < k" "k = Suc h" using h by (auto simp: saturating_add_def max_parallel_workers_def usize_max_def)
  let ?own = "chunk (parallel_aggregate_partition rows k 0)"
  show ?thesis
  proof (cases "panicked ?own")
    case True
    then have "\<not> list_all valid (parallel_aggregate_partition rows k 0)"
      using len by (auto simp: chunk_meaning parallel_aggregate_partition_def)
    then have "\<not> list_all valid rows"
      unfolding parallel_aggregate_partition_def list_all_iff by (meson in_set_dropD in_set_takeD)
    with True Some hb k_def len show ?thesis by (simp add: run_grouped_aggregate_def Let_def chunk_meaning)
  next
    case own: False
    show ?thesis
    proof (cases "length (spawned_lanes os k) < k - 1 \<or> list_ex panicked (joined_lanes os chunk rows k)")
      case True
      with own Some hb k_def show ?thesis by (simp add: run_grouped_aggregate_def Let_def)
    next
      case False
      then have sp: "spawned_lanes os k = [1..<k]"
        using takeWhile_eq_all_conv [of "spawns os" "[1..<k]"] length_takeWhile_le [of "spawns os" "[1..<k]"]
        by (metis spawned_lanes_def length_upt linorder_not_less takeWhile_eq_take take_all_iff)
      have alive: "\<not> dies os i" if "i \<in> set [1..<k]" for i
      proof
        assume "dies os i"
        with that have "Inl Panicked \<in> set (joined_lanes os chunk rows k)"
          by (force simp: joined_lanes_def sp)
        with False show False by (force simp: list_ex_iff)
      qed
      then have joined: "joined_lanes os chunk rows k = map (\<lambda>i. chunk (parallel_aggregate_partition rows k i)) [1..<k]"
        unfolding joined_lanes_def sp by (intro map_cong) auto
      have all: "list_all valid rows"
        using own False len k(1) by (intro no_panic_all_valid [of rows k]) (simp_all add: joined)
      have "[0..<k] = 0 # [1..<k]" using k(1) by (simp add: upt_conv_Cons)
      with own False Some hb k_def joined lanes_meaning [OF all len k(1)] all len show ?thesis
        by (simp add: run_grouped_aggregate_def Let_def chunk_meaning)
    qed
  qed
qed

lemma run_meaning:
  assumes "length rows \<le> bound" and "list_all valid rows"
  shows "run_grouped_aggregate par os chunk reduce rows = Inr (meaning rows)"
  using assms by (simp add: run_is_sequential chunk_meaning)

end

text \<open>Reducers whose lanes fold a step over their rows and whose partial results are folded in
  order are of this kind as soon as one step and one combination are right.\<close>

locale row_fold =
  fixes observe :: "'p \<Rightarrow> 'r \<Rightarrow> 'e failure + 'p"
    and combine :: "'p \<Rightarrow> 'p \<Rightarrow> 'e failure + 'p"
    and start :: 'p
    and meaning :: "'r list \<Rightarrow> 'p"
    and valid :: "'r \<Rightarrow> bool"
    and bound :: nat
  assumes meaning_Nil: "meaning [] = start"
    and observe_meaning: "valid r \<Longrightarrow> length rows < bound \<Longrightarrow> list_all valid rows \<Longrightarrow>
      observe (meaning rows) r = Inr (meaning (rows @ [r]))"
    and observe_invalid: "\<not> valid r \<Longrightarrow> observe p r = Inl Panicked"
    and combine_meaning: "length (xs @ ys) \<le> bound \<Longrightarrow> list_all valid (xs @ ys) \<Longrightarrow>
      combine (meaning xs) (meaning ys) = Inr (meaning (xs @ ys))"
begin

lemma fold_observe_from:
  "length (xs @ rows) \<le> bound \<Longrightarrow> list_all valid xs \<Longrightarrow>
    try_fold observe (meaning xs) rows =
      (if list_all valid rows then Inr (meaning (xs @ rows)) else Inl Panicked)"
proof (induction rows arbitrary: xs)
  case (Cons r rows)
  show ?case
  proof (cases "valid r")
    case True
    with Cons.prems have "observe (meaning xs) r = Inr (meaning (xs @ [r]))"
      by (intro observe_meaning) auto
    with True Cons.prems Cons.IH [of "xs @ [r]"] show ?thesis by simp
  next
    case False
    then show ?thesis by (simp add: observe_invalid)
  qed
qed simp

lemma fold_combine_from:
  "length (xs @ concat parts) \<le> bound \<Longrightarrow> list_all valid (xs @ concat parts) \<Longrightarrow>
    try_fold combine (meaning xs) (map meaning parts) = Inr (meaning (xs @ concat parts))"
proof (induction parts arbitrary: xs)
  case (Cons part parts)
  then have "combine (meaning xs) (meaning part) = Inr (meaning (xs @ part))"
    by (intro combine_meaning) auto
  with Cons.prems Cons.IH [of "xs @ part"] show ?case by simp
qed simp

end

sublocale row_fold \<subseteq> ordered_reducer "try_fold observe start" "try_fold combine start" meaning valid bound
proof unfold_locales
  fix rows :: "'r list"
  assume "length rows \<le> bound"
  then show "try_fold observe start rows = (if list_all valid rows then Inr (meaning rows) else Inl Panicked)"
    using fold_observe_from [of "[]" rows] by (simp add: meaning_Nil)
next
  fix parts :: "'r list list"
  assume "length (concat parts) \<le> bound" and "list_all valid (concat parts)"
  then show "try_fold combine start (map meaning parts) = Inr (meaning (concat parts))"
    using fold_combine_from [of "[]" parts] by (simp add: meaning_Nil)
qed

section \<open>Properties\<close>

text \<open>C15: The budget of helper threads: in every interleaving of queries that load the count, race on
  the compare-exchange, lose and retry, give up, and release, the count of helpers in use is exactly
  what the live permits hold and never exceeds the limit.\<close>

theorem helper_budget_respected:
  assumes "budget_reachable b n (in_use, ts)" and "helpers_in_use b = 0" and "helper_limit b \<le> usize_max"
  shows "in_use = sum_list (map permit ts) \<and> in_use \<le> helper_limit b"
  using budget_reachable_ok [OF assms] by (simp add: budget_ok_def)

theorem helper_budget_respected_witness:
  "budget_reachable (budget_new 3) 2 (3, [Trying 2 0, Holding 3]) \<and> sum_list (map permit [Trying 2 0, Holding 3]) = 3"
proof -
  let ?b = "budget_new 3"
  have "budget_reachable ?b 2 (0, [Outside, Outside])"
    using budget_reachable.start [of ?b 2] by (simp add: budget_new_def numeral_2_eq_2)
  then have "budget_reachable ?b 2 (0, [Trying 2 0, Outside])"
    using budget_step.load [of 0 "[Outside, Outside]" 3 0 2]
    by (auto intro: budget_reachable.step simp: budget_new_def)
  then have "budget_reachable ?b 2 (0, [Trying 2 0, Trying 5 0])"
    using budget_step.load [of 1 "[Trying 2 0, Outside]" 3 0 5]
    by (auto intro: budget_reachable.step simp: budget_new_def)
  then have r: "budget_reachable ?b 2 (3, [Trying 2 0, Holding 3])"
    using budget_step.exchange [of 1 "[Trying 2 0, Trying 5 0]" 5 0 3 0]
    by (auto intro: budget_reachable.step simp: budget_new_def acquirable_def saturating_sub_def
        saturating_add_def usize_max_def)
  then show ?thesis
    using helper_budget_respected [OF r] by (simp add: budget_new_def usize_max_def)
qed

lemma worker_count_cap: "worker_count par n \<le> max 1 (worker_cap par)" "worker_count par n \<le> max 1 n"
  by (auto simp: worker_count_def Let_def min_def max_def)

text \<open>C29: Admission: an aggregate is only split above the row threshold, into at most sixteen lanes and
  at most as many as its cap, with helpers the budget has left; the lanes' slices are consecutive,
  none is empty, and together they are the rows.\<close>

theorem admission_bounded:
  assumes "try_admit par (length rows) = Some (h, b)"
  shows "parallel_row_threshold < length rows \<and> 0 < h \<and> h < max_parallel_workers \<and> h < max 1 (worker_cap par) \<and>
    h + helpers_in_use (worker_source par) \<le> helper_limit (worker_source par) \<and>
    concat (map (parallel_aggregate_partition rows (h + 1)) [0..<h + 1]) = rows \<and>
    (\<forall>i < h + 1. parallel_aggregate_partition rows (h + 1) i \<noteq> [])"
proof -
  have le: "h \<le> worker_count par (length rows) - 1" and pos: "0 < h"
    using assms
    by (auto simp: try_admit_def try_acquire_def acquirable_def saturating_sub_def Let_def split: if_splits)
  then have many: "worker_count par (length rows) \<noteq> 1" by simp
  then have threshold: "parallel_row_threshold < length rows"
    by (auto simp: worker_count_def split: if_splits)
  have small: "h + 1 \<le> length rows"
    using worker_count_cap(2) [of par "length rows"] le pos by simp
  have "parallel_aggregate_partition rows (h + 1) i \<noteq> []" if "i < h + 1" for i
  proof -
    have "0 < length rows div (h + 1)" using small by (simp add: div_greater_zero_iff)
    then have "0 < length (parallel_aggregate_partition rows (h + 1) i)"
      using length_partition [OF that, of rows] by (simp add: partition_len_def)
    then show ?thesis by simp
  qed
  moreover have "concat (map (parallel_aggregate_partition rows (h + 1)) [0..<h + 1]) = rows"
    by (rule concat_partitions) simp
  moreover have "h < max 1 (worker_cap par)"
    using worker_count_cap(1) [of par "length rows"] le pos by linarith
  ultimately show ?thesis
    using try_admit_bounds [OF assms] threshold by blast
qed

theorem admission_bounded_witness:
  "(let par = system_parallelism 16 (system_budget (Some 4)); rows = replicate 262145 True in
    try_admit par (length rows) = Some (2, (system_budget (Some 4))\<lparr>helpers_in_use := 2\<rparr>) \<and>
    list_all (\<lambda>i. parallel_aggregate_partition rows 3 i \<noteq> []) [0, 1, 2])"
proof -
  let ?par = "system_parallelism 16 (system_budget (Some 4))" and ?rows = "replicate 262145 True"
  have admit: "try_admit ?par (length ?rows) = Some (2, (system_budget (Some 4))\<lparr>helpers_in_use := 2\<rparr>)"
    by (simp add: try_admit_def try_acquire_def acquirable_def worker_count_def system_parallelism_def
        system_budget_def budget_new_def worker_limit_def saturating_sub_def saturating_add_def usize_max_def
        max_parallel_workers_def parallel_row_threshold_def parallel_rows_per_worker_def div_ceil_def)
  with admission_bounded [OF admit] show ?thesis by (simp add: numeral_3_eq_3)
qed

end
