(* ===== verification/Grouped_Count.thy ===== *)
theory Grouped_Count
  imports Aggregate_Scheduler
begin

text \<open>
  \<open>COUNT\<close> and \<open>countIf\<close> grouped by a Boolean column
  (\<^verbatim>\<open>src/batch/grouped_bool_count.rs\<close>): the partial state of a lane, the three scans, the
  ordered reduction with its overflow checks, and the proof that every parallel run counts what one
  pass over the rows counts.
\<close>

section \<open>The group seen first\<close>

definition get_or_insert :: "'a option \<Rightarrow> 'a \<Rightarrow> 'a option" where
  "get_or_insert slot x = (case slot of None \<Rightarrow> Some x | Some y \<Rightarrow> Some y)"

definition first_group :: "bool list \<Rightarrow> usize list \<Rightarrow> bool option" where
  "first_group group_values rows = (case rows of [] \<Rightarrow> None | r # _ \<Rightarrow> Some (group_values ! r))"

lemma first_group_Nil [simp]: "first_group gs [] = None"
  by (simp add: first_group_def)

lemma first_group_append: "first_group gs (xs @ ys) = (case first_group gs xs of None \<Rightarrow> first_group gs ys | Some g \<Rightarrow> Some g)"
  by (auto simp: first_group_def split: list.split)

lemma first_group_snoc [simp]: "gs ! r = g \<Longrightarrow> get_or_insert (first_group gs rows) g = first_group gs (rows @ [r])"
  by (auto simp: first_group_append get_or_insert_def first_group_def split: list.split)

definition rows_of_group :: "bool list \<Rightarrow> bool \<Rightarrow> usize list \<Rightarrow> usize list" where
  "rows_of_group group_values g rows = filter (\<lambda>r. group_values ! r = g) rows"

lemma rows_of_group_append [simp]:
  "rows_of_group gs g (xs @ ys) = rows_of_group gs g xs @ rows_of_group gs g ys"
  by (simp add: rows_of_group_def)

lemma rows_of_group_Nil [simp]: "rows_of_group gs g [] = []"
  by (simp add: rows_of_group_def)

lemma rows_of_group_one [simp]: "rows_of_group gs g [r] = (if gs ! r = g then [r] else [])"
  by (simp add: rows_of_group_def)

lemma length_rows_of_group: "length (rows_of_group gs g rows) \<le> length rows"
  by (simp add: rows_of_group_def)

section \<open>The partial state\<close>

datatype count_operation = OpCount | OpCountIf

fun count_operation_name :: "count_operation \<Rightarrow> string" where
  "count_operation_name OpCount = ''COUNT''"
| "count_operation_name OpCountIf = ''countIf''"

record count_partial =
  false_rows :: i64
  true_rows :: i64
  false_count :: i64
  true_count :: i64
  count_first_seen :: "bool option"

definition count_partial_default :: count_partial where
  "count_partial_default =
     \<lparr>false_rows = 0, true_rows = 0, false_count = 0, true_count = 0, count_first_seen = None\<rparr>"

definition partial_row_count :: "count_partial \<Rightarrow> bool \<Rightarrow> i64" where
  "partial_row_count p g = (if g then true_rows p else false_rows p)"

definition partial_count :: "count_partial \<Rightarrow> bool \<Rightarrow> i64" where
  "partial_count p g = (if g then true_count p else false_count p)"

definition observe_count ::
  "count_partial \<Rightarrow> bool \<Rightarrow> bool \<Rightarrow> count_operation \<Rightarrow> count_partial batch_result" where
  "observe_count p g counted operation =
     (let p = p\<lparr>count_first_seen := get_or_insert (count_first_seen p) g\<rparr> in
      res_bind (overflow (count_operation_name operation) (i64_checked_add (partial_row_count p g) 1)) (\<lambda>rows.
      let p = (if g then p\<lparr>true_rows := rows\<rparr> else p\<lparr>false_rows := rows\<rparr>) in
      if counted
      then res_bind (overflow (count_operation_name operation) (i64_checked_add (partial_count p g) 1)) (\<lambda>count.
        Inr (if g then p\<lparr>true_count := count\<rparr> else p\<lparr>false_count := count\<rparr>))
      else Inr p))"

section \<open>The scans\<close>

definition scan_rows :: "bool list \<Rightarrow> count_operation \<Rightarrow> usize list \<Rightarrow> count_partial batch_result" where
  "scan_rows group_values operation =
     try_fold (\<lambda>p row. res_bind (index group_values row) (\<lambda>g. observe_count p g True operation))
       count_partial_default"

definition scan_nullable_int64 ::
  "bool list \<Rightarrow> nullable_i64 list \<Rightarrow> count_operation \<Rightarrow> usize list \<Rightarrow> count_partial batch_result" where
  "scan_nullable_int64 group_values count_values operation =
     try_fold (\<lambda>p row. res_bind (index group_values row) (\<lambda>g.
       res_bind (index count_values row) (\<lambda>v. observe_count p g (v \<noteq> None) operation)))
       count_partial_default"

definition scan_count_if ::
  "bool list \<Rightarrow> bool list \<Rightarrow> count_operation \<Rightarrow> usize list \<Rightarrow> count_partial batch_result" where
  "scan_count_if group_values count_values operation =
     try_fold (\<lambda>p row. res_bind (index group_values row) (\<lambda>g.
       res_bind (index count_values row) (\<lambda>v. observe_count p g v operation)))
       count_partial_default"

text \<open>The reduction step: the fields are added one after the other.\<close>

definition add_counts :: "count_operation \<Rightarrow> count_partial \<Rightarrow> count_partial \<Rightarrow> count_partial batch_result" where
  "add_counts operation t p =
     (let context = count_operation_name operation;
          t = (if count_first_seen t = None then t\<lparr>count_first_seen := count_first_seen p\<rparr> else t) in
      res_bind (overflow context (i64_checked_add (false_rows t) (false_rows p))) (\<lambda>n.
      let t = t\<lparr>false_rows := n\<rparr> in
      res_bind (overflow context (i64_checked_add (true_rows t) (true_rows p))) (\<lambda>n.
      let t = t\<lparr>true_rows := n\<rparr> in
      res_bind (overflow context (i64_checked_add (false_count t) (false_count p))) (\<lambda>n.
      let t = t\<lparr>false_count := n\<rparr> in
      res_bind (overflow context (i64_checked_add (true_count t) (true_count p))) (\<lambda>n.
      Inr (t\<lparr>true_count := n\<rparr>))))))"

definition reduce_count_ordered :: "count_operation \<Rightarrow> count_partial list \<Rightarrow> count_partial batch_result" where
  "reduce_count_ordered operation = try_fold (add_counts operation) count_partial_default"

definition reduce_rows ::
  "aggregate_parallelism \<Rightarrow> thread_behaviour \<Rightarrow> bool list \<Rightarrow> usize list \<Rightarrow> count_partial batch_result" where
  "reduce_rows par os group_values =
     run_grouped_aggregate par os (scan_rows group_values OpCount) (reduce_count_ordered OpCount)"

definition reduce_nullable_int64 ::
  "aggregate_parallelism \<Rightarrow> thread_behaviour \<Rightarrow> bool list \<Rightarrow> nullable_i64 list \<Rightarrow> usize list \<Rightarrow>
   count_partial batch_result" where
  "reduce_nullable_int64 par os group_values count_values =
     run_grouped_aggregate par os (scan_nullable_int64 group_values count_values OpCount)
       (reduce_count_ordered OpCount)"

definition reduce_count_if ::
  "aggregate_parallelism \<Rightarrow> thread_behaviour \<Rightarrow> bool list \<Rightarrow> bool list \<Rightarrow> usize list \<Rightarrow>
   count_partial batch_result" where
  "reduce_count_if par os group_values count_values =
     run_grouped_aggregate par os (scan_count_if group_values count_values OpCountIf)
       (reduce_count_ordered OpCountIf)"

section \<open>What is counted\<close>

definition counts_of :: "bool list \<Rightarrow> (usize \<Rightarrow> bool) \<Rightarrow> usize list \<Rightarrow> count_partial" where
  "counts_of group_values counted rows =
     \<lparr>false_rows = of_nat (length (rows_of_group group_values False rows)),
      true_rows = of_nat (length (rows_of_group group_values True rows)),
      false_count = of_nat (length (filter counted (rows_of_group group_values False rows))),
      true_count = of_nat (length (filter counted (rows_of_group group_values True rows))),
      count_first_seen = first_group group_values rows\<rparr>"

lemma counts_of_Nil: "counts_of gs c [] = count_partial_default"
  by (simp add: counts_of_def count_partial_default_def)

lemma group_lengths_bounded:
  "length rows \<le> n \<Longrightarrow> length (rows_of_group gs g rows) \<le> n"
  "length rows \<le> n \<Longrightarrow> length (filter c (rows_of_group gs g rows)) \<le> n"
  using length_rows_of_group [of gs g rows] length_filter_le [of c "rows_of_group gs g rows"]
  by (simp, meson le_trans)

lemma i64_checked_increment: "n < isize_max \<Longrightarrow> i64_checked_add (of_nat n) 1 = Some (of_nat (Suc n))"
  using i64_checked_add_nat [of n 1] by simp

lemma observe_counts_of:
  assumes "length rows < isize_max"
  shows "observe_count (counts_of gs c rows) (gs ! r) (c r) operation = Inr (counts_of gs c (rows @ [r]))"
proof -
  have "length (rows_of_group gs g rows) < isize_max" "length (filter c (rows_of_group gs g rows)) < isize_max" for g
    using group_lengths_bounded(1) [of rows "length rows" gs g]
      group_lengths_bounded(2) [of rows "length rows" c gs g] assms by simp_all
  then show ?thesis
    by (cases "gs ! r"; cases "c r")
      (simp_all add: observe_count_def counts_of_def partial_row_count_def partial_count_def
        i64_checked_increment del: of_nat_Suc flip: of_nat_Suc)
qed

lemma add_counts_of:
  assumes "length (xs @ ys) \<le> isize_max"
  shows "add_counts operation (counts_of gs c xs) (counts_of gs c ys) = Inr (counts_of gs c (xs @ ys))"
proof -
  have "length (rows_of_group gs g xs) + length (rows_of_group gs g ys) \<le> isize_max"
    "length (filter c (rows_of_group gs g xs)) + length (filter c (rows_of_group gs g ys)) \<le> isize_max" for g
    using group_lengths_bounded(1) [of "xs @ ys" isize_max gs g]
      group_lengths_bounded(2) [of "xs @ ys" isize_max c gs g] assms by simp_all
  then show ?thesis
    by (cases "first_group gs xs")
      (simp_all add: add_counts_def counts_of_def i64_checked_add_nat first_group_append Let_def)
qed

text \<open>The three reducers keep the contract of an ordered fold.\<close>

interpretation count_rows: row_fold
  "\<lambda>p row. res_bind (index gs row) (\<lambda>g. observe_count p g True operation)"
  "add_counts operation" count_partial_default "counts_of gs (\<lambda>_. True)" "\<lambda>r. r < length gs" isize_max
  for gs operation
  by unfold_locales
    (simp_all add: counts_of_Nil add_counts_of observe_counts_of [where c = "\<lambda>_. True", simplified])

interpretation count_nullable: row_fold
  "\<lambda>p row. res_bind (index gs row) (\<lambda>g.
     res_bind (index vs row) (\<lambda>v. observe_count p g (v \<noteq> None) operation))"
  "add_counts operation" count_partial_default "counts_of gs (\<lambda>r. vs ! r \<noteq> None)"
  "\<lambda>r. r < length gs \<and> r < length vs" isize_max
  for gs and vs :: "nullable_i64 list" and operation
  by unfold_locales
    (auto simp: counts_of_Nil add_counts_of index_def observe_counts_of [where c = "\<lambda>r. vs ! r \<noteq> None"]
      simp del: not_None_eq)

interpretation count_if: row_fold
  "\<lambda>p row. res_bind (index gs row) (\<lambda>g.
     res_bind (index vs row) (\<lambda>v. observe_count p g v operation))"
  "add_counts operation" count_partial_default "counts_of gs (\<lambda>r. vs ! r)"
  "\<lambda>r. r < length gs \<and> r < length vs" isize_max
  for gs and vs :: "bool list" and operation
  by unfold_locales
    (auto simp: counts_of_Nil add_counts_of index_def observe_counts_of [where c = "\<lambda>r. vs ! r"])

text \<open>C14: Counting by a Boolean group: for every parallelism, every admission and every failure of
  threads, the counts of rows and of counted rows in each group, and the group seen first, are those
  of the matching rows in their order; no counter overflows, and no lane panics.\<close>

theorem grouped_counts_parallel:
  assumes "length rows \<le> isize_max" and "\<forall>r \<in> set rows. r < length gs \<and> r < length vs \<and> r < length bs"
  shows "reduce_rows par os gs rows = Inr (counts_of gs (\<lambda>_. True) rows) \<and>
    reduce_nullable_int64 par os gs vs rows = Inr (counts_of gs (\<lambda>r. vs ! r \<noteq> None) rows) \<and>
    reduce_count_if par os gs bs rows = Inr (counts_of gs (\<lambda>r. bs ! r) rows)"
  using assms
    count_rows.run_meaning [of rows gs par os] count_nullable.run_meaning [of rows gs vs par os]
    count_if.run_meaning [of rows gs bs par os]
  by (simp_all add: reduce_rows_def reduce_nullable_int64_def reduce_count_if_def scan_rows_def
      scan_nullable_int64_def scan_count_if_def reduce_count_ordered_def list_all_iff)

theorem grouped_counts_parallel_witness:
  "let par = system_parallelism 16 (system_budget (Some 4)); os = \<lparr>spawns = \<lambda>i. i \<noteq> 2, dies = \<lambda>i. i = 1\<rparr>;
       gs = [True, False, True]; vs = [Some 7, None, None]; rows = [0, 2, 1] in
    reduce_nullable_int64 par os gs vs rows =
      Inr \<lparr>false_rows = 1, true_rows = 2, false_count = 0, true_count = 1, count_first_seen = Some True\<rparr>"
  unfolding Let_def
  by (subst grouped_counts_parallel [of "[0, 2, 1]" "[True, False, True]" "[Some 7, None, None]"
        "[True, True, True]" "system_parallelism 16 (system_budget (Some 4))"
        "\<lparr>spawns = \<lambda>i. i \<noteq> 2, dies = \<lambda>i. i = 1\<rparr>", THEN conjunct2, THEN conjunct1])
    (simp_all add: isize_max_def counts_of_def rows_of_group_def first_group_def)

end
