(* ===== verification/Extremum.thy ===== *)
theory Extremum
  imports Grouped_Count
begin

text \<open>
  The extrema of the second engine: \<open>MIN\<close> and \<open>MAX\<close> grouped by a Boolean column
  (\<^verbatim>\<open>src/batch/grouped_bool_max.rs\<close> and \<^verbatim>\<open>grouped_bool_min.rs\<close>, one module
  with the comparison as its parameter) and over all rows
  (\<^verbatim>\<open>src/batch/global_scalar_extremum.rs\<close>, with a driver of its own), and the proof that
  every parallel run picks the first row that holds the extreme value.
\<close>

section \<open>Choosing between two values\<close>

definition first_i64_maximum :: "i64 \<Rightarrow> i64 \<Rightarrow> i64" where
  "first_i64_maximum left right = (if sint right > sint left then right else left)"

definition first_i64_minimum :: "i64 \<Rightarrow> i64 \<Rightarrow> i64" where
  "first_i64_minimum left right = (if sint right < sint left then right else left)"

definition first_float64_minimum :: "f64 \<Rightarrow> f64 \<Rightarrow> f64" where
  "first_float64_minimum left right =
     (if scalar_cmp (VFloat64 right) (VFloat64 left) = OrdLess then right else left)"

definition first_float64_maximum :: "f64 \<Rightarrow> f64 \<Rightarrow> f64" where
  "first_float64_maximum left right =
     (if scalar_cmp (VFloat64 right) (VFloat64 left) = OrdGreater then right else left)"

text \<open>\<open>i64::min\<close> and \<open>i64::max\<close> of the standard library.\<close>

definition i64_ord_min :: "i64 \<Rightarrow> i64 \<Rightarrow> i64" where
  "i64_ord_min a b = (if sint b < sint a then b else a)"

definition i64_ord_max :: "i64 \<Rightarrow> i64 \<Rightarrow> i64" where
  "i64_ord_max a b = (if sint b < sint a then a else b)"

text \<open>Each of them keeps the left value unless the right one has the greater key.\<close>

definition prefers :: "('a \<Rightarrow> 'a \<Rightarrow> 'a) \<Rightarrow> ('a \<Rightarrow> int) \<Rightarrow> bool" where
  "prefers pick key \<longleftrightarrow> (\<forall>l r. pick l r = (if key l < key r then r else l))"

lemma sint_eq_iff: "sint a = sint b \<longleftrightarrow> a = (b :: i64)"
proof
  assume "sint a = sint b"
  then have "word_of_int (sint a) = (word_of_int (sint b) :: i64)" by simp
  then show "a = b" by simp
qed simp

lemma prefers_choices:
  "prefers first_i64_maximum sint" "prefers first_i64_minimum (\<lambda>v. - sint v)"
  "prefers i64_ord_max sint" "prefers i64_ord_min (\<lambda>v. - sint v)"
  "prefers first_float64_maximum float_key" "prefers first_float64_minimum (\<lambda>v. - float_key v)"
  by (auto simp: prefers_def first_i64_maximum_def first_i64_minimum_def i64_ord_max_def i64_ord_min_def
      first_float64_maximum_def first_float64_minimum_def float_cmp_key sint_eq_iff)

text \<open>The specification: the first element with the greatest key.\<close>

definition best_of :: "('a \<Rightarrow> int) \<Rightarrow> 'a list \<Rightarrow> 'a option" where
  "best_of key xs = find (\<lambda>x. list_all (\<lambda>y. key y \<le> key x) xs) xs"

definition best_merge :: "('a \<Rightarrow> 'a \<Rightarrow> 'a) \<Rightarrow> 'a option \<Rightarrow> 'a option \<Rightarrow> 'a option" where
  "best_merge pick l r =
     (case (l, r) of (Some x, Some y) \<Rightarrow> Some (pick x y) | (Some x, None) \<Rightarrow> Some x | (None, _) \<Rightarrow> r)"

lemma best_of_Nil [simp]: "best_of key [] = None"
  by (simp add: best_of_def)

lemma best_of_one [simp]: "best_of key [x] = Some x"
  by (simp add: best_of_def)

lemma best_of_iff:
  "best_of key xs = Some m \<longleftrightarrow>
    (\<exists>us vs. xs = us @ m # vs \<and> (\<forall>u \<in> set us. key u < key m) \<and> (\<forall>v \<in> set vs. key v \<le> key m))"
    (is "_ \<longleftrightarrow> ?split")
proof
  assume "best_of key xs = Some m"
  then obtain i where i: "i < length xs" "list_all (\<lambda>y. key y \<le> key m) xs" "m = xs ! i"
      "\<forall>j < i. \<not> list_all (\<lambda>y. key y \<le> key (xs ! j)) xs"
    by (auto simp: best_of_def find_Some_iff)
  have "key (xs ! j) < key m" if "j < i" for j
  proof -
    from i(4) that obtain y where "y \<in> set xs" "key (xs ! j) < key y" by (auto simp: list_all_iff)
    with i(2) show ?thesis by (force simp: list_all_iff)
  qed
  then have "\<forall>u \<in> set (take i xs). key u < key m" using i(1) by (auto simp: in_set_conv_nth)
  moreover have "\<forall>v \<in> set (drop (Suc i) xs). key v \<le> key m"
    using i(2) by (auto simp: list_all_iff dest: in_set_dropD)
  moreover have "xs = take i xs @ m # drop (Suc i) xs" using i(1,3) by (simp add: id_take_nth_drop)
  ultimately show ?split by blast
next
  assume ?split
  then obtain us vs where xs: "xs = us @ m # vs"
    and us: "\<forall>u \<in> set us. key u < key m" and vs: "\<forall>v \<in> set vs. key v \<le> key m" by blast
  have "\<not> list_all (\<lambda>y. key y \<le> key u) xs" if "u \<in> set us" for u
    using us that by (force simp: xs)
  then have "find (\<lambda>x. list_all (\<lambda>y. key y \<le> key x) xs) us = None" by (simp add: find_None_iff)
  then have "find (\<lambda>x. list_all (\<lambda>y. key y \<le> key x) xs) (us @ ys) = find (\<lambda>x. list_all (\<lambda>y. key y \<le> key x) xs) ys"
    for ys by (induction us) (auto split: if_splits)
  moreover have "list_all (\<lambda>y. key y \<le> key m) xs" using us vs by (force simp: xs list_all_iff)
  ultimately show "best_of key xs = Some m" by (simp add: best_of_def xs)
qed

lemma best_of_None [simp]: "best_of key xs = None \<longleftrightarrow> xs = []"
proof (induction xs)
  case (Cons x xs)
  have "\<exists>m. best_of key (x # xs) = Some m"
  proof (cases "best_of key xs")
    case None
    with Cons show ?thesis by simp
  next
    case (Some m)
    then obtain us vs where m: "xs = us @ m # vs" "\<forall>u \<in> set us. key u < key m" "\<forall>v \<in> set vs. key v \<le> key m"
      unfolding best_of_iff by blast
    show ?thesis
    proof (cases "key x < key m")
      case True
      with m have "best_of key (x # xs) = Some m"
        unfolding best_of_iff by (intro exI [of _ "x # us"] exI [of _ vs]) auto
      then show ?thesis ..
    next
      case False
      with m have "best_of key (x # xs) = Some x"
        unfolding best_of_iff by (intro exI [of _ "[]"] exI [of _ xs]) force
      then show ?thesis ..
    qed
  qed
  then show ?case by auto
qed simp

lemma best_of_append:
  assumes "prefers pick key"
  shows "best_of key (xs @ ys) = best_merge pick (best_of key xs) (best_of key ys)"
proof (cases "best_of key xs")
  case None
  then show ?thesis by (simp add: best_merge_def)
next
  case (Some m)
  note m = this
  show ?thesis
  proof (cases "best_of key ys")
    case None
    with Some show ?thesis by (simp add: best_merge_def)
  next
    case (Some n)
    from m obtain us vs where xs: "xs = us @ m # vs" "\<forall>u \<in> set us. key u < key m" "\<forall>v \<in> set vs. key v \<le> key m"
      unfolding best_of_iff by blast
    from Some obtain us' vs' where ys: "ys = us' @ n # vs'" "\<forall>u \<in> set us'. key u < key n" "\<forall>v \<in> set vs'. key v \<le> key n"
      unfolding best_of_iff by blast
    have "best_of key (xs @ ys) = Some (if key m < key n then n else m)"
    proof (cases "key m < key n")
      case True
      with xs have "\<forall>u \<in> set xs. key u < key n" by auto
      with True ys have "best_of key (xs @ ys) = Some n"
        unfolding best_of_iff by (intro exI [of _ "xs @ us'"] exI [of _ vs']) auto
      with True show ?thesis by simp
    next
      case False
      then have "\<forall>v \<in> set ys. key v \<le> key m"
        using ys by (auto intro: order_trans less_imp_le)
      with xs have "best_of key (xs @ ys) = Some m"
        unfolding best_of_iff by (intro exI [of _ us] exI [of _ "vs @ ys"]) auto
      with False show ?thesis by simp
    qed
    with m Some assms show ?thesis by (simp add: best_merge_def prefers_def)
  qed
qed

section \<open>Extrema of the groups\<close>

record 'a extremum_partial =
  false_best :: "'a option"
  true_best :: "'a option"
  best_first_seen :: "bool option"

definition extremum_default :: "'a extremum_partial" where
  "extremum_default = \<lparr>false_best = None, true_best = None, best_first_seen = None\<rparr>"

definition slot :: "'a extremum_partial \<Rightarrow> bool \<Rightarrow> 'a option" where
  "slot p g = (if g then true_best p else false_best p)"

definition slot_present :: "'a extremum_partial \<Rightarrow> bool \<Rightarrow> bool" where
  "slot_present p g \<longleftrightarrow> slot p g \<noteq> None"

definition slot_extremum :: "'a extremum_partial \<Rightarrow> bool \<Rightarrow> 'a batch_result" where
  "slot_extremum p g = ok_or (slot p g) Panicked"

definition observe_best :: "('a \<Rightarrow> 'a \<Rightarrow> 'a) \<Rightarrow> 'a extremum_partial \<Rightarrow> bool \<Rightarrow> 'a \<Rightarrow> 'a extremum_partial" where
  "observe_best pick p g v =
     (let p = p\<lparr>best_first_seen := get_or_insert (best_first_seen p) g\<rparr>;
          best = Some (case slot p g of None \<Rightarrow> v | Some current \<Rightarrow> pick current v) in
      if g then p\<lparr>true_best := best\<rparr> else p\<lparr>false_best := best\<rparr>)"

definition scan_best ::
  "('a \<Rightarrow> 'a \<Rightarrow> 'a) \<Rightarrow> bool list \<Rightarrow> 'a list \<Rightarrow> usize list \<Rightarrow> 'a extremum_partial batch_result" where
  "scan_best pick group_values best_values =
     try_fold (\<lambda>p row. res_bind (index group_values row) (\<lambda>g.
       res_bind (index best_values row) (\<lambda>v. Inr (observe_best pick p g v))))
       extremum_default"

definition merge_best :: "('a \<Rightarrow> 'a \<Rightarrow> 'a) \<Rightarrow> 'a extremum_partial \<Rightarrow> 'a extremum_partial \<Rightarrow> 'a extremum_partial" where
  "merge_best pick t p =
     (let t = (if best_first_seen t = None then t\<lparr>best_first_seen := best_first_seen p\<rparr> else t);
          t = (case false_best p of None \<Rightarrow> t | Some v \<Rightarrow> observe_best pick t False v) in
      (case true_best p of None \<Rightarrow> t | Some v \<Rightarrow> observe_best pick t True v))"

definition reduce_best_ordered :: "('a \<Rightarrow> 'a \<Rightarrow> 'a) \<Rightarrow> 'a extremum_partial list \<Rightarrow> 'a extremum_partial batch_result" where
  "reduce_best_ordered pick partials = Inr (foldl (merge_best pick) extremum_default partials)"

definition reduce_best ::
  "aggregate_parallelism \<Rightarrow> thread_behaviour \<Rightarrow> ('a \<Rightarrow> 'a \<Rightarrow> 'a) \<Rightarrow> bool list \<Rightarrow> 'a list \<Rightarrow> usize list \<Rightarrow>
   'a extremum_partial batch_result" where
  "reduce_best par os pick group_values best_values =
     run_grouped_aggregate par os (scan_best pick group_values best_values) (reduce_best_ordered pick)"

definition reduce_max_int64 ::
  "aggregate_parallelism \<Rightarrow> thread_behaviour \<Rightarrow> bool list \<Rightarrow> i64 list \<Rightarrow> usize list \<Rightarrow> i64 extremum_partial batch_result" where
  "reduce_max_int64 par os = reduce_best par os first_i64_maximum"

definition reduce_max_float64 ::
  "aggregate_parallelism \<Rightarrow> thread_behaviour \<Rightarrow> bool list \<Rightarrow> f64 list \<Rightarrow> usize list \<Rightarrow> f64 extremum_partial batch_result" where
  "reduce_max_float64 par os = reduce_best par os first_float64_maximum"

definition reduce_min_int64 ::
  "aggregate_parallelism \<Rightarrow> thread_behaviour \<Rightarrow> bool list \<Rightarrow> i64 list \<Rightarrow> usize list \<Rightarrow> i64 extremum_partial batch_result" where
  "reduce_min_int64 par os = reduce_best par os first_i64_minimum"

definition reduce_min_float64 ::
  "aggregate_parallelism \<Rightarrow> thread_behaviour \<Rightarrow> bool list \<Rightarrow> f64 list \<Rightarrow> usize list \<Rightarrow> f64 extremum_partial batch_result" where
  "reduce_min_float64 par os = reduce_best par os first_float64_minimum"

text \<open>What a partial stands for: the first best value of each group.\<close>

definition group_bests :: "('a \<Rightarrow> int) \<Rightarrow> bool list \<Rightarrow> 'a list \<Rightarrow> usize list \<Rightarrow> 'a extremum_partial" where
  "group_bests key group_values best_values rows =
     \<lparr>false_best = best_of key (map ((!) best_values) (rows_of_group group_values False rows)),
      true_best = best_of key (map ((!) best_values) (rows_of_group group_values True rows)),
      best_first_seen = first_group group_values rows\<rparr>"

lemma group_bests_Nil: "group_bests key gs vs [] = extremum_default"
  by (simp add: group_bests_def extremum_default_def)

lemma try_fold_Inr: "try_fold (\<lambda>s x. Inr (f s x)) s xs = Inr (foldl f s xs)"
  by (induction xs arbitrary: s) auto

lemma reduce_best_ordered_fold:
  "reduce_best_ordered pick = try_fold (\<lambda>t p. Inr (merge_best pick t p)) extremum_default"
  by (rule ext) (simp add: reduce_best_ordered_def try_fold_Inr)

lemma observe_group_bests:
  assumes "prefers pick key"
  shows "observe_best pick (group_bests key gs vs rows) (gs ! r) (vs ! r) = group_bests key gs vs (rows @ [r])"
  by (cases "gs ! r")
    (simp_all add: observe_best_def group_bests_def slot_def best_of_append [OF assms] best_merge_def
      split: option.split)

lemma first_group_None [simp]: "first_group gs rows = None \<longleftrightarrow> rows = []"
  by (simp add: first_group_def split: list.split)

lemma merge_group_bests:
  assumes "prefers pick key"
  shows "merge_best pick (group_bests key gs vs xs) (group_bests key gs vs ys) = group_bests key gs vs (xs @ ys)"
proof -
  have seen: "first_group gs ys \<noteq> None" if "best_of key (map ((!) vs) (rows_of_group gs g ys)) = Some v" for g v
    using that by (cases ys) auto
  show ?thesis
    using seen [of False] seen [of True]
    by (simp add: merge_best_def observe_best_def group_bests_def slot_def best_of_append [OF assms]
        best_merge_def first_group_append get_or_insert_def Let_def split: option.split)
qed

locale preference =
  fixes pick :: "'a \<Rightarrow> 'a \<Rightarrow> 'a" and key :: "'a \<Rightarrow> int"
  assumes prefers_key: "prefers pick key"

sublocale preference \<subseteq> grouped_best: row_fold
  "\<lambda>p row. res_bind (index gs row) (\<lambda>g. res_bind (index vs row) (\<lambda>v. Inr (observe_best pick p g v)))"
  "\<lambda>t p. Inr (merge_best pick t p)" extremum_default "group_bests key gs vs"
  "\<lambda>r. r < length gs \<and> r < length vs" isize_max
  for gs vs
  by unfold_locales
    (auto simp: group_bests_Nil index_def observe_group_bests [OF prefers_key] merge_group_bests [OF prefers_key])

context preference
begin

lemma grouped_extremum:
  assumes "length rows \<le> isize_max" and "\<forall>r \<in> set rows. r < length gs \<and> r < length vs"
  shows "reduce_best par os pick gs vs rows = Inr (group_bests key gs vs rows)"
  using grouped_best.run_meaning [of rows gs vs par os] assms
  by (simp add: reduce_best_def scan_best_def reduce_best_ordered_fold list_all_iff)

end

interpretation max_i64: preference first_i64_maximum sint
  by unfold_locales (rule prefers_choices)

interpretation min_i64: preference first_i64_minimum "\<lambda>v. - sint v"
  by unfold_locales (rule prefers_choices)

interpretation max_f64: preference first_float64_maximum float_key
  by unfold_locales (rule prefers_choices)

interpretation min_f64: preference first_float64_minimum "\<lambda>v. - float_key v"
  by unfold_locales (rule prefers_choices)

section \<open>Extrema of all rows\<close>

text \<open>A lane skips the rows \<open>map\<close> drops (nulls) and keeps the better of two values.\<close>

definition scalar_chunk ::
  "'t list \<Rightarrow> ('t \<Rightarrow> 'a option) \<Rightarrow> ('a \<Rightarrow> 'a \<Rightarrow> 'a) \<Rightarrow> usize list \<Rightarrow> 'a option batch_result" where
  "scalar_chunk column take_value compare =
     try_fold (\<lambda>best row. res_bind (index column row) (\<lambda>v.
       Inr (case take_value v of
         None \<Rightarrow> best
       | Some x \<Rightarrow> Some (case best of None \<Rightarrow> x | Some b \<Rightarrow> compare b x)))) None"

fun reduce_partials :: "('a \<Rightarrow> 'a \<Rightarrow> 'a) \<Rightarrow> 'a option \<Rightarrow> 'a option \<Rightarrow> 'a option" where
  "reduce_partials compare (Some l) (Some r) = Some (compare l r)"
| "reduce_partials compare (Some v) None = Some v"
| "reduce_partials compare None (Some v) = Some v"
| "reduce_partials compare None None = None"

text \<open>Joined partial results are combined on the fly; a lane that panicked leaves the extremum and
  marks the run as failed.\<close>

definition reduce_scalar ::
  "aggregate_parallelism \<Rightarrow> thread_behaviour \<Rightarrow> 't list \<Rightarrow> ('t \<Rightarrow> 'a option) \<Rightarrow> ('a \<Rightarrow> 'a \<Rightarrow> 'a) \<Rightarrow>
   usize list \<Rightarrow> 'a option batch_result" where
  "reduce_scalar par os column take_value compare rows =
     (let chunk = scalar_chunk column take_value compare in
      case try_admit par (length rows) of
        None \<Rightarrow> chunk rows
      | Some (helper_threads, _) \<Rightarrow>
          let lanes = saturating_add helper_threads 1;
              joined = joined_lanes os chunk rows lanes;
              worker_failed = length (spawned_lanes os lanes) < lanes - 1 \<or> list_ex panicked joined
          in res_bind (chunk (parallel_aggregate_partition rows lanes 0)) (\<lambda>own.
             let extremum = foldl (\<lambda>best r. case r of Inr p \<Rightarrow> reduce_partials compare best p | Inl _ \<Rightarrow> best) own joined
             in if worker_failed then chunk rows else Inr extremum))"

definition min_int64 :: "aggregate_parallelism \<Rightarrow> thread_behaviour \<Rightarrow> i64 list \<Rightarrow> usize list \<Rightarrow> i64 option batch_result" where
  "min_int64 par os column = reduce_scalar par os column Some i64_ord_min"

definition max_int64 :: "aggregate_parallelism \<Rightarrow> thread_behaviour \<Rightarrow> i64 list \<Rightarrow> usize list \<Rightarrow> i64 option batch_result" where
  "max_int64 par os column = reduce_scalar par os column Some i64_ord_max"

definition min_nullable_int64 ::
  "aggregate_parallelism \<Rightarrow> thread_behaviour \<Rightarrow> nullable_i64 list \<Rightarrow> usize list \<Rightarrow> i64 option batch_result" where
  "min_nullable_int64 par os column = reduce_scalar par os column (\<lambda>v. v) i64_ord_min"

definition max_nullable_int64 ::
  "aggregate_parallelism \<Rightarrow> thread_behaviour \<Rightarrow> nullable_i64 list \<Rightarrow> usize list \<Rightarrow> i64 option batch_result" where
  "max_nullable_int64 par os column = reduce_scalar par os column (\<lambda>v. v) i64_ord_max"

definition min_float64 :: "aggregate_parallelism \<Rightarrow> thread_behaviour \<Rightarrow> f64 list \<Rightarrow> usize list \<Rightarrow> f64 option batch_result" where
  "min_float64 par os column = reduce_scalar par os column Some first_float64_minimum"

definition max_float64 :: "aggregate_parallelism \<Rightarrow> thread_behaviour \<Rightarrow> f64 list \<Rightarrow> usize list \<Rightarrow> f64 option batch_result" where
  "max_float64 par os column = reduce_scalar par os column Some first_float64_maximum"

lemma reduce_partials_merge: "reduce_partials f a b = best_merge f a b"
  by (cases "(f, a, b)" rule: reduce_partials.cases) (simp_all add: best_merge_def)

text \<open>A lane either returns a partial or panics, so this driver is the grouped one with a fold that
  cannot fail.\<close>

lemma scalar_chunk_result: "scalar_chunk column take_value f rows = Inl e \<Longrightarrow> e = Panicked"
proof -
  have "try_fold (\<lambda>best row. res_bind (index column row) (\<lambda>v.
       Inr (case take_value v of None \<Rightarrow> best | Some x \<Rightarrow> Some (case best of None \<Rightarrow> x | Some b \<Rightarrow> f b x)))) best rows
     = Inl e \<Longrightarrow> e = Panicked" for best
    by (induction rows arbitrary: best) (auto simp: result_simps index_def split: if_splits)
  then show "scalar_chunk column take_value f rows = Inl e \<Longrightarrow> e = Panicked"
    by (simp add: scalar_chunk_def)
qed

lemma collect_unpanicked:
  "\<not> list_ex panicked rs \<Longrightarrow> \<forall>r \<in> set rs. \<forall>e. r = Inl e \<longrightarrow> e = Panicked \<Longrightarrow>
    \<exists>ps. rs = map Inr ps \<and> collect_results rs = Inr ps"
proof (induction rs)
  case (Cons r rs)
  then obtain ps where "rs = map Inr ps" "collect_results rs = Inr ps" by auto
  moreover obtain p where "r = Inr p" using Cons.prems by (cases r) auto
  ultimately show ?case by (intro exI [of _ "p # ps"]) simp
qed simp

lemma foldl_partials:
  "foldl (\<lambda>best r. case r of Inr p \<Rightarrow> reduce_partials f best p | Inl _ \<Rightarrow> best) own (map Inr ps) =
     foldl (reduce_partials f) own ps"
  by (induction ps arbitrary: own) auto

lemma reduce_scalar_run:
  "reduce_scalar par os column take_value f rows =
     run_grouped_aggregate par os (scalar_chunk column take_value f)
       (try_fold (\<lambda>t p. Inr (reduce_partials f t p)) None) rows"
proof (cases "try_admit par (length rows)")
  case None
  then show ?thesis by (simp add: reduce_scalar_def run_grouped_aggregate_def Let_def)
next
  case (Some hb)
  obtain h b where hb: "hb = (h, b)" by (cases hb)
  define k where "k = saturating_add h 1"
  let ?chunk = "scalar_chunk column take_value f"
  show ?thesis
  proof (cases "?chunk (parallel_aggregate_partition rows k 0)")
    case (Inl e)
    with scalar_chunk_result [OF Inl] Some hb k_def show ?thesis
      by (simp add: reduce_scalar_def run_grouped_aggregate_def Let_def)
  next
    case (Inr own)
    show ?thesis
    proof (cases "list_ex panicked (joined_lanes os ?chunk rows k)")
      case True
      with Inr Some hb k_def show ?thesis
        by (simp add: reduce_scalar_def run_grouped_aggregate_def Let_def)
    next
      case False
      have "\<forall>r \<in> set (joined_lanes os ?chunk rows k). \<forall>e. r = Inl e \<longrightarrow> e = Panicked"
        using scalar_chunk_result [of column take_value f] by (fastforce simp: joined_lanes_def split: if_splits)
      with False obtain ps where ps: "joined_lanes os ?chunk rows k = map Inr ps" "collect_results (map Inr ps) = Inr ps"
        using collect_unpanicked [of "joined_lanes os ?chunk rows k"] by auto
      have "reduce_partials f None own = own" by (cases own) simp_all
      with False Inr Some hb k_def ps show ?thesis
        by (simp add: reduce_scalar_def run_grouped_aggregate_def Let_def foldl_partials try_fold_Inr)
    qed
  qed
qed

text \<open>The values the rows select, without the nulls.\<close>

definition taken_values :: "'t list \<Rightarrow> ('t \<Rightarrow> 'a option) \<Rightarrow> usize list \<Rightarrow> 'a list" where
  "taken_values column take_value rows = List.map_filter (\<lambda>r. take_value (column ! r)) rows"

lemma taken_values_append [simp]:
  "taken_values c f (xs @ ys) = taken_values c f xs @ taken_values c f ys"
  by (simp add: taken_values_def List.map_filter_def)

lemma taken_values_Nil [simp]: "taken_values c f [] = []"
  by (simp add: taken_values_def List.map_filter_def)

lemma taken_values_one [simp]:
  "taken_values c f [r] = (case f (c ! r) of None \<Rightarrow> [] | Some x \<Rightarrow> [x])"
  by (simp add: taken_values_def List.map_filter_def split: option.split)

lemma taken_values_all [simp]: "taken_values c Some rows = map ((!) c) rows"
  by (simp add: taken_values_def List.map_filter_def comp_def)

sublocale preference \<subseteq> global_best: row_fold
  "\<lambda>best row. res_bind (index column row) (\<lambda>v.
     Inr (case take_value v of
       None \<Rightarrow> best
     | Some x \<Rightarrow> Some (case best of None \<Rightarrow> x | Some b \<Rightarrow> pick b x)))"
  "\<lambda>t p. Inr (reduce_partials pick t p)" None "\<lambda>rows. best_of key (taken_values column take_value rows)"
  "\<lambda>r. r < length column" isize_max
  for column and take_value :: "'t \<Rightarrow> 'a option"
  by unfold_locales
    (auto simp: index_def best_of_append [OF prefers_key] reduce_partials_merge best_merge_def split: option.split)

context preference
begin

lemma global_extremum:
  assumes "length rows \<le> isize_max" and "\<forall>r \<in> set rows. r < length column"
  shows "reduce_scalar par os column take_value pick rows =
    Inr (best_of key (taken_values column take_value rows))"
  using global_best.run_meaning [of rows column par os take_value] assms
  by (simp add: reduce_scalar_run scalar_chunk_def list_all_iff)

end

interpretation ord_max_i64: preference i64_ord_max sint
  by unfold_locales (rule prefers_choices)

interpretation ord_min_i64: preference i64_ord_min "\<lambda>v. - sint v"
  by unfold_locales (rule prefers_choices)

text \<open>C17: Extrema: for every admission and every failure of threads, the \<open>MIN\<close> and
  \<open>MAX\<close> of integers and of doubles in each Boolean group is the value of the first matching row
  of the group that no other one beats (so \<open>-0.0\<close> and \<open>0.0\<close> are not exchanged), and
  over all matching rows it is the best of the values that are not null, or nothing when there is
  none.\<close>

theorem extrema_parallel:
  assumes "length rows \<le> isize_max"
    and "\<forall>r \<in> set rows. r < length gs \<and> r < length is \<and> r < length ns \<and> r < length fs"
  shows "reduce_max_int64 par os gs is rows = Inr (group_bests sint gs is rows) \<and>
    reduce_min_int64 par os gs is rows = Inr (group_bests (\<lambda>v. - sint v) gs is rows) \<and>
    reduce_max_float64 par os gs fs rows = Inr (group_bests float_key gs fs rows) \<and>
    reduce_min_float64 par os gs fs rows = Inr (group_bests (\<lambda>v. - float_key v) gs fs rows) \<and>
    max_int64 par os is rows = Inr (best_of sint (map ((!) is) rows)) \<and>
    min_int64 par os is rows = Inr (best_of (\<lambda>v. - sint v) (map ((!) is) rows)) \<and>
    max_nullable_int64 par os ns rows = Inr (best_of sint (taken_values ns (\<lambda>v. v) rows)) \<and>
    min_nullable_int64 par os ns rows = Inr (best_of (\<lambda>v. - sint v) (taken_values ns (\<lambda>v. v) rows)) \<and>
    max_float64 par os fs rows = Inr (best_of float_key (map ((!) fs) rows)) \<and>
    min_float64 par os fs rows = Inr (best_of (\<lambda>v. - float_key v) (map ((!) fs) rows))"
  using assms
  by (simp add: reduce_max_int64_def reduce_min_int64_def reduce_max_float64_def reduce_min_float64_def
      max_i64.grouped_extremum min_i64.grouped_extremum max_f64.grouped_extremum min_f64.grouped_extremum
      max_int64_def min_int64_def max_nullable_int64_def min_nullable_int64_def max_float64_def
      min_float64_def ord_max_i64.global_extremum ord_min_i64.global_extremum max_f64.global_extremum
      min_f64.global_extremum)

theorem extrema_parallel_witness:
  "let par = system_parallelism 16 (system_budget (Some 4)); os = \<lparr>spawns = \<lambda>i. True, dies = \<lambda>i. i = 1\<rparr> in
    max_nullable_int64 par os [Some 5, None, Some (- 2)] [2, 1, 0] = Inr (Some 5)"
  unfolding Let_def
  by (subst extrema_parallel [of "[2, 1, 0]" "[True, True, True]" "[0, 0, 0]" "[Some 5, None, Some (- 2)]" "[0, 0, 0]"
        "system_parallelism 16 (system_budget (Some 4))" "\<lparr>spawns = \<lambda>i. True, dies = \<lambda>i. i = 1\<rparr>",
        THEN conjunct2, THEN conjunct2, THEN conjunct2, THEN conjunct2, THEN conjunct2, THEN conjunct2, THEN conjunct1])
    (simp_all add: isize_max_def best_of_def taken_values_def List.map_filter_def)

end
