(* ===== verification/Int64_Sums.thy ===== *)
theory Int64_Sums
  imports Extremum
begin

text \<open>
  \<open>SUM\<close> and \<open>AVG\<close> of integers, over all rows
  (\<^verbatim>\<open>src/batch/global_int64_sum_avg.rs\<close>) and grouped by a Boolean column
  (\<^verbatim>\<open>src/batch/grouped_bool_sum_avg.rs\<close>): exact 128-bit sums and 64-bit counts with their
  overflow checks, and the proof that every parallel run returns the exact sum and count.
\<close>

section \<open>Sums and counts\<close>

datatype sum_operation = OpSum | OpAvg

fun sum_overflow_context :: "sum_operation \<Rightarrow> string" where
  "sum_overflow_context OpSum = ''SUM(Int64) exact sum''"
| "sum_overflow_context OpAvg = ''AVG(Int64) sum''"

fun count_overflow_context :: "sum_operation \<Rightarrow> string" where
  "count_overflow_context OpSum = ''SUM count''"
| "count_overflow_context OpAvg = ''AVG count''"

record sum_partial =
  partial_sum :: int
  partial_values :: u64

definition sum_partial_default :: sum_partial where
  "sum_partial_default = \<lparr>partial_sum = 0, partial_values = 0\<rparr>"

definition observe_sum :: "sum_operation \<Rightarrow> sum_partial \<Rightarrow> i64 \<Rightarrow> sum_partial batch_result" where
  "observe_sum operation p v =
     res_bind (overflow (sum_overflow_context operation) (i128_checked_add (partial_sum p) (sint v))) (\<lambda>s.
     let p = p\<lparr>partial_sum := s\<rparr> in
     res_bind (overflow (count_overflow_context operation) (u64_checked_add (partial_values p) 1)) (\<lambda>n.
     Inr (p\<lparr>partial_values := n\<rparr>)))"

definition add_sums :: "sum_operation \<Rightarrow> sum_partial \<Rightarrow> sum_partial \<Rightarrow> sum_partial batch_result" where
  "add_sums operation t p =
     res_bind (overflow (sum_overflow_context operation) (i128_checked_add (partial_sum t) (partial_sum p))) (\<lambda>s.
     res_bind (overflow (count_overflow_context operation) (u64_checked_add (partial_values t) (partial_values p))) (\<lambda>n.
     Inr \<lparr>partial_sum = s, partial_values = n\<rparr>))"

definition scan_int64_chunk :: "sum_operation \<Rightarrow> i64 list \<Rightarrow> usize list \<Rightarrow> sum_partial batch_result" where
  "scan_int64_chunk operation column =
     try_fold (\<lambda>p row. res_bind (index column row) (\<lambda>v. observe_sum operation p v)) sum_partial_default"

definition scan_nullable_int64_chunk ::
  "sum_operation \<Rightarrow> nullable_i64 list \<Rightarrow> usize list \<Rightarrow> sum_partial batch_result" where
  "scan_nullable_int64_chunk operation column =
     try_fold (\<lambda>p row. res_bind (index column row) (\<lambda>v.
       case v of None \<Rightarrow> Inr p | Some x \<Rightarrow> observe_sum operation p x)) sum_partial_default"

definition reduce_sum_ordered :: "sum_operation \<Rightarrow> sum_partial list \<Rightarrow> sum_partial batch_result" where
  "reduce_sum_ordered operation = try_fold (add_sums operation) sum_partial_default"

definition sum_int64 ::
  "aggregate_parallelism \<Rightarrow> thread_behaviour \<Rightarrow> sum_operation \<Rightarrow> i64 list \<Rightarrow> usize list \<Rightarrow> sum_partial batch_result" where
  "sum_int64 par os operation column =
     run_grouped_aggregate par os (scan_int64_chunk operation column) (reduce_sum_ordered operation)"

definition sum_nullable_int64 ::
  "aggregate_parallelism \<Rightarrow> thread_behaviour \<Rightarrow> sum_operation \<Rightarrow> nullable_i64 list \<Rightarrow> usize list \<Rightarrow>
   sum_partial batch_result" where
  "sum_nullable_int64 par os operation column =
     run_grouped_aggregate par os (scan_nullable_int64_chunk operation column) (reduce_sum_ordered operation)"

section \<open>Sums of the groups\<close>

record group_sums =
  false_group :: sum_partial
  true_group :: sum_partial
  sums_first_seen :: "bool option"

definition group_sums_default :: group_sums where
  "group_sums_default =
     \<lparr>false_group = sum_partial_default, true_group = sum_partial_default, sums_first_seen = None\<rparr>"

definition sums_group :: "group_sums \<Rightarrow> bool \<Rightarrow> sum_partial" where
  "sums_group p g = (if g then true_group p else false_group p)"

definition sums_present :: "group_sums \<Rightarrow> bool \<Rightarrow> bool" where
  "sums_present p g \<longleftrightarrow> partial_values (sums_group p g) > 0"

definition observe_group_sum :: "sum_operation \<Rightarrow> group_sums \<Rightarrow> bool \<Rightarrow> i64 \<Rightarrow> group_sums batch_result" where
  "observe_group_sum operation p g v =
     (let p = p\<lparr>sums_first_seen := get_or_insert (sums_first_seen p) g\<rparr>; q = sums_group p g in
      res_bind (overflow (sum_overflow_context operation) (i128_checked_add (partial_sum q) (sint v))) (\<lambda>s.
      let q = q\<lparr>partial_sum := s\<rparr> in
      res_bind (overflow (count_overflow_context operation) (u64_checked_add (partial_values q) 1)) (\<lambda>n.
      let q = q\<lparr>partial_values := n\<rparr> in
      Inr (if g then p\<lparr>true_group := q\<rparr> else p\<lparr>false_group := q\<rparr>))))"

definition scan_group_sums ::
  "sum_operation \<Rightarrow> bool list \<Rightarrow> i64 list \<Rightarrow> usize list \<Rightarrow> group_sums batch_result" where
  "scan_group_sums operation group_values sum_values =
     try_fold (\<lambda>p row. res_bind (index group_values row) (\<lambda>g.
       res_bind (index sum_values row) (\<lambda>v. observe_group_sum operation p g v))) group_sums_default"

definition add_group_sums :: "sum_operation \<Rightarrow> group_sums \<Rightarrow> group_sums \<Rightarrow> group_sums batch_result" where
  "add_group_sums operation t p =
     (let t = (if sums_first_seen t = None then t\<lparr>sums_first_seen := sums_first_seen p\<rparr> else t);
          sum_context = sum_overflow_context operation; count_context = count_overflow_context operation in
      res_bind (overflow sum_context (i128_checked_add (partial_sum (false_group t)) (partial_sum (false_group p)))) (\<lambda>s.
      let t = t\<lparr>false_group := (false_group t)\<lparr>partial_sum := s\<rparr>\<rparr> in
      res_bind (overflow count_context (u64_checked_add (partial_values (false_group t)) (partial_values (false_group p)))) (\<lambda>n.
      let t = t\<lparr>false_group := (false_group t)\<lparr>partial_values := n\<rparr>\<rparr> in
      res_bind (overflow sum_context (i128_checked_add (partial_sum (true_group t)) (partial_sum (true_group p)))) (\<lambda>s.
      let t = t\<lparr>true_group := (true_group t)\<lparr>partial_sum := s\<rparr>\<rparr> in
      res_bind (overflow count_context (u64_checked_add (partial_values (true_group t)) (partial_values (true_group p)))) (\<lambda>n.
      Inr (t\<lparr>true_group := (true_group t)\<lparr>partial_values := n\<rparr>\<rparr>))))))"

definition reduce_group_sums_ordered :: "sum_operation \<Rightarrow> group_sums list \<Rightarrow> group_sums batch_result" where
  "reduce_group_sums_ordered operation = try_fold (add_group_sums operation) group_sums_default"

definition reduce_group_sums ::
  "aggregate_parallelism \<Rightarrow> thread_behaviour \<Rightarrow> sum_operation \<Rightarrow> bool list \<Rightarrow> i64 list \<Rightarrow> usize list \<Rightarrow>
   group_sums batch_result" where
  "reduce_group_sums par os operation group_values sum_values =
     run_grouped_aggregate par os (scan_group_sums operation group_values sum_values)
       (reduce_group_sums_ordered operation)"

section \<open>The exact sum\<close>

definition exact_sum :: "i64 list \<Rightarrow> sum_partial" where
  "exact_sum vs = \<lparr>partial_sum = (\<Sum>v \<leftarrow> vs. sint v), partial_values = of_nat (length vs)\<rparr>"

lemma exact_sum_Nil [simp]: "exact_sum [] = sum_partial_default"
  by (simp add: exact_sum_def sum_partial_default_def)

lemma sum_list_sint_bound: "\<bar>\<Sum>v \<leftarrow> vs. sint (v :: i64)\<bar> \<le> 2 ^ 63 * int (length vs)"
proof (induction vs)
  case (Cons v vs)
  have "\<bar>sint v\<bar> \<le> 2 ^ 63" using sint_i64_bounds [of v] by (auto simp: i64_min_def i64_max_def abs_le_iff)
  with Cons show ?case by (simp add: algebra_simps)
qed simp

lemma sums_fit:
  assumes "length xs \<le> isize_max"
  shows "- (2 ^ 127) \<le> (\<Sum>v \<leftarrow> xs. sint (v :: i64)) \<and> (\<Sum>v \<leftarrow> xs. sint v) < 2 ^ 127"
proof -
  have "int (length xs) \<le> 2 ^ 63" using assms by (simp add: isize_max_def)
  then have "(2 ^ 63 :: int) * int (length xs) \<le> 2 ^ 63 * 2 ^ 63" by simp
  with sum_list_sint_bound [of xs] have "\<bar>\<Sum>v \<leftarrow> xs. sint v\<bar> \<le> 2 ^ 63 * 2 ^ 63" by (rule order_trans)
  then show ?thesis by (auto simp: abs_le_iff)
qed

lemma i128_sum_append:
  assumes "length (xs @ ys) \<le> isize_max"
  shows "i128_checked_add (\<Sum>v \<leftarrow> xs. sint (v :: i64)) (\<Sum>v \<leftarrow> ys. sint v) = Some (\<Sum>v \<leftarrow> xs @ ys. sint v)"
  using sums_fit [OF assms] by (simp add: i128_checked_add_small)

lemma add_exact_sums:
  assumes "length (xs @ ys) \<le> isize_max"
  shows "add_sums operation (exact_sum xs) (exact_sum ys) = Inr (exact_sum (xs @ ys))"
  using i128_sum_append [OF assms] u64_checked_add_nat [of "length xs" "length ys"] assms
  by (simp add: add_sums_def exact_sum_def)

lemma observe_exact_sum:
  assumes "length xs < isize_max"
  shows "observe_sum operation (exact_sum xs) v = Inr (exact_sum (xs @ [v]))"
  using i128_sum_append [of xs "[v]"] u64_checked_add_nat [of "length xs" 1] assms
  by (simp add: observe_sum_def exact_sum_def add.commute)

lemma length_taken: "length (taken_values column f rows) \<le> length rows"
  using length_filter_le [of _ rows] by (simp add: taken_values_def List.map_filter_def)

interpretation plain_sum: row_fold
  "\<lambda>p row. res_bind (index column row) (\<lambda>v. observe_sum operation p v)"
  "add_sums operation" sum_partial_default "\<lambda>rows. exact_sum (map ((!) column) rows)"
  "\<lambda>r. r < length column" isize_max
  for column operation
proof unfold_locales
  fix xs ys :: "usize list"
  assume "length (xs @ ys) \<le> isize_max"
  then show "add_sums operation (exact_sum (map ((!) column) xs)) (exact_sum (map ((!) column) ys)) =
      Inr (exact_sum (map ((!) column) (xs @ ys)))"
    using add_exact_sums [of "map ((!) column) xs" "map ((!) column) ys"] by simp
qed (simp_all add: observe_exact_sum)

interpretation nullable_sum: row_fold
  "\<lambda>p row. res_bind (index column row) (\<lambda>v. case v of None \<Rightarrow> Inr p | Some x \<Rightarrow> observe_sum operation p x)"
  "add_sums operation" sum_partial_default "\<lambda>rows. exact_sum (taken_values column (\<lambda>v. v) rows)"
  "\<lambda>r. r < length column" isize_max
  for column operation
proof unfold_locales
  fix xs ys :: "usize list"
  assume "length (xs @ ys) \<le> isize_max"
  then show "add_sums operation (exact_sum (taken_values column (\<lambda>v. v) xs)) (exact_sum (taken_values column (\<lambda>v. v) ys)) =
      Inr (exact_sum (taken_values column (\<lambda>v. v) (xs @ ys)))"
    using length_taken [of column "\<lambda>v. v" "xs @ ys"]
      add_exact_sums [of "taken_values column (\<lambda>v. v) xs" "taken_values column (\<lambda>v. v) ys"] by simp
next
  fix r :: usize and rows :: "usize list"
  assume "length rows < isize_max" and r: "r < length column"
  then have "length (taken_values column (\<lambda>v. v) rows) < isize_max"
    using length_taken [of column "\<lambda>v. v" rows] by simp
  with r show "res_bind (index column r) (\<lambda>v. case v of None \<Rightarrow> Inr (exact_sum (taken_values column (\<lambda>v. v) rows))
        | Some x \<Rightarrow> observe_sum operation (exact_sum (taken_values column (\<lambda>v. v) rows)) x) =
      Inr (exact_sum (taken_values column (\<lambda>v. v) (rows @ [r])))"
    by (simp add: observe_exact_sum split: option.split)
qed simp_all

definition exact_group_sums :: "bool list \<Rightarrow> i64 list \<Rightarrow> usize list \<Rightarrow> group_sums" where
  "exact_group_sums group_values sum_values rows =
     \<lparr>false_group = exact_sum (map ((!) sum_values) (rows_of_group group_values False rows)),
      true_group = exact_sum (map ((!) sum_values) (rows_of_group group_values True rows)),
      sums_first_seen = first_group group_values rows\<rparr>"

lemma observe_group_sum_alt:
  "observe_group_sum operation p g v =
     res_bind (observe_sum operation (sums_group p g) v) (\<lambda>q.
       let p = p\<lparr>sums_first_seen := get_or_insert (sums_first_seen p) g\<rparr> in
       Inr (if g then p\<lparr>true_group := q\<rparr> else p\<lparr>false_group := q\<rparr>))"
  by (cases "i128_checked_add (partial_sum (sums_group p g)) (sint v)";
      cases "u64_checked_add (partial_values (sums_group p g)) 1")
    (simp_all add: observe_group_sum_def observe_sum_def sums_group_def Let_def split: if_splits)

lemma observe_exact_group_sum:
  assumes "length rows < isize_max"
  shows "observe_group_sum operation (exact_group_sums gs vs rows) (gs ! r) (vs ! r) = Inr (exact_group_sums gs vs (rows @ [r]))"
proof -
  have "length (rows_of_group gs g rows) < isize_max" for g
    using length_rows_of_group [of gs g rows] assms by simp
  then show ?thesis
    by (cases "gs ! r") (simp_all add: observe_group_sum_alt exact_group_sums_def sums_group_def observe_exact_sum)
qed

lemma add_exact_group_sums:
  assumes "length (xs @ ys) \<le> isize_max"
  shows "add_group_sums operation (exact_group_sums gs vs xs) (exact_group_sums gs vs ys) =
    Inr (exact_group_sums gs vs (xs @ ys))"
proof -
  let ?at = "\<lambda>g rows. map ((!) vs) (rows_of_group gs g rows)"
  have len: "length (?at g xs @ ?at g ys) \<le> isize_max" for g
    using length_rows_of_group [of gs g "xs @ ys"] assms by simp
  have "u64_checked_add (of_nat (length (rows_of_group gs g xs))) (of_nat (length (rows_of_group gs g ys))) =
      Some (of_nat (length (rows_of_group gs g xs) + length (rows_of_group gs g ys)))" for g
    using len [of g] by (intro u64_checked_add_nat) simp
  with i128_sum_append [OF len [of False]] i128_sum_append [OF len [of True]] show ?thesis
    by (cases "first_group gs xs")
      (simp_all add: add_group_sums_def exact_group_sums_def exact_sum_def first_group_append Let_def)
qed

interpretation group_sum: row_fold
  "\<lambda>p row. res_bind (index gs row) (\<lambda>g. res_bind (index vs row) (\<lambda>v. observe_group_sum operation p g v))"
  "add_group_sums operation" group_sums_default "exact_group_sums gs vs"
  "\<lambda>r. r < length gs \<and> r < length vs" isize_max
  for gs vs operation
  by unfold_locales
    (auto simp: index_def observe_exact_group_sum add_exact_group_sums, simp add: exact_group_sums_def group_sums_default_def)

text \<open>C16: Sums and averages: for every admission and every failure of threads, the sum and the count
  of the matching rows (without the nulls), and of those in each Boolean group, are exact; no
  accumulator overflows.\<close>

theorem sums_parallel:
  assumes "length rows \<le> isize_max"
    and "\<forall>r \<in> set rows. r < length gs \<and> r < length vs \<and> r < length ns"
  shows "sum_int64 par os operation vs rows = Inr (exact_sum (map ((!) vs) rows)) \<and>
    sum_nullable_int64 par os operation ns rows = Inr (exact_sum (taken_values ns (\<lambda>v. v) rows)) \<and>
    reduce_group_sums par os operation gs vs rows = Inr (exact_group_sums gs vs rows)"
  using assms plain_sum.run_meaning [of rows vs par os operation]
    nullable_sum.run_meaning [of rows ns par os operation] group_sum.run_meaning [of rows gs vs par os operation]
  by (simp add: sum_int64_def sum_nullable_int64_def reduce_group_sums_def scan_int64_chunk_def
      scan_nullable_int64_chunk_def scan_group_sums_def reduce_sum_ordered_def reduce_group_sums_ordered_def
      list_all_iff)

theorem sums_parallel_witness:
  "let par = system_parallelism 16 (system_budget (Some 4)); os = \<lparr>spawns = \<lambda>i. True, dies = \<lambda>i. i = 1\<rparr> in
    sum_nullable_int64 par os OpAvg [Some 5, None, Some (- 2)] [0, 1, 2] =
      Inr \<lparr>partial_sum = 3, partial_values = 2\<rparr>"
  unfolding Let_def
  by (subst sums_parallel [of "[0, 1, 2]" "[True, True, True]" "[0, 0, 0]" "[Some 5, None, Some (- 2)]"
        "system_parallelism 16 (system_budget (Some 4))" "\<lparr>spawns = \<lambda>i. True, dies = \<lambda>i. i = 1\<rparr>" OpAvg,
        THEN conjunct2, THEN conjunct1])
    (simp_all add: isize_max_def exact_sum_def taken_values_def List.map_filter_def)

end
