(* ===== verification/Scalar_Text.thy ===== *)
theory Scalar_Text
  imports Batch_Error
begin

text \<open>
  The scalar functions of the second engine on integers, truth values and text
  (\<^verbatim>\<open>src/batch/scalar_text.rs\<close>, \<^verbatim>\<open>scalar_cast.rs\<close>,
  \<^verbatim>\<open>scalar_nullable_int64.rs\<close> and \<^verbatim>\<open>scalar_string.rs\<close>): the text of an
  integer, written backwards into a fixed buffer, the casts from text, and the checked arithmetic of a
  nullable integer. A \<open>match\<close> arm or an \<open>expect\<close> that the planner rules out is a panic.
\<close>

section \<open>The text of a value\<close>

definition max_int64_text_bytes :: usize where
  "max_int64_text_bytes = 20"

record int64_buffer =
  it_bytes :: string
  it_start :: usize

definition int64_as_str :: "int64_buffer \<Rightarrow> string" where
  "int64_as_str r = drop (it_start r) (it_bytes r)"

text \<open>\<open>rendered.start -= 1\<close>, then the byte is stored there; both panic out of range.\<close>

definition push_front :: "char \<Rightarrow> int64_buffer \<Rightarrow> 'e failure + int64_buffer" where
  "push_front c r =
     (if it_start r = 0 \<or> length (it_bytes r) < it_start r then Inl Panicked
      else Inr \<lparr>it_bytes = (it_bytes r)[it_start r - 1 := c], it_start = it_start r - 1\<rparr>)"

text \<open>\<open>unsigned_abs\<close> and \<open>ilog10\<close>.\<close>

definition unsigned_abs :: "i64 \<Rightarrow> u64" where
  "unsigned_abs v = (if sint v < 0 then - v else v)"

definition ilog10 :: "u64 \<Rightarrow> nat" where
  "ilog10 m = floorlog 10 (unat m) - 1"

text \<open>The loop has no bound of its own: \<open>None\<close> would be a loop that never ends.\<close>

partial_function (option) int64_digits :: "int64_buffer \<Rightarrow> u64 \<Rightarrow> ('e failure + int64_buffer) option" where
  "int64_digits r magnitude =
     (case push_front (digit_char (unat (magnitude mod 10))) r of
        Inl e \<Rightarrow> Some (Inl e)
      | Inr r' \<Rightarrow>
          if magnitude div 10 = 0 then Some (Inr r')
          else int64_digits r' (magnitude div 10))"

declare int64_digits.simps [code]

definition int64_text :: "i64 \<Rightarrow> ('e failure + int64_buffer) option" where
  "int64_text v =
     map_option (\<lambda>res. res_bind res (\<lambda>r. if sint v < 0 then push_front (CHR ''-'') r else Inr r))
       (int64_digits \<lparr>it_bytes = replicate max_int64_text_bytes (CHR 0x00), it_start = max_int64_text_bytes\<rparr>
         (unsigned_abs v))"

definition render_int64 :: "i64 \<Rightarrow> ('e failure + string) option" where
  "render_int64 v = map_option (\<lambda>res. res_bind res (\<lambda>r. Inr (int64_as_str r))) (int64_text v)"

definition int64_len :: "i64 \<Rightarrow> usize" where
  "int64_len v =
     (let magnitude = unsigned_abs v; digits = (if magnitude = 0 then 1 else ilog10 magnitude + 1) in
      digits + (if sint v < 0 then 1 else 0))"

definition int64_text_cmp :: "i64 \<Rightarrow> i64 \<Rightarrow> ('e failure + ordering) option" where
  "int64_text_cmp a b =
     Option.bind (render_int64 a) (\<lambda>l. Option.bind (render_int64 b) (\<lambda>r.
       Some (res_bind l (\<lambda>l. res_bind r (\<lambda>r. Inr (order_cmp l r))))))"

fun bool_text :: "bool \<Rightarrow> string" where
  "bool_text True = ''true''"
| "bool_text False = ''false''"

definition render_bool :: "bool \<Rightarrow> string" where
  "render_bool = bool_text"

definition bool_len :: "bool \<Rightarrow> usize" where
  "bool_len b = length (bool_text b)"

definition bool_text_cmp :: "bool \<Rightarrow> bool \<Rightarrow> ordering" where
  "bool_text_cmp a b = order_cmp (bool_text a) (bool_text b)"

section \<open>Casts from text\<close>

text \<open>The sign and the digits without leading zeros; zero has no sign.\<close>

record decimal_text =
  dt_negative :: bool
  dt_magnitude :: string

definition decimal_text_of :: "string \<Rightarrow> decimal_text option" where
  "decimal_text_of s =
     (case (case s of [] \<Rightarrow> None
        | c # cs \<Rightarrow> Some (if c = CHR ''-'' then (True, cs) else if c = CHR ''+'' then (False, cs) else (False, s))) of
        None \<Rightarrow> None
      | Some (negative, digits) \<Rightarrow>
          if digits = [] \<or> \<not> list_all is_ascii_digit digits then None
          else let magnitude = (case find (\<lambda>i. digits ! i \<noteq> CHR ''0'') [0..<length digits] of
                None \<Rightarrow> drop (length digits - 1) digits
              | Some first_nonzero \<Rightarrow> drop first_nonzero digits) in
          Some \<lparr>dt_negative = (negative \<and> magnitude \<noteq> ''0''), dt_magnitude = magnitude\<rparr>)"

definition validate_string_to_int64_syntax :: "string \<Rightarrow> unit batch_result" where
  "validate_string_to_int64_syntax s =
     (case decimal_text_of s of None \<Rightarrow> Inl (Failed (InvalidCast TString TInt64)) | Some _ \<Rightarrow> Inr ())"

definition checked_string_to_int64 :: "string \<Rightarrow> i64 batch_result" where
  "checked_string_to_int64 s =
     res_bind (validate_string_to_int64_syntax s) (\<lambda>_.
       overflow ''CAST(String AS Int64)'' (i64_from_str s))"

text \<open>Slices compare as their lengths and bytes say.\<close>

fun ordering_then :: "ordering \<Rightarrow> ordering \<Rightarrow> ordering" where
  "ordering_then OrdEqual o2 = o2"
| "ordering_then o1 o2 = o1"

definition decimal_text_cmp :: "string \<Rightarrow> string \<Rightarrow> ordering batch_result" where
  "decimal_text_cmp left right =
     (case decimal_text_of left of None \<Rightarrow> Inl Panicked
      | Some l \<Rightarrow>
      case decimal_text_of right of None \<Rightarrow> Inl Panicked
      | Some r \<Rightarrow>
      Inr (if dt_negative l \<and> \<not> dt_negative r then OrdLess
           else if \<not> dt_negative l \<and> dt_negative r then OrdGreater
           else let magnitude_order =
             ordering_then (order_cmp (length (dt_magnitude l)) (length (dt_magnitude r)))
               (order_cmp (dt_magnitude l) (dt_magnitude r)) in
           if dt_negative l then ordering_reverse magnitude_order else magnitude_order))"

definition bool_of_text :: "string \<Rightarrow> bool option" where
  "bool_of_text s =
     (if eq_ignore_ascii_case s ''true'' then Some True
      else if eq_ignore_ascii_case s ''false'' then Some False
      else None)"

definition checked_string_to_bool :: "string \<Rightarrow> bool batch_result" where
  "checked_string_to_bool s = ok_or (bool_of_text s) (Failed (InvalidCast TString TBool))"

text \<open>The recogniser of decimal numbers with an optional fraction and exponent.\<close>

definition scan_exponent :: "string \<Rightarrow> usize \<Rightarrow> bool" where
  "scan_exponent s position =
     (if slice_get s position \<in> {Some (CHR ''e''), Some (CHR ''E'')}
      then let position = position + 1;
             exponent_start = (if slice_get s position \<in> {Some (CHR ''+''), Some (CHR ''-'')} then position + 1 else position);
             stop = scan_while is_ascii_digit s exponent_start in
        if stop = exponent_start then False else stop = length s
      else position = length s)"

definition float64_text :: "string \<Rightarrow> bool" where
  "float64_text s =
     (let integer_start = (if slice_get s 0 \<in> {Some (CHR ''+''), Some (CHR ''-'')} then 1 else 0);
          position = scan_while is_ascii_digit s integer_start;
          integer_digits = position - integer_start;
          (position, fractional_digits) =
            (if slice_get s position = Some (CHR ''.'')
             then let fractional_start = position + 1; stop = scan_while is_ascii_digit s fractional_start in
               (stop, stop - fractional_start)
             else (position, 0)) in
      if integer_digits = 0 \<and> fractional_digits = 0 then False
      else scan_exponent s position)"

definition validate_string_to_float64_syntax :: "string \<Rightarrow> unit batch_result" where
  "validate_string_to_float64_syntax s =
     (if float64_text s then Inr () else Inl (Failed (InvalidCast TString TFloat64)))"

section \<open>Nullable integers and strings\<close>

fun checked_abs :: "scalar \<Rightarrow> scalar batch_result" where
  "checked_abs (VNull TInt64) = Inr (VNull TInt64)"
| "checked_abs (VInt64 v) = map_sum id VInt64 (overflow ''ABS(Int64)'' (i64_of_int \<bar>sint v\<bar>))"
| "checked_abs _ = Inl Panicked"

fun int64_abs_cmp :: "scalar \<Rightarrow> scalar \<Rightarrow> ordering batch_result" where
  "int64_abs_cmp (VNull TInt64) (VNull TInt64) = Inr OrdEqual"
| "int64_abs_cmp (VNull TInt64) (VInt64 _) = Inr OrdLess"
| "int64_abs_cmp (VInt64 _) (VNull TInt64) = Inr OrdGreater"
| "int64_abs_cmp (VInt64 a) (VInt64 b) = Inr (order_cmp (unat (unsigned_abs a)) (unat (unsigned_abs b)))"
| "int64_abs_cmp _ _ = Inl Panicked"

fun checked_subtract :: "scalar \<Rightarrow> i64 \<Rightarrow> scalar batch_result" where
  "checked_subtract (VNull TInt64) literal = Inr (VNull TInt64)"
| "checked_subtract (VInt64 v) literal =
     map_sum id VInt64 (overflow ''Int64 subtraction'' (i64_of_int (sint v - sint literal)))"
| "checked_subtract _ _ = Inl Panicked"

fun if_null :: "scalar \<Rightarrow> i64 \<Rightarrow> i64 batch_result" where
  "if_null (VNull TInt64) fallback = Inr fallback"
| "if_null (VInt64 v) fallback = Inr v"
| "if_null _ _ = Inl Panicked"

definition ascii_lower_cmp :: "string \<Rightarrow> string \<Rightarrow> ordering" where
  "ascii_lower_cmp l r = order_cmp (map to_ascii_lowercase l) (map to_ascii_lowercase r)"

definition ascii_upper_cmp :: "string \<Rightarrow> string \<Rightarrow> ordering" where
  "ascii_upper_cmp l r = order_cmp (map to_ascii_uppercase l) (map to_ascii_uppercase r)"

definition string_length_to_i64 :: "usize \<Rightarrow> i64 batch_result" where
  "string_length_to_i64 n = overflow ''LENGTH(String)'' (i64_of_int (int n))"

text \<open>\<open>chars().count()\<close> counts the bytes that do not continue a character.\<close>

definition is_utf8_continuation :: "char \<Rightarrow> bool" where
  "is_utf8_continuation c \<longleftrightarrow> 128 \<le> (of_char c :: nat) \<and> (of_char c :: nat) < 192"

definition string_length_utf8_to_i64 :: "string \<Rightarrow> i64 batch_result" where
  "string_length_utf8_to_i64 s =
     overflow ''lengthUTF8(String)'' (i64_of_int (int (length (filter (\<lambda>c. \<not> is_utf8_continuation c) s))))"

section \<open>The text of an integer\<close>

lemma length_usize_display_le: "n < 10 ^ k \<Longrightarrow> 0 < k \<Longrightarrow> length (usize_display n) \<le> k"
proof (induction n arbitrary: k rule: usize_display.induct)
  case (1 n)
  show ?case
  proof (cases "n < 10")
    case True
    then show ?thesis using 1(3) by (subst usize_display.simps) simp
  next
    case False
    then obtain j where k: "k = Suc j" "0 < j" using 1(2,3) by (cases k; cases "k - 1") auto
    then have "n div 10 < 10 ^ j" using 1(2) by (simp add: div_less_iff_less_mult mult.commute)
    from 1(1) [OF False this k(2)] show ?thesis using False k by (subst usize_display.simps) simp
  qed
qed

lemma length_usize_display_log: "0 < n \<Longrightarrow> length (usize_display n) = floorlog 10 n"
proof (induction n rule: usize_display.induct)
  case (1 n)
  show ?case
  proof (cases "n < 10")
    case True
    then show ?thesis using 1(2) by (subst usize_display.simps) (simp add: compute_floorlog [of 10 n] compute_floorlog [of 10 0])
  next
    case False
    then have "length (usize_display (n div 10)) = floorlog 10 (n div 10)" using 1 by simp
    then show ?thesis using 1(2) False by (subst usize_display.simps) (simp add: compute_floorlog [of 10 n])
  qed
qed

lemma unat_div_mod_10: "unat (m div 10 :: u64) = unat m div 10" "unat (m mod 10 :: u64) = unat m mod 10"
  by (simp_all add: unat_div unat_mod)

lemma push_front_ok:
  "0 < it_start r \<Longrightarrow> it_start r \<le> length (it_bytes r) \<Longrightarrow>
     \<exists>r'. push_front c r = Inr r' \<and> int64_as_str r' = c # int64_as_str r \<and> it_start r' = it_start r - 1 \<and>
       length (it_bytes r') = length (it_bytes r)"
proof -
  assume *: "0 < it_start r" "it_start r \<le> length (it_bytes r)"
  then have "drop (it_start r - 1) ((it_bytes r)[it_start r - 1 := c]) = c # drop (it_start r) (it_bytes r)"
    by (subst Cons_nth_drop_Suc [symmetric]) (simp_all add: drop_update_cancel)
  with * show ?thesis by (simp add: push_front_def int64_as_str_def)
qed

text \<open>The loop ends with the digits in front of what the buffer held, given room for them.\<close>

lemma int64_digits_returns:
  "length (usize_display (unat m)) \<le> it_start r \<Longrightarrow> it_start r \<le> length (it_bytes r) \<Longrightarrow>
     \<exists>r'. int64_digits r m = Some (Inr r' :: 'e failure + _) \<and> int64_as_str r' = usize_display (unat m) @ int64_as_str r \<and>
       it_start r' = it_start r - length (usize_display (unat m)) \<and> length (it_bytes r') = length (it_bytes r)"
proof (induction "unat m" arbitrary: m r rule: less_induct)
  case less
  let ?c = "digit_char (unat m mod 10)"
  have pos: "0 < it_start r" using less.prems(1) usize_display_nonempty [of "unat m"] by (cases "usize_display (unat m)") auto
  obtain r1 where push: "push_front ?c r = (Inr r1 :: 'e failure + _)" and r1: "int64_as_str r1 = ?c # int64_as_str r"
    "it_start r1 = it_start r - 1" "length (it_bytes r1) = length (it_bytes r)"
    using push_front_ok [OF pos less.prems(2), of ?c] by blast
  show ?case
  proof (cases "unat m < 10")
    case True
    then have "m div 10 = 0" by (simp add: word_unat_eq_iff unat_div_mod_10)
    moreover have "usize_display (unat m) = [?c]" using True by (subst usize_display.simps) simp
    ultimately show ?thesis using push r1 by (subst int64_digits.simps) (simp add: unat_div_mod_10)
  next
    case False
    then have more: "m div 10 \<noteq> 0" by (simp add: word_unat_eq_iff unat_div_mod_10)
    have disp: "usize_display (unat m) = usize_display (unat (m div 10)) @ [?c]"
      using False by (subst usize_display.simps) (simp add: unat_div_mod_10)
    have smaller: "unat (m div 10) < unat m" using False by (simp add: unat_div_mod_10)
    have room: "length (usize_display (unat (m div 10))) \<le> it_start r1" "it_start r1 \<le> length (it_bytes r1)"
      using less.prems r1 disp by auto
    obtain r' where "int64_digits r1 (m div 10) = Some (Inr r' :: 'e failure + _)"
      "int64_as_str r' = usize_display (unat (m div 10)) @ int64_as_str r1"
      "it_start r' = it_start r1 - length (usize_display (unat (m div 10)))" "length (it_bytes r') = length (it_bytes r1)"
      using less.hyps [OF smaller room] by blast
    then show ?thesis using push r1 disp more by (subst int64_digits.simps) (simp add: unat_div_mod_10)
  qed
qed

lemma unat_unsigned_abs: "unat (unsigned_abs v) = nat \<bar>sint v\<bar>"
proof -
  have v: "uint v = sint v mod 2 ^ 64" by (simp add: uint_sint take_bit_eq_mod)
  have bounds: "- (2 ^ 63) \<le> sint v" "sint v < 2 ^ 63" using sint_i64_bounds [of v] by (simp_all add: i64_min_def i64_max_def)
  show ?thesis
  proof (cases "sint v < 0")
    case True
    have "uint (- v) = (- uint v) mod 2 ^ 64" by (simp add: uint_word_ariths take_bit_eq_mod)
    also have "\<dots> = (- sint v) mod 2 ^ 64" by (simp add: v mod_minus_eq)
    also have "\<dots> = - sint v" using True bounds by (intro mod_pos_pos_trivial) simp_all
    finally show ?thesis using True by (simp add: unsigned_abs_def unat_eq_nat_uint)
  next
    case False
    then show ?thesis using bounds by (simp add: unsigned_abs_def unat_eq_nat_uint v)
  qed
qed

lemma unsigned_abs_zero: "unsigned_abs v = 0 \<longleftrightarrow> sint v = 0"
  using unat_unsigned_abs [of v] by (metis abs_eq_0 nat_0_iff abs_ge_zero antisym unat_eq_zero)

lemma i64_display_abs: "i64_display v = (if sint v < 0 then ''-'' else []) @ usize_display (unat (unsigned_abs v))"
  by (simp add: i64_display_def unat_unsigned_abs)

lemma length_i64_display: "length (usize_display (unat (unsigned_abs v))) \<le> 19"
proof (rule length_usize_display_le)
  have "\<bar>sint v\<bar> \<le> 9223372036854775808" using sint_i64_bounds [of v] by (simp add: i64_min_def i64_max_def abs_le_iff)
  then show "unat (unsigned_abs v) < 10 ^ 19" by (simp add: unat_unsigned_abs nat_less_iff)
qed simp

text \<open>C30: Writing an integer always ends: the digit loop, which counts no steps, fills the twenty bytes from
  the back without leaving them and returns the decimal text of the integer; the length computed without
  writing is that text's length, and two integers compare as their texts.\<close>

theorem int64_text_returns:
  "render_int64 a = Some (Inr (i64_display a) :: 'e failure + string) \<and>
   int64_len a = length (i64_display a) \<and> int64_len a \<le> max_int64_text_bytes \<and>
   int64_text_cmp a b = Some (Inr (order_cmp (i64_display a) (i64_display b)) :: 'e failure + ordering)"
proof -
  have render: "render_int64 v = Some (Inr (i64_display v) :: 'e failure + string)" for v
  proof -
    let ?r = "\<lparr>it_bytes = replicate max_int64_text_bytes (CHR 0x00), it_start = max_int64_text_bytes\<rparr>"
    obtain r where r: "int64_digits ?r (unsigned_abs v) = Some (Inr r :: 'e failure + _)"
      "int64_as_str r = usize_display (unat (unsigned_abs v))"
      "it_start r = 20 - length (usize_display (unat (unsigned_abs v)))" "length (it_bytes r) = 20"
      using int64_digits_returns [of "unsigned_abs v" ?r] length_i64_display [of v]
      by (auto simp: max_int64_text_bytes_def int64_as_str_def)
    obtain r' where "push_front (CHR ''-'') r = (Inr r' :: 'e failure + _)" "int64_as_str r' = CHR ''-'' # int64_as_str r"
      using push_front_ok [of r] r length_i64_display [of v] by auto
    then show ?thesis using r by (simp add: render_int64_def int64_text_def i64_display_abs)
  qed
  have len: "int64_len v = length (i64_display v)" for v
  proof (cases "unsigned_abs v = 0")
    case True
    then show ?thesis
      by (subst i64_display_abs, subst usize_display.simps) (simp add: int64_len_def Let_def flip: unsigned_abs_zero)
  next
    case False
    then have "0 < unat (unsigned_abs v)" by (simp add: unat_gt_0)
    moreover have "0 < floorlog 10 (unat (unsigned_abs v))" using calculation by (simp add: compute_floorlog [of 10 "unat _"])
    ultimately show ?thesis
      using False by (simp add: int64_len_def Let_def i64_display_abs ilog10_def length_usize_display_log)
  qed
  moreover have "length (i64_display v) \<le> 20" for v using length_i64_display [of v] by (simp add: i64_display_abs)
  ultimately show ?thesis using render by (simp add: int64_text_cmp_def max_int64_text_bytes_def)
qed

section \<open>Decimal text\<close>

text \<open>The integer a decimal text denotes, of any size.\<close>

definition decimal_int :: "string \<Rightarrow> int option" where
  "decimal_int s =
     (case s of [] \<Rightarrow> None
      | c # cs \<Rightarrow>
          if c = CHR ''-'' then map_option (\<lambda>n. - int n) (digits_value cs)
          else if c = CHR ''+'' then map_option int (digits_value cs)
          else map_option int (digits_value s))"

lemma i64_from_str_decimal: "i64_from_str s = Option.bind (decimal_int s) i64_of_int"
  by (cases s) (auto simp: i64_from_str_def decimal_int_def Option.bind_map_option comp_def split: option.split)

lemma decimal_value_Cons: "decimal_value (c # ds) = digit_val c * 10 ^ length ds + decimal_value ds"
proof (induction ds rule: rev_induct)
  case Nil
  then show ?case by (simp add: decimal_value_def)
next
  case (snoc d ds)
  have "decimal_value (zs @ [d]) = 10 * decimal_value zs + digit_val d" for zs
    by (simp add: decimal_value_def)
  from this [of "c # ds"] this [of ds] snoc show ?case by (simp add: algebra_simps)
qed

lemma digit_val_less: "is_ascii_digit c \<Longrightarrow> digit_val c < 10"
  unfolding is_ascii_digit_def digit_val_def by linarith

lemma digit_val_mono: "is_ascii_digit c \<Longrightarrow> is_ascii_digit d \<Longrightarrow> digit_val c < digit_val d \<longleftrightarrow> c < d"
  by (auto simp: is_ascii_digit_def digit_val_def less_char_def)

lemma digit_val_inj: "is_ascii_digit c \<Longrightarrow> is_ascii_digit d \<Longrightarrow> digit_val c = digit_val d \<longleftrightarrow> c = d"
  using digit_val_mono [of c d] digit_val_mono [of d c] by (metis less_irrefl linorder_neqE)

lemma decimal_value_less: "list_all is_ascii_digit ds \<Longrightarrow> decimal_value ds < 10 ^ length ds"
proof (induction ds)
  case (Cons c ds)
  then have "digit_val c + 1 \<le> 10" using digit_val_less [of c] by simp
  then have "(digit_val c + 1) * 10 ^ length ds \<le> 10 * 10 ^ length ds" by (rule mult_le_mono1)
  then have "digit_val c * 10 ^ length ds + 10 ^ length ds \<le> 10 ^ length (c # ds)"
    unfolding distrib_right by simp
  moreover have "decimal_value ds < 10 ^ length ds" using Cons by simp
  ultimately show ?case unfolding decimal_value_Cons by linarith
qed (simp add: decimal_value_def)

lemma decimal_value_lexicographic:
  "length xs = length ys \<Longrightarrow> list_all is_ascii_digit xs \<Longrightarrow> list_all is_ascii_digit ys \<Longrightarrow>
     order_cmp xs ys = order_cmp (decimal_value xs) (decimal_value ys)"
proof (induction xs ys rule: list_induct2)
  case (Cons x xs y ys)
  have less: "decimal_value zs < 10 ^ length xs" if "length zs = length xs" "list_all is_ascii_digit zs" for zs
    using decimal_value_less [OF that(2)] that(1) by simp
  have step: "a * n + u < b * n + v" if "a < b" "u < n" for a b n u v :: nat
  proof -
    have "(a + 1) * n \<le> b * n" using that(1) by (intro mult_le_mono1) simp
    then show ?thesis using that(2) by simp
  qed
  have digits: "is_ascii_digit x" "is_ascii_digit y" using Cons.prems by simp_all
  consider "x < y" | "y < x" | "x = y" by (rule linorder_cases)
  then show ?case
  proof cases
    case 1
    then have "decimal_value (x # xs) < decimal_value (y # ys)"
      using digits Cons less [of xs] by (simp add: decimal_value_Cons digit_val_mono step)
    then show ?thesis using 1 by (simp add: order_cmp_def)
  next
    case 2
    then have "decimal_value (y # ys) < decimal_value (x # xs)"
      using digits Cons less [of ys] by (simp add: decimal_value_Cons digit_val_mono step)
    then show ?thesis using 2 by (auto simp: order_cmp_def)
  next
    case 3
    then show ?thesis using Cons by (auto simp: order_cmp_def decimal_value_Cons split: if_splits)
  qed
qed simp

text \<open>Digits in canonical form: no leading zero, except zero itself.\<close>

definition canonical_digits :: "string \<Rightarrow> bool" where
  "canonical_digits ds \<longleftrightarrow> list_all is_ascii_digit ds \<and> ds \<noteq> [] \<and> (ds = ''0'' \<or> hd ds \<noteq> CHR ''0'')"

lemma canonical_length_less:
  assumes "canonical_digits xs" and "canonical_digits ys" and "length xs < length ys"
  shows "decimal_value xs < decimal_value ys"
proof -
  obtain c cs where ys: "ys = c # cs" using assms by (cases ys) auto
  have "is_ascii_digit c" "c \<noteq> CHR ''0''"
    using assms by (auto simp: canonical_digits_def ys length_Suc_conv)
  then have "digit_val c \<noteq> digit_val (CHR ''0'')" by (subst digit_val_inj) (simp_all add: is_ascii_digit_def)
  then have "1 \<le> digit_val c" by (simp add: digit_val_def)
  then have "1 * 10 ^ length cs \<le> digit_val c * 10 ^ length cs" by (rule mult_le_mono1)
  then have "10 ^ length cs \<le> decimal_value ys" unfolding ys decimal_value_Cons by linarith
  moreover have "decimal_value xs < 10 ^ length xs" using assms by (intro decimal_value_less) (simp add: canonical_digits_def)
  moreover have "(10 :: nat) ^ length xs \<le> 10 ^ length cs" using assms(3) by (simp add: ys)
  ultimately show ?thesis by linarith
qed

lemma canonical_cmp:
  assumes "canonical_digits xs" and "canonical_digits ys"
  shows "ordering_then (order_cmp (length xs) (length ys)) (order_cmp xs ys) = order_cmp (decimal_value xs) (decimal_value ys)"
proof -
  consider "length xs < length ys" | "length ys < length xs" | "length xs = length ys" by (rule linorder_cases)
  then show ?thesis
  proof cases
    case 1
    then show ?thesis using canonical_length_less [OF assms] by (simp add: order_cmp_def)
  next
    case 2
    then show ?thesis using canonical_length_less [OF assms(2,1)] by (auto simp: order_cmp_def)
  next
    case 3
    then show ?thesis using decimal_value_lexicographic [of xs ys] assms by (simp add: canonical_digits_def)
  qed
qed

definition strip_zeros :: "string \<Rightarrow> string" where
  "strip_zeros digits =
     (case find (\<lambda>i. digits ! i \<noteq> CHR ''0'') [0..<length digits] of
        None \<Rightarrow> drop (length digits - 1) digits
      | Some first_nonzero \<Rightarrow> drop first_nonzero digits)"

lemma decimal_value_zero_prefix: "\<forall>j < i. ds ! j = CHR ''0'' \<Longrightarrow> i \<le> length ds \<Longrightarrow> decimal_value (drop i ds) = decimal_value ds"
proof (induction i arbitrary: ds)
  case (Suc i)
  then obtain c cs where ds: "ds = c # cs" by (cases ds) auto
  have "c = CHR ''0''" using Suc.prems(1) by (auto simp: ds)
  moreover have "\<forall>j < i. cs ! j = CHR ''0''" using Suc.prems(1) by (auto simp: ds)
  ultimately show ?case using Suc.IH [of cs] Suc.prems(2) by (simp add: ds decimal_value_Cons digit_val_def)
qed simp

lemma strip_zeros_canonical:
  assumes "list_all is_ascii_digit ds" and "ds \<noteq> []"
  shows "canonical_digits (strip_zeros ds)" and "decimal_value (strip_zeros ds) = decimal_value ds"
proof -
  have "canonical_digits (strip_zeros ds) \<and> decimal_value (strip_zeros ds) = decimal_value ds"
  proof (cases "find (\<lambda>i. ds ! i \<noteq> CHR ''0'') [0..<length ds]")
    case None
    then have zeros: "\<forall>j < length ds. ds ! j = CHR ''0''" by (auto simp: find_None_iff)
    have "drop (length ds - 1) ds = [ds ! (length ds - 1)]"
      using assms(2) by (subst Cons_nth_drop_Suc [symmetric]) simp_all
    also have "\<dots> = ''0''" using zeros assms(2) by simp
    finally have "drop (length ds - 1) ds = ''0''" .
    moreover have "decimal_value (drop (length ds - 1) ds) = decimal_value ds"
      using zeros by (intro decimal_value_zero_prefix) auto
    ultimately show ?thesis by (simp add: strip_zeros_def None canonical_digits_def is_ascii_digit_def)
  next
    case (Some i)
    then have i: "i < length ds" "ds ! i \<noteq> CHR ''0''" "\<forall>j < i. ds ! j = CHR ''0''"
      by (auto simp: find_Some_iff)
    then have "decimal_value (drop i ds) = decimal_value ds" by (intro decimal_value_zero_prefix) auto
    moreover have "list_all is_ascii_digit (drop i ds)" using assms(1) by (metis append_take_drop_id list_all_append)
    ultimately show ?thesis using i by (simp add: strip_zeros_def Some canonical_digits_def hd_drop_conv_nth)
  qed
  then show "canonical_digits (strip_zeros ds)" "decimal_value (strip_zeros ds) = decimal_value ds" by simp_all
qed

lemma canonical_zero: "canonical_digits ds \<Longrightarrow> decimal_value ds = 0 \<longleftrightarrow> ds = ''0''"
proof
  assume ds: "canonical_digits ds" and zero: "decimal_value ds = 0"
  show "ds = ''0''"
  proof (rule ccontr)
    assume "ds \<noteq> ''0''"
    then obtain c cs where c: "ds = c # cs" "is_ascii_digit c" "c \<noteq> CHR ''0''"
      using ds by (cases ds) (auto simp: canonical_digits_def)
    then have "digit_val c \<noteq> digit_val (CHR ''0'')" by (subst digit_val_inj) (simp_all add: is_ascii_digit_def)
    then show False using zero by (simp add: c decimal_value_Cons digit_val_def)
  qed
qed (simp add: decimal_value_def digit_val_def)

lemma decimal_text_of_int:
  "case decimal_text_of s of
     None \<Rightarrow> decimal_int s = None
   | Some t \<Rightarrow> canonical_digits (dt_magnitude t) \<and> (dt_negative t \<longrightarrow> 0 < decimal_value (dt_magnitude t)) \<and>
       decimal_int s = Some (if dt_negative t then - int (decimal_value (dt_magnitude t)) else int (decimal_value (dt_magnitude t)))"
proof -
  define strip :: "bool \<Rightarrow> string \<Rightarrow> decimal_text option" where
    "strip negative ds = (if ds = [] \<or> \<not> list_all is_ascii_digit ds then None
      else Some \<lparr>dt_negative = (negative \<and> strip_zeros ds \<noteq> ''0''), dt_magnitude = strip_zeros ds\<rparr>)" for negative ds
  have step: "case strip negative ds of
     None \<Rightarrow> digits_value ds = None
   | Some t \<Rightarrow> canonical_digits (dt_magnitude t) \<and> (dt_negative t \<longrightarrow> 0 < decimal_value (dt_magnitude t)) \<and>
       map_option (\<lambda>n. if negative then - int n else int n) (digits_value ds) =
         Some (if dt_negative t then - int (decimal_value (dt_magnitude t)) else int (decimal_value (dt_magnitude t)))"
    for ds negative
    using strip_zeros_canonical [of ds] canonical_zero [of "strip_zeros ds"] by (auto simp: digits_value_def strip_def)
  show ?thesis
  proof (cases s)
    case Nil
    then show ?thesis by (simp add: decimal_text_of_def decimal_int_def)
  next
    case (Cons c cs)
    obtain negative ds where "decimal_text_of s = strip negative ds"
      "decimal_int s = map_option (\<lambda>n. if negative then - int n else int n) (digits_value ds)"
    proof (cases "c = CHR ''-''")
      case True
      then show ?thesis
        using that [of True cs] by (simp add: Cons decimal_text_of_def decimal_int_def strip_def strip_zeros_def Let_def)
    next
      case False
      show ?thesis
      proof (cases "c = CHR ''+''")
        case True
        then show ?thesis
          using that [of False cs] by (simp add: Cons decimal_text_of_def decimal_int_def strip_def strip_zeros_def Let_def)
      next
        case other: False
        then show ?thesis
          using that [of False s] False
          by (simp add: Cons decimal_text_of_def decimal_int_def strip_def strip_zeros_def Let_def)
      qed
    qed
    then show ?thesis using step [of ds negative] by (auto split: option.splits)
  qed
qed

text \<open>C31: The casts of integers to and from text are exact. A text is an integer exactly when it is an optional
  sign and decimal digits; it casts to that integer when it fits, an integer out of range is an overflow and
  anything else an invalid cast, so the text of an integer casts back to it; and the comparison of two
  texts as integers, which looks only at signs, lengths and bytes, orders them by their values whatever
  their size, leading zeros and signs of zero.\<close>

theorem int64_casts_exact:
  "checked_string_to_int64 s =
     (case decimal_int s of
        None \<Rightarrow> Inl (Failed (InvalidCast TString TInt64))
      | Some z \<Rightarrow> overflow ''CAST(String AS Int64)'' (i64_of_int z)) \<and>
   checked_string_to_int64 (i64_display v) = Inr v \<and>
   decimal_text_cmp s t =
     (case (decimal_int s, decimal_int t) of (Some a, Some b) \<Rightarrow> Inr (order_cmp a b) | _ \<Rightarrow> Inl Panicked)"
proof -
  have cast: "checked_string_to_int64 s =
     (case decimal_int s of
        None \<Rightarrow> Inl (Failed (InvalidCast TString TInt64))
      | Some z \<Rightarrow> overflow ''CAST(String AS Int64)'' (i64_of_int z))" for s
    using decimal_text_of_int [of s]
    by (auto simp: checked_string_to_int64_def validate_string_to_int64_syntax_def i64_from_str_decimal split: option.splits)
  have recast: "checked_string_to_int64 (i64_display v) = Inr v"
    using i64_from_str_display [of v] unfolding cast i64_from_str_decimal
    by (cases "decimal_int (i64_display v)") simp_all
  have "decimal_text_cmp s t =
     (case (decimal_int s, decimal_int t) of (Some a, Some b) \<Rightarrow> Inr (order_cmp a b) | _ \<Rightarrow> Inl Panicked)"
  proof (cases "decimal_text_of s = None \<or> decimal_text_of t = None")
    case True
    then show ?thesis
      using decimal_text_of_int [of s] decimal_text_of_int [of t]
      by (auto simp: decimal_text_cmp_def split: option.splits)
  next
    case False
    then obtain l r where lr: "decimal_text_of s = Some l" "decimal_text_of t = Some r" by auto
    note l = decimal_text_of_int [of s, unfolded lr option.case] and r = decimal_text_of_int [of t, unfolded lr option.case]
    have "ordering_then (order_cmp (length (dt_magnitude l)) (length (dt_magnitude r))) (order_cmp (dt_magnitude l) (dt_magnitude r)) =
        order_cmp (decimal_value (dt_magnitude l)) (decimal_value (dt_magnitude r))"
      using l r by (intro canonical_cmp) simp_all
    then show ?thesis
      using l r by (auto simp: decimal_text_cmp_def lr order_cmp_def)
  qed
  with cast recast show ?thesis by blast
qed

section \<open>The syntax of doubles and truth values\<close>

definition signs :: "string list" where
  "signs = [[], ''+'', ''-'']"

definition float_syntax :: "string \<Rightarrow> bool" where
  "float_syntax s \<longleftrightarrow>
     (\<exists>sign int frac exponent. s = sign @ int @ frac @ exponent \<and> sign \<in> set signs \<and> list_all is_ascii_digit int \<and>
        (frac = [] \<or> hd frac = CHR ''.'' \<and> list_all is_ascii_digit (tl frac)) \<and> (int \<noteq> [] \<or> 1 < length frac) \<and>
        (exponent = [] \<or> (\<exists>e sign' digits. exponent = e # sign' @ digits \<and> e \<in> {CHR ''e'', CHR ''E''} \<and>
           sign' \<in> set signs \<and> digits \<noteq> [] \<and> list_all is_ascii_digit digits)))"

text \<open>The recogniser on the rest of the text, step by step.\<close>

definition exponent_text :: "string \<Rightarrow> bool" where
  "exponent_text r \<longleftrightarrow> r = [] \<or> hd r \<in> {CHR ''e'', CHR ''E''} \<and>
     (let d = (if tl r \<noteq> [] \<and> hd (tl r) \<in> {CHR ''+'', CHR ''-''} then tl (tl r) else tl r) in
      d \<noteq> [] \<and> list_all is_ascii_digit d)"

definition fraction_text :: "bool \<Rightarrow> string \<Rightarrow> bool" where
  "fraction_text digits r \<longleftrightarrow>
     (if r \<noteq> [] \<and> hd r = CHR ''.''
      then (digits \<or> takeWhile is_ascii_digit (tl r) \<noteq> []) \<and> exponent_text (dropWhile is_ascii_digit (tl r))
      else digits \<and> exponent_text r)"

definition unsigned_text :: "string \<Rightarrow> bool" where
  "unsigned_text r = fraction_text (takeWhile is_ascii_digit r \<noteq> []) (dropWhile is_ascii_digit r)"

lemma slice_get_hd: "slice_get s i = Some c \<longleftrightarrow> drop i s \<noteq> [] \<and> hd (drop i s) = c"
  by (auto simp: slice_get_def hd_drop_conv_nth)

lemma drop_scan_while: "drop (scan_while p s i) s = dropWhile p (drop i s)"
  by (simp add: scan_while_takeWhile dropWhile_eq_drop flip: drop_drop) (simp add: add.commute)

lemma scan_while_moved: "scan_while p s i - i = length (takeWhile p (drop i s))"
  by (simp add: scan_while_takeWhile)

lemma scan_while_same: "scan_while p s i = i \<longleftrightarrow> takeWhile p (drop i s) = []"
  by (simp add: scan_while_takeWhile)

lemma scan_while_end: "i \<le> length s \<Longrightarrow> scan_while p s i = length s \<longleftrightarrow> list_all p (drop i s)"
  using drop_scan_while [of p s i] scan_while_le [of i s p]
  by (metis drop_eq_Nil dropWhile_eq_Nil_conv le_antisym list_all_iff order_refl)

lemma slice_get_in: "slice_get s i \<in> {Some a, Some b} \<longleftrightarrow> drop i s \<noteq> [] \<and> hd (drop i s) \<in> {a, b}"
  using slice_get_hd [of s i a] slice_get_hd [of s i b] by blast

lemma digits_nonempty: "takeWhile p d \<noteq> [] \<and> list_all p d \<longleftrightarrow> d \<noteq> [] \<and> list_all p d"
  by (cases d) auto

lemma exponent_scan:
  assumes "i \<le> length s"
  shows "scan_exponent s i = exponent_text (drop i s)"
proof (cases "drop i s \<noteq> [] \<and> hd (drop i s) \<in> {CHR ''e'', CHR ''E''}")
  case True
  define j where "j = (if slice_get s (i + 1) \<in> {Some (CHR ''+''), Some (CHR ''-'')} then i + 2 else i + 1)"
  have rest: "tl (drop i s) = drop (i + 1) s" by (simp add: drop_Suc tl_drop)
  have "i < length s" using True by auto
  then have j: "j \<le> length s" by (auto simp: j_def slice_get_def split: if_splits)
  have d: "drop j s = (if drop (i + 1) s \<noteq> [] \<and> hd (drop (i + 1) s) \<in> {CHR ''+'', CHR ''-''} then tl (drop (i + 1) s) else drop (i + 1) s)"
    unfolding j_def slice_get_in by (auto simp: drop_Suc tl_drop)
  have "(\<not> scan_while is_ascii_digit s j = j \<and> scan_while is_ascii_digit s j = length s) \<longleftrightarrow>
      drop j s \<noteq> [] \<and> list_all is_ascii_digit (drop j s)"
    unfolding scan_while_same scan_while_end [OF j] digits_nonempty ..
  moreover have "exponent_text (drop i s) \<longleftrightarrow> drop j s \<noteq> [] \<and> list_all is_ascii_digit (drop j s)"
    using True unfolding exponent_text_def Let_def rest d by blast
  moreover have "slice_get s i \<in> {Some (CHR ''e''), Some (CHR ''E'')}" using True unfolding slice_get_in .
  moreover have "(if slice_get s (i + 1) \<in> {Some (CHR ''+''), Some (CHR ''-'')} then i + 1 + 1 else i + 1) = j"
    by (simp add: j_def)
  ultimately show ?thesis unfolding scan_exponent_def Let_def by (simp only: if_True) auto
next
  case False
  then have "slice_get s i \<notin> {Some (CHR ''e''), Some (CHR ''E'')}" unfolding slice_get_in .
  moreover have "exponent_text (drop i s) \<longleftrightarrow> i = length s" using False assms by (auto simp: exponent_text_def)
  ultimately show ?thesis unfolding scan_exponent_def by (simp only: if_False)
qed

lemma float64_text_unsigned:
  "float64_text s = unsigned_text (if s \<noteq> [] \<and> hd s \<in> {CHR ''+'', CHR ''-''} then tl s else s)"
proof -
  define i where "i = (if slice_get s 0 \<in> {Some (CHR ''+''), Some (CHR ''-'')} then 1 else 0 :: nat)"
  define j where "j = scan_while is_ascii_digit s i"
  have i: "drop i s = (if s \<noteq> [] \<and> hd s \<in> {CHR ''+'', CHR ''-''} then tl s else s)" "i \<le> length s"
    using slice_get_in [of s 0 "CHR ''+''" "CHR ''-''"] by (auto simp: i_def drop_Suc slice_get_def Suc_le_eq split: if_splits)
  have j: "drop j s = dropWhile is_ascii_digit (drop i s)" "j \<le> length s" "j - i = length (takeWhile is_ascii_digit (drop i s))"
    using i by (simp_all add: j_def drop_scan_while scan_while_le scan_while_moved)
  show ?thesis
  proof (cases "slice_get s j = Some (CHR ''.'')")
    case True
    then have dot: "drop j s \<noteq> []" "hd (drop j s) = CHR ''.''"
      using slice_get_hd [of s j "CHR ''.''"] by blast+
    define k where "k = scan_while is_ascii_digit s (j + 1)"
    have "j < length s" using dot by auto
    then have k: "drop k s = dropWhile is_ascii_digit (tl (drop j s))" "k \<le> length s"
      "k - (j + 1) = length (takeWhile is_ascii_digit (tl (drop j s)))"
      by (simp_all add: k_def drop_scan_while scan_while_le scan_while_moved drop_Suc tl_drop)
    show ?thesis
      unfolding float64_text_def Let_def i_def [symmetric] j_def [symmetric] True k_def [symmetric] if_True prod.case
        j(3) k(3) unsigned_text_def i(1) [symmetric] j(1) [symmetric] fraction_text_def
      using dot by (auto simp: exponent_scan [OF k(2)] k(1))
  next
    case False
    then have dot: "\<not> (drop j s \<noteq> [] \<and> hd (drop j s) = CHR ''.'')"
      using slice_get_hd [of s j "CHR ''.''"] by blast
    show ?thesis
      unfolding float64_text_def Let_def i_def [symmetric] j_def [symmetric] if_not_P [OF False] prod.case
        exponent_scan [OF j(2)] j(3) unsigned_text_def i(1) [symmetric] j(1) [symmetric] fraction_text_def
      using dot by auto
  qed
qed

lemma exponent_text_iff:
  "exponent_text r \<longleftrightarrow> r = [] \<or> (\<exists>e sign' digits. r = e # sign' @ digits \<and> e \<in> {CHR ''e'', CHR ''E''} \<and>
     sign' \<in> set signs \<and> digits \<noteq> [] \<and> list_all is_ascii_digit digits)"
proof
  assume *: "exponent_text r"
  show "r = [] \<or> (\<exists>e sign' digits. r = e # sign' @ digits \<and> e \<in> {CHR ''e'', CHR ''E''} \<and>
     sign' \<in> set signs \<and> digits \<noteq> [] \<and> list_all is_ascii_digit digits)"
  proof (cases r)
    case (Cons e r')
    show ?thesis
    proof (cases "r' \<noteq> [] \<and> hd r' \<in> {CHR ''+'', CHR ''-''}")
      case True
      then have "r = e # [hd r'] @ tl r'" "[hd r'] \<in> set signs" using Cons by (auto simp: signs_def)
      moreover have "e \<in> {CHR ''e'', CHR ''E''}" "tl r' \<noteq> []" "list_all is_ascii_digit (tl r')"
        using * True unfolding exponent_text_def Let_def Cons by simp_all
      ultimately show ?thesis by blast
    next
      case False
      then have "e \<in> {CHR ''e'', CHR ''E''}" "r' \<noteq> []" "list_all is_ascii_digit r'"
        using * unfolding exponent_text_def Let_def Cons by (simp_all split: if_splits)
      moreover have "r = e # [] @ r'" "[] \<in> set signs" using Cons by (simp_all add: signs_def)
      ultimately show ?thesis by blast
    qed
  qed simp
next
  assume "r = [] \<or> (\<exists>e sign' digits. r = e # sign' @ digits \<and> e \<in> {CHR ''e'', CHR ''E''} \<and>
     sign' \<in> set signs \<and> digits \<noteq> [] \<and> list_all is_ascii_digit digits)"
  then show "exponent_text r"
  proof
    assume "\<exists>e sign' digits. r = e # sign' @ digits \<and> e \<in> {CHR ''e'', CHR ''E''} \<and>
     sign' \<in> set signs \<and> digits \<noteq> [] \<and> list_all is_ascii_digit digits"
    then obtain e sign' c cs where "r = e # sign' @ c # cs" "e \<in> {CHR ''e'', CHR ''E''}" "sign' \<in> set signs"
      "is_ascii_digit c" "list_all is_ascii_digit cs" by (metis list.exhaust list.pred_inject(2))
    then show ?thesis by (auto simp: exponent_text_def signs_def Let_def is_ascii_digit_def)
  qed (simp add: exponent_text_def)
qed

lemma exponent_text_hd: "exponent_text r \<Longrightarrow> r = [] \<or> hd r \<in> {CHR ''e'', CHR ''E''}"
  by (auto simp: exponent_text_def)

lemma list_all_takeWhile: "list_all p (takeWhile p xs)"
  by (induction xs) simp_all

lemma fraction_text_iff:
  "fraction_text b r \<longleftrightarrow> (\<exists>frac exponent. r = frac @ exponent \<and>
     (frac = [] \<or> hd frac = CHR ''.'' \<and> list_all is_ascii_digit (tl frac)) \<and> (b \<or> 1 < length frac) \<and> exponent_text exponent)"
proof
  assume *: "fraction_text b r"
  show "\<exists>frac exponent. r = frac @ exponent \<and>
     (frac = [] \<or> hd frac = CHR ''.'' \<and> list_all is_ascii_digit (tl frac)) \<and> (b \<or> 1 < length frac) \<and> exponent_text exponent"
  proof (cases "r \<noteq> [] \<and> hd r = CHR ''.''")
    case True
    then obtain r' where r: "r = CHR ''.'' # r'" by (cases r) auto
    show ?thesis
      using * unfolding fraction_text_def r
      by (intro exI [of _ "CHR ''.'' # takeWhile is_ascii_digit r'"] exI [of _ "dropWhile is_ascii_digit r'"])
        (simp add: list_all_takeWhile)
  next
    case False
    then show ?thesis using * unfolding fraction_text_def by (intro exI [of _ "[]"] exI [of _ r]) simp
  qed
next
  assume "\<exists>frac exponent. r = frac @ exponent \<and>
     (frac = [] \<or> hd frac = CHR ''.'' \<and> list_all is_ascii_digit (tl frac)) \<and> (b \<or> 1 < length frac) \<and> exponent_text exponent"
  then obtain frac exponent where r: "r = frac @ exponent" "frac = [] \<or> hd frac = CHR ''.'' \<and> list_all is_ascii_digit (tl frac)"
    "b \<or> 1 < length frac" "exponent_text exponent" by blast
  note e = exponent_text_hd [OF r(4)]
  show "fraction_text b r"
  proof (cases "frac = []")
    case True
    then show ?thesis using r e by (auto simp: fraction_text_def)
  next
    case False
    then obtain fd where frac: "frac = CHR ''.'' # fd" "list_all is_ascii_digit fd" using r(2) by (cases frac) auto
    have "exponent = [] \<or> \<not> is_ascii_digit (hd exponent)" using e by (auto simp: is_ascii_digit_def)
    then have "takeWhile is_ascii_digit (fd @ exponent) = fd" by (rule takeWhile_append_stop [OF frac(2)])
    moreover from this have "dropWhile is_ascii_digit (fd @ exponent) = exponent"
      by (metis append_eq_conv_conj dropWhile_eq_drop)
    ultimately show ?thesis using r frac by (auto simp: fraction_text_def)
  qed
qed

lemma fraction_text_hd: "fraction_text b r \<Longrightarrow> r = [] \<or> hd r \<in> {CHR ''.'', CHR ''e'', CHR ''E''}"
  using exponent_text_hd [of r] by (auto simp: fraction_text_def split: if_splits)

lemma unsigned_text_iff:
  "unsigned_text r \<longleftrightarrow> (\<exists>int rest. r = int @ rest \<and> list_all is_ascii_digit int \<and> fraction_text (int \<noteq> []) rest)"
proof
  assume "unsigned_text r"
  then show "\<exists>int rest. r = int @ rest \<and> list_all is_ascii_digit int \<and> fraction_text (int \<noteq> []) rest"
    unfolding unsigned_text_def
    by (intro exI [of _ "takeWhile is_ascii_digit r"] exI [of _ "dropWhile is_ascii_digit r"])
      (simp add: list_all_takeWhile)
next
  assume "\<exists>int rest. r = int @ rest \<and> list_all is_ascii_digit int \<and> fraction_text (int \<noteq> []) rest"
  then obtain int rest where r: "r = int @ rest" "list_all is_ascii_digit int" "fraction_text (int \<noteq> []) rest" by blast
  have "rest = [] \<or> \<not> is_ascii_digit (hd rest)" using fraction_text_hd [OF r(3)] by (auto simp: is_ascii_digit_def)
  then have "takeWhile is_ascii_digit r = int" unfolding r(1) by (rule takeWhile_append_stop [OF r(2)])
  moreover from this have "dropWhile is_ascii_digit r = rest" unfolding r(1)
    by (metis append_eq_conv_conj dropWhile_eq_drop)
  ultimately show "unsigned_text r" using r(3) by (simp add: unsigned_text_def)
qed

lemma unsigned_text_hd: "unsigned_text r \<Longrightarrow> r \<noteq> [] \<and> hd r \<notin> {CHR ''+'', CHR ''-''}"
  by (cases r) (auto simp: unsigned_text_def fraction_text_def is_ascii_digit_def)

text \<open>A text is accepted as a double exactly when it is an optional sign, digits with an optional
  fraction, at least one digit in all, and an optional exponent with at least one digit; as a truth value exactly when
  it is true or false in any case; and every other text is an invalid cast.\<close>

theorem text_casts_accept_syntax:
  "validate_string_to_float64_syntax s = (if float_syntax s then Inr () else Inl (Failed (InvalidCast TString TFloat64))) \<and>
   checked_string_to_bool s =
     (if map to_ascii_lowercase s = ''true'' then Inr True
      else if map to_ascii_lowercase s = ''false'' then Inr False
      else Inl (Failed (InvalidCast TString TBool)))"
proof -
  have "float64_text s \<longleftrightarrow> (\<exists>sign r. s = sign @ r \<and> sign \<in> set signs \<and> unsigned_text r)"
  proof
    assume *: "float64_text s"
    show "\<exists>sign r. s = sign @ r \<and> sign \<in> set signs \<and> unsigned_text r"
    proof (cases "s \<noteq> [] \<and> hd s \<in> {CHR ''+'', CHR ''-''}")
      case True
      then have "s = [hd s] @ tl s" "[hd s] \<in> set signs" by (auto simp: signs_def)
      moreover have "unsigned_text (tl s)" using * True float64_text_unsigned [of s] by presburger
      ultimately show ?thesis by blast
    next
      case False
      then have "unsigned_text s" using * unfolding float64_text_unsigned by presburger
      then have "s = [] @ s" "[] \<in> set signs" "unsigned_text s" by (simp_all add: signs_def)
      then show ?thesis by blast
    qed
  next
    assume "\<exists>sign r. s = sign @ r \<and> sign \<in> set signs \<and> unsigned_text r"
    then show "float64_text s"
      using unsigned_text_hd by (fastforce simp: float64_text_unsigned signs_def)
  qed
  also have "\<dots> \<longleftrightarrow> float_syntax s"
    unfolding float_syntax_def unsigned_text_iff fraction_text_iff exponent_text_iff by blast
  finally have "float64_text s = float_syntax s" .
  moreover have "map to_ascii_lowercase ''true'' = ''true''" "map to_ascii_lowercase ''false'' = ''false''" by code_simp+
  ultimately show ?thesis
    by (simp add: validate_string_to_float64_syntax_def checked_string_to_bool_def bool_of_text_def eq_ignore_ascii_case_def)
qed

end
