(* ===== verification/Batch_Column.thy ===== *)
theory Batch_Column
  imports Batch_Error
begin

text \<open>
  The typed columns of the second engine (\<^verbatim>\<open>src/batch/storage.rs\<close>): one vector per
  column, with the operations a table composes, their effect on the number of value bytes the column
  retains, and the identifiers and selections the table validates first. An \<open>unreachable!\<close> arm and
  an index out of range are panics.
\<close>

section \<open>Byte totals\<close>

definition u128_max :: nat where
  "u128_max = 340282366920938463463374607431768211455"

definition u128_add :: "nat \<Rightarrow> nat \<Rightarrow> nat" where
  "u128_add a b = min (a + b) u128_max"

definition u128_mul :: "nat \<Rightarrow> nat \<Rightarrow> nat" where
  "u128_mul a b = min (a * b) u128_max"

text \<open>\<open>usize::try_from(value).unwrap_or(usize::MAX)\<close>\<close>

definition saturating_usize :: "nat \<Rightarrow> usize" where
  "saturating_usize n = (if n \<le> usize_max then n else usize_max)"

section \<open>Schemas and identifiers\<close>

record table_limits =
  bl_max_rows :: usize
  bl_max_columns :: usize
  bl_max_cells :: usize

definition table_limits_new :: "usize \<Rightarrow> usize \<Rightarrow> usize \<Rightarrow> table_limits" where
  "table_limits_new rows columns cells = \<lparr>bl_max_rows = rows, bl_max_columns = columns, bl_max_cells = cells\<rparr>"

definition table_limits_default :: table_limits where
  "table_limits_default = table_limits_new 1000000 1024 4000000"

record column_def =
  cd_name :: string
  cd_type :: batch_type

text \<open>A character outside ASCII is neither a letter nor a digit, and so are the bytes of its
  encoding.\<close>

definition is_sql_identifier_start :: "char \<Rightarrow> bool" where
  "is_sql_identifier_start c \<longleftrightarrow> is_ascii_alphabetic c \<or> c = CHR ''_''"

definition is_sql_identifier_continue :: "char \<Rightarrow> bool" where
  "is_sql_identifier_continue c \<longleftrightarrow> is_ascii_alphanumeric c \<or> c = CHR ''_''"

definition is_valid_sql_identifier :: "string \<Rightarrow> bool" where
  "is_valid_sql_identifier s =
     (case s of [] \<Rightarrow> False | c # cs \<Rightarrow> is_sql_identifier_start c \<and> list_all is_sql_identifier_continue cs)"

definition validate_sql_identifier :: "string \<Rightarrow> string \<Rightarrow> unit batch_result" where
  "validate_sql_identifier s context =
     (if is_valid_sql_identifier s then Inr () else Inl (Failed (InvalidIdentifier s context)))"

definition validate_table_name :: "string \<Rightarrow> unit batch_result" where
  "validate_table_name s = validate_sql_identifier s ''table name''"

definition is_reserved_column_name :: "string \<Rightarrow> bool" where
  "is_reserved_column_name s \<longleftrightarrow> eq_ignore_ascii_case s ''TRUE'' \<or> eq_ignore_ascii_case s ''FALSE''"

text \<open>A name between apostrophes, as the messages show it.\<close>

definition quoted_name :: "string \<Rightarrow> string" where
  "quoted_name s = CHR 0x27 # s @ [CHR 0x27]"

section \<open>Columns\<close>

datatype column =
  Int64Column "i64 list"
| NullableInt64Column "nullable_i64 list"
| Float64Column "f64 list"
| BoolColumn "bool list"
| StringColumn "string list"

fun column_new :: "batch_type \<Rightarrow> column" where
  "column_new TInt64 = Int64Column []"
| "column_new TFloat64 = Float64Column []"
| "column_new TBool = BoolColumn []"
| "column_new TString = StringColumn []"

fun column_type :: "column \<Rightarrow> batch_type" where
  "column_type (Int64Column _) = TInt64"
| "column_type (NullableInt64Column _) = TInt64"
| "column_type (Float64Column _) = TFloat64"
| "column_type (BoolColumn _) = TBool"
| "column_type (StringColumn _) = TString"

fun metadata_type_name :: "column \<Rightarrow> string" where
  "metadata_type_name (NullableInt64Column _) = ''Nullable(Int64)''"
| "metadata_type_name c = batch_type_str (column_type c)"

fun column_len :: "column \<Rightarrow> usize" where
  "column_len (Int64Column vs) = length vs"
| "column_len (NullableInt64Column vs) = length vs"
| "column_len (Float64Column vs) = length vs"
| "column_len (BoolColumn vs) = length vs"
| "column_len (StringColumn vs) = length vs"

fun column_value_bytes :: "column \<Rightarrow> nat" where
  "column_value_bytes (Int64Column vs) = u128_mul (length vs) 8"
| "column_value_bytes (NullableInt64Column vs) = u128_mul (length vs) 9"
| "column_value_bytes (Float64Column vs) = u128_mul (length vs) 8"
| "column_value_bytes (BoolColumn vs) = length vs"
| "column_value_bytes (StringColumn vs) = foldl u128_add 0 (map length vs)"

definition column_retained_bytes :: "column \<Rightarrow> usize" where
  "column_retained_bytes c = saturating_usize (column_value_bytes c)"

definition nullable_scalar :: "nullable_i64 \<Rightarrow> scalar" where
  "nullable_scalar v = (case v of None \<Rightarrow> VNull TInt64 | Some x \<Rightarrow> VInt64 x)"

fun column_value :: "column \<Rightarrow> usize \<Rightarrow> 'e failure + scalar" where
  "column_value (Int64Column vs) row = res_bind (index vs row) (\<lambda>v. Inr (VInt64 v))"
| "column_value (NullableInt64Column vs) row = res_bind (index vs row) (\<lambda>v. Inr (nullable_scalar v))"
| "column_value (Float64Column vs) row = res_bind (index vs row) (\<lambda>v. Inr (VFloat64 v))"
| "column_value (BoolColumn vs) row = res_bind (index vs row) (\<lambda>v. Inr (VBool v))"
| "column_value (StringColumn vs) row = res_bind (index vs row) (\<lambda>v. Inr (VString v))"

definition column_cmp_at :: "column \<Rightarrow> usize \<Rightarrow> usize \<Rightarrow> 'e failure + ordering" where
  "column_cmp_at c left right =
     res_bind (column_value c left) (\<lambda>a. res_bind (column_value c right) (\<lambda>b. Inr (scalar_cmp a b)))"

text \<open>The column with the value and the bytes added.\<close>

fun column_push :: "column \<Rightarrow> scalar \<Rightarrow> 'e failure + column \<times> nat" where
  "column_push (Int64Column vs) (VInt64 v) = Inr (Int64Column (vs @ [v]), 8)"
| "column_push (NullableInt64Column vs) (VInt64 v) = Inr (NullableInt64Column (vs @ [Some v]), 9)"
| "column_push (NullableInt64Column vs) (VNull TInt64) = Inr (NullableInt64Column (vs @ [None]), 9)"
| "column_push (Float64Column vs) (VFloat64 v) = Inr (Float64Column (vs @ [v]), 8)"
| "column_push (BoolColumn vs) (VBool v) = Inr (BoolColumn (vs @ [v]), 1)"
| "column_push (StringColumn vs) (VString v) = Inr (StringColumn (vs @ [v]), length v)"
| "column_push _ _ = Inl Panicked"

fun column_clear :: "column \<Rightarrow> column" where
  "column_clear (Int64Column _) = Int64Column []"
| "column_clear (NullableInt64Column _) = NullableInt64Column []"
| "column_clear (Float64Column _) = Float64Column []"
| "column_clear (BoolColumn _) = BoolColumn []"
| "column_clear (StringColumn _) = StringColumn []"

text \<open>\<open>retain\<close> with a counter of the source rows and a position in the rows to delete.\<close>

fun retain_rows :: "usize list \<Rightarrow> usize \<Rightarrow> usize \<Rightarrow> 'a list \<Rightarrow> 'a list" where
  "retain_rows row_indexes source_row deletion_position [] = []"
| "retain_rows row_indexes source_row deletion_position (v # vs) =
     (if slice_get row_indexes deletion_position = Some source_row
      then retain_rows row_indexes (source_row + 1) (deletion_position + 1) vs
      else v # retain_rows row_indexes (source_row + 1) deletion_position vs)"

definition compact_deleted_rows :: "'a list \<Rightarrow> usize list \<Rightarrow> 'a list" where
  "compact_deleted_rows values row_indexes = retain_rows row_indexes 0 0 values"

fun deleted_value_bytes :: "column \<Rightarrow> usize list \<Rightarrow> 'e failure + nat" where
  "deleted_value_bytes (Int64Column _) rows = Inr (u128_mul (length rows) 8)"
| "deleted_value_bytes (Float64Column _) rows = Inr (u128_mul (length rows) 8)"
| "deleted_value_bytes (NullableInt64Column _) rows = Inr (u128_mul (length rows) 9)"
| "deleted_value_bytes (BoolColumn _) rows = Inr (length rows)"
| "deleted_value_bytes (StringColumn vs) rows =
     try_fold (\<lambda>total row. res_bind (index vs row) (\<lambda>v. Inr (u128_add total (length v)))) 0 rows"

fun column_compact :: "column \<Rightarrow> usize list \<Rightarrow> column" where
  "column_compact (Int64Column vs) rows = Int64Column (compact_deleted_rows vs rows)"
| "column_compact (NullableInt64Column vs) rows = NullableInt64Column (compact_deleted_rows vs rows)"
| "column_compact (Float64Column vs) rows = Float64Column (compact_deleted_rows vs rows)"
| "column_compact (BoolColumn vs) rows = BoolColumn (compact_deleted_rows vs rows)"
| "column_compact (StringColumn vs) rows = StringColumn (compact_deleted_rows vs rows)"

definition column_delete_rows :: "column \<Rightarrow> usize list \<Rightarrow> 'e failure + column \<times> nat" where
  "column_delete_rows c rows = res_bind (deleted_value_bytes c rows) (\<lambda>bytes. Inr (column_compact c rows, bytes))"

text \<open>\<open>values[row] = v\<close>\<close>

definition index_set :: "'a list \<Rightarrow> usize \<Rightarrow> 'a \<Rightarrow> 'e failure + 'a list" where
  "index_set vs row v = (if row < length vs then Inr (vs[row := v]) else Inl Panicked)"

text \<open>The column, the bytes removed and the bytes added so far.\<close>

fun replace_value :: "column \<times> nat \<times> nat \<Rightarrow> usize \<times> scalar \<Rightarrow> 'e failure + column \<times> nat \<times> nat" where
  "replace_value (Int64Column vs, removed, added) (row, VInt64 v) =
     res_bind (index_set vs row v) (\<lambda>vs. Inr (Int64Column vs, removed, added))"
| "replace_value (NullableInt64Column vs, removed, added) (row, VInt64 v) =
     res_bind (index_set vs row (Some v)) (\<lambda>vs. Inr (NullableInt64Column vs, removed, added))"
| "replace_value (NullableInt64Column vs, removed, added) (row, VNull TInt64) =
     res_bind (index_set vs row None) (\<lambda>vs. Inr (NullableInt64Column vs, removed, added))"
| "replace_value (Float64Column vs, removed, added) (row, VFloat64 v) =
     res_bind (index_set vs row v) (\<lambda>vs. Inr (Float64Column vs, removed, added))"
| "replace_value (BoolColumn vs, removed, added) (row, VBool v) =
     res_bind (index_set vs row v) (\<lambda>vs. Inr (BoolColumn vs, removed, added))"
| "replace_value (StringColumn vs, removed, added) (row, VString v) =
     res_bind (index vs row) (\<lambda>old.
     res_bind (index_set vs row v) (\<lambda>vs.
       Inr (StringColumn vs, u128_add removed (length old), u128_add added (length v))))"
| "replace_value _ _ = Inl Panicked"

definition column_replace_values :: "column \<Rightarrow> (usize \<times> scalar) list \<Rightarrow> 'e failure + column \<times> nat \<times> nat" where
  "column_replace_values c = try_fold replace_value (c, 0, 0)"

text \<open>A selection of rows is strictly increasing and in range; the first row that is not is reported with
  its position.\<close>

fun validate_selection_from :: "usize \<Rightarrow> usize option \<Rightarrow> usize list \<Rightarrow> usize \<Rightarrow> unit batch_result" where
  "validate_selection_from position previous [] input_rows = Inr ()"
| "validate_selection_from position previous (row # rows) input_rows =
     (if row \<ge> input_rows then Inl (Failed (SelectionIndexOutOfBounds position row input_rows))
      else case previous of
        Some p \<Rightarrow>
          if row \<le> p then Inl (Failed (SelectionNotStrictlyIncreasing position p row))
          else validate_selection_from (position + 1) (Some row) rows input_rows
      | None \<Rightarrow> validate_selection_from (position + 1) (Some row) rows input_rows)"

definition validate_row_selection :: "usize list \<Rightarrow> usize \<Rightarrow> unit batch_result" where
  "validate_row_selection rows input_rows = validate_selection_from 0 None rows input_rows"

end
