(* ===== verification/Batch_Table.thy ===== *)
theory Batch_Table
  imports Batch_Column
begin

text \<open>
  The tables of the second engine (\<^verbatim>\<open>src/batch/storage.rs\<close>): a schema with one typed
  column per field, counted in rows, cells and bytes; insertion, replacement and deletion of rows, the changes
  of the schema, the sparse min/max index rebuilt after every change of the values, and the range partitions,
  which a change discards.
\<close>

section \<open>The sparse index and the partitions\<close>

record min_max_limits =
  mm_block_rows :: usize
  mm_max_blocks :: usize
  mm_max_bytes :: usize

definition min_max_limits_new :: "usize \<Rightarrow> usize \<Rightarrow> usize \<Rightarrow> min_max_limits" where
  "min_max_limits_new rows blocks bytes = \<lparr>mm_block_rows = rows, mm_max_blocks = blocks, mm_max_bytes = bytes\<rparr>"

definition min_max_limits_default :: min_max_limits where
  "min_max_limits_default = min_max_limits_new 1024 4096 (1024 * 1024)"

record min_max_block =
  mb_first_row :: usize
  mb_row_count :: usize
  mb_min :: nullable_i64
  mb_max :: nullable_i64
  mb_null_count :: usize

text \<open>\<open>size_of\<close> a block: three machine words and two optional ones.\<close>

definition min_max_block_size :: usize where
  "min_max_block_size = 56"

record min_max_info =
  mf_column :: string
  mf_block_rows :: usize
  mf_block_count :: usize
  mf_indexed_rows :: usize
  mf_retained_bytes :: usize

datatype min_max_rejection =
  ZeroBlockRows
| SlotOccupied string
| BlockLimitExceeded usize usize
| IndexByteLimitExceeded usize usize

datatype min_max_admission = IndexCreated min_max_info | IndexRejected min_max_rejection

record min_max_index =
  mi_column :: usize
  mi_limits :: min_max_limits
  mi_indexed_rows :: usize
  mi_generation :: u64
  mi_blocks :: "min_max_block list"

datatype int64_filter =
  FilterEqual i64
| FilterLess i64
| FilterLessOrEqual i64
| FilterGreater i64
| FilterGreaterOrEqual i64
| FilterInclusiveRange i64 i64

record index_scan =
  is_ranges :: "(usize \<times> usize) list"
  is_scanned_blocks :: usize
  is_pruned_blocks :: usize

record range_partition =
  rp_lower :: i64
  rp_upper :: i64
  rp_values :: "i64 list"

record partition_limits =
  pl_max_partitions :: usize
  pl_max_rows :: usize
  pl_max_bytes :: usize

definition partition_limits_new :: "usize \<Rightarrow> usize \<Rightarrow> usize \<Rightarrow> partition_limits" where
  "partition_limits_new partitions rows bytes =
     \<lparr>pl_max_partitions = partitions, pl_max_rows = rows, pl_max_bytes = bytes\<rparr>"

definition partition_limits_default :: partition_limits where
  "partition_limits_default = partition_limits_new 1024 1000000 (1000000 * 8)"

datatype partition_error =
  PartitionLimitExceeded usize usize
| PartitionRowLimitExceeded usize usize
| PartitionByteLimitExceeded usize usize
| InvalidRange usize i64 i64
| OutOfOrder usize i64 i64
| PartitionOverlap usize i64 i64
| ValueOutOfRange usize usize i64 i64 i64
| PartitionTable batch_error

record partition_metadata =
  pm_lower :: i64
  pm_upper :: i64
  pm_row_start :: usize
  pm_row_end :: usize

record partition_set =
  ps_column :: usize
  ps_partitions :: "partition_metadata list"

section \<open>Tables\<close>

record batch_table =
  bt_name :: string
  bt_schema :: "column_def list"
  bt_columns :: "column list"
  bt_row_count :: usize
  bt_value_bytes :: nat
  bt_limits :: table_limits
  bt_generation :: u64
  bt_index :: "min_max_index option"
  bt_partitions :: "partition_set option"

fun schema_checks :: "string list \<Rightarrow> column_def list \<Rightarrow> unit batch_result" where
  "schema_checks seen [] = Inr ()"
| "schema_checks seen (field # rest) =
     res_bind (validate_sql_identifier (cd_name field) ''column name'') (\<lambda>_.
     if is_reserved_column_name (cd_name field)
     then Inl (Failed (ReservedIdentifier (cd_name field) ''column name''))
     else if map to_ascii_lowercase (cd_name field) \<in> set seen then Inl (Failed (DuplicateColumn (cd_name field)))
     else schema_checks (map to_ascii_lowercase (cd_name field) # seen) rest)"

definition batch_table_with_limits :: "string \<Rightarrow> column_def list \<Rightarrow> table_limits \<Rightarrow> batch_table batch_result" where
  "batch_table_with_limits name schema limits =
     res_bind (validate_table_name name) (\<lambda>_.
     if schema = [] then Inl (Failed (InvalidQuery ''a table must contain at least one column''))
     else if length schema > bl_max_columns limits
     then Inl (Failed (ResourceLimitExceeded ''table columns'' (length schema) (bl_max_columns limits)))
     else
     res_bind (schema_checks [] schema) (\<lambda>_.
     Inr \<lparr>bt_name = name, bt_schema = schema, bt_columns = map (column_new \<circ> cd_type) schema, bt_row_count = 0,
       bt_value_bytes = 0, bt_limits = limits, bt_generation = 0, bt_index = None, bt_partitions = None\<rparr>))"

definition batch_table_new :: "string \<Rightarrow> column_def list \<Rightarrow> batch_table batch_result" where
  "batch_table_new name schema = batch_table_with_limits name schema table_limits_default"

definition batch_table_with_row_cap :: "string \<Rightarrow> column_def list \<Rightarrow> usize \<Rightarrow> batch_table batch_result" where
  "batch_table_with_row_cap name schema row_cap =
     batch_table_with_limits name schema (table_limits_default\<lparr>bl_max_rows := row_cap\<rparr>)"

definition validate_row_capacity :: "batch_table \<Rightarrow> usize \<Rightarrow> unit batch_result" where
  "validate_row_capacity t incoming =
     (if incoming > saturating_sub (bl_max_rows (bt_limits t)) (bt_row_count t)
      then Inl (Failed (ResourceLimitExceeded ''table rows'' (saturating_add (bt_row_count t) incoming)
        (bl_max_rows (bt_limits t))))
      else let cells = saturating_mul (saturating_add (bt_row_count t) incoming) (length (bt_schema t)) in
      if cells > bl_max_cells (bt_limits t)
      then Inl (Failed (ResourceLimitExceeded ''table cells'' cells (bl_max_cells (bt_limits t))))
      else Inr ())"

definition int64_field :: "string \<Rightarrow> column_def" where
  "int64_field name = \<lparr>cd_name = name, cd_type = TInt64\<rparr>"

definition batch_table_with_int64_values ::
  "string \<Rightarrow> string \<Rightarrow> i64 list \<Rightarrow> table_limits \<Rightarrow> batch_table batch_result" where
  "batch_table_with_int64_values name column vs limits =
     res_bind (batch_table_with_limits name [int64_field column] limits) (\<lambda>t.
     res_bind (validate_row_capacity t (length vs)) (\<lambda>_.
     Inr (t\<lparr>bt_row_count := length vs, bt_value_bytes := u128_mul (length vs) 8, bt_columns := [Int64Column vs]\<rparr>)))"

definition batch_table_with_nullable_values ::
  "string \<Rightarrow> string \<Rightarrow> nullable_i64 list \<Rightarrow> table_limits \<Rightarrow> batch_table batch_result" where
  "batch_table_with_nullable_values name column vs limits =
     res_bind (batch_table_with_limits name [int64_field column] limits) (\<lambda>t.
     res_bind (validate_row_capacity t (length vs)) (\<lambda>_.
     Inr (t\<lparr>bt_row_count := length vs, bt_value_bytes := u128_mul (length vs) 9,
       bt_columns := [NullableInt64Column vs]\<rparr>)))"

section \<open>Range partitions\<close>

definition outside_partition :: "range_partition \<Rightarrow> i64 \<Rightarrow> bool" where
  "outside_partition p v \<longleftrightarrow> sint v < sint (rp_lower p) \<or> sint v > sint (rp_upper p)"

fun validate_partitions_from ::
  "usize \<Rightarrow> range_partition option \<Rightarrow> range_partition list \<Rightarrow> partition_error failure + unit" where
  "validate_partitions_from i previous [] = Inr ()"
| "validate_partitions_from i previous (p # ps) =
     (if sint (rp_lower p) > sint (rp_upper p) then Inl (Failed (InvalidRange i (rp_lower p) (rp_upper p)))
      else
      res_bind
        (case previous of
           None \<Rightarrow> Inr ()
         | Some q \<Rightarrow>
             if sint (rp_lower p) < sint (rp_lower q) then Inl (Failed (OutOfOrder i (rp_lower q) (rp_lower p)))
             else if sint (rp_lower p) \<le> sint (rp_upper q)
             then Inl (Failed (PartitionOverlap i (rp_upper q) (rp_lower p)))
             else Inr ()) (\<lambda>_.
      case find (\<lambda>j. outside_partition p (rp_values p ! j)) [0..<length (rp_values p)] of
        Some j \<Rightarrow> Inl (Failed (ValueOutOfRange i j (rp_values p ! j) (rp_lower p) (rp_upper p)))
      | None \<Rightarrow> validate_partitions_from (i + 1) (Some p) ps))"

fun partition_rows_from :: "usize \<Rightarrow> range_partition list \<Rightarrow> partition_metadata list" where
  "partition_rows_from start [] = []"
| "partition_rows_from start (p # ps) =
     \<lparr>pm_lower = rp_lower p, pm_upper = rp_upper p, pm_row_start = start, pm_row_end = start + length (rp_values p)\<rparr>
       # partition_rows_from (start + length (rp_values p)) ps"

text \<open>\<open>From\<close> of a table error.\<close>

fun partition_failure :: "batch_error failure \<Rightarrow> partition_error failure" where
  "partition_failure Panicked = Panicked"
| "partition_failure (Failed e) = Failed (PartitionTable e)"

definition batch_table_with_partitions ::
  "string \<Rightarrow> string \<Rightarrow> range_partition list \<Rightarrow> partition_limits \<Rightarrow> table_limits \<Rightarrow> partition_error failure + batch_table" where
  "batch_table_with_partitions name column partitions limits table_limits =
     (if length partitions > pl_max_partitions limits
      then Inl (Failed (PartitionLimitExceeded (length partitions) (pl_max_partitions limits)))
      else let rows = foldl saturating_add 0 (map (length \<circ> rp_values) partitions) in
      if rows > pl_max_rows limits then Inl (Failed (PartitionRowLimitExceeded rows (pl_max_rows limits)))
      else let exact_bytes = u128_mul rows 8 in
      if exact_bytes > pl_max_bytes limits
      then Inl (Failed (PartitionByteLimitExceeded (saturating_usize exact_bytes) (pl_max_bytes limits)))
      else
      res_bind (validate_partitions_from 0 None partitions) (\<lambda>_.
      res_bind (map_err partition_failure (batch_table_with_limits name [int64_field column] table_limits)) (\<lambda>t.
      res_bind (map_err partition_failure (validate_row_capacity t rows)) (\<lambda>_.
      Inr (t\<lparr>bt_row_count := rows, bt_value_bytes := exact_bytes,
        bt_columns := [Int64Column (concat (map rp_values partitions))],
        bt_partitions := Some \<lparr>ps_column = 0, ps_partitions = partition_rows_from 0 partitions\<rparr>\<rparr>)))))"

fun partition_may_match :: "partition_metadata \<Rightarrow> int64_filter \<Rightarrow> bool" where
  "partition_may_match p (FilterEqual v) = (sint (pm_lower p) \<le> sint v \<and> sint v \<le> sint (pm_upper p))"
| "partition_may_match p (FilterLess v) = (sint (pm_lower p) < sint v)"
| "partition_may_match p (FilterLessOrEqual v) = (sint (pm_lower p) \<le> sint v)"
| "partition_may_match p (FilterGreater v) = (sint (pm_upper p) > sint v)"
| "partition_may_match p (FilterGreaterOrEqual v) = (sint (pm_upper p) \<ge> sint v)"
| "partition_may_match p (FilterInclusiveRange lower upper) =
     (sint lower \<le> sint upper \<and> sint (pm_upper p) \<ge> sint lower \<and> sint (pm_lower p) \<le> sint upper)"

definition int64_range_partition_rows :: "batch_table \<Rightarrow> usize \<Rightarrow> int64_filter \<Rightarrow> (usize \<times> usize) option" where
  "int64_range_partition_rows t column flt =
     Option.bind (bt_partitions t) (\<lambda>set.
       if ps_column set \<noteq> column then None
       else case filter (\<lambda>p. partition_may_match p flt) (ps_partitions set) of
         [] \<Rightarrow> Some (0, 0)
       | first # rest \<Rightarrow> Some (pm_row_start first, foldl (\<lambda>_ p. pm_row_end p) (pm_row_end first) rest))"

section \<open>The sparse index\<close>

definition batch_column_index :: "batch_table \<Rightarrow> string \<Rightarrow> usize batch_result" where
  "batch_column_index t name =
     (case find (\<lambda>i. eq_ignore_ascii_case (cd_name (bt_schema t ! i)) name) [0..<length (bt_schema t)] of
        None \<Rightarrow> Inl (Failed (ColumnNotFound (bt_name t) name)) | Some i \<Rightarrow> Inr i)"

text \<open>The smaller and the larger of the values seen, nulls counted apart.\<close>

fun summarize_value :: "min_max_block \<Rightarrow> nullable_i64 \<Rightarrow> min_max_block" where
  "summarize_value b None =
     b\<lparr>mb_row_count := saturating_add (mb_row_count b) 1, mb_null_count := saturating_add (mb_null_count b) 1\<rparr>"
| "summarize_value b (Some v) =
     b\<lparr>mb_row_count := saturating_add (mb_row_count b) 1,
       mb_min := Some (case mb_min b of None \<Rightarrow> v | Some m \<Rightarrow> if sint v < sint m then v else m),
       mb_max := Some (case mb_max b of None \<Rightarrow> v | Some m \<Rightarrow> if sint m < sint v then v else m)\<rparr>"

definition summarize_block :: "usize \<Rightarrow> nullable_i64 list \<Rightarrow> min_max_block" where
  "summarize_block first_row vs =
     foldl summarize_value
       \<lparr>mb_first_row = first_row, mb_row_count = 0, mb_min = None, mb_max = None, mb_null_count = 0\<rparr> vs"

text \<open>\<open>chunks\<close> of the standard library.\<close>

fun row_chunks :: "usize \<Rightarrow> 'a list \<Rightarrow> 'a list list" where
  "row_chunks n xs = (if n = 0 \<or> xs = [] then [] else take n xs # row_chunks n (drop n xs))"

declare row_chunks.simps [simp del]

definition summarize_blocks :: "usize \<Rightarrow> nullable_i64 list \<Rightarrow> min_max_block list" where
  "summarize_blocks block_rows vs =
     map (\<lambda>(number, chunk). summarize_block (saturating_mul number block_rows) chunk)
       (enumerate 0 (row_chunks block_rows vs))"

fun int64_cells :: "column \<Rightarrow> nullable_i64 list option" where
  "int64_cells (Int64Column vs) = Some (map Some vs)"
| "int64_cells (NullableInt64Column vs) = Some vs"
| "int64_cells _ = None"

definition build_min_max_index ::
  "batch_table \<Rightarrow> usize \<Rightarrow> min_max_limits \<Rightarrow> min_max_rejection failure + min_max_index" where
  "build_min_max_index t column limits =
     (if mm_block_rows limits = 0 then Inl Panicked
      else let required = div_ceil (bt_row_count t) (mm_block_rows limits) in
      if required > mm_max_blocks limits then Inl (Failed (BlockLimitExceeded required (mm_max_blocks limits)))
      else let bytes = saturating_mul required min_max_block_size in
      if bytes > mm_max_bytes limits then Inl (Failed (IndexByteLimitExceeded bytes (mm_max_bytes limits)))
      else
      res_bind (index (bt_columns t) column) (\<lambda>c.
      case int64_cells c of
        None \<Rightarrow> Inl Panicked
      | Some vs \<Rightarrow>
          Inr \<lparr>mi_column = column, mi_limits = limits, mi_indexed_rows = bt_row_count t,
            mi_generation = bt_generation t, mi_blocks = summarize_blocks (mm_block_rows limits) vs\<rparr>))"

text \<open>The index is rebuilt, or given up when it no longer fits its limits.\<close>

definition mark_values_mutated :: "batch_table \<Rightarrow> 'e failure + batch_table" where
  "mark_values_mutated t =
     (let t1 = t\<lparr>bt_partitions := None, bt_generation := bt_generation t + 1\<rparr> in
      case bt_index t of
        None \<Rightarrow> Inr t1
      | Some previous \<Rightarrow>
          (case build_min_max_index (t1\<lparr>bt_index := None\<rparr>) (mi_column previous) (mi_limits previous) of
             Inl Panicked \<Rightarrow> Inl Panicked
           | Inl (Failed _) \<Rightarrow> Inr (t1\<lparr>bt_index := None\<rparr>)
           | Inr i \<Rightarrow> Inr (t1\<lparr>bt_index := Some i\<rparr>)))"

definition min_max_index_info :: "batch_table \<Rightarrow> min_max_info option" where
  "min_max_index_info t =
     Option.bind (bt_index t) (\<lambda>i. Option.bind (slice_get (bt_schema t) (mi_column i)) (\<lambda>field.
       Some \<lparr>mf_column = cd_name field, mf_block_rows = mm_block_rows (mi_limits i),
         mf_block_count = length (mi_blocks i), mf_indexed_rows = mi_indexed_rows i,
         mf_retained_bytes = saturating_mul (length (mi_blocks i)) min_max_block_size\<rparr>))"

definition try_create_min_max_index ::
  "batch_table \<Rightarrow> string \<Rightarrow> min_max_limits \<Rightarrow> (min_max_admission \<times> batch_table) batch_result" where
  "try_create_min_max_index t name limits =
     res_bind (batch_column_index t name) (\<lambda>column.
     res_bind (index (bt_schema t) column) (\<lambda>field.
     if cd_type field \<noteq> TInt64
     then Inl (Failed (BatchTypeMismatch
       (''sparse min-max index column '' @ quoted_name (bt_name t @ ''.'' @ cd_name field))
       (batch_type_str TInt64) (batch_type_str (cd_type field))))
     else if mm_block_rows limits = 0 then Inr (IndexRejected ZeroBlockRows, t)
     else case build_min_max_index t column limits of
       Inl Panicked \<Rightarrow> Inl Panicked
     | Inl (Failed rejection) \<Rightarrow> Inr (IndexRejected rejection, t)
     | Inr i \<Rightarrow>
         let t' = t\<lparr>bt_index := Some i\<rparr> in
         (case min_max_index_info t' of None \<Rightarrow> Inl Panicked | Some info \<Rightarrow> Inr (IndexCreated info, t'))))"

definition drop_min_max_index :: "batch_table \<Rightarrow> bool \<times> batch_table" where
  "drop_min_max_index t = (bt_index t \<noteq> None, t\<lparr>bt_index := None\<rparr>)"

definition valid_block_layout :: "min_max_index \<Rightarrow> usize \<Rightarrow> min_max_block \<Rightarrow> bool" where
  "valid_block_layout i position b =
     (let first_row = saturating_mul position (mm_block_rows (mi_limits i));
          expected_rows = min (saturating_sub (mi_indexed_rows i) first_row) (mm_block_rows (mi_limits i)) in
      mb_first_row b = first_row \<and> mb_row_count b = expected_rows \<and> mb_null_count b \<le> mb_row_count b \<and>
      (mb_min b \<noteq> None) = (mb_max b \<noteq> None) \<and>
      (if mb_min b \<noteq> None then mb_null_count b < mb_row_count b else mb_null_count b = mb_row_count b) \<and>
      (case (mb_min b, mb_max b) of (Some lo, Some hi) \<Rightarrow> sint lo \<le> sint hi | _ \<Rightarrow> True))"

definition index_has_valid_layout :: "min_max_index \<Rightarrow> bool" where
  "index_has_valid_layout i \<longleftrightarrow>
     length (mi_blocks i) = div_ceil (mi_indexed_rows i) (mm_block_rows (mi_limits i)) \<and>
     list_all (\<lambda>(position, b). valid_block_layout i position b) (enumerate 0 (mi_blocks i))"

definition block_may_match :: "min_max_block \<Rightarrow> int64_filter \<Rightarrow> bool" where
  "block_may_match b flt =
     (case (mb_min b, mb_max b) of
        (Some lo, Some hi) \<Rightarrow>
          (case flt of
             FilterEqual v \<Rightarrow> sint lo \<le> sint v \<and> sint v \<le> sint hi
           | FilterLess v \<Rightarrow> sint lo < sint v
           | FilterLessOrEqual v \<Rightarrow> sint lo \<le> sint v
           | FilterGreater v \<Rightarrow> sint hi > sint v
           | FilterGreaterOrEqual v \<Rightarrow> sint hi \<ge> sint v
           | FilterInclusiveRange lower upper \<Rightarrow>
               sint lower \<le> sint upper \<and> sint hi \<ge> sint lower \<and> sint lo \<le> sint upper)
      | _ \<Rightarrow> False)"

definition block_may_match_nullness :: "min_max_block \<Rightarrow> bool \<Rightarrow> bool" where
  "block_may_match_nullness b is_null = (if is_null then mb_null_count b \<noteq> 0 else mb_null_count b < mb_row_count b)"

definition scan_block :: "usize \<Rightarrow> usize \<Rightarrow> (min_max_block \<Rightarrow> bool) \<Rightarrow> index_scan \<Rightarrow> min_max_block \<Rightarrow> index_scan" where
  "scan_block from bound may_match s b =
     (let start = max (mb_first_row b) from;
          stop = min (saturating_add (mb_first_row b) (mb_row_count b)) bound in
      if start \<ge> stop then s
      else if may_match b
      then s\<lparr>is_scanned_blocks := saturating_add (is_scanned_blocks s) 1, is_ranges := is_ranges s @ [(start, stop)]\<rparr>
      else s\<lparr>is_pruned_blocks := saturating_add (is_pruned_blocks s) 1\<rparr>)"

definition min_max_index_scan_with ::
  "batch_table \<Rightarrow> usize \<Rightarrow> usize \<times> usize \<Rightarrow> (min_max_block \<Rightarrow> bool) \<Rightarrow> index_scan option" where
  "min_max_index_scan_with t column rows may_match =
     Option.bind (bt_index t) (\<lambda>i.
       if mi_column i \<noteq> column \<or> mi_generation i \<noteq> bt_generation t \<or> mi_indexed_rows i \<noteq> bt_row_count t \<or>
          mm_block_rows (mi_limits i) = 0 \<or> \<not> index_has_valid_layout i
       then None
       else Some (foldl (scan_block (fst rows) (snd rows) may_match)
         \<lparr>is_ranges = [], is_scanned_blocks = 0, is_pruned_blocks = 0\<rparr> (mi_blocks i)))"

definition min_max_index_scan ::
  "batch_table \<Rightarrow> usize \<Rightarrow> int64_filter \<Rightarrow> usize \<times> usize \<Rightarrow> index_scan option" where
  "min_max_index_scan t column flt rows = min_max_index_scan_with t column rows (\<lambda>b. block_may_match b flt)"

definition min_max_nullness_index_scan ::
  "batch_table \<Rightarrow> usize \<Rightarrow> bool \<Rightarrow> usize \<times> usize \<Rightarrow> index_scan option" where
  "min_max_nullness_index_scan t column is_null rows =
     min_max_index_scan_with t column rows (\<lambda>b. block_may_match_nullness b is_null)"

section \<open>Rows\<close>

definition value_context :: "batch_table \<Rightarrow> column_def \<Rightarrow> string" where
  "value_context t field = ''column '' @ quoted_name (bt_name t @ ''.'' @ cd_name field)"

text \<open>\<open>is_finite\<close>\<close>

definition f64_is_finite :: "f64 \<Rightarrow> bool" where
  "f64_is_finite x \<longleftrightarrow> f64_magnitude x < 2047 * 2 ^ 52"

fun is_nullable_column :: "column \<Rightarrow> bool" where
  "is_nullable_column (NullableInt64Column _) = True"
| "is_nullable_column _ = False"

definition validate_value :: "batch_table \<Rightarrow> usize \<Rightarrow> column_def \<Rightarrow> scalar \<Rightarrow> unit batch_result" where
  "validate_value t column field v =
     (case v of
        VNull type \<Rightarrow>
          res_bind (index (bt_columns t) column) (\<lambda>c.
          if is_nullable_column c \<and> type = TInt64 then Inr ()
          else Inl (Failed (BatchTypeMismatch (value_context t field) (batch_type_str (cd_type field)) ''NULL'')))
      | _ \<Rightarrow>
          if cd_type field \<noteq> scalar_type v
          then Inl (Failed (BatchTypeMismatch (value_context t field) (batch_type_str (cd_type field))
            (batch_type_str (scalar_type v))))
          else case v of
            VFloat64 x \<Rightarrow>
              if \<not> f64_is_finite x
              then Inl (Failed (InvalidQuery (value_context t field @ '' cannot store a non-finite Float64'')))
              else Inr ()
          | _ \<Rightarrow> Inr ())"

fun validate_values :: "batch_table \<Rightarrow> (usize \<times> column_def \<times> scalar) list \<Rightarrow> unit batch_result" where
  "validate_values t [] = Inr ()"
| "validate_values t ((column, field, v) # rest) =
     res_bind (validate_value t column field v) (\<lambda>_. validate_values t rest)"

definition validate_row :: "batch_table \<Rightarrow> scalar list \<Rightarrow> unit batch_result" where
  "validate_row t row =
     (if length row \<noteq> length (bt_schema t)
      then Inl (Failed (RowLength (bt_name t) (length (bt_schema t)) (length row)))
      else validate_values t (enumerate 0 (zip (bt_schema t) row)))"

definition validate_rows :: "batch_table \<Rightarrow> scalar list list \<Rightarrow> unit batch_result" where
  "validate_rows t rows = try_fold (\<lambda>_ row. validate_row t row) () rows"

text \<open>The values of a row, pushed to the columns in order; a longer row is cut off, as \<open>zip\<close>
  does.\<close>

fun push_values_to_columns :: "column list \<Rightarrow> scalar list \<Rightarrow> nat \<Rightarrow> 'e failure + column list \<times> nat" where
  "push_values_to_columns (c # cs) (v # vs) added =
     res_bind (column_push c v) (\<lambda>(c', bytes).
     res_bind (push_values_to_columns cs vs (u128_add added bytes)) (\<lambda>(cs', total). Inr (c' # cs', total)))"
| "push_values_to_columns cs vs added = Inr (cs, added)"

definition append_validated_row :: "batch_table \<Rightarrow> scalar list \<Rightarrow> 'e failure + batch_table" where
  "append_validated_row t row =
     res_bind (push_values_to_columns (bt_columns t) row 0) (\<lambda>(cs, added).
     Inr (t\<lparr>bt_columns := cs, bt_row_count := bt_row_count t + 1, bt_value_bytes := u128_add (bt_value_bytes t) added\<rparr>))"

definition append_validated_rows :: "batch_table \<Rightarrow> scalar list list \<Rightarrow> 'e failure + batch_table" where
  "append_validated_rows t rows =
     res_bind (try_fold append_validated_row t rows) (\<lambda>t'.
     if rows \<noteq> [] then mark_values_mutated t' else Inr t')"

definition insert_row :: "batch_table \<Rightarrow> scalar list \<Rightarrow> batch_table batch_result" where
  "insert_row t row =
     res_bind (validate_row_capacity t 1) (\<lambda>_.
     res_bind (validate_row t row) (\<lambda>_.
     res_bind (append_validated_row t row) mark_values_mutated))"

definition insert_rows :: "batch_table \<Rightarrow> scalar list list \<Rightarrow> batch_table batch_result" where
  "insert_rows t rows =
     res_bind (validate_row_capacity t (length rows)) (\<lambda>_.
     res_bind (validate_rows t rows) (\<lambda>_. append_validated_rows t rows))"

section \<open>Inserted columns\<close>

record prepared_rows =
  pi_rows :: "scalar list list"
  pi_schema_indexes :: "usize list option"

text \<open>Collected into a map, the last of equal names stays.\<close>

definition schema_index_by_name :: "batch_table \<Rightarrow> string \<rightharpoonup> usize" where
  "schema_index_by_name t =
     map_of (rev (map (\<lambda>(i, field). (map to_ascii_lowercase (cd_name field), i)) (enumerate 0 (bt_schema t))))"

fun resolve_insert_columns :: "batch_table \<Rightarrow> usize list \<Rightarrow> string list \<Rightarrow> usize list batch_result" where
  "resolve_insert_columns t seen [] = Inr []"
| "resolve_insert_columns t seen (name # names) =
     (case schema_index_by_name t (map to_ascii_lowercase name) of
        None \<Rightarrow> Inl (Failed (ColumnNotFound (bt_name t) name))
      | Some i \<Rightarrow>
          if i \<in> set seen then Inl (Failed (DuplicateColumn name))
          else res_bind (resolve_insert_columns t (i # seen) names) (\<lambda>rest. Inr (i # rest)))"

definition validate_row_widths :: "batch_table \<Rightarrow> usize \<Rightarrow> scalar list list \<Rightarrow> unit batch_result" where
  "validate_row_widths t width rows =
     (case find (\<lambda>row. length row \<noteq> width) rows of
        None \<Rightarrow> Inr () | Some row \<Rightarrow> Inl (Failed (RowLength (bt_name t) width (length row))))"

text \<open>The position in the input of each field of the schema; the supplied values are checked in the order of
  the schema.\<close>

definition input_indexes :: "usize \<Rightarrow> usize list \<Rightarrow> 'e failure + usize option list" where
  "input_indexes width schema_indexes =
     try_fold (\<lambda>inputs (input, i). index_set inputs i (Some input)) (replicate width None) (enumerate 0 schema_indexes)"

definition projected_values ::
  "batch_table \<Rightarrow> usize option list \<Rightarrow> scalar list \<Rightarrow> (usize \<times> column_def \<times> scalar) list" where
  "projected_values t inputs row =
     List.map_filter (\<lambda>(i, field, input). map_option (\<lambda>j. (i, field, row ! j)) input)
       (enumerate 0 (zip (bt_schema t) inputs))"

definition prepare_projected_rows_with_capacity ::
  "batch_table \<Rightarrow> usize list \<Rightarrow> scalar list list \<Rightarrow> usize \<Rightarrow> prepared_rows batch_result" where
  "prepare_projected_rows_with_capacity t schema_indexes rows capacity_rows =
     res_bind (input_indexes (length (bt_schema t)) schema_indexes) (\<lambda>inputs.
     res_bind (validate_row_widths t (length schema_indexes) rows) (\<lambda>_.
     res_bind (validate_row_capacity t capacity_rows) (\<lambda>_.
     res_bind (try_fold (\<lambda>_ row. validate_values t
       (projected_values t inputs row)) () rows) (\<lambda>_.
     Inr \<lparr>pi_rows = rows,
       pi_schema_indexes = (if schema_indexes = [0..<length (bt_schema t)] then None else Some schema_indexes)\<rparr>))))"

definition prepare_projected_rows ::
  "batch_table \<Rightarrow> usize list \<Rightarrow> scalar list list \<Rightarrow> prepared_rows batch_result" where
  "prepare_projected_rows t schema_indexes rows =
     prepare_projected_rows_with_capacity t schema_indexes rows (length rows)"

definition prepare_insert_rows ::
  "batch_table \<Rightarrow> string list option \<Rightarrow> scalar list list \<Rightarrow> usize \<Rightarrow> prepared_rows batch_result" where
  "prepare_insert_rows t insert_columns rows capacity_rows =
     (case insert_columns of
        None \<Rightarrow>
          res_bind (validate_row_capacity t capacity_rows) (\<lambda>_.
          res_bind (validate_rows t rows) (\<lambda>_. Inr \<lparr>pi_rows = rows, pi_schema_indexes = None\<rparr>))
      | Some names \<Rightarrow>
          if names = []
          then res_bind (index (bt_schema t) 0) (\<lambda>field. Inl (Failed (MissingInsertColumn (bt_name t) (cd_name field))))
          else
          res_bind (resolve_insert_columns t [] names) (\<lambda>schema_indexes.
          res_bind (validate_row_widths t (length names) rows) (\<lambda>_.
          prepare_projected_rows_with_capacity t schema_indexes rows capacity_rows)))"

definition prepared_int64_values :: "prepared_rows \<Rightarrow> nullable_i64 list option" where
  "prepared_int64_values p =
     those (map (\<lambda>row. case row of [VInt64 v] \<Rightarrow> Some (Some v) | [VNull TInt64] \<Rightarrow> Some None | _ \<Rightarrow> None) (pi_rows p))"

fun default_value :: "column \<Rightarrow> scalar" where
  "default_value (NullableInt64Column _) = VNull TInt64"
| "default_value (Int64Column _) = VInt64 0"
| "default_value (Float64Column _) = VFloat64 0"
| "default_value (BoolColumn _) = VBool False"
| "default_value (StringColumn _) = VString []"

definition projected_row :: "batch_table \<Rightarrow> usize list \<Rightarrow> scalar list \<Rightarrow> 'e failure + scalar list" where
  "projected_row t schema_indexes source =
     try_fold (\<lambda>row (v, i). index_set row i v)
       (map (default_value \<circ> snd) (zip (bt_schema t) (bt_columns t))) (zip source schema_indexes)"

definition append_prepared_insert_rows :: "batch_table \<Rightarrow> prepared_rows \<Rightarrow> 'e failure + batch_table" where
  "append_prepared_insert_rows t p =
     (case pi_schema_indexes p of
        None \<Rightarrow> append_validated_rows t (pi_rows p)
      | Some schema_indexes \<Rightarrow>
          res_bind (try_fold (\<lambda>t source.
            res_bind (projected_row t schema_indexes source) (append_validated_row t)) t (pi_rows p)) (\<lambda>t'.
          if pi_rows p \<noteq> [] then mark_values_mutated t' else Inr t'))"

section \<open>Replacement and deletion\<close>

definition replace_column_values ::
  "batch_table \<Rightarrow> string \<Rightarrow> (usize \<times> scalar) list \<Rightarrow> (usize \<times> batch_table) batch_result" where
  "replace_column_values t name replacements =
     res_bind (batch_column_index t name) (\<lambda>i.
     res_bind (validate_row_selection (map fst replacements) (bt_row_count t)) (\<lambda>_.
     res_bind (index (bt_schema t) i) (\<lambda>field.
     res_bind (validate_values t (map (\<lambda>(_, v). (i, field, v)) replacements)) (\<lambda>_.
     res_bind (index (bt_columns t) i) (\<lambda>c.
     res_bind (column_replace_values c replacements) (\<lambda>(c', removed, added).
     let t' = t\<lparr>bt_columns := (bt_columns t)[i := c'],
       bt_value_bytes := u128_add (bt_value_bytes t - removed) added\<rparr> in
     if replacements \<noteq> [] then res_bind (mark_values_mutated t') (\<lambda>t'. Inr (length replacements, t'))
     else Inr (length replacements, t')))))))"

fun delete_from_columns :: "column list \<Rightarrow> usize list \<Rightarrow> nat \<Rightarrow> 'e failure + column list \<times> nat" where
  "delete_from_columns [] rows deleted = Inr ([], deleted)"
| "delete_from_columns (c # cs) rows deleted =
     res_bind (column_delete_rows c rows) (\<lambda>(c', bytes).
     res_bind (delete_from_columns cs rows (u128_add deleted bytes)) (\<lambda>(cs', total). Inr (c' # cs', total)))"

definition delete_rows :: "batch_table \<Rightarrow> usize list \<Rightarrow> (usize \<times> batch_table) batch_result" where
  "delete_rows t rows =
     res_bind (validate_row_selection rows (bt_row_count t)) (\<lambda>_.
     if rows = [] then Inr (0, t)
     else
     res_bind (delete_from_columns (bt_columns t) rows 0) (\<lambda>(cs, deleted).
     if bt_row_count t < length rows then Inl Panicked
     else
     res_bind (mark_values_mutated (t\<lparr>bt_columns := cs, bt_row_count := bt_row_count t - length rows,
       bt_value_bytes := bt_value_bytes t - deleted\<rparr>)) (\<lambda>t'. Inr (length rows, t'))))"

definition truncate_table :: "batch_table \<Rightarrow> (usize \<times> batch_table) batch_result" where
  "truncate_table t =
     (let t' = t\<lparr>bt_columns := map column_clear (bt_columns t), bt_row_count := 0, bt_value_bytes := 0\<rparr> in
      if bt_row_count t \<noteq> 0 then res_bind (mark_values_mutated t') (\<lambda>t'. Inr (bt_row_count t, t'))
      else Inr (0, t'))"

section \<open>Changes of the schema\<close>

definition rename_column :: "batch_table \<Rightarrow> string \<Rightarrow> string \<Rightarrow> batch_table batch_result" where
  "rename_column t source destination =
     res_bind (batch_column_index t source) (\<lambda>i.
     res_bind (validate_sql_identifier destination ''column name'') (\<lambda>_.
     if is_reserved_column_name destination then Inl (Failed (ReservedIdentifier destination ''column name''))
     else if list_ex (\<lambda>(j, field). j \<noteq> i \<and> eq_ignore_ascii_case (cd_name field) destination) (enumerate 0 (bt_schema t))
     then Inl (Failed (DuplicateColumn destination))
     else Inr (t\<lparr>bt_schema := (bt_schema t)[i := (bt_schema t ! i)\<lparr>cd_name := destination\<rparr>], bt_partitions := None\<rparr>)))"

definition validate_add_column :: "batch_table \<Rightarrow> column_def \<Rightarrow> unit batch_result" where
  "validate_add_column t field =
     res_bind (validate_sql_identifier (cd_name field) ''column name'') (\<lambda>_.
     if is_reserved_column_name (cd_name field)
     then Inl (Failed (ReservedIdentifier (cd_name field) ''column name''))
     else if list_ex (\<lambda>f. eq_ignore_ascii_case (cd_name f) (cd_name field)) (bt_schema t)
     then Inl (Failed (DuplicateColumn (cd_name field)))
     else let column_count = saturating_add (length (bt_schema t)) 1 in
     if column_count > bl_max_columns (bt_limits t)
     then Inl (Failed (ResourceLimitExceeded ''table columns'' column_count (bl_max_columns (bt_limits t))))
     else let cells = saturating_mul (bt_row_count t) column_count in
     if cells > bl_max_cells (bt_limits t)
     then Inl (Failed (ResourceLimitExceeded ''table cells'' cells (bl_max_cells (bt_limits t))))
     else Inr ())"

definition publish_added_column :: "batch_table \<Rightarrow> column_def \<Rightarrow> column \<Rightarrow> 'e failure + batch_table" where
  "publish_added_column t field c =
     mark_values_mutated (t\<lparr>bt_schema := bt_schema t @ [field], bt_columns := bt_columns t @ [c],
       bt_value_bytes := u128_add (bt_value_bytes t) (column_value_bytes c)\<rparr>)"

fun default_column :: "batch_type \<Rightarrow> usize \<Rightarrow> column" where
  "default_column TInt64 n = Int64Column (replicate n 0)"
| "default_column TFloat64 n = Float64Column (replicate n 0)"
| "default_column TBool n = BoolColumn (replicate n False)"
| "default_column TString n = StringColumn (replicate n [])"

definition add_column :: "batch_table \<Rightarrow> column_def \<Rightarrow> batch_table batch_result" where
  "add_column t field =
     res_bind (validate_add_column t field) (\<lambda>_.
     publish_added_column t field (default_column (cd_type field) (bt_row_count t)))"

definition add_nullable_int64_column :: "batch_table \<Rightarrow> string \<Rightarrow> batch_table batch_result" where
  "add_nullable_int64_column t name =
     res_bind (validate_add_column t (int64_field name)) (\<lambda>_.
     publish_added_column t (int64_field name) (NullableInt64Column (replicate (bt_row_count t) None)))"

text \<open>\<open>Vec::remove\<close> panics out of range.\<close>

definition remove_at :: "'a list \<Rightarrow> usize \<Rightarrow> 'e failure + 'a \<times> 'a list" where
  "remove_at xs i = (if i < length xs then Inr (xs ! i, take i xs @ drop (Suc i) xs) else Inl Panicked)"

definition drop_column :: "batch_table \<Rightarrow> string \<Rightarrow> batch_table batch_result" where
  "drop_column t name =
     res_bind (batch_column_index t name) (\<lambda>i.
     if length (bt_schema t) = 1
     then Inl (Failed (InvalidQuery (''cannot drop the only column from table '' @ quoted_name (bt_name t))))
     else
     res_bind (remove_at (bt_schema t) i) (\<lambda>(_, schema).
     res_bind (remove_at (bt_columns t) i) (\<lambda>(removed, columns).
     Inr (t\<lparr>bt_schema := schema, bt_columns := columns,
       bt_value_bytes := bt_value_bytes t - column_value_bytes removed, bt_index := None, bt_partitions := None,
       bt_generation := bt_generation t + 1\<rparr>))))"

section \<open>Readings\<close>

definition range_partition_count :: "batch_table \<Rightarrow> usize option" where
  "range_partition_count t = map_option (length \<circ> ps_partitions) (bt_partitions t)"

definition retained_cell_count :: "batch_table \<Rightarrow> usize" where
  "retained_cell_count t = saturating_mul (bt_row_count t) (length (bt_schema t))"

definition table_retained_value_bytes :: "batch_table \<Rightarrow> usize" where
  "table_retained_value_bytes t = saturating_usize (bt_value_bytes t)"

definition column_is_nullable_int64 :: "batch_table \<Rightarrow> usize \<Rightarrow> 'e failure + bool" where
  "column_is_nullable_int64 t i = res_bind (index (bt_columns t) i) (\<lambda>c. Inr (is_nullable_column c))"

end
