(* ===== verification/Batch_Column_Cells.thy ===== *)
theory Batch_Column_Cells
  imports Batch_Table
begin

text \<open>
  What the operations of a typed column do to its cells: a push appends one, a deletion keeps the cells outside the
  selection, a replacement updates single cells, and the byte counts they report are those of the cells concerned.
\<close>

section \<open>Cells\<close>

fun column_cells :: "column \<Rightarrow> scalar list" where
  "column_cells (Int64Column vs) = map VInt64 vs"
| "column_cells (NullableInt64Column vs) = map nullable_scalar vs"
| "column_cells (Float64Column vs) = map VFloat64 vs"
| "column_cells (BoolColumn vs) = map VBool vs"
| "column_cells (StringColumn vs) = map VString vs"

text \<open>The bytes a cell retains; a nullable integer takes a byte more.\<close>

fun cell_bytes :: "bool \<Rightarrow> scalar \<Rightarrow> nat" where
  "cell_bytes True v = 9"
| "cell_bytes False (VInt64 _) = 8"
| "cell_bytes False (VFloat64 _) = 8"
| "cell_bytes False (VBool _) = 1"
| "cell_bytes False (VString s) = length s"
| "cell_bytes False (VNull _) = 0"

definition column_bytes :: "column \<Rightarrow> nat" where
  "column_bytes c = (\<Sum>v\<leftarrow>column_cells c. cell_bytes (is_nullable_column c) v)"

text \<open>What a column of a type takes: its own values, finite ones if they are doubles, and nulls if it is
  nullable.\<close>

fun cell_fits :: "batch_type \<Rightarrow> bool \<Rightarrow> scalar \<Rightarrow> bool" where
  "cell_fits t nullable (VNull u) \<longleftrightarrow> nullable \<and> u = TInt64"
| "cell_fits t nullable (VFloat64 x) \<longleftrightarrow> t = TFloat64 \<and> f64_is_finite x"
| "cell_fits t nullable v \<longleftrightarrow> t = scalar_type v"

text \<open>A string has at most \<open>isize::MAX\<close> bytes.\<close>

fun cell_small :: "scalar \<Rightarrow> bool" where
  "cell_small (VString s) \<longleftrightarrow> length s \<le> isize_max"
| "cell_small _ \<longleftrightarrow> True"

definition column_ok :: "column \<Rightarrow> bool" where
  "column_ok c \<longleftrightarrow>
     list_all (cell_fits (column_type c) (is_nullable_column c)) (column_cells c) \<and> list_all cell_small (column_cells c)"

definition same_kind :: "column \<Rightarrow> column \<Rightarrow> bool" where
  "same_kind c d \<longleftrightarrow> column_type c = column_type d \<and> is_nullable_column c = is_nullable_column d"

lemma same_kind_refl [simp]: "same_kind c c"
  by (simp add: same_kind_def)

lemma column_len_cells: "column_len c = length (column_cells c)"
  by (cases c) simp_all

lemma nullable_int64: "is_nullable_column c \<Longrightarrow> column_type c = TInt64"
  by (cases c) simp_all

lemma column_value_cells: "row < column_len c \<Longrightarrow> column_value c row = Inr (column_cells c ! row)"
  by (cases c) simp_all

lemma foldl_u128_add: "foldl u128_add a xs = (if xs = [] then a else min (a + sum_list xs) u128_max)"
proof (induction xs arbitrary: a)
  case (Cons x xs)
  then show ?case by (auto simp: u128_add_def min_def)
qed simp

lemma column_value_bytes_exact: "column_bytes c \<le> u128_max \<Longrightarrow> column_value_bytes c = column_bytes c"
  by (cases c)
    (auto simp: column_bytes_def u128_mul_def foldl_u128_add o_def sum_list_const_mult nullable_scalar_def
      sum_list_triv)

lemma cell_bytes_small: "cell_small v \<Longrightarrow> cell_bytes n v \<le> isize_max"
  by (cases n; cases v) (simp_all add: isize_max_def)

lemma column_bytes_bound:
  assumes "list_all cell_small (column_cells c)"
  shows "column_bytes c \<le> column_len c * isize_max"
proof -
  have "(\<Sum>v\<leftarrow>vs. cell_bytes n v) \<le> length vs * isize_max" if "list_all cell_small vs" for vs n
    using that by (induction vs) (simp_all add: cell_bytes_small add_mono)
  from this [OF assms] show ?thesis by (simp add: column_bytes_def column_len_cells)
qed

section \<open>New cells\<close>

lemma column_push_cells:
  assumes "cell_fits (column_type c) (is_nullable_column c) v"
  obtains c' where "column_push c v = Inr (c', cell_bytes (is_nullable_column c) v)"
    "column_cells c' = column_cells c @ [v]" "same_kind c' c"
  using assms by (cases c; cases v) (auto simp: same_kind_def nullable_scalar_def)

lemma column_ok_append:
  assumes "column_ok c" "same_kind d c" "column_cells d = column_cells c @ vs"
    "list_all (cell_fits (column_type c) (is_nullable_column c)) vs" "list_all cell_small vs"
  shows "column_ok d"
  using assms by (simp add: column_ok_def same_kind_def)

lemma default_fits: "cell_fits (column_type c) (is_nullable_column c) (default_value c)"
  by (cases c) (simp_all add: f64_is_finite_def f64_magnitude_def)

lemma default_small: "cell_small (default_value c)"
  by (cases c) simp_all

lemma default_column_cells:
  "column_cells (default_column t n) = replicate n (default_value (column_new t))"
  "column_type (default_column t n) = t" "\<not> is_nullable_column (default_column t n)"
  by (cases t; simp)+

lemma column_new_cells [simp]:
  "column_cells (column_new t) = []" "column_type (column_new t) = t" "\<not> is_nullable_column (column_new t)"
  by (cases t; simp)+

lemma column_clear_cells [simp]:
  "column_cells (column_clear c) = []" "column_type (column_clear c) = column_type c"
  "is_nullable_column (column_clear c) = is_nullable_column c"
  by (cases c; simp)+

section \<open>Deleted cells\<close>

lemma sorted_wrt_less_distinct: "sorted_wrt (<) (xs :: nat list) \<Longrightarrow> distinct xs"
  by (simp add: strict_sorted_iff)

lemma validate_selection_from_iff:
  "validate_selection_from position previous rows n = Inr () \<longleftrightarrow>
     sorted_wrt (<) rows \<and> list_all (\<lambda>r. r < n) rows \<and> (case previous of None \<Rightarrow> True | Some p \<Rightarrow> list_all (\<lambda>r. p < r) rows)"
proof (induction position previous rows n rule: validate_selection_from.induct)
  case (2 position previous row rows n)
  then show ?case by (cases previous) (auto simp: list_all_iff)
qed (simp split: option.split)

lemma validate_row_selection_iff:
  "validate_row_selection rows n = Inr () \<longleftrightarrow> sorted_wrt (<) rows \<and> list_all (\<lambda>r. r < n) rows"
  by (simp add: validate_row_selection_def validate_selection_from_iff)

lemma validate_selection_from_total: "validate_selection_from position previous rows n \<noteq> Inl Panicked"
  by (induction position previous rows n rule: validate_selection_from.induct) (auto split: option.split)

lemma validate_row_selection_total: "validate_row_selection rows n \<noteq> Inl Panicked"
  by (simp add: validate_row_selection_def validate_selection_from_total)

lemma retain_rows_nths:
  assumes "sorted_wrt (<) rows" "\<forall>r\<in>set (take position rows). r < source" "\<forall>r\<in>set (drop position rows). source \<le> r"
  shows "retain_rows rows source position vs = nths vs {j. source + j \<notin> set rows}"
  using assms(2,3)
proof (induction vs arbitrary: source position)
  case (Cons v vs)
  have split: "set rows = set (take position rows) \<union> set (drop position rows)"
    by (metis append_take_drop_id set_append)
  have shift: "{j. Suc j \<in> {j. source + j \<notin> set rows}} = {j. Suc source + j \<notin> set rows}" by simp
  show ?case
  proof (cases "slice_get rows position = Some source")
    case True
    then have here: "position < length rows" "rows ! position = source" by (simp_all add: slice_get_def split: if_splits)
    then have cons: "drop position rows = source # drop (Suc position) rows" by (metis Cons_nth_drop_Suc)
    have "sorted_wrt (<) (drop position rows)" using assms(1) by (simp add: sorted_wrt_drop)
    then have "\<forall>r\<in>set (drop (Suc position) rows). Suc source \<le> r" unfolding cons by auto
    moreover have "\<forall>r\<in>set (take (Suc position) rows). r < Suc source"
      using Cons.prems(1) here by (auto simp: take_Suc_conv_app_nth less_SucI)
    ultimately have "retain_rows rows (Suc source) (Suc position) vs = nths vs {j. Suc source + j \<notin> set rows}"
      by (rule Cons.IH [rotated])
    moreover have "source \<in> set rows" using here by (metis nth_mem)
    ultimately show ?thesis using True by (simp add: nths_Cons)
  next
    case False
    have out: "source \<notin> set (drop position rows)"
    proof
      assume *: "source \<in> set (drop position rows)"
      then obtain x xs where d: "drop position rows = x # xs" by (cases "drop position rows") auto
      have "sorted_wrt (<) (x # xs)" using assms(1) sorted_wrt_drop [of "(<)" rows position] unfolding d by simp
      then have "x = source" using * Cons.prems(2) unfolding d by fastforce
      moreover have "position < length rows" using d by (metis drop_eq_Nil list.distinct(1) not_le)
      ultimately show False using False d by (simp add: slice_get_drop)
    qed
    then have "\<forall>r\<in>set (drop position rows). Suc source \<le> r"
      using Cons.prems(2) by (metis Suc_leI le_neq_implies_less)
    moreover have "\<forall>r\<in>set (take position rows). r < Suc source" using Cons.prems(1) by (simp add: less_SucI)
    ultimately have "retain_rows rows (Suc source) position vs = nths vs {j. Suc source + j \<notin> set rows}"
      by (rule Cons.IH [rotated])
    moreover have "source \<notin> set rows" using out Cons.prems(1) unfolding split by auto
    ultimately show ?thesis using False by (simp add: nths_Cons)
  qed
qed simp

lemma compact_deleted_rows_nths:
  "sorted_wrt (<) rows \<Longrightarrow> compact_deleted_rows vs rows = nths vs (- set rows)"
  by (simp add: compact_deleted_rows_def retain_rows_nths Compl_eq)

lemma column_compact_cells:
  assumes "sorted_wrt (<) rows"
  shows "column_cells (column_compact c rows) = nths (column_cells c) (- set rows)" "same_kind (column_compact c rows) c"
  using assms by (cases c; simp add: compact_deleted_rows_nths nths_map same_kind_def)+

lemma nths_Compl_sum:
  fixes f :: "'a \<Rightarrow> nat"
  shows "(\<Sum>x\<leftarrow>nths xs (- set rows). f x) + (\<Sum>i\<in>set rows \<inter> {..<length xs}. f (xs ! i)) = (\<Sum>x\<leftarrow>xs. f x)"
proof (induction xs rule: rev_induct)
  case (snoc x xs)
  have range: "set rows \<inter> {..<length (xs @ [x])} =
      (if length xs \<in> set rows then insert (length xs) (set rows \<inter> {..<length xs}) else set rows \<inter> {..<length xs})"
    by (auto simp: less_Suc_eq)
  have same: "(\<Sum>i\<in>set rows \<inter> {..<length xs}. f ((xs @ [x]) ! i)) = (\<Sum>i\<in>set rows \<inter> {..<length xs}. f (xs ! i))"
    by (intro sum.cong) (auto simp: nth_append)
  show ?case using snoc.IH unfolding range by (simp add: nths_append same)
qed simp

lemma sum_rows:
  fixes f :: "'a \<Rightarrow> nat"
  assumes "distinct rows" "list_all (\<lambda>r. r < length xs) rows"
  shows "(\<Sum>x\<leftarrow>nths xs (- set rows). f x) + (\<Sum>i\<leftarrow>rows. f (xs ! i)) = (\<Sum>x\<leftarrow>xs. f x)"
proof -
  have "set rows \<inter> {..<length xs} = set rows" using assms(2) by (auto simp: list_all_iff)
  moreover have "(\<Sum>i\<leftarrow>rows. f (xs ! i)) = (\<Sum>i\<in>set rows. f (xs ! i))"
    using assms(1) by (simp add: sum_list_distinct_conv_sum_set)
  ultimately show ?thesis using nths_Compl_sum [of f xs rows] by simp
qed

lemma deleted_string_bytes:
  assumes "list_all (\<lambda>r. r < length vs) rows" "sum0 + (\<Sum>i\<leftarrow>rows. length (vs ! i)) \<le> u128_max"
  shows "try_fold (\<lambda>sum0 row. res_bind (index vs row) (\<lambda>v. Inr (u128_add sum0 (length v)))) sum0 rows =
    Inr (sum0 + (\<Sum>i\<leftarrow>rows. length (vs ! i)))"
  using assms by (induction rows arbitrary: sum0) (simp_all add: u128_add_def add.assoc)

lemma column_delete_rows_cells:
  assumes "sorted_wrt (<) rows" "list_all (\<lambda>r. r < column_len c) rows" "column_bytes c \<le> u128_max"
  obtains c' deleted where "column_delete_rows c rows = (Inr (c', deleted) :: 'e failure + _)"
    "column_cells c' = nths (column_cells c) (- set rows)" "same_kind c' c"
    "column_bytes c' + deleted = column_bytes c"
proof -
  let ?n = "is_nullable_column c"
  define deleted where "deleted = (\<Sum>i\<leftarrow>rows. cell_bytes ?n (column_cells c ! i))"
  have sum0: "(\<Sum>v\<leftarrow>nths (column_cells c) (- set rows). cell_bytes ?n v) + deleted = column_bytes c"
    unfolding deleted_def column_bytes_def
    using assms(1,2) by (intro sum_rows) (simp_all add: sorted_wrt_less_distinct column_len_cells)
  then have small: "deleted \<le> u128_max" using assms(3) by linarith
  have const: "(\<Sum>i\<leftarrow>rows. cell_bytes n (column_cells c ! i)) = length rows * k"
    if "\<And>i. i \<in> set rows \<Longrightarrow> cell_bytes n (column_cells c ! i) = k" for n k
    using that by (induction rows) (simp_all add: sum_list_triv)
  have del: "deleted_value_bytes c rows = Inr deleted"
  proof (cases c)
    case (StringColumn vs)
    have "(\<Sum>i\<leftarrow>rows. cell_bytes ?n (column_cells c ! i)) = (\<Sum>i\<leftarrow>rows. length (vs ! i))"
      using assms(2) StringColumn by (intro arg_cong [of _ _ sum_list] map_cong) (auto simp: list_all_iff)
    then show ?thesis
      using assms(2) small StringColumn deleted_string_bytes [of vs rows 0] by (simp add: deleted_def)
  qed (use assms(2) small const in \<open>auto simp: deleted_def u128_mul_def list_all_iff sum_list_triv\<close>)
  have "column_bytes (column_compact c rows) + deleted = column_bytes c"
    using sum0 column_compact_cells [OF assms(1), of c] by (simp add: column_bytes_def [of "column_compact c rows"] same_kind_def)
  then show ?thesis
    by (intro that [of "column_compact c rows" deleted])
      (simp_all add: column_delete_rows_def del column_compact_cells [OF assms(1)])
qed

section \<open>Replaced cells\<close>

definition update_cells :: "(usize \<times> 'a) list \<Rightarrow> 'a list \<Rightarrow> 'a list" where
  "update_cells replacements vs = fold (\<lambda>(row, v) vs. vs[row := v]) replacements vs"

lemma update_cells_simps [simp]:
  "update_cells [] vs = vs" "update_cells ((row, v) # replacements) vs = update_cells replacements (vs[row := v])"
  by (simp_all add: update_cells_def)

lemma length_update_cells [simp]: "length (update_cells replacements vs) = length vs"
  by (induction replacements arbitrary: vs) auto

lemma set_update_cells: "set (update_cells replacements vs) \<subseteq> set vs \<union> snd ` set replacements"
proof (induction replacements arbitrary: vs)
  case (Cons r replacements)
  obtain row v where r: "r = (row, v)" by (cases r)
  have "set (vs[row := v]) \<subseteq> insert v (set vs)" by (rule set_update_subset_insert)
  then show ?case using Cons [of "vs[row := v]"] unfolding r by auto
qed simp

lemma nth_update_cells:
  "distinct (map fst replacements) \<Longrightarrow> i < length vs \<Longrightarrow>
    update_cells replacements vs ! i = (case map_of replacements i of None \<Rightarrow> vs ! i | Some v \<Rightarrow> v)"
proof (induction replacements arbitrary: vs)
  case (Cons r replacements)
  obtain row v where r: "r = (row, v)" by (cases r)
  then have "map_of replacements row = None" using Cons.prems(1) by (auto simp: map_of_eq_None_iff)
  then show ?case using Cons r by (auto simp: nth_list_update split: option.split)
qed simp

lemma sum_update_cells:
  fixes f :: "'a \<Rightarrow> nat"
  assumes "distinct (map fst replacements)" "list_all (\<lambda>(row, v). row < length vs) replacements"
  shows "(\<Sum>x\<leftarrow>update_cells replacements vs. f x) + (\<Sum>(row, v)\<leftarrow>replacements. f (vs ! row)) =
    (\<Sum>x\<leftarrow>vs. f x) + (\<Sum>(row, v)\<leftarrow>replacements. f v)"
  using assms
proof (induction replacements arbitrary: vs)
  case (Cons r replacements)
  obtain row v where r: "r = (row, v)" by (cases r)
  have row: "row < length vs" using Cons.prems(2) r by simp
  have other: "xs[row := v] ! row' = xs ! row'" if "(row', v') \<in> set replacements" for row' v' and xs :: "'a list"
    using that Cons.prems(1) unfolding r by (intro nth_list_update_neq) force
  have later: "(\<Sum>(row', v')\<leftarrow>replacements. f (vs[row := v] ! row')) = (\<Sum>(row', v')\<leftarrow>replacements. f (vs ! row'))"
    by (intro arg_cong [of _ _ sum_list] map_cong) (auto simp: other)
  have "f (vs ! row) \<le> (\<Sum>x\<leftarrow>vs. f x)" using elem_le_sum_list [of row "map f vs"] row by simp
  then have step: "(\<Sum>x\<leftarrow>vs[row := v]. f x) + f (vs ! row) = (\<Sum>x\<leftarrow>vs. f x) + f v"
    using row by (simp add: map_update sum_list_update)
  have "(\<Sum>x\<leftarrow>update_cells replacements (vs[row := v]). f x) + (\<Sum>(row', v')\<leftarrow>replacements. f (vs ! row')) =
      (\<Sum>x\<leftarrow>vs[row := v]. f x) + (\<Sum>(row', v')\<leftarrow>replacements. f v')"
    using Cons.IH [of "vs[row := v]"] Cons.prems r later by simp
  then show ?case using step r by simp
qed simp

text \<open>Only the bytes of strings are counted one by one.\<close>

definition varying_bytes :: "column \<Rightarrow> scalar \<Rightarrow> nat" where
  "varying_bytes c v = (if column_type c = TString then cell_bytes False v else 0)"

lemma column_bytes_fixed:
  assumes "column_type c \<noteq> TString" "same_kind d c" "column_len d = column_len c"
  shows "column_bytes d = column_bytes c"
  using assms by (cases c; cases d) (auto simp: same_kind_def column_bytes_def o_def sum_list_triv)

lemma column_bytes_varying: "column_type c = TString \<Longrightarrow> column_bytes c = (\<Sum>v\<leftarrow>column_cells c. varying_bytes c v)"
  by (cases c) (simp_all add: column_bytes_def varying_bytes_def)

lemma replace_value_cells:
  assumes "row < column_len c" "cell_fits (column_type c) (is_nullable_column c) v"
    "removed + varying_bytes c (column_cells c ! row) \<le> u128_max" "added + varying_bytes c v \<le> u128_max"
  obtains c' where "replace_value (c, removed, added) (row, v) =
      Inr (c', removed + varying_bytes c (column_cells c ! row), added + varying_bytes c v)"
    "column_cells c' = (column_cells c)[row := v]" "same_kind c' c"
  using assms
  by (cases c; cases v)
    (auto simp: same_kind_def varying_bytes_def index_set_def map_update nullable_scalar_def u128_add_def)

lemma same_kind_varying: "same_kind d c \<Longrightarrow> varying_bytes d = varying_bytes c"
  by (rule ext) (simp add: same_kind_def varying_bytes_def)

lemma replace_values_cells:
  assumes "distinct (map fst replacements)"
    "list_all (\<lambda>(row, v). row < column_len c \<and> cell_fits (column_type c) (is_nullable_column c) v) replacements"
    "removed + (\<Sum>(row, v)\<leftarrow>replacements. varying_bytes c (column_cells c ! row)) \<le> u128_max"
    "added + (\<Sum>(row, v)\<leftarrow>replacements. varying_bytes c v) \<le> u128_max"
  shows "\<exists>c'. try_fold replace_value (c, removed, added) replacements =
      (Inr (c', removed + (\<Sum>(row, v)\<leftarrow>replacements. varying_bytes c (column_cells c ! row)),
        added + (\<Sum>(row, v)\<leftarrow>replacements. varying_bytes c v)) :: 'e failure + _) \<and>
    column_cells c' = update_cells replacements (column_cells c) \<and> same_kind c' c"
  using assms
proof (induction replacements arbitrary: c removed added)
  case (Cons r replacements)
  obtain row v where r: "r = (row, v)" by (cases r)
  obtain c1 where c1: "replace_value (c, removed, added) (row, v) =
      (Inr (c1, removed + varying_bytes c (column_cells c ! row), added + varying_bytes c v) :: 'e failure + _)"
    "column_cells c1 = (column_cells c)[row := v]" "same_kind c1 c"
    by (rule replace_value_cells [of row c v removed added]) (use Cons.prems r in simp_all)
  have other: "xs[row := v] ! row' = xs ! row'" if "(row', v') \<in> set replacements" for row' v' and xs :: "scalar list"
    using that Cons.prems(1) unfolding r by (intro nth_list_update_neq) force
  have old: "(\<Sum>(row', v')\<leftarrow>replacements. varying_bytes c1 (column_cells c1 ! row')) =
      (\<Sum>(row', v')\<leftarrow>replacements. varying_bytes c (column_cells c ! row'))"
    unfolding c1(2) same_kind_varying [OF c1(3)] by (intro arg_cong [of _ _ sum_list] map_cong) (auto simp: other)
  have "column_len c1 = column_len c" using c1(2) by (simp add: column_len_cells)
  then have "\<exists>c'. try_fold replace_value (c1, removed + varying_bytes c (column_cells c ! row), added + varying_bytes c v) replacements =
      (Inr (c', removed + varying_bytes c (column_cells c ! row) +
          (\<Sum>(row, v)\<leftarrow>replacements. varying_bytes c1 (column_cells c1 ! row)),
        added + varying_bytes c v + (\<Sum>(row, v)\<leftarrow>replacements. varying_bytes c1 v)) :: 'e failure + _) \<and>
    column_cells c' = update_cells replacements (column_cells c1) \<and> same_kind c' c1"
    using Cons.prems c1(3) r
    by (intro Cons.IH)
      (simp_all add: old [unfolded same_kind_varying [OF c1(3)]] same_kind_varying [OF c1(3)] same_kind_def add.assoc)
  then show ?case
    using c1 unfolding old same_kind_varying [OF c1(3)] r by (auto simp: add.assoc same_kind_def old [unfolded same_kind_varying [OF c1(3)] c1(2)])
qed simp

lemma sum_list_bound: "list_all (\<lambda>x. f x \<le> k) xs \<Longrightarrow> (\<Sum>x\<leftarrow>xs. f x) \<le> length xs * (k :: nat)"
  by (induction xs) (auto simp: add_mono)

lemma column_replace_values_cells:
  assumes "distinct (map fst replacements)"
    "list_all (\<lambda>(row, v). row < column_len c \<and> cell_fits (column_type c) (is_nullable_column c) v \<and> cell_small v) replacements"
    "list_all cell_small (column_cells c)" "column_len c * isize_max \<le> u128_max"
  obtains c' removed added where "column_replace_values c replacements = (Inr (c', removed, added) :: 'e failure + _)"
    "column_cells c' = update_cells replacements (column_cells c)" "same_kind c' c"
    "removed \<le> column_bytes c" "column_bytes c' + removed = column_bytes c + added"
proof -
  let ?f = "varying_bytes c"
  define removed where "removed = (\<Sum>(row, v)\<leftarrow>replacements. ?f (column_cells c ! row))"
  define added where "added = (\<Sum>(row, v)\<leftarrow>replacements. ?f v)"
  have len: "list_all (\<lambda>(row, v). row < length (column_cells c)) replacements"
    using assms(2) by (auto simp: list_all_iff column_len_cells)
  note sums = sum_update_cells [OF assms(1) len, of ?f, folded removed_def added_def]
  have positions: "removed = (\<Sum>i\<leftarrow>map fst replacements. ?f (column_cells c ! i))"
    by (simp add: removed_def case_prod_unfold o_def)
  have "list_all (\<lambda>r. r < length (column_cells c)) (map fst replacements)"
    using len by (simp add: list_all_iff case_prod_unfold)
  from sum_rows [OF assms(1) this, of ?f] have old: "removed \<le> (\<Sum>v\<leftarrow>column_cells c. ?f v)"
    unfolding positions by linarith
  have small: "?f v \<le> isize_max" if "cell_small v" for v
    using cell_bytes_small [OF that, of False] by (simp add: varying_bytes_def)
  have "(\<Sum>v\<leftarrow>column_cells c. ?f v) \<le> column_len c * isize_max"
    using assms(3) small unfolding column_len_cells by (intro sum_list_bound) (auto simp: list_all_iff)
  then have rbound: "removed \<le> u128_max" using old assms(4) by linarith
  have "set (update_cells replacements (column_cells c)) \<subseteq> {v. cell_small v}"
    using set_update_cells [of replacements "column_cells c"] assms(2,3) by (fastforce simp: list_all_iff)
  then have "(\<Sum>v\<leftarrow>update_cells replacements (column_cells c). ?f v) \<le> column_len c * isize_max"
    using sum_list_bound [of ?f isize_max "update_cells replacements (column_cells c)"] small
    by (auto simp: list_all_iff column_len_cells)
  then have abound: "added \<le> u128_max" using sums old assms(4) by linarith
  have "\<exists>c'. try_fold replace_value (c, 0, 0) replacements =
      (Inr (c', 0 + (\<Sum>(row, v)\<leftarrow>replacements. ?f (column_cells c ! row)),
        0 + (\<Sum>(row, v)\<leftarrow>replacements. ?f v)) :: 'e failure + _) \<and>
    column_cells c' = update_cells replacements (column_cells c) \<and> same_kind c' c"
    using assms(1,2) rbound abound
    by (intro replace_values_cells) (auto simp: removed_def added_def list_all_iff)
  then obtain c' where c': "column_replace_values c replacements = (Inr (c', removed, added) :: 'e failure + _)"
    "column_cells c' = update_cells replacements (column_cells c)" "same_kind c' c"
    by (auto simp: column_replace_values_def removed_def added_def)
  have bytes: "removed \<le> column_bytes c \<and> column_bytes c' + removed = column_bytes c + added"
  proof (cases "column_type c = TString")
    case True
    then have "column_type c' = TString" using c'(3) by (simp add: same_kind_def)
    then show ?thesis using True old sums c'(2) by (simp add: column_bytes_varying same_kind_varying [OF c'(3)])
  next
    case False
    then have "?f = (\<lambda>_. 0)" by (simp add: varying_bytes_def fun_eq_iff)
    then have "removed = 0" "added = 0" by (simp_all add: removed_def added_def case_prod_unfold)
    moreover have "column_len c' = column_len c" using c'(2) by (simp add: column_len_cells)
    ultimately show ?thesis using column_bytes_fixed [OF False c'(3)] by simp
  qed
  show ?thesis by (rule that [OF c']) (use bytes in simp_all)
qed

end
