(* ===== verification/Batch_Rows.thy ===== *)
theory Batch_Rows
  imports Batch_Column_Cells
begin

text \<open>
  What a table of the second engine promises: an abstract table is a list of rows with named and typed fields, and
  its operations append, delete, update and reshape rows. The invariant that a concrete table keeps, and the
  table each operation is meant to produce.
\<close>

section \<open>The abstract table\<close>

record row_table =
  rt_name :: string
  rt_fields :: "(column_def \<times> bool) list"
  rt_rows :: "scalar list list"
  rt_limits :: table_limits

text \<open>The first rows of columns of cells.\<close>

definition cells_rows :: "'a list list \<Rightarrow> nat \<Rightarrow> 'a list list" where
  "cells_rows css n = map (\<lambda>i. map (\<lambda>cells. cells ! i) css) [0..<n]"

definition table_rows :: "batch_table \<Rightarrow> scalar list list" where
  "table_rows t = cells_rows (map column_cells (bt_columns t)) (bt_row_count t)"

definition row_table_of :: "batch_table \<Rightarrow> row_table" where
  "row_table_of t =
     \<lparr>rt_name = bt_name t, rt_fields = zip (bt_schema t) (map is_nullable_column (bt_columns t)),
      rt_rows = table_rows t, rt_limits = bt_limits t\<rparr>"

fun field_fits :: "column_def \<times> bool \<Rightarrow> scalar \<Rightarrow> bool" where
  "field_fits (field, nullable) v \<longleftrightarrow> cell_fits (cd_type field) nullable v"

fun default_cell :: "column_def \<times> bool \<Rightarrow> scalar" where
  "default_cell (field, True) = VNull TInt64"
| "default_cell (field, False) = default_value (column_new (cd_type field))"

definition find_field :: "(column_def \<times> bool) list \<Rightarrow> string \<Rightarrow> usize option" where
  "find_field fs name =
     find (\<lambda>i. eq_ignore_ascii_case (cd_name (fst (fs ! i))) name) [0..<length fs]"

definition row_capacity :: "row_table \<Rightarrow> nat \<Rightarrow> bool" where
  "row_capacity s n \<longleftrightarrow>
     length (rt_rows s) + n \<le> bl_max_rows (rt_limits s) \<and>
     (length (rt_rows s) + n) * length (rt_fields s) \<le> bl_max_cells (rt_limits s)"

definition row_fits :: "row_table \<Rightarrow> scalar list \<Rightarrow> bool" where
  "row_fits s row \<longleftrightarrow> list_all2 field_fits (rt_fields s) row"

text \<open>A row of the named fields, the others at their defaults.\<close>

definition complete_row :: "(column_def \<times> bool) list \<Rightarrow> usize list \<Rightarrow> scalar list \<Rightarrow> scalar list" where
  "complete_row fs positions row =
     map (\<lambda>k. case find (\<lambda>j. positions ! j = k) [0..<length positions] of
       Some j \<Rightarrow> row ! j | None \<Rightarrow> default_cell (fs ! k)) [0..<length fs]"

definition new_name :: "string \<Rightarrow> string list \<Rightarrow> bool" where
  "new_name name others \<longleftrightarrow>
     is_valid_sql_identifier name \<and> \<not> is_reserved_column_name name \<and>
     \<not> list_ex (\<lambda>other. eq_ignore_ascii_case other name) others"

definition index_admissible :: "nat \<Rightarrow> min_max_limits \<Rightarrow> bool" where
  "index_admissible rows limits \<longleftrightarrow>
     0 < mm_block_rows limits \<and> div_ceil rows (mm_block_rows limits) \<le> mm_max_blocks limits \<and>
     saturating_mul (div_ceil rows (mm_block_rows limits)) min_max_block_size \<le> mm_max_bytes limits"

definition remove_nth :: "nat \<Rightarrow> 'a list \<Rightarrow> 'a list" where
  "remove_nth i xs = take i xs @ drop (Suc i) xs"

section \<open>Operations\<close>

text \<open>The catalog validates a new name of a table and then sets it.\<close>

definition set_name :: "batch_table \<Rightarrow> string \<Rightarrow> batch_table" where
  "set_name t name = t\<lparr>bt_name := name\<rparr>"

datatype table_op =
  InsertRow "scalar list"
| InsertRows "scalar list list"
| InsertInto "string list option" "scalar list list" usize
| ReplaceValues string "(usize \<times> scalar) list"
| DeleteRows "usize list"
| TruncateRows
| SetName string
| RenameColumn string string
| AddColumn column_def
| AddNullableColumn string
| DropColumn string
| CreateIndex string min_max_limits
| DropIndex

fun index_created :: "min_max_admission \<Rightarrow> usize" where
  "index_created (IndexCreated _) = 1"
| "index_created (IndexRejected _) = 0"

fun table_step :: "batch_table \<Rightarrow> table_op \<Rightarrow> (usize \<times> batch_table) batch_result" where
  "table_step t (InsertRow row) = map_sum id (Pair 0) (insert_row t row)"
| "table_step t (InsertRows rows) = map_sum id (Pair 0) (insert_rows t rows)"
| "table_step t (InsertInto names rows capacity_rows) =
     res_bind (prepare_insert_rows t names rows capacity_rows) (\<lambda>p.
       map_sum id (Pair 0) (append_prepared_insert_rows t p))"
| "table_step t (ReplaceValues name replacements) = replace_column_values t name replacements"
| "table_step t (DeleteRows rows) = delete_rows t rows"
| "table_step t TruncateRows = truncate_table t"
| "table_step t (SetName name) = Inr (0, set_name t name)"
| "table_step t (RenameColumn source destination) = map_sum id (Pair 0) (rename_column t source destination)"
| "table_step t (AddColumn field) = map_sum id (Pair 0) (add_column t field)"
| "table_step t (AddNullableColumn name) = map_sum id (Pair 0) (add_nullable_int64_column t name)"
| "table_step t (DropColumn name) = map_sum id (Pair 0) (drop_column t name)"
| "table_step t (CreateIndex name limits) =
     map_sum id (apfst index_created) (try_create_min_max_index t name limits)"
| "table_step t DropIndex = Inr (0, snd (drop_min_max_index t))"

text \<open>What the callers guarantee: a string has at most \<open>isize::MAX\<close> bytes, the capacity asked for
  covers the rows inserted, and a new table name was validated.\<close>

fun op_ok :: "table_op \<Rightarrow> bool" where
  "op_ok (InsertRow row) \<longleftrightarrow> list_all cell_small row"
| "op_ok (InsertRows rows) \<longleftrightarrow> list_all (list_all cell_small) rows"
| "op_ok (InsertInto names rows capacity_rows) \<longleftrightarrow> list_all (list_all cell_small) rows \<and> length rows \<le> capacity_rows"
| "op_ok (ReplaceValues name replacements) \<longleftrightarrow> list_all (\<lambda>(_, v). cell_small v) replacements"
| "op_ok (SetName name) \<longleftrightarrow> is_valid_sql_identifier name"
| "op_ok _ \<longleftrightarrow> True"

definition spec_insert :: "row_table \<Rightarrow> nat \<Rightarrow> scalar list list \<Rightarrow> (usize \<times> row_table) option" where
  "spec_insert s capacity rows =
     (if row_capacity s capacity \<and> list_all (row_fits s) rows then Some (0, s\<lparr>rt_rows := rt_rows s @ rows\<rparr>) else None)"

definition spec_add :: "row_table \<Rightarrow> column_def \<times> bool \<Rightarrow> (usize \<times> row_table) option" where
  "spec_add s field =
     (if new_name (cd_name (fst field)) (map (cd_name \<circ> fst) (rt_fields s)) \<and>
         length (rt_fields s) < bl_max_columns (rt_limits s) \<and>
         length (rt_rows s) * (length (rt_fields s) + 1) \<le> bl_max_cells (rt_limits s)
      then Some (0, s\<lparr>rt_fields := rt_fields s @ [field], rt_rows := map (\<lambda>row. row @ [default_cell field]) (rt_rows s)\<rparr>)
      else None)"

fun spec_step :: "row_table \<Rightarrow> table_op \<Rightarrow> (usize \<times> row_table) option" where
  "spec_step s (InsertRow row) = spec_insert s 1 [row]"
| "spec_step s (InsertRows rows) = spec_insert s (length rows) rows"
| "spec_step s (InsertInto None rows capacity_rows) = spec_insert s capacity_rows rows"
| "spec_step s (InsertInto (Some names) rows capacity_rows) =
     (case those (map (find_field (rt_fields s)) names) of
        None \<Rightarrow> None
      | Some positions \<Rightarrow>
          if names \<noteq> [] \<and> distinct positions \<and> list_all (\<lambda>row. length row = length names) rows
          then spec_insert s capacity_rows (map (complete_row (rt_fields s) positions) rows)
          else None)"
| "spec_step s (ReplaceValues name replacements) =
     Option.bind (find_field (rt_fields s) name) (\<lambda>i.
       if sorted_wrt (<) (map fst replacements) \<and> list_all (\<lambda>(row, _). row < length (rt_rows s)) replacements \<and>
          list_all (\<lambda>(_, v). field_fits (rt_fields s ! i) v) replacements
       then Some (length replacements,
         s\<lparr>rt_rows := fold (\<lambda>(row, v) rows. rows[row := (rows ! row)[i := v]]) replacements (rt_rows s)\<rparr>)
       else None)"
| "spec_step s (DeleteRows rows) =
     (if sorted_wrt (<) rows \<and> list_all (\<lambda>row. row < length (rt_rows s)) rows
      then Some (length rows, s\<lparr>rt_rows := nths (rt_rows s) (- set rows)\<rparr>)
      else None)"
| "spec_step s TruncateRows = Some (length (rt_rows s), s\<lparr>rt_rows := []\<rparr>)"
| "spec_step s (SetName name) = Some (0, s\<lparr>rt_name := name\<rparr>)"
| "spec_step s (RenameColumn source destination) =
     Option.bind (find_field (rt_fields s) source) (\<lambda>i.
       if new_name destination (map (cd_name \<circ> fst) (remove_nth i (rt_fields s)))
       then Some (0, s\<lparr>rt_fields := (rt_fields s)[i := apfst (cd_name_update (\<lambda>_. destination)) (rt_fields s ! i)]\<rparr>)
       else None)"
| "spec_step s (AddColumn field) = spec_add s (field, False)"
| "spec_step s (AddNullableColumn name) = spec_add s (int64_field name, True)"
| "spec_step s (DropColumn name) =
     Option.bind (find_field (rt_fields s) name) (\<lambda>i.
       if length (rt_fields s) \<noteq> 1
       then Some (0, s\<lparr>rt_fields := remove_nth i (rt_fields s), rt_rows := map (remove_nth i) (rt_rows s)\<rparr>)
       else None)"
| "spec_step s (CreateIndex name limits) =
     Option.bind (find_field (rt_fields s) name) (\<lambda>i.
       if cd_type (fst (rt_fields s ! i)) = TInt64
       then Some (if index_admissible (length (rt_rows s)) limits then 1 else 0, s)
       else None)"
| "spec_step s DropIndex = Some (0, s)"

section \<open>The invariant\<close>

definition table_limits_ok :: "table_limits \<Rightarrow> bool" where
  "table_limits_ok l \<longleftrightarrow> bl_max_rows l \<le> usize_max \<and> bl_max_columns l < usize_max \<and> bl_max_cells l < usize_max"

definition names_ok :: "string list \<Rightarrow> bool" where
  "names_ok names \<longleftrightarrow>
     list_all (\<lambda>name. is_valid_sql_identifier name \<and> \<not> is_reserved_column_name name) names \<and>
     distinct (map (map to_ascii_lowercase) names)"

definition columns_ok :: "batch_table \<Rightarrow> bool" where
  "columns_ok t \<longleftrightarrow>
     map column_type (bt_columns t) = map cd_type (bt_schema t) \<and>
     list_all (\<lambda>c. column_len c = bt_row_count t \<and> column_ok c) (bt_columns t)"

definition table_bytes :: "batch_table \<Rightarrow> nat" where
  "table_bytes t = (\<Sum>c\<leftarrow>bt_columns t. column_bytes c)"

text \<open>An index is the one that building it again would give.\<close>

definition index_ok :: "batch_table \<Rightarrow> bool" where
  "index_ok t \<longleftrightarrow>
     (case bt_index t of None \<Rightarrow> True | Some i \<Rightarrow> build_min_max_index t (mi_column i) (mi_limits i) = Inr i)"

text \<open>The partitions cut the column in pieces whose values they bound.\<close>

fun partition_rows_ok :: "usize \<Rightarrow> partition_metadata list \<Rightarrow> i64 list \<Rightarrow> bool" where
  "partition_rows_ok start [] vs \<longleftrightarrow> vs = []"
| "partition_rows_ok start (p # ps) vs \<longleftrightarrow>
     pm_row_start p = start \<and> start \<le> pm_row_end p \<and> pm_row_end p - start \<le> length vs \<and>
     list_all (\<lambda>v. sint (pm_lower p) \<le> sint v \<and> sint v \<le> sint (pm_upper p)) (take (pm_row_end p - start) vs) \<and>
     partition_rows_ok (pm_row_end p) ps (drop (pm_row_end p - start) vs)"

fun partitioned_column :: "partition_set \<Rightarrow> column list \<Rightarrow> bool" where
  "partitioned_column s [Int64Column vs] \<longleftrightarrow> ps_column s = 0 \<and> partition_rows_ok 0 (ps_partitions s) vs"
| "partitioned_column s _ \<longleftrightarrow> False"

definition partitions_ok :: "batch_table \<Rightarrow> bool" where
  "partitions_ok t \<longleftrightarrow> (case bt_partitions t of None \<Rightarrow> True | Some s \<Rightarrow> partitioned_column s (bt_columns t))"

definition table_core_ok :: "batch_table \<Rightarrow> bool" where
  "table_core_ok t \<longleftrightarrow>
     table_limits_ok (bt_limits t) \<and> is_valid_sql_identifier (bt_name t) \<and> bt_schema t \<noteq> [] \<and>
     names_ok (map cd_name (bt_schema t)) \<and> columns_ok t \<and>
     length (bt_schema t) \<le> bl_max_columns (bt_limits t) \<and> bt_row_count t \<le> bl_max_rows (bt_limits t) \<and>
     bt_row_count t * length (bt_schema t) \<le> bl_max_cells (bt_limits t) \<and> bt_value_bytes t = table_bytes t"

definition batch_table_ok :: "batch_table \<Rightarrow> bool" where
  "batch_table_ok t \<longleftrightarrow> table_core_ok t \<and> index_ok t \<and> partitions_ok t"

section \<open>Reachable tables\<close>

inductive table_reachable :: "batch_table \<Rightarrow> bool" where
  created: "table_limits_ok limits \<Longrightarrow> batch_table_with_limits name schema limits = Inr t \<Longrightarrow> table_reachable t"
| created_int64:
    "table_limits_ok limits \<Longrightarrow> batch_table_with_int64_values name column vs limits = Inr t \<Longrightarrow> table_reachable t"
| created_nullable:
    "table_limits_ok limits \<Longrightarrow> batch_table_with_nullable_values name column vs limits = Inr t \<Longrightarrow> table_reachable t"
| created_partitions:
    "table_limits_ok limits \<Longrightarrow> batch_table_with_partitions name column partitions plimits limits = Inr t \<Longrightarrow>
      pl_max_rows plimits < usize_max \<Longrightarrow> table_reachable t"
| stepped: "table_reachable t \<Longrightarrow> op_ok op \<Longrightarrow> table_step t op = Inr (n, t') \<Longrightarrow> table_reachable t'"

end
