(* ===== verification/Batch_Table_Inv.thy ===== *)
theory Batch_Table_Inv
  imports Batch_Rows
begin

text \<open>
  The operations of a table against the rows they are meant to produce: capacity and value checks decide exactly
  the conditions of the abstract operations, appending, deleting and replacing work on rows, and publishing the
  new values rebuilds the index.
\<close>

section \<open>Sizes\<close>

lemma length_columns: "columns_ok t \<Longrightarrow> length (bt_columns t) = length (bt_schema t)"
  by (auto simp: columns_ok_def dest: map_eq_imp_length_eq)

lemma column_type_schema: "columns_ok t \<Longrightarrow> i < length (bt_schema t) \<Longrightarrow> column_type (bt_columns t ! i) = cd_type (bt_schema t ! i)"
proof -
  assume ok: "columns_ok t" and i: "i < length (bt_schema t)"
  have "map column_type (bt_columns t) ! i = map cd_type (bt_schema t) ! i" using ok by (simp add: columns_ok_def)
  then show "column_type (bt_columns t ! i) = cd_type (bt_schema t ! i)" using i length_columns [OF ok] by simp
qed

lemma usize_isize_u128: "n \<le> usize_max \<Longrightarrow> n * isize_max \<le> u128_max"
proof -
  assume "n \<le> usize_max"
  then have "n * isize_max \<le> usize_max * isize_max" by (rule mult_le_mono1)
  also have "\<dots> \<le> u128_max" by (simp add: usize_max_def isize_max_def u128_max_def)
  finally show ?thesis .
qed

lemma columns_bytes_bound:
  assumes "list_all (\<lambda>c. column_len c = n \<and> column_ok c) cs" "n * length cs \<le> usize_max"
  shows "(\<Sum>c\<leftarrow>cs. column_bytes c) \<le> u128_max"
proof -
  have "(\<Sum>c\<leftarrow>cs. column_bytes c) \<le> length cs * (n * isize_max)"
  proof (rule sum_list_bound)
    show "list_all (\<lambda>c. column_bytes c \<le> n * isize_max) cs"
      using assms(1) column_bytes_bound by (auto simp: list_all_iff column_ok_def)
  qed
  also have "\<dots> = n * length cs * isize_max" by simp
  also have "\<dots> \<le> u128_max" by (rule usize_isize_u128 [OF assms(2)])
  finally show ?thesis .
qed

lemma member_bytes: "c \<in> set cs \<Longrightarrow> column_bytes c \<le> (\<Sum>c\<leftarrow>cs. column_bytes c)"
  by (simp add: member_le_sum_list)

lemma core_cells:
  assumes "table_core_ok t"
  shows "bt_row_count t * length (bt_columns t) \<le> usize_max" "length (bt_columns t) = length (bt_schema t)"
  using assms length_columns [of t] by (auto simp: table_core_ok_def table_limits_ok_def)

lemma core_bytes: "table_core_ok t \<Longrightarrow> table_bytes t \<le> u128_max"
  unfolding table_bytes_def using core_cells [of t]
  by (intro columns_bytes_bound [of "bt_row_count t"]) (simp_all add: table_core_ok_def columns_ok_def)

lemma row_capacity_iff:
  assumes "table_core_ok t"
  shows "validate_row_capacity t n = Inr () \<longleftrightarrow> row_capacity (row_table_of t) n"
    and "validate_row_capacity t n \<noteq> Inl Panicked"
proof -
  have len: "length (rt_rows (row_table_of t)) = bt_row_count t" "length (rt_fields (row_table_of t)) = length (bt_schema t)"
    using core_cells(2) [OF assms] by (simp_all add: row_table_of_def table_rows_def cells_rows_def)
  have lim: "bl_max_rows (bt_limits t) \<le> usize_max" "bl_max_cells (bt_limits t) < usize_max"
    "bt_row_count t \<le> bl_max_rows (bt_limits t)"
    using assms by (simp_all add: table_core_ok_def table_limits_ok_def)
  have rows: "bl_max_rows (bt_limits t) - bt_row_count t < n \<longleftrightarrow> \<not> bt_row_count t + n \<le> bl_max_rows (bt_limits t)"
    using lim(3) by linarith
  have cells: "bl_max_cells (bt_limits t) < saturating_mul (saturating_add (bt_row_count t) n) (length (bt_schema t)) \<longleftrightarrow>
      \<not> (bt_row_count t + n) * length (bt_schema t) \<le> bl_max_cells (bt_limits t)"
    if "bt_row_count t + n \<le> bl_max_rows (bt_limits t)"
  proof -
    have "saturating_add (bt_row_count t) n = bt_row_count t + n" using that lim by (intro saturating_add_id) linarith
    then show ?thesis using lim(2) by (auto simp: saturating_mul_def min_def not_le)
  qed
  have limits: "rt_limits (row_table_of t) = bt_limits t" by (simp add: row_table_of_def)
  show "validate_row_capacity t n = Inr () \<longleftrightarrow> row_capacity (row_table_of t) n"
    using cells by (simp add: validate_row_capacity_def row_capacity_def len limits Let_def rows)
  show "validate_row_capacity t n \<noteq> Inl Panicked" by (simp add: validate_row_capacity_def Let_def)
qed

section \<open>Values\<close>

lemma validate_value_iff:
  assumes "column < length (bt_columns t)" "column_type (bt_columns t ! column) = cd_type field"
  shows "validate_value t column field v = Inr () \<longleftrightarrow> cell_fits (cd_type field) (is_nullable_column (bt_columns t ! column)) v"
    and "validate_value t column field v \<noteq> Inl Panicked"
  using assms by (cases v; auto simp: validate_value_def)+

lemma validate_values_iff:
  assumes "list_all (\<lambda>(column, field, v). column < length (bt_columns t) \<and> column_type (bt_columns t ! column) = cd_type field) items"
  shows "validate_values t items = Inr () \<longleftrightarrow>
      list_all (\<lambda>(column, field, v). cell_fits (cd_type field) (is_nullable_column (bt_columns t ! column)) v) items"
    and "validate_values t items \<noteq> Inl Panicked"
  using assms by (induction t items rule: validate_values.induct) (auto simp: validate_value_iff result_simps)

lemma row_fits_iff:
  assumes "columns_ok t"
  shows "row_fits (row_table_of t) row \<longleftrightarrow>
    length row = length (bt_schema t) \<and>
    (\<forall>i < length (bt_schema t). cell_fits (cd_type (bt_schema t ! i)) (is_nullable_column (bt_columns t ! i)) (row ! i))"
  using length_columns [OF assms] by (auto simp: row_fits_def row_table_of_def list_all2_conv_all_nth)

lemma validate_row_iff:
  assumes "columns_ok t"
  shows "validate_row t row = Inr () \<longleftrightarrow> row_fits (row_table_of t) row"
    and "validate_row t row \<noteq> Inl Panicked"
proof -
  have ok: "list_all (\<lambda>(column, field, v). column < length (bt_columns t) \<and> column_type (bt_columns t ! column) = cd_type field)
      (enumerate 0 (zip (bt_schema t) row))" if "length row = length (bt_schema t)"
    using that length_columns [OF assms] column_type_schema [OF assms]
    by (auto simp: list_all_length nth_enumerate_eq)
  show "validate_row t row = Inr () \<longleftrightarrow> row_fits (row_table_of t) row"
    using validate_values_iff(1) [OF ok] unfolding row_fits_iff [OF assms]
    by (auto simp: validate_row_def list_all_length nth_enumerate_eq)
  show "validate_row t row \<noteq> Inl Panicked"
    using validate_values_iff(2) [OF ok] by (simp add: validate_row_def)
qed

lemma validate_rows_iff:
  assumes "columns_ok t"
  shows "validate_rows t rows = Inr () \<longleftrightarrow> list_all (row_fits (row_table_of t)) rows"
    and "validate_rows t rows \<noteq> Inl Panicked"
proof -
  have "try_fold (\<lambda>_ row. validate_row t row) () rows = Inr () \<longleftrightarrow> list_all (row_fits (row_table_of t)) rows"
    by (induction rows) (auto simp: result_simps validate_row_iff [OF assms])
  then show "validate_rows t rows = Inr () \<longleftrightarrow> list_all (row_fits (row_table_of t)) rows" by (simp add: validate_rows_def)
  have "try_fold (\<lambda>_ row. validate_row t row) () rows \<noteq> Inl Panicked"
    by (induction rows) (auto simp: result_simps validate_row_iff [OF assms])
  then show "validate_rows t rows \<noteq> Inl Panicked" by (simp add: validate_rows_def)
qed

section \<open>The index\<close>

lemma int64_cells_type: "(\<exists>vs. int64_cells c = Some vs) \<longleftrightarrow> column_type c = TInt64"
  by (cases c) simp_all

definition index_fits :: "batch_table \<Rightarrow> bool" where
  "index_fits t \<longleftrightarrow>
     (case bt_index t of None \<Rightarrow> True | Some i \<Rightarrow>
       0 < mm_block_rows (mi_limits i) \<and> mi_column i < length (bt_columns t) \<and> column_type (bt_columns t ! mi_column i) = TInt64)"

lemma build_index_unchanged [simp]:
  "build_min_max_index (t\<lparr>bt_index := x\<rparr>) = build_min_max_index t"
  "build_min_max_index (t\<lparr>bt_partitions := p\<rparr>) = build_min_max_index t"
  "build_min_max_index (t\<lparr>bt_schema := s\<rparr>) = build_min_max_index t"
  "build_min_max_index (t\<lparr>bt_name := n\<rparr>) = build_min_max_index t"
  by (intro ext, simp add: build_min_max_index_def Let_def cong: option.case_cong)+

lemma build_index_cases:
  assumes "column < length (bt_columns t)" "column_type (bt_columns t ! column) = TInt64"
  obtains (built) i where "build_min_max_index t column limits = Inr i" "mi_column i = column" "mi_limits i = limits"
      "index_admissible (bt_row_count t) limits"
    | (zero) "mm_block_rows limits = 0" "build_min_max_index t column limits = Inl Panicked"
    | (rejected) e where "build_min_max_index t column limits = Inl (Failed e)" "0 < mm_block_rows limits"
      "\<not> index_admissible (bt_row_count t) limits"
proof -
  obtain vs where "int64_cells (bt_columns t ! column) = Some vs" using int64_cells_type assms(2) by blast
  note built_def = this assms(1) build_min_max_index_def Let_def index_admissible_def
  show ?thesis
  proof (cases "index_admissible (bt_row_count t) limits")
    case True
    then have "build_min_max_index t column limits =
        Inr \<lparr>mi_column = column, mi_limits = limits, mi_indexed_rows = bt_row_count t,
          mi_generation = bt_generation t, mi_blocks = summarize_blocks (mm_block_rows limits) vs\<rparr>"
      by (simp add: built_def)
    then show ?thesis by (rule built) (use True in simp_all)
  next
    case False
    show ?thesis
    proof (cases "mm_block_rows limits = 0")
      case True
      then show ?thesis by (intro zero) (simp_all add: built_def)
    next
      case pos: False
      then show ?thesis using False
        by (cases "div_ceil (bt_row_count t) (mm_block_rows limits) \<le> mm_max_blocks limits")
          (auto simp: built_def intro!: rejected)
    qed
  qed
qed

lemma build_index_fits:
  assumes "build_min_max_index t column limits = Inr i"
  shows "mi_column i = column" "mi_limits i = limits" "0 < mm_block_rows limits" "column < length (bt_columns t)"
    "column_type (bt_columns t ! column) = TInt64" "index_admissible (bt_row_count t) limits"
proof -
  obtain vs where vs: "int64_cells (bt_columns t ! column) = Some vs" "column < length (bt_columns t)"
    using assms by (auto simp: build_min_max_index_def Let_def index_def result_simps split: if_splits option.splits)
  then show "column < length (bt_columns t)" "column_type (bt_columns t ! column) = TInt64"
    using int64_cells_type by blast+
  show "mi_column i = column" "mi_limits i = limits" "0 < mm_block_rows limits" "index_admissible (bt_row_count t) limits"
    using assms vs by (auto simp: build_min_max_index_def Let_def index_admissible_def split: if_splits)
qed

lemma index_ok_fits: "index_ok t \<Longrightarrow> index_fits t"
  by (auto simp: index_ok_def index_fits_def dest: build_index_fits split: option.splits)

lemma metadata_unchanged [simp]:
  "table_core_ok (t\<lparr>bt_index := x\<rparr>) = table_core_ok t" "table_core_ok (t\<lparr>bt_partitions := p\<rparr>) = table_core_ok t"
  "table_core_ok (t\<lparr>bt_generation := g\<rparr>) = table_core_ok t" "partitions_ok (t\<lparr>bt_index := x\<rparr>) = partitions_ok t"
  "row_table_of (t\<lparr>bt_index := x\<rparr>) = row_table_of t" "row_table_of (t\<lparr>bt_partitions := p\<rparr>) = row_table_of t"
  "row_table_of (t\<lparr>bt_generation := g\<rparr>) = row_table_of t"
  by (simp_all add: table_core_ok_def columns_ok_def table_bytes_def partitions_ok_def row_table_of_def table_rows_def cong: option.case_cong)

text \<open>New values are published with the index rebuilt and the partitions gone.\<close>

lemma mark_values_mutated_ok:
  assumes "index_fits t" "table_core_ok t"
  obtains (result) t' where "mark_values_mutated t = (Inr t' :: 'e failure + _)" "batch_table_ok t'" "row_table_of t' = row_table_of t"
proof -
  let ?t = "t\<lparr>bt_partitions := None, bt_generation := bt_generation t + 1\<rparr>"
  have published: thesis if "mark_values_mutated t = (Inr (?t\<lparr>bt_index := x\<rparr>) :: 'e failure + _)" "index_ok (?t\<lparr>bt_index := x\<rparr>)" for x
    using that(1)
  proof (rule result)
    show "batch_table_ok (?t\<lparr>bt_index := x\<rparr>)" using that(2) assms(2) by (simp add: batch_table_ok_def partitions_ok_def)
  qed simp
  show thesis
  proof (cases "bt_index t")
    case None
    then have "mark_values_mutated t = (Inr (?t\<lparr>bt_index := None\<rparr>) :: 'e failure + _)" by (simp add: mark_values_mutated_def Let_def)
    then show thesis by (rule published) (simp add: index_ok_def)
  next
    case (Some i)
    have col: "mi_column i < length (bt_columns ?t)" "column_type (bt_columns ?t ! mi_column i) = TInt64"
      and pos: "0 < mm_block_rows (mi_limits i)"
      using assms(1) Some by (simp_all add: index_fits_def)
    show thesis
    proof (rule build_index_cases [OF col, of "mi_limits i"])
      fix i' assume b: "build_min_max_index ?t (mi_column i) (mi_limits i) = Inr i'" "mi_column i' = mi_column i" "mi_limits i' = mi_limits i"
      then have "mark_values_mutated t = (Inr (?t\<lparr>bt_index := Some i'\<rparr>) :: 'e failure + _)" using Some by (simp add: mark_values_mutated_def Let_def)
      then show thesis by (rule published) (use b in \<open>simp add: index_ok_def\<close>)
    next
      fix e assume b: "build_min_max_index ?t (mi_column i) (mi_limits i) = Inl (Failed e)"
      then have "mark_values_mutated t = (Inr (?t\<lparr>bt_index := None\<rparr>) :: 'e failure + _)" using Some by (simp add: mark_values_mutated_def Let_def)
      then show thesis by (rule published) (simp add: index_ok_def)
    qed (use pos in simp)
  qed
qed

end
