(* ===== verification/Batch_Table_Refine.thy ===== *)
theory Batch_Table_Refine
  imports Batch_Table_Inv
begin

text \<open>
  The concrete table refines the abstract one: on a table that satisfies the invariant no operation panics, an
  operation succeeds exactly when the abstract one does, the table it leaves satisfies the invariant and
  represents the abstract result.
\<close>

section \<open>New columns for a table\<close>

definition with_columns :: "batch_table \<Rightarrow> column list \<Rightarrow> nat \<Rightarrow> batch_table" where
  "with_columns t cs n = t\<lparr>bt_columns := cs, bt_row_count := n, bt_value_bytes := \<Sum>c\<leftarrow>cs. column_bytes c\<rparr>"

lemma with_columns_simps:
  "bt_schema (with_columns t cs n) = bt_schema t" "bt_columns (with_columns t cs n) = cs"
  by (simp_all add: with_columns_def)

definition content_ok :: "batch_table \<Rightarrow> column list \<Rightarrow> nat \<Rightarrow> bool" where
  "content_ok t cs n \<longleftrightarrow>
     list_all2 same_kind cs (bt_columns t) \<and> list_all (\<lambda>c. column_len c = n \<and> column_ok c) cs"

lemma same_kind_map:
  "list_all2 same_kind cs ds \<Longrightarrow>
    map column_type cs = map column_type ds \<and> map is_nullable_column cs = map is_nullable_column ds \<and> length cs = length ds"
  by (induction rule: list_all2_induct) (auto simp: same_kind_def)

lemma content_kinds:
  assumes "content_ok t cs n"
  shows "map column_type cs = map column_type (bt_columns t)" "map is_nullable_column cs = map is_nullable_column (bt_columns t)"
    "length cs = length (bt_columns t)"
  using assms same_kind_map by (simp_all add: content_ok_def)

lemma with_columns_core:
  assumes "table_core_ok t" "content_ok t cs n" "n \<le> bl_max_rows (bt_limits t)"
    "n * length (bt_schema t) \<le> bl_max_cells (bt_limits t)"
  shows "table_core_ok (with_columns t cs n)"
  using assms content_kinds [OF assms(2)]
  by (simp add: table_core_ok_def with_columns_def columns_ok_def content_ok_def table_bytes_def)

lemma with_columns_index:
  assumes "index_fits t" "content_ok t cs n"
  shows "index_fits (with_columns t cs n)"
proof -
  have "column_type (cs ! i) = column_type (bt_columns t ! i)" if "i < length (bt_columns t)" for i
    using that content_kinds [OF assms(2)] by (metis nth_map)
  then show ?thesis
    using assms(1) content_kinds(3) [OF assms(2)] by (auto simp: index_fits_def with_columns_def split: option.split)
qed

lemma row_table_with_columns:
  "content_ok t cs n \<Longrightarrow> row_table_of (with_columns t cs n) = (row_table_of t)\<lparr>rt_rows := cells_rows (map column_cells cs) n\<rparr>"
  using content_kinds(2) [of t cs n] by (simp add: row_table_of_def with_columns_def table_rows_def)

lemma with_columns_same:
  assumes "table_core_ok t"
  shows "with_columns t (bt_columns t) (bt_row_count t) = t" "content_ok t (bt_columns t) (bt_row_count t)"
  using assms
  by (simp_all add: with_columns_def content_ok_def table_core_ok_def table_bytes_def columns_ok_def list_all2_same)

lemma length_cells_rows [simp]: "length (cells_rows css n) = n"
  by (simp add: cells_rows_def)

lemma rt_simps [simp]:
  "rt_limits (row_table_of t) = bt_limits t" "rt_name (row_table_of t) = bt_name t"
  "rt_rows (row_table_of t) = cells_rows (map column_cells (bt_columns t)) (bt_row_count t)"
  by (simp_all add: row_table_of_def table_rows_def)

lemma length_rt_fields: "table_core_ok t \<Longrightarrow> length (rt_fields (row_table_of t)) = length (bt_schema t)"
  using core_cells(2) [of t] by (simp add: row_table_of_def)

text \<open>Publishing the new columns of a table.\<close>

lemma publish_columns:
  assumes "batch_table_ok t" "content_ok t cs n" "n \<le> bl_max_rows (bt_limits t)"
    "n * length (bt_schema t) \<le> bl_max_cells (bt_limits t)"
  obtains (result) t' where "mark_values_mutated (with_columns t cs n) = (Inr t' :: 'e failure + _)" "batch_table_ok t'"
    "row_table_of t' = (row_table_of t)\<lparr>rt_rows := cells_rows (map column_cells cs) n\<rparr>"
proof (rule mark_values_mutated_ok [of "with_columns t cs n", where 'e = 'e])
  show "index_fits (with_columns t cs n)"
    using assms(1,2) by (intro with_columns_index index_ok_fits) (simp_all add: batch_table_ok_def)
  show "table_core_ok (with_columns t cs n)"
    using assms by (intro with_columns_core) (simp_all add: batch_table_ok_def)
qed (simp add: result row_table_with_columns [OF assms(2)])

section \<open>Appended rows\<close>

lemma push_values_cells:
  assumes "list_all2 (\<lambda>c v. cell_fits (column_type c) (is_nullable_column c) v) cs vs"
    "added + (\<Sum>(c, v)\<leftarrow>zip cs vs. cell_bytes (is_nullable_column c) v) \<le> u128_max"
  shows "\<exists>cs'. push_values_to_columns cs vs added =
      (Inr (cs', added + (\<Sum>(c, v)\<leftarrow>zip cs vs. cell_bytes (is_nullable_column c) v)) :: 'e failure + _) \<and>
    list_all2 same_kind cs' cs \<and> map column_cells cs' = map2 (\<lambda>c v. column_cells c @ [v]) cs vs"
  using assms
proof (induction cs vs arbitrary: added rule: list_all2_induct)
  case (Cons c cs v vs)
  obtain c' where c': "column_push c v = (Inr (c', cell_bytes (is_nullable_column c) v) :: 'e failure + _)"
    "column_cells c' = column_cells c @ [v]" "same_kind c' c"
    by (rule column_push_cells [OF Cons.hyps(1)])
  have "u128_add added (cell_bytes (is_nullable_column c) v) = added + cell_bytes (is_nullable_column c) v"
    using Cons.prems by (simp add: u128_add_def)
  moreover obtain cs' where "push_values_to_columns cs vs (added + cell_bytes (is_nullable_column c) v) =
      (Inr (cs', added + cell_bytes (is_nullable_column c) v +
        (\<Sum>(c, v)\<leftarrow>zip cs vs. cell_bytes (is_nullable_column c) v)) :: 'e failure + _)"
    "list_all2 same_kind cs' cs" "map column_cells cs' = map2 (\<lambda>c v. column_cells c @ [v]) cs vs"
    using Cons.IH [of "added + cell_bytes (is_nullable_column c) v"] Cons.prems by (auto simp: add.assoc)
  ultimately show ?case
    using c' by (intro exI [of _ "c' # cs'"]) (simp add: add.assoc)
qed simp

lemma appended_bytes:
  assumes "list_all2 same_kind cs' cs" "map column_cells cs' = map2 (\<lambda>c v. column_cells c @ [v]) cs vs" "length cs = length vs"
  shows "(\<Sum>c\<leftarrow>cs'. column_bytes c) =
    (\<Sum>c\<leftarrow>cs. column_bytes c) + (\<Sum>(c, v)\<leftarrow>zip cs vs. cell_bytes (is_nullable_column c) v)"
  using assms
proof (induction arbitrary: vs rule: list_all2_induct)
  case (Cons c' cs' c cs)
  then show ?case by (cases vs) (auto simp: column_bytes_def same_kind_def)
qed simp

lemma appended_content:
  assumes "content_ok t cs n" "list_all2 same_kind cs' cs" "map column_cells cs' = map2 (\<lambda>c v. column_cells c @ [v]) cs vs"
    "list_all2 (\<lambda>c v. cell_fits (column_type c) (is_nullable_column c) v) cs vs" "list_all cell_small vs"
  shows "content_ok t cs' (Suc n)"
proof -
  have len: "length cs' = length cs" "length vs = length cs"
    using assms(2,4) by (simp_all add: list_all2_lengthD)
  have cells: "column_cells (cs' ! i) = column_cells (cs ! i) @ [vs ! i]" if "i < length cs" for i
    using arg_cong [OF assms(3), of "\<lambda>xs. xs ! i"] that len by simp
  have kind: "same_kind (cs' ! i) (cs ! i)" if "i < length cs" for i
    using assms(2) that len by (simp add: list_all2_nthD2)
  have "list_all2 same_kind cs' (bt_columns t)"
    using assms(1,2) by (auto simp: content_ok_def same_kind_def intro: list_all2_trans [rotated])
  moreover have "column_len (cs' ! i) = Suc n \<and> column_ok (cs' ! i)" if i: "i < length cs" for i
  proof
    have c: "column_len (cs ! i) = n" "column_ok (cs ! i)" using assms(1) i by (simp_all add: content_ok_def list_all_length)
    then show "column_len (cs' ! i) = Suc n" using cells [OF i] by (simp add: column_len_cells)
    show "column_ok (cs' ! i)"
      using c(2) kind [OF i] cells [OF i]
    proof (rule column_ok_append)
      show "list_all (cell_fits (column_type (cs ! i)) (is_nullable_column (cs ! i))) [vs ! i]"
        using assms(4) i by (simp add: list_all2_conv_all_nth)
      show "list_all cell_small [vs ! i]" using assms(5) i len by (simp add: list_all_length)
    qed
  qed
  ultimately show ?thesis using len by (simp add: content_ok_def list_all_length)
qed

lemma cells_rows_append:
  assumes "list_all (\<lambda>c. column_len c = n) cs" "length vs = length cs" "map column_cells cs' = map2 (\<lambda>c v. column_cells c @ [v]) cs vs"
  shows "cells_rows (map column_cells cs') (Suc n) = cells_rows (map column_cells cs) n @ [vs]"
proof -
  have "length (column_cells (cs ! i)) = n" if "i < length cs" for i
    using assms(1) that by (simp add: list_all_length column_len_cells)
  then have "map (\<lambda>(c, v). (column_cells c @ [v]) ! n) (zip cs vs) = vs"
    "\<And>i. i < n \<Longrightarrow> map (\<lambda>(c, v). (column_cells c @ [v]) ! i) (zip cs vs) = map (\<lambda>c. column_cells c ! i) cs"
    using assms(2) by (auto simp: nth_append intro!: nth_equalityI)
  then show ?thesis by (simp add: cells_rows_def assms(3) o_def case_prod_unfold)
qed

lemma append_validated_row_cells:
  assumes "table_core_ok t" "content_ok t cs n" "row_fits (row_table_of t) row" "list_all cell_small row"
    "Suc n * length (bt_schema t) \<le> usize_max"
  obtains cs' where "append_validated_row (with_columns t cs n) row = (Inr (with_columns t cs' (Suc n)) :: 'e failure + _)"
    "content_ok t cs' (Suc n)" "cells_rows (map column_cells cs') (Suc n) = cells_rows (map column_cells cs) n @ [row]"
proof -
  let ?sum = "\<Sum>(c, v)\<leftarrow>zip cs row. cell_bytes (is_nullable_column c) v"
  have ok: "columns_ok t" using assms(1) by (simp add: table_core_ok_def)
  note len = content_kinds(3) [OF assms(2)] core_cells(2) [OF assms(1)]
  have kinds: "column_type (cs ! i) = cd_type (bt_schema t ! i)" "is_nullable_column (cs ! i) = is_nullable_column (bt_columns t ! i)"
    if "i < length cs" for i
    using that len column_type_schema [OF ok, of i] arg_cong [OF content_kinds(1) [OF assms(2)], of "\<lambda>xs. xs ! i"]
      arg_cong [OF content_kinds(2) [OF assms(2)], of "\<lambda>xs. xs ! i"] by simp_all
  have fits: "list_all2 (\<lambda>c v. cell_fits (column_type c) (is_nullable_column c) v) cs row"
    using assms(3) kinds len unfolding row_fits_iff [OF ok] by (simp add: list_all2_conv_all_nth)
  then have row: "length row = length cs" by (simp add: list_all2_lengthD)
  have "?sum \<le> length (zip cs row) * isize_max"
    using assms(4) by (intro sum_list_bound) (auto simp: list_all_iff intro: cell_bytes_small dest: set_zip_rightD)
  also have "\<dots> = length (bt_schema t) * isize_max" using row len by simp
  also have "\<dots> \<le> u128_max" using assms(5) by (intro usize_isize_u128) simp
  finally have sum_ok: "?sum \<le> u128_max" .
  obtain cs' where cs': "push_values_to_columns cs row 0 = (Inr (cs', ?sum) :: 'e failure + _)"
    "list_all2 same_kind cs' cs" "map column_cells cs' = map2 (\<lambda>c v. column_cells c @ [v]) cs row"
    using push_values_cells [OF fits, of 0] sum_ok by auto
  have content: "content_ok t cs' (Suc n)" by (rule appended_content [OF assms(2) cs'(2,3) fits assms(4)])
  have bytes: "(\<Sum>c\<leftarrow>cs'. column_bytes c) = (\<Sum>c\<leftarrow>cs. column_bytes c) + ?sum"
    by (rule appended_bytes [OF cs'(2,3)]) (simp add: row)
  have "(\<Sum>c\<leftarrow>cs'. column_bytes c) \<le> u128_max"
    using content assms(5) content_kinds(3) [OF content] len by (intro columns_bytes_bound [of "Suc n"]) (simp_all add: content_ok_def)
  then have "append_validated_row (with_columns t cs n) row = (Inr (with_columns t cs' (Suc n)) :: 'e failure + _)"
    using cs'(1) bytes by (simp add: append_validated_row_def with_columns_def u128_add_def)
  moreover have "cells_rows (map column_cells cs') (Suc n) = cells_rows (map column_cells cs) n @ [row]"
    using assms(2) row cs'(3) by (intro cells_rows_append) (auto simp: content_ok_def list_all_iff)
  ultimately show thesis using that content by blast
qed

lemma append_rows_cells:
  assumes "table_core_ok t" "content_ok t cs n" "list_all (row_fits (row_table_of t)) rows" "list_all (list_all cell_small) rows"
    "(n + length rows) * length (bt_schema t) \<le> usize_max"
  shows "\<exists>cs'. try_fold append_validated_row (with_columns t cs n) rows =
      (Inr (with_columns t cs' (n + length rows)) :: 'e failure + _) \<and> content_ok t cs' (n + length rows) \<and>
    cells_rows (map column_cells cs') (n + length rows) = cells_rows (map column_cells cs) n @ rows"
  using assms(2-)
proof (induction rows arbitrary: cs n)
  case (Cons row rows)
  have "Suc n * length (bt_schema t) \<le> (n + length (row # rows)) * length (bt_schema t)" by (intro mult_le_mono1) simp
  then have small: "Suc n * length (bt_schema t) \<le> usize_max" using Cons.prems(4) by linarith
  obtain cs1 where cs1: "append_validated_row (with_columns t cs n) row = (Inr (with_columns t cs1 (Suc n)) :: 'e failure + _)"
    "content_ok t cs1 (Suc n)" "cells_rows (map column_cells cs1) (Suc n) = cells_rows (map column_cells cs) n @ [row]"
    by (rule append_validated_row_cells [OF assms(1) Cons.prems(1) _ _ small, of row]) (use Cons.prems in simp_all)
  obtain cs2 where "try_fold append_validated_row (with_columns t cs1 (Suc n)) rows =
      (Inr (with_columns t cs2 (Suc n + length rows)) :: 'e failure + _)" "content_ok t cs2 (Suc n + length rows)"
    "cells_rows (map column_cells cs2) (Suc n + length rows) = cells_rows (map column_cells cs1) (Suc n) @ rows"
    using Cons.IH [OF cs1(2)] Cons.prems by auto
  then show ?case using cs1 by auto
qed auto

text \<open>Appending validated rows and publishing them.\<close>

lemma append_validated_rows_ok:
  assumes "batch_table_ok t" "row_capacity (row_table_of t) (length rows)" "list_all (row_fits (row_table_of t)) rows"
    "list_all (list_all cell_small) rows"
  obtains (result) t' where "append_validated_rows t rows = (Inr t' :: 'e failure + _)" "batch_table_ok t'"
    "row_table_of t' = (row_table_of t)\<lparr>rt_rows := rt_rows (row_table_of t) @ rows\<rparr>"
proof -
  have core: "table_core_ok t" using assms(1) by (simp add: batch_table_ok_def)
  have fit: "bt_row_count t + length rows \<le> bl_max_rows (bt_limits t)"
    "(bt_row_count t + length rows) * length (bt_schema t) \<le> bl_max_cells (bt_limits t)"
    using assms(2) by (simp_all add: row_capacity_def length_rt_fields [OF core])
  moreover have "bl_max_cells (bt_limits t) < usize_max" using core by (simp add: table_core_ok_def table_limits_ok_def)
  ultimately have "(bt_row_count t + length rows) * length (bt_schema t) \<le> usize_max" by linarith
  from append_rows_cells [OF core with_columns_same(2) [OF core] assms(3,4) this]
  obtain cs' where cs': "try_fold append_validated_row t rows =
      (Inr (with_columns t cs' (bt_row_count t + length rows)) :: 'e failure + _)"
    "content_ok t cs' (bt_row_count t + length rows)"
    "cells_rows (map column_cells cs') (bt_row_count t + length rows) = rt_rows (row_table_of t) @ rows"
    by (auto simp: with_columns_same(1) [OF core])
  show thesis
  proof (cases "rows = []")
    case True
    then show thesis using assms(1) by (intro result [of t]) (simp_all add: append_validated_rows_def)
  next
    case False
    show thesis
    proof (rule publish_columns [OF assms(1) cs'(2) fit, where 'e = 'e])
      fix t' assume "mark_values_mutated (with_columns t cs' (bt_row_count t + length rows)) = (Inr t' :: 'e failure + _)"
        "batch_table_ok t'" "row_table_of t' = (row_table_of t)\<lparr>rt_rows := cells_rows (map column_cells cs') (bt_row_count t + length rows)\<rparr>"
      then show thesis using False cs'(1,3) by (intro result [of t']) (simp_all add: append_validated_rows_def)
    qed
  qed
qed

section \<open>Steps\<close>

text \<open>What the refinement says of one step: no panic, success exactly when the abstract table allows it, and then
  its result and a table that satisfies the invariant.\<close>

definition step_refines :: "(usize \<times> batch_table) batch_result \<Rightarrow> (usize \<times> row_table) option \<Rightarrow> bool" where
  "step_refines res spec \<longleftrightarrow>
     (case res of
        Inl Panicked \<Rightarrow> False
      | Inl (Failed e) \<Rightarrow> spec = None
      | Inr (n, t') \<Rightarrow> batch_table_ok t' \<and> spec = Some (n, row_table_of t'))"

lemma step_refines_Inr [simp]:
  "step_refines (Inr (n, t')) spec \<longleftrightarrow> batch_table_ok t' \<and> spec = Some (n, row_table_of t')"
  by (simp add: step_refines_def)

lemma step_refines_Failed [simp]: "step_refines (Inl (Failed e)) spec \<longleftrightarrow> spec = None"
  by (simp add: step_refines_def)

lemma unit_result_cases:
  fixes r :: "unit batch_result"
  assumes "r \<noteq> Inl Panicked"
  obtains "r = Inr ()" | e where "r = Inl (Failed e)" "r \<noteq> Inr ()"
  using assms by (cases r; cases "projl r") auto

lemma insert_rows_refines:
  assumes "batch_table_ok t" "list_all (list_all cell_small) rows"
  shows "step_refines (map_sum id (Pair 0) (insert_rows t rows)) (spec_insert (row_table_of t) (length rows) rows)"
proof -
  have core: "table_core_ok t" and ok: "columns_ok t" using assms(1) by (simp_all add: batch_table_ok_def table_core_ok_def)
  note capacity = row_capacity_iff [OF core, of "length rows"] and valid = validate_rows_iff [OF ok, of rows]
  show ?thesis
  proof (cases rule: unit_result_cases [OF capacity(2)])
    case 1
    note admitted = this
    show ?thesis
    proof (cases rule: unit_result_cases [OF valid(2)])
      case 1
      obtain t' where "append_validated_rows t rows = (Inr t' :: batch_table batch_result)" "batch_table_ok t'"
        "row_table_of t' = (row_table_of t)\<lparr>rt_rows := rt_rows (row_table_of t) @ rows\<rparr>"
        by (rule append_validated_rows_ok [OF assms(1) _ _ assms(2), where 'e = batch_error])
          (use admitted 1 capacity(1) valid(1) in simp_all)
      then show ?thesis using admitted 1 capacity(1) valid(1) by (simp add: insert_rows_def spec_insert_def)
    qed (use admitted valid(1) in \<open>simp add: insert_rows_def spec_insert_def\<close>)
  qed (use capacity(1) in \<open>simp add: insert_rows_def spec_insert_def\<close>)
qed

lemma insert_row_rows: "insert_row t row = insert_rows t [row]"
  by (cases "validate_row t row"; cases "append_validated_row t row :: batch_table batch_result")
    (simp_all add: insert_row_def insert_rows_def validate_rows_def append_validated_rows_def)

section \<open>Deleted and replaced rows\<close>

lemma delete_from_columns_cells:
  assumes "sorted_wrt (<) rows" "list_all (\<lambda>r. r < n) rows" "list_all (\<lambda>c. column_len c = n \<and> column_ok c) cs"
    "deleted + (\<Sum>c\<leftarrow>cs. column_bytes c) \<le> u128_max"
  shows "\<exists>cs' bytes. delete_from_columns cs rows deleted = (Inr (cs', deleted + bytes) :: 'e failure + _) \<and>
    list_all2 same_kind cs' cs \<and> map column_cells cs' = map (\<lambda>c. nths (column_cells c) (- set rows)) cs \<and>
    (\<Sum>c\<leftarrow>cs'. column_bytes c) + bytes = (\<Sum>c\<leftarrow>cs. column_bytes c)"
  using assms(3,4)
proof (induction cs arbitrary: deleted)
  case (Cons c cs)
  have "list_all (\<lambda>r. r < column_len c) rows" "column_bytes c \<le> u128_max" using Cons.prems assms(2) by simp_all
  from column_delete_rows_cells [OF assms(1) this, where 'e = 'e]
  obtain c' gone where c': "column_delete_rows c rows = (Inr (c', gone) :: 'e failure + _)"
    "column_cells c' = nths (column_cells c) (- set rows)" "same_kind c' c" "column_bytes c' + gone = column_bytes c" .
  have u: "u128_add deleted gone = deleted + gone" using Cons.prems(2) c'(4) by (simp add: u128_add_def)
  have "list_all (\<lambda>c. column_len c = n \<and> column_ok c) cs" "(deleted + gone) + (\<Sum>c\<leftarrow>cs. column_bytes c) \<le> u128_max"
    using Cons.prems c'(4) by simp_all
  from Cons.IH [OF this] obtain cs' bytes where "delete_from_columns cs rows (deleted + gone) = (Inr (cs', deleted + gone + bytes) :: 'e failure + _)"
    "list_all2 same_kind cs' cs" "map column_cells cs' = map (\<lambda>c. nths (column_cells c) (- set rows)) cs"
    "(\<Sum>c\<leftarrow>cs'. column_bytes c) + bytes = (\<Sum>c\<leftarrow>cs. column_bytes c)" by blast
  then show ?case using c' u by (intro exI [of _ "c' # cs'"] exI [of _ "gone + bytes"]) (simp add: add.assoc)
qed simp

lemma length_nths_Compl:
  assumes "distinct rows" "list_all (\<lambda>r. r < length xs) rows"
  shows "length (nths xs (- set rows)) + length rows = length xs"
  using sum_rows [of rows xs "\<lambda>_. 1"] assms by (simp add: sum_list_triv)

lemma cells_rows_nths:
  assumes "list_all (\<lambda>cells. length cells = n) css"
  shows "cells_rows (map (\<lambda>cells. nths cells A) css) (length (nths [0..<n] A)) = nths (cells_rows css n) A"
proof -
  let ?idx = "nths [0..<n] A"
  have "nths cells A ! k = cells ! (?idx ! k)" if "cells \<in> set css" "k < length ?idx" for cells k
  proof -
    have "cells = map (\<lambda>i. cells ! i) [0..<n]" using assms that(1) by (intro nth_equalityI) (auto simp: list_all_iff)
    then have "nths cells A = map (\<lambda>i. cells ! i) ?idx" by (metis nths_map)
    then show ?thesis using that(2) by simp
  qed
  then have "cells_rows (map (\<lambda>cells. nths cells A) css) (length ?idx) =
      map (\<lambda>k. map (\<lambda>cells. cells ! (?idx ! k)) css) [0..<length ?idx]"
    by (simp add: cells_rows_def)
  also have "\<dots> = map (\<lambda>i. map (\<lambda>cells. cells ! i) css) ?idx" by (rule nth_equalityI) simp_all
  also have "\<dots> = nths (cells_rows css n) A" by (simp add: cells_rows_def nths_map)
  finally show ?thesis .
qed

lemma core_columns: "table_core_ok t \<Longrightarrow> list_all (\<lambda>c. column_len c = bt_row_count t \<and> column_ok c) (bt_columns t)"
  by (simp add: table_core_ok_def columns_ok_def)

lemma core_rows_bound:
  "table_core_ok t \<Longrightarrow> n \<le> bt_row_count t \<Longrightarrow> n \<le> bl_max_rows (bt_limits t) \<and> n * length (bt_schema t) \<le> bl_max_cells (bt_limits t)"
  using mult_le_mono1 [of n "bt_row_count t" "length (bt_schema t)"] unfolding table_core_ok_def by linarith

lemma delete_rows_refines:
  assumes "batch_table_ok t"
  shows "step_refines (delete_rows t rows) (spec_step (row_table_of t) (DeleteRows rows))"
proof (cases rule: unit_result_cases [OF validate_row_selection_total [of rows "bt_row_count t"]])
  case 1
  have core: "table_core_ok t" using assms by (simp add: batch_table_ok_def)
  have sel: "sorted_wrt (<) rows" "list_all (\<lambda>r. r < bt_row_count t) rows"
    using 1 by (simp_all add: validate_row_selection_iff)
  let ?n = "bt_row_count t - length rows"
  have count: "length (nths [0..<bt_row_count t] (- set rows)) + length rows = bt_row_count t"
    using length_nths_Compl [of rows "[0..<bt_row_count t]"] sel by (simp add: sorted_wrt_less_distinct)
  show ?thesis
  proof (cases "rows = []")
    case True
    then show ?thesis using assms by (simp add: delete_rows_def validate_row_selection_def nths_all row_table_of_def)
  next
    case False
    from delete_from_columns_cells [OF sel core_columns [OF core], of 0, where 'e = batch_error] core_bytes [OF core]
    obtain cs' bytes where cs': "delete_from_columns (bt_columns t) rows 0 = (Inr (cs', bytes) :: batch_error failure + _)"
      "list_all2 same_kind cs' (bt_columns t)"
      "map column_cells cs' = map (\<lambda>c. nths (column_cells c) (- set rows)) (bt_columns t)"
      "(\<Sum>c\<leftarrow>cs'. column_bytes c) + bytes = table_bytes t"
      by (auto simp: table_bytes_def)
    have each: "column_len (cs' ! i) = ?n \<and> column_ok (cs' ! i)" if "i < length cs'" for i
    proof -
      have i: "i < length (bt_columns t)" using that cs'(2) by (simp add: list_all2_lengthD)
      have cells: "column_cells (cs' ! i) = nths (column_cells (bt_columns t ! i)) (- set rows)"
        using arg_cong [OF cs'(3), of "\<lambda>xs. xs ! i"] that i by simp
      have c: "column_len (bt_columns t ! i) = bt_row_count t" "column_ok (bt_columns t ! i)"
        using core_columns [OF core] i by (simp_all add: list_all_length)
      have "length (nths (column_cells (bt_columns t ! i)) (- set rows)) + length rows = bt_row_count t"
        using length_nths_Compl [of rows "column_cells (bt_columns t ! i)"] sel c(1)
        by (simp add: column_len_cells sorted_wrt_less_distinct)
      then have "column_len (cs' ! i) = ?n" using cells by (simp add: column_len_cells)
      moreover have "column_ok (cs' ! i)"
        using c(2) list_all2_nthD2 [OF cs'(2) i] cells set_nths_subset [of "column_cells (bt_columns t ! i)" "- set rows"]
        by (auto simp: column_ok_def same_kind_def list_all_iff)
      ultimately show ?thesis ..
    qed
    then have content: "content_ok t cs' ?n" using cs'(2) by (simp add: content_ok_def list_all_length)
    have idx: "length (nths [0..<bt_row_count t] (- set rows)) = ?n" using count by linarith
    have rows': "cells_rows (map column_cells cs') ?n = nths (rt_rows (row_table_of t)) (- set rows)"
      using cells_rows_nths [of "bt_row_count t" "map column_cells (bt_columns t)" "- set rows"] core_columns [OF core]
      by (simp add: cs'(3) idx o_def list_all_iff column_len_cells)
    have "bt_value_bytes t - bytes = (\<Sum>c\<leftarrow>cs'. column_bytes c)"
      using core cs'(4) by (simp add: table_core_ok_def)
    then have step: "delete_rows t rows =
        res_bind (mark_values_mutated (with_columns t cs' ?n)) (\<lambda>t'. Inr (length rows, t'))"
      using 1 False cs'(1) count by (simp add: delete_rows_def with_columns_def)
    have fit: "?n \<le> bl_max_rows (bt_limits t)" "?n * length (bt_schema t) \<le> bl_max_cells (bt_limits t)"
      using core_rows_bound [OF core, of ?n] by simp_all
    show ?thesis
    proof (rule publish_columns [OF assms content fit, where 'e = batch_error])
      fix t' assume t': "mark_values_mutated (with_columns t cs' ?n) = (Inr t' :: batch_table batch_result)" "batch_table_ok t'"
        "row_table_of t' = (row_table_of t)\<lparr>rt_rows := cells_rows (map column_cells cs') ?n\<rparr>"
      then show ?thesis using sel rows' by (simp add: step)
    qed
  qed
next
  case (2 e)
  then show ?thesis using validate_row_selection_iff [of rows "bt_row_count t"] by (auto simp: delete_rows_def)
qed

lemma column_clear_empty: "column_len c = 0 \<Longrightarrow> column_clear c = c"
  by (cases c) simp_all

lemma truncate_refines:
  assumes "batch_table_ok t"
  shows "step_refines (truncate_table t) (spec_step (row_table_of t) TruncateRows)"
proof -
  have core: "table_core_ok t" using assms by (simp add: batch_table_ok_def)
  let ?cs = "map column_clear (bt_columns t)"
  have content: "content_ok t ?cs 0"
    by (auto simp: content_ok_def list_all2_conv_all_nth list_all_iff column_len_cells column_ok_def same_kind_def)
  have "(\<Sum>c\<leftarrow>?cs. column_bytes c) = 0" by (simp add: column_bytes_def o_def)
  then have new: "t\<lparr>bt_columns := ?cs, bt_row_count := 0, bt_value_bytes := 0\<rparr> = with_columns t ?cs 0"
    by (simp add: with_columns_def)
  have empty: "cells_rows css 0 = []" for css :: "scalar list list" by (simp add: cells_rows_def)
  show ?thesis
  proof (cases "bt_row_count t = 0")
    case True
    then have "?cs = bt_columns t"
      using core_columns [OF core] by (auto simp: list_all_iff column_clear_empty intro: map_idI)
    then have "truncate_table t = Inr (0, t)"
      using True new with_columns_same(1) [OF core] by (simp add: truncate_table_def)
    then show ?thesis using assms True empty by (simp add: row_table_of_def table_rows_def)
  next
    case False
    show ?thesis
    proof (rule publish_columns [OF assms content, where 'e = batch_error])
      fix t' assume "mark_values_mutated (with_columns t ?cs 0) = (Inr t' :: batch_table batch_result)" "batch_table_ok t'"
        "row_table_of t' = (row_table_of t)\<lparr>rt_rows := cells_rows (map column_cells ?cs) 0\<rparr>"
      then show ?thesis using False by (simp add: truncate_table_def Let_def new empty)
    qed simp_all
  qed
qed

section \<open>Replaced values\<close>

lemma column_index_cases:
  assumes "table_core_ok t"
  obtains (found) i where "batch_column_index t name = Inr i" "find_field (rt_fields (row_table_of t)) name = Some i"
      "i < length (bt_schema t)" "eq_ignore_ascii_case (cd_name (bt_schema t ! i)) name"
    | (missing) e where "batch_column_index t name = Inl (Failed e)" "find_field (rt_fields (row_table_of t)) name = None"
      "list_all (\<lambda>field. \<not> eq_ignore_ascii_case (cd_name field) name) (bt_schema t)"
proof -
  let ?p = "\<lambda>i. eq_ignore_ascii_case (cd_name (bt_schema t ! i)) name"
  have "find_field (rt_fields (row_table_of t)) name = find ?p [0..<length (bt_schema t)]"
    using core_cells(2) [OF assms] unfolding find_field_def
    by (intro find_cong) (simp_all add: row_table_of_def)
  note spec = this
  show thesis
  proof (cases "find ?p [0..<length (bt_schema t)]")
    case None
    then have "list_all (\<lambda>field. \<not> eq_ignore_ascii_case (cd_name field) name) (bt_schema t)"
      by (auto simp: find_None_iff list_all_length)
    then show thesis using None spec by (intro missing) (simp_all add: batch_column_index_def)
  next
    case (Some i)
    then have "i < length (bt_schema t)" "?p i" by (auto simp: find_Some_iff)
    then show thesis using Some spec by (intro found [of i]) (simp_all add: batch_column_index_def)
  qed
qed

lemma cells_rows_update_one:
  assumes "i < length css" "row < n" "length (css ! i) = n"
  shows "cells_rows (css[i := (css ! i)[row := v]]) n = (cells_rows css n)[row := (cells_rows css n ! row)[i := v]]"
  using assms by (intro nth_equalityI) (auto simp: cells_rows_def nth_list_update intro!: nth_equalityI)

lemma cells_rows_update:
  assumes "i < length css" "length (css ! i) = n" "list_all (\<lambda>(row, v). row < n) replacements"
  shows "cells_rows (css[i := update_cells replacements (css ! i)]) n =
    fold (\<lambda>(row, v) rows. rows[row := (rows ! row)[i := v]]) replacements (cells_rows css n)"
  using assms
proof (induction replacements arbitrary: css)
  case (Cons r replacements)
  obtain row v where r: "r = (row, v)" by (cases r)
  let ?css = "css[i := (css ! i)[row := v]]"
  have "cells_rows (?css[i := update_cells replacements (?css ! i)]) n =
      fold (\<lambda>(row, v) rows. rows[row := (rows ! row)[i := v]]) replacements (cells_rows ?css n)"
    using Cons.prems by (intro Cons.IH) simp_all
  then show ?case using Cons.prems r by (simp add: cells_rows_update_one)
qed simp

text \<open>The columns and the byte count after replacing values that fit.\<close>

lemma replaced_columns:
  assumes "table_core_ok t" "i < length (bt_schema t)" "distinct (map fst replacements)"
    "list_all (\<lambda>(row, v). row < bt_row_count t \<and>
      cell_fits (cd_type (bt_schema t ! i)) (is_nullable_column (bt_columns t ! i)) v \<and> cell_small v) replacements"
  obtains c' removed added where
    "column_replace_values (bt_columns t ! i) replacements = (Inr (c', removed, added) :: 'e failure + _)"
    "content_ok t ((bt_columns t)[i := c']) (bt_row_count t)"
    "u128_add (bt_value_bytes t - removed) added = (\<Sum>c\<leftarrow>(bt_columns t)[i := c']. column_bytes c)"
    "column_cells c' = update_cells replacements (column_cells (bt_columns t ! i))"
proof -
  let ?c = "bt_columns t ! i" and ?n = "bt_row_count t"
  have ok: "columns_ok t" using assms(1) by (simp add: table_core_ok_def)
  have ic: "i < length (bt_columns t)" using assms(2) core_cells(2) [OF assms(1)] by simp
  have type: "column_type ?c = cd_type (bt_schema t ! i)" by (rule column_type_schema [OF ok assms(2)])
  have c: "column_len ?c = ?n" "column_ok ?c" using core_columns [OF assms(1)] ic by (simp_all add: list_all_length)
  have fits: "list_all (\<lambda>(row, v). row < column_len ?c \<and> cell_fits (column_type ?c) (is_nullable_column ?c) v \<and> cell_small v) replacements"
    using assms(4) by (simp add: c(1) type)
  have "?n * 1 \<le> ?n * length (bt_columns t)" using ic by (intro mult_le_mono2) linarith
  then have "column_len ?c * isize_max \<le> u128_max"
    unfolding c(1) using core_cells(1) [OF assms(1)] by (intro usize_isize_u128) linarith
  from column_replace_values_cells [OF assms(3) fits _ this, where 'e = 'e] c(2)
  obtain c' removed added where c': "column_replace_values ?c replacements = (Inr (c', removed, added) :: 'e failure + _)"
    "column_cells c' = update_cells replacements (column_cells ?c)" "same_kind c' ?c"
    "removed \<le> column_bytes ?c" "column_bytes c' + removed = column_bytes ?c + added"
    by (auto simp: column_ok_def)
  let ?cs = "(bt_columns t)[i := c']"
  have c'_len: "column_len c' = ?n" using c'(2) c(1) by (simp add: column_len_cells)
  have "list_all (cell_fits (column_type ?c) (is_nullable_column ?c)) (column_cells ?c)" "list_all cell_small (column_cells ?c)"
    using c(2) by (simp_all add: column_ok_def)
  then have c'_ok: "column_ok c'"
    using fits c'(3) set_update_cells [of replacements "column_cells ?c"]
    by (fastforce simp: column_ok_def same_kind_def list_all_iff c'(2))
  have content: "content_ok t ?cs ?n"
    using core_columns [OF assms(1)] c'_len c'_ok c'(3) ic
    by (auto simp: content_ok_def list_all_length nth_list_update list_all2_conv_all_nth)
  have "column_bytes ?c \<le> (\<Sum>c\<leftarrow>bt_columns t. column_bytes c)" using ic by (intro member_bytes) simp
  moreover have "(\<Sum>c\<leftarrow>?cs. column_bytes c) = (\<Sum>c\<leftarrow>bt_columns t. column_bytes c) + column_bytes c' - column_bytes ?c"
    using ic by (simp add: map_update sum_list_update)
  moreover have "(\<Sum>c\<leftarrow>?cs. column_bytes c) \<le> u128_max"
    using content core_cells [OF assms(1)] by (intro columns_bytes_bound [of ?n]) (simp_all add: content_ok_def)
  ultimately have "u128_add (bt_value_bytes t - removed) added = (\<Sum>c\<leftarrow>?cs. column_bytes c)"
    using c'(4,5) assms(1) by (simp add: u128_add_def table_core_ok_def table_bytes_def)
  then show thesis by (rule that [OF c'(1) content _ c'(2)])
qed

lemma replace_validated:
  assumes "batch_table_ok t" "batch_column_index t name = Inr i" "i < length (bt_schema t)"
    "sorted_wrt (<) (map fst replacements)"
    "list_all (\<lambda>(row, v). row < bt_row_count t \<and>
      cell_fits (cd_type (bt_schema t ! i)) (is_nullable_column (bt_columns t ! i)) v \<and> cell_small v) replacements"
    "validate_row_selection (map fst replacements) (bt_row_count t) = Inr ()"
    "validate_values t (map (\<lambda>(_, v). (i, bt_schema t ! i, v)) replacements) = Inr ()"
  shows "\<exists>t'. replace_column_values t name replacements = Inr (length replacements, t') \<and> batch_table_ok t' \<and>
    row_table_of t' = (row_table_of t)\<lparr>rt_rows :=
      fold (\<lambda>(row, v) rows. rows[row := (rows ! row)[i := v]]) replacements (rt_rows (row_table_of t))\<rparr>"
proof -
  have core: "table_core_ok t" using assms(1) by (simp add: batch_table_ok_def)
  have ic: "i < length (bt_columns t)" using assms(3) core_cells(2) [OF core] by simp
  obtain c' removed added where
    c': "column_replace_values (bt_columns t ! i) replacements = (Inr (c', removed, added) :: batch_error failure + _)"
    and content: "content_ok t ((bt_columns t)[i := c']) (bt_row_count t)"
    and bytes: "u128_add (bt_value_bytes t - removed) added = (\<Sum>c\<leftarrow>(bt_columns t)[i := c']. column_bytes c)"
    and cells: "column_cells c' = update_cells replacements (column_cells (bt_columns t ! i))"
    by (rule replaced_columns [OF core assms(3) sorted_wrt_less_distinct [OF assms(4)] assms(5), where 'e = batch_error])
  let ?cs = "(bt_columns t)[i := c']" and ?n = "bt_row_count t"
  have rows': "cells_rows (map column_cells ?cs) ?n =
      fold (\<lambda>(row, v) rows. rows[row := (rows ! row)[i := v]]) replacements (rt_rows (row_table_of t))"
  proof -
    have "length (map column_cells (bt_columns t) ! i) = ?n"
      using ic core_columns [OF core] by (simp add: list_all_length column_len_cells)
    moreover have "list_all (\<lambda>(row, v). row < ?n) replacements" using assms(5) by (auto simp: list_all_iff)
    ultimately show ?thesis
      using cells_rows_update [of i "map column_cells (bt_columns t)" ?n replacements] ic by (simp add: map_update cells)
  qed
  have "t\<lparr>bt_columns := ?cs, bt_value_bytes := u128_add (bt_value_bytes t - removed) added\<rparr> = with_columns t ?cs ?n"
    by (simp add: with_columns_def bytes)
  then have step: "replace_column_values t name replacements =
      (if replacements \<noteq> [] then res_bind (mark_values_mutated (with_columns t ?cs ?n)) (\<lambda>t'. Inr (length replacements, t'))
       else Inr (length replacements, with_columns t ?cs ?n))"
    using assms(2,3,6,7) ic c' by (simp add: replace_column_values_def Let_def)
  show ?thesis
  proof (cases "replacements = []")
    case True
    then have "c' = bt_columns t ! i" using c' by (simp add: column_replace_values_def)
    then show ?thesis using True step assms(1) with_columns_same(1) [OF core] by (simp add: row_table_of_def table_rows_def)
  next
    case False
    have fit: "?n \<le> bl_max_rows (bt_limits t)" "?n * length (bt_schema t) \<le> bl_max_cells (bt_limits t)"
      using core_rows_bound [OF core, of ?n] by simp_all
    show ?thesis
    proof (rule publish_columns [OF assms(1) content fit, where 'e = batch_error])
      fix t' assume "mark_values_mutated (with_columns t ?cs ?n) = (Inr t' :: batch_table batch_result)" "batch_table_ok t'"
        "row_table_of t' = (row_table_of t)\<lparr>rt_rows := cells_rows (map column_cells ?cs) ?n\<rparr>"
      then show ?thesis using False rows' by (simp add: step)
    qed
  qed
qed

lemma replace_refines:
  assumes "batch_table_ok t" "list_all (\<lambda>(_, v). cell_small v) replacements"
  shows "step_refines (replace_column_values t name replacements)
    (spec_step (row_table_of t) (ReplaceValues name replacements))"
proof -
  have core: "table_core_ok t" and ok: "columns_ok t" using assms(1) by (simp_all add: batch_table_ok_def table_core_ok_def)
  show ?thesis
  proof (rule column_index_cases [OF core, of name])
    fix i assume i: "batch_column_index t name = Inr i" "find_field (rt_fields (row_table_of t)) name = Some i"
      "i < length (bt_schema t)"
    let ?c = "bt_columns t ! i" and ?f = "bt_schema t ! i"
    have ic: "i < length (bt_columns t)" using i(3) core_cells(2) [OF core] by simp
    have field: "rt_fields (row_table_of t) ! i = (?f, is_nullable_column ?c)" using i(3) ic by (simp add: row_table_of_def)
    let ?items = "map (\<lambda>(_, v). (i, ?f, v)) replacements"
    have items: "list_all (\<lambda>(column, field, v). column < length (bt_columns t) \<and> column_type (bt_columns t ! column) = cd_type field) ?items"
      using ic column_type_schema [OF ok i(3)] by (auto simp: list_all_iff)
    have valid: "validate_values t ?items = Inr () \<longleftrightarrow>
        list_all (\<lambda>(_, v). field_fits (rt_fields (row_table_of t) ! i) v) replacements"
      using validate_values_iff(1) [OF items] unfolding field by (auto simp: list_all_iff)
    note sel = validate_row_selection_iff [of "map fst replacements" "bt_row_count t"]
    have bounds: "list_all (\<lambda>(row, _). row < n) replacements \<longleftrightarrow> list_all (\<lambda>row. row < n) (map fst replacements)" for n
      by (auto simp: list_all_iff)
    show ?thesis
    proof (cases rule: unit_result_cases [OF validate_row_selection_total [of "map fst replacements" "bt_row_count t"]])
      case 1
      note selected = this
      show ?thesis
      proof (cases rule: unit_result_cases [OF validate_values_iff(2) [OF items]])
        case 1
        have rows: "sorted_wrt (<) (map fst replacements)" "list_all (\<lambda>(row, _). row < bt_row_count t) replacements"
          using selected sel bounds by simp_all
        have fits: "list_all (\<lambda>(row, v). row < bt_row_count t \<and> cell_fits (cd_type ?f) (is_nullable_column ?c) v \<and> cell_small v) replacements"
          using rows(2) valid 1 assms(2) unfolding field by (auto simp: list_all_iff)
        show ?thesis
          using replace_validated [OF assms(1) i(1,3) rows(1) fits selected 1] i(2) rows valid 1 by auto
      qed (use i ic selected valid in \<open>simp add: replace_column_values_def\<close>)
    qed (use i sel bounds in \<open>auto simp: replace_column_values_def\<close>)
  qed (simp add: replace_column_values_def)
qed

section \<open>Changes of the schema\<close>

lemma length_remove_nth: "i < length xs \<Longrightarrow> length (remove_nth i xs) = length xs - 1"
  by (simp add: remove_nth_def)

lemma map_remove_nth: "map f (remove_nth i xs) = remove_nth i (map f xs)"
  by (simp add: remove_nth_def take_map drop_map)

lemma zip_remove_nth: "length xs = length ys \<Longrightarrow> remove_nth i (zip xs ys) = zip (remove_nth i xs) (remove_nth i ys)"
  by (simp add: remove_nth_def take_zip drop_zip zip_append)

lemma set_remove_nth: "i < length xs \<Longrightarrow> set (remove_nth i xs) = {xs ! j | j. j < length xs \<and> j \<noteq> i}"
proof -
  assume i: "i < length xs"
  have "set (take i xs) = {xs ! j | j. j < i}"
    using nth_image [of i xs, symmetric] i by auto
  moreover have "set (drop (Suc i) xs) = {xs ! j | j. i < j \<and> j < length xs}"
  proof (intro set_eqI iffI)
    fix x assume "x \<in> set (drop (Suc i) xs)"
    then obtain k where "k < length xs - Suc i" "x = xs ! (Suc i + k)" by (auto simp: in_set_conv_nth)
    then show "x \<in> {xs ! j | j. i < j \<and> j < length xs}" by (auto intro!: exI [of _ "Suc i + k"])
  next
    fix x assume "x \<in> {xs ! j | j. i < j \<and> j < length xs}"
    then obtain j where j: "i < j" "j < length xs" "x = xs ! j" by auto
    then have "drop (Suc i) xs ! (j - Suc i) = x" "j - Suc i < length (drop (Suc i) xs)" by simp_all
    then show "x \<in> set (drop (Suc i) xs)" by (metis nth_mem)
  qed
  ultimately show ?thesis using i unfolding remove_nth_def by (auto simp: set_append) (metis linorder_neqE_nat)
qed

lemma distinct_remove_nth: "distinct xs \<Longrightarrow> distinct (remove_nth i xs)"
  by (simp add: remove_nth_def set_take_disj_set_drop_if_distinct)

lemma set_remove_nth_subset: "set (remove_nth i xs) \<subseteq> set xs"
  by (auto simp: remove_nth_def dest: in_set_takeD in_set_dropD)

lemma names_ok_remove: "names_ok names \<Longrightarrow> names_ok (remove_nth i names)"
  using set_remove_nth_subset [of i names] by (auto simp: names_ok_def map_remove_nth distinct_remove_nth list_all_iff)

lemma names_ok_update:
  assumes "names_ok names" "i < length names" "new_name name (remove_nth i names)"
  shows "names_ok (names[i := name])"
proof -
  have "map to_ascii_lowercase name \<notin> (\<lambda>other. map to_ascii_lowercase other) ` set (remove_nth i names)"
    using assms(3) by (auto simp: new_name_def list_ex_iff eq_ignore_ascii_case_def)
  then have "map to_ascii_lowercase name \<noteq> map to_ascii_lowercase (names ! j)" if "j < length names" "j \<noteq> i" for j
    using that assms(2) by (auto simp: set_remove_nth)
  then have "map to_ascii_lowercase name \<notin> set (map (map to_ascii_lowercase) names) - {map (map to_ascii_lowercase) names ! i}"
    using assms(2) by (force simp: in_set_conv_nth)
  then have "distinct (map (map to_ascii_lowercase) (names[i := name]))"
    using assms(1) by (simp add: names_ok_def map_update distinct_list_update)
  then show ?thesis
    using assms(1,3) set_update_subset_insert [of names i name] by (auto simp: names_ok_def new_name_def list_all_iff)
qed

lemma names_ok_append: "names_ok names \<Longrightarrow> new_name name names \<Longrightarrow> names_ok (names @ [name])"
  by (auto simp: names_ok_def new_name_def list_ex_iff eq_ignore_ascii_case_def)

lemma schema_names: "table_core_ok t \<Longrightarrow> map (cd_name \<circ> fst) (rt_fields (row_table_of t)) = map cd_name (bt_schema t)"
  using core_cells(2) [of t] by (simp add: row_table_of_def flip: map_map)

lemma list_ex_others:
  assumes "i < length xs"
  shows "list_ex (\<lambda>(j, x). j \<noteq> i \<and> P x) (enumerate 0 xs) \<longleftrightarrow> list_ex P (remove_nth i xs)"
  using assms by (auto simp: list_ex_iff set_remove_nth in_set_enumerate_eq) blast+

text \<open>A name passes the checks of a rename or an addition exactly when it is new.\<close>

lemma name_checks:
  "res_bind (validate_sql_identifier name ''column name'') (\<lambda>_.
     if is_reserved_column_name name then Inl (Failed (ReservedIdentifier name ''column name''))
     else if list_ex (\<lambda>other. eq_ignore_ascii_case other name) others then Inl (Failed (DuplicateColumn name)) else r) =
   (if new_name name others then r
    else Inl (Failed (if \<not> is_valid_sql_identifier name then InvalidIdentifier name ''column name''
      else if is_reserved_column_name name then ReservedIdentifier name ''column name'' else DuplicateColumn name)))"
  by (simp add: validate_sql_identifier_def new_name_def)

lemma rename_refines:
  assumes "batch_table_ok t"
  shows "step_refines (map_sum id (Pair 0) (rename_column t source destination))
    (spec_step (row_table_of t) (RenameColumn source destination))"
proof -
  have core: "table_core_ok t" and ok: "columns_ok t" using assms(1) by (simp_all add: batch_table_ok_def table_core_ok_def)
  show ?thesis
  proof (rule column_index_cases [OF core, of source])
    fix i assume i: "batch_column_index t source = Inr i" "find_field (rt_fields (row_table_of t)) source = Some i"
      "i < length (bt_schema t)"
    let ?t = "t\<lparr>bt_schema := (bt_schema t)[i := (bt_schema t ! i)\<lparr>cd_name := destination\<rparr>], bt_partitions := None\<rparr>"
    let ?new = "new_name destination (map cd_name (remove_nth i (bt_schema t)))"
    have others: "map (cd_name \<circ> fst) (remove_nth i (rt_fields (row_table_of t))) = map cd_name (remove_nth i (bt_schema t))"
      using schema_names [OF core] by (simp add: map_remove_nth)
    have "list_ex (\<lambda>(j, field). j \<noteq> i \<and> eq_ignore_ascii_case (cd_name field) destination) (enumerate 0 (bt_schema t)) \<longleftrightarrow>
        list_ex (\<lambda>other. eq_ignore_ascii_case other destination) (map cd_name (remove_nth i (bt_schema t)))"
      using list_ex_others [OF i(3), of "\<lambda>field. eq_ignore_ascii_case (cd_name field) destination"] by (simp add: list_ex_iff)
    then have step: "rename_column t source destination =
        (if ?new then Inr ?t
         else Inl (Failed (if \<not> is_valid_sql_identifier destination then InvalidIdentifier destination ''column name''
           else if is_reserved_column_name destination then ReservedIdentifier destination ''column name''
           else DuplicateColumn destination)))"
      unfolding rename_column_def i(1) by (simp only: res_bind.simps name_checks)
    show ?thesis
    proof (cases ?new)
      case True
      have "names_ok (map cd_name (bt_schema ?t))"
        using names_ok_update [of "map cd_name (bt_schema t)" i destination] True core i(3)
        by (simp add: table_core_ok_def map_update map_remove_nth)
      moreover have "map cd_type (bt_schema ?t) = map cd_type (bt_schema t)"
        using i(3) by (intro nth_equalityI) (auto simp: nth_list_update)
      ultimately have "table_core_ok ?t"
        using core by (simp add: table_core_ok_def columns_ok_def table_bytes_def)
      then have "batch_table_ok ?t"
        using assms by (auto simp: batch_table_ok_def index_ok_def partitions_ok_def split: option.splits)
      moreover have "rt_fields (row_table_of ?t) =
          (rt_fields (row_table_of t))[i := apfst (cd_name_update (\<lambda>_. destination)) (rt_fields (row_table_of t) ! i)]"
        using i(3) core_cells(2) [OF core] by (intro nth_equalityI) (auto simp: row_table_of_def nth_list_update)
      ultimately show ?thesis using True i(2) others step by (simp add: row_table_of_def table_rows_def)
    next
      case False
      then show ?thesis using i(2) others step by simp
    qed
  qed (simp add: rename_column_def)
qed

lemma add_validated:
  assumes "table_core_ok t"
  shows "validate_add_column t field = Inr () \<longleftrightarrow>
      new_name (cd_name field) (map cd_name (bt_schema t)) \<and> length (bt_schema t) < bl_max_columns (bt_limits t) \<and>
      bt_row_count t * (length (bt_schema t) + 1) \<le> bl_max_cells (bt_limits t)"
    and "validate_add_column t field \<noteq> Inl Panicked"
proof -
  have lim: "length (bt_schema t) \<le> bl_max_columns (bt_limits t)" "bl_max_columns (bt_limits t) < usize_max"
    "bl_max_cells (bt_limits t) < usize_max"
    using assms by (simp_all add: table_core_ok_def table_limits_ok_def)
  have count: "saturating_add (length (bt_schema t)) 1 = length (bt_schema t) + 1"
    using lim(1,2) by (intro saturating_add_id) linarith
  have cells: "bl_max_cells (bt_limits t) < saturating_mul k n \<longleftrightarrow> \<not> k * n \<le> bl_max_cells (bt_limits t)" for k n
    using lim(3) by (auto simp: saturating_mul_def min_def not_le)
  have names: "list_ex (\<lambda>f. eq_ignore_ascii_case (cd_name f) (cd_name field)) (bt_schema t) \<longleftrightarrow>
      list_ex (\<lambda>other. eq_ignore_ascii_case other (cd_name field)) (map cd_name (bt_schema t))"
    by (simp add: list_ex_iff)
  show "validate_add_column t field = Inr () \<longleftrightarrow>
      new_name (cd_name field) (map cd_name (bt_schema t)) \<and> length (bt_schema t) < bl_max_columns (bt_limits t) \<and>
      bt_row_count t * (length (bt_schema t) + 1) \<le> bl_max_cells (bt_limits t)"
    unfolding validate_add_column_def names name_checks Let_def count cells by auto
  show "validate_add_column t field \<noteq> Inl Panicked"
    unfolding validate_add_column_def names name_checks Let_def by simp
qed

lemma cells_rows_add:
  "cells_rows (css @ [replicate n v]) n = map (\<lambda>row. row @ [v]) (cells_rows css n)"
  by (simp add: cells_rows_def o_def)

lemma publish_added_refines:
  assumes "batch_table_ok t" "validate_add_column t field = Inr ()"
    "column_cells c = replicate (bt_row_count t) (default_cell (field, is_nullable_column c))"
    "column_type c = cd_type field" "list_all (cell_fits (column_type c) (is_nullable_column c)) (column_cells c)"
    "list_all cell_small (column_cells c)"
  shows "\<exists>t'. publish_added_column t field c = (Inr t' :: 'e failure + _) \<and> batch_table_ok t' \<and>
    spec_add (row_table_of t) (field, is_nullable_column c) = Some (0, row_table_of t')"
proof -
  have core: "table_core_ok t" and ok: "columns_ok t" using assms(1) by (simp_all add: batch_table_ok_def table_core_ok_def)
  let ?bytes = "u128_add (bt_value_bytes t) (column_value_bytes c)"
  let ?t = "t\<lparr>bt_schema := bt_schema t @ [field], bt_columns := bt_columns t @ [c], bt_value_bytes := ?bytes\<rparr>"
  note len = core_cells(2) [OF core]
  note valid = assms(2) [unfolded add_validated(1) [OF core]]
  have c_ok: "column_len c = bt_row_count t" "column_ok c"
    using assms(3,5,6) by (simp_all add: column_len_cells column_ok_def)
  have "(\<Sum>d\<leftarrow>bt_columns t @ [c]. column_bytes d) \<le> u128_max"
  proof (rule columns_bytes_bound [of "bt_row_count t"])
    show "list_all (\<lambda>c. column_len c = bt_row_count t \<and> column_ok c) (bt_columns t @ [c])"
      using core_columns [OF core] c_ok by simp
    have "bl_max_cells (bt_limits t) < usize_max" using core by (simp add: table_core_ok_def table_limits_ok_def)
    then show "bt_row_count t * length (bt_columns t @ [c]) \<le> usize_max" using valid len by simp
  qed
  then have bytes: "?bytes = (\<Sum>d\<leftarrow>bt_columns t @ [c]. column_bytes d)"
    using core by (simp add: u128_add_def table_core_ok_def table_bytes_def column_value_bytes_exact)
  have total_bytes: "bt_value_bytes ?t = table_bytes ?t" using bytes by (simp add: table_bytes_def)
  have aligned: "columns_ok ?t" using core c_ok assms(4) by (simp add: table_core_ok_def columns_ok_def)
  have core': "table_core_ok ?t"
    using core valid total_bytes aligned names_ok_append [of "map cd_name (bt_schema t)" "cd_name field"]
    by (simp add: table_core_ok_def)
  have fits: "index_fits ?t"
    using assms(1) index_ok_fits [of t] by (auto simp: index_fits_def batch_table_ok_def nth_append split: option.split)
  have rows: "rt_rows (row_table_of ?t) = map (\<lambda>row. row @ [default_cell (field, is_nullable_column c)]) (rt_rows (row_table_of t))"
    by (simp add: assms(3) cells_rows_add)
  have spec: "spec_add (row_table_of t) (field, is_nullable_column c) = Some (0, row_table_of ?t)"
    using valid rows len by (simp add: spec_add_def schema_names [OF core] length_rt_fields [OF core])
      (simp add: row_table_of_def table_rows_def)
  show ?thesis
  proof (rule mark_values_mutated_ok [OF fits core', where 'e = 'e])
    fix t' assume "mark_values_mutated ?t = (Inr t' :: 'e failure + _)" "batch_table_ok t'" "row_table_of t' = row_table_of ?t"
    then show ?thesis using spec by (simp add: publish_added_column_def)
  qed
qed

lemma spec_add_refused:
  assumes "table_core_ok t" "validate_add_column t field \<noteq> Inr ()"
  shows "spec_add (row_table_of t) (field, n) = None"
  using assms by (auto simp: add_validated(1) spec_add_def schema_names length_rt_fields)

lemma add_refines:
  assumes "batch_table_ok t"
  shows "step_refines (map_sum id (Pair 0) (add_column t field)) (spec_step (row_table_of t) (AddColumn field))"
proof -
  have core: "table_core_ok t" using assms(1) by (simp add: batch_table_ok_def)
  let ?c = "default_column (cd_type field) (bt_row_count t)"
  have c: "list_all (cell_fits (column_type ?c) (is_nullable_column ?c)) (column_cells ?c)" "list_all cell_small (column_cells ?c)"
    using default_fits [of "column_new (cd_type field)"] default_small [of "column_new (cd_type field)"]
    by (simp_all add: default_column_cells list_all_iff)
  show ?thesis
  proof (cases rule: unit_result_cases [OF add_validated(2) [OF core, of field]])
    case 1
    then show ?thesis
      using publish_added_refines [OF assms 1 _ _ c, where 'e = batch_error]
      by (auto simp: add_column_def default_column_cells)
  qed (use spec_add_refused [OF core] in \<open>simp add: add_column_def\<close>)
qed

lemma add_nullable_refines:
  assumes "batch_table_ok t"
  shows "step_refines (map_sum id (Pair 0) (add_nullable_int64_column t name))
    (spec_step (row_table_of t) (AddNullableColumn name))"
proof -
  have core: "table_core_ok t" using assms(1) by (simp add: batch_table_ok_def)
  let ?c = "NullableInt64Column (replicate (bt_row_count t) None)"
  have c: "list_all (cell_fits (column_type ?c) (is_nullable_column ?c)) (column_cells ?c)" "list_all cell_small (column_cells ?c)"
    by (simp_all add: list_all_iff nullable_scalar_def)
  show ?thesis
  proof (cases rule: unit_result_cases [OF add_validated(2) [OF core, of "int64_field name"]])
    case 1
    then show ?thesis
      using publish_added_refines [OF assms 1 _ _ c, where 'e = batch_error]
      by (auto simp: add_nullable_int64_column_def int64_field_def nullable_scalar_def)
  qed (use spec_add_refused [OF core] in \<open>simp add: add_nullable_int64_column_def\<close>)
qed

lemma sum_list_remove_nth:
  fixes xs :: "nat list"
  assumes "i < length xs"
  shows "sum_list (remove_nth i xs) = sum_list xs - xs ! i"
proof -
  have "sum_list xs = sum_list (take i xs @ xs ! i # drop (Suc i) xs)" using assms by (simp add: id_take_nth_drop [symmetric])
  then show ?thesis by (simp add: remove_nth_def)
qed

lemma drop_refines:
  assumes "batch_table_ok t"
  shows "step_refines (map_sum id (Pair 0) (drop_column t name)) (spec_step (row_table_of t) (DropColumn name))"
proof -
  have core: "table_core_ok t" and ok: "columns_ok t" using assms(1) by (simp_all add: batch_table_ok_def table_core_ok_def)
  show ?thesis
  proof (rule column_index_cases [OF core, of name])
    fix i assume i: "batch_column_index t name = Inr i" "find_field (rt_fields (row_table_of t)) name = Some i"
      "i < length (bt_schema t)"
    note len = core_cells(2) [OF core] length_rt_fields [OF core]
    let ?t = "t\<lparr>bt_schema := remove_nth i (bt_schema t), bt_columns := remove_nth i (bt_columns t),
      bt_value_bytes := bt_value_bytes t - column_value_bytes (bt_columns t ! i), bt_index := None, bt_partitions := None,
      bt_generation := bt_generation t + 1\<rparr>"
    show ?thesis
    proof (cases "length (bt_schema t) = 1")
      case True
      then show ?thesis using i len by (simp add: drop_column_def)
    next
      case False
      have step: "drop_column t name = Inr ?t"
        using False i len by (simp add: drop_column_def remove_at_def remove_nth_def)
      have "column_bytes (bt_columns t ! i) \<le> table_bytes t"
        using i(3) len unfolding table_bytes_def by (intro member_bytes) simp
      then have bytes: "bt_value_bytes t - column_value_bytes (bt_columns t ! i) = (\<Sum>c\<leftarrow>remove_nth i (bt_columns t). column_bytes c)"
        using core core_bytes [OF core] i(3) len
        by (simp add: column_value_bytes_exact table_core_ok_def map_remove_nth sum_list_remove_nth table_bytes_def)
      have "length (bt_schema t) - 1 \<noteq> 0" using False i(3) by linarith
      then have nonempty: "remove_nth i (bt_schema t) \<noteq> []" using length_remove_nth [OF i(3)] by (metis list.size(3))
      have fewer: "bt_row_count t * (length (bt_schema t) - 1) \<le> bl_max_cells (bt_limits t)"
        using core mult_le_mono2 [of "length (bt_schema t) - 1" "length (bt_schema t)" "bt_row_count t"]
        unfolding table_core_ok_def by linarith
      have "list_all (\<lambda>c. column_len c = bt_row_count t \<and> column_ok c) (remove_nth i (bt_columns t))"
        using core_columns [OF core] set_remove_nth_subset [of i "bt_columns t"] by (auto simp: list_all_iff)
      then have aligned: "columns_ok ?t" using core by (simp add: table_core_ok_def columns_ok_def map_remove_nth)
      have total_bytes: "bt_value_bytes ?t = table_bytes ?t" using bytes by (simp add: table_bytes_def)
      have "length (bt_schema t) - 1 \<le> bl_max_columns (bt_limits t)" using core unfolding table_core_ok_def by linarith
      then have "table_core_ok ?t"
        using core nonempty fewer names_ok_remove [of "map cd_name (bt_schema t)" i] length_remove_nth [OF i(3)] aligned total_bytes
        by (simp add: table_core_ok_def map_remove_nth)
      then have "batch_table_ok ?t" by (simp add: batch_table_ok_def index_ok_def partitions_ok_def)
      moreover have "cells_rows (map column_cells (remove_nth i (bt_columns t))) n = map (remove_nth i) (cells_rows (map column_cells (bt_columns t)) n)" for n
        by (simp add: cells_rows_def map_remove_nth o_def)
      ultimately show ?thesis
        using False i(2) len step by (simp add: row_table_of_def table_rows_def zip_remove_nth map_remove_nth)
    qed
  qed (simp add: drop_column_def)
qed

section \<open>Index\<close>

lemma create_index_refines:
  assumes "batch_table_ok t"
  shows "step_refines (map_sum id (apfst index_created) (try_create_min_max_index t name limits))
    (spec_step (row_table_of t) (CreateIndex name limits))"
proof -
  have core: "table_core_ok t" and ok: "columns_ok t" using assms(1) by (simp_all add: batch_table_ok_def table_core_ok_def)
  show ?thesis
  proof (rule column_index_cases [OF core, of name])
    fix i assume i: "batch_column_index t name = Inr i" "find_field (rt_fields (row_table_of t)) name = Some i"
      "i < length (bt_schema t)"
    have ic: "i < length (bt_columns t)" using i(3) core_cells(2) [OF core] by simp
    have field: "fst (rt_fields (row_table_of t) ! i) = bt_schema t ! i" using i(3) ic by (simp add: row_table_of_def)
    show ?thesis
    proof (cases "cd_type (bt_schema t ! i) = TInt64")
      case False
      then show ?thesis using i field by (simp add: try_create_min_max_index_def)
    next
      case True
      then have type: "column_type (bt_columns t ! i) = TInt64" using column_type_schema [OF ok i(3)] by simp
      show ?thesis
      proof (cases "mm_block_rows limits = 0")
        case zero: True
        then show ?thesis using i field True assms by (simp add: try_create_min_max_index_def index_admissible_def)
      next
        case pos: False
        show ?thesis
        proof (rule build_index_cases [OF ic type, of limits])
          fix x assume x: "build_min_max_index t i limits = Inr x" "mi_column x = i" "mi_limits x = limits"
            "index_admissible (bt_row_count t) limits"
          let ?t = "t\<lparr>bt_index := Some x\<rparr>"
          have "min_max_index_info ?t \<noteq> None" using x(2) i(3) by (simp add: min_max_index_info_def slice_get_def)
          then obtain info where "min_max_index_info ?t = Some info" by blast
          then have "try_create_min_max_index t name limits = Inr (IndexCreated info, ?t)"
            using i True pos x(1) by (simp add: try_create_min_max_index_def Let_def)
          moreover have "batch_table_ok ?t"
            using assms x(1-3) by (simp add: batch_table_ok_def index_ok_def)
          ultimately show ?thesis using i(2) field True x(4) by simp
        next
          fix e assume "build_min_max_index t i limits = Inl (Failed e)" "\<not> index_admissible (bt_row_count t) limits"
          then show ?thesis using i field True pos assms by (simp add: try_create_min_max_index_def)
        qed (use pos in simp)
      qed
    qed
  qed (simp add: try_create_min_max_index_def)
qed

lemma drop_index_refines:
  assumes "batch_table_ok t"
  shows "step_refines (Inr (0, snd (drop_min_max_index t))) (spec_step (row_table_of t) DropIndex)"
  using assms by (simp add: drop_min_max_index_def batch_table_ok_def index_ok_def)

lemma set_name_refines:
  assumes "batch_table_ok t" "is_valid_sql_identifier name"
  shows "step_refines (Inr (0, set_name t name)) (spec_step (row_table_of t) (SetName name))"
  using assms
  by (auto simp: set_name_def batch_table_ok_def index_ok_def partitions_ok_def table_core_ok_def columns_ok_def
      table_bytes_def row_table_of_def table_rows_def split: option.splits)

section \<open>Inserted columns\<close>

lemma schema_index_find:
  assumes "table_core_ok t"
  shows "schema_index_by_name t (map to_ascii_lowercase name) = find_field (rt_fields (row_table_of t)) name"
proof -
  let ?keys = "map (\<lambda>(i, field). (map to_ascii_lowercase (cd_name field), i)) (enumerate 0 (bt_schema t))"
  have "map fst ?keys = map (map to_ascii_lowercase) (map cd_name (bt_schema t))"
    by (rule nth_equalityI) (simp_all add: nth_enumerate_eq)
  then have "distinct (map fst ?keys)" using assms by (simp only: table_core_ok_def names_ok_def)
  then have "distinct (map fst (rev ?keys))" by (simp only: rev_map [symmetric] distinct_rev)
  then have "map_of (rev ?keys) k = Some i \<longleftrightarrow> i < length (bt_schema t) \<and> map to_ascii_lowercase (cd_name (bt_schema t ! i)) = k" for k i
    by (auto simp: map_of_eq_Some_iff image_iff in_set_enumerate_eq intro!: bexI [of _ "(i, bt_schema t ! i)"])
  then have lookup: "schema_index_by_name t (map to_ascii_lowercase name) = Some i \<longleftrightarrow>
      i < length (bt_schema t) \<and> eq_ignore_ascii_case (cd_name (bt_schema t ! i)) name" for i
    by (simp add: schema_index_by_name_def eq_ignore_ascii_case_def)
  show ?thesis
  proof (rule column_index_cases [OF assms, of name])
    fix i assume "find_field (rt_fields (row_table_of t)) name = Some i" "i < length (bt_schema t)"
      "eq_ignore_ascii_case (cd_name (bt_schema t ! i)) name"
    then show ?thesis using lookup [of i] by simp
  next
    fix e assume "find_field (rt_fields (row_table_of t)) name = None"
      "list_all (\<lambda>field. \<not> eq_ignore_ascii_case (cd_name field) name) (bt_schema t)"
    then show ?thesis using lookup by (cases "schema_index_by_name t (map to_ascii_lowercase name)") (auto simp: list_all_length)
  qed
qed

lemma resolve_insert_columns_iff:
  assumes "table_core_ok t"
  shows "resolve_insert_columns t seen names = Inr positions \<longleftrightarrow>
      those (map (find_field (rt_fields (row_table_of t))) names) = Some positions \<and> distinct positions \<and>
      set positions \<inter> set seen = {}"
    and "resolve_insert_columns t seen names \<noteq> Inl Panicked"
proof -
  show "resolve_insert_columns t seen names = Inr positions \<longleftrightarrow>
      those (map (find_field (rt_fields (row_table_of t))) names) = Some positions \<and> distinct positions \<and>
      set positions \<inter> set seen = {}"
  proof (induction names arbitrary: seen positions)
    case (Cons name names)
    then show ?case
      by (auto simp: schema_index_find [OF assms] result_simps map_option_case split: option.splits)
  qed auto
  show "resolve_insert_columns t seen names \<noteq> Inl Panicked"
    by (induction t seen names rule: resolve_insert_columns.induct) (auto simp: result_simps split: option.splits)
qed

lemma assign_fold:
  "list_all (\<lambda>(v, i). i < length xs) pairs \<Longrightarrow>
    try_fold (\<lambda>xs (v, i). index_set xs i (g v)) xs pairs = Inr (update_cells (map (\<lambda>(v, i). (i, g v)) pairs) xs)"
  by (induction pairs arbitrary: xs) (auto simp: index_set_def)

lemma find_index: "find P [0..<n] = Some j \<Longrightarrow> j < n \<and> P j"
  by (auto simp: find_Some_iff)

lemma map_of_positions:
  assumes "distinct positions" "length vs = length positions"
  shows "map_of (zip positions vs) k = map_option (\<lambda>j. vs ! j) (find (\<lambda>j. positions ! j = k) [0..<length positions])"
proof (cases "find (\<lambda>j. positions ! j = k) [0..<length positions]")
  case None
  then have "k \<notin> set positions" by (auto simp: find_None_iff in_set_conv_nth)
  then show ?thesis using None assms(2) by (simp add: map_of_zip_is_None)
next
  case (Some j)
  then have "j < length positions" "positions ! j = k" by (auto simp: find_Some_iff)
  then show ?thesis using Some assms map_of_zip_nth [of positions vs j] by simp
qed

text \<open>Values assigned to distinct positions.\<close>

lemma assign_positions:
  assumes "distinct positions" "list_all (\<lambda>i. i < length xs) positions" "length vs = length positions"
  shows "try_fold (\<lambda>xs (v, i). index_set xs i (g v)) xs (zip vs positions) =
    Inr (map (\<lambda>k. case find (\<lambda>j. positions ! j = k) [0..<length positions] of None \<Rightarrow> xs ! k | Some j \<Rightarrow> g (vs ! j))
      [0..<length xs])"
proof -
  have swap: "map (\<lambda>(v, i). (i, g v)) (zip vs positions) = zip positions (map g vs)"
    using assms(3) by (intro nth_equalityI) simp_all
  have inside: "list_all (\<lambda>(v, i). i < length xs) (zip vs positions)"
    using assms(2) by (auto simp: list_all_iff dest: set_zip_rightD)
  have "distinct (map fst (zip positions (map g vs)))" using assms(1,3) by simp
  then have "update_cells (zip positions (map g vs)) xs =
      map (\<lambda>k. case find (\<lambda>j. positions ! j = k) [0..<length positions] of None \<Rightarrow> xs ! k | Some j \<Rightarrow> g (vs ! j)) [0..<length xs]"
    using assms(1,3) by (intro nth_equalityI)
      (auto simp: nth_update_cells map_of_positions dest: find_index split: option.split)
  then show ?thesis using assign_fold [OF inside, of g] unfolding swap by simp
qed

definition inputs_of :: "nat \<Rightarrow> usize list \<Rightarrow> usize option list" where
  "inputs_of n positions = map (\<lambda>k. find (\<lambda>j. positions ! j = k) [0..<length positions]) [0..<n]"

lemma input_indexes_eq:
  assumes "distinct positions" "list_all (\<lambda>i. i < n) positions"
  shows "input_indexes n positions = Inr (inputs_of n positions)"
proof -
  have "enumerate 0 positions = zip [0..<length positions] positions" by (simp add: enumerate_eq_zip)
  moreover have "map (\<lambda>k. case find (\<lambda>j. positions ! j = k) [0..<length positions] of
        None \<Rightarrow> replicate n None ! k | Some j \<Rightarrow> Some ([0..<length positions] ! j)) [0..<n] = inputs_of n positions"
    unfolding inputs_of_def by (intro map_cong) (auto dest: find_index split: option.split)
  ultimately show ?thesis
    using assign_positions [OF assms(1), of "replicate n None" "[0..<length positions]" Some] assms(2)
    by (simp add: input_indexes_def)
qed

lemma default_cell_field:
  assumes "table_core_ok t" "k < length (bt_schema t)"
  shows "default_cell (rt_fields (row_table_of t) ! k) = default_value (bt_columns t ! k)"
    and "field_fits (rt_fields (row_table_of t) ! k) (default_cell (rt_fields (row_table_of t) ! k))"
proof -
  let ?c = "bt_columns t ! k"
  have type: "column_type ?c = cd_type (bt_schema t ! k)"
    using assms by (intro column_type_schema) (simp_all add: table_core_ok_def)
  have field: "rt_fields (row_table_of t) ! k = (bt_schema t ! k, is_nullable_column ?c)"
    using assms core_cells(2) [of t] by (simp add: row_table_of_def)
  show "default_cell (rt_fields (row_table_of t) ! k) = default_value ?c"
    unfolding field using type by (cases ?c) (simp_all flip: type)
  then show "field_fits (rt_fields (row_table_of t) ! k) (default_cell (rt_fields (row_table_of t) ! k))"
    using default_fits [of ?c] type field by simp
qed

lemma projected_row_eq:
  assumes "table_core_ok t" "distinct positions" "list_all (\<lambda>i. i < length (bt_schema t)) positions"
    "length row = length positions" "content_ok t cs n"
  shows "projected_row (with_columns t cs n) positions row =
    (Inr (complete_row (rt_fields (row_table_of t)) positions row) :: 'e failure + _)"
proof -
  let ?xs = "map (default_value \<circ> snd) (zip (bt_schema t) cs)"
  note len = content_kinds(3) [OF assms(5)] core_cells(2) [OF assms(1)] length_rt_fields [OF assms(1)]
  have default: "?xs ! k = default_cell (rt_fields (row_table_of t) ! k)" if k: "k < length (bt_schema t)" for k
  proof -
    have "same_kind (cs ! k) (bt_columns t ! k)" using assms(5) k len by (auto simp: content_ok_def list_all2_conv_all_nth)
    then have "default_value (cs ! k) = default_value (bt_columns t ! k)"
      by (cases "cs ! k"; cases "bt_columns t ! k") (simp_all add: same_kind_def)
    then show ?thesis using default_cell_field(1) [OF assms(1) k] k len by simp
  qed
  have "try_fold (\<lambda>xs (v, i). index_set xs i v) ?xs (zip row positions) =
      (Inr (map (\<lambda>k. case find (\<lambda>j. positions ! j = k) [0..<length positions] of None \<Rightarrow> ?xs ! k | Some j \<Rightarrow> row ! j)
        [0..<length ?xs]) :: 'e failure + _)"
    using assign_positions [OF assms(2) _ assms(4), of ?xs "\<lambda>v. v"] assms(3) len by simp
  also have "map (\<lambda>k. case find (\<lambda>j. positions ! j = k) [0..<length positions] of None \<Rightarrow> ?xs ! k | Some j \<Rightarrow> row ! j)
        [0..<length ?xs] = complete_row (rt_fields (row_table_of t)) positions row"
    unfolding complete_row_def using len default by (intro map_cong) (auto split: option.split)
  finally have "try_fold (\<lambda>xs (v, i). index_set xs i v) ?xs (zip row positions) =
      (Inr (complete_row (rt_fields (row_table_of t)) positions row) :: 'e failure + _)" .
  then show ?thesis by (simp only: projected_row_def with_columns_simps)
qed

lemma projected_values_iff:
  assumes "table_core_ok t" "distinct positions" "list_all (\<lambda>i. i < length (bt_schema t)) positions"
  shows "validate_values t (projected_values t (inputs_of (length (bt_schema t)) positions) row) = Inr () \<longleftrightarrow>
      row_fits (row_table_of t) (complete_row (rt_fields (row_table_of t)) positions row)"
    and "validate_values t (projected_values t (inputs_of (length (bt_schema t)) positions) row) \<noteq> Inl Panicked"
proof -
  let ?n = "length (bt_schema t)" and ?find = "\<lambda>k. find (\<lambda>j. positions ! j = k) [0..<length positions]"
  let ?items = "projected_values t (inputs_of ?n positions) row"
  have ok: "columns_ok t" using assms(1) by (simp add: table_core_ok_def)
  note len = core_cells(2) [OF assms(1)] length_rt_fields [OF assms(1)]
  have set_items: "set ?items = {(k, bt_schema t ! k, row ! j) | k j. k < ?n \<and> ?find k = Some j}"
    unfolding projected_values_def List.map_filter_def inputs_of_def
    by (auto simp: in_set_enumerate_eq image_iff) force
  have items: "list_all (\<lambda>(column, field, v). column < length (bt_columns t) \<and> column_type (bt_columns t ! column) = cd_type field) ?items"
    using column_type_schema [OF ok] len by (auto simp: list_all_iff set_items)
  have fields: "rt_fields (row_table_of t) ! k = (bt_schema t ! k, is_nullable_column (bt_columns t ! k))" if "k < ?n" for k
    using that len by (simp add: row_table_of_def)
  have "row_fits (row_table_of t) (complete_row (rt_fields (row_table_of t)) positions row) \<longleftrightarrow>
      (\<forall>k < ?n. case ?find k of None \<Rightarrow> True | Some j \<Rightarrow> cell_fits (cd_type (bt_schema t ! k)) (is_nullable_column (bt_columns t ! k)) (row ! j))"
    unfolding row_fits_iff [OF ok] complete_row_def
    using default_cell_field(2) [OF assms(1)] len fields by (auto split: option.split)
  also have "\<dots> \<longleftrightarrow> (\<forall>(column, field, v) \<in> set ?items. cell_fits (cd_type field) (is_nullable_column (bt_columns t ! column)) v)"
    by (auto simp: set_items split: option.split)
  also have "\<dots> \<longleftrightarrow> validate_values t ?items = Inr ()"
    using validate_values_iff(1) [OF items] by (simp add: list_all_iff)
  finally show "validate_values t ?items = Inr () \<longleftrightarrow> row_fits (row_table_of t) (complete_row (rt_fields (row_table_of t)) positions row)"
    by blast
  show "validate_values t ?items \<noteq> Inl Panicked" by (rule validate_values_iff(2) [OF items])
qed

lemma complete_row_all:
  assumes "length row = length fs"
  shows "complete_row fs [0..<length fs] row = row"
proof (rule nth_equalityI)
  fix k assume "k < length (complete_row fs [0..<length fs] row)"
  then have k: "k < length fs" by (simp add: complete_row_def)
  have "find (\<lambda>j. [0..<length fs] ! j = k) [0..<length [0..<length fs]] = Some k"
    unfolding find_Some_iff by (rule exI [of _ k]) (use k in simp)
  then show "complete_row fs [0..<length fs] row ! k = row ! k" using k by (simp add: complete_row_def)
qed (simp add: complete_row_def assms)

lemma complete_row_small:
  assumes "table_core_ok t" "list_all cell_small row" "length row = length positions"
  shows "list_all cell_small (complete_row (rt_fields (row_table_of t)) positions row)"
proof -
  have "cell_small (default_cell (rt_fields (row_table_of t) ! k))" if "k < length (bt_schema t)" for k
    using default_cell_field(1) [OF assms(1) that] default_small by simp
  then show ?thesis
    using assms(2,3) length_rt_fields [OF assms(1)]
    by (auto simp: complete_row_def list_all_length dest: find_index split: option.split)
qed

lemma append_projected_rows:
  assumes "table_core_ok t" "distinct positions" "list_all (\<lambda>i. i < length (bt_schema t)) positions"
    "content_ok t cs n" "list_all (\<lambda>row. length row = length positions) rows"
    "list_all (row_fits (row_table_of t)) (map (complete_row (rt_fields (row_table_of t)) positions) rows)"
    "list_all (list_all cell_small) (map (complete_row (rt_fields (row_table_of t)) positions) rows)"
    "(n + length rows) * length (bt_schema t) \<le> usize_max"
  shows "try_fold (\<lambda>t source. res_bind (projected_row t positions source) (append_validated_row t)) (with_columns t cs n) rows =
    (try_fold append_validated_row (with_columns t cs n) (map (complete_row (rt_fields (row_table_of t)) positions) rows) :: 'e failure + _)"
  using assms(4-)
proof (induction rows arbitrary: cs n)
  case (Cons row rows)
  let ?row = "complete_row (rt_fields (row_table_of t)) positions row"
  have "Suc n * length (bt_schema t) \<le> (n + length (row # rows)) * length (bt_schema t)" by (intro mult_le_mono1) simp
  then have small: "Suc n * length (bt_schema t) \<le> usize_max" using Cons.prems(5) by linarith
  obtain cs1 where cs1: "append_validated_row (with_columns t cs n) ?row = (Inr (with_columns t cs1 (Suc n)) :: 'e failure + _)"
    "content_ok t cs1 (Suc n)"
    by (rule append_validated_row_cells [OF assms(1) Cons.prems(1) _ _ small, of ?row]) (use Cons.prems in simp_all)
  have "projected_row (with_columns t cs n) positions row = (Inr ?row :: 'e failure + _)"
    using Cons.prems by (intro projected_row_eq [OF assms(1-3)]) simp_all
  then show ?case using Cons.IH [OF cs1(2)] Cons.prems cs1(1) by simp
qed simp

lemma those_positions:
  assumes "table_core_ok t" "those (map (find_field (rt_fields (row_table_of t))) names) = Some positions"
  shows "list_all (\<lambda>i. i < length (bt_schema t)) positions" "length positions = length names"
proof -
  have "list_all (\<lambda>i. i < length (bt_schema t)) positions \<and> length positions = length names"
    using assms(2)
  proof (induction names arbitrary: positions)
    case (Cons name names)
    obtain i rest where i: "find_field (rt_fields (row_table_of t)) name = Some i" "positions = i # rest"
      "those (map (find_field (rt_fields (row_table_of t))) names) = Some rest"
      using Cons.prems by (auto split: option.splits)
    have "i < length (bt_schema t)"
      by (rule column_index_cases [OF assms(1), of name]) (use i(1) in simp_all)
    then show ?case using Cons.IH [OF i(3)] i(2) by simp
  qed simp
  then show "list_all (\<lambda>i. i < length (bt_schema t)) positions" "length positions = length names" by simp_all
qed

lemma widths_iff: "validate_row_widths t width rows = Inr () \<longleftrightarrow> list_all (\<lambda>row. length row = width) rows"
  "validate_row_widths t width rows \<noteq> Inl Panicked"
proof -
  have "find (\<lambda>row. length row \<noteq> width) rows = None \<longleftrightarrow> list_all (\<lambda>row. length row = width) rows"
    by (auto simp: find_None_iff list_all_iff)
  then show "validate_row_widths t width rows = Inr () \<longleftrightarrow> list_all (\<lambda>row. length row = width) rows"
    by (auto simp: validate_row_widths_def split: option.split)
  show "validate_row_widths t width rows \<noteq> Inl Panicked" by (simp add: validate_row_widths_def split: option.split)
qed

text \<open>Rows of the named fields are prepared exactly when the completed rows fit.\<close>

lemma prepare_projected_iff:
  assumes "table_core_ok t" "distinct positions" "list_all (\<lambda>i. i < length (bt_schema t)) positions"
  shows "prepare_projected_rows_with_capacity t positions rows capacity_rows = Inr p \<longleftrightarrow>
      list_all (\<lambda>row. length row = length positions) rows \<and> row_capacity (row_table_of t) capacity_rows \<and>
      list_all (row_fits (row_table_of t)) (map (complete_row (rt_fields (row_table_of t)) positions) rows) \<and>
      p = \<lparr>pi_rows = rows, pi_schema_indexes = (if positions = [0..<length (bt_schema t)] then None else Some positions)\<rparr>"
    and "prepare_projected_rows_with_capacity t positions rows capacity_rows \<noteq> Inl Panicked"
proof -
  let ?inputs = "inputs_of (length (bt_schema t)) positions"
  let ?check = "try_fold (\<lambda>_ row. validate_values t (projected_values t ?inputs row)) () rows"
  have check: "?check = Inr () \<longleftrightarrow>
      list_all (row_fits (row_table_of t)) (map (complete_row (rt_fields (row_table_of t)) positions) rows)" "?check \<noteq> Inl Panicked"
    by (induction rows) (auto simp: result_simps projected_values_iff [OF assms])
  note defs = prepare_projected_rows_with_capacity_def input_indexes_eq [OF assms(2,3)]
  show "prepare_projected_rows_with_capacity t positions rows capacity_rows = Inr p \<longleftrightarrow>
      list_all (\<lambda>row. length row = length positions) rows \<and> row_capacity (row_table_of t) capacity_rows \<and>
      list_all (row_fits (row_table_of t)) (map (complete_row (rt_fields (row_table_of t)) positions) rows) \<and>
      p = \<lparr>pi_rows = rows, pi_schema_indexes = (if positions = [0..<length (bt_schema t)] then None else Some positions)\<rparr>"
    using check(1) by (auto simp: defs result_simps widths_iff row_capacity_iff [OF assms(1)])
  show "prepare_projected_rows_with_capacity t positions rows capacity_rows \<noteq> Inl Panicked"
    using check(2) by (auto simp: defs result_simps widths_iff row_capacity_iff [OF assms(1)])
qed

lemma append_prepared_ok:
  assumes "batch_table_ok t" "distinct positions" "list_all (\<lambda>i. i < length (bt_schema t)) positions"
    "list_all (\<lambda>row. length row = length positions) rows" "list_all (list_all cell_small) rows"
    "row_capacity (row_table_of t) (length rows)"
    "list_all (row_fits (row_table_of t)) (map (complete_row (rt_fields (row_table_of t)) positions) rows)"
  shows "\<exists>t'. append_prepared_insert_rows t \<lparr>pi_rows = rows,
        pi_schema_indexes = (if positions = [0..<length (bt_schema t)] then None else Some positions)\<rparr> = (Inr t' :: 'e failure + _) \<and>
    batch_table_ok t' \<and>
    row_table_of t' = (row_table_of t)\<lparr>rt_rows :=
      rt_rows (row_table_of t) @ map (complete_row (rt_fields (row_table_of t)) positions) rows\<rparr>"
proof -
  let ?complete = "complete_row (rt_fields (row_table_of t)) positions"
  have core: "table_core_ok t" using assms(1) by (simp add: batch_table_ok_def)
  have small: "list_all (list_all cell_small) (map ?complete rows)"
    using assms(4,5) complete_row_small [OF core] by (auto simp: list_all_iff)
  obtain t' where t': "append_validated_rows t (map ?complete rows) = (Inr t' :: 'e failure + _)" "batch_table_ok t'"
    "row_table_of t' = (row_table_of t)\<lparr>rt_rows := rt_rows (row_table_of t) @ map ?complete rows\<rparr>"
    by (rule append_validated_rows_ok [OF assms(1) _ assms(7) small, where 'e = 'e]) (use assms(6) in simp)
  have "append_prepared_insert_rows t \<lparr>pi_rows = rows,
        pi_schema_indexes = (if positions = [0..<length (bt_schema t)] then None else Some positions)\<rparr> =
      (append_validated_rows t (map ?complete rows) :: 'e failure + _)"
  proof (cases "positions = [0..<length (bt_schema t)]")
    case True
    then have "map ?complete rows = rows"
      using assms(4) complete_row_all [of _ "rt_fields (row_table_of t)"] length_rt_fields [OF core]
      by (auto simp: list_all_iff intro: map_idI)
    then show ?thesis using True by (simp add: append_prepared_insert_rows_def)
  next
    case False
    have "bl_max_cells (bt_limits t) < usize_max" using core by (simp add: table_core_ok_def table_limits_ok_def)
    then have "(bt_row_count t + length rows) * length (bt_schema t) \<le> usize_max"
      using assms(6) length_rt_fields [OF core] by (simp add: row_capacity_def)
    from append_projected_rows [OF core assms(2,3) with_columns_same(2) [OF core] assms(4,7) small this, where 'e = 'e]
    show ?thesis
      using False by (simp add: append_prepared_insert_rows_def append_validated_rows_def with_columns_same(1) [OF core])
  qed
  then show ?thesis using t' by auto
qed

lemma capacity_mono: "row_capacity s n \<Longrightarrow> m \<le> n \<Longrightarrow> row_capacity s m"
  using mult_le_mono1 [of "length (rt_rows s) + m" "length (rt_rows s) + n" "length (rt_fields s)"]
  unfolding row_capacity_def by linarith

lemma insert_all_refines:
  assumes "batch_table_ok t" "list_all (list_all cell_small) rows" "length rows \<le> capacity_rows"
  shows "step_refines (table_step t (InsertInto None rows capacity_rows))
    (spec_step (row_table_of t) (InsertInto None rows capacity_rows))"
proof -
  have core: "table_core_ok t" and ok: "columns_ok t" using assms(1) by (simp_all add: batch_table_ok_def table_core_ok_def)
  note capacity = row_capacity_iff [OF core, of capacity_rows] and valid = validate_rows_iff [OF ok, of rows]
  show ?thesis
  proof (cases rule: unit_result_cases [OF capacity(2)])
    case 1
    note admitted = this
    show ?thesis
    proof (cases rule: unit_result_cases [OF valid(2)])
      case 1
      have "row_capacity (row_table_of t) (length rows)" using admitted capacity(1) assms(3) capacity_mono by simp
      then obtain t' where "append_validated_rows t rows = (Inr t' :: batch_table batch_result)" "batch_table_ok t'"
        "row_table_of t' = (row_table_of t)\<lparr>rt_rows := rt_rows (row_table_of t) @ rows\<rparr>"
        by (rule append_validated_rows_ok [OF assms(1) _ _ assms(2), where 'e = batch_error]) (use 1 valid(1) in simp_all)
      then show ?thesis
        using admitted 1 capacity(1) valid(1)
        by (simp add: prepare_insert_rows_def spec_insert_def append_prepared_insert_rows_def)
    qed (use admitted valid(1) in \<open>simp add: prepare_insert_rows_def spec_insert_def\<close>)
  qed (use capacity(1) in \<open>simp add: prepare_insert_rows_def spec_insert_def\<close>)
qed

lemma insert_into_refines:
  assumes "batch_table_ok t" "list_all (list_all cell_small) rows" "length rows \<le> capacity_rows"
  shows "step_refines (table_step t (InsertInto (Some names) rows capacity_rows))
    (spec_step (row_table_of t) (InsertInto (Some names) rows capacity_rows))"
proof -
  have core: "table_core_ok t" using assms(1) by (simp add: batch_table_ok_def)
  let ?fs = "rt_fields (row_table_of t)"
  note resolved = resolve_insert_columns_iff [OF core, of "[]" names]
  consider (empty) "names = []"
    | (unresolved) e where "names \<noteq> []" "resolve_insert_columns t [] names = Inl (Failed e)"
    | (positions) positions where "names \<noteq> []" "resolve_insert_columns t [] names = Inr positions"
    using resolved(2) by (cases "resolve_insert_columns t [] names"; cases "projl (resolve_insert_columns t [] names)") auto
  then show ?thesis
  proof cases
    case empty
    then show ?thesis using core by (simp add: prepare_insert_rows_def table_core_ok_def)
  next
    case unresolved
    then have "\<not> (\<exists>positions. those (map (find_field ?fs) names) = Some positions \<and> distinct positions)"
      using resolved(1) by auto
    then have "spec_step (row_table_of t) (InsertInto (Some names) rows capacity_rows) = None" by (auto split: option.split)
    then show ?thesis using unresolved by (simp add: prepare_insert_rows_def)
  next
    case positions
    then have p: "those (map (find_field ?fs) names) = Some positions" "distinct positions" using resolved(1) by auto
    note inside = those_positions [OF core p(1)]
    let ?prepared = "prepare_projected_rows_with_capacity t positions rows capacity_rows"
    note prepared = prepare_projected_iff [OF core p(2) inside(1), of rows capacity_rows]
    have spec: "spec_step (row_table_of t) (InsertInto (Some names) rows capacity_rows) =
        (if list_all (\<lambda>row. length row = length positions) rows
         then spec_insert (row_table_of t) capacity_rows (map (complete_row ?fs positions) rows) else None)"
      using positions(1) p inside(2) by simp
    have step: "table_step t (InsertInto (Some names) rows capacity_rows) =
        res_bind (validate_row_widths t (length positions) rows) (\<lambda>_.
        res_bind ?prepared (\<lambda>p. map_sum id (Pair 0) (append_prepared_insert_rows t p)))"
      using positions inside(2)
      by (cases "validate_row_widths t (length positions) rows") (simp_all add: prepare_insert_rows_def)
    show ?thesis
    proof (cases rule: unit_result_cases [OF widths_iff(2) [of t "length positions" rows]])
      case 1
      then have widths: "list_all (\<lambda>row. length row = length positions) rows" by (simp add: widths_iff)
      consider (refused) e where "?prepared = Inl (Failed e)" | (accepted) q where "?prepared = Inr q"
        using prepared(2) by (cases ?prepared; cases "projl ?prepared") auto
      then show ?thesis
      proof cases
        case refused
        then have "\<not> (row_capacity (row_table_of t) capacity_rows \<and>
            list_all (row_fits (row_table_of t)) (map (complete_row ?fs positions) rows))"
          using prepared(1) widths by auto
        then show ?thesis unfolding step spec using 1 refused by (auto simp: spec_insert_def)
      next
        case accepted
        note q = accepted [unfolded prepared(1)]
        have "row_capacity (row_table_of t) (length rows)" using q assms(3) capacity_mono by blast
        from append_prepared_ok [OF assms(1) p(2) inside(1) widths assms(2) this, where 'e = batch_error] q
        obtain t' where "append_prepared_insert_rows t q = (Inr t' :: batch_table batch_result)" "batch_table_ok t'"
          "row_table_of t' = (row_table_of t)\<lparr>rt_rows := rt_rows (row_table_of t) @ map (complete_row ?fs positions) rows\<rparr>"
          by auto
        then show ?thesis unfolding step spec using 1 accepted widths q by (simp add: spec_insert_def)
      qed
    next
      case (2 e)
      then show ?thesis using widths_iff(1) [of t "length positions" rows] unfolding step spec by simp
    qed
  qed
qed

section \<open>Every step\<close>

lemma step_refines_operation: "batch_table_ok t \<Longrightarrow> op_ok op \<Longrightarrow> step_refines (table_step t op) (spec_step (row_table_of t) op)"
proof (cases op)
  case (InsertInto names rows capacity_rows)
  assume *: "batch_table_ok t" "op_ok op"
  show ?thesis
    using * InsertInto insert_all_refines [of t rows capacity_rows] insert_into_refines [of t rows capacity_rows]
    by (cases names) auto
next
  case (InsertRow row)
  assume "batch_table_ok t" "op_ok op"
  then show ?thesis using InsertRow insert_rows_refines [of t "[row]"] by (simp add: insert_row_rows)
next
  case (InsertRows rows)
  assume "batch_table_ok t" "op_ok op"
  then show ?thesis using InsertRows insert_rows_refines [of t rows] by simp
qed (simp_all only: table_step.simps op_ok.simps replace_refines delete_rows_refines truncate_refines rename_refines add_refines
    add_nullable_refines drop_refines create_index_refines drop_index_refines set_name_refines)

end
