(* ===== verification/Batch_Index.thy ===== *)
theory Batch_Index
  imports Batch_Table_Inv
begin

text \<open>
  The sparse index and the partitions prune no row that matches: a block bounds the values of its rows, an index
  that was built from the columns always has the layout the scan checks, and a partition bounds the values of
  its rows.
\<close>

section \<open>Chunks\<close>

lemma div_ceil_step:
  assumes "0 < n" "0 < (l :: nat)"
  shows "div_ceil l n = Suc (div_ceil (l - n) n)"
proof (cases "n \<le> l")
  case True
  then have "l div n = Suc ((l - n) div n)" "(l - n) mod n = l mod n"
    using assms(1) by (simp_all add: le_div_geq le_mod_geq)
  then show ?thesis by (simp add: div_ceil_def)
next
  case False
  then show ?thesis using assms by (simp add: div_ceil_def)
qed

lemma row_chunks_Nil [simp]: "row_chunks n [] = []"
  by (simp add: row_chunks.simps)

lemma length_row_chunks: "0 < n \<Longrightarrow> length (row_chunks n xs) = div_ceil (length xs) n"
proof (induction n xs rule: row_chunks.induct)
  case (1 n xs)
  show ?case
  proof (cases "xs = []")
    case False
    then have "length (row_chunks n xs) = Suc (div_ceil (length xs - n) n)"
      using 1 by (simp add: row_chunks.simps [of n xs])
    then show ?thesis using False 1(2) by (simp add: div_ceil_step)
  qed (simp add: div_ceil_def)
qed

lemma nth_row_chunks: "k < length (row_chunks n xs) \<Longrightarrow> row_chunks n xs ! k = take n (drop (k * n) xs)"
proof (induction n xs arbitrary: k rule: row_chunks.induct)
  case (1 n xs)
  then have ne: "n \<noteq> 0" "xs \<noteq> []" by (auto simp: row_chunks.simps [of n xs] split: if_splits)
  show ?case
  proof (cases k)
    case 0
    then show ?thesis using ne by (simp add: row_chunks.simps [of n xs])
  next
    case (Suc j)
    then have "row_chunks n (drop n xs) ! j = take n (drop (j * n) (drop n xs))"
      using 1 ne by (intro 1(1)) (simp_all add: row_chunks.simps [of n xs])
    then show ?thesis using Suc ne by (simp add: row_chunks.simps [of n xs] add.commute)
  qed
qed

lemma chunk_position:
  assumes "0 < n" "k < div_ceil l n"
  shows "k * n < l"
proof (cases "l mod n = 0")
  case True
  then have "Suc k \<le> l div n" using assms(2) by (simp add: div_ceil_def)
  then have "Suc k * n \<le> l div n * n" by (rule mult_le_mono1)
  also have "\<dots> \<le> l" by simp
  finally show ?thesis using assms(1) by simp
next
  case False
  then have "k \<le> l div n" using assms(2) by (simp add: div_ceil_def)
  then have "k * n \<le> l div n * n" by (rule mult_le_mono1)
  also have "\<dots> < l" using False by (metis div_mult_mod_eq less_add_same_cancel1 neq0_conv)
  finally show ?thesis .
qed

lemma row_chunk: "0 < n \<Longrightarrow> i < (l :: nat) \<Longrightarrow> i div n < div_ceil l n"
proof -
  assume n: "0 < n" and i: "i < l"
  then have "i div n \<le> l div n" by (intro div_le_mono) simp
  moreover have "i div n < l div n" if "l mod n = 0"
  proof -
    have "i < l div n * n" using that i by (metis add_0_right div_mult_mod_eq)
    then show ?thesis by (simp add: less_mult_imp_div_less)
  qed
  ultimately show ?thesis by (auto simp: div_ceil_def)
qed

lemma nth_in_chunk:
  assumes "p \<le> i" "i < p + n" "i < length xs"
  shows "xs ! i \<in> set (take n (drop p xs))"
proof -
  obtain j where j: "i = p + j" using assms(1) le_Suc_ex by blast
  then have "take n (drop p xs) ! j = xs ! i" "j < length (take n (drop p xs))" using assms(2,3) by simp_all
  then show ?thesis by (metis nth_mem)
qed

section \<open>Blocks\<close>

definition block_summary :: "min_max_block \<Rightarrow> usize \<Rightarrow> nullable_i64 list \<Rightarrow> bool" where
  "block_summary b first_row vs \<longleftrightarrow>
     mb_first_row b = first_row \<and> mb_row_count b = length vs \<and> mb_null_count b = length (filter (\<lambda>v. v = None) vs) \<and>
     (mb_min b = None \<longleftrightarrow> mb_max b = None) \<and>
     (\<forall>v. Some v \<in> set vs \<longrightarrow> (\<exists>lo hi. mb_min b = Some lo \<and> mb_max b = Some hi \<and> sint lo \<le> sint v \<and> sint v \<le> sint hi)) \<and>
     (\<forall>lo. mb_min b = Some lo \<longrightarrow> Some lo \<in> set vs)"

lemma summarize_block_summary: "length vs \<le> usize_max \<Longrightarrow> block_summary (summarize_block first_row vs) first_row vs"
proof (induction vs rule: rev_induct)
  case Nil
  then show ?case by (simp add: summarize_block_def block_summary_def)
next
  case (snoc v vs)
  let ?b = "summarize_block first_row vs"
  have b: "block_summary ?b first_row vs" using snoc by simp
  have step: "summarize_block first_row (vs @ [v]) = summarize_value ?b v" by (simp add: summarize_block_def)
  have small: "saturating_add (length vs) 1 = Suc (length vs)" using snoc.prems by (simp add: saturating_add_id)
  show ?case
  proof (cases v)
    case None
    have "length vs + 1 \<le> usize_max" using snoc.prems by simp
    then have "length (filter (\<lambda>v. v = None) vs) + 1 \<le> usize_max"
      using length_filter_le [of "\<lambda>v. v = None" vs] by linarith
    then have "saturating_add (length (filter (\<lambda>v. v = None) vs)) 1 = Suc (length (filter (\<lambda>v. v = None) vs))"
      by (simp add: saturating_add_id)
    then show ?thesis using b small None unfolding step by (auto simp: block_summary_def)
  next
    case (Some x)
    show ?thesis
    proof (cases "mb_min ?b")
      case None
      then have "mb_max ?b = None" "\<And>v. Some v \<notin> set vs" using b by (auto simp: block_summary_def)
      then show ?thesis using b small None Some unfolding step by (auto simp: block_summary_def)
    next
      case lo: (Some lo)
      then obtain hi where hi: "mb_max ?b = Some hi" using b by (cases "mb_max ?b") (auto simp: block_summary_def)
      have "sint lo \<le> sint v \<and> sint v \<le> sint hi" if "Some v \<in> set vs" for v
        using b that lo hi by (auto simp: block_summary_def)
      moreover have "Some lo \<in> set vs" using b lo by (auto simp: block_summary_def)
      ultimately show ?thesis using b small lo hi Some unfolding step by (fastforce simp: block_summary_def)
    qed
  qed
qed

lemma nth_summarize_blocks:
  assumes "0 < n" "length vs \<le> usize_max" "k < div_ceil (length vs) n"
  shows "block_summary (summarize_blocks n vs ! k) (k * n) (take n (drop (k * n) vs))"
proof -
  have k: "k < length (row_chunks n vs)" using assms by (simp add: length_row_chunks)
  have "k * n < length vs" using assms by (intro chunk_position) simp_all
  then have "saturating_mul k n = k * n" using assms(2) by (simp add: saturating_mul_def)
  then have "summarize_blocks n vs ! k = summarize_block (k * n) (take n (drop (k * n) vs))"
    using k by (simp add: summarize_blocks_def nth_enumerate_eq nth_row_chunks)
  then show ?thesis using assms(2) by (simp add: summarize_block_summary)
qed

lemma length_summarize_blocks: "0 < n \<Longrightarrow> length (summarize_blocks n vs) = div_ceil (length vs) n"
  by (simp add: summarize_blocks_def length_row_chunks)

lemma summary_layout:
  assumes "block_summary b (k * n) (take n (drop (k * n) vs))" "mi_indexed_rows i = length vs" "mm_block_rows (mi_limits i) = n"
    "k * n < length vs" "length vs \<le> usize_max"
  shows "valid_block_layout i k b"
proof -
  let ?ws = "take n (drop (k * n) vs)"
  have first: "saturating_mul k n = k * n" using assms(4,5) by (simp add: saturating_mul_def)
  have nulls: "mb_null_count b \<le> mb_row_count b"
    using assms(1) length_filter_le [of "\<lambda>v. v = None" ?ws] unfolding block_summary_def by argo
  have strict: "length (filter (\<lambda>v. v = None) ?ws) < length ?ws" if "Some v \<in> set ?ws" for v
    using length_filter_less [OF that, of "\<lambda>v. v = None"] by simp
  have all: "filter (\<lambda>v. v = None) ?ws = ?ws" if "\<And>v. Some v \<notin> set ?ws"
    using that by (intro filter_True) (metis option.exhaust)
  show ?thesis
  proof (cases "mb_min b")
    case None
    then have "mb_max b = None" "\<And>v. Some v \<notin> set ?ws" using assms(1) by (auto simp: block_summary_def)
    then show ?thesis
      using None assms(1-3) first all nulls by (simp add: valid_block_layout_def block_summary_def Let_def min.commute)
  next
    case (Some lo)
    then have lo: "Some lo \<in> set ?ws" using assms(1) by (simp add: block_summary_def)
    then obtain hi where "mb_max b = Some hi" "sint lo \<le> sint hi" using assms(1) Some by (auto simp: block_summary_def)
    then show ?thesis
      using Some assms(1-3) first strict [OF lo] nulls by (simp add: valid_block_layout_def block_summary_def Let_def min.commute)
  qed
qed

section \<open>An index built from the columns\<close>

definition int64_cells_at :: "batch_table \<Rightarrow> usize \<Rightarrow> nullable_i64 list" where
  "int64_cells_at t column = the (int64_cells (bt_columns t ! column))"

lemma built_index:
  assumes "build_min_max_index t column limits = Inr i" "columns_ok t" "bt_row_count t \<le> usize_max"
  shows "mi_column i = column" "mi_limits i = limits" "mi_indexed_rows i = bt_row_count t" "mi_generation i = bt_generation t"
    "mi_blocks i = summarize_blocks (mm_block_rows limits) (int64_cells_at t column)"
    "length (int64_cells_at t column) = bt_row_count t" "0 < mm_block_rows limits" "index_has_valid_layout i"
proof -
  note fits = build_index_fits [OF assms(1)]
  obtain vs where vs: "int64_cells (bt_columns t ! column) = Some vs" using int64_cells_type fits(5) by blast
  have len: "length vs = column_len (bt_columns t ! column)" using vs by (cases "bt_columns t ! column") auto
  then have rows: "length vs = bt_row_count t"
    using assms(2) fits(4) by (simp add: columns_ok_def list_all_length)
  have i: "i = \<lparr>mi_column = column, mi_limits = limits, mi_indexed_rows = bt_row_count t, mi_generation = bt_generation t,
      mi_blocks = summarize_blocks (mm_block_rows limits) vs\<rparr>"
    using assms(1) vs fits(4) by (auto simp: build_min_max_index_def Let_def split: if_splits)
  show "mi_column i = column" "mi_limits i = limits" "mi_indexed_rows i = bt_row_count t" "mi_generation i = bt_generation t"
    "mi_blocks i = summarize_blocks (mm_block_rows limits) (int64_cells_at t column)"
    "length (int64_cells_at t column) = bt_row_count t" "0 < mm_block_rows limits"
    using i vs rows fits(3) by (simp_all add: int64_cells_at_def)
  have "valid_block_layout i k (summarize_blocks (mm_block_rows limits) vs ! k)" if "k < div_ceil (length vs) (mm_block_rows limits)" for k
    using that fits(3) assms(3) rows i
    by (intro summary_layout [of _ _ "mm_block_rows limits" vs] nth_summarize_blocks chunk_position) simp_all
  then show "index_has_valid_layout i"
    using fits(3) rows by (simp add: index_has_valid_layout_def i list_all_length nth_enumerate_eq length_summarize_blocks)
qed

section \<open>Scans\<close>

definition block_range :: "usize \<Rightarrow> usize \<Rightarrow> min_max_block \<Rightarrow> usize \<times> usize" where
  "block_range lower bound b = (max (mb_first_row b) lower, min (saturating_add (mb_first_row b) (mb_row_count b)) bound)"

lemma scan_block_range:
  "is_ranges (scan_block lower bound may_match s b) =
    (if fst (block_range lower bound b) < snd (block_range lower bound b) \<and> may_match b
     then is_ranges s @ [block_range lower bound b] else is_ranges s)"
  by (auto simp: scan_block_def block_range_def Let_def)

lemma scan_ranges:
  "is_ranges (foldl (scan_block lower bound may_match) s bs) =
    is_ranges s @ map (block_range lower bound)
      (filter (\<lambda>b. fst (block_range lower bound b) < snd (block_range lower bound b) \<and> may_match b) bs)"
  by (induction bs arbitrary: s) (simp_all add: scan_block_range)

text \<open>Disjoint ascending ranges inside the rows asked for, with every matching row among them.\<close>

definition ranges_cover :: "usize \<times> usize \<Rightarrow> nat \<Rightarrow> (nat \<Rightarrow> bool) \<Rightarrow> (usize \<times> usize) list \<Rightarrow> bool" where
  "ranges_cover asked n matches ranges \<longleftrightarrow>
     sorted_wrt (\<lambda>r r'. snd r \<le> fst r') ranges \<and>
     list_all (\<lambda>(a, b). fst asked \<le> a \<and> a < b \<and> b \<le> snd asked \<and> b \<le> n) ranges \<and>
     (\<forall>i. fst asked \<le> i \<and> i < snd asked \<and> i < n \<and> matches i \<longrightarrow> (\<exists>(a, b)\<in>set ranges. a \<le> i \<and> i < b))"

text \<open>What a scan asks of the test of a block: it accepts every block with a row that matches.\<close>

locale block_test =
  fixes matches :: "nullable_i64 \<Rightarrow> bool"
    and may_match :: "min_max_block \<Rightarrow> bool"
  assumes accepts: "block_summary b first_row vs \<Longrightarrow> v \<in> set vs \<Longrightarrow> matches v \<Longrightarrow> may_match b"
begin

lemma scan_covers:
  assumes "index_ok t" "columns_ok t" "bt_row_count t \<le> usize_max" "bt_index t = Some x"
  shows "\<exists>s. min_max_index_scan_with t (mi_column x) (lower, bound) may_match = Some s \<and>
    ranges_cover (lower, bound) (bt_row_count t) (\<lambda>i. matches (int64_cells_at t (mi_column x) ! i)) (is_ranges s)"
proof -
  let ?n = "mm_block_rows (mi_limits x)" and ?vs = "int64_cells_at t (mi_column x)"
  have "build_min_max_index t (mi_column x) (mi_limits x) = Inr x" using assms(1,4) by (simp add: index_ok_def)
  note built = built_index [OF this assms(2,3)]
  let ?keep = "\<lambda>b. fst (block_range lower bound b) < snd (block_range lower bound b) \<and> may_match b"
  let ?ranges = "map (block_range lower bound) (filter ?keep (mi_blocks x))"
  obtain s where s: "min_max_index_scan_with t (mi_column x) (lower, bound) may_match = Some s" "is_ranges s = ?ranges"
    using built assms(4) scan_ranges [of lower bound may_match "\<lparr>is_ranges = [], is_scanned_blocks = 0, is_pruned_blocks = 0\<rparr>" "mi_blocks x"]
    by (simp add: min_max_index_scan_with_def)
  have len: "length (mi_blocks x) = div_ceil (length ?vs) ?n" using built by (simp add: length_summarize_blocks)
  have blocks: "block_summary (mi_blocks x ! k) (k * ?n) (take ?n (drop (k * ?n) ?vs))" "k * ?n < length ?vs"
    if "k < length (mi_blocks x)" for k
    using that built assms(3) len by (auto intro: nth_summarize_blocks chunk_position)
  have range: "block_range lower bound (mi_blocks x ! k) = (max (k * ?n) lower, min (min (k * ?n + ?n) (length ?vs)) bound)"
    if "k < length (mi_blocks x)" for k
  proof -
    have "mb_first_row (mi_blocks x ! k) + mb_row_count (mi_blocks x ! k) = min (k * ?n + ?n) (length ?vs)"
      using blocks [OF that] by (auto simp: block_summary_def)
    moreover have "\<dots> \<le> usize_max" using built(6) assms(3) by simp
    ultimately show ?thesis using blocks(1) [OF that] by (simp add: block_range_def saturating_add_id block_summary_def)
  qed
  have sorted: "sorted_wrt (\<lambda>b b'. snd (block_range lower bound b) \<le> max (snd (block_range lower bound b)) 0 \<and>
      (?keep b \<and> ?keep b' \<longrightarrow> snd (block_range lower bound b) \<le> fst (block_range lower bound b'))) (mi_blocks x)"
  proof (unfold sorted_wrt_iff_nth_less, intro allI impI conjI)
    fix j k assume jk: "j < k" "k < length (mi_blocks x)"
    have "j * ?n + ?n \<le> k * ?n" using jk(1) by (metis Suc_leI add.commute mult_Suc mult_le_mono1)
    then show "snd (block_range lower bound (mi_blocks x ! j)) \<le> fst (block_range lower bound (mi_blocks x ! k))"
      using range [of j] range [of k] jk by simp
  qed simp
  have "sorted_wrt (\<lambda>r r'. snd r \<le> fst r') ?ranges"
    unfolding sorted_wrt_map
    by (rule sorted_wrt_mono_rel [OF _ sorted_wrt_filter [OF sorted, of ?keep]]) auto
  moreover have "list_all (\<lambda>(a, b). lower \<le> a \<and> a < b \<and> b \<le> bound \<and> b \<le> bt_row_count t) ?ranges"
  proof -
    have "lower \<le> fst r \<and> fst r < snd r \<and> snd r \<le> bound \<and> snd r \<le> bt_row_count t" if "r \<in> set ?ranges" for r
    proof -
      have "r \<in> block_range lower bound ` {b \<in> set (mi_blocks x). ?keep b}" using that by (simp only: set_map set_filter)
      then obtain b where b: "b \<in> set (mi_blocks x)" "r = block_range lower bound b" "fst r < snd r" by blast
      then obtain k where "k < length (mi_blocks x)" "b = mi_blocks x ! k" by (auto simp: in_set_conv_nth)
      then show ?thesis using b(2,3) range [of k] built(6) by simp
    qed
    then show ?thesis unfolding list_all_iff case_prod_unfold by blast
  qed
  moreover have "\<exists>(a, b)\<in>set ?ranges. a \<le> i \<and> i < b"
    if i: "lower \<le> i" "i < bound" "i < bt_row_count t" "matches (?vs ! i)" for i
  proof -
    let ?k = "i div ?n"
    have k: "?k < length (mi_blocks x)" using i(3) built(6,7) len by (simp add: row_chunk)
    have pos: "?k * ?n \<le> i" "i < ?k * ?n + ?n"
      using dividend_less_times_div [OF built(7), of i] by (simp_all add: mult.commute add.commute)
    have "?vs ! i \<in> set (take ?n (drop (?k * ?n) ?vs))"
      by (rule nth_in_chunk [OF pos]) (simp add: i(3) built(6))
    then have may: "may_match (mi_blocks x ! ?k)" using accepts blocks(1) [OF k] i(4) by blast
    have r: "block_range lower bound (mi_blocks x ! ?k) = (max (?k * ?n) lower, min (min (?k * ?n + ?n) (length ?vs)) bound)"
      by (rule range [OF k])
    then have "?keep (mi_blocks x ! ?k)" 
      using may pos i built(6,7) le_less_trans [OF pos(1) i(2)] le_less_trans [OF pos(1) i(3)] by simp
    then have "block_range lower bound (mi_blocks x ! ?k) \<in> set ?ranges"
      unfolding set_map set_filter using nth_mem [OF k] by blast
    then show ?thesis using r pos i built(6) by (intro bexI [of _ "block_range lower bound (mi_blocks x ! ?k)"]) simp_all
  qed
  ultimately show ?thesis using s by (auto simp: ranges_cover_def)
qed

end

section \<open>Matching values\<close>

fun filter_matches :: "int64_filter \<Rightarrow> i64 \<Rightarrow> bool" where
  "filter_matches (FilterEqual w) v \<longleftrightarrow> v = w"
| "filter_matches (FilterLess w) v \<longleftrightarrow> sint v < sint w"
| "filter_matches (FilterLessOrEqual w) v \<longleftrightarrow> sint v \<le> sint w"
| "filter_matches (FilterGreater w) v \<longleftrightarrow> sint v > sint w"
| "filter_matches (FilterGreaterOrEqual w) v \<longleftrightarrow> sint v \<ge> sint w"
| "filter_matches (FilterInclusiveRange lower upper) v \<longleftrightarrow> sint lower \<le> sint v \<and> sint v \<le> sint upper"

definition cell_matches :: "int64_filter \<Rightarrow> nullable_i64 \<Rightarrow> bool" where
  "cell_matches flt v \<longleftrightarrow> (case v of None \<Rightarrow> False | Some x \<Rightarrow> filter_matches flt x)"

lemma block_may_match_sound:
  assumes "block_summary b first_row vs" "v \<in> set vs" "cell_matches flt v"
  shows "block_may_match b flt"
proof -
  obtain x where x: "v = Some x" "filter_matches flt x" using assms(3) by (auto simp: cell_matches_def split: option.splits)
  then obtain lo hi where "mb_min b = Some lo" "mb_max b = Some hi" "sint lo \<le> sint x" "sint x \<le> sint hi"
    using assms(1,2) by (auto simp: block_summary_def)
  then show ?thesis using x(2) by (cases flt) (auto simp: block_may_match_def)
qed

lemma block_may_match_nullness_sound:
  assumes "block_summary b first_row vs" "v \<in> set vs" "(v = None) = is_null"
  shows "block_may_match_nullness b is_null"
proof (cases is_null)
  case True
  then have "filter (\<lambda>v. v = None) vs \<noteq> []" using assms(2,3) by (auto simp: filter_empty_conv)
  then show ?thesis using True assms(1) by (simp add: block_may_match_nullness_def block_summary_def)
next
  case False
  then have "length (filter (\<lambda>v. v = None) vs) < length vs"
    using length_filter_less [OF assms(2), of "\<lambda>v. v = None"] assms(3) by simp
  then show ?thesis using False assms(1) by (simp add: block_may_match_nullness_def block_summary_def)
qed

interpretation value_test: block_test "cell_matches flt" "\<lambda>b. block_may_match b flt" for flt
  by unfold_locales (rule block_may_match_sound)

interpretation null_test: block_test "\<lambda>v. (v = None) = is_null" "\<lambda>b. block_may_match_nullness b is_null" for is_null
  by unfold_locales (rule block_may_match_nullness_sound)

section \<open>Partitions\<close>

lemma partition_of_row:
  assumes "partition_rows_ok start ps vs" "i < length vs"
  shows "\<exists>p\<in>set ps. pm_row_start p \<le> start + i \<and> start + i < pm_row_end p \<and>
    sint (pm_lower p) \<le> sint (vs ! i) \<and> sint (vs ! i) \<le> sint (pm_upper p)"
  using assms
proof (induction start ps vs arbitrary: i rule: partition_rows_ok.induct)
  case (2 start p ps vs)
  let ?n = "pm_row_end p - start"
  show ?case
  proof (cases "i < ?n")
    case True
    then have "vs ! i \<in> set (take ?n vs)" using 2(3) nth_in_chunk [of 0 i ?n vs] by simp
    then show ?thesis using 2(2) True by (auto simp: list_all_iff)
  next
    case False
    then obtain j where j: "i = ?n + j" using le_Suc_ex not_le by (metis not_less)
    then have "drop ?n vs ! j = vs ! i" "j < length (drop ?n vs)" using 2(2,3) by simp_all
    moreover have "pm_row_end p + j = start + i" using 2(2) j by simp
    ultimately show ?thesis using 2(1) [of j] 2(2) by fastforce
  qed
qed simp

lemma partition_order:
  assumes "partition_rows_ok start ps vs"
  shows "sorted_wrt (\<lambda>p q. pm_row_end p \<le> pm_row_start q) ps \<and>
    (\<forall>p\<in>set ps. start \<le> pm_row_start p \<and> pm_row_start p \<le> pm_row_end p \<and> pm_row_end p \<le> start + length vs)"
  using assms
proof (induction start ps vs rule: partition_rows_ok.induct)
  case (2 start p ps vs)
  then show ?case by fastforce
qed simp

lemma foldl_last: "foldl (\<lambda>_ p. f p) (f first) rest = f (last (first # rest))"
  by (induction rest arbitrary: first) auto

lemma partition_may_match_sound:
  assumes "sint (pm_lower p) \<le> sint v" "sint v \<le> sint (pm_upper p)" "filter_matches flt v"
  shows "partition_may_match p flt"
  using assms by (cases flt) auto

lemma partition_rows_cover:
  assumes "partitions_ok t" "int64_range_partition_rows t column flt = Some (a, b)" "columns_ok t"
  shows "a \<le> b \<and> b \<le> bt_row_count t \<and> column = 0 \<and> (\<exists>vs. bt_columns t = [Int64Column vs] \<and> length vs = bt_row_count t \<and>
    (\<forall>i < bt_row_count t. filter_matches flt (vs ! i) \<longrightarrow> a \<le> i \<and> i < b))"
proof -
  obtain s where s: "bt_partitions t = Some s" "ps_column s = column"
    using assms(2) by (auto simp: int64_range_partition_rows_def bind_eq_Some_conv split: if_splits)
  then obtain vs where vs: "bt_columns t = [Int64Column vs]" "column = 0" "partition_rows_ok 0 (ps_partitions s) vs"
    using assms(1) by (auto simp: partitions_ok_def elim: partitioned_column.elims)
  have len: "length vs = bt_row_count t" using assms(3) vs(1) by (simp add: columns_ok_def)
  note order = partition_order [OF vs(3)]
  let ?sel = "filter (\<lambda>p. partition_may_match p flt) (ps_partitions s)"
  have inside: "p \<in> set ?sel" if "p \<in> set (ps_partitions s)" "sint (pm_lower p) \<le> sint v" "sint v \<le> sint (pm_upper p)" "filter_matches flt v" for p v
    using that partition_may_match_sound by simp
  have found: "\<exists>p\<in>set ?sel. pm_row_start p \<le> i \<and> i < pm_row_end p" if "i < bt_row_count t" "filter_matches flt (vs ! i)" for i
    using partition_of_row [OF vs(3), of i] that inside len by auto
  show ?thesis
  proof (cases ?sel)
    case Nil
    then have "a = 0" "b = 0" using assms(2) s by (simp_all add: int64_range_partition_rows_def)
    then show ?thesis using found Nil vs len by auto
  next
    case (Cons first rest)
    have ab: "a = pm_row_start first" "b = pm_row_end (last ?sel)"
      using assms(2) s Cons by (simp_all add: int64_range_partition_rows_def foldl_last)
    have sorted: "sorted_wrt (\<lambda>p q. pm_row_end p \<le> pm_row_start q) (first # rest)"
      using order sorted_wrt_filter [of "\<lambda>p q. pm_row_end p \<le> pm_row_start q" "ps_partitions s"] Cons by metis
    have proper: "pm_row_start p \<le> pm_row_end p \<and> pm_row_end p \<le> bt_row_count t" if "p \<in> set (first # rest)" for p
    proof -
      have "p \<in> set (ps_partitions s)" using that Cons by (metis filter_is_subset subsetD)
      then show ?thesis using order len by simp
    qed
    have ends: "pm_row_start first \<le> pm_row_start p \<and> pm_row_end p \<le> pm_row_end (last (first # rest))" if "p \<in> set (first # rest)" for p
      using that sorted proper
    proof (induction rest arbitrary: first p)
      case (Cons q rest)
      have "pm_row_start q \<le> pm_row_start r \<and> pm_row_end r \<le> pm_row_end (last (q # rest))" if "r \<in> set (q # rest)" for r
        using Cons.IH [of r q] that Cons.prems(2,3) by simp
      moreover have "pm_row_end first \<le> pm_row_start q" "pm_row_start first \<le> pm_row_end first" "pm_row_start q \<le> pm_row_end q"
        using Cons.prems(2,3) by simp_all
      ultimately show ?case using Cons.prems(1) by (fastforce dest: order_trans)
    qed simp
    have "a \<le> b" using ends [of first] proper [of first] unfolding ab Cons by simp
    moreover have "b \<le> bt_row_count t" using proper [of "last (first # rest)"] unfolding ab Cons by simp
    moreover have "a \<le> i \<and> i < b" if i: "i < bt_row_count t" "filter_matches flt (vs ! i)" for i
    proof -
      obtain p where "p \<in> set (first # rest)" "pm_row_start p \<le> i" "i < pm_row_end p" using found [OF i] Cons by metis
      then show ?thesis using ends [of p] unfolding ab Cons by linarith
    qed
    ultimately show ?thesis using vs len by blast
  qed
qed

end
