(* ===== verification/Batch_Table_Spec.thy ===== *)
theory Batch_Table_Spec
  imports Batch_Table_Refine Batch_Index
begin

text \<open>
  What the tables of the second engine promise, for every table that any sequence of operations leads to: the
  invariant of their data and of the metadata derived from it, the rows they stand for, and scans that prune no
  row that matches.
\<close>

section \<open>New tables\<close>

lemma schema_checks_names:
  "schema_checks seen schema = Inr () \<Longrightarrow>
    names_ok (map cd_name schema) \<and> set (map (map to_ascii_lowercase) (map cd_name schema)) \<inter> set seen = {}"
  by (induction seen schema rule: schema_checks.induct)
    (auto simp: result_simps names_ok_def validate_sql_identifier_def split: if_splits)

lemma with_limits_core:
  assumes "table_limits_ok limits" "batch_table_with_limits name schema limits = Inr t"
  shows "table_core_ok t" "bt_schema t = schema" "bt_index t = None" "bt_partitions t = None" "bt_row_count t = 0"
    "bt_limits t = limits"
proof -
  have t: "t = \<lparr>bt_name = name, bt_schema = schema, bt_columns = map (column_new \<circ> cd_type) schema, bt_row_count = 0,
      bt_value_bytes = 0, bt_limits = limits, bt_generation = 0, bt_index = None, bt_partitions = None\<rparr>"
    "schema_checks [] schema = Inr ()" "schema \<noteq> []" "length schema \<le> bl_max_columns limits" "is_valid_sql_identifier name"
    using assms(2)
    by (auto simp: batch_table_with_limits_def result_simps validate_table_name_def validate_sql_identifier_def split: if_splits)
  show "table_core_ok t"
    using t assms(1) schema_checks_names [OF t(2)]
    by (auto simp: table_core_ok_def columns_ok_def table_bytes_def column_len_cells column_ok_def list_all_iff column_bytes_def o_def)
  show "bt_schema t = schema" "bt_index t = None" "bt_partitions t = None" "bt_row_count t = 0" "bt_limits t = limits"
    using t(1) by simp_all
qed

text \<open>A table of one column that is given its values.\<close>

lemma with_column_core:
  assumes "table_core_ok t" "bt_schema t = [int64_field column]" "bt_row_count t = 0" "validate_row_capacity t (column_len c) = Inr ()"
    "column_type c = TInt64" "column_ok c"
  shows "table_core_ok (t\<lparr>bt_row_count := column_len c, bt_value_bytes := column_bytes c, bt_columns := [c]\<rparr>)"
proof -
  have "row_capacity (row_table_of t) (column_len c)" using assms(4) row_capacity_iff(1) [OF assms(1)] by simp
  then have "column_len c \<le> bl_max_rows (bt_limits t) \<and> column_len c \<le> bl_max_cells (bt_limits t)"
    using assms(2,3) length_rt_fields [OF assms(1)] by (simp add: row_capacity_def row_table_of_def table_rows_def cells_rows_def)
  then show ?thesis using assms by (simp add: table_core_ok_def columns_ok_def int64_field_def) (simp add: table_bytes_def)
qed

lemma column_ok_int64: "column_ok (Int64Column vs)" "column_ok (NullableInt64Column ns)"
  by (auto simp: column_ok_def list_all_iff nullable_scalar_def split: option.split)

lemma column_bytes_int64: "column_bytes (Int64Column vs) = length vs * 8" "column_bytes (NullableInt64Column ns) = length ns * 9"
  by (simp_all add: column_bytes_def o_def sum_list_triv)

lemma capacity_rows_small:
  assumes "table_core_ok t" "validate_row_capacity t n = Inr ()"
  shows "n \<le> usize_max"
  using assms row_capacity_iff(1) [OF assms(1), of n] by (simp add: row_capacity_def table_core_ok_def table_limits_ok_def)

lemma u128_mul_small: "n \<le> usize_max \<Longrightarrow> k \<le> 9 \<Longrightarrow> u128_mul n k = n * k"
proof -
  assume n: "n \<le> usize_max" and k: "k \<le> 9"
  have "n * k \<le> usize_max * 9" using n k by (rule mult_le_mono)
  also have "\<dots> \<le> u128_max" by (simp add: usize_max_def u128_max_def)
  finally show ?thesis by (simp add: u128_mul_def)
qed

lemma with_int64_values_ok:
  assumes "table_limits_ok limits" "batch_table_with_int64_values name column vs limits = Inr t"
  shows "batch_table_ok t"
proof -
  obtain t0 where t0: "batch_table_with_limits name [int64_field column] limits = Inr t0" "validate_row_capacity t0 (length vs) = Inr ()"
    "t = t0\<lparr>bt_row_count := length vs, bt_value_bytes := u128_mul (length vs) 8, bt_columns := [Int64Column vs]\<rparr>"
    using assms(2) by (auto simp: batch_table_with_int64_values_def result_simps)
  note core = with_limits_core [OF assms(1) t0(1)]
  have "table_core_ok t"
    using with_column_core [OF core(1,2,5), of "Int64Column vs"] t0(2) capacity_rows_small [OF core(1) t0(2)]
    by (simp add: t0(3) column_ok_int64 column_bytes_int64 u128_mul_small)
  then show ?thesis using core t0(3) by (simp add: batch_table_ok_def index_ok_def partitions_ok_def)
qed

lemma with_nullable_values_ok:
  assumes "table_limits_ok limits" "batch_table_with_nullable_values name column vs limits = Inr t"
  shows "batch_table_ok t"
proof -
  obtain t0 where t0: "batch_table_with_limits name [int64_field column] limits = Inr t0" "validate_row_capacity t0 (length vs) = Inr ()"
    "t = t0\<lparr>bt_row_count := length vs, bt_value_bytes := u128_mul (length vs) 9, bt_columns := [NullableInt64Column vs]\<rparr>"
    using assms(2) by (auto simp: batch_table_with_nullable_values_def result_simps)
  note core = with_limits_core [OF assms(1) t0(1)]
  have "table_core_ok t"
    using with_column_core [OF core(1,2,5), of "NullableInt64Column vs"] t0(2) capacity_rows_small [OF core(1) t0(2)]
    by (simp add: t0(3) column_ok_int64 column_bytes_int64 u128_mul_small)
  then show ?thesis using core t0(3) by (simp add: batch_table_ok_def index_ok_def partitions_ok_def)
qed

lemma foldl_saturating: "foldl saturating_add a xs = (if xs = [] then a else min (a + sum_list xs) usize_max)"
  by (induction xs arbitrary: a) (auto simp: saturating_add_def min_def)

lemma validated_partitions_cover:
  assumes "validate_partitions_from i previous ps = Inr ()"
  shows "partition_rows_ok start (partition_rows_from start ps) (concat (map rp_values ps))"
  using assms
proof (induction i previous ps arbitrary: start rule: validate_partitions_from.induct)
  case (2 i previous p ps)
  have "validate_partitions_from (i + 1) (Some p) ps = Inr ()" "\<not> sint (rp_lower p) > sint (rp_upper p)"
    and out: "find (\<lambda>j. outside_partition p (rp_values p ! j)) [0..<length (rp_values p)] = None"
    using 2(2) by (auto simp: result_simps split: if_splits option.splits)
  moreover have "list_all (\<lambda>v. sint (rp_lower p) \<le> sint v \<and> sint v \<le> sint (rp_upper p)) (rp_values p)"
    using out by (auto simp: find_None_iff list_all_length outside_partition_def not_less) (metis leD)+
  ultimately show ?case using 2(1) by simp
qed simp

lemma with_partitions_ok:
  assumes "table_limits_ok limits" "pl_max_rows plimits < usize_max"
    "batch_table_with_partitions name column partitions plimits limits = Inr t"
  shows "batch_table_ok t"
proof -
  let ?vs = "concat (map rp_values partitions)" and ?rows = "foldl saturating_add 0 (map (length \<circ> rp_values) partitions)"
  obtain t0 where t0: "validate_partitions_from 0 None partitions = Inr ()"
    "batch_table_with_limits name [int64_field column] limits = Inr t0" "validate_row_capacity t0 ?rows = Inr ()"
    "?rows \<le> pl_max_rows plimits"
    "t = t0\<lparr>bt_row_count := ?rows, bt_value_bytes := u128_mul ?rows 8, bt_columns := [Int64Column ?vs],
      bt_partitions := Some \<lparr>ps_column = 0, ps_partitions = partition_rows_from 0 partitions\<rparr>\<rparr>"
    using assms(3) by (auto simp: batch_table_with_partitions_def Let_def result_simps split: if_splits)
  have rows: "?rows = length ?vs"
    using t0(4) assms(2) by (auto simp: foldl_saturating length_concat o_def split: if_splits)
  note core = with_limits_core [OF assms(1) t0(2)]
  have small: "length ?vs \<le> usize_max" using t0(4) assms(2) rows by linarith
  have "table_core_ok (t\<lparr>bt_partitions := None\<rparr>)"
    using with_column_core [OF core(1,2,5), of "Int64Column ?vs"] t0(3) small core(4)
    by (simp add: t0(5) rows column_ok_int64 column_bytes_int64 u128_mul_small)
  then have "table_core_ok t" by simp
  then show ?thesis
    using core validated_partitions_cover [OF t0(1)] by (simp add: batch_table_ok_def index_ok_def partitions_ok_def t0(5))
qed

section \<open>Promises\<close>

lemma reachable_ok: "table_reachable t \<Longrightarrow> batch_table_ok t"
proof (induction rule: table_reachable.induct)
  case (created limits name schema t)
  note core = with_limits_core [OF created]
  then show ?case by (simp add: batch_table_ok_def index_ok_def partitions_ok_def)
next
  case (stepped t op n t')
  then show ?case using step_refines_operation [of t op] by simp
qed (simp_all add: with_int64_values_ok with_nullable_values_ok with_partitions_ok)

text \<open>C8: Whatever operations a table of the second engine goes through, its columns stay aligned with its schema and
  of equal length, hold only values of their types and only finite doubles, its names stay valid, distinct and
  unreserved, it stays within its row, column and cell limits, its byte count is exactly the bytes its cells
  retain, its index is the one that building it again would give, and its partitions still bound their rows.\<close>

theorem batch_table_invariant:
  assumes "table_reachable t"
  shows "batch_table_ok t"
  using assms by (rule reachable_ok)

text \<open>A table of two rows.\<close>

lemmas example_defs =
  batch_table_with_int64_values_def batch_table_with_limits_def validate_row_capacity_def int64_field_def validate_table_name_def
  validate_sql_identifier_def is_valid_sql_identifier_def is_sql_identifier_start_def is_ascii_alphabetic_def
  is_ascii_lowercase_def is_ascii_uppercase_def is_reserved_column_name_def eq_ignore_ascii_case_def to_ascii_lowercase_def
  table_limits_ok_def table_limits_default_def table_limits_new_def saturating_add_def saturating_mul_def usize_max_def Let_def

lemma example_table:
  "table_limits_ok table_limits_default"
  "batch_table_with_int64_values ''t'' ''x'' [3, 1] table_limits_default =
    Inr \<lparr>bt_name = ''t'', bt_schema = [int64_field ''x''], bt_columns = [Int64Column [3, 1]], bt_row_count = 2,
      bt_value_bytes = 16, bt_limits = table_limits_default, bt_generation = 0, bt_index = None, bt_partitions = None\<rparr>"
  by (simp_all add: example_defs u128_mul_def u128_max_def)

theorem batch_table_invariant_witness:
  "\<exists>t. batch_table_with_int64_values ''t'' ''x'' [3, 1] table_limits_default = Inr t \<and> batch_table_ok t"
  using batch_table_invariant [OF created_int64 [OF example_table]] example_table(2) by blast

text \<open>C7: A table refines a list of rows. On every table that operations lead to, an operation never panics; it
  succeeds exactly when it is allowed on the rows (the values fit the fields, the row and cell limits hold, the
  selected rows are strictly increasing and in range, the names exist or are new and valid), and then the rows
  are those the operation means: appended, with omitted fields at their defaults, deleted, replaced in one
  field, extended or cut by a field, and unchanged by an index; otherwise it is an error.\<close>

theorem batch_table_refines_rows:
  assumes "table_reachable t" "op_ok op"
  shows "case table_step t op of
      Inl Panicked \<Rightarrow> False
    | Inl (Failed e) \<Rightarrow> spec_step (row_table_of t) op = None
    | Inr (n, t') \<Rightarrow> spec_step (row_table_of t) op = Some (n, row_table_of t')"
  using step_refines_operation [OF reachable_ok [OF assms(1)] assms(2)]
  by (auto simp: step_refines_def split: sum.splits failure.splits)

theorem batch_table_refines_rows_witness:
  "\<exists>t t'. batch_table_with_int64_values ''t'' ''x'' [3, 1] table_limits_default = Inr t \<and>
    table_step t (InsertRow [VInt64 7]) = Inr (0, t') \<and> rt_rows (row_table_of t') = [[VInt64 3], [VInt64 1], [VInt64 7]]"
proof -
  obtain t where t: "batch_table_with_int64_values ''t'' ''x'' [3, 1] table_limits_default = Inr t"
    "row_table_of t = \<lparr>rt_name = ''t'', rt_fields = [(int64_field ''x'', False)], rt_rows = [[VInt64 3], [VInt64 1]],
      rt_limits = table_limits_default\<rparr>"
    using example_table(2) by (simp add: row_table_of_def table_rows_def cells_rows_def numeral_2_eq_2)
  have "spec_step (row_table_of t) (InsertRow [VInt64 7]) =
      Some (0, (row_table_of t)\<lparr>rt_rows := [[VInt64 3], [VInt64 1], [VInt64 7]]\<rparr>)"
    by (simp add: t(2) spec_insert_def row_capacity_def row_fits_def int64_field_def table_limits_default_def table_limits_new_def)
  note spec = this
  have "case table_step t (InsertRow [VInt64 7]) of Inl Panicked \<Rightarrow> False
      | Inl (Failed e) \<Rightarrow> spec_step (row_table_of t) (InsertRow [VInt64 7]) = None
      | Inr (n, t') \<Rightarrow> spec_step (row_table_of t) (InsertRow [VInt64 7]) = Some (n, row_table_of t')"
    by (rule batch_table_refines_rows [OF created_int64 [OF example_table(1) t(1)]]) simp
  then obtain n t' where step: "table_step t (InsertRow [VInt64 7]) = Inr (n, t')"
    "Some (0, (row_table_of t)\<lparr>rt_rows := [[VInt64 3], [VInt64 1], [VInt64 7]]\<rparr>) = Some (n, row_table_of t')"
    unfolding spec by (auto split: sum.splits failure.splits)
  then have "n = 0" "row_table_of t' = (row_table_of t)\<lparr>rt_rows := [[VInt64 3], [VInt64 1], [VInt64 7]]\<rparr>" by simp_all
  moreover from this(2) have "rt_rows (row_table_of t') = [[VInt64 3], [VInt64 1], [VInt64 7]]" by (simp del: rt_simps)
  ultimately show ?thesis using t(1) step(1) by blast
qed

section \<open>Scans\<close>

fun scalar_matches :: "int64_filter \<Rightarrow> scalar \<Rightarrow> bool" where
  "scalar_matches flt (VInt64 v) \<longleftrightarrow> filter_matches flt v"
| "scalar_matches flt _ \<longleftrightarrow> False"

lemma int64_cells_scalar: "int64_cells c = Some vs \<Longrightarrow> column_cells c = map nullable_scalar vs"
  by (cases c) (auto simp: nullable_scalar_def)

lemma nullable_scalar_matches:
  "scalar_matches flt (nullable_scalar v) = cell_matches flt v" "nullable_scalar v = VNull TInt64 \<longleftrightarrow> v = None"
  by (auto simp: nullable_scalar_def cell_matches_def split: option.split)

lemma table_cell:
  assumes "columns_ok t" "column < length (bt_columns t)" "column_type (bt_columns t ! column) = TInt64" "i < bt_row_count t"
  shows "table_rows t ! i ! column = nullable_scalar (int64_cells_at t column ! i)"
proof -
  obtain vs where vs: "int64_cells (bt_columns t ! column) = Some vs" using int64_cells_type assms(3) by blast
  have "column_len (bt_columns t ! column) = bt_row_count t" using assms(1,2) by (simp add: columns_ok_def list_all_length)
  then have "length vs = bt_row_count t" using int64_cells_scalar [OF vs] by (simp add: column_len_cells)
  then show ?thesis using assms(2,4) vs by (simp add: table_rows_def cells_rows_def int64_cells_scalar int64_cells_at_def)
qed

lemma ranges_cover_cong:
  assumes "ranges_cover asked n P ranges" "\<And>i. i < n \<Longrightarrow> P i = Q i"
  shows "ranges_cover asked n Q ranges"
  using assms unfolding ranges_cover_def by blast

text \<open>C9: The sparse index of a table is never stale and never hides a row. On every table that operations lead to,
  a scan of the indexed column for a comparison, or for nulls or their absence, within any range of rows is answered
  from the index, with ascending disjoint ranges of existing rows inside that range, and every row of it whose
  value matches lies in one of them.\<close>

theorem index_scan_prunes_no_match:
  assumes "table_reachable t" "bt_index t = Some x"
  shows "(\<exists>s. min_max_index_scan t (mi_column x) flt (lower, bound) = Some s \<and>
      ranges_cover (lower, bound) (bt_row_count t) (\<lambda>i. scalar_matches flt (table_rows t ! i ! mi_column x)) (is_ranges s)) \<and>
    (\<exists>s. min_max_nullness_index_scan t (mi_column x) is_null (lower, bound) = Some s \<and>
      ranges_cover (lower, bound) (bt_row_count t) (\<lambda>i. (table_rows t ! i ! mi_column x = VNull TInt64) = is_null) (is_ranges s))"
proof -
  have ok: "index_ok t" "columns_ok t" "bt_row_count t \<le> usize_max"
    using reachable_ok [OF assms(1)] by (simp_all add: batch_table_ok_def table_core_ok_def table_limits_ok_def)
  have "build_min_max_index t (mi_column x) (mi_limits x) = Inr x" using ok(1) assms(2) by (simp add: index_ok_def)
  note fits = build_index_fits [OF this]
  have cell: "table_rows t ! i ! mi_column x = nullable_scalar (int64_cells_at t (mi_column x) ! i)" if "i < bt_row_count t" for i
    using table_cell [OF ok(2) fits(4,5) that] .
  obtain s where s: "min_max_index_scan t (mi_column x) flt (lower, bound) = Some s"
    "ranges_cover (lower, bound) (bt_row_count t) (\<lambda>i. cell_matches flt (int64_cells_at t (mi_column x) ! i)) (is_ranges s)"
    using value_test.scan_covers [OF ok assms(2), where flt = flt and lower = lower and bound = bound] by (auto simp: min_max_index_scan_def)
  obtain s' where s': "min_max_nullness_index_scan t (mi_column x) is_null (lower, bound) = Some s'"
    "ranges_cover (lower, bound) (bt_row_count t) (\<lambda>i. (int64_cells_at t (mi_column x) ! i = None) = is_null) (is_ranges s')"
    using null_test.scan_covers [OF ok assms(2), where is_null = is_null and lower = lower and bound = bound] by (auto simp: min_max_nullness_index_scan_def)
  have "ranges_cover (lower, bound) (bt_row_count t) (\<lambda>i. scalar_matches flt (table_rows t ! i ! mi_column x)) (is_ranges s)"
    by (rule ranges_cover_cong [OF s(2)]) (simp add: cell nullable_scalar_matches)
  moreover have "ranges_cover (lower, bound) (bt_row_count t) (\<lambda>i. (table_rows t ! i ! mi_column x = VNull TInt64) = is_null) (is_ranges s')"
    by (rule ranges_cover_cong [OF s'(2)]) (simp add: cell nullable_scalar_matches)
  ultimately show ?thesis using s(1) s'(1) by blast
qed

lemma example_indexed:
  "try_create_min_max_index
    \<lparr>bt_name = ''t'', bt_schema = [int64_field ''x''], bt_columns = [Int64Column [3, 1]], bt_row_count = 2,
      bt_value_bytes = 16, bt_limits = table_limits_default, bt_generation = 0, bt_index = None, bt_partitions = None\<rparr>
    ''x'' (min_max_limits_new 1 8 1024) =
   Inr (IndexCreated \<lparr>mf_column = ''x'', mf_block_rows = 1, mf_block_count = 2, mf_indexed_rows = 2, mf_retained_bytes = 112\<rparr>,
    \<lparr>bt_name = ''t'', bt_schema = [int64_field ''x''], bt_columns = [Int64Column [3, 1]], bt_row_count = 2,
      bt_value_bytes = 16, bt_limits = table_limits_default, bt_generation = 0, bt_index = Some
       \<lparr>mi_column = 0, mi_limits = min_max_limits_new 1 8 1024, mi_indexed_rows = 2, mi_generation = 0, mi_blocks =
         [\<lparr>mb_first_row = 0, mb_row_count = 1, mb_min = Some 3, mb_max = Some 3, mb_null_count = 0\<rparr>,
          \<lparr>mb_first_row = 1, mb_row_count = 1, mb_min = Some 1, mb_max = Some 1, mb_null_count = 0\<rparr>]\<rparr>,
      bt_partitions = None\<rparr>)"
  by (simp add: try_create_min_max_index_def batch_column_index_def int64_field_def eq_ignore_ascii_case_def min_max_limits_new_def
      build_min_max_index_def div_ceil_def saturating_mul_def saturating_add_def usize_max_def min_max_block_size_def
      summarize_blocks_def summarize_block_def row_chunks.simps min_max_index_info_def slice_get_def Let_def)

theorem index_scan_prunes_no_match_witness:
  "\<exists>t x s. table_reachable t \<and> bt_index t = Some x \<and> min_max_index_scan t 0 (FilterGreater 2) (0, 2) = Some s \<and>
    ranges_cover (0, 2) 2 (\<lambda>i. scalar_matches (FilterGreater 2) (table_rows t ! i ! 0)) (is_ranges s)"
proof -
  let ?op = "CreateIndex ''x'' (min_max_limits_new 1 8 1024)"
  obtain t x where step: "table_step \<lparr>bt_name = ''t'', bt_schema = [int64_field ''x''], bt_columns = [Int64Column [3, 1]],
      bt_row_count = 2, bt_value_bytes = 16, bt_limits = table_limits_default, bt_generation = 0, bt_index = None,
      bt_partitions = None\<rparr> ?op = Inr (1, t)" and t: "bt_index t = Some x" "mi_column x = 0" "bt_row_count t = 2"
    by (simp add: example_indexed [unfolded One_nat_def])
  have reach: "table_reachable t" by (rule stepped [OF created_int64 [OF example_table] _ step]) simp
  from index_scan_prunes_no_match [OF reach t(1), of "FilterGreater 2" 0 2 False]
  show ?thesis using reach t by auto
qed

text \<open>C10: The range partitions hide no row: when a table still has them, every row whose key matches a comparison lies in
  the range of rows they leave to scan, and that range lies in the table. Any change of the values discards
  them, and then the whole table is scanned.\<close>

theorem partitions_prune_no_match:
  assumes "table_reachable t" "int64_range_partition_rows t column flt = Some (lower, bound)"
  shows "lower \<le> bound \<and> bound \<le> bt_row_count t \<and>
    (\<forall>i < bt_row_count t. scalar_matches flt (table_rows t ! i ! column) \<longrightarrow> lower \<le> i \<and> i < bound)"
proof -
  have ok: "partitions_ok t" "columns_ok t"
    using reachable_ok [OF assms(1)] by (simp_all add: batch_table_ok_def table_core_ok_def)
  obtain vs where vs: "bt_columns t = [Int64Column vs]" "column = 0" "length vs = bt_row_count t"
    "lower \<le> bound" "bound \<le> bt_row_count t" "\<And>i. i < bt_row_count t \<Longrightarrow> filter_matches flt (vs ! i) \<Longrightarrow> lower \<le> i \<and> i < bound"
    using partition_rows_cover [OF ok(1) assms(2) ok(2)] by blast
  have "table_rows t ! i ! column = VInt64 (vs ! i)" if "i < bt_row_count t" for i
    using that vs(1-3) by (simp add: table_rows_def cells_rows_def)
  then show ?thesis using vs(4-6) by simp
qed

lemma example_partitioned:
  "batch_table_with_partitions ''t'' ''x''
    [\<lparr>rp_lower = 0, rp_upper = 9, rp_values = [3, 1]\<rparr>, \<lparr>rp_lower = 10, rp_upper = 19, rp_values = [12]\<rparr>]
    partition_limits_default table_limits_default =
   Inr \<lparr>bt_name = ''t'', bt_schema = [int64_field ''x''], bt_columns = [Int64Column [3, 1, 12]], bt_row_count = 3,
      bt_value_bytes = 24, bt_limits = table_limits_default, bt_generation = 0, bt_index = None, bt_partitions =
        Some \<lparr>ps_column = 0, ps_partitions =
          [\<lparr>pm_lower = 0, pm_upper = 9, pm_row_start = 0, pm_row_end = 2\<rparr>,
           \<lparr>pm_lower = 10, pm_upper = 19, pm_row_start = 2, pm_row_end = 3\<rparr>]\<rparr>\<rparr>"
  by (simp add: batch_table_with_partitions_def partition_limits_default_def partition_limits_new_def outside_partition_def
      example_defs u128_mul_def u128_max_def)

theorem partitions_prune_no_match_witness:
  "\<exists>t. table_reachable t \<and> int64_range_partition_rows t 0 (FilterGreater 9) = Some (2, 3) \<and>
    scalar_matches (FilterGreater 9) (table_rows t ! 2 ! 0) \<and> \<not> scalar_matches (FilterGreater 9) (table_rows t ! 1 ! 0)"
proof -
  obtain t where t: "batch_table_with_partitions ''t'' ''x''
      [\<lparr>rp_lower = 0, rp_upper = 9, rp_values = [3, 1]\<rparr>, \<lparr>rp_lower = 10, rp_upper = 19, rp_values = [12]\<rparr>]
      partition_limits_default table_limits_default = Inr t"
    "int64_range_partition_rows t 0 (FilterGreater 9) = Some (2, 3)" "bt_row_count t = 3" "bt_columns t = [Int64Column [3, 1, 12]]"
    by (simp add: example_partitioned int64_range_partition_rows_def)
  have reach: "table_reachable t"
    by (rule created_partitions [OF example_table(1) t(1)]) (simp add: partition_limits_default_def partition_limits_new_def usize_max_def)
  have "\<not> scalar_matches (FilterGreater 9) (table_rows t ! 1 ! 0)"
    using partitions_prune_no_match [OF reach t(2), THEN conjunct2, THEN conjunct2, rule_format, of 1] t(3) by auto
  then show ?thesis using reach t by (auto simp: table_rows_def cells_rows_def)
qed

end
