(* ===== verification/Spec2Isabelle.thy ===== *)
theory Spec2Isabelle
  imports Sql_Session Shared_Catalog Sql_Errors Wal_Registry_Recovery Int64_Sums Scalar_Text Batch_Table_Spec
begin

text \<open>
  RustHouse: a bounded, in-process analytical database.

  \<^bold>\<open>The program.\<close> RustHouse stores one-column tables of nullable 64-bit integers, fills
  them from \<^verbatim>\<open>INSERT\<close> statements, CSV documents and snapshot files, and answers a
  small SQL. Every operation takes explicit resource bounds, checks them before it does any work, and
  reports what exceeded what. The parts, bottom up (all under \<^verbatim>\<open>src/src/\<close>): tables
  (\<^verbatim>\<open>storage.rs\<close>); the vectorised operators scan, aggregate, order, distinct, group
  and join (\<^verbatim>\<open>scan.rs\<close>, \<^verbatim>\<open>aggregate.rs\<close>,
  \<^verbatim>\<open>order.rs\<close>, \<^verbatim>\<open>distinct.rs\<close>,
  \<^verbatim>\<open>grouping.rs\<close>, \<^verbatim>\<open>join.rs\<close>); CSV ingestion
  (\<^verbatim>\<open>csv.rs\<close>); the parser (\<^verbatim>\<open>parser.rs\<close>) and the
  execution of its statements (\<^verbatim>\<open>execution.rs\<close>); snapshot files
  (\<^verbatim>\<open>snapshot.rs\<close>); the catalog of named tables
  (\<^verbatim>\<open>catalog.rs\<close>) and its shared, locked handle
  (\<^verbatim>\<open>shared_catalog.rs\<close>). A statement text travels parser, catalog, executor,
  operators, table; each layer wraps the errors of the one below.

  The directory \<^verbatim>\<open>batch/\<close> is a second engine, with tables of many typed columns.
  Modelled of it are its values (\<^verbatim>\<open>value.rs\<close>), its tables with their block and
  partition indexes (\<^verbatim>\<open>storage.rs\<close>), the functions on integers, strings and casts
  (\<^verbatim>\<open>scalar_*.rs\<close>), the parallel aggregates (\<^verbatim>\<open>aggregate_scheduler.rs\<close>,
  \<^verbatim>\<open>grouped_*.rs\<close>, \<^verbatim>\<open>global_*.rs\<close>) and the write-ahead log
  (\<^verbatim>\<open>wal.rs\<close>), of one table and of a registry of tables.

  \<^bold>\<open>Conventions.\<close> \<open>usize\<close> is a natural number whose 64-bit bound is written out
  wherever the code checks it (\<open>checked_add\<close>, \<open>checked_mul\<close>, \<open>saturating_add\<close>,
  \<open>usize_max\<close>); \<open>i64\<close> and the unsigned integers are machine words, read with
  \<open>sint\<close> and \<open>unat\<close>; strings are lists of bytes. A \<open>Result\<close> is a sum whose
  \<open>Inl\<close> holds the source's error constructor with its fields; an operation by mutable reference
  returns its result and the new state. Human-readable messages (the \<open>Display\<close> and
  \<open>Error\<close> implementations) are not modelled: errors are compared as values.

  \<^bold>\<open>The theories.\<close>
  \<^item> \<open>Prelude\<close>: types, results, the fragments of the Rust standard library the sources use
    (checked arithmetic, little-endian fields, ASCII classes, decimal parsing and printing, readers).
  \<^item> \<open>Storage\<close>: schema, table, single and batch append. The locale \<open>row_sink\<close> is the
    contract of an all-or-nothing batch append, interpreted on the table; a batch equals appending its
    rows one by one.
  \<^item> \<open>Scan\<close>, \<open>Aggregate\<close>, \<open>Top_K\<close>, \<open>Distinct_Group\<close>,
    \<open>Join\<close>: the operators as the loops of the code (the bounded heap of \<open>Top_K\<close> behind
    a locale for a max-heap, the ordered set and map loops, the hash index of the joins), each equal to
    its relational meaning (filter, counts and sum, the first rows of the stable sort, the nested-loop
    join), with the exact condition under which a bound is reported.
  \<^item> \<open>Csv\<close>: ingestion from bytes and from a reader. Success, the appended values and the first
    bad line are characterised; chunking is irrelevant; a written document reads back.
  \<^item> \<open>Sql_Parser\<close>: the recursive-descent parser as steps on a position, every one of its nine
    statements. \<open>Sql_Language\<close> and \<open>Sql_Grammar\<close> give a declarative grammar and the
    rules that relate each parser step to it; \<open>Sql_Statements\<close> proves that the entry points
    accept exactly the grammar and that printed \<open>SELECT\<close> trees parse back;
    \<open>Sql_Errors\<close> that every error offset lies in the text.
  \<^item> \<open>Execution\<close>: the statement executors and their meaning on the rows of a table.
  \<^item> \<open>Crc_Envelope\<close>: the checksummed envelope. Round trip, and detection of every changed byte,
    of every replaced window of four bytes, of cuts and extensions.
  \<^item> \<open>Offset_Format\<close>: the locale of formats that are checked and read item by item at a moving
    offset, interpreted by \<open>Nullable_Codec\<close>, \<open>Rle_Codec\<close> and \<open>Table_Codec\<close>,
    the three payload formats; decoding inverts encoding, and only such payloads are accepted (for runs:
    the encoder's payload is the shortest).
  \<^item> \<open>File_Replace\<close>: exclusive creation and atomic replacement of a file. The directory is a
    state, the operating system an \<open>environment\<close> that may fail any call (by its number), cut any
    write, alias names and refuse long ones. The statements hold for every environment; a crash is one in
    which all later calls fail.
  \<^item> \<open>Restore\<close>: bounded reads of a regular file (a \<open>probe\<close>: what each call on it
    answers), the save, restore and recovery functions; what was saved is what is restored.
  \<^item> \<open>Catalog\<close>: the catalog. The locale \<open>table_operation\<close> is the contract of an
    operation on one table (append admitted rows or change nothing), interpreted on insertion, both CSV
    paths and the two append methods; the invariant and the history of the catalog follow from it.
    \<open>Catalog_Spec\<close> specifies every operation on a map from names to schema and rows, and proves
    that the catalog refines it, outcomes included.
  \<^item> \<open>Shared_Catalog\<close>: the methods under the readers-writer lock. Threads acquire it, work
    and release it in interleaved steps, and a panic of a writer poisons it; the history of completed
    calls is that of a sequential execution, and a poisoned lock answers every method.
  \<^item> \<open>Sql_Session\<close>: the layers together: what a query text answers after any operations.

  \<^item> \<open>Wal_Format\<close>, \<open>Wal_Replay\<close>, \<open>Wal_Log\<close>, \<open>Wal_Writer\<close>: the write-ahead
    log of one table of the second engine (\<^verbatim>\<open>batch/wal.rs\<close>): the fields and records, the
    recovery loop with every check in its order, the meaning of a log as a list of operations, and the
    writer over the file system of \<open>File_Replace\<close>. What a crash leaves (any part of the file that
    contains what was synchronised) recovers to the acknowledged operations. A change within four
    consecutive payload bytes of a committed record, or any other that changes its checksum, is reported.
  \<^item> \<open>Wal_Manifest\<close>, \<open>Wal_Registry\<close>, \<open>Wal_Registry_Inv\<close>,
    \<open>Wal_Registry_Recovery\<close>: the registry of logs (\<^verbatim>\<open>batch/wal.rs\<close>): the manifest that names the logs, creating, replacing and
    committing to them, poisoning after a failed write, and opening all of them again. Every table recovers
    to the operations that were acknowledged, and a poisoned registry writes nothing.

  \<^item> \<open>Batch_Value\<close>, \<open>Batch_Error\<close>: values of the second engine
    (\<^verbatim>\<open>batch/value.rs\<close>), with doubles as their bit patterns: the SQL comparison is exact,
    also between integers and doubles; the order used for grouping and its hash agree.
  \<^item> \<open>Scalar_Text\<close>: the functions on nullable integers and strings and the casts. The text of an
    integer is the loop of the code, proved to end and to print the decimal notation; the casts accept
    exactly the texts of the values of their type.
  \<^item> \<open>Batch_Column\<close>, \<open>Batch_Table\<close>: a table of the second engine as the code
    stores it: one typed vector per column, byte counts, bounds of blocks and of partitions,
    and every operation on it. \<open>Batch_Column_Cells\<close> and \<open>Batch_Rows\<close> give the
    abstract side: the cells a column stands for, a table as schema and rows, the steps of both and the
    invariant. \<open>Batch_Table_Inv\<close> proves the invariant of every reachable table,
    \<open>Batch_Table_Refine\<close> that each operation refines the one on rows, outcomes included.
    \<open>Batch_Index\<close> holds the locale \<open>block_test\<close>, the contract of a test that may skip
    a block of rows, interpreted on the comparison with a value and on the test for nulls;
    \<open>Batch_Table_Spec\<close> states the results, among them that no index skips a matching row.
  \<^item> \<open>Aggregate_Scheduler\<close>: lanes of a parallel aggregate, the budget of helper threads as
    interleaved atomic steps, the partition of the rows and the driver. The locale
    \<open>ordered_reducer\<close> is the contract under which the driver computes what one pass computes,
    whatever is admitted and whichever threads fail; \<open>row_fold\<close> gives it for reducers that fold a
    step, and is interpreted on each reducer: \<open>Grouped_Count\<close>, \<open>Extremum\<close> (with the
    locale \<open>preference\<close>) and \<open>Int64_Sums\<close>.

  \<^bold>\<open>Bounds and fuel.\<close> No definition uses fuel: all loops of these modules are structural, run a
  counted number of times (the at most \<open>128\<close> attempts for a temporary name,
  \<open>temporary_create_attempts\<close>) or decrease the unread text or file. The digit loop of
  \<open>Scalar_Text\<close> is a \<open>partial_function\<close> whose value would be \<open>None\<close> if it
  did not end; that it ends is a theorem. Statements about payload lengths assume
  that a slice is shorter than \<open>usize_max\<close>, which Rust guarantees (at most \<open>isize::MAX\<close>
  bytes); those about the tables of the second engine that their limits are below \<open>usize_max\<close>
  (\<open>table_limits_ok\<close>).

  \<^bold>\<open>Parameters.\<close> The allocator (\<open>can_reserve\<close> in the run-length decoder), the file
  system (\<open>environment\<close>, \<open>probe\<close>), readers (\<open>read_event\<close> lists), the process id
  and the shared counter of temporary names are arguments of the definitions that use them. The hash maps
  of the join index and the catalog are modelled by their contents, in no particular order.

  \<^bold>\<open>Not modelled.\<close> Of the second engine (\<^verbatim>\<open>batch/\<close>): its query language and executor
  (\<^verbatim>\<open>sql.rs\<close>, \<^verbatim>\<open>engine.rs\<close>), its catalog and shared handle
  (\<^verbatim>\<open>catalog.rs\<close>, \<^verbatim>\<open>shared_database.rs\<close>), its text formats
  (\<^verbatim>\<open>csv.rs\<close>, \<^verbatim>\<open>tsv.rs\<close>,
  \<^verbatim>\<open>json_compact_each_row.rs\<close>, \<^verbatim>\<open>format.rs\<close>), and parsing,
  printing and rounding of doubles. The HTTP server
  (\<^verbatim>\<open>http.rs\<close>) and the command line (\<^verbatim>\<open>cli.rs\<close>,
  \<^verbatim>\<open>main.rs\<close>); error messages; the examples and tests. Durability beyond the
  synchronised contents (what a disk keeps after a power loss) is visible only as the \<open>synced\<close>
  field of the directory.
\<close>

end
